(* ===== verification/Zb_Prelude.thy ===== *)
theory Zb_Prelude
  imports Main "HOL-Library.Word"
begin

text \<open>
  Prelude of the zigbee-remote development: the machine integer types of the C and C++
  sources, the named collections of facts the component theories fill, and the generic
  facts on words, byte lists and association-style searches that several components use.

  Unsigned C integers are words of their width (so \<open>+\<close> and \<open>-\<close> wrap as in C).  Signed
  C integers (\<open>int16_t\<close>, \<open>int32_t\<close>, \<open>int\<close>, \<open>ssize_t\<close>) are HOL integers; the conversions
  between a signed and an unsigned type of the same width, which C++20 defines as
  two's complement, are \<open>word_of_int\<close> and \<open>sint\<close>.
\<close>

unbundle bit_operations_syntax

type_synonym u8 = "8 word"
type_synonym u16 = "16 word"
type_synonym u32 = "32 word"
type_synonym u64 = "64 word"
type_synonym bytes = "u8 list"

abbreviation int16_range :: "int \<Rightarrow> bool" where
  "int16_range v \<equiv> - (2 ^ 15) \<le> v \<and> v < 2 ^ 15"

abbreviation int32_range :: "int \<Rightarrow> bool" where
  "int32_range v \<equiv> - (2 ^ 31) \<le> v \<and> v < 2 ^ 31"

named_theorems wire_defs \<open>definitions of the payload layouts\<close>
named_theorems engine_defs \<open>definitions of the engine operations\<close>
named_theorems stream_simps \<open>effect of an operation on the byte streams of a socket\<close>
named_theorems stack_defs \<open>definitions of the Zigbee stack adapter\<close>

section \<open>Two's complement\<close>

lemma sint_word_of_int_16:
  assumes "int16_range v"
  shows "sint (word_of_int v :: u16) = v"
  using assms by (simp add: sint_sbintrunc' signed_take_bit_int_eq_self_iff)

lemma sint_word_of_int_32:
  assumes "int32_range v"
  shows "sint (word_of_int v :: u32) = v"
  using assms by (simp add: sint_sbintrunc' signed_take_bit_int_eq_self_iff)

lemma int16_range_sint: "int16_range (sint (w :: u16))"
  using sint_range_size [of w] by (simp add: word_size)

lemma int32_range_sint: "int32_range (sint (w :: u32))"
  using sint_range_size [of w] by (simp add: word_size)

section \<open>Byte lists of a fixed length\<close>

lemma length_Suc_0_conv: "length xs = Suc 0 \<longleftrightarrow> (\<exists>a. xs = [a])"
  by (auto simp: length_Suc_conv)

lemma take_append_len [simp]: "n = length xs \<Longrightarrow> take n (xs @ ys) = xs"
  by simp

lemma drop_append_len [simp]: "n = length xs \<Longrightarrow> drop n (xs @ ys) = ys"
  by simp

lemma take_drop_split: "n \<le> m \<Longrightarrow> take n xs @ take (m - n) (drop n xs) = take m xs"
  by (simp add: take_add [symmetric])

section \<open>Counting down in bounded steps\<close>

text \<open>
  The loops \<open>while (n > 0) { c = min(n, k); ...; n -= c; }\<close> of the sources: the counter is a
  32-bit word and strictly decreases.
\<close>

lemma chunk_le: "unat (if n < c then n else c) \<le> unat (n :: u32)"
  by (auto simp: word_less_nat_alt)

lemma unat_chunk_sub: "unat (n - (if n < c then n else c)) = unat n - unat (if n < c then n else c :: u32)"
  using chunk_le [of n c] by (simp add: unat_sub word_le_nat_alt)

lemma chunk_less: "n \<noteq> 0 \<Longrightarrow> 0 < c \<Longrightarrow> unat (n - (if n < c then n else c)) < unat (n :: u32)"
  unfolding unat_chunk_sub by (auto simp: unat_gt_0 word_less_nat_alt)

lemma chunk_less_ge: "\<not> n < c \<Longrightarrow> 0 < c \<Longrightarrow> unat (n - c) < unat (n :: u32)"
  using chunk_less [of n c] by auto

section \<open>Loop counters\<close>

text \<open>The values of a loop counter that starts at \<open>i\<close>, stays below \<open>n\<close> and grows by \<open>d\<close>.\<close>

function steps :: "nat \<Rightarrow> nat \<Rightarrow> nat \<Rightarrow> nat list" where
  "steps i n d = (if d = 0 \<or> n \<le> i then [] else i # steps (i + d) n d)"
  by pat_completeness auto
termination by (relation "measure (\<lambda>(i, n, d). n - i)") auto

declare steps.simps [simp del]

lemma steps_eq: "0 < d \<Longrightarrow> steps (a * d) (n * d) d = map (\<lambda>b. b * d) [a..<n]"
proof (induction "n - a" arbitrary: a)
  case 0
  then show ?case
    by (subst steps.simps) simp
next
  case (Suc k)
  then have "steps (Suc a * d) (n * d) d = map (\<lambda>b. b * d) [Suc a..<n]"
    by (intro Suc.hyps(1)) simp_all
  with Suc show ?case
    by (subst steps.simps) (simp add: upt_conv_Cons add.commute)
qed

lemma fold_update_map:
  "n \<le> length p \<Longrightarrow> fold (\<lambda>i p. p[i := f (p ! i)]) [0..<n] p = map f (take n p) @ drop n p"
proof (induction n)
  case (Suc n)
  then show ?case
    by (simp add: nth_append list_update_append take_Suc_conv_app_nth Cons_nth_drop_Suc [symmetric])
qed simp

lemma below_cases:
  "(\<forall>i<Suc n. P i) \<longleftrightarrow> P n \<and> (\<forall>i<n. P i)" "(\<forall>i<0. P i) \<longleftrightarrow> True"
  "(\<forall>i<numeral k. P i) \<longleftrightarrow> P (pred_numeral k) \<and> (\<forall>i<pred_numeral k. P i)"
  by (auto simp: less_Suc_eq numeral_eq_Suc)

section \<open>Blocks of a fixed length\<close>

lemma length_concat_blocks: "(\<And>i. i < n \<Longrightarrow> length (F i) = m) \<Longrightarrow> length (concat (map F [0..<n])) = n * m"
  by (induction n) simp_all

lemma concat_blocks_nth:
  "(\<And>i. i < n \<Longrightarrow> length (F i) = m) \<Longrightarrow> i < n \<Longrightarrow> b < m \<Longrightarrow> concat (map F [0..<n]) ! (i * m + b) = F i ! b"
proof (induction n)
  case (Suc n)
  have "i * m + b < n * m" if "i < n"
  proof -
    have "Suc i * m \<le> n * m"
      using that by (intro mult_le_mono1) simp
    with Suc.prems(3) show ?thesis
      by simp
  qed
  with Suc show ?case
    by (cases "i = n") (simp_all add: nth_append length_concat_blocks)
qed simp

section \<open>Number of binary digits (std::bit_width)\<close>

fun bit_width :: "nat \<Rightarrow> nat" where
  "bit_width n = (if n = 0 then 0 else Suc (bit_width (n div 2)))"

declare bit_width.simps [simp del]

lemma less_bit_width: "n < 2 ^ bit_width n"
proof (induction n rule: bit_width.induct)
  case (1 n)
  show ?case
  proof (cases "n = 0")
    case False
    with 1 have "n div 2 < 2 ^ bit_width (n div 2)"
      by simp
    then have "n < 2 * 2 ^ bit_width (n div 2)"
      by linarith
    with False show ?thesis
      by (subst bit_width.simps) simp
  qed simp
qed

lemma bit_width_le: "n < 2 ^ k \<Longrightarrow> bit_width n \<le> k"
proof (induction k arbitrary: n)
  case (Suc k)
  then have "n div 2 < 2 ^ k"
    by (simp add: less_mult_imp_div_less mult.commute)
  with Suc.IH show ?case
    by (subst bit_width.simps) simp
qed (simp add: bit_width.simps)

section \<open>Conversions between word lengths\<close>

lemma unat_ucast_up:
  assumes "LENGTH('a::len) \<le> LENGTH('b::len)"
  shows "unat (ucast (w :: 'a word) :: 'b word) = unat w"
proof -
  have "unat w < 2 ^ LENGTH('b)"
    using unsigned_less [of w, where ?'a = nat] assms by (meson less_le_trans one_le_numeral power_increasing)
  then show ?thesis
    by (simp add: unsigned_ucast_eq take_bit_nat_eq_self)
qed

lemma unat_ucast_small:
  assumes "unat (w :: 'a::len word) < 2 ^ LENGTH('b::len)"
  shows "unat (ucast w :: 'b word) = unat w"
  using assms by (simp add: unsigned_ucast_eq take_bit_nat_eq_self)

lemma bit_times_2: "bit (x * 2 :: 'a::len word) n \<longleftrightarrow> n \<noteq> 0 \<and> n < LENGTH('a) \<and> bit x (n - 1)"
  using bit_double_iff [of x n] by (auto simp: mult.commute [of 2])

lemma byte_bit_beyond: "8 \<le> n \<Longrightarrow> bit (b :: u8) n = False"
  using bit_imp_le_length [of b n] by auto

text \<open>\<open>std::copy_n\<close> and \<open>std::fill_n\<close> into an array.\<close>

definition overwrite :: "nat \<Rightarrow> 'a list \<Rightarrow> 'a list \<Rightarrow> 'a list" where
  "overwrite p xs ys = take p ys @ xs @ drop (p + length xs) ys"

lemma length_overwrite [simp]: "p + length xs \<le> length ys \<Longrightarrow> length (overwrite p xs ys) = length ys"
  by (simp add: overwrite_def)

lemma overwrite_nth:
  assumes "p + length xs \<le> length ys" "i < length ys"
  shows "overwrite p xs ys ! i = (if p \<le> i \<and> i < p + length xs then xs ! (i - p) else ys ! i)"
  using assms by (auto simp: overwrite_def nth_append)

end
