(* ===== verification/Protocol.thy ===== *)
theory Protocol
  imports Zb_Prelude
begin

text \<open>
  The wire protocol of \<^verbatim>\<open>zb_rpc_shared/include/zb_rpc/protocol.hpp\<close>: little-endian scalars,
  API identifiers and error codes, the frame header, the packed payload structures with
  their memory layouts, and the catalogue of RPC descriptors.

  A payload type \<open>T\<close> of the C++ templates is a value of type \<open>'a wire_type\<close>: its size, its
  object representation and the inverse reading of it.  The locale \<open>wire_layout\<close> states what
  the engine relies on (the two round trips and the size bound), and every payload type
  of the protocol is an interpretation of it.
\<close>

section \<open>Constants and little-endian scalars\<close>

definition k_magic :: u32 where
  "k_magic = 0x32435052"

definition k_max_payload :: u32 where
  "k_max_payload = 64"

definition k_default_port :: u16 where
  "k_default_port = 3333"

definition k_default_host :: string where
  "k_default_host = ''192.168.11.2''"

datatype le16 = Le16 u8 u8

datatype le32 = Le32 u8 u8 u8 u8

definition to_le16 :: "u16 \<Rightarrow> le16" where
  "to_le16 v = Le16 (ucast v) (ucast (drop_bit 8 v))"

fun from_le16 :: "le16 \<Rightarrow> u16" where
  "from_le16 (Le16 b0 b1) = ucast b0 OR push_bit 8 (ucast b1)"

definition to_le16_s :: "int \<Rightarrow> le16" where
  "to_le16_s v = to_le16 (word_of_int v)"

definition from_le16_s :: "le16 \<Rightarrow> int" where
  "from_le16_s x = sint (from_le16 x)"

definition to_le32 :: "u32 \<Rightarrow> le32" where
  "to_le32 v = Le32 (ucast v) (ucast (drop_bit 8 v)) (ucast (drop_bit 16 v))
                    (ucast (drop_bit 24 v))"

fun from_le32 :: "le32 \<Rightarrow> u32" where
  "from_le32 (Le32 b0 b1 b2 b3) =
     ucast b0 OR push_bit 8 (ucast b1) OR push_bit 16 (ucast b2) OR push_bit 24 (ucast b3)"

definition to_le32_s :: "int \<Rightarrow> le32" where
  "to_le32_s v = to_le32 (word_of_int v)"

definition from_le32_s :: "le32 \<Rightarrow> int" where
  "from_le32_s x = sint (from_le32 x)"

text \<open>The object representation of the two scalars, and reading it back.\<close>

fun le16_bytes :: "le16 \<Rightarrow> bytes" where
  "le16_bytes (Le16 b0 b1) = [b0, b1]"

fun le32_bytes :: "le32 \<Rightarrow> bytes" where
  "le32_bytes (Le32 b0 b1 b2 b3) = [b0, b1, b2, b3]"

definition le16_at :: "nat \<Rightarrow> bytes \<Rightarrow> le16" where
  "le16_at i bs = Le16 (bs ! i) (bs ! (i + 1))"

definition le32_at :: "nat \<Rightarrow> bytes \<Rightarrow> le32" where
  "le32_at i bs = Le32 (bs ! i) (bs ! (i + 1)) (bs ! (i + 2)) (bs ! (i + 3))"

section \<open>Identifiers and error codes\<close>

text \<open>
  \<open>enum class api_id : uint32_t\<close>: any 32-bit value can be cast to it, so an identifier is
  a word and the enumerators are a separate type with their values.
\<close>

type_synonym api_id = u32

datatype api_enum =
    Api_error | Api_get_short_addr | Api_get_panid | Api_get_channel | Api_open_network
  | Api_wait_annce | Api_find_sensor | Api_read_basic | Api_bind_sensor
  | Api_subscribe_sensor | Api_config_report | Api_read_temp | Api_get_last_temp
  | Api_get_sensor_addr

fun api_value :: "api_enum \<Rightarrow> api_id" where
  "api_value Api_error = 0"
| "api_value Api_get_short_addr = 1"
| "api_value Api_get_panid = 2"
| "api_value Api_get_channel = 3"
| "api_value Api_open_network = 4"
| "api_value Api_wait_annce = 5"
| "api_value Api_find_sensor = 6"
| "api_value Api_read_basic = 7"
| "api_value Api_bind_sensor = 8"
| "api_value Api_subscribe_sensor = 9"
| "api_value Api_config_report = 10"
| "api_value Api_read_temp = 11"
| "api_value Api_get_last_temp = 12"
| "api_value Api_get_sensor_addr = 13"

datatype error_code = Err_none | Bad_magic | Oversized_payload | Unknown_api | Payload_mismatch

fun error_value :: "error_code \<Rightarrow> u32" where
  "error_value Err_none = 0"
| "error_value Bad_magic = 1"
| "error_value Oversized_payload = 2"
| "error_value Unknown_api = 3"
| "error_value Payload_mismatch = 4"

section \<open>Headers\<close>

record wire_header =
  wh_magic :: le32
  wh_id :: le32
  wh_size :: le32

record frame_header =
  fh_id :: api_id
  fh_size :: u32

definition wire_header_size :: nat where
  "wire_header_size = 12"

definition wire_header_bytes :: "wire_header \<Rightarrow> bytes" where
  "wire_header_bytes h = le32_bytes (wh_magic h) @ le32_bytes (wh_id h) @ le32_bytes (wh_size h)"

definition wire_header_of :: "bytes \<Rightarrow> wire_header" where
  "wire_header_of bs =
     \<lparr>wh_magic = le32_at 0 bs, wh_id = le32_at 4 bs, wh_size = le32_at 8 bs\<rparr>"

section \<open>Payload structures\<close>

record ErrorResp = er_code :: le32

datatype EmptyReq = EmptyReq

record U8Resp = u8_value :: u8

record U16Resp = u16_value :: le16

record I16Resp = i16_value :: le16

record I32Resp = i32_value :: le32

record OpenNetworkReq = on_duration :: u8

record FindSensorReq = fs_short_addr :: le16

record zb_addr_t =
  za_err :: le32
  za_short_addr :: le16
  za_ep :: u8

record zb_basic_t =
  zb_err :: le32
  zb_manufacturer :: bytes
  zb_model :: bytes

record zb_temp_t =
  zt_err :: le32
  zt_measured :: le16
  zt_min_measured :: le16
  zt_max_measured :: le16
  zt_tolerance :: le16

section \<open>Memory layouts\<close>

text \<open>
  What the engine templates use of a payload type: whether it is \<open>EmptyReq\<close> (the one case the
  templates single out), \<open>sizeof\<close>, the bytes of an object and the object read from bytes.
  \<open>wt_valid\<close> says that array members have their declared length.
\<close>

record 'a wire_type =
  wt_is_empty :: bool
  wt_size :: nat
  wt_bytes :: "'a \<Rightarrow> bytes"
  wt_of :: "bytes \<Rightarrow> 'a"
  wt_valid :: "'a \<Rightarrow> bool"

definition EmptyReq_type :: "EmptyReq wire_type" where
  "EmptyReq_type = \<lparr>wt_is_empty = True, wt_size = 1, wt_bytes = (\<lambda>_. [0]),
     wt_of = (\<lambda>_. EmptyReq), wt_valid = (\<lambda>_. True)\<rparr>"

definition ErrorResp_type :: "ErrorResp wire_type" where
  "ErrorResp_type = \<lparr>wt_is_empty = False, wt_size = 4,
     wt_bytes = (\<lambda>v. le32_bytes (er_code v)),
     wt_of = (\<lambda>bs. \<lparr>er_code = le32_at 0 bs\<rparr>), wt_valid = (\<lambda>_. True)\<rparr>"

definition U8Resp_type :: "U8Resp wire_type" where
  "U8Resp_type = \<lparr>wt_is_empty = False, wt_size = 1, wt_bytes = (\<lambda>v. [u8_value v]),
     wt_of = (\<lambda>bs. \<lparr>u8_value = bs ! 0\<rparr>), wt_valid = (\<lambda>_. True)\<rparr>"

definition U16Resp_type :: "U16Resp wire_type" where
  "U16Resp_type = \<lparr>wt_is_empty = False, wt_size = 2,
     wt_bytes = (\<lambda>v. le16_bytes (u16_value v)),
     wt_of = (\<lambda>bs. \<lparr>u16_value = le16_at 0 bs\<rparr>), wt_valid = (\<lambda>_. True)\<rparr>"

definition I16Resp_type :: "I16Resp wire_type" where
  "I16Resp_type = \<lparr>wt_is_empty = False, wt_size = 2,
     wt_bytes = (\<lambda>v. le16_bytes (i16_value v)),
     wt_of = (\<lambda>bs. \<lparr>i16_value = le16_at 0 bs\<rparr>), wt_valid = (\<lambda>_. True)\<rparr>"

definition I32Resp_type :: "I32Resp wire_type" where
  "I32Resp_type = \<lparr>wt_is_empty = False, wt_size = 4,
     wt_bytes = (\<lambda>v. le32_bytes (i32_value v)),
     wt_of = (\<lambda>bs. \<lparr>i32_value = le32_at 0 bs\<rparr>), wt_valid = (\<lambda>_. True)\<rparr>"

definition OpenNetworkReq_type :: "OpenNetworkReq wire_type" where
  "OpenNetworkReq_type = \<lparr>wt_is_empty = False, wt_size = 1, wt_bytes = (\<lambda>v. [on_duration v]),
     wt_of = (\<lambda>bs. \<lparr>on_duration = bs ! 0\<rparr>), wt_valid = (\<lambda>_. True)\<rparr>"

definition FindSensorReq_type :: "FindSensorReq wire_type" where
  "FindSensorReq_type = \<lparr>wt_is_empty = False, wt_size = 2,
     wt_bytes = (\<lambda>v. le16_bytes (fs_short_addr v)),
     wt_of = (\<lambda>bs. \<lparr>fs_short_addr = le16_at 0 bs\<rparr>), wt_valid = (\<lambda>_. True)\<rparr>"

definition zb_addr_type :: "zb_addr_t wire_type" where
  "zb_addr_type = \<lparr>wt_is_empty = False, wt_size = 7,
     wt_bytes = (\<lambda>v. le32_bytes (za_err v) @ le16_bytes (za_short_addr v) @ [za_ep v]),
     wt_of = (\<lambda>bs. \<lparr>za_err = le32_at 0 bs, za_short_addr = le16_at 4 bs, za_ep = bs ! 6\<rparr>),
     wt_valid = (\<lambda>_. True)\<rparr>"

definition zb_basic_type :: "zb_basic_t wire_type" where
  "zb_basic_type = \<lparr>wt_is_empty = False, wt_size = 36,
     wt_bytes = (\<lambda>v. le32_bytes (zb_err v) @ zb_manufacturer v @ zb_model v),
     wt_of = (\<lambda>bs. \<lparr>zb_err = le32_at 0 bs, zb_manufacturer = take 16 (drop 4 bs),
                    zb_model = drop 20 bs\<rparr>),
     wt_valid = (\<lambda>v. length (zb_manufacturer v) = 16 \<and> length (zb_model v) = 16)\<rparr>"

definition zb_temp_type :: "zb_temp_t wire_type" where
  "zb_temp_type = \<lparr>wt_is_empty = False, wt_size = 12,
     wt_bytes = (\<lambda>v. le32_bytes (zt_err v) @ le16_bytes (zt_measured v) @
        le16_bytes (zt_min_measured v) @ le16_bytes (zt_max_measured v) @
        le16_bytes (zt_tolerance v)),
     wt_of = (\<lambda>bs. \<lparr>zt_err = le32_at 0 bs, zt_measured = le16_at 4 bs,
        zt_min_measured = le16_at 6 bs, zt_max_measured = le16_at 8 bs,
        zt_tolerance = le16_at 10 bs\<rparr>),
     wt_valid = (\<lambda>_. True)\<rparr>"

section \<open>Descriptors\<close>

record ('req, 'resp) rpc_desc =
  desc_id :: api_enum
  desc_req :: "'req wire_type"
  desc_resp :: "'resp wire_type"

definition desc_get_short_addr :: "(EmptyReq, U16Resp) rpc_desc" where
  "desc_get_short_addr = \<lparr>desc_id = Api_get_short_addr, desc_req = EmptyReq_type, desc_resp = U16Resp_type\<rparr>"

definition desc_get_panid :: "(EmptyReq, U16Resp) rpc_desc" where
  "desc_get_panid = \<lparr>desc_id = Api_get_panid, desc_req = EmptyReq_type, desc_resp = U16Resp_type\<rparr>"

definition desc_get_channel :: "(EmptyReq, U8Resp) rpc_desc" where
  "desc_get_channel = \<lparr>desc_id = Api_get_channel, desc_req = EmptyReq_type, desc_resp = U8Resp_type\<rparr>"

definition desc_open_network :: "(OpenNetworkReq, I32Resp) rpc_desc" where
  "desc_open_network = \<lparr>desc_id = Api_open_network, desc_req = OpenNetworkReq_type, desc_resp = I32Resp_type\<rparr>"

definition desc_wait_annce :: "(EmptyReq, U16Resp) rpc_desc" where
  "desc_wait_annce = \<lparr>desc_id = Api_wait_annce, desc_req = EmptyReq_type, desc_resp = U16Resp_type\<rparr>"

definition desc_find_sensor :: "(FindSensorReq, zb_addr_t) rpc_desc" where
  "desc_find_sensor = \<lparr>desc_id = Api_find_sensor, desc_req = FindSensorReq_type, desc_resp = zb_addr_type\<rparr>"

definition desc_read_basic :: "(zb_addr_t, zb_basic_t) rpc_desc" where
  "desc_read_basic = \<lparr>desc_id = Api_read_basic, desc_req = zb_addr_type, desc_resp = zb_basic_type\<rparr>"

definition desc_bind_sensor :: "(zb_addr_t, I32Resp) rpc_desc" where
  "desc_bind_sensor = \<lparr>desc_id = Api_bind_sensor, desc_req = zb_addr_type, desc_resp = I32Resp_type\<rparr>"

definition desc_subscribe_sensor :: "(zb_addr_t, I32Resp) rpc_desc" where
  "desc_subscribe_sensor = \<lparr>desc_id = Api_subscribe_sensor, desc_req = zb_addr_type, desc_resp = I32Resp_type\<rparr>"

definition desc_config_report :: "(zb_addr_t, I32Resp) rpc_desc" where
  "desc_config_report = \<lparr>desc_id = Api_config_report, desc_req = zb_addr_type, desc_resp = I32Resp_type\<rparr>"

definition desc_read_temp :: "(zb_addr_t, zb_temp_t) rpc_desc" where
  "desc_read_temp = \<lparr>desc_id = Api_read_temp, desc_req = zb_addr_type, desc_resp = zb_temp_type\<rparr>"

definition desc_get_last_temp :: "(EmptyReq, I16Resp) rpc_desc" where
  "desc_get_last_temp = \<lparr>desc_id = Api_get_last_temp, desc_req = EmptyReq_type, desc_resp = I16Resp_type\<rparr>"

definition desc_get_sensor_addr :: "(EmptyReq, U16Resp) rpc_desc" where
  "desc_get_sensor_addr = \<lparr>desc_id = Api_get_sensor_addr, desc_req = EmptyReq_type, desc_resp = U16Resp_type\<rparr>"

section \<open>Scalars: round trips\<close>

lemma from_to_le16 [simp]: "from_le16 (to_le16 v) = v"
  unfolding to_le16_def from_le16.simps
  by (rule bit_word_eqI) (auto simp: bit_simps)

lemma to_from_le16 [simp]: "to_le16 (from_le16 x) = x"
proof (cases x)
  case (Le16 a b)
  have "ucast (ucast a OR push_bit 8 (ucast b) :: u16) = a"
    by (rule bit_word_eqI) (auto simp: bit_simps)
  moreover have "ucast (drop_bit 8 (ucast a OR push_bit 8 (ucast b) :: u16)) = b"
    by (rule bit_word_eqI) (auto simp: bit_simps dest: bit_imp_le_length)
  ultimately show ?thesis
    by (simp add: Le16 to_le16_def)
qed

lemma from_to_le32 [simp]: "from_le32 (to_le32 v) = v"
  unfolding to_le32_def from_le32.simps
proof (rule bit_word_eqI)
  fix n
  assume n: "n < LENGTH(32)"
  then consider "n < 8" | "8 \<le> n" "n < 16" | "16 \<le> n" "n < 24" | "24 \<le> n" by linarith
  then show "bit (ucast (ucast v :: u8) OR push_bit 8 (ucast (ucast (drop_bit 8 v) :: u8)) OR
       push_bit 16 (ucast (ucast (drop_bit 16 v) :: u8)) OR
       push_bit 24 (ucast (ucast (drop_bit 24 v) :: u8)) :: u32) n = bit v n"
    using n by cases (auto simp: bit_simps)
qed

lemma to_from_le32 [simp]: "to_le32 (from_le32 x) = x"
proof (cases x)
  case (Le32 a b c d)
  let ?w = "ucast a OR push_bit 8 (ucast b) OR push_bit 16 (ucast c) OR push_bit 24 (ucast d) :: u32"
  have "ucast ?w = a"
    by (rule bit_word_eqI) (auto simp: bit_simps)
  moreover have "ucast (drop_bit 8 ?w) = b"
    by (rule bit_word_eqI) (auto simp: bit_simps dest: bit_imp_le_length)
  moreover have "ucast (drop_bit 16 ?w) = c"
    by (rule bit_word_eqI) (auto simp: bit_simps dest: bit_imp_le_length)
  moreover have "ucast (drop_bit 24 ?w) = d"
    by (rule bit_word_eqI) (auto simp: bit_simps dest: bit_imp_le_length)
  ultimately show ?thesis
    by (simp add: Le32 to_le32_def)
qed

lemma from_to_le16_s [simp]: "int16_range v \<Longrightarrow> from_le16_s (to_le16_s v) = v"
  by (simp add: from_le16_s_def to_le16_s_def sint_word_of_int_16)

lemma from_to_le32_s [simp]: "int32_range v \<Longrightarrow> from_le32_s (to_le32_s v) = v"
  by (simp add: from_le32_s_def to_le32_s_def sint_word_of_int_32)

lemma from_le16_s_range: "int16_range (from_le16_s x)"
  unfolding from_le16_s_def by (rule int16_range_sint)

lemma from_le32_s_range: "int32_range (from_le32_s x)"
  unfolding from_le32_s_def by (rule int32_range_sint)

lemma le16_bytes_length [simp]: "length (le16_bytes x) = 2"
  by (cases x) simp

lemma le32_bytes_length [simp]: "length (le32_bytes x) = 4"
  by (cases x) simp

lemma le16_at_bytes [simp]: "le16_at 0 (le16_bytes x) = x"
  by (cases x) (simp add: le16_at_def)

lemma le32_at_bytes [simp]: "le32_at 0 (le32_bytes x) = x"
  by (cases x) (simp add: le32_at_def)

lemma le16_at_0_append [simp]: "le16_at 0 (le16_bytes x @ ys) = x"
  by (cases x) (simp add: le16_at_def)

lemma le32_at_0_append [simp]: "le32_at 0 (le32_bytes x @ ys) = x"
  by (cases x) (simp add: le32_at_def)

lemma le16_at_skip [simp]: "length xs \<le> i \<Longrightarrow> le16_at i (xs @ ys) = le16_at (i - length xs) ys"
  by (simp add: le16_at_def nth_append Suc_diff_le)

lemma le32_at_skip [simp]: "length xs \<le> i \<Longrightarrow> le32_at i (xs @ ys) = le32_at (i - length xs) ys"
  by (simp add: le32_at_def nth_append Suc_diff_le)

lemma le16_bytes_at: "i + 2 \<le> length bs \<Longrightarrow> le16_bytes (le16_at i bs) = take 2 (drop i bs)"
  by (rule nth_equalityI) (auto simp: le16_at_def less_Suc_eq numeral_eq_Suc)

lemma le32_bytes_at: "i + 4 \<le> length bs \<Longrightarrow> le32_bytes (le32_at i bs) = take 4 (drop i bs)"
  by (rule nth_equalityI) (auto simp: le32_at_def less_Suc_eq numeral_eq_Suc)

section \<open>Headers: round trip\<close>

lemma wire_header_bytes_length [simp]: "length (wire_header_bytes h) = wire_header_size"
  by (simp add: wire_header_bytes_def wire_header_size_def)

lemma wire_header_of_bytes [simp]: "wire_header_of (wire_header_bytes h) = h"
  by (simp add: wire_header_of_def wire_header_bytes_def)

lemma api_value_inject [simp]: "api_value a = api_value b \<longleftrightarrow> a = b"
  by (cases a; cases b; simp)

lemma error_value_inject [simp]: "error_value a = error_value b \<longleftrightarrow> a = b"
  by (cases a; cases b; simp)

section \<open>Layouts: the contract of a payload type\<close>

text \<open>What travels after the header: nothing for \<open>EmptyReq\<close>, the object's bytes otherwise.\<close>

definition payload_bytes :: "'a wire_type \<Rightarrow> 'a \<Rightarrow> bytes" where
  "payload_bytes T v = (if wt_is_empty T then [] else wt_bytes T v)"

definition payload_size :: "'a wire_type \<Rightarrow> nat" where
  "payload_size T = (if wt_is_empty T then 0 else wt_size T)"

locale wire_layout =
  fixes T :: "'a wire_type"
  assumes bytes_length: "wt_valid T v \<Longrightarrow> length (wt_bytes T v) = wt_size T"
    and of_bytes: "wt_valid T v \<Longrightarrow> wt_of T (wt_bytes T v) = v"
    and bytes_of: "\<not> wt_is_empty T \<Longrightarrow> length bs = wt_size T \<Longrightarrow> wt_bytes T (wt_of T bs) = bs"
    and of_valid: "length bs = wt_size T \<Longrightarrow> wt_valid T (wt_of T bs)"
    and of_nothing: "wt_is_empty T \<Longrightarrow> wt_valid T v \<Longrightarrow> wt_of T [] = v"
    and size_max: "wt_size T \<le> unat k_max_payload"
begin

lemma payload_bytes_length: "wt_valid T v \<Longrightarrow> length (payload_bytes T v) = payload_size T"
  by (simp add: payload_bytes_def payload_size_def bytes_length)

lemma payload_size_max: "payload_size T \<le> unat k_max_payload"
  using size_max by (simp add: payload_size_def)

lemma payload_size_word: "unat (of_nat (payload_size T) :: u32) = payload_size T"
  using payload_size_max by (simp add: unat_of_nat take_bit_nat_eq_self k_max_payload_def)

lemma wt_size_word: "unat (of_nat (wt_size T) :: u32) = wt_size T"
  using size_max by (simp add: unat_of_nat take_bit_nat_eq_self k_max_payload_def)

lemma payload_bytes_inject:
  assumes "wt_valid T v" "wt_valid T w" "\<not> wt_is_empty T" "payload_bytes T v = payload_bytes T w"
  shows "v = w"
  using of_bytes [OF assms(1)] of_bytes [OF assms(2)] assms(3,4)
  unfolding payload_bytes_def by metis

end

lemma unat_k_max_payload [simp]: "unat k_max_payload = 64"
  by (simp add: k_max_payload_def)

lemma take_drop_tail [simp]: "i + m = j \<Longrightarrow> take m (drop i bs) @ drop j bs = drop i bs"
  by (metis add.commute append_take_drop_id drop_drop)

lemma EmptyReq_unique: "EmptyReq = v"
  by (cases v) simp

lemma nth_slice: "i < length bs \<Longrightarrow> [bs ! i] = take 1 (drop i bs)"
  by (rule nth_equalityI) auto

lemmas slice_simps = le16_bytes_at le32_bytes_at nth_slice

text \<open>The layout definitions, unfolded by \<open>simp add: wire_defs\<close>.\<close>

lemmas EmptyReq_type_layout [wire_defs] = EmptyReq_type_def
lemmas ErrorResp_type_layout [wire_defs] = ErrorResp_type_def
lemmas U8Resp_type_layout [wire_defs] = U8Resp_type_def
lemmas U16Resp_type_layout [wire_defs] = U16Resp_type_def
lemmas I16Resp_type_layout [wire_defs] = I16Resp_type_def
lemmas I32Resp_type_layout [wire_defs] = I32Resp_type_def
lemmas OpenNetworkReq_type_layout [wire_defs] = OpenNetworkReq_type_def
lemmas FindSensorReq_type_layout [wire_defs] = FindSensorReq_type_def
lemmas zb_addr_type_layout [wire_defs] = zb_addr_type_def
lemmas zb_basic_type_layout [wire_defs] = zb_basic_type_def
lemmas zb_temp_type_layout [wire_defs] = zb_temp_type_def

interpretation EmptyReq_wire: wire_layout EmptyReq_type
  by unfold_locales (auto simp: wire_defs slice_simps EmptyReq_unique)

interpretation ErrorResp_wire: wire_layout ErrorResp_type
  by unfold_locales (auto simp: wire_defs slice_simps EmptyReq_unique)

interpretation U8Resp_wire: wire_layout U8Resp_type
  by unfold_locales (auto simp: wire_defs slice_simps EmptyReq_unique)

interpretation U16Resp_wire: wire_layout U16Resp_type
  by unfold_locales (auto simp: wire_defs slice_simps EmptyReq_unique)

interpretation I16Resp_wire: wire_layout I16Resp_type
  by unfold_locales (auto simp: wire_defs slice_simps EmptyReq_unique)

interpretation I32Resp_wire: wire_layout I32Resp_type
  by unfold_locales (auto simp: wire_defs slice_simps EmptyReq_unique)

interpretation OpenNetworkReq_wire: wire_layout OpenNetworkReq_type
  by unfold_locales (auto simp: wire_defs slice_simps EmptyReq_unique)

interpretation FindSensorReq_wire: wire_layout FindSensorReq_type
  by unfold_locales (auto simp: wire_defs slice_simps EmptyReq_unique)

interpretation zb_addr_wire: wire_layout zb_addr_type
  by unfold_locales (auto simp: wire_defs slice_simps nth_append)

interpretation zb_basic_wire: wire_layout zb_basic_type
  by unfold_locales (auto simp: wire_defs slice_simps nth_append)

interpretation zb_temp_wire: wire_layout zb_temp_type
  by unfold_locales (auto simp: wire_defs slice_simps nth_append)

lemmas wire_layouts =
  EmptyReq_wire.wire_layout_axioms
  ErrorResp_wire.wire_layout_axioms
  U8Resp_wire.wire_layout_axioms
  U16Resp_wire.wire_layout_axioms
  I16Resp_wire.wire_layout_axioms
  I32Resp_wire.wire_layout_axioms
  OpenNetworkReq_wire.wire_layout_axioms
  FindSensorReq_wire.wire_layout_axioms
  zb_addr_wire.wire_layout_axioms
  zb_basic_wire.wire_layout_axioms
  zb_temp_wire.wire_layout_axioms

lemma wt_is_empty_simps [simp]:
  "wt_is_empty EmptyReq_type"
  "\<not> wt_is_empty ErrorResp_type"
  "\<not> wt_is_empty U8Resp_type"
  "\<not> wt_is_empty U16Resp_type"
  "\<not> wt_is_empty I16Resp_type"
  "\<not> wt_is_empty I32Resp_type"
  "\<not> wt_is_empty OpenNetworkReq_type"
  "\<not> wt_is_empty FindSensorReq_type"
  "\<not> wt_is_empty zb_addr_type"
  "\<not> wt_is_empty zb_basic_type"
  "\<not> wt_is_empty zb_temp_type"
  by (simp_all add: wire_defs)

lemma wt_valid_simps [simp]:
  "wt_valid EmptyReq_type a"
  "wt_valid ErrorResp_type b"
  "wt_valid U8Resp_type c"
  "wt_valid U16Resp_type d"
  "wt_valid I16Resp_type e"
  "wt_valid I32Resp_type f"
  "wt_valid OpenNetworkReq_type g"
  "wt_valid FindSensorReq_type h"
  "wt_valid zb_addr_type i"
  "wt_valid zb_temp_type j"
  "wt_valid zb_basic_type k \<longleftrightarrow> length (zb_manufacturer k) = 16 \<and> length (zb_model k) = 16"
  by (simp_all add: wire_defs)

section \<open>The catalogue of remote procedures\<close>

text \<open>
  What a descriptor promises to the two ends of a call: both payload types are wire layouts,
  the response carries a payload, and the identifier is not the one reserved for errors.
\<close>

locale rpc_entry = req: wire_layout "desc_req D" + resp: wire_layout "desc_resp D"
  for D :: "('req, 'resp) rpc_desc" +
  assumes resp_nonempty: "\<not> wt_is_empty (desc_resp D)"
    and id_not_error: "desc_id D \<noteq> Api_error"
begin

lemma resp_payload: "payload_bytes (desc_resp D) v = wt_bytes (desc_resp D) v"
  by (simp add: payload_bytes_def resp_nonempty)

lemma resp_payload_size: "payload_size (desc_resp D) = wt_size (desc_resp D)"
  by (simp add: payload_size_def resp_nonempty)

end

lemma rpc_entryI:
  "wire_layout (desc_req D) \<Longrightarrow> wire_layout (desc_resp D) \<Longrightarrow> \<not> wt_is_empty (desc_resp D) \<Longrightarrow>
   desc_id D \<noteq> Api_error \<Longrightarrow> rpc_entry D"
  by (intro rpc_entry.intro rpc_entry_axioms.intro)

lemmas desc_defs =
  desc_get_short_addr_def
  desc_get_panid_def
  desc_get_channel_def
  desc_open_network_def
  desc_wait_annce_def
  desc_find_sensor_def
  desc_read_basic_def
  desc_bind_sensor_def
  desc_subscribe_sensor_def
  desc_config_report_def
  desc_read_temp_def
  desc_get_last_temp_def
  desc_get_sensor_addr_def

lemma desc_simps [simp]:
  "desc_id desc_get_short_addr = Api_get_short_addr" "desc_req desc_get_short_addr = EmptyReq_type" "desc_resp desc_get_short_addr = U16Resp_type"
  "desc_id desc_get_panid = Api_get_panid" "desc_req desc_get_panid = EmptyReq_type" "desc_resp desc_get_panid = U16Resp_type"
  "desc_id desc_get_channel = Api_get_channel" "desc_req desc_get_channel = EmptyReq_type" "desc_resp desc_get_channel = U8Resp_type"
  "desc_id desc_open_network = Api_open_network" "desc_req desc_open_network = OpenNetworkReq_type" "desc_resp desc_open_network = I32Resp_type"
  "desc_id desc_wait_annce = Api_wait_annce" "desc_req desc_wait_annce = EmptyReq_type" "desc_resp desc_wait_annce = U16Resp_type"
  "desc_id desc_find_sensor = Api_find_sensor" "desc_req desc_find_sensor = FindSensorReq_type" "desc_resp desc_find_sensor = zb_addr_type"
  "desc_id desc_read_basic = Api_read_basic" "desc_req desc_read_basic = zb_addr_type" "desc_resp desc_read_basic = zb_basic_type"
  "desc_id desc_bind_sensor = Api_bind_sensor" "desc_req desc_bind_sensor = zb_addr_type" "desc_resp desc_bind_sensor = I32Resp_type"
  "desc_id desc_subscribe_sensor = Api_subscribe_sensor" "desc_req desc_subscribe_sensor = zb_addr_type" "desc_resp desc_subscribe_sensor = I32Resp_type"
  "desc_id desc_config_report = Api_config_report" "desc_req desc_config_report = zb_addr_type" "desc_resp desc_config_report = I32Resp_type"
  "desc_id desc_read_temp = Api_read_temp" "desc_req desc_read_temp = zb_addr_type" "desc_resp desc_read_temp = zb_temp_type"
  "desc_id desc_get_last_temp = Api_get_last_temp" "desc_req desc_get_last_temp = EmptyReq_type" "desc_resp desc_get_last_temp = I16Resp_type"
  "desc_id desc_get_sensor_addr = Api_get_sensor_addr" "desc_req desc_get_sensor_addr = EmptyReq_type" "desc_resp desc_get_sensor_addr = U16Resp_type"
  by (simp_all add: desc_defs)

interpretation get_short_addr_rpc: rpc_entry desc_get_short_addr
  by (rule rpc_entryI) (simp_all add: wire_layouts)

interpretation get_panid_rpc: rpc_entry desc_get_panid
  by (rule rpc_entryI) (simp_all add: wire_layouts)

interpretation get_channel_rpc: rpc_entry desc_get_channel
  by (rule rpc_entryI) (simp_all add: wire_layouts)

interpretation open_network_rpc: rpc_entry desc_open_network
  by (rule rpc_entryI) (simp_all add: wire_layouts)

interpretation wait_annce_rpc: rpc_entry desc_wait_annce
  by (rule rpc_entryI) (simp_all add: wire_layouts)

interpretation find_sensor_rpc: rpc_entry desc_find_sensor
  by (rule rpc_entryI) (simp_all add: wire_layouts)

interpretation read_basic_rpc: rpc_entry desc_read_basic
  by (rule rpc_entryI) (simp_all add: wire_layouts)

interpretation bind_sensor_rpc: rpc_entry desc_bind_sensor
  by (rule rpc_entryI) (simp_all add: wire_layouts)

interpretation subscribe_sensor_rpc: rpc_entry desc_subscribe_sensor
  by (rule rpc_entryI) (simp_all add: wire_layouts)

interpretation config_report_rpc: rpc_entry desc_config_report
  by (rule rpc_entryI) (simp_all add: wire_layouts)

interpretation read_temp_rpc: rpc_entry desc_read_temp
  by (rule rpc_entryI) (simp_all add: wire_layouts)

interpretation get_last_temp_rpc: rpc_entry desc_get_last_temp
  by (rule rpc_entryI) (simp_all add: wire_layouts)

interpretation get_sensor_addr_rpc: rpc_entry desc_get_sensor_addr
  by (rule rpc_entryI) (simp_all add: wire_layouts)

end
