(* ===== verification/Sock_IO.thy ===== *)
theory Sock_IO
  imports Zb_Prelude
begin

text \<open>
  The blocking loops \<open>read_all\<close> and \<open>write_all\<close> of \<^verbatim>\<open>zb_rpc_shared/include/zb_rpc/engine.hpp\<close>
  over the POSIX calls \<open>read\<close> and \<open>write\<close>.

  A connected socket is described by what the kernel will answer: \<open>rx\<close> lists the outcomes of
  the coming \<open>read\<close> calls (a chunk of bytes that is ready, an \<open>EINTR\<close>, another error; when
  the list is used up the peer has closed and \<open>read\<close> returns 0), \<open>wx\<close> those of the coming
  \<open>write\<close> calls (how many bytes are accepted; an exhausted list accepts everything), and
  \<open>sent\<close> collects the bytes accepted so far.  A chunk that is longer than the read buffer
  stays at the head of the list with its rest, so every way TCP may cut the byte stream
  into reads is some \<open>rx\<close>.
\<close>

section \<open>Sockets\<close>

datatype rx_event = Rx_data bytes | Rx_eintr | Rx_error

datatype wx_event = Wx_accept nat | Wx_eintr | Wx_error

record sock =
  rx :: "rx_event list"
  wx :: "wx_event list"
  sent :: bytes

datatype read_result = Read_bytes bytes | Read_eintr | Read_error

datatype write_result = Wrote nat | Write_eintr | Write_error

text \<open>\<open>read(fd, buf, size)\<close>: 0 bytes stand for end of file.\<close>

fun sys_read :: "nat \<Rightarrow> sock \<Rightarrow> read_result \<times> sock" where
  "sys_read n s =
     (case rx s of
        [] \<Rightarrow> (Read_bytes [], s)
      | Rx_eintr # es \<Rightarrow> (Read_eintr, s\<lparr>rx := es\<rparr>)
      | Rx_error # es \<Rightarrow> (Read_error, s\<lparr>rx := es\<rparr>)
      | Rx_data bs # es \<Rightarrow>
          (Read_bytes (take n bs),
           s\<lparr>rx := (if drop n bs = [] then es else Rx_data (drop n bs) # es)\<rparr>))"

text \<open>\<open>write(fd, buf, n)\<close>\<close>

fun sys_write :: "bytes \<Rightarrow> sock \<Rightarrow> write_result \<times> sock" where
  "sys_write bs s =
     (case wx s of
        [] \<Rightarrow> (Wrote (length bs), s\<lparr>sent := sent s @ bs\<rparr>)
      | Wx_eintr # es \<Rightarrow> (Write_eintr, s\<lparr>wx := es\<rparr>)
      | Wx_error # es \<Rightarrow> (Write_error, s\<lparr>wx := es\<rparr>)
      | Wx_accept n # es \<Rightarrow>
          (Wrote (min n (length bs)), s\<lparr>wx := es, sent := sent s @ take n bs\<rparr>))"

section \<open>The loops\<close>

function write_all :: "bytes \<Rightarrow> sock \<Rightarrow> bool \<times> sock" where
  "write_all bs s =
     (if bs = [] then (True, s)
      else case sys_write bs s of
        (Write_eintr, s') \<Rightarrow> write_all bs s'
      | (Write_error, s') \<Rightarrow> (False, s')
      | (Wrote k, s') \<Rightarrow> if k = 0 then (False, s') else write_all (drop k bs) s')"
  by pat_completeness auto
termination
  by (relation "measure (\<lambda>(bs, s). length bs + length (wx s))")
    (auto split: list.splits wx_event.splits)

text \<open>\<open>read_loop\<close> is \<open>read_all\<close> with the bytes already placed in the buffer.\<close>

function read_loop :: "nat \<Rightarrow> bytes \<Rightarrow> sock \<Rightarrow> bytes option \<times> sock" where
  "read_loop n got s =
     (if n = 0 then (Some got, s)
      else case sys_read n s of
        (Read_eintr, s') \<Rightarrow> read_loop n got s'
      | (Read_error, s') \<Rightarrow> (None, s')
      | (Read_bytes bs, s') \<Rightarrow>
          if bs = [] then (None, s') else read_loop (n - length bs) (got @ bs) s')"
  by pat_completeness auto
termination
  by (relation "measure (\<lambda>(n, got, s). n + length (rx s))")
    (auto split: list.splits rx_event.splits if_splits)

definition read_all :: "nat \<Rightarrow> sock \<Rightarrow> bytes option \<times> sock" where
  "read_all n s = read_loop n [] s"

declare write_all.simps [simp del] read_loop.simps [simp del]

section \<open>The byte streams behind a socket\<close>

text \<open>
  \<open>rx_stream\<close> is what the peer's bytes add up to before end of file or an error;
  \<open>wx_ok\<close> says that the peer keeps accepting data.
\<close>

fun rx_stream :: "rx_event list \<Rightarrow> bytes" where
  "rx_stream [] = []"
| "rx_stream (Rx_eintr # es) = rx_stream es"
| "rx_stream (Rx_error # es) = []"
| "rx_stream (Rx_data bs # es) = (if bs = [] then [] else bs @ rx_stream es)"

fun wx_ok :: "wx_event list \<Rightarrow> bool" where
  "wx_ok [] = True"
| "wx_ok (Wx_eintr # es) = wx_ok es"
| "wx_ok (Wx_error # es) = False"
| "wx_ok (Wx_accept n # es) = (0 < n \<and> wx_ok es)"

lemma write_all_Nil [simp]: "write_all [] s = (True, s)"
  by (simp add: write_all.simps)

text \<open>One turn of each loop, by the outcome of the system call.\<close>

lemma write_all_step:
  assumes "bs \<noteq> []"
  shows "wx s = [] \<Longrightarrow> write_all bs s = (True, s\<lparr>sent := sent s @ bs\<rparr>)"
    and "wx s = Wx_eintr # es \<Longrightarrow> write_all bs s = write_all bs (s\<lparr>wx := es\<rparr>)"
    and "wx s = Wx_error # es \<Longrightarrow> write_all bs s = (False, s\<lparr>wx := es\<rparr>)"
    and "wx s = Wx_accept k # es \<Longrightarrow> write_all bs s =
       (if k = 0 then (False, s\<lparr>wx := es\<rparr>)
        else write_all (drop k bs) (s\<lparr>wx := es, sent := sent s @ take k bs\<rparr>))"
  using assms by (simp_all add: write_all.simps [of bs s] min_def)

lemma read_loop_0 [simp]: "read_loop 0 got s = (Some got, s)"
  by (simp add: read_loop.simps)

lemma read_loop_step:
  assumes "0 < n"
  shows "rx s = [] \<Longrightarrow> read_loop n got s = (None, s)"
    and "rx s = Rx_eintr # es \<Longrightarrow> read_loop n got s = read_loop n got (s\<lparr>rx := es\<rparr>)"
    and "rx s = Rx_error # es \<Longrightarrow> read_loop n got s = (None, s\<lparr>rx := es\<rparr>)"
    and "rx s = Rx_data bs # es \<Longrightarrow> read_loop n got s =
       (if bs = [] then (None, s\<lparr>rx := es\<rparr>)
        else if n < length bs then (Some (got @ take n bs), s\<lparr>rx := Rx_data (drop n bs) # es\<rparr>)
        else read_loop (n - length bs) (got @ bs) (s\<lparr>rx := es\<rparr>))"
  using assms by (simp_all add: read_loop.simps [of n got s] min_def)

lemma write_all_ok:
  assumes "wx_ok (wx s)"
  shows "\<exists>es. write_all bs s = (True, s\<lparr>sent := sent s @ bs, wx := es\<rparr>) \<and> wx_ok es"
  using assms
proof (induction "wx s" arbitrary: bs s)
  case Nil
  then show ?case
    by (cases "bs = []") (auto simp: write_all_step(1) intro!: exI [of _ "[]"])
next
  case (Cons e es)
  show ?case
  proof (cases "bs = []")
    case True
    with Cons.prems show ?thesis by (auto intro!: exI [of _ "wx s"])
  next
    case False
    have e: "wx s = e # es" using Cons.hyps(2) by simp
    show ?thesis
    proof (cases e)
      case (Wx_accept k)
      have k: "k > 0" "wx_ok es" using Cons.prems e Wx_accept by auto
      from Cons.hyps(1) [of "s\<lparr>wx := es, sent := sent s @ take k bs\<rparr>" "drop k bs"] k
      show ?thesis using write_all_step(4) [OF False] e Wx_accept by auto
    next
      case Wx_eintr
      with Cons.hyps(1) [of "s\<lparr>wx := es\<rparr>" bs] Cons.prems e show ?thesis
        using write_all_step(2) [OF False] by auto
    next
      case Wx_error
      with Cons.prems e show ?thesis by simp
    qed
  qed
qed

text \<open>In every case, what has been sent is a prefix of what was to be sent.\<close>

lemma write_all_prefix:
  "\<exists>ok es k. write_all bs s = (ok, s\<lparr>sent := sent s @ take k bs, wx := es\<rparr>) \<and>
     (ok \<longrightarrow> length bs \<le> k)"
proof (induction "wx s" arbitrary: bs s)
  case Nil
  have "write_all bs s = (True, s\<lparr>sent := sent s @ take (length bs) bs, wx := []\<rparr>)"
    using Nil.hyps by (cases "bs = []") (simp_all add: write_all_step(1))
  then show ?case by blast
next
  case (Cons e es)
  have e: "wx s = e # es" using Cons.hyps(2) by simp
  show ?case
  proof (cases "bs = []")
    case True
    then show ?thesis by (auto intro!: exI [of _ "wx s"])
  next
    case False
    show ?thesis
    proof (cases e)
      case (Wx_accept j)
      show ?thesis
      proof (cases "j = 0")
        case True
        with write_all_step(4) [OF False, of s j es] e Wx_accept show ?thesis
          by (auto intro!: exI [of _ es] exI [of _ "0"])
      next
        case j: False
        from Cons.hyps(1) [of "s\<lparr>wx := es, sent := sent s @ take j bs\<rparr>" "drop j bs"]
        obtain ok es' k where
          "write_all (drop j bs) (s\<lparr>wx := es, sent := sent s @ take j bs\<rparr>) =
             (ok, s\<lparr>sent := sent s @ take (j + k) bs, wx := es'\<rparr>)"
          "ok \<longrightarrow> length (drop j bs) \<le> k"
          by (auto simp: take_add)
        with write_all_step(4) [OF False, of s j es] e Wx_accept j show ?thesis
          by (auto intro!: exI [of _ es'] exI [of _ "j + k"])
      qed
    next
      case Wx_eintr
      with Cons.hyps(1) [of "s\<lparr>wx := es\<rparr>" bs] e show ?thesis
        using write_all_step(2) [OF False] by auto
    next
      case Wx_error
      with write_all_step(3) [OF False] e show ?thesis
        by (auto intro!: exI [of _ es] exI [of _ 0])
    qed
  qed
qed

lemma read_loop_ok:
  assumes "n \<le> length (rx_stream (rx s))"
  shows "\<exists>es. read_loop n got s = (Some (got @ take n (rx_stream (rx s))), s\<lparr>rx := es\<rparr>) \<and>
           rx_stream es = drop n (rx_stream (rx s))"
  using assms
proof (induction "rx s" arbitrary: n got s)
  case Nil
  then show ?case by (auto intro!: exI [of _ "[]"])
next
  case (Cons e es)
  have e: "rx s = e # es" using Cons.hyps(2) by simp
  show ?case
  proof (cases "n = 0")
    case True
    then show ?thesis by (auto intro!: exI [of _ "rx s"])
  next
    case False
    then have n: "0 < n" by simp
    show ?thesis
    proof (cases e)
      case (Rx_data bs)
      have ne: "bs \<noteq> []" using Cons.prems e Rx_data False by auto
      show ?thesis
      proof (cases "n < length bs")
        case True
        then show ?thesis
          using read_loop_step(4) [OF n, of s bs es got] e Rx_data ne by auto
      next
        case ge: False
        from Cons.hyps(1) [of "s\<lparr>rx := es\<rparr>" "n - length bs" "got @ bs"] Cons.prems e Rx_data ne ge
        obtain es' where
          "read_loop (n - length bs) (got @ bs) (s\<lparr>rx := es\<rparr>) =
             (Some (got @ bs @ take (n - length bs) (rx_stream es)), s\<lparr>rx := es'\<rparr>)"
          "rx_stream es' = drop (n - length bs) (rx_stream es)"
          by (auto simp: le_diff_conv)
        then show ?thesis
          using read_loop_step(4) [OF n, of s bs es got] e Rx_data ne ge
          by (auto intro!: exI [of _ es'])
      qed
    next
      case Rx_eintr
      with Cons.hyps(1) [of "s\<lparr>rx := es\<rparr>"] Cons.prems e show ?thesis
        using read_loop_step(2) [OF n] by auto
    next
      case Rx_error
      with Cons.prems e False show ?thesis by simp
    qed
  qed
qed

lemma read_loop_short:
  assumes "length (rx_stream (rx s)) < n"
  shows "\<exists>es. read_loop n got s = (None, s\<lparr>rx := es\<rparr>)"
  using assms
proof (induction "rx s" arbitrary: n got s)
  case Nil
  then show ?case by (auto simp: read_loop_step(1) intro!: exI [of _ "[]"])
next
  case (Cons e es)
  have e: "rx s = e # es" using Cons.hyps(2) by simp
  have n: "0 < n" using Cons.prems by simp
  show ?case
  proof (cases e)
    case (Rx_data bs)
    with Cons.hyps(1) [of "s\<lparr>rx := es\<rparr>" "n - length bs" "got @ bs"] Cons.prems e show ?thesis
      using read_loop_step(4) [OF n, of s bs es got] by (auto split: if_splits)
  next
    case Rx_eintr
    with Cons.hyps(1) [of "s\<lparr>rx := es\<rparr>"] Cons.prems e show ?thesis
      using read_loop_step(2) [OF n] by auto
  next
    case Rx_error
    with e show ?thesis using read_loop_step(3) [OF n] by auto
  qed
qed

lemma read_all_ok:
  assumes "n \<le> length (rx_stream (rx s))"
  obtains es where "read_all n s = (Some (take n (rx_stream (rx s))), s\<lparr>rx := es\<rparr>)"
    and "rx_stream es = drop n (rx_stream (rx s))"
  using read_loop_ok [OF assms, of "[]"] by (auto simp: read_all_def)

lemma read_all_short:
  assumes "length (rx_stream (rx s)) < n"
  obtains es where "read_all n s = (None, s\<lparr>rx := es\<rparr>)"
  using read_loop_short [OF assms, of "[]"] by (auto simp: read_all_def)

text \<open>The two cases together: only the receive side of the socket changes.\<close>

lemma read_all_cases:
  obtains (complete) es where "n \<le> length (rx_stream (rx s))"
    "read_all n s = (Some (take n (rx_stream (rx s))), s\<lparr>rx := es\<rparr>)"
    "rx_stream es = drop n (rx_stream (rx s))"
  | (short) es where "length (rx_stream (rx s)) < n" "read_all n s = (None, s\<lparr>rx := es\<rparr>)"
  by (metis read_all_ok read_all_short leI)

lemma read_all_frame:
  "sent (snd (read_all n s)) = sent s \<and> wx (snd (read_all n s)) = wx s"
  by (cases rule: read_all_cases [of n s]) simp_all

lemma read_all_length: "read_all n s = (Some bs, s') \<Longrightarrow> length bs = n"
  by (cases rule: read_all_cases [of n s]) auto

section \<open>Progress\<close>

text \<open>What is left to read shrinks with every successful read; loops over frames end by this.\<close>

fun rx_size :: "rx_event list \<Rightarrow> nat" where
  "rx_size [] = 0"
| "rx_size (Rx_data bs # es) = Suc (length bs + rx_size es)"
| "rx_size (e # es) = Suc (rx_size es)"

lemma read_loop_size:
  "read_loop n got s = (r, s') \<Longrightarrow>
   rx_size (rx s') \<le> rx_size (rx s) \<and> (0 < n \<and> r \<noteq> None \<longrightarrow> rx_size (rx s') < rx_size (rx s))"
proof (induction "rx s" arbitrary: n got s)
  case Nil
  then show ?case by (cases "n = 0") (auto simp: read_loop_step(1))
next
  case (Cons e es)
  have e: "rx s = e # es" using Cons.hyps(2) by simp
  show ?case
  proof (cases "n = 0")
    case True
    with Cons.prems show ?thesis by simp
  next
    case False
    then have n: "0 < n" by simp
    show ?thesis
    proof (cases e)
      case (Rx_data bs)
      with Cons.hyps(1) [of "s\<lparr>rx := es\<rparr>" "n - length bs" "got @ bs"] Cons.prems e n
      show ?thesis
        using read_loop_step(4) [OF n, of s bs es got] by (fastforce split: if_splits)
    next
      case Rx_eintr
      with Cons.hyps(1) [of "s\<lparr>rx := es\<rparr>" n got] Cons.prems e n show ?thesis
        using read_loop_step(2) [OF n, of s es got] by auto
    next
      case Rx_error
      with Cons.prems e show ?thesis using read_loop_step(3) [OF n, of s es got] by auto
    qed
  qed
qed

lemma read_all_size:
  assumes "read_all n s = (r, s')"
  shows "rx_size (rx s') \<le> rx_size (rx s)"
    and "0 < n \<Longrightarrow> r \<noteq> None \<Longrightarrow> rx_size (rx s') < rx_size (rx s)"
  using read_loop_size [of n "[]" s r s'] assms by (auto simp: read_all_def)

lemma write_all_rx: "write_all bs s = (ok, s') \<Longrightarrow> rx s' = rx s"
  using write_all_prefix [of bs s] by auto

end
