(* ===== verification/Engine.thy ===== *)
theory Engine
  imports Protocol Sock_IO
begin

text \<open>
  The RPC engine of \<^verbatim>\<open>zb_rpc_shared/include/zb_rpc/engine.hpp\<close>: class \<open>Engine\<close> (framing on one
  socket), the client side \<open>call\<close> and the server side \<open>invoke_one\<close>.  A C++ method that returns
  \<open>bool\<close> and fills an out-parameter returns an option here (\<open>None\<close> is \<open>false\<close>) together with
  the engine after the call.  Log lines are not part of the state.
\<close>

section \<open>Class Engine\<close>

record engine =
  eng_fd :: sock
  last_error :: error_code

definition mk_engine :: "sock \<Rightarrow> engine" where
  "mk_engine s = \<lparr>eng_fd = s, last_error = Err_none\<rparr>"

definition receive_header :: "engine \<Rightarrow> frame_header option \<times> engine" where
  "receive_header e =
     (let e0 = e\<lparr>last_error := Err_none\<rparr>
      in case read_all wire_header_size (eng_fd e0) of
           (None, s) \<Rightarrow> (None, e0\<lparr>eng_fd := s\<rparr>)
         | (Some bs, s) \<Rightarrow>
             let e1 = e0\<lparr>eng_fd := s\<rparr>; wire = wire_header_of bs
             in if from_le32 (wh_magic wire) \<noteq> k_magic
                then (None, e1\<lparr>last_error := Bad_magic\<rparr>)
                else let header = \<lparr>fh_id = from_le32 (wh_id wire), fh_size = from_le32 (wh_size wire)\<rparr>
                     in if k_max_payload < fh_size header
                        then (None, e1\<lparr>last_error := Oversized_payload\<rparr>)
                        else (Some header, e1))"

definition receive_payload :: "'a wire_type \<Rightarrow> frame_header \<Rightarrow> engine \<Rightarrow> 'a option \<times> engine" where
  "receive_payload T header e =
     (if wt_is_empty T
      then if fh_size header \<noteq> 0
           then (None, e\<lparr>last_error := Payload_mismatch\<rparr>)
           else (Some (wt_of T []), e)
      else if unat (fh_size header) \<noteq> wt_size T
           then (None, e\<lparr>last_error := Payload_mismatch\<rparr>)
           else case read_all (wt_size T) (eng_fd e) of
                  (None, s) \<Rightarrow> (None, e\<lparr>eng_fd := s\<rparr>)
                | (Some bs, s) \<Rightarrow> (Some (wt_of T bs), e\<lparr>eng_fd := s\<rparr>))"

text \<open>\<open>send(api_id)\<close>: a header without payload.\<close>

definition send_id :: "api_id \<Rightarrow> engine \<Rightarrow> bool \<times> engine" where
  "send_id i e =
     (let header = \<lparr>wh_magic = to_le32 k_magic, wh_id = to_le32 i, wh_size = to_le32 0\<rparr>;
          (ok, s) = write_all (wire_header_bytes header) (eng_fd e)
      in (ok, e\<lparr>eng_fd := s\<rparr>))"

text \<open>\<open>send(api_id, payload)\<close>\<close>

definition send :: "'a wire_type \<Rightarrow> api_id \<Rightarrow> 'a \<Rightarrow> engine \<Rightarrow> bool \<times> engine" where
  "send T i payload e =
     (if wt_is_empty T then send_id i e
      else let header = \<lparr>wh_magic = to_le32 k_magic, wh_id = to_le32 i,
                         wh_size = to_le32 (of_nat (wt_size T))\<rparr>;
               (ok, s) = write_all (wire_header_bytes header) (eng_fd e)
           in if \<not> ok then (False, e\<lparr>eng_fd := s\<rparr>)
              else let (ok', s') = write_all (wt_bytes T payload) s
                   in (ok', e\<lparr>eng_fd := s'\<rparr>))"

definition send_error :: "error_code \<Rightarrow> engine \<Rightarrow> bool \<times> engine" where
  "send_error code e =
     send ErrorResp_type (api_value Api_error) \<lparr>er_code = to_le32 (error_value code)\<rparr> e"

function discard_payload :: "u32 \<Rightarrow> engine \<Rightarrow> bool \<times> engine" where
  "discard_payload n e =
     (if n = 0 then (True, e)
      else let chunk = (if n < 32 then n else 32)
           in case read_all (unat chunk) (eng_fd e) of
                (None, s) \<Rightarrow> (False, e\<lparr>eng_fd := s\<rparr>)
              | (Some _, s) \<Rightarrow> discard_payload (n - chunk) (e\<lparr>eng_fd := s\<rparr>))"
  by pat_completeness auto
termination
  by (relation "measure (\<lambda>(n, e). unat n)") (auto simp: chunk_less)

declare discard_payload.simps [simp del]

section \<open>Client side: call\<close>

text \<open>What both overloads of \<open>call\<close> do after the request has been sent.\<close>

definition receive_response :: "('req, 'resp) rpc_desc \<Rightarrow> engine \<Rightarrow> 'resp option \<times> engine" where
  "receive_response D e =
     (case receive_header e of
        (None, e1) \<Rightarrow> (None, e1)
      | (Some header, e1) \<Rightarrow>
          if fh_id header = api_value Api_error
          then (None, snd (receive_payload ErrorResp_type header e1))
          else if fh_id header \<noteq> api_value (desc_id D)
          then (None, snd (discard_payload (fh_size header) e1))
          else receive_payload (desc_resp D) header e1)"

definition call_empty :: "(EmptyReq, 'resp) rpc_desc \<Rightarrow> engine \<Rightarrow> 'resp option \<times> engine" where
  "call_empty D e =
     (case send_id (api_value (desc_id D)) e of
        (False, e1) \<Rightarrow> (None, e1)
      | (True, e1) \<Rightarrow> receive_response D e1)"

definition call :: "('req, 'resp) rpc_desc \<Rightarrow> 'req \<Rightarrow> engine \<Rightarrow> 'resp option \<times> engine" where
  "call D request e =
     (case send (desc_req D) (api_value (desc_id D)) request e of
        (False, e1) \<Rightarrow> (None, e1)
      | (True, e1) \<Rightarrow> receive_response D e1)"

section \<open>Server side: invoke one handler\<close>

datatype invoke_result = No_match | Handled | Failed

definition invoke_one ::
    "('req, 'resp) rpc_desc \<Rightarrow> ('req \<Rightarrow> 'st \<Rightarrow> 'resp \<times> 'st) \<Rightarrow> frame_header \<Rightarrow>
     engine \<times> 'st \<Rightarrow> invoke_result \<times> engine \<times> 'st" where
  "invoke_one D f header es =
     (let (e, st) = es
      in if fh_id header \<noteq> api_value (desc_id D) then (No_match, e, st)
         else case receive_payload (desc_req D) header e of
           (None, e1) \<Rightarrow>
             (Failed,
              if last_error e1 \<noteq> Err_none then snd (send_error (last_error e1) e1) else e1,
              st)
         | (Some request, e1) \<Rightarrow>
             let (response, st') = f request st;
                 (ok, e2) = send (desc_resp D) (api_value (desc_id D)) response e1
             in (if ok then Handled else Failed, e2, st'))"

lemmas engine_op_defs [engine_defs] =
  mk_engine_def receive_header_def receive_payload_def send_id_def send_def send_error_def
  receive_response_def call_empty_def call_def invoke_one_def

section \<open>Frames on the byte stream\<close>

text \<open>The bytes of one frame: the specification that sending and receiving are measured against.\<close>

definition frame_header_bytes :: "api_id \<Rightarrow> nat \<Rightarrow> bytes" where
  "frame_header_bytes i n =
     wire_header_bytes \<lparr>wh_magic = to_le32 k_magic, wh_id = to_le32 i, wh_size = to_le32 (of_nat n)\<rparr>"

definition frame :: "api_id \<Rightarrow> 'a wire_type \<Rightarrow> 'a \<Rightarrow> bytes" where
  "frame i T v = frame_header_bytes i (payload_size T) @ payload_bytes T v"

lemma frame_header_bytes_length [simp]: "length (frame_header_bytes i n) = 12"
  by (simp add: frame_header_bytes_def wire_header_size_def)

text \<open>Sending puts exactly one frame on the stream, however the writes are cut.\<close>

lemma send_id_ok:
  assumes "wx_ok (wx (eng_fd e))"
  obtains es where "send_id i e =
      (True, e\<lparr>eng_fd := (eng_fd e)\<lparr>sent := sent (eng_fd e) @ frame_header_bytes i 0, wx := es\<rparr>\<rparr>)"
    and "wx_ok es"
proof -
  from write_all_ok [OF assms, of "frame_header_bytes i 0"] obtain es where
    "write_all (frame_header_bytes i 0) (eng_fd e) =
       (True, (eng_fd e)\<lparr>sent := sent (eng_fd e) @ frame_header_bytes i 0, wx := es\<rparr>)" "wx_ok es"
    by blast
  then show thesis
    by (intro that [of es]) (simp_all add: send_id_def frame_header_bytes_def)
qed

lemma send_ok:
  assumes "wx_ok (wx (eng_fd e))"
  obtains es where "send T i v e =
      (True, e\<lparr>eng_fd := (eng_fd e)\<lparr>sent := sent (eng_fd e) @ frame i T v, wx := es\<rparr>\<rparr>)"
    and "wx_ok es"
proof (cases "wt_is_empty T")
  case True
  then have "frame i T v = frame_header_bytes i 0"
    by (simp add: frame_def payload_bytes_def payload_size_def)
  with True show ?thesis
    using send_id_ok [OF assms, of i] that by (auto simp: send_def)
next
  case False
  let ?h = "frame_header_bytes i (wt_size T)"
  from write_all_ok [OF assms, of ?h] obtain es where
    h: "write_all ?h (eng_fd e) = (True, (eng_fd e)\<lparr>sent := sent (eng_fd e) @ ?h, wx := es\<rparr>)"
    and "wx_ok es" by blast
  then obtain es' where
    p: "write_all (wt_bytes T v) ((eng_fd e)\<lparr>sent := sent (eng_fd e) @ ?h, wx := es\<rparr>) =
       (True, (eng_fd e)\<lparr>sent := sent (eng_fd e) @ ?h @ wt_bytes T v, wx := es'\<rparr>)"
    and "wx_ok es'"
    using write_all_ok [of "(eng_fd e)\<lparr>sent := sent (eng_fd e) @ ?h, wx := es\<rparr>" "wt_bytes T v"]
    by auto
  with False h show ?thesis
    by (intro that [of es'])
      (simp_all add: send_def frame_def frame_header_bytes_def payload_bytes_def payload_size_def)
qed

text \<open>Receiving a header: every outcome, by what the stream holds.\<close>

lemma receive_header_short:
  assumes "length (rx_stream (rx (eng_fd e))) < 12"
  obtains es where "receive_header e = (None, e\<lparr>last_error := Err_none, eng_fd := (eng_fd e)\<lparr>rx := es\<rparr>\<rparr>)"
proof -
  obtain es where "read_all wire_header_size (eng_fd e) = (None, (eng_fd e)\<lparr>rx := es\<rparr>)"
    using read_all_short [of "eng_fd e" wire_header_size] assms
    by (auto simp: wire_header_size_def)
  then show thesis by (intro that [of es]) (simp add: receive_header_def Let_def)
qed

lemma receive_header_full:
  assumes "rx_stream (rx (eng_fd e)) = wire_header_bytes h @ rest"
  obtains es where "rx_stream es = rest"
    and "receive_header e =
      (let e1 = e\<lparr>last_error := Err_none, eng_fd := (eng_fd e)\<lparr>rx := es\<rparr>\<rparr>
       in if from_le32 (wh_magic h) \<noteq> k_magic then (None, e1\<lparr>last_error := Bad_magic\<rparr>)
          else if k_max_payload < from_le32 (wh_size h) then (None, e1\<lparr>last_error := Oversized_payload\<rparr>)
          else (Some \<lparr>fh_id = from_le32 (wh_id h), fh_size = from_le32 (wh_size h)\<rparr>, e1))"
proof -
  have "wire_header_size \<le> length (rx_stream (rx (eng_fd e)))"
    by (simp add: assms)
  then obtain es where "read_all wire_header_size (eng_fd e) =
      (Some (take wire_header_size (rx_stream (rx (eng_fd e)))), (eng_fd e)\<lparr>rx := es\<rparr>)"
      "rx_stream es = drop wire_header_size (rx_stream (rx (eng_fd e)))"
    by (rule read_all_ok)
  then have "read_all wire_header_size (eng_fd e) = (Some (wire_header_bytes h), (eng_fd e)\<lparr>rx := es\<rparr>)"
    "rx_stream es = rest"
    by (simp_all add: assms)
  then show thesis
    by (intro that [of es]) (simp_all add: receive_header_def Let_def)
qed

lemma receive_header_frame:
  assumes "rx_stream (rx (eng_fd e)) = frame_header_bytes i n @ rest" and "n \<le> 64"
  obtains es where "rx_stream es = rest"
    and "receive_header e = (Some \<lparr>fh_id = i, fh_size = of_nat n\<rparr>,
           e\<lparr>last_error := Err_none, eng_fd := (eng_fd e)\<lparr>rx := es\<rparr>\<rparr>)"
proof -
  have "unat (of_nat n :: u32) = n"
    using assms(2) by (simp add: unat_of_nat take_bit_nat_eq_self)
  then have "\<not> k_max_payload < (of_nat n :: u32)"
    using assms(2) by (simp add: word_less_nat_alt)
  with receive_header_full [OF assms(1) [unfolded frame_header_bytes_def]] that show thesis
    by (auto simp: Let_def)
qed

text \<open>Receiving a payload.\<close>

lemma receive_payload_mismatch:
  "unat (fh_size header) \<noteq> payload_size T \<Longrightarrow>
   receive_payload T header e = (None, e\<lparr>last_error := Payload_mismatch\<rparr>)"
  by (auto simp: receive_payload_def payload_size_def unat_eq_0)

context wire_layout begin

lemma receive_payload_ok:
  assumes "rx_stream (rx (eng_fd e)) = payload_bytes T v @ rest" "wt_valid T v"
  obtains es where "rx_stream es = rest"
    and "receive_payload T \<lparr>fh_id = i, fh_size = of_nat (payload_size T)\<rparr> e =
           (Some v, e\<lparr>eng_fd := (eng_fd e)\<lparr>rx := es\<rparr>\<rparr>)"
proof (cases "wt_is_empty T")
  case True
  with assms show ?thesis
    by (intro that [of "rx (eng_fd e)"])
      (simp_all add: receive_payload_def payload_bytes_def payload_size_def of_nothing)
next
  case False
  have len: "length (wt_bytes T v) = wt_size T"
    using assms(2) by (rule bytes_length)
  have st: "rx_stream (rx (eng_fd e)) = wt_bytes T v @ rest"
    using assms(1) False by (simp add: payload_bytes_def)
  then have "wt_size T \<le> length (rx_stream (rx (eng_fd e)))"
    by (simp add: len)
  then obtain es where "read_all (wt_size T) (eng_fd e) =
      (Some (take (wt_size T) (rx_stream (rx (eng_fd e)))), (eng_fd e)\<lparr>rx := es\<rparr>)"
      "rx_stream es = drop (wt_size T) (rx_stream (rx (eng_fd e)))"
    by (rule read_all_ok)
  then have "read_all (wt_size T) (eng_fd e) = (Some (wt_bytes T v), (eng_fd e)\<lparr>rx := es\<rparr>)"
    "rx_stream es = rest"
    by (simp_all add: st len)
  moreover have "unat (of_nat (payload_size T) :: u32) = wt_size T"
    using False by (simp add: payload_size_def wt_size_word)
  ultimately show ?thesis
    using False assms(2) by (intro that [of es]) (simp_all add: receive_payload_def of_bytes)
qed

lemma frame_length: "wt_valid T v \<Longrightarrow> length (frame i T v) = 12 + payload_size T"
  by (simp add: frame_def payload_bytes_length)

end

text \<open>Discarding skips exactly the announced bytes, in blocks of at most 32.\<close>

lemma discard_payload_ok:
  assumes "unat n \<le> length (rx_stream (rx (eng_fd e)))"
  shows "\<exists>es. discard_payload n e = (True, e\<lparr>eng_fd := (eng_fd e)\<lparr>rx := es\<rparr>\<rparr>) \<and>
           rx_stream es = drop (unat n) (rx_stream (rx (eng_fd e)))"
  using assms
proof (induction n e rule: discard_payload.induct)
  case (1 n e)
  show ?case
  proof (cases "n = 0")
    case True
    then show ?thesis
      by (auto simp: discard_payload.simps intro!: exI [of _ "rx (eng_fd e)"])
  next
    case False
    let ?c = "if n < 32 then n else 32"
    have le: "unat ?c \<le> unat n" by (rule chunk_le)
    have "unat ?c \<le> length (rx_stream (rx (eng_fd e)))"
      using le "1.prems" by (rule le_trans)
    then obtain es where r: "read_all (unat ?c) (eng_fd e) =
        (Some (take (unat ?c) (rx_stream (rx (eng_fd e)))), (eng_fd e)\<lparr>rx := es\<rparr>)"
      and st: "rx_stream es = drop (unat ?c) (rx_stream (rx (eng_fd e)))"
      by (rule read_all_ok)
    have sub: "unat (n - ?c) = unat n - unat ?c"
      by (rule unat_chunk_sub)
    have eq: "discard_payload n e = discard_payload (n - ?c) (e\<lparr>eng_fd := (eng_fd e)\<lparr>rx := es\<rparr>\<rparr>)"
      using False r by (simp add: discard_payload.simps [of n e] Let_def)
    have "unat (n - ?c) \<le> length (rx_stream (rx (eng_fd (e\<lparr>eng_fd := (eng_fd e)\<lparr>rx := es\<rparr>\<rparr>))))"
      using "1.prems" sub st by (simp only: engine.simps sock.simps length_drop) simp
    from "1.IH" [OF False refl r [symmetric] refl this]
    obtain es' where
      "discard_payload (n - ?c) (e\<lparr>eng_fd := (eng_fd e)\<lparr>rx := es\<rparr>\<rparr>) =
         (True, e\<lparr>eng_fd := (eng_fd e)\<lparr>rx := es'\<rparr>\<rparr>)"
      "rx_stream es' = drop (unat (n - ?c)) (rx_stream es)"
      by auto
    then show ?thesis
      unfolding eq using st sub le by auto
  qed
qed

section \<open>Calls and invocations over a healthy stream\<close>

context rpc_entry begin

lemma receive_response_ok:
  assumes "rx_stream (rx (eng_fd e)) = frame (api_value (desc_id D)) (desc_resp D) v @ rest"
    and "wt_valid (desc_resp D) v"
  obtains es where "rx_stream es = rest"
    and "receive_response D e = (Some v, e\<lparr>last_error := Err_none, eng_fd := (eng_fd e)\<lparr>rx := es\<rparr>\<rparr>)"
proof -
  let ?n = "payload_size (desc_resp D)"
  have "?n \<le> 64" using resp.payload_size_max by simp
  with assms(1) obtain es where
    h: "receive_header e = (Some \<lparr>fh_id = api_value (desc_id D), fh_size = of_nat ?n\<rparr>,
          e\<lparr>last_error := Err_none, eng_fd := (eng_fd e)\<lparr>rx := es\<rparr>\<rparr>)"
    and st: "rx_stream es = payload_bytes (desc_resp D) v @ rest"
    unfolding frame_def append_assoc by (rule receive_header_frame)
  let ?e1 = "e\<lparr>last_error := Err_none, eng_fd := (eng_fd e)\<lparr>rx := es\<rparr>\<rparr>"
  have "rx_stream (rx (eng_fd ?e1)) = payload_bytes (desc_resp D) v @ rest"
    using st by simp
  then obtain es' where "rx_stream es' = rest"
    "receive_payload (desc_resp D) \<lparr>fh_id = api_value (desc_id D), fh_size = of_nat ?n\<rparr> ?e1 =
       (Some v, ?e1\<lparr>eng_fd := (eng_fd ?e1)\<lparr>rx := es'\<rparr>\<rparr>)"
    using assms(2) by (rule resp.receive_payload_ok)
  then show thesis
    using id_not_error
    by (intro that [of es']) (simp_all add: receive_response_def h del: api_value.simps)
qed

lemma call_ok:
  assumes "wx_ok (wx (eng_fd e))" "wt_valid (desc_resp D) v"
    and "rx_stream (rx (eng_fd e)) = frame (api_value (desc_id D)) (desc_resp D) v @ rest"
  obtains s where "call D request e = (Some v, \<lparr>eng_fd = s, last_error = Err_none\<rparr>)"
    and "sent s = sent (eng_fd e) @ frame (api_value (desc_id D)) (desc_req D) request"
    and "rx_stream (rx s) = rest" and "wx_ok (wx s)"
proof -
  let ?i = "api_value (desc_id D)"
  obtain es where s: "send (desc_req D) ?i request e =
      (True, e\<lparr>eng_fd := (eng_fd e)\<lparr>sent := sent (eng_fd e) @ frame ?i (desc_req D) request, wx := es\<rparr>\<rparr>)"
    and "wx_ok es"
    using assms(1) by (rule send_ok)
  let ?e1 = "e\<lparr>eng_fd := (eng_fd e)\<lparr>sent := sent (eng_fd e) @ frame ?i (desc_req D) request, wx := es\<rparr>\<rparr>"
  have "rx_stream (rx (eng_fd ?e1)) = frame ?i (desc_resp D) v @ rest"
    using assms(3) by simp
  then obtain es' where "rx_stream es' = rest"
    "receive_response D ?e1 = (Some v, ?e1\<lparr>last_error := Err_none, eng_fd := (eng_fd ?e1)\<lparr>rx := es'\<rparr>\<rparr>)"
    using assms(2) by (rule receive_response_ok)
  with s \<open>wx_ok es\<close> show thesis
    by (intro that [of "(eng_fd ?e1)\<lparr>rx := es'\<rparr>"]) (simp_all add: call_def)
qed

text \<open>The server's turn: the handler runs once, on the request that was sent, and its
  response is framed under the same identifier.\<close>

lemma invoke_one_ok:
  assumes "wx_ok (wx (eng_fd e))" "wt_valid (desc_req D) request"
    and "rx_stream (rx (eng_fd e)) = payload_bytes (desc_req D) request @ rest"
    and "f request st = (response, st')"
  obtains s where "invoke_one D f \<lparr>fh_id = api_value (desc_id D), fh_size = of_nat (payload_size (desc_req D))\<rparr>
      (e, st) = (Handled, e\<lparr>eng_fd := s\<rparr>, st')"
    and "sent s = sent (eng_fd e) @ frame (api_value (desc_id D)) (desc_resp D) response"
    and "rx_stream (rx s) = rest" and "wx_ok (wx s)"
proof -
  let ?i = "api_value (desc_id D)"
  let ?h = "\<lparr>fh_id = ?i, fh_size = of_nat (payload_size (desc_req D))\<rparr>"
  obtain es where st: "rx_stream es = rest"
    and p: "receive_payload (desc_req D) ?h e = (Some request, e\<lparr>eng_fd := (eng_fd e)\<lparr>rx := es\<rparr>\<rparr>)"
    using assms(3,2) by (rule req.receive_payload_ok)
  let ?e1 = "e\<lparr>eng_fd := (eng_fd e)\<lparr>rx := es\<rparr>\<rparr>"
  have "wx_ok (wx (eng_fd ?e1))" using assms(1) by simp
  then obtain es' where "send (desc_resp D) ?i response ?e1 =
      (True, ?e1\<lparr>eng_fd := (eng_fd ?e1)\<lparr>sent := sent (eng_fd ?e1) @ frame ?i (desc_resp D) response,
        wx := es'\<rparr>\<rparr>)" "wx_ok es'"
    by (rule send_ok)
  with p st assms(4) show thesis
    by (intro that [of "(eng_fd ?e1)\<lparr>sent := sent (eng_fd ?e1) @ frame ?i (desc_resp D) response,
        wx := es'\<rparr>"]) (simp_all add: invoke_one_def)
qed

lemma invoke_one_no_match:
  "fh_id header \<noteq> api_value (desc_id D) \<Longrightarrow> invoke_one D f header (e, st) = (No_match, e, st)"
  by (simp add: invoke_one_def)

end

text \<open>The overload without a request object is the general one at \<open>EmptyReq\<close>.\<close>

lemma call_empty_eq: "desc_req D = EmptyReq_type \<Longrightarrow> call_empty D e = call D EmptyReq e"
  by (simp add: call_empty_def call_def send_def)

section \<open>Progress of the engine\<close>

abbreviation pending :: "engine \<Rightarrow> nat" where
  "pending e \<equiv> rx_size (rx (eng_fd e))"

lemma receive_header_pending:
  "receive_header e = (Some h, e') \<Longrightarrow> pending e' < pending e"
  using read_all_size(2) [of wire_header_size "eng_fd e"]
  by (auto simp: receive_header_def Let_def wire_header_size_def split: prod.splits option.splits if_splits)

lemma receive_payload_pending: "receive_payload T h e = (r, e') \<Longrightarrow> pending e' \<le> pending e"
  using read_all_size(1) [of "wt_size T" "eng_fd e"]
  by (fastforce simp: receive_payload_def split: prod.splits option.splits if_splits)

lemma send_id_pending: "send_id i e = (ok, e') \<Longrightarrow> pending e' = pending e"
  by (auto simp: send_id_def Let_def dest: write_all_rx split: prod.splits)

lemma send_pending: "send T i v e = (ok, e') \<Longrightarrow> pending e' = pending e"
  by (auto simp: send_def Let_def dest!: write_all_rx send_id_pending split: prod.splits if_splits)

lemma send_error_pending: "pending (snd (send_error c e)) = pending e"
  using send_pending [of ErrorResp_type] by (metis prod.collapse send_error_def)

lemma discard_payload_pending: "discard_payload n e = (ok, e') \<Longrightarrow> pending e' \<le> pending e"
proof (induction n e rule: discard_payload.induct)
  case (1 n e)
  show ?case
  proof (cases "n = 0")
    case True
    with "1.prems" show ?thesis by (simp add: discard_payload.simps)
  next
    case False
    let ?c = "if n < 32 then n else 32"
    obtain r s where r: "read_all (unat ?c) (eng_fd e) = (r, s)" by fastforce
    have le: "rx_size (rx s) \<le> pending e" using read_all_size(1) [OF r] .
    show ?thesis
    proof (cases r)
      case None
      with "1.prems" False r le show ?thesis
        by (auto simp: discard_payload.simps [of n e] Let_def)
    next
      case (Some bs)
      with "1.prems" False r have "discard_payload (n - ?c) (e\<lparr>eng_fd := s\<rparr>) = (ok, e')"
        by (simp add: discard_payload.simps [of n e] Let_def)
      with "1.IH" [OF False refl r [symmetric] Some] le show ?thesis by simp
    qed
  qed
qed

lemma invoke_one_pending:
  "invoke_one D f h (e, st) = (r, e', st') \<Longrightarrow> pending e' \<le> pending e"
  by (auto simp: invoke_one_def Let_def send_error_pending
      dest!: send_pending receive_payload_pending split: prod.splits option.splits if_splits)

end
