(* ===== verification/Zigbee_Stack.thy ===== *)
theory Zigbee_Stack
  imports Protocol
begin

text \<open>
  The coordinator adapter \<^verbatim>\<open>zb_rpc_server/main/zigbee_stack.c\<close> with the result types of
  \<^verbatim>\<open>zb_rpc_server/main/zigbee_api.h\<close>.

  The static variables of the file are the record \<open>zb_stack\<close>.  What the file calls and the
  repository does not contain is the argument \<open>E\<close> of type \<open>zb_env\<close>: the numeric constants of
  the Zigbee headers, the results of the \<open>ezb_*\<close> calls (which may depend on every call made
  before, see \<open>zb_calls\<close>) and the FreeRTOS queue and semaphore operations.  The locale
  \<open>freertos\<close> states the documented behaviour of the latter.

  Concurrency: the API functions run in the RPC task and block in \<open>xQueueReceive\<close> or
  \<open>xSemaphoreTake\<close>; meanwhile the Zigbee task runs callbacks.  \<open>zb_windows\<close> lists, for every
  blocking call to come, the callbacks that run before its timeout; the call returns as
  soon as what it waits for is available, and callbacks left over run during the next one.
  A pointer argument is the memory it points to (\<open>nat \<Rightarrow> u8\<close>), or \<open>None\<close> when it is null; a
  dereferenced null pointer sets \<open>zb_fault\<close>.  \<open>zb_lock\<close> counts how often the stack lock is
  held, \<open>zb_heap\<close> lists the live \<open>ezb_zdo_bind_req_t\<close> blocks.
\<close>

section \<open>Data\<close>

record zigbee_addr_t =
  ad_err :: int
  ad_short_addr :: u16
  ad_ep :: u8

record zigbee_basic_t =
  ba_err :: int
  ba_manufacturer :: bytes
  ba_model :: bytes

record zigbee_temp_t =
  te_err :: int
  te_measured :: int
  te_min_measured :: int
  te_max_measured :: int
  te_tolerance :: int

type_synonym mem = "(nat \<Rightarrow> u8) option"

datatype bdb_mode = Bdb_initialization | Bdb_network_formation | Bdb_network_steering

datatype app_signal =
    Sig_skip_startup
  | Sig_device_first_start int
  | Sig_device_reboot int
  | Sig_formation int
  | Sig_steering int
  | Sig_device_annce u16
  | Sig_permit_join_status u8
  | Sig_other nat

record match_rsp =
  ms_status :: int
  ms_nwk_addr :: u16
  ms_match_length :: u8
  ms_match_list :: mem

record match_result =
  mr_error :: int
  mr_rsp :: "match_rsp option"

record bind_result =
  br_error :: int
  br_rsp_status :: "int option"

record read_attr_var =
  rv_status :: int
  rv_attr_id :: u16
  rv_value :: mem

record read_attr_rsp =
  rr_cluster_id :: u16
  rr_status :: int
  rr_variables :: "read_attr_var list"

record report_attr_msg =
  rp_cluster_id :: u16
  rp_src_short :: "u16 option"
  rp_variables :: "(u16 \<times> mem) list"

datatype zcl_message =
    Zcl_read_attr_rsp "read_attr_rsp option"
  | Zcl_config_report_rsp "int option"
  | Zcl_report_attr "report_attr_msg option"
  | Zcl_other

datatype zb_event =
    Ev_signal app_signal
  | Ev_alarm bdb_mode
  | Ev_match "match_result option"
  | Ev_bind "bind_result option" nat
  | Ev_zcl zcl_message

record match_desc_req =
  md_dst_nwk_addr :: u16
  md_nwk_addr_of_interest :: u16
  md_in_clusters :: "u16 list"

record read_attr_cmd =
  rc_src_ep :: u8
  rc_short_addr :: u16
  rc_dst_ep :: u8
  rc_cluster_id :: u16
  rc_attr_field :: "u16 list"

record bind_req =
  bq_dst_nwk_addr :: u16
  bq_src_ep :: u8
  bq_dst_ep :: u8
  bq_src_addr :: u64
  bq_dst_addr :: u64
  bq_cluster_id :: u16

record config_report_cmd =
  cr_src_ep :: u8
  cr_cluster_id :: u16
  cr_attr_id :: u16
  cr_min_interval :: nat
  cr_max_interval :: nat
  cr_reportable_change :: int

datatype wait_object = Wait_annce | Wait_match | Wait_basic | Wait_temp | Wait_bind | Wait_report

text \<open>
  Calls that leave the file, in the order they are made.  \<open>Block_on\<close> records a blocking wait,
  its timeout and how often the stack lock was held when it began.
\<close>

datatype ezb_call =
    Start_commissioning bdb_mode
  | Schedule_commissioning bdb_mode nat
  | Open_network u8
  | Match_desc_req match_desc_req
  | Read_attr_req read_attr_cmd
  | Bind_req bind_req nat
  | Config_report_req config_report_cmd
  | Block_on wait_object u32 nat

record zb_env =
  EZB_ERR_NONE :: int
  EZB_BDB_STATUS_SUCCESS :: int
  EZB_ZDP_STATUS_SUCCESS :: int
  EZB_ZCL_STATUS_SUCCESS :: int
  CLUSTER_ID_BASIC :: u16
  CLUSTER_ID_TEMPERATURE_MEASUREMENT :: u16
  ATTR_MANUFACTURER_NAME :: u16
  ATTR_MODEL_IDENTIFIER :: u16
  ATTR_MEASURED_VALUE :: u16
  ATTR_MIN_MEASURED_VALUE :: u16
  ATTR_MAX_MEASURED_VALUE :: u16
  ATTR_TOLERANCE :: u16
  nwk_get_short_address :: "ezb_call list \<Rightarrow> u16"
  nwk_get_panid :: "ezb_call list \<Rightarrow> u16"
  nwk_get_current_channel :: "ezb_call list \<Rightarrow> u8"
  nwk_get_extended_address :: "ezb_call list \<Rightarrow> u64"
  address_extended_by_short :: "ezb_call list \<Rightarrow> u16 \<Rightarrow> int \<times> u64"
  bdb_is_factory_new :: "ezb_call list \<Rightarrow> bool"
  calloc_ok :: "ezb_call list \<Rightarrow> bool"
  ezb_ret :: "ezb_call list \<Rightarrow> ezb_call \<Rightarrow> int"
  annce_q_send :: "nat \<Rightarrow> u16 list \<Rightarrow> u16 \<Rightarrow> u16 list"
  annce_q_receive :: "u16 list \<Rightarrow> (u16 \<times> u16 list) option"
  match_q_send :: "nat \<Rightarrow> zigbee_addr_t list \<Rightarrow> zigbee_addr_t \<Rightarrow> zigbee_addr_t list"
  match_q_receive :: "zigbee_addr_t list \<Rightarrow> (zigbee_addr_t \<times> zigbee_addr_t list) option"
  match_q_reset :: "zigbee_addr_t list \<Rightarrow> zigbee_addr_t list"
  sem_give :: "bool \<Rightarrow> bool"
  sem_take :: "bool \<Rightarrow> bool \<times> bool"

text \<open>Queues are created with a capacity; handles are \<open>None\<close> before \<open>zigbee_stack_start\<close>.\<close>

record zb_stack =
  s_annce_q :: "(nat \<times> u16 list) option"
  s_match_q :: "(nat \<times> zigbee_addr_t list) option"
  s_basic_done :: "bool option"
  s_temp_done :: "bool option"
  s_bind_done :: "bool option"
  s_report_done :: "bool option"
  s_basic_cache :: zigbee_basic_t
  s_temp_cache :: zigbee_temp_t
  s_last_temp :: int
  s_last_sensor_addr :: u16
  s_bind_err :: int
  s_report_err :: int
  zb_lock :: nat
  zb_heap :: "nat list"
  zb_next_block :: nat
  zb_calls :: "ezb_call list"
  zb_windows :: "zb_event list list"
  zb_fault :: bool

text \<open>Documented behaviour of the FreeRTOS primitives the file relies on.\<close>

locale freertos =
  fixes E :: zb_env
  assumes annce_send: "annce_q_send E n q x = (if length q < n then q @ [x] else q)"
    and annce_receive: "annce_q_receive E q = (case q of [] \<Rightarrow> None | x # q' \<Rightarrow> Some (x, q'))"
    and match_send: "match_q_send E n r y = (if length r < n then r @ [y] else r)"
    and match_receive: "match_q_receive E r = (case r of [] \<Rightarrow> None | y # r' \<Rightarrow> Some (y, r'))"
    and match_reset: "match_q_reset E r = []"
    and give: "sem_give E b = True"
    and take: "sem_take E b = (b, False)"

definition ESP_ZIGBEE_HA_THERMOSTAT_EP_ID :: u8 where
  "ESP_ZIGBEE_HA_THERMOSTAT_EP_ID = 1"

definition ezb_do :: "zb_env \<Rightarrow> ezb_call \<Rightarrow> zb_stack \<Rightarrow> int \<times> zb_stack" where
  "ezb_do E c st = (ezb_ret E (zb_calls st) c, st\<lparr>zb_calls := zb_calls st @ [c]\<rparr>)"

definition lock_acquire :: "zb_stack \<Rightarrow> zb_stack" where
  "lock_acquire st = st\<lparr>zb_lock := zb_lock st + 1\<rparr>"

definition lock_release :: "zb_stack \<Rightarrow> zb_stack" where
  "lock_release st = st\<lparr>zb_lock := zb_lock st - 1\<rparr>"

definition free_block :: "nat \<Rightarrow> zb_stack \<Rightarrow> zb_stack" where
  "free_block p st =
     (if p \<in> set (zb_heap st) then st\<lparr>zb_heap := remove1 p (zb_heap st)\<rparr>
      else st\<lparr>zb_fault := True\<rparr>)"

section \<open>Callbacks of the Zigbee task\<close>

definition copy_zcl_string :: "nat \<Rightarrow> mem \<Rightarrow> bytes" where
  "copy_zcl_string dst_size zcl =
     (if dst_size = 0 then []
      else case zcl of
        None \<Rightarrow> replicate dst_size 0
      | Some m \<Rightarrow>
          let len = (if dst_size \<le> unat (m 0) then (of_nat (dst_size - 1) :: u8) else m 0)
          in map (\<lambda>i. m (i + 1)) [0..<unat len] @ replicate (dst_size - unat len) 0)"

definition zigbee_alarm_bdb_commissioning :: "zb_env \<Rightarrow> bdb_mode \<Rightarrow> zb_stack \<Rightarrow> zb_stack" where
  "zigbee_alarm_bdb_commissioning E mode st =
     lock_release (snd (ezb_do E (Start_commissioning mode) (lock_acquire st)))"

fun zigbee_app_signal_handler :: "zb_env \<Rightarrow> app_signal \<Rightarrow> zb_stack \<Rightarrow> zb_stack" where
  "zigbee_app_signal_handler E Sig_skip_startup st =
     snd (ezb_do E (Start_commissioning Bdb_initialization) st)"
| "zigbee_app_signal_handler E (Sig_device_first_start status) st =
     (if status = EZB_BDB_STATUS_SUCCESS E
      then if bdb_is_factory_new E (zb_calls st)
           then snd (ezb_do E (Start_commissioning Bdb_network_formation) st)
           else st
      else snd (ezb_do E (Schedule_commissioning Bdb_initialization 1000) st))"
| "zigbee_app_signal_handler E (Sig_device_reboot status) st =
     (if status = EZB_BDB_STATUS_SUCCESS E
      then if bdb_is_factory_new E (zb_calls st)
           then snd (ezb_do E (Start_commissioning Bdb_network_formation) st)
           else st
      else snd (ezb_do E (Schedule_commissioning Bdb_initialization 1000) st))"
| "zigbee_app_signal_handler E (Sig_formation status) st =
     (if status = EZB_BDB_STATUS_SUCCESS E
      then snd (ezb_do E (Start_commissioning Bdb_network_steering) st)
      else snd (ezb_do E (Schedule_commissioning Bdb_network_formation 1000) st))"
| "zigbee_app_signal_handler E (Sig_steering status) st =
     (if status = EZB_BDB_STATUS_SUCCESS E then st
      else snd (ezb_do E (Schedule_commissioning Bdb_network_formation 1000) st))"
| "zigbee_app_signal_handler E (Sig_device_annce short_addr) st =
     (case s_annce_q st of
        None \<Rightarrow> st
      | Some (n, q) \<Rightarrow> st\<lparr>s_annce_q := Some (n, annce_q_send E n q short_addr)\<rparr>)"
| "zigbee_app_signal_handler E (Sig_permit_join_status duration) st = st"
| "zigbee_app_signal_handler E (Sig_other n) st = st"

definition match_success :: "zb_env \<Rightarrow> match_result \<Rightarrow> (u16 \<times> u8) option" where
  "match_success E result =
     (case mr_rsp result of
        None \<Rightarrow> None
      | Some rsp \<Rightarrow>
          if mr_error result = EZB_ERR_NONE E \<and> ms_status rsp = EZB_ZDP_STATUS_SUCCESS E \<and>
             0 < ms_match_length rsp
          then case ms_match_list rsp of
                 None \<Rightarrow> None
               | Some l \<Rightarrow> Some (ms_nwk_addr rsp, l 0)
          else None)"

definition match_out :: "zb_env \<Rightarrow> match_result option \<Rightarrow> zigbee_addr_t" where
  "match_out E result =
     (let out = \<lparr>ad_err = -1, ad_short_addr = 0, ad_ep = 0\<rparr>
      in case result of
           None \<Rightarrow> out
         | Some r \<Rightarrow>
             case match_success E r of
               Some (addr, ep) \<Rightarrow> out\<lparr>ad_err := 0, ad_short_addr := addr, ad_ep := ep\<rparr>
             | None \<Rightarrow> out\<lparr>ad_err := mr_error r\<rparr>)"

definition zdo_match_result :: "zb_env \<Rightarrow> match_result option \<Rightarrow> zb_stack \<Rightarrow> zb_stack" where
  "zdo_match_result E result st =
     (case s_match_q st of
        None \<Rightarrow> st
      | Some (n, q) \<Rightarrow> st\<lparr>s_match_q := Some (n, match_q_send E n q (match_out E result))\<rparr>)"

definition give_bind :: "zb_env \<Rightarrow> zb_stack \<Rightarrow> zb_stack" where
  "give_bind E st = st\<lparr>s_bind_done := map_option (sem_give E) (s_bind_done st)\<rparr>"

definition zdo_bind_result :: "zb_env \<Rightarrow> bind_result option \<Rightarrow> nat \<Rightarrow> zb_stack \<Rightarrow> zb_stack" where
  "zdo_bind_result E result user_ctx st =
     (let st0 = st\<lparr>s_bind_err := -1\<rparr>;
          st1 = (case result of
                   None \<Rightarrow> st0
                 | Some r \<Rightarrow>
                     if br_error r = EZB_ERR_NONE E
                     then case br_rsp_status r of
                            None \<Rightarrow> st0\<lparr>zb_fault := True\<rparr>
                          | Some status \<Rightarrow>
                              if status = EZB_ZDP_STATUS_SUCCESS E then st0\<lparr>s_bind_err := 0\<rparr>
                              else st0\<lparr>s_bind_err := status\<rparr>
                     else st0\<lparr>s_bind_err := br_error r\<rparr>)
      in free_block user_ctx (give_bind E st1))"

fun basic_var :: "zb_env \<Rightarrow> read_attr_var \<Rightarrow> zigbee_basic_t \<Rightarrow> zigbee_basic_t" where
  "basic_var E v c =
     (if rv_status v \<noteq> EZB_ZCL_STATUS_SUCCESS E then c
      else if rv_attr_id v = ATTR_MANUFACTURER_NAME E
      then c\<lparr>ba_manufacturer := copy_zcl_string 16 (rv_value v)\<rparr>
      else if rv_attr_id v = ATTR_MODEL_IDENTIFIER E
      then c\<lparr>ba_model := copy_zcl_string 16 (rv_value v)\<rparr>
      else c)"

definition mem_int16 :: "(nat \<Rightarrow> u8) \<Rightarrow> int" where
  "mem_int16 m = from_le16_s (Le16 (m 0) (m 1))"

fun temp_var :: "zb_env \<Rightarrow> read_attr_var \<Rightarrow> zb_stack \<Rightarrow> zb_stack" where
  "temp_var E v st =
     (if rv_status v \<noteq> EZB_ZCL_STATUS_SUCCESS E then st
      else case rv_value v of
        None \<Rightarrow> st\<lparr>zb_fault := True\<rparr>
      | Some m \<Rightarrow>
          let x = mem_int16 m; c = s_temp_cache st
          in if rv_attr_id v = ATTR_MEASURED_VALUE E
             then st\<lparr>s_temp_cache := c\<lparr>te_measured := x\<rparr>, s_last_temp := x\<rparr>
             else if rv_attr_id v = ATTR_MIN_MEASURED_VALUE E
             then st\<lparr>s_temp_cache := c\<lparr>te_min_measured := x\<rparr>\<rparr>
             else if rv_attr_id v = ATTR_MAX_MEASURED_VALUE E
             then st\<lparr>s_temp_cache := c\<lparr>te_max_measured := x\<rparr>\<rparr>
             else if rv_attr_id v = ATTR_TOLERANCE E
             then st\<lparr>s_temp_cache := c\<lparr>te_tolerance := x\<rparr>\<rparr>
             else st)"

definition zcl_read_attr_rsp :: "zb_env \<Rightarrow> read_attr_rsp option \<Rightarrow> zb_stack \<Rightarrow> zb_stack" where
  "zcl_read_attr_rsp E message st =
     (case message of
        None \<Rightarrow> st
      | Some msg \<Rightarrow>
          if rr_cluster_id msg = CLUSTER_ID_BASIC E
          then let c0 = \<lparr>ba_err = (if rr_status msg = EZB_ZCL_STATUS_SUCCESS E then 0 else -1),
                         ba_manufacturer = replicate 16 0, ba_model = replicate 16 0\<rparr>;
                   c = fold (basic_var E) (rr_variables msg) c0
               in st\<lparr>s_basic_cache := c, s_basic_done := map_option (sem_give E) (s_basic_done st)\<rparr>
          else if rr_cluster_id msg = CLUSTER_ID_TEMPERATURE_MEASUREMENT E
          then let c0 = \<lparr>te_err = (if rr_status msg = EZB_ZCL_STATUS_SUCCESS E then 0 else -1),
                         te_measured = 0, te_min_measured = 0, te_max_measured = 0, te_tolerance = 0\<rparr>;
                   st1 = fold (temp_var E) (rr_variables msg) (st\<lparr>s_temp_cache := c0\<rparr>)
               in st1\<lparr>s_temp_done := map_option (sem_give E) (s_temp_done st1)\<rparr>
          else st)"

fun report_var :: "zb_env \<Rightarrow> u16 \<times> mem \<Rightarrow> zb_stack \<Rightarrow> zb_stack" where
  "report_var E (attr, val) st =
     (if attr = ATTR_MEASURED_VALUE E
      then case val of None \<Rightarrow> st\<lparr>zb_fault := True\<rparr> | Some m \<Rightarrow> st\<lparr>s_last_temp := mem_int16 m\<rparr>
      else st)"

definition zcl_report_attr :: "zb_env \<Rightarrow> report_attr_msg option \<Rightarrow> zb_stack \<Rightarrow> zb_stack" where
  "zcl_report_attr E message st =
     (case message of
        None \<Rightarrow> st
      | Some msg \<Rightarrow>
          if rp_cluster_id msg \<noteq> CLUSTER_ID_TEMPERATURE_MEASUREMENT E then st
          else let st1 = (case rp_src_short msg of
                            None \<Rightarrow> st
                          | Some a \<Rightarrow> st\<lparr>s_last_sensor_addr := a\<rparr>)
               in fold (report_var E) (rp_variables msg) st1)"

definition zcl_config_report_rsp :: "zb_env \<Rightarrow> int option \<Rightarrow> zb_stack \<Rightarrow> zb_stack" where
  "zcl_config_report_rsp E message st =
     st\<lparr>s_report_err := (if message = Some (EZB_ZCL_STATUS_SUCCESS E) then 0 else -1),
        s_report_done := map_option (sem_give E) (s_report_done st)\<rparr>"

fun zigbee_zcl_action_handler :: "zb_env \<Rightarrow> zcl_message \<Rightarrow> zb_stack \<Rightarrow> zb_stack" where
  "zigbee_zcl_action_handler E (Zcl_read_attr_rsp m) st = zcl_read_attr_rsp E m st"
| "zigbee_zcl_action_handler E (Zcl_config_report_rsp m) st = zcl_config_report_rsp E m st"
| "zigbee_zcl_action_handler E (Zcl_report_attr m) st = zcl_report_attr E m st"
| "zigbee_zcl_action_handler E Zcl_other st = st"

text \<open>The callback entry points together.\<close>

fun zb_handle :: "zb_env \<Rightarrow> zb_event \<Rightarrow> zb_stack \<Rightarrow> zb_stack" where
  "zb_handle E (Ev_signal s) st = zigbee_app_signal_handler E s st"
| "zb_handle E (Ev_alarm mode) st = zigbee_alarm_bdb_commissioning E mode st"
| "zb_handle E (Ev_match r) st = zdo_match_result E r st"
| "zb_handle E (Ev_bind r p) st = zdo_bind_result E r p st"
| "zb_handle E (Ev_zcl m) st = zigbee_zcl_action_handler E m st"

section \<open>Blocking\<close>

text \<open>
  The callbacks of a window run in order until \<open>ready\<close> holds; the rest is left over.
\<close>

fun run_window :: "zb_env \<Rightarrow> (zb_stack \<Rightarrow> bool) \<Rightarrow> zb_event list \<Rightarrow> zb_stack \<Rightarrow> zb_event list \<times> zb_stack" where
  "run_window E ready [] st = ([], st)"
| "run_window E ready (ev # evs) st =
     (if ready st then (ev # evs, st) else run_window E ready evs (zb_handle E ev st))"

fun push_front :: "zb_event list \<Rightarrow> zb_event list list \<Rightarrow> zb_event list list" where
  "push_front rest ws =
     (if rest = [] then ws else case ws of [] \<Rightarrow> [rest] | w # ws' \<Rightarrow> (rest @ w) # ws')"

definition block_on :: "zb_env \<Rightarrow> wait_object \<Rightarrow> (zb_stack \<Rightarrow> bool) \<Rightarrow> u32 \<Rightarrow> zb_stack \<Rightarrow> zb_stack" where
  "block_on E obj ready timeout_ms st0 =
     (let st = st0\<lparr>zb_calls := zb_calls st0 @ [Block_on obj timeout_ms (zb_lock st0)]\<rparr>
      in if ready st then st
         else case zb_windows st of
                [] \<Rightarrow> st
              | w # ws \<Rightarrow>
                  let (rest, st') = run_window E ready w st
                  in st'\<lparr>zb_windows := push_front rest ws\<rparr>)"

definition sem_ready :: "zb_env \<Rightarrow> bool option \<Rightarrow> bool" where
  "sem_ready E s = (case s of None \<Rightarrow> False | Some b \<Rightarrow> fst (sem_take E b))"

definition sem_after :: "zb_env \<Rightarrow> bool option \<Rightarrow> bool option" where
  "sem_after E s = map_option (\<lambda>b. snd (sem_take E b)) s"

definition annce_ready :: "zb_env \<Rightarrow> zb_stack \<Rightarrow> bool" where
  "annce_ready E st = (case s_annce_q st of None \<Rightarrow> False | Some (n, q) \<Rightarrow> annce_q_receive E q \<noteq> None)"

definition match_ready :: "zb_env \<Rightarrow> zb_stack \<Rightarrow> bool" where
  "match_ready E st = (case s_match_q st of None \<Rightarrow> False | Some (n, q) \<Rightarrow> match_q_receive E q \<noteq> None)"

section \<open>The API of zigbee_api.h\<close>

datatype esp_err = ESP_OK | ESP_FAIL | ESP_ERR_NO_MEM

definition zigbee_stack_start :: "(nat \<Rightarrow> bool) \<Rightarrow> bool \<Rightarrow> zb_stack \<Rightarrow> esp_err \<times> zb_stack" where
  "zigbee_stack_start alloc_ok task_ok st =
     (let st1 = st\<lparr>s_annce_q := (if alloc_ok 0 then Some (4, []) else None),
                   s_match_q := (if alloc_ok 1 then Some (1, []) else None),
                   s_basic_done := (if alloc_ok 2 then Some False else None),
                   s_temp_done := (if alloc_ok 3 then Some False else None),
                   s_bind_done := (if alloc_ok 4 then Some False else None),
                   s_report_done := (if alloc_ok 5 then Some False else None)\<rparr>
      in if s_annce_q st1 = None \<or> s_match_q st1 = None \<or> s_basic_done st1 = None \<or>
            s_temp_done st1 = None \<or> s_bind_done st1 = None \<or> s_report_done st1 = None
         then (ESP_ERR_NO_MEM, st1)
         else (if task_ok then ESP_OK else ESP_FAIL, st1))"

definition zigbee_get_short_addr :: "zb_env \<Rightarrow> zb_stack \<Rightarrow> u16 \<times> zb_stack" where
  "zigbee_get_short_addr E st =
     (let st1 = lock_acquire st in (nwk_get_short_address E (zb_calls st1), lock_release st1))"

definition zigbee_get_panid :: "zb_env \<Rightarrow> zb_stack \<Rightarrow> u16 \<times> zb_stack" where
  "zigbee_get_panid E st =
     (let st1 = lock_acquire st in (nwk_get_panid E (zb_calls st1), lock_release st1))"

definition zigbee_get_channel :: "zb_env \<Rightarrow> zb_stack \<Rightarrow> u8 \<times> zb_stack" where
  "zigbee_get_channel E st =
     (let st1 = lock_acquire st in (nwk_get_current_channel E (zb_calls st1), lock_release st1))"

definition zigbee_get_sensor_addr :: "zb_stack \<Rightarrow> u16 \<times> zb_stack" where
  "zigbee_get_sensor_addr st = (s_last_sensor_addr st, st)"

definition zigbee_open_network :: "zb_env \<Rightarrow> u8 \<Rightarrow> zb_stack \<Rightarrow> int \<times> zb_stack" where
  "zigbee_open_network E duration st =
     (let (err, st1) = ezb_do E (Open_network duration) (lock_acquire st)
      in (if err = EZB_ERR_NONE E then 0 else err, lock_release st1))"

definition zigbee_wait_annce :: "zb_env \<Rightarrow> u32 \<Rightarrow> zb_stack \<Rightarrow> u16 \<times> zb_stack" where
  "zigbee_wait_annce E timeout_ms st =
     (let st1 = block_on E Wait_annce (annce_ready E) timeout_ms st
      in case s_annce_q st1 of
           None \<Rightarrow> (0, st1)
         | Some (n, q) \<Rightarrow>
             case annce_q_receive E q of
               None \<Rightarrow> (0, st1)
             | Some (short_addr, q') \<Rightarrow> (short_addr, st1\<lparr>s_annce_q := Some (n, q')\<rparr>))"

definition zigbee_find_sensor :: "zb_env \<Rightarrow> u16 \<Rightarrow> u32 \<Rightarrow> zb_stack \<Rightarrow> zigbee_addr_t \<times> zb_stack" where
  "zigbee_find_sensor E short_addr timeout_ms st =
     (let out = \<lparr>ad_err = -1, ad_short_addr = 0, ad_ep = 0\<rparr>;
          req = \<lparr>md_dst_nwk_addr = short_addr, md_nwk_addr_of_interest = short_addr,
                 md_in_clusters = [CLUSTER_ID_TEMPERATURE_MEASUREMENT E]\<rparr>;
          st1 = st\<lparr>s_match_q := map_option (\<lambda>(n, q). (n, match_q_reset E q)) (s_match_q st)\<rparr>;
          (err, st2) = ezb_do E (Match_desc_req req) (lock_acquire st1);
          st3 = lock_release st2
      in if err \<noteq> EZB_ERR_NONE E then (out\<lparr>ad_err := err\<rparr>, st3)
         else let st4 = block_on E Wait_match (match_ready E) timeout_ms st3
              in case s_match_q st4 of
                   None \<Rightarrow> (out\<lparr>ad_err := -2\<rparr>, st4)
                 | Some (n, q) \<Rightarrow>
                     case match_q_receive E q of
                       None \<Rightarrow> (out\<lparr>ad_err := -2\<rparr>, st4)
                     | Some (found, q') \<Rightarrow>
                         let st5 = st4\<lparr>s_match_q := Some (n, q')\<rparr>
                         in (found, if ad_err found = 0
                                    then st5\<lparr>s_last_sensor_addr := ad_short_addr found\<rparr>
                                    else st5))"

definition zigbee_read_basic :: "zb_env \<Rightarrow> u16 \<Rightarrow> u8 \<Rightarrow> u32 \<Rightarrow> zb_stack \<Rightarrow> zigbee_basic_t \<times> zb_stack" where
  "zigbee_read_basic E short_addr ep timeout_ms st =
     (let out = \<lparr>ba_err = -1, ba_manufacturer = replicate 16 0, ba_model = replicate 16 0\<rparr>;
          cmd = \<lparr>rc_src_ep = ESP_ZIGBEE_HA_THERMOSTAT_EP_ID, rc_short_addr = short_addr,
                 rc_dst_ep = ep, rc_cluster_id = CLUSTER_ID_BASIC E,
                 rc_attr_field = [ATTR_MANUFACTURER_NAME E, ATTR_MODEL_IDENTIFIER E]\<rparr>;
          st1 = st\<lparr>s_basic_done := sem_after E (s_basic_done st)\<rparr>;
          (err, st2) = ezb_do E (Read_attr_req cmd) (lock_acquire st1);
          st3 = lock_release st2
      in if err \<noteq> EZB_ERR_NONE E then (out\<lparr>ba_err := err\<rparr>, st3)
         else let st4 = block_on E Wait_basic (\<lambda>s. sem_ready E (s_basic_done s)) timeout_ms st3;
                  st5 = st4\<lparr>s_basic_done := sem_after E (s_basic_done st4)\<rparr>
              in if sem_ready E (s_basic_done st4) then (s_basic_cache st5, st5)
                 else (out\<lparr>ba_err := -2\<rparr>, st5))"

definition zigbee_bind_common ::
    "zb_env \<Rightarrow> u16 \<Rightarrow> u8 \<Rightarrow> bool \<Rightarrow> u32 \<Rightarrow> zb_stack \<Rightarrow> int \<times> zb_stack" where
  "zigbee_bind_common E remote_short remote_ep to_local timeout_ms st =
     (if \<not> calloc_ok E (zb_calls st) then (-1, st)
      else
        let p = zb_next_block st;
            st1 = st\<lparr>zb_heap := p # zb_heap st, zb_next_block := p + 1,
                     s_bind_done := sem_after E (s_bind_done st)\<rparr>;
            st2 = lock_acquire st1;
            local_ext = nwk_get_extended_address E (zb_calls st2);
            (lookup, remote_ext) = address_extended_by_short E (zb_calls st2) remote_short
        in if lookup \<noteq> EZB_ERR_NONE E then (-1, free_block p (lock_release st2))
           else
             let req = (if to_local
                        then \<lparr>bq_dst_nwk_addr = nwk_get_short_address E (zb_calls st2),
                              bq_src_ep = ESP_ZIGBEE_HA_THERMOSTAT_EP_ID, bq_dst_ep = remote_ep,
                              bq_src_addr = local_ext, bq_dst_addr = remote_ext,
                              bq_cluster_id = CLUSTER_ID_TEMPERATURE_MEASUREMENT E\<rparr>
                        else \<lparr>bq_dst_nwk_addr = remote_short,
                              bq_src_ep = remote_ep, bq_dst_ep = ESP_ZIGBEE_HA_THERMOSTAT_EP_ID,
                              bq_src_addr = remote_ext, bq_dst_addr = local_ext,
                              bq_cluster_id = CLUSTER_ID_TEMPERATURE_MEASUREMENT E\<rparr>);
                 (err, st3) = ezb_do E (Bind_req req p) st2;
                 st4 = lock_release st3
             in if err \<noteq> EZB_ERR_NONE E then (err, free_block p st4)
                else let st5 = block_on E Wait_bind (\<lambda>s. sem_ready E (s_bind_done s)) timeout_ms st4;
                         st6 = st5\<lparr>s_bind_done := sem_after E (s_bind_done st5)\<rparr>
                     in if sem_ready E (s_bind_done st5) then (s_bind_err st6, st6) else (-2, st6))"

definition zigbee_bind_sensor :: "zb_env \<Rightarrow> u16 \<Rightarrow> u8 \<Rightarrow> u32 \<Rightarrow> zb_stack \<Rightarrow> int \<times> zb_stack" where
  "zigbee_bind_sensor E short_addr ep timeout_ms st =
     zigbee_bind_common E short_addr ep True timeout_ms st"

definition zigbee_subscribe_sensor :: "zb_env \<Rightarrow> u16 \<Rightarrow> u8 \<Rightarrow> u32 \<Rightarrow> zb_stack \<Rightarrow> int \<times> zb_stack" where
  "zigbee_subscribe_sensor E short_addr ep timeout_ms st =
     zigbee_bind_common E short_addr ep False timeout_ms st"

definition zigbee_config_report :: "zb_env \<Rightarrow> u16 \<Rightarrow> u8 \<Rightarrow> u32 \<Rightarrow> zb_stack \<Rightarrow> int \<times> zb_stack" where
  "zigbee_config_report E short_addr ep timeout_ms st =
     (let cmd = \<lparr>cr_src_ep = ESP_ZIGBEE_HA_THERMOSTAT_EP_ID,
                 cr_cluster_id = CLUSTER_ID_TEMPERATURE_MEASUREMENT E,
                 cr_attr_id = ATTR_MEASURED_VALUE E,
                 cr_min_interval = 1, cr_max_interval = 10, cr_reportable_change = 200\<rparr>;
          st1 = st\<lparr>s_report_done := sem_after E (s_report_done st)\<rparr>;
          (err, st2) = ezb_do E (Config_report_req cmd) (lock_acquire st1);
          st3 = lock_release st2
      in if err \<noteq> EZB_ERR_NONE E then (err, st3)
         else let st4 = block_on E Wait_report (\<lambda>s. sem_ready E (s_report_done s)) timeout_ms st3;
                  st5 = st4\<lparr>s_report_done := sem_after E (s_report_done st4)\<rparr>
              in if sem_ready E (s_report_done st4) then (s_report_err st5, st5) else (-2, st5))"

definition zigbee_read_temp :: "zb_env \<Rightarrow> u16 \<Rightarrow> u8 \<Rightarrow> u32 \<Rightarrow> zb_stack \<Rightarrow> zigbee_temp_t \<times> zb_stack" where
  "zigbee_read_temp E short_addr ep timeout_ms st =
     (let out = \<lparr>te_err = -1, te_measured = 0, te_min_measured = 0, te_max_measured = 0,
                 te_tolerance = 0\<rparr>;
          cmd = \<lparr>rc_src_ep = ESP_ZIGBEE_HA_THERMOSTAT_EP_ID, rc_short_addr = short_addr,
                 rc_dst_ep = ep, rc_cluster_id = CLUSTER_ID_TEMPERATURE_MEASUREMENT E,
                 rc_attr_field = [ATTR_MEASURED_VALUE E, ATTR_MIN_MEASURED_VALUE E,
                                  ATTR_MAX_MEASURED_VALUE E, ATTR_TOLERANCE E]\<rparr>;
          st1 = st\<lparr>s_temp_done := sem_after E (s_temp_done st)\<rparr>;
          (err, st2) = ezb_do E (Read_attr_req cmd) (lock_acquire st1);
          st3 = lock_release st2
      in if err \<noteq> EZB_ERR_NONE E then (out\<lparr>te_err := err\<rparr>, st3)
         else let st4 = block_on E Wait_temp (\<lambda>s. sem_ready E (s_temp_done s)) timeout_ms st3;
                  st5 = st4\<lparr>s_temp_done := sem_after E (s_temp_done st4)\<rparr>
              in if sem_ready E (s_temp_done st4) then (s_temp_cache st5, st5)
                 else (out\<lparr>te_err := -2\<rparr>, st5))"

definition zigbee_get_last_temp :: "zb_stack \<Rightarrow> int \<times> zb_stack" where
  "zigbee_get_last_temp st = (s_last_temp st, st)"

lemmas stack_op_defs [stack_defs] =
  ezb_do_def lock_acquire_def lock_release_def
  zigbee_get_short_addr_def zigbee_get_panid_def zigbee_get_channel_def
  zigbee_get_sensor_addr_def zigbee_open_network_def zigbee_wait_annce_def
  zigbee_find_sensor_def zigbee_read_basic_def zigbee_bind_sensor_def
  zigbee_subscribe_sensor_def zigbee_config_report_def zigbee_read_temp_def
  zigbee_get_last_temp_def

section \<open>FreeRTOS objects\<close>

text \<open>
  The documented semantics of a bounded queue and of a binary semaphore, put into an arbitrary
  environment: every environment of this form satisfies \<open>freertos\<close>.
\<close>

definition queue_send :: "nat \<Rightarrow> 'a list \<Rightarrow> 'a \<Rightarrow> 'a list" where
  "queue_send n q x = (if length q < n then q @ [x] else q)"

fun queue_receive :: "'a list \<Rightarrow> ('a \<times> 'a list) option" where
  "queue_receive [] = None"
| "queue_receive (x # q) = Some (x, q)"

definition with_freertos :: "zb_env \<Rightarrow> zb_env" where
  "with_freertos E = E\<lparr>annce_q_send := queue_send, annce_q_receive := queue_receive,
     match_q_send := queue_send, match_q_receive := queue_receive, match_q_reset := (\<lambda>_. []),
     sem_give := (\<lambda>_. True), sem_take := (\<lambda>b. (b, False))\<rparr>"

lemma queue_receive_eq: "queue_receive q = (case q of [] \<Rightarrow> None | x # q' \<Rightarrow> Some (x, q'))"
  by (cases q) simp_all

interpretation rtos: freertos "with_freertos E" for E
  by unfold_locales (simp_all add: with_freertos_def queue_send_def queue_receive_eq)

section \<open>Invariants carried through blocking calls\<close>

text \<open>
  What a callback of the Zigbee task hands over is well typed: C integers are in range.
\<close>

fun event_ok :: "zb_event \<Rightarrow> bool" where
  "event_ok (Ev_match (Some r)) = int32_range (mr_error r)"
| "event_ok (Ev_bind (Some r) p) =
     (int32_range (br_error r) \<and> (case br_rsp_status r of None \<Rightarrow> True | Some x \<Rightarrow> int32_range x))"
| "event_ok _ = True"

definition windows_all :: "(zb_event \<Rightarrow> bool) \<Rightarrow> zb_stack \<Rightarrow> bool" where
  "windows_all ok st = list_all (list_all ok) (zb_windows st)"

lemma windows_all_True [simp]: "windows_all (\<lambda>_. True) st"
  by (simp add: windows_all_def list_all_iff)

lemma windows_all_push: "list_all ok rest \<Longrightarrow> list_all (list_all ok) ws \<Longrightarrow>
   list_all (list_all ok) (push_front rest ws)"
  by (cases ws) auto

lemma fold_frame: "(\<And>x s. g (f x s) = g s) \<Longrightarrow> g (fold f xs s) = g s"
  by (induction xs arbitrary: s) simp_all

lemma temp_var_frame [simp]:
  "zb_windows (temp_var E v st) = zb_windows st" "zb_lock (temp_var E v st) = zb_lock st"
  "zb_calls (temp_var E v st) = zb_calls st" "zb_heap (temp_var E v st) = zb_heap st"
  "zb_next_block (temp_var E v st) = zb_next_block st"
  "s_match_q (temp_var E v st) = s_match_q st" "s_annce_q (temp_var E v st) = s_annce_q st"
  "s_basic_cache (temp_var E v st) = s_basic_cache st"
  "s_bind_err (temp_var E v st) = s_bind_err st" "s_report_err (temp_var E v st) = s_report_err st"
  by (simp_all add: Let_def split: option.splits)

lemma report_var_frame [simp]:
  "zb_windows (report_var E v st) = zb_windows st" "zb_lock (report_var E v st) = zb_lock st"
  "zb_calls (report_var E v st) = zb_calls st" "zb_heap (report_var E v st) = zb_heap st"
  "zb_next_block (report_var E v st) = zb_next_block st"
  "s_match_q (report_var E v st) = s_match_q st" "s_annce_q (report_var E v st) = s_annce_q st"
  "s_basic_cache (report_var E v st) = s_basic_cache st"
  "s_temp_cache (report_var E v st) = s_temp_cache st"
  "s_bind_err (report_var E v st) = s_bind_err st" "s_report_err (report_var E v st) = s_report_err st"
  by (cases v; simp split: option.splits)+

declare temp_var.simps [simp del] report_var.simps [simp del]

lemmas callback_defs =
  zigbee_alarm_bdb_commissioning_def zdo_match_result_def zdo_bind_result_def give_bind_def
  free_block_def zcl_read_attr_rsp_def zcl_report_attr_def zcl_config_report_rsp_def
  ezb_do_def lock_acquire_def lock_release_def Let_def

lemma handle_frame [simp]:
  "zb_windows (zb_handle E ev st) = zb_windows st" "zb_lock (zb_handle E ev st) = zb_lock st"
proof -
  have "zb_windows (zb_handle E ev st) = zb_windows st \<and> zb_lock (zb_handle E ev st) = zb_lock st"
  proof (cases ev)
    case (Ev_signal sg)
    then show ?thesis by (cases sg) (auto simp: callback_defs split: option.splits)
  next
    case (Ev_zcl m)
    then show ?thesis
      by (cases m) (auto simp: callback_defs fold_frame [where g = zb_windows]
          fold_frame [where g = zb_lock] split: option.splits)
  qed (auto simp: callback_defs split: option.splits)
  then show "zb_windows (zb_handle E ev st) = zb_windows st" "zb_lock (zb_handle E ev st) = zb_lock st"
    by simp_all
qed

text \<open>A property of the stack that every callback keeps survives a blocking call.\<close>

locale stack_inv =
  fixes E :: zb_env and ok :: "zb_event \<Rightarrow> bool" and P :: "zb_stack \<Rightarrow> bool"
  assumes handle: "ok ev \<Longrightarrow> P st \<Longrightarrow> P (zb_handle E ev st)"
    and waits: "P st \<Longrightarrow> P (st\<lparr>zb_calls := zb_calls st @ [Block_on obj t (zb_lock st)]\<rparr>)"
    and windows [simp]: "P (st\<lparr>zb_windows := ws\<rparr>) = P st"
begin

lemma run_window_inv:
  assumes "list_all ok w" "P st" "run_window E ready w st = (rest, st')"
  shows "P st' \<and> list_all ok rest"
  using assms
proof (induction w arbitrary: st)
  case (Cons ev w)
  then show ?case
    using Cons.IH [of "zb_handle E ev st"] handle [of ev st] by (auto split: if_splits)
qed simp

lemma block_on_inv:
  assumes "windows_all ok st" "P st"
  shows "P (block_on E obj ready t st)" and "windows_all ok (block_on E obj ready t st)"
proof -
  let ?st = "st\<lparr>zb_calls := zb_calls st @ [Block_on obj t (zb_lock st)]\<rparr>"
  have "P ?st" using assms(2) by (rule waits)
  have "P (block_on E obj ready t st) \<and> windows_all ok (block_on E obj ready t st)"
  proof (cases "ready ?st \<or> zb_windows st = []")
    case True
    with assms \<open>P ?st\<close> show ?thesis by (auto simp: block_on_def windows_all_def Let_def)
  next
    case False
    then obtain w ws where ws: "zb_windows st = w # ws" by (cases "zb_windows st") auto
    obtain rest st' where r: "run_window E ready w ?st = (rest, st')" by fastforce
    have "P st' \<and> list_all ok rest" "list_all (list_all ok) ws"
      using run_window_inv [OF _ \<open>P ?st\<close> r] assms ws by (auto simp: windows_all_def)
    with False ws r windows_all_push [of ok rest ws] show ?thesis
      by (auto simp: block_on_def windows_all_def Let_def simp del: push_front.simps)
  qed
  then show "P (block_on E obj ready t st)" and "windows_all ok (block_on E obj ready t st)" by simp_all
qed

end

text \<open>
  Every call the adapter makes is balanced: \<open>lock_kept\<close> says that an operation leaves the lock
  as it found it and that every blocking wait it adds to the log happened without it.
\<close>

fun waits_at :: "nat \<Rightarrow> ezb_call \<Rightarrow> bool" where
  "waits_at n (Block_on obj t k) = (k = n)"
| "waits_at n _ = True"

definition lock_kept :: "zb_stack \<Rightarrow> zb_stack \<Rightarrow> bool" where
  "lock_kept st st' = (zb_lock st' = zb_lock st \<and>
     (\<exists>cs. zb_calls st' = zb_calls st @ cs \<and> list_all (waits_at (zb_lock st)) cs))"

lemma lock_kept_refl [simp]: "lock_kept st st"
  by (simp add: lock_kept_def)

lemma lock_kept_trans: "lock_kept a b \<Longrightarrow> lock_kept b c \<Longrightarrow> lock_kept a c"
  by (auto simp: lock_kept_def)

lemma handle_lock_kept: "lock_kept st (zb_handle E ev st)"
proof (cases ev)
  case (Ev_signal sg)
  then show ?thesis by (cases sg) (auto simp: lock_kept_def callback_defs split: option.splits)
next
  case (Ev_zcl m)
  then show ?thesis
    by (cases m) (auto simp: lock_kept_def callback_defs fold_frame [where g = zb_calls]
        fold_frame [where g = zb_lock] split: option.splits)
qed (auto simp: lock_kept_def callback_defs split: option.splits)

lemma lock_kept_wait:
  "lock_kept st st' \<Longrightarrow> lock_kept st (st'\<lparr>zb_calls := zb_calls st' @ [Block_on obj t (zb_lock st')]\<rparr>)"
  by (auto simp: lock_kept_def)

interpretation lock_inv: stack_inv E "\<lambda>_. True" "lock_kept st" for E st
proof unfold_locales
  fix ev st' ws
  show "lock_kept st st' \<Longrightarrow> lock_kept st (zb_handle E ev st')"
    by (rule lock_kept_trans [OF _ handle_lock_kept])
  show "lock_kept st (st'\<lparr>zb_windows := ws\<rparr>) = lock_kept st st'"
    by (simp add: lock_kept_def)
qed (rule lock_kept_wait)

lemma block_on_lock_kept: "lock_kept st (block_on E obj ready t st)"
  by (rule lock_inv.block_on_inv(1)) simp_all

lemma lock_kept_same: "zb_lock st' = zb_lock st \<Longrightarrow> zb_calls st' = zb_calls st \<Longrightarrow> lock_kept st st'"
  by (simp add: lock_kept_def)

lemma locked_call: "lock_kept st st' \<Longrightarrow> (\<And>n. waits_at n c) \<Longrightarrow>
   lock_kept st (lock_release (snd (ezb_do E c (lock_acquire st'))))"
  by (auto simp: lock_kept_def ezb_do_def lock_acquire_def lock_release_def)

lemma lock_kept_update:
  "lock_kept st (st'\<lparr>s_annce_q := a\<rparr>) = lock_kept st st'" "lock_kept st (st'\<lparr>s_match_q := b\<rparr>) = lock_kept st st'"
  "lock_kept st (st'\<lparr>s_basic_done := c\<rparr>) = lock_kept st st'" "lock_kept st (st'\<lparr>s_temp_done := c\<rparr>) = lock_kept st st'"
  "lock_kept st (st'\<lparr>s_bind_done := c\<rparr>) = lock_kept st st'" "lock_kept st (st'\<lparr>s_report_done := c\<rparr>) = lock_kept st st'"
  "lock_kept st (st'\<lparr>s_last_sensor_addr := d\<rparr>) = lock_kept st st'"
  "lock_kept st (st'\<lparr>zb_heap := h\<rparr>) = lock_kept st st'" "lock_kept st (st'\<lparr>zb_fault := f\<rparr>) = lock_kept st st'"
  "lock_kept st (st'\<lparr>zb_next_block := k\<rparr>) = lock_kept st st'"
  by (simp_all add: lock_kept_def)

lemma lock_kept_free [simp]: "lock_kept st (free_block p st') = lock_kept st st'"
  by (simp add: free_block_def lock_kept_update)

lemma lock_kept_block: "lock_kept st st' \<Longrightarrow> lock_kept st (block_on E obj ready t st')"
  by (rule lock_kept_trans [OF _ block_on_lock_kept])

lemmas lock_kept_rules = lock_kept_block locked_call lock_kept_refl

lemma wait_annce_lock_kept: "lock_kept st (snd (zigbee_wait_annce E t st))"
  by (auto simp: zigbee_wait_annce_def Let_def lock_kept_update intro!: lock_kept_rules
      split: option.splits prod.splits)

lemma open_network_lock_kept: "lock_kept st (snd (zigbee_open_network E d st))"
  by (auto simp: zigbee_open_network_def Let_def case_prod_beta intro!: lock_kept_rules)

lemma find_sensor_lock_kept: "lock_kept st (snd (zigbee_find_sensor E a t st))"
  by (auto simp: zigbee_find_sensor_def Let_def case_prod_beta lock_kept_update intro!: lock_kept_rules
      split: option.splits)

lemma read_basic_lock_kept: "lock_kept st (snd (zigbee_read_basic E a ep t st))"
  by (auto simp: zigbee_read_basic_def Let_def case_prod_beta lock_kept_update intro!: lock_kept_rules)

lemma read_temp_lock_kept: "lock_kept st (snd (zigbee_read_temp E a ep t st))"
  by (auto simp: zigbee_read_temp_def Let_def case_prod_beta lock_kept_update intro!: lock_kept_rules)

lemma config_report_lock_kept: "lock_kept st (snd (zigbee_config_report E a ep t st))"
  by (auto simp: zigbee_config_report_def Let_def case_prod_beta lock_kept_update intro!: lock_kept_rules)

lemma lock_kept_pair: "lock_kept st st' \<Longrightarrow> lock_kept st (lock_release (lock_acquire st'))"
  by (simp add: lock_kept_def lock_acquire_def lock_release_def)

lemma bind_common_lock_kept: "lock_kept st (snd (zigbee_bind_common E a ep l t st))"
  by (auto simp: zigbee_bind_common_def Let_def case_prod_beta lock_kept_update
      intro!: lock_kept_rules lock_kept_pair)

lemma getters_lock_kept:
  "lock_kept st (snd (zigbee_get_short_addr E st))" "lock_kept st (snd (zigbee_get_panid E st))"
  "lock_kept st (snd (zigbee_get_channel E st))" "lock_kept st (snd (zigbee_get_sensor_addr st))"
  "lock_kept st (snd (zigbee_get_last_temp st))"
  by (simp_all add: zigbee_get_short_addr_def zigbee_get_panid_def zigbee_get_channel_def
      zigbee_get_sensor_addr_def zigbee_get_last_temp_def Let_def lock_kept_pair)

lemmas api_lock_kept =
  wait_annce_lock_kept open_network_lock_kept find_sensor_lock_kept read_basic_lock_kept
  read_temp_lock_kept config_report_lock_kept bind_common_lock_kept getters_lock_kept

end
