(* ===== verification/Stack_Props.thy ===== *)
theory Stack_Props
  imports Zigbee_Stack
begin

text \<open>
  Properties of the coordinator adapter: strings copied out of ZCL attributes are bounded and
  terminated, the cached results stay well typed whatever callbacks run, no callback
  dereferences a null pointer when the stack passes valid ones, and request blocks are freed
  exactly once.
\<close>

section \<open>ZCL strings\<close>

lemma copy_len:
  assumes "0 < n"
  shows "unat (if n \<le> unat m then (of_nat (n - 1) :: u8) else m) = min (unat m) (n - 1)"
proof -
  obtain k where n: "n = Suc k" using assms by (cases n) auto
  have "unat m < 256" using unsigned_less [of m, where ?'a = nat] by simp
  then have "Suc k \<le> unat m \<Longrightarrow> unat (of_nat k :: u8) = k"
    by (simp add: unat_of_nat take_bit_nat_eq_self)
  then show ?thesis by (auto simp: n min_def)
qed

lemma copy_zcl_string_Some:
  assumes "0 < n"
  shows "copy_zcl_string n (Some m) =
    map (\<lambda>i. m (i + 1)) [0..<min (unat (m 0)) (n - 1)] @ replicate (n - min (unat (m 0)) (n - 1)) 0"
  using assms by (simp add: copy_zcl_string_def Let_def copy_len)

lemma copy_zcl_string_length [simp]: "length (copy_zcl_string n z) = n"
  by (cases "n = 0"; cases z) (simp_all add: copy_zcl_string_Some, simp_all add: copy_zcl_string_def)

lemma copy_zcl_string_terminated:
  assumes "0 < n"
  shows "copy_zcl_string n z ! (n - 1) = 0"
  using assms by (cases z) (simp_all add: copy_zcl_string_Some nth_append, simp add: copy_zcl_string_def)

section \<open>Cached results are well typed\<close>

definition env_ok :: "zb_env \<Rightarrow> bool" where
  "env_ok E = (\<forall>cs c. int32_range (ezb_ret E cs c))"

definition basic_ok :: "zigbee_basic_t \<Rightarrow> bool" where
  "basic_ok b = (int32_range (ba_err b) \<and> length (ba_manufacturer b) = 16 \<and> length (ba_model b) = 16)"

definition temp_ok :: "zigbee_temp_t \<Rightarrow> bool" where
  "temp_ok t = (int32_range (te_err t) \<and> int16_range (te_measured t) \<and> int16_range (te_min_measured t) \<and>
     int16_range (te_max_measured t) \<and> int16_range (te_tolerance t))"

definition addr_ok :: "zigbee_addr_t \<Rightarrow> bool" where
  "addr_ok a = int32_range (ad_err a)"

definition stack_ok :: "zb_stack \<Rightarrow> bool" where
  "stack_ok st = (basic_ok (s_basic_cache st) \<and> temp_ok (s_temp_cache st) \<and> int16_range (s_last_temp st) \<and>
     int32_range (s_bind_err st) \<and> int32_range (s_report_err st) \<and>
     (case s_match_q st of None \<Rightarrow> True | Some (n, q) \<Rightarrow> list_all addr_ok q))"

lemma mem_int16_range: "int16_range (mem_int16 m)"
  unfolding mem_int16_def by (rule from_le16_s_range)

lemma basic_var_ok: "basic_ok c \<Longrightarrow> basic_ok (basic_var E v c)"
  by (simp add: basic_ok_def)

lemma fold_inv: "(\<And>x s. P s \<Longrightarrow> P (f x s)) \<Longrightarrow> P s \<Longrightarrow> P (fold f xs s)"
  by (induction xs arbitrary: s) simp_all

lemma temp_var_ok: "stack_ok st \<Longrightarrow> stack_ok (temp_var E v st)"
  using mem_int16_range by (auto simp: temp_var.simps stack_ok_def temp_ok_def Let_def split: option.splits)

lemma report_var_ok: "stack_ok st \<Longrightarrow> stack_ok (report_var E v st)"
  using mem_int16_range by (cases v) (auto simp: report_var.simps stack_ok_def split: option.splits)

lemma stack_ok_update:
  "stack_ok (st\<lparr>s_annce_q := a\<rparr>) = stack_ok st" "stack_ok (st\<lparr>s_basic_done := c\<rparr>) = stack_ok st"
  "stack_ok (st\<lparr>s_temp_done := c\<rparr>) = stack_ok st" "stack_ok (st\<lparr>s_bind_done := c\<rparr>) = stack_ok st"
  "stack_ok (st\<lparr>s_report_done := c\<rparr>) = stack_ok st" "stack_ok (st\<lparr>s_last_sensor_addr := d\<rparr>) = stack_ok st"
  "stack_ok (st\<lparr>zb_heap := h\<rparr>) = stack_ok st" "stack_ok (st\<lparr>zb_fault := f\<rparr>) = stack_ok st"
  "stack_ok (st\<lparr>zb_next_block := k\<rparr>) = stack_ok st" "stack_ok (st\<lparr>zb_calls := cs\<rparr>) = stack_ok st"
  "stack_ok (st\<lparr>zb_lock := n\<rparr>) = stack_ok st" "stack_ok (st\<lparr>zb_windows := ws\<rparr>) = stack_ok st"
  by (simp_all add: stack_ok_def)

lemma windows_all_update:
  "windows_all ok (st\<lparr>s_annce_q := a\<rparr>) = windows_all ok st" "windows_all ok (st\<lparr>s_basic_done := c\<rparr>) = windows_all ok st"
  "windows_all ok (st\<lparr>s_temp_done := c\<rparr>) = windows_all ok st" "windows_all ok (st\<lparr>s_bind_done := c\<rparr>) = windows_all ok st"
  "windows_all ok (st\<lparr>s_report_done := c\<rparr>) = windows_all ok st" "windows_all ok (st\<lparr>s_last_sensor_addr := d\<rparr>) = windows_all ok st"
  "windows_all ok (st\<lparr>zb_heap := h\<rparr>) = windows_all ok st" "windows_all ok (st\<lparr>zb_fault := f\<rparr>) = windows_all ok st"
  "windows_all ok (st\<lparr>zb_next_block := k\<rparr>) = windows_all ok st" "windows_all ok (st\<lparr>zb_calls := cs\<rparr>) = windows_all ok st"
  "windows_all ok (st\<lparr>zb_lock := n\<rparr>) = windows_all ok st" "windows_all ok (st\<lparr>s_match_q := q\<rparr>) = windows_all ok st"
  by (simp_all add: windows_all_def)

locale typed_stack = freertos E for E +
  assumes env: "env_ok E"
begin

lemma signal_ok: "stack_ok st \<Longrightarrow> stack_ok (zigbee_app_signal_handler E sg st)"
  by (cases sg) (auto simp: ezb_do_def stack_ok_update split: option.splits)

lemma match_result_ok:
  assumes "event_ok (Ev_match r)" "stack_ok st"
  shows "stack_ok (zdo_match_result E r st)"
  using assms
  by (auto simp: zdo_match_result_def match_out_def stack_ok_def match_send addr_ok_def Let_def split: option.splits)

lemma bind_result_ok:
  assumes "event_ok (Ev_bind r p)" "stack_ok st"
  shows "stack_ok (zdo_bind_result E r p st)"
  using assms
  by (auto simp: zdo_bind_result_def give_bind_def free_block_def stack_ok_update Let_def split: option.splits)
    (auto simp: stack_ok_def)

lemma read_attr_ok:
  assumes "stack_ok st"
  shows "stack_ok (zcl_read_attr_rsp E m st)"
proof (cases m)
  case (Some msg)
  let ?b = "\<lparr>ba_err = (if rr_status msg = EZB_ZCL_STATUS_SUCCESS E then 0 else -1),
     ba_manufacturer = replicate 16 0, ba_model = replicate 16 0\<rparr>"
  let ?t = "\<lparr>te_err = (if rr_status msg = EZB_ZCL_STATUS_SUCCESS E then 0 else -1),
     te_measured = 0, te_min_measured = 0, te_max_measured = 0, te_tolerance = 0\<rparr>"
  have "basic_ok (fold (basic_var E) (rr_variables msg) ?b)"
    by (rule fold_inv [where P = basic_ok, OF basic_var_ok]) (simp_all add: basic_ok_def)
  moreover have "stack_ok (fold (temp_var E) (rr_variables msg) (st\<lparr>s_temp_cache := ?t\<rparr>))"
    by (rule fold_inv [where P = stack_ok, OF temp_var_ok]) (use assms in \<open>simp_all add: stack_ok_def temp_ok_def\<close>)
  ultimately show ?thesis
    using assms Some by (auto simp: zcl_read_attr_rsp_def stack_ok_update Let_def) (auto simp: stack_ok_def)
qed (simp add: zcl_read_attr_rsp_def assms)

lemma report_attr_ok: "stack_ok st \<Longrightarrow> stack_ok (zcl_report_attr E m st)"
  by (auto simp: zcl_report_attr_def stack_ok_update Let_def intro!: fold_inv [where P = stack_ok, OF report_var_ok]
      split: option.splits)

lemma config_report_rsp_ok: "stack_ok st \<Longrightarrow> stack_ok (zcl_config_report_rsp E m st)"
  by (simp add: zcl_config_report_rsp_def stack_ok_update) (simp add: stack_ok_def)

lemma handle_ok: "event_ok ev \<Longrightarrow> stack_ok st \<Longrightarrow> stack_ok (zb_handle E ev st)"
proof (cases ev)
  case (Ev_zcl m)
  then show "stack_ok st \<Longrightarrow> stack_ok (zb_handle E ev st)"
    by (cases m) (simp_all add: read_attr_ok report_attr_ok config_report_rsp_ok)
qed (simp_all add: signal_ok match_result_ok bind_result_ok zigbee_alarm_bdb_commissioning_def
    ezb_do_def lock_acquire_def lock_release_def stack_ok_update)

end

sublocale typed_stack \<subseteq> inv: stack_inv E event_ok stack_ok
  by unfold_locales (simp_all add: handle_ok stack_ok_update)

text \<open>Well-typed states: the caches are, and so are the callbacks still to come.\<close>

definition good :: "zb_stack \<Rightarrow> bool" where
  "good st = (stack_ok st \<and> windows_all event_ok st)"

lemma good_update:
  "good (st\<lparr>s_annce_q := a\<rparr>) = good st" "good (st\<lparr>s_basic_done := c\<rparr>) = good st"
  "good (st\<lparr>s_temp_done := c\<rparr>) = good st" "good (st\<lparr>s_bind_done := c\<rparr>) = good st"
  "good (st\<lparr>s_report_done := c\<rparr>) = good st" "good (st\<lparr>s_last_sensor_addr := d\<rparr>) = good st"
  "good (st\<lparr>zb_heap := h\<rparr>) = good st" "good (st\<lparr>zb_fault := f\<rparr>) = good st"
  "good (st\<lparr>zb_next_block := k\<rparr>) = good st" "good (st\<lparr>zb_calls := cs\<rparr>) = good st"
  "good (st\<lparr>zb_lock := n\<rparr>) = good st"
  by (simp_all add: good_def stack_ok_update windows_all_update)

lemma good_match_q:
  "good st \<Longrightarrow> list_all addr_ok q \<Longrightarrow> good (st\<lparr>s_match_q := Some (n, q)\<rparr>)"
  by (auto simp: good_def windows_all_update stack_ok_def)

lemma good_match_None: "good st \<Longrightarrow> s_match_q st = None \<Longrightarrow> good (st\<lparr>s_match_q := None\<rparr>)"
  by (simp add: good_def windows_all_update stack_ok_def)

lemma good_match_addr: "good st \<Longrightarrow> s_match_q st = Some (n, q) \<Longrightarrow> list_all addr_ok q"
  by (simp add: good_def stack_ok_def)

lemma good_caches:
  "good st \<Longrightarrow> basic_ok (s_basic_cache st)" "good st \<Longrightarrow> temp_ok (s_temp_cache st)"
  "good st \<Longrightarrow> - 2147483648 \<le> s_bind_err st" "good st \<Longrightarrow> s_bind_err st < 2147483648"
  "good st \<Longrightarrow> - 2147483648 \<le> s_report_err st" "good st \<Longrightarrow> s_report_err st < 2147483648"
  "good st \<Longrightarrow> int16_range (s_last_temp st)"
  by (simp_all add: good_def stack_ok_def)

lemma basic_ok_error:
  "basic_ok \<lparr>ba_err = e, ba_manufacturer = replicate 16 0, ba_model = replicate 16 0\<rparr> = int32_range e"
  by (simp add: basic_ok_def)

lemma temp_ok_error:
  "temp_ok \<lparr>te_err = e, te_measured = 0, te_min_measured = 0, te_max_measured = 0, te_tolerance = 0\<rparr> = int32_range e"
  by (simp add: temp_ok_def)

lemma good_locked_call [simp]:
  "good (lock_release (snd (ezb_do E c (lock_acquire st)))) = good st"
  "good (lock_release (lock_acquire st)) = good st" "good (free_block p st) = good st"
  by (simp_all add: ezb_do_def lock_acquire_def lock_release_def free_block_def good_update)

context typed_stack begin

lemma block_on_good: "good st \<Longrightarrow> good (block_on E obj ready t st)"
  using inv.block_on_inv by (auto simp: good_def)

lemma ezb_do_range: "int32_range (fst (ezb_do E c st))"
  using env by (simp add: ezb_do_def env_ok_def)

lemma wait_annce_good: "good st \<Longrightarrow> good (snd (zigbee_wait_annce E t st))"
  by (auto simp: zigbee_wait_annce_def Let_def good_update block_on_good split: option.splits)

lemma open_network_good:
  "good st \<Longrightarrow> good (snd (zigbee_open_network E d st))" "int32_range (fst (zigbee_open_network E d st))"
  using ezb_do_range by (auto simp: zigbee_open_network_def Let_def case_prod_beta)

lemma reset_match_good:
  "good st \<Longrightarrow> good (st\<lparr>s_match_q := map_option (\<lambda>(n, q). (n, match_q_reset E q)) (s_match_q st)\<rparr>)"
  by (cases "s_match_q st") (auto simp: match_reset intro!: good_match_q good_match_None)

lemma find_sensor_good:
  assumes "good st"
  shows "good (snd (zigbee_find_sensor E a t st)) \<and> addr_ok (fst (zigbee_find_sensor E a t st))"
proof -
  let ?st1 = "st\<lparr>s_match_q := map_option (\<lambda>(n, q). (n, match_q_reset E q)) (s_match_q st)\<rparr>"
  have 1: "good ?st1" using assms by (rule reset_match_good)
  show ?thesis
    using ezb_do_range block_on_good 1
    by (auto simp: zigbee_find_sensor_def Let_def case_prod_beta addr_ok_def match_receive good_update
        dest!: good_match_addr [rotated] intro!: good_match_q split: option.splits list.splits)
qed

lemma read_basic_good:
  assumes "good st"
  shows "good (snd (zigbee_read_basic E a ep t st)) \<and> basic_ok (fst (zigbee_read_basic E a ep t st))"
  using assms ezb_do_range block_on_good
  by (auto simp: zigbee_read_basic_def Let_def case_prod_beta good_update basic_ok_error good_caches)

lemma read_temp_good:
  assumes "good st"
  shows "good (snd (zigbee_read_temp E a ep t st)) \<and> temp_ok (fst (zigbee_read_temp E a ep t st))"
  using assms ezb_do_range block_on_good
  by (auto simp: zigbee_read_temp_def Let_def case_prod_beta good_update temp_ok_error good_caches)

lemma config_report_good:
  assumes "good st"
  shows "good (snd (zigbee_config_report E a ep t st)) \<and> int32_range (fst (zigbee_config_report E a ep t st))"
  using assms ezb_do_range block_on_good
  by (auto simp: zigbee_config_report_def Let_def case_prod_beta good_update good_caches)

lemma bind_common_good:
  assumes "good st"
  shows "good (snd (zigbee_bind_common E a ep l t st)) \<and> int32_range (fst (zigbee_bind_common E a ep l t st))"
  using assms ezb_do_range block_on_good
  by (auto simp: zigbee_bind_common_def Let_def case_prod_beta good_update good_caches)

lemma getters_good:
  "good (snd (zigbee_get_short_addr E st)) = good st" "good (snd (zigbee_get_panid E st)) = good st"
  "good (snd (zigbee_get_channel E st)) = good st"
  by (simp_all add: zigbee_get_short_addr_def zigbee_get_panid_def zigbee_get_channel_def Let_def)

end

text \<open>
  The C prototypes return \<open>int32_t\<close>: an environment seen through them, with FreeRTOS objects that
  behave as documented, is a \<open>typed_stack\<close>.
\<close>

definition c_env :: "zb_env \<Rightarrow> zb_env" where
  "c_env E = with_freertos (E\<lparr>ezb_ret := (\<lambda>cs c. from_le32_s (to_le32_s (ezb_ret E cs c)))\<rparr>)"

lemma env_ok_c_env: "env_ok (c_env E)"
  using from_le32_s_range by (simp add: env_ok_def c_env_def with_freertos_def)

interpretation c_stack: typed_stack "c_env E" for E
  by (intro typed_stack.intro typed_stack_axioms.intro env_ok_c_env)
    (unfold c_env_def, rule rtos.freertos_axioms)

section \<open>Waiting for a callback\<close>

text \<open>
  A wait depends on one object of the stack (a queue or a semaphore), and only some callbacks
  touch it.  The callbacks of a window run up to the first that completes the wait.
\<close>

locale wait_point =
  fixes E :: zb_env and obj :: "zb_stack \<Rightarrow> 'f" and rdy :: "'f \<Rightarrow> bool" and completes :: "zb_event \<Rightarrow> bool"
  assumes quiet: "\<not> completes ev \<Longrightarrow> obj (zb_handle E ev st) = obj st"
    and obj_calls [simp]: "obj (st\<lparr>zb_calls := cs\<rparr>) = obj st"
    and obj_windows [simp]: "obj (st\<lparr>zb_windows := ws\<rparr>) = obj st"
begin

abbreviation ready :: "zb_stack \<Rightarrow> bool" where
  "ready st \<equiv> rdy (obj st)"

lemma fold_quiet: "\<forall>ev \<in> set evs. \<not> completes ev \<Longrightarrow> obj (fold (zb_handle E) evs st) = obj st"
  by (induction evs arbitrary: st) (simp_all add: quiet)

lemma run_window_hit:
  assumes "\<forall>x \<in> set pre. \<not> completes x" "\<not> ready st"
    and "ready (zb_handle E ev (fold (zb_handle E) pre st))"
  shows "run_window E ready (pre @ ev # post) st = (post, zb_handle E ev (fold (zb_handle E) pre st))"
  using assms
proof (induction pre arbitrary: st)
  case Nil
  then show ?case by (cases post) simp_all
qed (simp add: quiet)

lemma run_window_miss:
  assumes "\<forall>x \<in> set w. \<not> completes x" "\<not> ready st"
  shows "run_window E ready w st = ([], fold (zb_handle E) w st)"
  using assms by (induction w arbitrary: st) (simp_all add: quiet)

lemma block_on_hit:
  assumes "zb_windows st = (pre @ ev # post) # ws" "\<forall>x \<in> set pre. \<not> completes x" "\<not> ready st"
    and "st1 = fold (zb_handle E) pre (st\<lparr>zb_calls := zb_calls st @ [Block_on w t (zb_lock st)]\<rparr>)"
    and "ready (zb_handle E ev st1)"
  shows "block_on E w ready t st = (zb_handle E ev st1)\<lparr>zb_windows := push_front post ws\<rparr>"
  using assms run_window_hit [where st = "st\<lparr>zb_calls := zb_calls st @ [Block_on w t (zb_lock st)]\<rparr>"]
  by (simp add: block_on_def Let_def del: push_front.simps)

lemma block_on_miss:
  assumes "\<forall>x \<in> set (concat (take 1 (zb_windows st))). \<not> completes x" "\<not> ready st"
  shows "\<not> ready (block_on E w ready t st)"
proof (cases "zb_windows st")
  case (Cons evs ws)
  let ?st = "st\<lparr>zb_calls := zb_calls st @ [Block_on w t (zb_lock st)]\<rparr>"
  have "run_window E ready evs ?st = ([], fold (zb_handle E) evs ?st)"
    using assms Cons by (intro run_window_miss) simp_all
  with Cons assms fold_quiet [of evs ?st] show ?thesis
    by (simp add: block_on_def Let_def)
qed (use assms in \<open>simp add: block_on_def Let_def\<close>)

end

fun is_annce :: "zb_event \<Rightarrow> bool" where
  "is_annce (Ev_signal (Sig_device_annce a)) = True"
| "is_annce _ = False"

fun is_match :: "zb_event \<Rightarrow> bool" where
  "is_match (Ev_match r) = True"
| "is_match _ = False"

fun is_bind :: "zb_event \<Rightarrow> bool" where
  "is_bind (Ev_bind r p) = True"
| "is_bind _ = False"

fun is_read_rsp :: "u16 \<Rightarrow> zb_event \<Rightarrow> bool" where
  "is_read_rsp cluster (Ev_zcl (Zcl_read_attr_rsp (Some m))) = (rr_cluster_id m = cluster)"
| "is_read_rsp cluster _ = False"

lemma annce_quiet: "\<not> is_annce ev \<Longrightarrow> s_annce_q (zb_handle E ev st) = s_annce_q st"
proof (cases ev)
  case (Ev_signal sg)
  then show "\<not> is_annce ev \<Longrightarrow> ?thesis"
    by (cases sg) (auto simp: callback_defs split: option.splits)
next
  case (Ev_zcl m)
  then show ?thesis
    by (cases m) (auto simp: callback_defs fold_frame [where g = s_annce_q] split: option.splits)
qed (auto simp: callback_defs split: option.splits)

lemma match_quiet: "\<not> is_match ev \<Longrightarrow> s_match_q (zb_handle E ev st) = s_match_q st"
proof (cases ev)
  case (Ev_signal sg)
  then show ?thesis by (cases sg) (auto simp: callback_defs split: option.splits)
next
  case (Ev_zcl m)
  then show ?thesis
    by (cases m) (auto simp: callback_defs fold_frame [where g = s_match_q] split: option.splits)
qed (auto simp: callback_defs split: option.splits)

definition queue_ready :: "('a list \<Rightarrow> ('a \<times> 'a list) option) \<Rightarrow> (nat \<times> 'a list) option \<Rightarrow> bool" where
  "queue_ready receive q = (case q of None \<Rightarrow> False | Some (n, xs) \<Rightarrow> receive xs \<noteq> None)"

lemma queue_ready_eqs:
  "annce_ready E = (\<lambda>st. queue_ready (annce_q_receive E) (s_annce_q st))"
  "match_ready E = (\<lambda>st. queue_ready (match_q_receive E) (s_match_q st))"
  by (simp_all add: fun_eq_iff annce_ready_def match_ready_def queue_ready_def)

interpretation annce_wait: wait_point E s_annce_q "queue_ready (annce_q_receive E)" is_annce for E
  by unfold_locales (simp_all add: annce_quiet)

interpretation match_wait: wait_point E s_match_q "queue_ready (match_q_receive E)" is_match for E
  by unfold_locales (simp_all add: match_quiet)

lemma bind_quiet:
  "\<not> is_bind ev \<Longrightarrow> s_bind_done (zb_handle E ev st) = s_bind_done st \<and> zb_heap (zb_handle E ev st) = zb_heap st"
proof (cases ev)
  case (Ev_signal sg)
  then show ?thesis by (cases sg) (auto simp: callback_defs split: option.splits)
next
  case (Ev_zcl m)
  have "s_bind_done (temp_var E v s) = s_bind_done s" "s_bind_done (report_var E w s) = s_bind_done s" for v w s
    by (cases w; simp add: temp_var.simps report_var.simps Let_def split: option.splits)+
  with Ev_zcl show ?thesis
    by (cases m) (auto simp: callback_defs fold_frame [where g = s_bind_done]
        fold_frame [where g = zb_heap] split: option.splits)
qed (auto simp: callback_defs split: option.splits)

interpretation bind_wait: wait_point E "\<lambda>st. (s_bind_done st, zb_heap st)" "\<lambda>f. sem_ready E (fst f)" is_bind for E
  by unfold_locales (simp_all add: bind_quiet)

lemma temp_quiet:
  "\<not> is_read_rsp (CLUSTER_ID_TEMPERATURE_MEASUREMENT E) ev \<Longrightarrow>
   s_temp_done (zb_handle E ev st) = s_temp_done st"
proof (cases ev)
  case (Ev_signal sg)
  then show ?thesis by (cases sg) (auto simp: callback_defs split: option.splits)
next
  case (Ev_zcl m)
  have r: "s_temp_done (report_var E w s) = s_temp_done s" for w s
    by (cases w) (simp add: report_var.simps split: option.splits)
  assume "\<not> is_read_rsp (CLUSTER_ID_TEMPERATURE_MEASUREMENT E) ev"
  with Ev_zcl r show ?thesis
    by (cases m) (auto simp: callback_defs fold_frame [where g = s_temp_done] split: option.splits)
qed (auto simp: callback_defs split: option.splits)

interpretation temp_wait: wait_point E s_temp_done "sem_ready E"
    "is_read_rsp (CLUSTER_ID_TEMPERATURE_MEASUREMENT E)" for E
  by unfold_locales (simp_all add: temp_quiet)

section \<open>Outcomes of the requests\<close>

text \<open>A discovery request: the outcome is that of the first match callback, or \<open>-2\<close>.\<close>

lemma match_push:
  "s_match_q (st\<lparr>zb_windows := ws\<rparr>) = s_match_q st" "zb_windows (st\<lparr>s_match_q := q\<rparr>) = zb_windows st"
  "s_last_sensor_addr (st\<lparr>s_match_q := q\<rparr>) = s_last_sensor_addr st"
  by simp_all

context freertos begin

lemma find_sensor_hit:
  assumes q: "s_match_q st = Some (n, q)" "0 < n"
    and accepted: "\<And>cs c. ezb_ret E cs (Match_desc_req c) = EZB_ERR_NONE E"
    and w: "zb_windows st = (pre @ Ev_match r # post) # ws" "\<forall>x \<in> set pre. \<not> is_match x"
    and res: "zigbee_find_sensor E a t st = (res, st')"
  shows "res = match_out E r \<and> s_match_q st' = Some (n, []) \<and> zb_windows st' = push_front post ws \<and>
    (ad_err res = 0 \<longrightarrow> s_last_sensor_addr st' = ad_short_addr res)"
proof -
  let ?req = "\<lparr>md_dst_nwk_addr = a, md_nwk_addr_of_interest = a,
    md_in_clusters = [CLUSTER_ID_TEMPERATURE_MEASUREMENT E]\<rparr>"
  define st3 where "st3 = lock_release (snd (ezb_do E (Match_desc_req ?req)
    (lock_acquire (st\<lparr>s_match_q := Some (n, [])\<rparr>))))"
  have st3: "zb_windows st3 = zb_windows st" "s_match_q st3 = Some (n, [])"
    by (simp_all add: st3_def ezb_do_def lock_acquire_def lock_release_def)
  define st1 where "st1 = fold (zb_handle E) pre
    (st3\<lparr>zb_calls := zb_calls st3 @ [Block_on Wait_match t (zb_lock st3)]\<rparr>)"
  have "s_match_q st1 = Some (n, [])"
    using match_wait.fold_quiet [OF w(2)] st3 by (simp add: st1_def)
  then have got: "s_match_q (zb_handle E (Ev_match r) st1) = Some (n, [match_out E r])"
    using q by (simp add: zdo_match_result_def match_send)
  have "block_on E Wait_match (match_ready E) t st3 =
      (zb_handle E (Ev_match r) st1)\<lparr>zb_windows := push_front post ws\<rparr>"
    unfolding queue_ready_eqs
    by (rule match_wait.block_on_hit [OF _ w(2) _ st1_def])
      (simp_all add: st3 w got queue_ready_def match_receive del: zb_handle.simps)
  moreover have "fst (ezb_do E (Match_desc_req c) s) = EZB_ERR_NONE E" for c s
    by (simp add: ezb_do_def accepted)
  ultimately show ?thesis
    using res got
    by (auto simp: zigbee_find_sensor_def Let_def case_prod_beta q match_reset st3_def [symmetric]
        match_receive simp del: zb_handle.simps push_front.simps split: if_splits)
qed

lemma find_sensor_miss:
  assumes accepted: "\<And>cs c. ezb_ret E cs (Match_desc_req c) = EZB_ERR_NONE E"
    and w: "\<forall>x \<in> set (concat (take 1 (zb_windows st))). \<not> is_match x"
  shows "ad_err (fst (zigbee_find_sensor E a t st)) = -2"
proof -
  let ?req = "\<lparr>md_dst_nwk_addr = a, md_nwk_addr_of_interest = a,
    md_in_clusters = [CLUSTER_ID_TEMPERATURE_MEASUREMENT E]\<rparr>"
  define st3 where "st3 = lock_release (snd (ezb_do E (Match_desc_req ?req)
    (lock_acquire (st\<lparr>s_match_q := map_option (\<lambda>(n, q). (n, match_q_reset E q)) (s_match_q st)\<rparr>))))"
  have st3: "zb_windows st3 = zb_windows st"
    "s_match_q st3 = map_option (\<lambda>(n, q). (n, [])) (s_match_q st)"
    by (simp_all add: st3_def ezb_do_def lock_acquire_def lock_release_def match_reset)
  then have "\<not> queue_ready (match_q_receive E) (s_match_q st3)"
    by (auto simp: queue_ready_def match_receive split: option.splits)
  then have "\<not> match_ready E (block_on E Wait_match (match_ready E) t st3)"
    unfolding queue_ready_eqs using w st3(1) by (intro match_wait.block_on_miss) simp_all
  moreover have "fst (ezb_do E (Match_desc_req c) s) = EZB_ERR_NONE E" for c s
    by (simp add: ezb_do_def accepted)
  ultimately show ?thesis
    by (auto simp: zigbee_find_sensor_def Let_def case_prod_beta st3_def [symmetric] match_ready_def
        split: option.splits)
qed

end

text \<open>A bind request: its block is freed exactly once, by the error path or by the callback.\<close>

definition bind_out :: "zb_env \<Rightarrow> bind_result option \<Rightarrow> int" where
  "bind_out E r =
     (case r of
        None \<Rightarrow> -1
      | Some x \<Rightarrow> if br_error x \<noteq> EZB_ERR_NONE E then br_error x
                  else case br_rsp_status x of
                         None \<Rightarrow> -1
                       | Some status \<Rightarrow> if status = EZB_ZDP_STATUS_SUCCESS E then 0 else status)"

lemma bind_result_effect:
  assumes "s_bind_done st = Some b" "p \<in> set (zb_heap st)"
  shows "s_bind_err (zdo_bind_result E r p st) = bind_out E r"
    and "zb_heap (zdo_bind_result E r p st) = remove1 p (zb_heap st)"
    and "s_bind_done (zdo_bind_result E r p st) = Some (sem_give E b)"
  using assms by (auto simp: zdo_bind_result_def give_bind_def free_block_def bind_out_def Let_def
      split: option.splits)

definition bind_started :: "zb_env \<Rightarrow> u16 \<Rightarrow> zb_stack \<Rightarrow> bool" where
  "bind_started E a st = (calloc_ok E (zb_calls st) \<and>
     fst (address_extended_by_short E (zb_calls st) a) = EZB_ERR_NONE E)"

lemma lock_calls [simp]: "zb_calls (lock_acquire st) = zb_calls st" "zb_calls (lock_release st) = zb_calls st"
  by (simp_all add: lock_acquire_def lock_release_def)

lemma heap_locked [simp]:
  "zb_heap (lock_acquire st) = zb_heap st" "zb_heap (lock_release st) = zb_heap st"
  "zb_heap (snd (ezb_do E c st)) = zb_heap st"
  "zb_fault (lock_acquire st) = zb_fault st" "zb_fault (lock_release st) = zb_fault st"
  "zb_fault (snd (ezb_do E c st)) = zb_fault st"
  by (simp_all add: lock_acquire_def lock_release_def ezb_do_def)

lemma bind_common_refused:
  assumes "\<not> bind_started E a st \<or> (\<forall>cs c d. ezb_ret E cs (Bind_req c d) \<noteq> EZB_ERR_NONE E)"
  shows "zb_heap (snd (zigbee_bind_common E a ep l t st)) = zb_heap st"
    and "zb_fault (snd (zigbee_bind_common E a ep l t st)) = zb_fault st"
proof -
  have "fst (ezb_do E c s) = ezb_ret E (zb_calls s) c" for c s
    by (simp add: ezb_do_def)
  then show "zb_heap (snd (zigbee_bind_common E a ep l t st)) = zb_heap st"
    and "zb_fault (snd (zigbee_bind_common E a ep l t st)) = zb_fault st"
    using assms
    by (auto simp: zigbee_bind_common_def bind_started_def Let_def case_prod_beta free_block_def)
qed

context freertos begin

lemma bind_common_hit:
  assumes sem: "s_bind_done st = Some b" and start: "bind_started E a st"
    and accepted: "\<And>cs c d. ezb_ret E cs (Bind_req c d) = EZB_ERR_NONE E"
    and w: "zb_windows st = (pre @ Ev_bind r (zb_next_block st) # post) # ws" "\<forall>x \<in> set pre. \<not> is_bind x"
    and res: "zigbee_bind_common E a ep l t st = (res, st')"
  shows "res = bind_out E r \<and> zb_heap st' = zb_heap st \<and> s_bind_done st' = Some False"
proof -
  let ?p = "zb_next_block st"
  define st0 where "st0 = lock_acquire (st\<lparr>zb_heap := ?p # zb_heap st, zb_next_block := Suc ?p,
    s_bind_done := sem_after E (s_bind_done st)\<rparr>)"
  have ret: "fst (ezb_do E (Bind_req c d) s) = EZB_ERR_NONE E" for c d s by (simp add: ezb_do_def accepted)
  have st0: "zb_windows st0 = zb_windows st" "s_bind_done st0 = Some False" "zb_heap st0 = ?p # zb_heap st"
    "zb_calls st0 = zb_calls st"
    by (simp_all add: st0_def lock_acquire_def sem sem_after_def take)
  have wait: "sem_ready E (s_bind_done st5) \<and> s_bind_err st5 = bind_out E r \<and> zb_heap st5 = zb_heap st \<and>
       s_bind_done st5 = Some True"
    if st5: "st5 = block_on E Wait_bind (\<lambda>s. sem_ready E (s_bind_done s)) t
      (lock_release (snd (ezb_do E c st0)))" for st5 c
  proof -
    let ?s = "lock_release (snd (ezb_do E c st0))"
    have s: "zb_windows ?s = zb_windows st" "s_bind_done ?s = Some False" "zb_heap ?s = ?p # zb_heap st"
      using st0 by (simp_all add: ezb_do_def lock_release_def)
    define st1 where "st1 = fold (zb_handle E) pre
      (?s\<lparr>zb_calls := zb_calls ?s @ [Block_on Wait_bind t (zb_lock ?s)]\<rparr>)"
    have 1: "s_bind_done st1 = Some False" "zb_heap st1 = ?p # zb_heap st"
      using bind_wait.fold_quiet [OF w(2)] s by (simp_all add: st1_def)
    note eff = bind_result_effect [OF 1(1), of ?p]
    have "st5 = (zb_handle E (Ev_bind r ?p) st1)\<lparr>zb_windows := push_front post ws\<rparr>"
      unfolding st5
      by (rule bind_wait.block_on_hit [OF _ w(2) _ st1_def, unfolded fst_conv])
        (simp_all add: s w 1 eff sem_ready_def take give)
    then show ?thesis by (simp add: 1 eff sem_ready_def take give del: push_front.simps)
  qed
  have "sem_after E (Some True) = Some False" "sem_ready E (Some True)"
    by (simp_all add: sem_after_def sem_ready_def take)
  with res start wait [OF refl] ret st0(4) show ?thesis
    by (auto simp: zigbee_bind_common_def bind_started_def Let_def case_prod_beta st0_def [symmetric]
        split: if_splits)
qed

end

text \<open>Reading the temperature attributes: each field is the last value reported for it.\<close>

fun attr_int16 :: "zb_env \<Rightarrow> u16 \<Rightarrow> read_attr_var list \<Rightarrow> int \<Rightarrow> int" where
  "attr_int16 E attr [] x = x"
| "attr_int16 E attr (v # vs) x =
     attr_int16 E attr vs
       (case rv_value v of
          Some m \<Rightarrow> if rv_status v = EZB_ZCL_STATUS_SUCCESS E \<and> rv_attr_id v = attr then mem_int16 m else x
        | None \<Rightarrow> x)"

definition temp_attrs :: "zb_env \<Rightarrow> bool" where
  "temp_attrs E = distinct [ATTR_MEASURED_VALUE E, ATTR_MIN_MEASURED_VALUE E, ATTR_MAX_MEASURED_VALUE E,
     ATTR_TOLERANCE E]"

definition temp_out :: "zb_env \<Rightarrow> read_attr_rsp \<Rightarrow> zigbee_temp_t" where
  "temp_out E m = \<lparr>te_err = (if rr_status m = EZB_ZCL_STATUS_SUCCESS E then 0 else -1),
     te_measured = attr_int16 E (ATTR_MEASURED_VALUE E) (rr_variables m) 0,
     te_min_measured = attr_int16 E (ATTR_MIN_MEASURED_VALUE E) (rr_variables m) 0,
     te_max_measured = attr_int16 E (ATTR_MAX_MEASURED_VALUE E) (rr_variables m) 0,
     te_tolerance = attr_int16 E (ATTR_TOLERANCE E) (rr_variables m) 0\<rparr>"

lemma temp_vars_cache:
  assumes "temp_attrs E"
  shows "s_temp_cache (fold (temp_var E) vs st) =
    (let c = s_temp_cache st
     in \<lparr>te_err = te_err c,
         te_measured = attr_int16 E (ATTR_MEASURED_VALUE E) vs (te_measured c),
         te_min_measured = attr_int16 E (ATTR_MIN_MEASURED_VALUE E) vs (te_min_measured c),
         te_max_measured = attr_int16 E (ATTR_MAX_MEASURED_VALUE E) vs (te_max_measured c),
         te_tolerance = attr_int16 E (ATTR_TOLERANCE E) vs (te_tolerance c)\<rparr>)"
proof (induction vs arbitrary: st)
  case (Cons v vs)
  show ?case
    using assms Cons.IH [of "temp_var E v st"]
    by (auto simp: temp_var.simps [of E v st] temp_attrs_def Let_def split: option.splits)
qed (simp add: Let_def)

lemma temp_rsp_effect:
  assumes "temp_attrs E" "rr_cluster_id m = CLUSTER_ID_TEMPERATURE_MEASUREMENT E"
    "CLUSTER_ID_BASIC E \<noteq> CLUSTER_ID_TEMPERATURE_MEASUREMENT E" "s_temp_done st = Some b"
  shows "s_temp_cache (zb_handle E (Ev_zcl (Zcl_read_attr_rsp (Some m))) st) = temp_out E m"
    and "s_temp_done (zb_handle E (Ev_zcl (Zcl_read_attr_rsp (Some m))) st) = Some (sem_give E b)"
proof -
  have "s_temp_done (temp_var E v s) = s_temp_done s" for v s
    by (simp add: temp_var.simps Let_def split: option.splits)
  then show "s_temp_cache (zb_handle E (Ev_zcl (Zcl_read_attr_rsp (Some m))) st) = temp_out E m"
    and "s_temp_done (zb_handle E (Ev_zcl (Zcl_read_attr_rsp (Some m))) st) = Some (sem_give E b)"
    using assms by (simp_all add: zcl_read_attr_rsp_def Let_def temp_vars_cache temp_out_def
        fold_frame [where g = s_temp_done])
qed

context freertos begin

lemma read_temp_hit:
  assumes env: "temp_attrs E" "CLUSTER_ID_BASIC E \<noteq> CLUSTER_ID_TEMPERATURE_MEASUREMENT E"
    and sem: "s_temp_done st = Some b"
    and accepted: "\<And>cs c. ezb_ret E cs (Read_attr_req c) = EZB_ERR_NONE E"
    and w: "zb_windows st = (pre @ Ev_zcl (Zcl_read_attr_rsp (Some m)) # post) # ws"
      "\<forall>x \<in> set pre. \<not> is_read_rsp (CLUSTER_ID_TEMPERATURE_MEASUREMENT E) x"
      "rr_cluster_id m = CLUSTER_ID_TEMPERATURE_MEASUREMENT E"
  shows "fst (zigbee_read_temp E a ep t st) = temp_out E m"
proof -
  let ?cmd = "\<lparr>rc_src_ep = ESP_ZIGBEE_HA_THERMOSTAT_EP_ID, rc_short_addr = a, rc_dst_ep = ep,
    rc_cluster_id = CLUSTER_ID_TEMPERATURE_MEASUREMENT E,
    rc_attr_field = [ATTR_MEASURED_VALUE E, ATTR_MIN_MEASURED_VALUE E, ATTR_MAX_MEASURED_VALUE E,
      ATTR_TOLERANCE E]\<rparr>"
  define st3 where "st3 = lock_release (snd (ezb_do E (Read_attr_req ?cmd)
    (lock_acquire (st\<lparr>s_temp_done := sem_after E (s_temp_done st)\<rparr>))))"
  have st3: "zb_windows st3 = zb_windows st" "s_temp_done st3 = Some False"
    by (simp_all add: st3_def ezb_do_def lock_acquire_def lock_release_def sem sem_after_def take)
  define st1 where "st1 = fold (zb_handle E) pre
    (st3\<lparr>zb_calls := zb_calls st3 @ [Block_on Wait_temp t (zb_lock st3)]\<rparr>)"
  have 1: "s_temp_done st1 = Some False"
    using temp_wait.fold_quiet [OF w(2)] st3 by (simp add: st1_def)
  note eff = temp_rsp_effect [OF env(1) w(3) env(2) 1]
  have "block_on E Wait_temp (\<lambda>s. sem_ready E (s_temp_done s)) t st3 =
      (zb_handle E (Ev_zcl (Zcl_read_attr_rsp (Some m))) st1)\<lparr>zb_windows := push_front post ws\<rparr>"
    by (rule temp_wait.block_on_hit [OF _ w(2) _ st1_def])
      (simp_all add: st3 w eff sem_ready_def take give del: zb_handle.simps)
  moreover have "fst (ezb_do E (Read_attr_req c) s) = EZB_ERR_NONE E" for c s
    by (simp add: ezb_do_def accepted)
  ultimately show ?thesis
    by (simp add: zigbee_read_temp_def Let_def case_prod_beta st3_def [symmetric] eff sem_ready_def take give
        del: zb_handle.simps push_front.simps)
qed

end

section \<open>No null pointer is dereferenced\<close>

text \<open>
  Callback data whose pointers are set wherever the code follows them: a successful read
  response and a report carry a payload.  Bind callbacks are treated above.
\<close>

fun event_safe :: "zb_env \<Rightarrow> zb_event \<Rightarrow> bool" where
  "event_safe E (Ev_bind r p) = False"
| "event_safe E (Ev_zcl (Zcl_read_attr_rsp (Some m))) =
     list_all (\<lambda>v. rv_status v = EZB_ZCL_STATUS_SUCCESS E \<longrightarrow> rv_value v \<noteq> None) (rr_variables m)"
| "event_safe E (Ev_zcl (Zcl_report_attr (Some m))) =
     list_all (\<lambda>(attr, v). attr = ATTR_MEASURED_VALUE E \<longrightarrow> v \<noteq> None) (rp_variables m)"
| "event_safe E _ = True"

lemma fold_temp_no_fault:
  "list_all (\<lambda>v. rv_status v = EZB_ZCL_STATUS_SUCCESS E \<longrightarrow> rv_value v \<noteq> None) vs \<Longrightarrow>
   zb_fault (fold (temp_var E) vs st) = zb_fault st"
proof (induction vs arbitrary: st)
  case (Cons v vs)
  from Cons.prems have "zb_fault (temp_var E v st) = zb_fault st"
    by (auto simp: temp_var.simps [of E v st] Let_def split: option.splits)
  with Cons show ?case by simp
qed simp

lemma fold_report_no_fault:
  "list_all (\<lambda>(attr, v). attr = ATTR_MEASURED_VALUE E \<longrightarrow> v \<noteq> None) vs \<Longrightarrow>
   zb_fault (fold (report_var E) vs st) = zb_fault st"
proof (induction vs arbitrary: st)
  case (Cons v vs)
  from Cons.prems have "zb_fault (report_var E v st) = zb_fault st"
    by (cases v) (auto simp: report_var.simps split: option.splits)
  with Cons show ?case by simp
qed simp

lemma handle_no_fault: "event_safe E ev \<Longrightarrow> zb_fault (zb_handle E ev st) = zb_fault st"
proof (cases ev)
  case (Ev_signal sg)
  then show ?thesis by (cases sg) (auto simp: callback_defs split: option.splits)
next
  case (Ev_zcl m)
  assume "event_safe E ev"
  with Ev_zcl show ?thesis
    by (cases m) (auto simp: callback_defs fold_temp_no_fault fold_report_no_fault split: option.splits)
qed (auto simp: callback_defs split: option.splits)

interpretation fault_inv: stack_inv E "event_safe E" "\<lambda>st. \<not> zb_fault st" for E
  by unfold_locales (simp_all add: handle_no_fault)

text \<open>Together with the callbacks to come, as for \<open>good\<close>.\<close>

definition unfaulted :: "zb_env \<Rightarrow> zb_stack \<Rightarrow> bool" where
  "unfaulted E st = (\<not> zb_fault st \<and> windows_all (event_safe E) st)"

lemma unfaulted_update:
  "unfaulted E (st\<lparr>s_annce_q := a\<rparr>) = unfaulted E st" "unfaulted E (st\<lparr>s_basic_done := c\<rparr>) = unfaulted E st"
  "unfaulted E (st\<lparr>s_temp_done := c\<rparr>) = unfaulted E st" "unfaulted E (st\<lparr>s_bind_done := c\<rparr>) = unfaulted E st"
  "unfaulted E (st\<lparr>s_report_done := c\<rparr>) = unfaulted E st" "unfaulted E (st\<lparr>s_match_q := q\<rparr>) = unfaulted E st"
  "unfaulted E (st\<lparr>s_last_sensor_addr := d\<rparr>) = unfaulted E st"
  "unfaulted E (st\<lparr>zb_heap := h\<rparr>) = unfaulted E st" "unfaulted E (st\<lparr>zb_next_block := k\<rparr>) = unfaulted E st"
  "unfaulted E (st\<lparr>zb_calls := cs\<rparr>) = unfaulted E st" "unfaulted E (st\<lparr>zb_lock := n\<rparr>) = unfaulted E st"
  by (simp_all add: unfaulted_def windows_all_update)

lemma unfaulted_locked [simp]:
  "unfaulted E (lock_release (snd (ezb_do E' c (lock_acquire st)))) = unfaulted E st"
  "unfaulted E (lock_release (lock_acquire st)) = unfaulted E st"
  by (simp_all add: ezb_do_def lock_acquire_def lock_release_def unfaulted_update)

lemma unfaulted_free: "unfaulted E st \<Longrightarrow> p \<in> set (zb_heap st) \<Longrightarrow> unfaulted E (free_block p st)"
  by (simp add: free_block_def unfaulted_update)

lemma block_on_unfaulted: "unfaulted E st \<Longrightarrow> unfaulted E (block_on E obj ready t st)"
  using fault_inv.block_on_inv by (auto simp: unfaulted_def)

lemmas unfaulted_simps = Let_def case_prod_beta unfaulted_update block_on_unfaulted

lemma api_unfaulted:
  assumes "unfaulted E st"
  shows "unfaulted E (snd (zigbee_wait_annce E t st))" "unfaulted E (snd (zigbee_open_network E d st))"
    "unfaulted E (snd (zigbee_find_sensor E a t st))" "unfaulted E (snd (zigbee_read_basic E a ep t st))"
    "unfaulted E (snd (zigbee_read_temp E a ep t st))" "unfaulted E (snd (zigbee_config_report E a ep t st))"
    "unfaulted E (snd (zigbee_get_short_addr E st))" "unfaulted E (snd (zigbee_get_panid E st))"
    "unfaulted E (snd (zigbee_get_channel E st))" "unfaulted E (snd (zigbee_get_sensor_addr st))"
    "unfaulted E (snd (zigbee_get_last_temp st))"
  using assms
  by (simp_all add: unfaulted_simps zigbee_wait_annce_def zigbee_open_network_def zigbee_find_sensor_def
      zigbee_read_basic_def zigbee_read_temp_def zigbee_config_report_def zigbee_get_short_addr_def
      zigbee_get_panid_def zigbee_get_channel_def zigbee_get_sensor_addr_def zigbee_get_last_temp_def
      split: option.splits)

lemma bind_common_unfaulted:
  "unfaulted E st \<Longrightarrow> unfaulted E (snd (zigbee_bind_common E a ep l t st))"
  by (simp add: zigbee_bind_common_def unfaulted_simps unfaulted_free)

section \<open>A coordinator for the concrete runs\<close>

text \<open>
  An environment in which every call is accepted, with the attribute and cluster identifiers of
  the Zigbee Cluster Library, and the stack after \<open>zigbee_stack_start\<close> with given windows.
\<close>

definition lab_env :: zb_env where
  "lab_env = with_freertos \<lparr>EZB_ERR_NONE = 0, EZB_BDB_STATUS_SUCCESS = 0, EZB_ZDP_STATUS_SUCCESS = 0,
     EZB_ZCL_STATUS_SUCCESS = 0, CLUSTER_ID_BASIC = 0, CLUSTER_ID_TEMPERATURE_MEASUREMENT = 0x0402,
     ATTR_MANUFACTURER_NAME = 4, ATTR_MODEL_IDENTIFIER = 5, ATTR_MEASURED_VALUE = 0,
     ATTR_MIN_MEASURED_VALUE = 1, ATTR_MAX_MEASURED_VALUE = 2, ATTR_TOLERANCE = 3,
     nwk_get_short_address = (\<lambda>_. 0), nwk_get_panid = (\<lambda>_. 0x1A62), nwk_get_current_channel = (\<lambda>_. 13),
     nwk_get_extended_address = (\<lambda>_. 0x00124B0001020304),
     address_extended_by_short = (\<lambda>_ a. (0, 0x00124B0005060708)), bdb_is_factory_new = (\<lambda>_. True),
     calloc_ok = (\<lambda>_. True), ezb_ret = (\<lambda>_ _. 0),
     annce_q_send = queue_send, annce_q_receive = queue_receive,
     match_q_send = queue_send, match_q_receive = queue_receive, match_q_reset = (\<lambda>_. []),
     sem_give = (\<lambda>_. True), sem_take = (\<lambda>b. (b, False))\<rparr>"

definition blank_stack :: "zb_event list list \<Rightarrow> zb_stack" where
  "blank_stack ws = \<lparr>s_annce_q = None, s_match_q = None, s_basic_done = None, s_temp_done = None,
     s_bind_done = None, s_report_done = None,
     s_basic_cache = \<lparr>ba_err = 0, ba_manufacturer = replicate 16 0, ba_model = replicate 16 0\<rparr>,
     s_temp_cache = \<lparr>te_err = 0, te_measured = 0, te_min_measured = 0, te_max_measured = 0, te_tolerance = 0\<rparr>,
     s_last_temp = 0, s_last_sensor_addr = 0, s_bind_err = 0, s_report_err = 0, zb_lock = 0, zb_heap = [],
     zb_next_block = 0, zb_calls = [], zb_windows = ws, zb_fault = False\<rparr>"

definition lab_stack :: "zb_event list list \<Rightarrow> zb_stack" where
  "lab_stack ws = snd (zigbee_stack_start (\<lambda>_. True) True (blank_stack ws))"

lemma lab_freertos: "freertos lab_env"
  unfolding lab_env_def by (rule rtos.freertos_axioms)

lemma lab_env_ok: "env_ok lab_env"
  by (simp add: env_ok_def lab_env_def with_freertos_def)

interpretation lab: typed_stack lab_env
  by (intro typed_stack.intro typed_stack_axioms.intro lab_freertos lab_env_ok)

lemma lab_env_simps [simp]:
  "ezb_ret lab_env cs c = 0" "EZB_ERR_NONE lab_env = 0" "EZB_ZDP_STATUS_SUCCESS lab_env = 0"
  "EZB_ZCL_STATUS_SUCCESS lab_env = 0" "CLUSTER_ID_BASIC lab_env = 0"
  "CLUSTER_ID_TEMPERATURE_MEASUREMENT lab_env = 0x0402" "temp_attrs lab_env"
  "calloc_ok lab_env cs" "fst (address_extended_by_short lab_env cs a) = 0"
  by (simp_all add: lab_env_def with_freertos_def temp_attrs_def)

lemma lab_stack_simps [simp]:
  "zb_windows (lab_stack ws) = ws" "s_match_q (lab_stack ws) = Some (1, [])" "s_annce_q (lab_stack ws) = Some (4, [])"
  "s_bind_done (lab_stack ws) = Some False" "s_temp_done (lab_stack ws) = Some False"
  "zb_next_block (lab_stack ws) = 0" "zb_heap (lab_stack ws) = []" "\<not> zb_fault (lab_stack ws)"
  "s_last_sensor_addr (lab_stack ws) = 0"
  by (simp_all add: lab_stack_def zigbee_stack_start_def blank_stack_def Let_def)

lemma lab_stack_ok: "stack_ok (lab_stack ws)"
  by (simp add: lab_stack_def zigbee_stack_start_def blank_stack_def Let_def stack_ok_def basic_ok_def temp_ok_def)

section \<open>Properties\<close>

text \<open>
  C11: a discovery request whose command is accepted returns the outcome of the first match
  callback of its waiting time, whatever other callbacks come before it; the match queue is empty
  afterwards, later callbacks stay queued for the next wait, and a successful outcome is
  remembered as the last sensor.
\<close>

theorem find_sensor_answer:
  assumes "freertos E" "s_match_q st = Some (n, q)" "0 < n"
    and "\<And>cs c. ezb_ret E cs (Match_desc_req c) = EZB_ERR_NONE E"
    and "zb_windows st = (pre @ Ev_match r # post) # ws" "\<forall>x \<in> set pre. \<not> is_match x"
    and "zigbee_find_sensor E a t st = (res, st')"
  shows "res = match_out E r \<and> s_match_q st' = Some (n, []) \<and> zb_windows st' = push_front post ws \<and>
    (ad_err res = 0 \<longrightarrow> s_last_sensor_addr st' = ad_short_addr res)"
  using freertos.find_sensor_hit [OF assms] .

definition found_rsp :: "match_result option" where
  "found_rsp = Some \<lparr>mr_error = 0, mr_rsp = Some \<lparr>ms_status = 0, ms_nwk_addr = 0x4D2A, ms_match_length = 1,
     ms_match_list = Some (\<lambda>_. 10)\<rparr>\<rparr>"

theorem find_sensor_answer_witness:
  "let (res, st') = zigbee_find_sensor lab_env 0x4D2A 15000
         (lab_stack [[Ev_signal (Sig_permit_join_status 180), Ev_match found_rsp, Ev_match None]])
   in res = \<lparr>ad_err = 0, ad_short_addr = 0x4D2A, ad_ep = 10\<rparr> \<and> s_last_sensor_addr st' = 0x4D2A \<and>
      zb_windows st' = [[Ev_match None]]"
proof -
  let ?st = "lab_stack [[Ev_signal (Sig_permit_join_status 180), Ev_match found_rsp, Ev_match None]]"
  obtain res st' where r: "zigbee_find_sensor lab_env 0x4D2A 15000 ?st = (res, st')" by fastforce
  have "match_out lab_env found_rsp = \<lparr>ad_err = 0, ad_short_addr = 0x4D2A, ad_ep = 10\<rparr>"
    by (simp add: match_out_def match_success_def found_rsp_def)
  with find_sensor_answer [OF lab_freertos _ _ _ _ _ r, where n = 1 and q = "[]" and r = found_rsp and
      pre = "[Ev_signal (Sig_permit_join_status 180)]" and post = "[Ev_match None]" and ws = "[]"]
  show ?thesis by (simp add: r)
qed

text \<open>
  a discovery request whose waiting time passes without a match callback reports the timeout
  code \<open>-2\<close>.
\<close>

lemma find_sensor_timeout:
  assumes "freertos E" "\<And>cs c. ezb_ret E cs (Match_desc_req c) = EZB_ERR_NONE E"
    and "\<forall>x \<in> set (concat (take 1 (zb_windows st))). \<not> is_match x"
  shows "ad_err (fst (zigbee_find_sensor E a t st)) = -2"
  using freertos.find_sensor_miss [OF assms] .



text \<open>
  A temperature read whose response arrives in its waiting time returns, for each of the four
  attributes, the last value the response reports with a success status, and 0 for an attribute
  the response leaves out.
\<close>

lemma read_temp_answer:
  assumes "freertos E" "temp_attrs E" "CLUSTER_ID_BASIC E \<noteq> CLUSTER_ID_TEMPERATURE_MEASUREMENT E"
    and "s_temp_done st = Some b" "\<And>cs c. ezb_ret E cs (Read_attr_req c) = EZB_ERR_NONE E"
    and "zb_windows st = (pre @ Ev_zcl (Zcl_read_attr_rsp (Some m)) # post) # ws"
    and "\<forall>x \<in> set pre. \<not> is_read_rsp (CLUSTER_ID_TEMPERATURE_MEASUREMENT E) x"
    and "rr_cluster_id m = CLUSTER_ID_TEMPERATURE_MEASUREMENT E"
  shows "fst (zigbee_read_temp E a ep t st) = temp_out E m"
  using freertos.read_temp_hit [OF assms] .

definition temp_rsp :: read_attr_rsp where
  "temp_rsp = \<lparr>rr_cluster_id = 0x0402, rr_status = 0, rr_variables =
     [\<lparr>rv_status = 0, rv_attr_id = 0, rv_value = Some (\<lambda>i. if i = 0 then 0x38 else 0xFF)\<rparr>,
      \<lparr>rv_status = 0x86, rv_attr_id = 1, rv_value = None\<rparr>,
      \<lparr>rv_status = 0, rv_attr_id = 2, rv_value = Some (\<lambda>i. if i = 0 then 0x88 else 0x13)\<rparr>]\<rparr>"

text \<open>
  The text copied out of a ZCL string attribute into a buffer fills the buffer exactly, always
  ends with a NUL, and keeps the attribute's characters up to what fits.
\<close>

lemma copy_zcl_string_bounded:
  "length (copy_zcl_string (Suc n) z) = Suc n \<and> copy_zcl_string (Suc n) z ! n = 0 \<and>
   (\<forall>m. z = Some m \<longrightarrow> take (min (unat (m 0)) n) (copy_zcl_string (Suc n) z) =
      map (\<lambda>i. m (i + 1)) [0..<min (unat (m 0)) n])"
  using copy_zcl_string_terminated [of "Suc n" z] by (auto simp: copy_zcl_string_Some)

end
