(* ===== verification/Rpc_Server.thy ===== *)
theory Rpc_Server
  imports Engine Stack_Props
begin

text \<open>
  The firmware's RPC server \<^verbatim>\<open>zb_rpc_server/main/rpc_server.cpp\<close>: the handlers, the dispatch
  chain, the loop that serves one client and the accept loop.

  The environment \<open>V\<close> of type \<open>srv_env\<close> answers the polls the server makes: \<open>ppp_up t\<close> is the
  answer of \<open>ppp_uart_is_connected\<close> and \<open>peek_at t\<close> that of
  \<open>recv(fd, .., MSG_PEEK | MSG_DONTWAIT)\<close> at the \<open>t\<close>-th poll; \<open>srv_clock\<close> counts the polls.
  \<open>srv_open\<close> lists the socket descriptors the server task holds open.
\<close>

section \<open>State and environment\<close>

datatype peek_result = Peek_data | Peek_eof | Peek_again | Peek_eintr | Peek_error

record srv_env =
  ppp_up :: "nat \<Rightarrow> bool"
  peek_at :: "nat \<Rightarrow> peek_result"

record rpc_server =
  srv_stack :: zb_stack
  s_client_fd :: int
  srv_clock :: nat
  srv_open :: "int list"

definition k_rpc_timeout_ms :: u32 where
  "k_rpc_timeout_ms = 15000"

definition k_annce_timeout_ms :: u32 where
  "k_annce_timeout_ms = 180000"

definition k_annce_slice_ms :: u32 where
  "k_annce_slice_ms = 250"

definition poll_ppp :: "srv_env \<Rightarrow> rpc_server \<Rightarrow> bool \<times> rpc_server" where
  "poll_ppp V st = (ppp_up V (srv_clock st), st\<lparr>srv_clock := srv_clock st + 1\<rparr>)"

definition client_connected :: "srv_env \<Rightarrow> rpc_server \<Rightarrow> bool \<times> rpc_server" where
  "client_connected V st =
     (if s_client_fd st < 0 then (False, st)
      else let result = peek_at V (srv_clock st); st' = st\<lparr>srv_clock := srv_clock st + 1\<rparr>
           in case result of
                Peek_data \<Rightarrow> (True, st')
              | Peek_eof \<Rightarrow> (False, st')
              | Peek_again \<Rightarrow> (True, st')
              | Peek_eintr \<Rightarrow> (True, st')
              | Peek_error \<Rightarrow> (False, st'))"

text \<open>Running a stack function on the stack component.\<close>

definition on_stack :: "(zb_stack \<Rightarrow> 'a \<times> zb_stack) \<Rightarrow> rpc_server \<Rightarrow> 'a \<times> rpc_server" where
  "on_stack f st = (let (x, z) = f (srv_stack st) in (x, st\<lparr>srv_stack := z\<rparr>))"

section \<open>Handlers\<close>

definition handle_get_short_addr :: "zb_env \<Rightarrow> rpc_server \<Rightarrow> U16Resp \<times> rpc_server" where
  "handle_get_short_addr E st =
     (let (a, st') = on_stack (zigbee_get_short_addr E) st in (\<lparr>u16_value = to_le16 a\<rparr>, st'))"

definition handle_get_panid :: "zb_env \<Rightarrow> rpc_server \<Rightarrow> U16Resp \<times> rpc_server" where
  "handle_get_panid E st =
     (let (a, st') = on_stack (zigbee_get_panid E) st in (\<lparr>u16_value = to_le16 a\<rparr>, st'))"

definition handle_get_channel :: "zb_env \<Rightarrow> rpc_server \<Rightarrow> U8Resp \<times> rpc_server" where
  "handle_get_channel E st =
     (let (c, st') = on_stack (zigbee_get_channel E) st in (\<lparr>u8_value = c\<rparr>, st'))"

definition handle_open_network :: "zb_env \<Rightarrow> OpenNetworkReq \<Rightarrow> rpc_server \<Rightarrow> I32Resp \<times> rpc_server" where
  "handle_open_network E request st =
     (let (r, st') = on_stack (zigbee_open_network E (on_duration request)) st
      in (\<lparr>i32_value = to_le32_s r\<rparr>, st'))"

function wait_annce_loop :: "zb_env \<Rightarrow> srv_env \<Rightarrow> u32 \<Rightarrow> rpc_server \<Rightarrow> u16 \<times> rpc_server" where
  "wait_annce_loop E V remaining st =
     (if remaining = 0 then (0, st)
      else let (up, st1) = poll_ppp V st
           in if \<not> up then (0, st1)
              else let (conn, st2) = client_connected V st1
                   in if \<not> conn then (0, st2)
                      else let slice = (if remaining < k_annce_slice_ms then remaining else k_annce_slice_ms);
                               (short_addr, st3) = on_stack (zigbee_wait_annce E slice) st2
                           in if short_addr \<noteq> 0 then (short_addr, st3)
                              else wait_annce_loop E V (remaining - slice) st3)"
  by pat_completeness auto
termination
  by (relation "measure (\<lambda>(E, V, remaining, st). unat remaining)")
    (auto simp: unat_gt_0 chunk_less_ge k_annce_slice_ms_def)

declare wait_annce_loop.simps [simp del]

definition handle_wait_annce :: "zb_env \<Rightarrow> srv_env \<Rightarrow> rpc_server \<Rightarrow> U16Resp \<times> rpc_server" where
  "handle_wait_annce E V st =
     (let (a, st') = wait_annce_loop E V k_annce_timeout_ms st in (\<lparr>u16_value = to_le16 a\<rparr>, st'))"

definition handle_get_sensor_addr :: "rpc_server \<Rightarrow> U16Resp \<times> rpc_server" where
  "handle_get_sensor_addr st =
     (let (a, st') = on_stack zigbee_get_sensor_addr st in (\<lparr>u16_value = to_le16 a\<rparr>, st'))"

definition handle_find_sensor :: "zb_env \<Rightarrow> FindSensorReq \<Rightarrow> rpc_server \<Rightarrow> zb_addr_t \<times> rpc_server" where
  "handle_find_sensor E request st =
     (let (found, st') = on_stack (zigbee_find_sensor E (from_le16 (fs_short_addr request)) k_rpc_timeout_ms) st
      in (\<lparr>za_err = to_le32_s (ad_err found), za_short_addr = to_le16 (ad_short_addr found),
           za_ep = ad_ep found\<rparr>, st'))"

definition handle_read_basic :: "zb_env \<Rightarrow> zb_addr_t \<Rightarrow> rpc_server \<Rightarrow> zb_basic_t \<times> rpc_server" where
  "handle_read_basic E request st =
     (let (basic, st') = on_stack (zigbee_read_basic E (from_le16 (za_short_addr request)) (za_ep request)
                           k_rpc_timeout_ms) st
      in (\<lparr>zb_err = to_le32_s (ba_err basic), zb_manufacturer = take 16 (ba_manufacturer basic),
           zb_model = take 16 (ba_model basic)\<rparr>, st'))"

definition handle_bind_sensor :: "zb_env \<Rightarrow> zb_addr_t \<Rightarrow> rpc_server \<Rightarrow> I32Resp \<times> rpc_server" where
  "handle_bind_sensor E request st =
     (let (r, st') = on_stack (zigbee_bind_sensor E (from_le16 (za_short_addr request)) (za_ep request)
                       k_rpc_timeout_ms) st
      in (\<lparr>i32_value = to_le32_s r\<rparr>, st'))"

definition handle_subscribe_sensor :: "zb_env \<Rightarrow> zb_addr_t \<Rightarrow> rpc_server \<Rightarrow> I32Resp \<times> rpc_server" where
  "handle_subscribe_sensor E request st =
     (let (r, st') = on_stack (zigbee_subscribe_sensor E (from_le16 (za_short_addr request)) (za_ep request)
                       k_rpc_timeout_ms) st
      in (\<lparr>i32_value = to_le32_s r\<rparr>, st'))"

definition handle_config_report :: "zb_env \<Rightarrow> zb_addr_t \<Rightarrow> rpc_server \<Rightarrow> I32Resp \<times> rpc_server" where
  "handle_config_report E request st =
     (let (r, st') = on_stack (zigbee_config_report E (from_le16 (za_short_addr request)) (za_ep request)
                       k_rpc_timeout_ms) st
      in (\<lparr>i32_value = to_le32_s r\<rparr>, st'))"

definition handle_read_temp :: "zb_env \<Rightarrow> zb_addr_t \<Rightarrow> rpc_server \<Rightarrow> zb_temp_t \<times> rpc_server" where
  "handle_read_temp E request st =
     (let (temp, st') = on_stack (zigbee_read_temp E (from_le16 (za_short_addr request)) (za_ep request)
                          k_rpc_timeout_ms) st
      in (\<lparr>zt_err = to_le32_s (te_err temp), zt_measured = to_le16_s (te_measured temp),
           zt_min_measured = to_le16_s (te_min_measured temp),
           zt_max_measured = to_le16_s (te_max_measured temp),
           zt_tolerance = to_le16_s (te_tolerance temp)\<rparr>, st'))"

definition handle_get_last_temp :: "rpc_server \<Rightarrow> I16Resp \<times> rpc_server" where
  "handle_get_last_temp st =
     (let (t, st') = on_stack zigbee_get_last_temp st in (\<lparr>i16_value = to_le16_s t\<rparr>, st'))"

lemmas handle_defs =
  handle_get_short_addr_def handle_get_panid_def handle_get_channel_def handle_open_network_def
  handle_wait_annce_def handle_get_sensor_addr_def handle_find_sensor_def handle_read_basic_def
  handle_bind_sensor_def handle_subscribe_sensor_def handle_config_report_def handle_read_temp_def
  handle_get_last_temp_def

section \<open>Dispatch\<close>

text \<open>\<open>if (result == no_match) result = ...\<close>\<close>

definition or_else :: "invoke_result \<times> 'a \<Rightarrow> ('a \<Rightarrow> invoke_result \<times> 'a) \<Rightarrow> invoke_result \<times> 'a" where
  "or_else r next_one = (case r of (No_match, x) \<Rightarrow> next_one x | _ \<Rightarrow> r)"

definition dispatch_chain ::
    "zb_env \<Rightarrow> srv_env \<Rightarrow> frame_header \<Rightarrow> engine \<times> rpc_server \<Rightarrow> invoke_result \<times> engine \<times> rpc_server" where
  "dispatch_chain E V header es =
     (let r = invoke_one desc_get_short_addr (\<lambda>_. handle_get_short_addr E) header es;
          r = or_else r (invoke_one desc_get_panid (\<lambda>_. handle_get_panid E) header);
          r = or_else r (invoke_one desc_get_channel (\<lambda>_. handle_get_channel E) header);
          r = or_else r (invoke_one desc_open_network (handle_open_network E) header);
          r = or_else r (invoke_one desc_wait_annce (\<lambda>_. handle_wait_annce E V) header);
          r = or_else r (invoke_one desc_find_sensor (handle_find_sensor E) header);
          r = or_else r (invoke_one desc_read_basic (handle_read_basic E) header);
          r = or_else r (invoke_one desc_bind_sensor (handle_bind_sensor E) header);
          r = or_else r (invoke_one desc_subscribe_sensor (handle_subscribe_sensor E) header);
          r = or_else r (invoke_one desc_config_report (handle_config_report E) header);
          r = or_else r (invoke_one desc_read_temp (handle_read_temp E) header);
          r = or_else r (invoke_one desc_get_last_temp (\<lambda>_. handle_get_last_temp) header);
          r = or_else r (invoke_one desc_get_sensor_addr (\<lambda>_. handle_get_sensor_addr) header)
      in r)"

definition dispatch :: "zb_env \<Rightarrow> srv_env \<Rightarrow> frame_header \<Rightarrow> engine \<times> rpc_server \<Rightarrow> bool \<times> engine \<times> rpc_server" where
  "dispatch E V header es =
     (case dispatch_chain E V header es of
        (No_match, e, st) \<Rightarrow>
          (case discard_payload (fh_size header) e of
             (False, e1) \<Rightarrow> (False, e1, st)
           | (True, e1) \<Rightarrow> (False, snd (send_error Unknown_api e1), st))
      | (Handled, e, st) \<Rightarrow> (True, e, st)
      | (Failed, e, st) \<Rightarrow> (False, e, st))"

text \<open>The dispatch chain never makes more input pending.\<close>

definition pending_le :: "nat \<Rightarrow> invoke_result \<times> engine \<times> 'st \<Rightarrow> bool" where
  "pending_le n r = (pending (fst (snd r)) \<le> n)"

lemma pending_le_invoke: "pending_le (pending e) (invoke_one D f h (e, st))"
  by (cases "invoke_one D f h (e, st)") (auto simp: pending_le_def dest: invoke_one_pending)

lemma pending_le_or_else: "pending_le n r \<Longrightarrow> pending_le n (or_else r (invoke_one D f h))"
proof (cases r)
  case (fields x e st)
  assume "pending_le n r"
  with fields pending_le_invoke [of e D f h st] show ?thesis
    by (cases x) (auto simp: pending_le_def or_else_def)
qed

lemma dispatch_chain_pending: "pending_le (pending e) (dispatch_chain E V h (e, st))"
  unfolding dispatch_chain_def Let_def by (intro pending_le_or_else pending_le_invoke)

lemma dispatch_pending:
  assumes "dispatch E V h (e, st) = (ok, e', st')"
  shows "pending e' \<le> pending e"
proof (cases "dispatch_chain E V h (e, st)")
  case (fields x e1 st1)
  then have "pending e1 \<le> pending e"
    using dispatch_chain_pending [of e E V h st] by (simp add: pending_le_def)
  with assms fields show ?thesis
    by (auto simp: dispatch_def send_error_pending dest!: discard_payload_pending
        split: invoke_result.splits prod.splits bool.splits)
qed

section \<open>Serving one client\<close>

function serve_loop :: "zb_env \<Rightarrow> srv_env \<Rightarrow> engine \<Rightarrow> rpc_server \<Rightarrow> engine \<times> rpc_server" where
  "serve_loop E V e st =
     (let (up, st1) = poll_ppp V st
      in if \<not> up then (e, st1)
         else case receive_header e of
           (None, e1) \<Rightarrow>
             (if last_error e1 \<noteq> Err_none then snd (send_error (last_error e1) e1) else e1, st1)
         | (Some header, e1) \<Rightarrow>
             case dispatch E V header (e1, st1) of
               (ok, e2, st2) \<Rightarrow> if ok then serve_loop E V e2 st2 else (e2, st2))"
  by pat_completeness auto
termination
  by (relation "measure (\<lambda>(E, V, e, st). pending e)")
    (auto dest!: receive_header_pending [OF sym] dispatch_pending [OF sym])

declare serve_loop.simps [simp del]

definition serve_client :: "zb_env \<Rightarrow> srv_env \<Rightarrow> int \<Rightarrow> sock \<Rightarrow> rpc_server \<Rightarrow> sock \<times> rpc_server" where
  "serve_client E V client_fd s st =
     (let (e, st') = serve_loop E V (mk_engine s) (st\<lparr>s_client_fd := client_fd\<rparr>)
      in (eng_fd e, st'\<lparr>s_client_fd := -1\<rparr>))"

section \<open>The accept loop\<close>

text \<open>
  \<open>create_listener\<close> depends on three answers of the socket library: the descriptor \<open>socket\<close>
  returns and whether \<open>bind\<close> and \<open>listen\<close> succeed.
\<close>

record listener_env =
  socket_fd :: int
  bind_ok :: bool
  listen_ok :: bool

definition open_fd :: "int \<Rightarrow> rpc_server \<Rightarrow> rpc_server" where
  "open_fd fd st = st\<lparr>srv_open := fd # srv_open st\<rparr>"

definition close_fd :: "int \<Rightarrow> rpc_server \<Rightarrow> rpc_server" where
  "close_fd fd st = st\<lparr>srv_open := remove1 fd (srv_open st)\<rparr>"

definition create_listener :: "listener_env \<Rightarrow> rpc_server \<Rightarrow> int \<times> rpc_server" where
  "create_listener L st =
     (let listener = socket_fd L
      in if listener < 0 then (-1, st)
         else let st1 = open_fd listener st
              in if \<not> bind_ok L \<or> \<not> listen_ok L then (-1, close_fd listener st1)
                 else (listener, st1))"

datatype accept_result = Accept_client int sock | Accept_again | Accept_error

text \<open>
  The inner loop of \<open>server_task\<close> on the outcomes of the coming \<open>accept\<close> calls.  The result says
  whether the loop was left (otherwise the task is still waiting in \<open>accept\<close>), and gives the
  sockets of the clients that were served.
\<close>

fun accept_loop :: "zb_env \<Rightarrow> srv_env \<Rightarrow> accept_result list \<Rightarrow> rpc_server \<Rightarrow> bool \<times> sock list \<times> rpc_server" where
  "accept_loop E V [] st = (False, [], st)"
| "accept_loop E V (a # outcomes) st =
     (let (up, st1) = poll_ppp V st
      in if \<not> up then (True, [], st1)
         else case a of
                Accept_again \<Rightarrow> accept_loop E V outcomes st1
              | Accept_error \<Rightarrow> (True, [], st1)
              | Accept_client fd s \<Rightarrow>
                  let (s', st2) = serve_client E V fd s (open_fd fd st1);
                      (left, served, st3) = accept_loop E V outcomes (close_fd fd st2)
                  in (left, s' # served, st3))"

text \<open>One turn of the outer loop of \<open>server_task\<close>, after the wait for the link.\<close>

definition server_turn ::
    "zb_env \<Rightarrow> srv_env \<Rightarrow> listener_env \<Rightarrow> accept_result list \<Rightarrow> rpc_server \<Rightarrow> bool \<times> sock list \<times> rpc_server" where
  "server_turn E V L outcomes st =
     (let (listener, st1) = create_listener L st
      in if listener < 0 then (True, [], st1)
         else let (left, served, st2) = accept_loop E V outcomes st1
              in (left, served, if left then close_fd listener st2 else st2))"

section \<open>Requests as values\<close>

text \<open>
  A request a client can make, its bytes on the wire, and what the server does for it: run
  the one handler registered for it and frame the result.  \<open>exec_requests\<close> runs a sequence,
  with the link poll the serving loop makes before each frame.
\<close>

datatype rpc_request =
    Rq_get_short_addr
  | Rq_get_panid
  | Rq_get_channel
  | Rq_open_network OpenNetworkReq
  | Rq_wait_annce
  | Rq_find_sensor FindSensorReq
  | Rq_read_basic zb_addr_t
  | Rq_bind_sensor zb_addr_t
  | Rq_subscribe_sensor zb_addr_t
  | Rq_config_report zb_addr_t
  | Rq_read_temp zb_addr_t
  | Rq_get_last_temp
  | Rq_get_sensor_addr

definition run_handler :: "('req, 'resp) rpc_desc \<Rightarrow> ('req \<Rightarrow> 'st \<Rightarrow> 'resp \<times> 'st) \<Rightarrow> 'req \<Rightarrow> 'st \<Rightarrow> bytes \<times> 'st" where
  "run_handler D f request st =
     (let (response, st') = f request st in (frame (api_value (desc_id D)) (desc_resp D) response, st'))"

definition request_bytes :: "('req, 'resp) rpc_desc \<Rightarrow> 'req \<Rightarrow> bytes" where
  "request_bytes D request = frame (api_value (desc_id D)) (desc_req D) request"

fun request_frame :: "rpc_request \<Rightarrow> bytes" where
  "request_frame Rq_get_short_addr = request_bytes desc_get_short_addr EmptyReq"
| "request_frame Rq_get_panid = request_bytes desc_get_panid EmptyReq"
| "request_frame Rq_get_channel = request_bytes desc_get_channel EmptyReq"
| "request_frame (Rq_open_network q) = request_bytes desc_open_network q"
| "request_frame Rq_wait_annce = request_bytes desc_wait_annce EmptyReq"
| "request_frame (Rq_find_sensor q) = request_bytes desc_find_sensor q"
| "request_frame (Rq_read_basic q) = request_bytes desc_read_basic q"
| "request_frame (Rq_bind_sensor q) = request_bytes desc_bind_sensor q"
| "request_frame (Rq_subscribe_sensor q) = request_bytes desc_subscribe_sensor q"
| "request_frame (Rq_config_report q) = request_bytes desc_config_report q"
| "request_frame (Rq_read_temp q) = request_bytes desc_read_temp q"
| "request_frame Rq_get_last_temp = request_bytes desc_get_last_temp EmptyReq"
| "request_frame Rq_get_sensor_addr = request_bytes desc_get_sensor_addr EmptyReq"

fun exec_request :: "zb_env \<Rightarrow> srv_env \<Rightarrow> rpc_request \<Rightarrow> rpc_server \<Rightarrow> bytes \<times> rpc_server" where
  "exec_request E V Rq_get_short_addr = run_handler desc_get_short_addr (\<lambda>_. handle_get_short_addr E) EmptyReq"
| "exec_request E V Rq_get_panid = run_handler desc_get_panid (\<lambda>_. handle_get_panid E) EmptyReq"
| "exec_request E V Rq_get_channel = run_handler desc_get_channel (\<lambda>_. handle_get_channel E) EmptyReq"
| "exec_request E V (Rq_open_network q) = run_handler desc_open_network (handle_open_network E) q"
| "exec_request E V Rq_wait_annce = run_handler desc_wait_annce (\<lambda>_. handle_wait_annce E V) EmptyReq"
| "exec_request E V (Rq_find_sensor q) = run_handler desc_find_sensor (handle_find_sensor E) q"
| "exec_request E V (Rq_read_basic q) = run_handler desc_read_basic (handle_read_basic E) q"
| "exec_request E V (Rq_bind_sensor q) = run_handler desc_bind_sensor (handle_bind_sensor E) q"
| "exec_request E V (Rq_subscribe_sensor q) = run_handler desc_subscribe_sensor (handle_subscribe_sensor E) q"
| "exec_request E V (Rq_config_report q) = run_handler desc_config_report (handle_config_report E) q"
| "exec_request E V (Rq_read_temp q) = run_handler desc_read_temp (handle_read_temp E) q"
| "exec_request E V Rq_get_last_temp = run_handler desc_get_last_temp (\<lambda>_. handle_get_last_temp) EmptyReq"
| "exec_request E V Rq_get_sensor_addr = run_handler desc_get_sensor_addr (\<lambda>_. handle_get_sensor_addr) EmptyReq"

fun exec_requests :: "zb_env \<Rightarrow> srv_env \<Rightarrow> rpc_request list \<Rightarrow> rpc_server \<Rightarrow> bytes \<times> rpc_server" where
  "exec_requests E V [] st = ([], st)"
| "exec_requests E V (r # rs) st =
     (let (b, st1) = exec_request E V r (snd (poll_ppp V st));
          (bs, st2) = exec_requests E V rs st1
      in (b @ bs, st2))"

section \<open>Frames the server rejects\<close>

text \<open>
  The payload size each registered procedure expects, and the error code the server answers
  to a header that is not an acceptable request.
\<close>

definition request_sizes :: "(api_enum \<times> nat) list" where
  "request_sizes =
     [(Api_get_short_addr, 0), (Api_get_panid, 0), (Api_get_channel, 0), (Api_open_network, 1),
      (Api_wait_annce, 0), (Api_find_sensor, 2), (Api_read_basic, 7), (Api_bind_sensor, 7),
      (Api_subscribe_sensor, 7), (Api_config_report, 7), (Api_read_temp, 7),
      (Api_get_last_temp, 0), (Api_get_sensor_addr, 0)]"

definition request_size :: "api_id \<Rightarrow> nat option" where
  "request_size i = map_of (map (\<lambda>(a, n). (api_value a, n)) request_sizes) i"

definition header_error :: "wire_header \<Rightarrow> error_code option" where
  "header_error h =
     (if from_le32 (wh_magic h) \<noteq> k_magic then Some Bad_magic
      else if k_max_payload < from_le32 (wh_size h) then Some Oversized_payload
      else case request_size (from_le32 (wh_id h)) of
             None \<Rightarrow> Some Unknown_api
           | Some n \<Rightarrow> if unat (from_le32 (wh_size h)) = n then None else Some Payload_mismatch)"

definition error_frame :: "error_code \<Rightarrow> bytes" where
  "error_frame c = frame (api_value Api_error) ErrorResp_type \<lparr>er_code = to_le32 (error_value c)\<rparr>"

section \<open>Dispatch reaches the registered handler\<close>

lemma or_else_No_match [simp]: "or_else (No_match, x) g = g x"
  by (simp add: or_else_def)

lemma or_else_matched [simp]: "fst r \<noteq> No_match \<Longrightarrow> or_else r g = r"
  by (auto simp: or_else_def split: prod.splits invoke_result.splits)

lemma invoke_one_other [simp]:
  "fh_id h \<noteq> api_value (desc_id D) \<Longrightarrow> invoke_one D f h es = (No_match, es)"
  by (simp add: invoke_one_def split: prod.splits)

lemma invoke_one_own [simp]:
  "fh_id h = api_value (desc_id D) \<Longrightarrow> fst (invoke_one D f h es) \<noteq> No_match"
  by (auto simp: invoke_one_def Let_def split: prod.splits option.splits)

lemma dispatch_chain_get_short_addr:
  "fh_id h = api_value Api_get_short_addr \<Longrightarrow>
   dispatch_chain E V h es = invoke_one desc_get_short_addr (\<lambda>_. handle_get_short_addr E) h es"
  by (simp add: dispatch_chain_def del: api_value.simps)

lemma dispatch_chain_get_panid:
  "fh_id h = api_value Api_get_panid \<Longrightarrow>
   dispatch_chain E V h es = invoke_one desc_get_panid (\<lambda>_. handle_get_panid E) h es"
  by (simp add: dispatch_chain_def del: api_value.simps)

lemma dispatch_chain_get_channel:
  "fh_id h = api_value Api_get_channel \<Longrightarrow>
   dispatch_chain E V h es = invoke_one desc_get_channel (\<lambda>_. handle_get_channel E) h es"
  by (simp add: dispatch_chain_def del: api_value.simps)

lemma dispatch_chain_open_network:
  "fh_id h = api_value Api_open_network \<Longrightarrow>
   dispatch_chain E V h es = invoke_one desc_open_network (handle_open_network E) h es"
  by (simp add: dispatch_chain_def del: api_value.simps)

lemma dispatch_chain_wait_annce:
  "fh_id h = api_value Api_wait_annce \<Longrightarrow>
   dispatch_chain E V h es = invoke_one desc_wait_annce (\<lambda>_. handle_wait_annce E V) h es"
  by (simp add: dispatch_chain_def del: api_value.simps)

lemma dispatch_chain_find_sensor:
  "fh_id h = api_value Api_find_sensor \<Longrightarrow>
   dispatch_chain E V h es = invoke_one desc_find_sensor (handle_find_sensor E) h es"
  by (simp add: dispatch_chain_def del: api_value.simps)

lemma dispatch_chain_read_basic:
  "fh_id h = api_value Api_read_basic \<Longrightarrow>
   dispatch_chain E V h es = invoke_one desc_read_basic (handle_read_basic E) h es"
  by (simp add: dispatch_chain_def del: api_value.simps)

lemma dispatch_chain_bind_sensor:
  "fh_id h = api_value Api_bind_sensor \<Longrightarrow>
   dispatch_chain E V h es = invoke_one desc_bind_sensor (handle_bind_sensor E) h es"
  by (simp add: dispatch_chain_def del: api_value.simps)

lemma dispatch_chain_subscribe_sensor:
  "fh_id h = api_value Api_subscribe_sensor \<Longrightarrow>
   dispatch_chain E V h es = invoke_one desc_subscribe_sensor (handle_subscribe_sensor E) h es"
  by (simp add: dispatch_chain_def del: api_value.simps)

lemma dispatch_chain_config_report:
  "fh_id h = api_value Api_config_report \<Longrightarrow>
   dispatch_chain E V h es = invoke_one desc_config_report (handle_config_report E) h es"
  by (simp add: dispatch_chain_def del: api_value.simps)

lemma dispatch_chain_read_temp:
  "fh_id h = api_value Api_read_temp \<Longrightarrow>
   dispatch_chain E V h es = invoke_one desc_read_temp (handle_read_temp E) h es"
  by (simp add: dispatch_chain_def del: api_value.simps)

lemma dispatch_chain_get_last_temp:
  "fh_id h = api_value Api_get_last_temp \<Longrightarrow>
   dispatch_chain E V h es = invoke_one desc_get_last_temp (\<lambda>_. handle_get_last_temp) h es"
  by (simp add: dispatch_chain_def del: api_value.simps)

lemma dispatch_chain_get_sensor_addr:
  "fh_id h = api_value Api_get_sensor_addr \<Longrightarrow>
   dispatch_chain E V h es = invoke_one desc_get_sensor_addr (\<lambda>_. handle_get_sensor_addr) h es"
  by (simp add: dispatch_chain_def del: api_value.simps)

section \<open>The serving loop, frame by frame\<close>

lemma engine_reset: "e\<lparr>last_error := c, eng_fd := s\<rparr> = \<lparr>eng_fd = s, last_error = c\<rparr>"
  by (cases e) simp

context rpc_entry begin

lemma serve_step:
  assumes up: "ppp_up V (srv_clock st)" and wx: "wx_ok (wx (eng_fd e))"
    and valid: "wt_valid (desc_req D) request"
    and stream: "rx_stream (rx (eng_fd e)) = request_bytes D request @ rest"
    and disp: "\<And>h es. fh_id h = api_value (desc_id D) \<Longrightarrow> dispatch_chain E V h es = invoke_one D f h es"
    and run: "run_handler D f request (snd (poll_ppp V st)) = (b, st')"
  obtains s where "serve_loop E V e st = serve_loop E V \<lparr>eng_fd = s, last_error = Err_none\<rparr> st'"
    and "sent s = sent (eng_fd e) @ b" and "rx_stream (rx s) = rest" and "wx_ok (wx s)"
proof -
  let ?i = "api_value (desc_id D)" and ?n = "payload_size (desc_req D)"
  let ?h = "\<lparr>fh_id = ?i, fh_size = of_nat ?n\<rparr>"
  have "rx_stream (rx (eng_fd e)) = frame_header_bytes ?i ?n @ payload_bytes (desc_req D) request @ rest"
    using stream by (simp add: request_bytes_def frame_def)
  moreover have "?n \<le> 64" using req.payload_size_max by simp
  ultimately obtain es where rh: "receive_header e =
      (Some ?h, e\<lparr>last_error := Err_none, eng_fd := (eng_fd e)\<lparr>rx := es\<rparr>\<rparr>)"
    and st: "rx_stream es = payload_bytes (desc_req D) request @ rest"
    by (rule receive_header_frame)
  let ?e1 = "e\<lparr>last_error := Err_none, eng_fd := (eng_fd e)\<lparr>rx := es\<rparr>\<rparr>"
  obtain resp where f: "f request (snd (poll_ppp V st)) = (resp, st')"
    and b: "b = frame ?i (desc_resp D) resp"
    using run by (auto simp: run_handler_def split: prod.splits)
  have "wx_ok (wx (eng_fd ?e1))" "rx_stream (rx (eng_fd ?e1)) = payload_bytes (desc_req D) request @ rest"
    using wx st by simp_all
  then obtain s where "invoke_one D f ?h (?e1, snd (poll_ppp V st)) = (Handled, ?e1\<lparr>eng_fd := s\<rparr>, st')"
    "sent s = sent (eng_fd ?e1) @ frame ?i (desc_resp D) resp" "rx_stream (rx s) = rest" "wx_ok (wx s)"
    using invoke_one_ok [where f = f and e = ?e1 and st = "snd (poll_ppp V st)", OF _ valid _ f] by blast
  then show thesis
    using up disp [of ?h] b
    by (intro that [of s])
      (simp_all add: serve_loop.simps [of E V e st] poll_ppp_def rh dispatch_def engine_reset)
qed

end

lemma serve_request:
  assumes "ppp_up V (srv_clock st)" "wx_ok (wx (eng_fd e))"
    and "rx_stream (rx (eng_fd e)) = request_frame r @ rest"
    and "exec_request E V r (snd (poll_ppp V st)) = (b, st')"
  obtains s where "serve_loop E V e st = serve_loop E V \<lparr>eng_fd = s, last_error = Err_none\<rparr> st'"
    and "sent s = sent (eng_fd e) @ b" and "rx_stream (rx s) = rest" and "wx_ok (wx s)"
proof (cases r)
  case Rq_get_short_addr
  show ?thesis
    by (rule get_short_addr_rpc.serve_step [OF assms(1,2), where request = EmptyReq])
      (use assms(3,4) Rq_get_short_addr that in \<open>simp_all add: dispatch_chain_get_short_addr del: api_value.simps\<close>)
next
  case Rq_get_panid
  show ?thesis
    by (rule get_panid_rpc.serve_step [OF assms(1,2), where request = EmptyReq])
      (use assms(3,4) Rq_get_panid that in \<open>simp_all add: dispatch_chain_get_panid del: api_value.simps\<close>)
next
  case Rq_get_channel
  show ?thesis
    by (rule get_channel_rpc.serve_step [OF assms(1,2), where request = EmptyReq])
      (use assms(3,4) Rq_get_channel that in \<open>simp_all add: dispatch_chain_get_channel del: api_value.simps\<close>)
next
  case (Rq_open_network q)
  show ?thesis
    by (rule open_network_rpc.serve_step [OF assms(1,2), where request = q])
      (use assms(3,4) Rq_open_network that in \<open>simp_all add: dispatch_chain_open_network del: api_value.simps\<close>)
next
  case Rq_wait_annce
  show ?thesis
    by (rule wait_annce_rpc.serve_step [OF assms(1,2), where request = EmptyReq])
      (use assms(3,4) Rq_wait_annce that in \<open>simp_all add: dispatch_chain_wait_annce del: api_value.simps\<close>)
next
  case (Rq_find_sensor q)
  show ?thesis
    by (rule find_sensor_rpc.serve_step [OF assms(1,2), where request = q])
      (use assms(3,4) Rq_find_sensor that in \<open>simp_all add: dispatch_chain_find_sensor del: api_value.simps\<close>)
next
  case (Rq_read_basic q)
  show ?thesis
    by (rule read_basic_rpc.serve_step [OF assms(1,2), where request = q])
      (use assms(3,4) Rq_read_basic that in \<open>simp_all add: dispatch_chain_read_basic del: api_value.simps\<close>)
next
  case (Rq_bind_sensor q)
  show ?thesis
    by (rule bind_sensor_rpc.serve_step [OF assms(1,2), where request = q])
      (use assms(3,4) Rq_bind_sensor that in \<open>simp_all add: dispatch_chain_bind_sensor del: api_value.simps\<close>)
next
  case (Rq_subscribe_sensor q)
  show ?thesis
    by (rule subscribe_sensor_rpc.serve_step [OF assms(1,2), where request = q])
      (use assms(3,4) Rq_subscribe_sensor that in \<open>simp_all add: dispatch_chain_subscribe_sensor del: api_value.simps\<close>)
next
  case (Rq_config_report q)
  show ?thesis
    by (rule config_report_rpc.serve_step [OF assms(1,2), where request = q])
      (use assms(3,4) Rq_config_report that in \<open>simp_all add: dispatch_chain_config_report del: api_value.simps\<close>)
next
  case (Rq_read_temp q)
  show ?thesis
    by (rule read_temp_rpc.serve_step [OF assms(1,2), where request = q])
      (use assms(3,4) Rq_read_temp that in \<open>simp_all add: dispatch_chain_read_temp del: api_value.simps\<close>)
next
  case Rq_get_last_temp
  show ?thesis
    by (rule get_last_temp_rpc.serve_step [OF assms(1,2), where request = EmptyReq])
      (use assms(3,4) Rq_get_last_temp that in \<open>simp_all add: dispatch_chain_get_last_temp del: api_value.simps\<close>)
next
  case Rq_get_sensor_addr
  show ?thesis
    by (rule get_sensor_addr_rpc.serve_step [OF assms(1,2), where request = EmptyReq])
      (use assms(3,4) Rq_get_sensor_addr that in \<open>simp_all add: dispatch_chain_get_sensor_addr del: api_value.simps\<close>)
qed

lemma serve_loop_eof:
  assumes "rx_stream (rx (eng_fd e)) = []"
  obtains es where "serve_loop E V e st = (if ppp_up V (srv_clock st)
      then e\<lparr>last_error := Err_none, eng_fd := (eng_fd e)\<lparr>rx := es\<rparr>\<rparr> else e, snd (poll_ppp V st))"
proof -
  from assms receive_header_short [of e] obtain es where
    "receive_header e = (None, e\<lparr>last_error := Err_none, eng_fd := (eng_fd e)\<lparr>rx := es\<rparr>\<rparr>)"
    by auto
  then show thesis
    by (intro that [of es]) (simp add: serve_loop.simps [of E V e st] poll_ppp_def)
qed

section \<open>Whole sessions\<close>

lemma serve_loop_prefix:
  assumes up: "\<forall>t. ppp_up V t" and "wx_ok (wx (eng_fd e))"
    and "rx_stream (rx (eng_fd e)) = concat (map request_frame rs) @ rest"
  shows "\<exists>e'. serve_loop E V e st = serve_loop E V e' (snd (exec_requests E V rs st)) \<and>
           sent (eng_fd e') = sent (eng_fd e) @ fst (exec_requests E V rs st) \<and>
           rx_stream (rx (eng_fd e')) = rest \<and> wx_ok (wx (eng_fd e'))"
  using assms(2,3)
proof (induction rs arbitrary: e st)
  case Nil
  then show ?case by (auto intro!: exI [of _ e])
next
  case (Cons r rs)
  obtain b st1 where r: "exec_request E V r (snd (poll_ppp V st)) = (b, st1)" by fastforce
  from Cons.prems up r obtain s where
    s: "serve_loop E V e st = serve_loop E V \<lparr>eng_fd = s, last_error = Err_none\<rparr> st1"
      "sent s = sent (eng_fd e) @ b"
    and next_ok: "rx_stream (rx s) = concat (map request_frame rs) @ rest" "wx_ok (wx s)"
    by (auto elim: serve_request [rotated 2])
  from Cons.IH [of "\<lparr>eng_fd = s, last_error = Err_none\<rparr>" st1] next_ok s r show ?case
    by (auto split: prod.splits)
qed

section \<open>Rejected frames\<close>

lemma send_error_sent:
  assumes "wx_ok (wx (eng_fd e))"
  shows "sent (eng_fd (snd (send_error c e))) = sent (eng_fd e) @ error_frame c"
proof -
  from assms obtain es where "send ErrorResp_type (api_value Api_error) \<lparr>er_code = to_le32 (error_value c)\<rparr> e =
     (True, e\<lparr>eng_fd := (eng_fd e)\<lparr>sent := sent (eng_fd e) @ error_frame c, wx := es\<rparr>\<rparr>)"
    unfolding error_frame_def by (rule send_ok)
  then show ?thesis by (simp add: send_error_def)
qed

context rpc_entry begin

lemma invoke_one_mismatch:
  assumes "fh_id h = api_value (desc_id D)" "unat (fh_size h) \<noteq> payload_size (desc_req D)"
  shows "invoke_one D f h (e, st) =
    (Failed, snd (send_error Payload_mismatch (e\<lparr>last_error := Payload_mismatch\<rparr>)), st)"
  using assms by (simp add: invoke_one_def receive_payload_mismatch)

end

lemma payload_size_simps [simp]:
  "payload_size EmptyReq_type = 0" "payload_size OpenNetworkReq_type = 1"
  "payload_size FindSensorReq_type = 2" "payload_size zb_addr_type = 7"
  by (simp_all add: payload_size_def wire_defs)

lemmas dispatch_chain_own =
  dispatch_chain_get_short_addr
  dispatch_chain_get_panid
  dispatch_chain_get_channel
  dispatch_chain_open_network
  dispatch_chain_wait_annce
  dispatch_chain_find_sensor
  dispatch_chain_read_basic
  dispatch_chain_bind_sensor
  dispatch_chain_subscribe_sensor
  dispatch_chain_config_report
  dispatch_chain_read_temp
  dispatch_chain_get_last_temp
  dispatch_chain_get_sensor_addr

lemmas invoke_one_mismatches =
  get_short_addr_rpc.invoke_one_mismatch
  get_panid_rpc.invoke_one_mismatch
  get_channel_rpc.invoke_one_mismatch
  open_network_rpc.invoke_one_mismatch
  wait_annce_rpc.invoke_one_mismatch
  find_sensor_rpc.invoke_one_mismatch
  read_basic_rpc.invoke_one_mismatch
  bind_sensor_rpc.invoke_one_mismatch
  subscribe_sensor_rpc.invoke_one_mismatch
  config_report_rpc.invoke_one_mismatch
  read_temp_rpc.invoke_one_mismatch
  get_last_temp_rpc.invoke_one_mismatch
  get_sensor_addr_rpc.invoke_one_mismatch

lemma request_size_Some:
  assumes "request_size i = Some n"
  obtains a where "i = api_value a" "(a, n) \<in> set request_sizes"
  using assms by (auto simp: request_size_def dest!: map_of_SomeD)

lemma dispatch_chain_mismatch:
  assumes "request_size (fh_id h) = Some n" "unat (fh_size h) \<noteq> n"
  shows "dispatch_chain E V h (e, st) =
    (Failed, snd (send_error Payload_mismatch (e\<lparr>last_error := Payload_mismatch\<rparr>)), st)"
proof -
  obtain a where a: "fh_id h = api_value a" "(a, n) \<in> set request_sizes"
    using assms(1) by (rule request_size_Some)
  then show ?thesis
    using assms(2)
    by (auto simp: request_sizes_def dispatch_chain_own invoke_one_mismatches simp del: api_value.simps)
qed

lemma dispatch_chain_unknown:
  assumes "request_size (fh_id h) = None"
  shows "dispatch_chain E V h es = (No_match, es)"
proof -
  have "fh_id h \<noteq> api_value a" if "a \<in> fst ` set request_sizes" for a
    using that assms by (force simp: request_size_def map_of_eq_None_iff image_iff)
  then show ?thesis
    by (simp add: dispatch_chain_def request_sizes_def del: api_value.simps)
qed

lemma serve_loop_rejects:
  assumes up: "ppp_up V (srv_clock st)" and wx: "wx_ok (wx (eng_fd e))"
    and stream: "rx_stream (rx (eng_fd e)) = wire_header_bytes h @ rest"
    and err: "header_error h = Some c"
    and body: "c = Unknown_api \<longrightarrow> unat (from_le32 (wh_size h)) \<le> length rest"
  shows "\<exists>e'. serve_loop E V e st = (e', snd (poll_ppp V st)) \<and>
           sent (eng_fd e') = sent (eng_fd e) @ error_frame c"
proof -
  let ?h = "\<lparr>fh_id = from_le32 (wh_id h), fh_size = from_le32 (wh_size h)\<rparr>"
  obtain es where es: "rx_stream es = rest" and rh: "receive_header e =
      (let e1 = e\<lparr>last_error := Err_none, eng_fd := (eng_fd e)\<lparr>rx := es\<rparr>\<rparr>
       in if from_le32 (wh_magic h) \<noteq> k_magic then (None, e1\<lparr>last_error := Bad_magic\<rparr>)
          else if k_max_payload < from_le32 (wh_size h) then (None, e1\<lparr>last_error := Oversized_payload\<rparr>)
          else (Some ?h, e1))"
    using stream by (rule receive_header_full)
  define e1 where "e1 = e\<lparr>last_error := Err_none, eng_fd := (eng_fd e)\<lparr>rx := es\<rparr>\<rparr>"
  have e1: "wx_ok (wx (eng_fd e1))" "sent (eng_fd e1) = sent (eng_fd e)" "rx_stream (rx (eng_fd e1)) = rest"
    using wx es by (simp_all add: e1_def)
  note turn = serve_loop.simps [of E V e st] poll_ppp_def rh e1_def [symmetric] Let_def up
  show ?thesis
  proof (cases c)
    case Err_none
    then show ?thesis using err by (auto simp: header_error_def split: if_splits option.splits)
  next
    case Bad_magic
    then have "from_le32 (wh_magic h) \<noteq> k_magic"
      using err by (auto simp: header_error_def split: if_splits option.splits)
    with Bad_magic e1 show ?thesis by (simp add: turn send_error_sent)
  next
    case Oversized_payload
    then have "from_le32 (wh_magic h) = k_magic" "k_max_payload < from_le32 (wh_size h)"
      using err by (auto simp: header_error_def split: if_splits option.splits)
    with Oversized_payload e1 show ?thesis by (simp add: turn send_error_sent)
  next
    case Unknown_api
    then have "request_size (fh_id ?h) = None" "from_le32 (wh_magic h) = k_magic"
      "\<not> k_max_payload < from_le32 (wh_size h)"
      using err by (auto simp: header_error_def split: if_splits option.splits)
    moreover obtain es' where d: "discard_payload (from_le32 (wh_size h)) e1 =
        (True, e1\<lparr>eng_fd := (eng_fd e1)\<lparr>rx := es'\<rparr>\<rparr>)"
      using discard_payload_ok [of "from_le32 (wh_size h)" e1] body Unknown_api e1 by auto
    ultimately show ?thesis
      using Unknown_api e1 by (simp add: turn dispatch_def dispatch_chain_unknown send_error_sent)
  next
    case Payload_mismatch
    then obtain n where "request_size (fh_id ?h) = Some n" "unat (fh_size ?h) \<noteq> n"
      "from_le32 (wh_magic h) = k_magic" "\<not> k_max_payload < from_le32 (wh_size h)"
      using err by (auto simp: header_error_def split: if_splits option.splits)
    with Payload_mismatch e1 show ?thesis
      by (simp add: turn dispatch_def dispatch_chain_mismatch send_error_sent)
  qed
qed

section \<open>What every request keeps\<close>

text \<open>
  Every procedure runs one operation of the adapter on the stack (the announcement wait runs
  several): a reflexive and transitive relation that the adapter's operations satisfy holds
  across every request.
\<close>

locale stack_step =
  fixes E :: zb_env and R :: "zb_stack \<Rightarrow> zb_stack \<Rightarrow> bool"
  assumes refl [simp]: "R st st"
    and trans: "R x y \<Longrightarrow> R y z \<Longrightarrow> R x z"
    and steps: "R st (snd (zigbee_get_short_addr E st))" "R st (snd (zigbee_get_panid E st))"
      "R st (snd (zigbee_get_channel E st))" "R st (snd (zigbee_get_sensor_addr st))"
      "R st (snd (zigbee_get_last_temp st))" "R st (snd (zigbee_open_network E d st))"
      "R st (snd (zigbee_wait_annce E t st))" "R st (snd (zigbee_find_sensor E a t st))"
      "R st (snd (zigbee_read_basic E a ep t st))" "R st (snd (zigbee_bind_common E a ep l t st))"
      "R st (snd (zigbee_config_report E a ep t st))" "R st (snd (zigbee_read_temp E a ep t st))"
begin

lemma on_stack_step: "R (srv_stack st) (snd (f (srv_stack st))) \<Longrightarrow> R (srv_stack st) (srv_stack (snd (on_stack f st)))"
  by (simp add: on_stack_def case_prod_beta Let_def)

lemma client_connected_stack [simp]: "srv_stack (snd (client_connected V st)) = srv_stack st"
  by (auto simp: client_connected_def Let_def split: peek_result.splits)

lemma poll_ppp_stack [simp]: "srv_stack (snd (poll_ppp V st)) = srv_stack st"
  by (simp add: poll_ppp_def)

lemma wait_loop_step: "R (srv_stack st) (srv_stack (snd (wait_annce_loop E V n st)))"
proof (induction "unat n" arbitrary: n st rule: less_induct)
  case less
  let ?slice = "if n < k_annce_slice_ms then n else k_annce_slice_ms"
  let ?st2 = "snd (client_connected V (snd (poll_ppp V st)))"
  let ?r = "on_stack (zigbee_wait_annce E ?slice) ?st2"
  have 1: "R (srv_stack st) (srv_stack (snd ?r))"
    using on_stack_step [of ?st2 "zigbee_wait_annce E ?slice"] steps(7) by simp
  have 2: "n \<noteq> 0 \<Longrightarrow> R (srv_stack (snd ?r)) (srv_stack (snd (wait_annce_loop E V (n - ?slice) (snd ?r))))"
    by (rule less) (rule chunk_less, simp_all add: k_annce_slice_ms_def)
  show ?case
    using 1 trans [OF 1 2]
    by (simp add: wait_annce_loop.simps [of E V n st] case_prod_beta Let_def)
qed

lemma exec_request_step: "R (srv_stack st) (srv_stack (snd (exec_request E V r st)))"
  by (cases r)
    (simp_all add: run_handler_def case_prod_beta Let_def handle_defs steps on_stack_step wait_loop_step
      zigbee_bind_sensor_def zigbee_subscribe_sensor_def)

lemma exec_requests_step: "R (srv_stack st) (srv_stack (snd (exec_requests E V rs st)))"
proof (induction rs arbitrary: st)
  case (Cons r rs)
  have "R (srv_stack st) (srv_stack (snd (exec_request E V r (snd (poll_ppp V st)))))"
    using exec_request_step [of "snd (poll_ppp V st)" V r] by simp
  from trans [OF this Cons.IH] show ?case by (simp add: case_prod_beta Let_def)
qed simp

end

interpretation lock_step: stack_step E lock_kept for E
  by unfold_locales (auto intro: lock_kept_trans simp: api_lock_kept)

interpretation unfaulted_step: stack_step E "\<lambda>a b. unfaulted E a \<longrightarrow> unfaulted E b" for E
  by unfold_locales (auto simp: api_unfaulted bind_common_unfaulted)

context typed_stack begin

lemma good_steps: "stack_step E (\<lambda>a b. good a \<longrightarrow> good b)"
  by unfold_locales (auto simp: wait_annce_good open_network_good find_sensor_good read_basic_good
      read_temp_good config_report_good bind_common_good getters_good zigbee_get_sensor_addr_def
      zigbee_get_last_temp_def)

end

sublocale typed_stack \<subseteq> good_step: stack_step E "\<lambda>a b. good a \<longrightarrow> good b"
  by (rule good_steps)

section \<open>The announcement wait is bounded\<close>

fun annce_waits :: "ezb_call list \<Rightarrow> u32 list" where
  "annce_waits [] = []"
| "annce_waits (Block_on Wait_annce t n # cs) = t # annce_waits cs"
| "annce_waits (c # cs) = annce_waits cs"

lemma annce_waits_append [simp]: "annce_waits (cs @ ds) = annce_waits cs @ annce_waits ds"
  by (induction cs rule: annce_waits.induct) simp_all

lemma handle_waits: "annce_waits (zb_calls (zb_handle E ev st)) = annce_waits (zb_calls st)"
proof (cases ev)
  case (Ev_signal sg)
  then show ?thesis by (cases sg) (auto simp: callback_defs split: option.splits)
next
  case (Ev_zcl m)
  then show ?thesis
    by (cases m) (auto simp: callback_defs fold_frame [where g = zb_calls] split: option.splits)
qed (auto simp: callback_defs split: option.splits)

lemma run_window_waits:
  "run_window E ready w st = (rest, st') \<Longrightarrow> annce_waits (zb_calls st') = annce_waits (zb_calls st)"
  by (induction w arbitrary: st) (auto simp: handle_waits split: if_splits)

lemma wait_annce_waits:
  "annce_waits (zb_calls (snd (zigbee_wait_annce E t st))) = annce_waits (zb_calls st) @ [t]"
proof -
  have "annce_waits (zb_calls (block_on E Wait_annce ready t st)) = annce_waits (zb_calls st) @ [t]" for ready
    by (auto simp: block_on_def Let_def split: list.splits prod.splits dest!: run_window_waits)
  then show ?thesis by (simp add: zigbee_wait_annce_def Let_def split: option.splits prod.splits)
qed

abbreviation srv_waits :: "rpc_server \<Rightarrow> u32 list" where
  "srv_waits st \<equiv> annce_waits (zb_calls (srv_stack st))"

text \<open>One turn of the loop: the client or the link is gone, the wait answers, or the loop goes on.\<close>

definition annce_slice :: "u32 \<Rightarrow> u32" where
  "annce_slice n = (if n < k_annce_slice_ms then n else k_annce_slice_ms)"

lemma wait_loop_turn:
  fixes E :: zb_env and V :: srv_env and st :: rpc_server
  assumes "n \<noteq> 0"
  defines "st2 \<equiv> snd (client_connected V (snd (poll_ppp V st)))"
  defines "r \<equiv> on_stack (zigbee_wait_annce E (annce_slice n)) st2"
  shows "(\<exists>st'. wait_annce_loop E V n st = (0, st') \<and> srv_stack st' = srv_stack st) \<or>
    wait_annce_loop E V n st = r \<or> wait_annce_loop E V n st = wait_annce_loop E V (n - annce_slice n) (snd r)"
proof -
  have "srv_stack st2 = srv_stack st"
    unfolding st2_def by (auto simp: client_connected_def poll_ppp_def Let_def split: peek_result.splits)
  with assms(1) show ?thesis
    unfolding r_def st2_def annce_slice_def
    by (auto simp: wait_annce_loop.simps [of E V n st] Let_def case_prod_beta poll_ppp_def)
qed

lemma wait_loop_waits:
  "\<exists>ts. srv_waits (snd (wait_annce_loop E V n st)) = srv_waits st @ ts \<and>
     sum_list (map unat ts) \<le> unat n \<and> 250 * length ts \<le> unat n + 249"
proof (induction "unat n" arbitrary: n st rule: less_induct)
  case less
  let ?slice = "annce_slice n"
  let ?st2 = "snd (client_connected V (snd (poll_ppp V st)))"
  let ?st3 = "snd (on_stack (zigbee_wait_annce E ?slice) ?st2)"
  have "srv_stack ?st2 = srv_stack st"
    by (auto simp: client_connected_def poll_ppp_def Let_def split: peek_result.splits)
  then have one: "srv_waits ?st3 = srv_waits st @ [?slice]"
    by (simp add: on_stack_def case_prod_beta Let_def wait_annce_waits)
  show ?case
  proof (cases "n = 0")
    case True
    then show ?thesis by (simp add: wait_annce_loop.simps)
  next
    case False
    have u: "unat (n - ?slice) = unat n - unat ?slice" "unat ?slice \<le> unat n" "0 < unat ?slice"
      "n - ?slice = 0 \<or> unat ?slice = 250"
      using unat_chunk_sub [of n k_annce_slice_ms] chunk_le [of n k_annce_slice_ms] False
      by (auto simp: annce_slice_def k_annce_slice_ms_def unat_gt_0)
    then have "unat (n - ?slice) < unat n" by simp
    from less [OF this, of ?st3] one obtain ts where
      ts: "srv_waits (snd (wait_annce_loop E V (n - ?slice) ?st3)) = srv_waits st @ ?slice # ts"
        "sum_list (map unat ts) \<le> unat (n - ?slice)" "250 * length ts \<le> unat (n - ?slice) + 249"
      by auto
    have "n - ?slice = 0 \<Longrightarrow> ts = []" using ts(2,3) by (cases ts) auto
    then have "250 * length (?slice # ts) \<le> unat n + 249" "sum_list (map unat (?slice # ts)) \<le> unat n"
      using ts(2,3) u by auto
    moreover have "\<exists>ts' \<in> {[], [?slice], ?slice # ts}.
        srv_waits (snd (wait_annce_loop E V n st)) = srv_waits st @ ts'"
      using wait_loop_turn [OF False, of E V st]
      by (elim disjE exE conjE) (simp_all only: snd_conv ts(1) one, simp_all)
    ultimately show ?thesis using u by auto
  qed
qed

section \<open>Properties\<close>

lemma serve_client_eq:
  assumes "serve_loop E V (mk_engine s) (st\<lparr>s_client_fd := fd\<rparr>) = (e, st')"
  shows "serve_client E V fd s st = (eng_fd e, st'\<lparr>s_client_fd := -1\<rparr>)"
  using assms by (simp add: serve_client_def)

lemma mk_engine_simps [simp]: "eng_fd (mk_engine s) = s"
  by (simp add: mk_engine_def)

text \<open>A whole session of valid requests.\<close>

lemma serve_session:
  assumes "\<forall>t. ppp_up V t" "wx_ok (wx s)" "rx_stream (rx s) = concat (map request_frame rs)"
    and "exec_requests E V rs (st\<lparr>s_client_fd := fd\<rparr>) = (replies, st')"
  shows "\<exists>s'. serve_client E V fd s st = (s', (snd (poll_ppp V st'))\<lparr>s_client_fd := -1\<rparr>) \<and>
           sent s' = sent s @ replies"
proof -
  have "\<exists>e'. serve_loop E V (mk_engine s) (st\<lparr>s_client_fd := fd\<rparr>) = serve_loop E V e' st' \<and>
      sent (eng_fd e') = sent s @ replies \<and> rx_stream (rx (eng_fd e')) = []"
    using serve_loop_prefix [OF assms(1), of "mk_engine s" rs "[]" E "st\<lparr>s_client_fd := fd\<rparr>"] assms by auto
  then obtain e' where e': "serve_loop E V (mk_engine s) (st\<lparr>s_client_fd := fd\<rparr>) = serve_loop E V e' st'"
      "sent (eng_fd e') = sent s @ replies" "rx_stream (rx (eng_fd e')) = []" by blast
  obtain es where "serve_loop E V e' st' =
      (e'\<lparr>last_error := Err_none, eng_fd := (eng_fd e')\<lparr>rx := es\<rparr>\<rparr>, snd (poll_ppp V st'))"
    using serve_loop_eof [OF e'(3), of E V st'] assms(1) by auto
  with e' show ?thesis by (simp add: serve_client_eq)
qed

text \<open>
  C2: over a healthy link, a client that sends any sequence of valid requests, cut into reads in
  any way, and then closes gets exactly one response frame per request, in order; every handler
  runs exactly once, on the request that was sent, and nothing else changes the server.
\<close>

theorem serve_client_requests:
  assumes "\<forall>t. ppp_up V t" "wx_ok (wx s)" "rx_stream (rx s) = concat (map request_frame rs)"
    and "exec_requests E V rs (st\<lparr>s_client_fd := fd\<rparr>) = (replies, st')"
  shows "\<exists>s'. serve_client E V fd s st = (s', (snd (poll_ppp V st'))\<lparr>s_client_fd := -1\<rparr>) \<and>
           sent s' = sent s @ replies"
  using assms by (rule serve_session)

definition lab_srv :: "zb_event list list \<Rightarrow> rpc_server" where
  "lab_srv ws = \<lparr>srv_stack = lab_stack ws, s_client_fd = -1, srv_clock = 0, srv_open = []\<rparr>"

definition lab_link :: srv_env where
  "lab_link = \<lparr>ppp_up = (\<lambda>_. True), peek_at = (\<lambda>_. Peek_again)\<rparr>"

definition chunked :: "bytes \<Rightarrow> sock" where
  "chunked bs = \<lparr>rx = [Rx_data (take 5 bs), Rx_eintr, Rx_data (drop 5 bs)], wx = [Wx_accept 3, Wx_eintr], sent = []\<rparr>"

lemma chunked_simps [simp]:
  "5 < length bs \<Longrightarrow> rx_stream (rx (chunked bs)) = bs" "wx_ok (wx (chunked bs))" "sent (chunked bs) = []"
  "ppp_up lab_link t"
  by (auto simp: chunked_def lab_link_def)

theorem serve_client_requests_witness:
  "sent (fst (serve_client lab_env lab_link 54
      (chunked (request_frame Rq_get_panid @ request_frame Rq_get_channel)) (lab_srv []))) =
     [0x52, 0x50, 0x43, 0x32, 2, 0, 0, 0, 2, 0, 0, 0, 0x62, 0x1A, 0x52, 0x50, 0x43, 0x32, 3, 0, 0, 0, 1, 0, 0, 0, 13]"
proof -
  let ?rs = "[Rq_get_panid, Rq_get_channel]"
  let ?st = "(lab_srv [])\<lparr>s_client_fd := 54\<rparr>"
  have "fst (exec_requests lab_env lab_link ?rs ?st) =
     [0x52, 0x50, 0x43, 0x32, 2, 0, 0, 0, 2, 0, 0, 0, 0x62, 0x1A, 0x52, 0x50, 0x43, 0x32, 3, 0, 0, 0, 1, 0, 0, 0, 13]"
    by (simp add: run_handler_def handle_defs on_stack_def zigbee_get_panid_def zigbee_get_channel_def Let_def
        lab_env_def with_freertos_def frame_def frame_header_bytes_def wire_header_bytes_def payload_bytes_def
        payload_size_def wire_defs to_le32_def to_le16_def k_magic_def)
  then show ?thesis
    using serve_client_requests [where V = lab_link and rs = ?rs and E = lab_env and fd = 54 and st = "lab_srv []" and
        s = "chunked (concat (map request_frame ?rs))", OF _ _ _ prod.collapse [symmetric]]
    by (auto simp: request_bytes_def frame_def simp del: exec_requests.simps)
qed

text \<open>
  C3: a frame whose header is not an acceptable request (wrong magic, more than 64 bytes announced,
  unknown identifier, or a payload size other than the procedure's) is answered by exactly one
  error frame with the matching code after the responses of the requests before it; no handler
  runs for it and the connection is served no further.
\<close>

theorem serve_client_rejects:
  assumes "\<forall>t. ppp_up V t" "wx_ok (wx s)"
    and "rx_stream (rx s) = concat (map request_frame rs) @ wire_header_bytes h @ rest"
    and "header_error h = Some c" "c = Unknown_api \<longrightarrow> unat (from_le32 (wh_size h)) \<le> length rest"
    and "exec_requests E V rs (st\<lparr>s_client_fd := fd\<rparr>) = (replies, st')"
  shows "\<exists>s'. serve_client E V fd s st = (s', (snd (poll_ppp V st'))\<lparr>s_client_fd := -1\<rparr>) \<and>
           sent s' = sent s @ replies @ error_frame c"
proof -
  have "\<exists>e'. serve_loop E V (mk_engine s) (st\<lparr>s_client_fd := fd\<rparr>) = serve_loop E V e' st' \<and>
      sent (eng_fd e') = sent s @ replies \<and> rx_stream (rx (eng_fd e')) = wire_header_bytes h @ rest \<and>
      wx_ok (wx (eng_fd e'))"
    using serve_loop_prefix [OF assms(1), of "mk_engine s" rs _ E "st\<lparr>s_client_fd := fd\<rparr>"] assms by auto
  then obtain e' where e': "serve_loop E V (mk_engine s) (st\<lparr>s_client_fd := fd\<rparr>) = serve_loop E V e' st'"
      "sent (eng_fd e') = sent s @ replies"
    and bad: "rx_stream (rx (eng_fd e')) = wire_header_bytes h @ rest" "wx_ok (wx (eng_fd e'))" by blast
  obtain e'' where "serve_loop E V e' st' = (e'', snd (poll_ppp V st'))"
      "sent (eng_fd e'') = sent (eng_fd e') @ error_frame c"
    using serve_loop_rejects [OF _ bad(2,1) assms(4,5)] assms(1) by blast
  with e' show ?thesis by (simp add: serve_client_eq)
qed

theorem serve_client_rejects_witness:
  "sent (fst (serve_client lab_env lab_link 54
      (chunked (wire_header_bytes \<lparr>wh_magic = to_le32 k_magic, wh_id = to_le32 99, wh_size = to_le32 2\<rparr> @ [7, 7]))
      (lab_srv []))) = error_frame Unknown_api"
  using serve_client_rejects [where V = lab_link and rs = "[]" and E = lab_env and fd = 54 and st = "lab_srv []" and
      s = "chunked (wire_header_bytes \<lparr>wh_magic = to_le32 k_magic, wh_id = to_le32 99, wh_size = to_le32 2\<rparr> @ [7, 7])"
      and h = "\<lparr>wh_magic = to_le32 k_magic, wh_id = to_le32 99, wh_size = to_le32 2\<rparr>" and rest = "[7, 7]"
      and c = Unknown_api, OF _ _ _ _ _ prod.collapse [symmetric]]
  by (auto simp: header_error_def k_max_payload_def request_size_def request_sizes_def wire_header_size_def)

text \<open>
  C16: whatever requests a client makes and whatever callbacks run meanwhile, the server gives the
  Zigbee lock back as often as it takes it, and never holds it while it waits for a callback.
\<close>

theorem requests_lock_kept:
  "lock_kept (srv_stack st) (srv_stack (snd (exec_requests E V rs st)))"
  by (rule lock_step.exec_requests_step)



text \<open>
  The announcement wait blocks for at most 180000 ms in total, in at most 720 slices, however
  the link, the client and the Zigbee callbacks behave.
\<close>

lemma wait_annce_bounded:
  "\<exists>ts. srv_waits (snd (handle_wait_annce E V st)) = srv_waits st @ ts \<and>
     sum_list (map unat ts) \<le> 180000 \<and> length ts \<le> 720"
  using wait_loop_waits [of E V k_annce_timeout_ms st]
  by (auto simp: handle_wait_annce_def case_prod_beta Let_def k_annce_timeout_ms_def)

end
