(* ===== verification/Zigbee_Rpc.thy ===== *)
theory Zigbee_Rpc
  imports Engine Stack_Props
begin

text \<open>
  The client's implementation of the Zigbee API, \<^verbatim>\<open>zb_rpc_client/include/zigbee_api.h\<close>: every
  function checks that a connection is attached, makes one remote call and converts the response.
  The functions carry the prefix \<open>rpc_\<close> here, because the header deliberately reuses the names of
  the firmware's API.  The client state is the global \<open>g_fd\<close> and the open sockets by descriptor;
  an \<open>Engine\<close> object lives for one call, so its error field is dropped afterwards.
\<close>

section \<open>Connection state\<close>

record rpc_client =
  g_fd :: int
  cl_socks :: "int \<Rightarrow> sock"

definition k_invalid_short_addr :: u16 where
  "k_invalid_short_addr = 0xFFFF"

definition attach :: "int \<Rightarrow> rpc_client \<Rightarrow> bool \<times> rpc_client" where
  "attach fd c = (0 \<le> fd, c\<lparr>g_fd := fd\<rparr>)"

definition detach :: "rpc_client \<Rightarrow> rpc_client" where
  "detach c = c\<lparr>g_fd := -1\<rparr>"

definition attached :: "rpc_client \<Rightarrow> bool" where
  "attached c = (0 \<le> g_fd c)"

definition rpc_engine :: "rpc_client \<Rightarrow> engine" where
  "rpc_engine c = mk_engine (cl_socks c (g_fd c))"

definition to_wire :: "u16 \<Rightarrow> u8 \<Rightarrow> zb_addr_t" where
  "to_wire short_addr ep = \<lparr>za_err = to_le32_s 0, za_short_addr = to_le16 short_addr, za_ep = ep\<rparr>"

text \<open>\<open>Engine engine = zigbee_rpc::engine(); ... call(engine, ...)\<close>\<close>

definition with_engine :: "(engine \<Rightarrow> 'a \<times> engine) \<Rightarrow> rpc_client \<Rightarrow> 'a \<times> rpc_client" where
  "with_engine f c =
     (let (x, e) = f (rpc_engine c) in (x, c\<lparr>cl_socks := (cl_socks c)(g_fd c := eng_fd e)\<rparr>))"

section \<open>The API functions\<close>

definition rpc_zigbee_get_short_addr :: "rpc_client \<Rightarrow> u16 \<times> rpc_client" where
  "rpc_zigbee_get_short_addr c =
     (if \<not> attached c then (0, c)
      else case with_engine (call_empty desc_get_short_addr) c of
             (None, c') \<Rightarrow> (0, c')
           | (Some response, c') \<Rightarrow> (from_le16 (u16_value response), c'))"

definition rpc_zigbee_get_panid :: "rpc_client \<Rightarrow> u16 \<times> rpc_client" where
  "rpc_zigbee_get_panid c =
     (if \<not> attached c then (0, c)
      else case with_engine (call_empty desc_get_panid) c of
             (None, c') \<Rightarrow> (0, c')
           | (Some response, c') \<Rightarrow> (from_le16 (u16_value response), c'))"

definition rpc_zigbee_get_channel :: "rpc_client \<Rightarrow> u8 \<times> rpc_client" where
  "rpc_zigbee_get_channel c =
     (if \<not> attached c then (0, c)
      else case with_engine (call_empty desc_get_channel) c of
             (None, c') \<Rightarrow> (0, c')
           | (Some response, c') \<Rightarrow> (u8_value response, c'))"

definition rpc_zigbee_get_sensor_addr :: "rpc_client \<Rightarrow> u16 \<times> rpc_client" where
  "rpc_zigbee_get_sensor_addr c =
     (if \<not> attached c then (k_invalid_short_addr, c)
      else case with_engine (call_empty desc_get_sensor_addr) c of
             (None, c') \<Rightarrow> (k_invalid_short_addr, c')
           | (Some response, c') \<Rightarrow> (from_le16 (u16_value response), c'))"

definition rpc_zigbee_open_network :: "u8 \<Rightarrow> rpc_client \<Rightarrow> int \<times> rpc_client" where
  "rpc_zigbee_open_network duration c =
     (if \<not> attached c then (-1, c)
      else case with_engine (call desc_open_network \<lparr>on_duration = duration\<rparr>) c of
             (None, c') \<Rightarrow> (-1, c')
           | (Some response, c') \<Rightarrow> (from_le32_s (i32_value response), c'))"

definition rpc_zigbee_wait_annce :: "u32 \<Rightarrow> rpc_client \<Rightarrow> u16 \<times> rpc_client" where
  "rpc_zigbee_wait_annce timeout_ms c =
     (if \<not> attached c then (0, c)
      else case with_engine (call_empty desc_wait_annce) c of
             (None, c') \<Rightarrow> (0, c')
           | (Some response, c') \<Rightarrow> (from_le16 (u16_value response), c'))"

definition rpc_zigbee_find_sensor :: "u16 \<Rightarrow> u32 \<Rightarrow> rpc_client \<Rightarrow> zigbee_addr_t \<times> rpc_client" where
  "rpc_zigbee_find_sensor short_addr timeout_ms c =
     (let out = \<lparr>ad_err = -1, ad_short_addr = 0, ad_ep = 0\<rparr>
      in if \<not> attached c then (out, c)
         else case with_engine (call desc_find_sensor \<lparr>fs_short_addr = to_le16 short_addr\<rparr>) c of
                (None, c') \<Rightarrow> (out, c')
              | (Some response, c') \<Rightarrow>
                  (\<lparr>ad_err = from_le32_s (za_err response),
                    ad_short_addr = from_le16 (za_short_addr response), ad_ep = za_ep response\<rparr>, c'))"

definition rpc_zigbee_read_basic :: "u16 \<Rightarrow> u8 \<Rightarrow> u32 \<Rightarrow> rpc_client \<Rightarrow> zigbee_basic_t \<times> rpc_client" where
  "rpc_zigbee_read_basic short_addr ep timeout_ms c =
     (let out = \<lparr>ba_err = -1, ba_manufacturer = replicate 16 0, ba_model = replicate 16 0\<rparr>
      in if \<not> attached c then (out, c)
         else case with_engine (call desc_read_basic (to_wire short_addr ep)) c of
                (None, c') \<Rightarrow> (out, c')
              | (Some response, c') \<Rightarrow>
                  (\<lparr>ba_err = from_le32_s (zb_err response),
                    ba_manufacturer = take 16 (zb_manufacturer response),
                    ba_model = take 16 (zb_model response)\<rparr>, c'))"

definition rpc_zigbee_bind_sensor :: "u16 \<Rightarrow> u8 \<Rightarrow> u32 \<Rightarrow> rpc_client \<Rightarrow> int \<times> rpc_client" where
  "rpc_zigbee_bind_sensor short_addr ep timeout_ms c =
     (if \<not> attached c then (-1, c)
      else case with_engine (call desc_bind_sensor (to_wire short_addr ep)) c of
             (None, c') \<Rightarrow> (-1, c')
           | (Some response, c') \<Rightarrow> (from_le32_s (i32_value response), c'))"

definition rpc_zigbee_subscribe_sensor :: "u16 \<Rightarrow> u8 \<Rightarrow> u32 \<Rightarrow> rpc_client \<Rightarrow> int \<times> rpc_client" where
  "rpc_zigbee_subscribe_sensor short_addr ep timeout_ms c =
     (if \<not> attached c then (-1, c)
      else case with_engine (call desc_subscribe_sensor (to_wire short_addr ep)) c of
             (None, c') \<Rightarrow> (-1, c')
           | (Some response, c') \<Rightarrow> (from_le32_s (i32_value response), c'))"

definition rpc_zigbee_config_report :: "u16 \<Rightarrow> u8 \<Rightarrow> u32 \<Rightarrow> rpc_client \<Rightarrow> int \<times> rpc_client" where
  "rpc_zigbee_config_report short_addr ep timeout_ms c =
     (if \<not> attached c then (-1, c)
      else case with_engine (call desc_config_report (to_wire short_addr ep)) c of
             (None, c') \<Rightarrow> (-1, c')
           | (Some response, c') \<Rightarrow> (from_le32_s (i32_value response), c'))"

definition rpc_zigbee_read_temp :: "u16 \<Rightarrow> u8 \<Rightarrow> u32 \<Rightarrow> rpc_client \<Rightarrow> zigbee_temp_t \<times> rpc_client" where
  "rpc_zigbee_read_temp short_addr ep timeout_ms c =
     (let out = \<lparr>te_err = -1, te_measured = 0, te_min_measured = 0, te_max_measured = 0, te_tolerance = 0\<rparr>
      in if \<not> attached c then (out, c)
         else case with_engine (call desc_read_temp (to_wire short_addr ep)) c of
                (None, c') \<Rightarrow> (out, c')
              | (Some response, c') \<Rightarrow>
                  (\<lparr>te_err = from_le32_s (zt_err response), te_measured = from_le16_s (zt_measured response),
                    te_min_measured = from_le16_s (zt_min_measured response),
                    te_max_measured = from_le16_s (zt_max_measured response),
                    te_tolerance = from_le16_s (zt_tolerance response)\<rparr>, c'))"

definition rpc_zigbee_get_last_temp :: "rpc_client \<Rightarrow> int \<times> rpc_client" where
  "rpc_zigbee_get_last_temp c =
     (if \<not> attached c then (0, c)
      else case with_engine (call_empty desc_get_last_temp) c of
             (None, c') \<Rightarrow> (0, c')
           | (Some response, c') \<Rightarrow> (from_le16_s (i16_value response), c'))"

lemmas rpc_api_defs =
  rpc_zigbee_get_short_addr_def rpc_zigbee_get_panid_def rpc_zigbee_get_channel_def
  rpc_zigbee_get_sensor_addr_def rpc_zigbee_open_network_def rpc_zigbee_wait_annce_def
  rpc_zigbee_find_sensor_def rpc_zigbee_read_basic_def rpc_zigbee_bind_sensor_def
  rpc_zigbee_subscribe_sensor_def rpc_zigbee_config_report_def rpc_zigbee_read_temp_def
  rpc_zigbee_get_last_temp_def

section \<open>The connection during a call\<close>

abbreviation conn :: "rpc_client \<Rightarrow> sock" where
  "conn c \<equiv> cl_socks c (g_fd c)"

text \<open>
  \<open>exchanged c q rest c'\<close>: the client has sent the bytes \<open>q\<close> and still has \<open>rest\<close> to read.
\<close>

definition exchanged :: "rpc_client \<Rightarrow> bytes \<Rightarrow> bytes \<Rightarrow> rpc_client \<Rightarrow> bool" where
  "exchanged c q rest c' = (g_fd c' = g_fd c \<and> sent (conn c') = sent (conn c) @ q \<and>
     rx_stream (rx (conn c')) = rest \<and> wx_ok (wx (conn c')))"

context rpc_entry begin

lemma remote_call:
  assumes "wx_ok (wx (conn c))" "wt_valid (desc_resp D) v"
    and "rx_stream (rx (conn c)) = frame (api_value (desc_id D)) (desc_resp D) v @ rest"
  obtains c' where "with_engine (call D request) c = (Some v, c')"
    and "exchanged c (frame (api_value (desc_id D)) (desc_req D) request) rest c'"
proof -
  have "wx_ok (wx (eng_fd (rpc_engine c)))" "rx_stream (rx (eng_fd (rpc_engine c))) =
      frame (api_value (desc_id D)) (desc_resp D) v @ rest"
    using assms by (simp_all add: rpc_engine_def mk_engine_def)
  then obtain s where "call D request (rpc_engine c) = (Some v, \<lparr>eng_fd = s, last_error = Err_none\<rparr>)"
    "sent s = sent (eng_fd (rpc_engine c)) @ frame (api_value (desc_id D)) (desc_req D) request"
    "rx_stream (rx s) = rest" "wx_ok (wx s)"
    using call_ok [OF _ assms(2), where request = request] by blast
  then show thesis
    by (intro that [of "c\<lparr>cl_socks := (cl_socks c)(g_fd c := s)\<rparr>"])
      (simp_all add: with_engine_def exchanged_def rpc_engine_def mk_engine_def)
qed

text \<open>A refused call: the answer is an error frame, and the connection is left at its end.\<close>

lemma remote_call_error:
  assumes "wx_ok (wx (conn c))"
    and "rx_stream (rx (conn c)) = frame (api_value Api_error) ErrorResp_type err @ rest"
  obtains c' where "with_engine (call D request) c = (None, c')"
    and "exchanged c (frame (api_value (desc_id D)) (desc_req D) request) rest c'"
proof -
  let ?e = "rpc_engine c" and ?i = "api_value (desc_id D)"
  have "wx_ok (wx (eng_fd ?e))"
    using assms by (simp add: rpc_engine_def mk_engine_def)
  then obtain es where s: "send (desc_req D) ?i request ?e = (True, ?e\<lparr>eng_fd :=
      (eng_fd ?e)\<lparr>sent := sent (eng_fd ?e) @ frame ?i (desc_req D) request, wx := es\<rparr>\<rparr>)" and es: "wx_ok es"
    by (rule send_ok)
  let ?e1 = "?e\<lparr>eng_fd := (eng_fd ?e)\<lparr>sent := sent (eng_fd ?e) @ frame ?i (desc_req D) request, wx := es\<rparr>\<rparr>"
  have p: "payload_size ErrorResp_type = 4" by (simp add: payload_size_def wire_defs)
  have "rx_stream (rx (eng_fd ?e1)) = frame_header_bytes (api_value Api_error) 4 @ payload_bytes ErrorResp_type err @ rest"
    using assms(2) p by (simp add: rpc_engine_def mk_engine_def frame_def)
  then obtain xs where h: "receive_header ?e1 = (Some \<lparr>fh_id = api_value Api_error, fh_size = of_nat 4\<rparr>,
      ?e1\<lparr>last_error := Err_none, eng_fd := (eng_fd ?e1)\<lparr>rx := xs\<rparr>\<rparr>)"
    and xs: "rx_stream xs = payload_bytes ErrorResp_type err @ rest"
    by (rule receive_header_frame) simp
  let ?e2 = "?e1\<lparr>last_error := Err_none, eng_fd := (eng_fd ?e1)\<lparr>rx := xs\<rparr>\<rparr>"
  have "rx_stream (rx (eng_fd ?e2)) = payload_bytes ErrorResp_type err @ rest" using xs by simp
  then obtain ys where "receive_payload ErrorResp_type \<lparr>fh_id = api_value Api_error, fh_size = of_nat 4\<rparr> ?e2 =
      (Some err, ?e2\<lparr>eng_fd := (eng_fd ?e2)\<lparr>rx := ys\<rparr>\<rparr>)" and ys: "rx_stream ys = rest"
    using ErrorResp_wire.receive_payload_ok [of ?e2 err rest, where i = "api_value Api_error"] p by auto
  with s h have "call D request ?e = (None, ?e2\<lparr>eng_fd := (eng_fd ?e2)\<lparr>rx := ys\<rparr>\<rparr>)"
    by (simp add: call_def receive_response_def)
  with ys es show thesis
    by (intro that [of "c\<lparr>cl_socks := (cl_socks c)(g_fd c := (eng_fd ?e2)\<lparr>rx := ys\<rparr>)\<rparr>"])
      (simp_all add: with_engine_def exchanged_def rpc_engine_def mk_engine_def)
qed

end

text \<open>The overload for requests without a payload.\<close>

lemma call_empty_call [simp]:
  "call_empty desc_get_short_addr = call desc_get_short_addr EmptyReq"
  "call_empty desc_get_panid = call desc_get_panid EmptyReq"
  "call_empty desc_get_channel = call desc_get_channel EmptyReq"
  "call_empty desc_wait_annce = call desc_wait_annce EmptyReq"
  "call_empty desc_get_last_temp = call desc_get_last_temp EmptyReq"
  "call_empty desc_get_sensor_addr = call desc_get_sensor_addr EmptyReq"
  by (simp_all add: fun_eq_iff call_empty_eq)

section \<open>Detached clients\<close>

lemma detached_defaults:
  assumes "g_fd c < 0"
  shows "rpc_zigbee_get_short_addr c = (0, c)" "rpc_zigbee_get_panid c = (0, c)"
    "rpc_zigbee_get_channel c = (0, c)" "rpc_zigbee_get_sensor_addr c = (k_invalid_short_addr, c)"
    "rpc_zigbee_open_network d c = (-1, c)" "rpc_zigbee_wait_annce t c = (0, c)"
    "rpc_zigbee_bind_sensor a ep t c = (-1, c)" "rpc_zigbee_subscribe_sensor a ep t c = (-1, c)"
    "rpc_zigbee_config_report a ep t c = (-1, c)" "rpc_zigbee_get_last_temp c = (0, c)"
    "ad_err (fst (rpc_zigbee_find_sensor a t c)) = -1" "ba_err (fst (rpc_zigbee_read_basic a ep t c)) = -1"
    "te_err (fst (rpc_zigbee_read_temp a ep t c)) = -1"
  using assms by (simp_all add: rpc_api_defs attached_def)

end
