(* ===== verification/Thermostat_App.thy ===== *)
theory Thermostat_App
  imports Zigbee_Stack "HOL-Library.State_Monad" "HOL-Library.Monad_Syntax"
begin

text \<open>
  The portable application sequence \<^verbatim>\<open>zb_rpc_client/include/thermostat_app.hpp\<close>.  The file uses
  only the functions of \<^verbatim>\<open>zigbee_api.h\<close> and the macros \<open>ZB_APP_LOG\<close> and \<open>ZB_APP_SLEEP_MS\<close>, whoever
  provides them: they are the record \<open>zigbee_api\<close> of state-monad operations, and \<open>run\<close> is
  written against it.  Log lines are values that carry the printed arguments (temperatures as
  the hundredths of a degree the float is computed from).
\<close>

section \<open>The interface\<close>

datatype app_log =
    Log_no_cache_api
  | Log_trying_known u16 u8 u16
  | Log_reusing u16 u8
  | Log_known_silent
  | Log_open_failed int
  | Log_open u16 u8
  | Log_annce_timeout
  | Log_commissioned u16
  | Log_find u16
  | Log_find_failed int
  | Log_read_basic u16 u8
  | Log_basic_failed int
  | Log_model bytes
  | Log_manufacturer bytes
  | Log_bind u16 u8
  | Log_bind_failed int
  | Log_bound u16 u8
  | Log_subscribe u16 u8
  | Log_subscribe_failed int
  | Log_subscribed u16 u8
  | Log_configure
  | Log_configure_failed int
  | Log_last_temp int
  | Log_temp_failed int
  | Log_attrs
  | Log_measured int
  | Log_min_measured int
  | Log_max_measured int

record 's zigbee_api =
  api_get_panid :: "('s, u16) state"
  api_get_channel :: "('s, u8) state"
  api_get_sensor_addr :: "('s, u16) state"
  api_open_network :: "u8 \<Rightarrow> ('s, int) state"
  api_wait_annce :: "u32 \<Rightarrow> ('s, u16) state"
  api_find_sensor :: "u16 \<Rightarrow> u32 \<Rightarrow> ('s, zigbee_addr_t) state"
  api_read_basic :: "u16 \<Rightarrow> u8 \<Rightarrow> u32 \<Rightarrow> ('s, zigbee_basic_t) state"
  api_bind_sensor :: "u16 \<Rightarrow> u8 \<Rightarrow> u32 \<Rightarrow> ('s, int) state"
  api_subscribe_sensor :: "u16 \<Rightarrow> u8 \<Rightarrow> u32 \<Rightarrow> ('s, int) state"
  api_config_report :: "u16 \<Rightarrow> u8 \<Rightarrow> u32 \<Rightarrow> ('s, int) state"
  api_read_temp :: "u16 \<Rightarrow> u8 \<Rightarrow> u32 \<Rightarrow> ('s, zigbee_temp_t) state"
  api_get_last_temp :: "('s, int) state"
  app_log :: "app_log \<Rightarrow> ('s, unit) state"
  app_sleep_ms :: "nat \<Rightarrow> ('s, unit) state"

section \<open>The sequence\<close>

definition k_request_timeout_ms :: u32 where
  "k_request_timeout_ms = 15000"

definition k_app_annce_timeout_ms :: u32 where
  "k_app_annce_timeout_ms = 180000"

definition k_open_network_seconds :: u8 where
  "k_open_network_seconds = 180"

definition k_app_invalid_short_addr :: u16 where
  "k_app_invalid_short_addr = 0xFFFF"

datatype Result = Success | Failure | Retry_without_cache

definition print_temp_attrs :: "'s zigbee_api \<Rightarrow> zigbee_temp_t \<Rightarrow> ('s, unit) state" where
  "print_temp_attrs api attrs = do {
     app_log api Log_attrs;
     app_log api (Log_measured (te_measured attrs));
     app_log api (Log_min_measured (te_min_measured attrs));
     app_log api (Log_max_measured (te_max_measured attrs))
   }"

text \<open>
  The three stages of \<open>run\<close>.  A stage that returns from \<open>run\<close> gives \<open>Inl\<close> of the result, otherwise
  \<open>Inr\<close> of the variables the next stage uses.
\<close>

definition no_sensor :: zigbee_addr_t where
  "no_sensor = \<lparr>ad_err = 0, ad_short_addr = 0, ad_ep = 0\<rparr>"

definition try_cached_sensor ::
    "'s zigbee_api \<Rightarrow> bool \<Rightarrow> u16 \<Rightarrow> u8 \<Rightarrow> ('s, Result + zigbee_addr_t \<times> bool) state" where
  "try_cached_sensor api probe_cached_sensor panid channel =
     (if probe_cached_sensor \<and> panid \<noteq> 0
      then do {
        known \<leftarrow> api_get_sensor_addr api;
        if known = k_app_invalid_short_addr
        then do { app_log api Log_no_cache_api; State_Monad.return (Inl Retry_without_cache) }
        else if known \<noteq> 0
        then do {
          app_log api (Log_trying_known panid channel known);
          sensor \<leftarrow> api_find_sensor api known k_request_timeout_ms;
          if ad_err sensor = 0
          then do {
            app_log api (Log_reusing (ad_short_addr sensor) (ad_ep sensor));
            State_Monad.return (Inr (sensor, True))
          }
          else do { app_log api Log_known_silent; State_Monad.return (Inr (sensor, False)) }
        }
        else State_Monad.return (Inr (no_sensor, False))
      }
      else State_Monad.return (Inr (no_sensor, False)))"

primrec report_loop :: "'s zigbee_api \<Rightarrow> nat \<Rightarrow> ('s, unit) state" where
  "report_loop api 0 = State_Monad.return ()"
| "report_loop api (Suc n) = do {
     last \<leftarrow> api_get_last_temp api;
     app_log api (Log_last_temp last);
     app_sleep_ms api 2000;
     report_loop api n
   }"

definition join_sensor :: "'s zigbee_api \<Rightarrow> u16 \<Rightarrow> ('s, Result + zigbee_addr_t) state" where
  "join_sensor api panid = do {
     open_status \<leftarrow> api_open_network api k_open_network_seconds;
     if open_status \<noteq> 0
     then do { app_log api (Log_open_failed open_status); State_Monad.return (Inl Failure) }
     else do {
       app_log api (Log_open panid k_open_network_seconds);
       peer \<leftarrow> api_wait_annce api k_app_annce_timeout_ms;
       if peer = 0
       then do { app_log api Log_annce_timeout; State_Monad.return (Inl Failure) }
       else do {
         app_log api (Log_commissioned peer);
         app_log api (Log_find peer);
         sensor \<leftarrow> api_find_sensor api peer k_request_timeout_ms;
         if ad_err sensor \<noteq> 0
         then do { app_log api (Log_find_failed (ad_err sensor)); State_Monad.return (Inl Failure) }
         else State_Monad.return (Inr sensor)
       }
     }
   }"

definition setup_reports :: "'s zigbee_api \<Rightarrow> u16 \<Rightarrow> u8 \<Rightarrow> ('s, Result + unit) state" where
  "setup_reports api addr ep = do {
     app_log api (Log_bind addr ep);
     bind_status \<leftarrow> api_bind_sensor api addr ep k_request_timeout_ms;
     if bind_status \<noteq> 0
     then do { app_log api (Log_bind_failed bind_status); State_Monad.return (Inl Failure) }
     else do {
       app_log api (Log_bound addr ep);
       app_log api (Log_subscribe addr ep);
       subscribe_status \<leftarrow> api_subscribe_sensor api addr ep k_request_timeout_ms;
       if subscribe_status \<noteq> 0
       then do { app_log api (Log_subscribe_failed subscribe_status); State_Monad.return (Inl Failure) }
       else do {
         app_log api (Log_subscribed addr ep);
         app_log api Log_configure;
         report_status \<leftarrow> api_config_report api addr ep k_request_timeout_ms;
         if report_status \<noteq> 0
         then do { app_log api (Log_configure_failed report_status); State_Monad.return (Inl Failure) }
         else do { report_loop api 5; State_Monad.return (Inr ()) }
       }
     }
   }"

definition commission :: "'s zigbee_api \<Rightarrow> u16 \<Rightarrow> ('s, Result + zigbee_addr_t) state" where
  "commission api panid = do {
     joined \<leftarrow> join_sensor api panid;
     case joined of
       Inl r \<Rightarrow> State_Monad.return (Inl r)
     | Inr sensor \<Rightarrow> do {
         app_log api (Log_read_basic (ad_short_addr sensor) (ad_ep sensor));
         basic \<leftarrow> api_read_basic api (ad_short_addr sensor) (ad_ep sensor) k_request_timeout_ms;
         if ba_err basic \<noteq> 0
         then do { app_log api (Log_basic_failed (ba_err basic)); State_Monad.return (Inl Failure) }
         else do {
           app_log api (Log_model (ba_model basic));
           app_log api (Log_manufacturer (ba_manufacturer basic));
           done \<leftarrow> setup_reports api (ad_short_addr sensor) (ad_ep sensor);
           case done of
             Inl r \<Rightarrow> State_Monad.return (Inl r)
           | Inr _ \<Rightarrow> State_Monad.return (Inr sensor)
         }
       }
   }"

definition read_out :: "'s zigbee_api \<Rightarrow> zigbee_addr_t \<Rightarrow> ('s, Result) state" where
  "read_out api sensor = do {
     attrs \<leftarrow> api_read_temp api (ad_short_addr sensor) (ad_ep sensor) k_request_timeout_ms;
     if te_err attrs \<noteq> 0
     then do { app_log api (Log_temp_failed (te_err attrs)); State_Monad.return Failure }
     else do { print_temp_attrs api attrs; State_Monad.return Success }
   }"

definition run :: "'s zigbee_api \<Rightarrow> bool \<Rightarrow> ('s, Result) state" where
  "run api probe_cached_sensor = do {
     panid \<leftarrow> api_get_panid api;
     channel \<leftarrow> api_get_channel api;
     cached \<leftarrow> try_cached_sensor api probe_cached_sensor panid channel;
     case cached of
       Inl r \<Rightarrow> State_Monad.return r
     | Inr (sensor, reused_sensor) \<Rightarrow>
         if reused_sensor then read_out api sensor
         else do {
           commissioned \<leftarrow> commission api panid;
           case commissioned of
             Inl r \<Rightarrow> State_Monad.return r
           | Inr found \<Rightarrow> read_out api found
         }
   }"

section \<open>Simulation between two providers of the API\<close>

text \<open>
  \<open>sim le D R f g\<close>: whenever the run of \<open>f\<close> ends in a state that \<open>D\<close> still extends, \<open>g\<close> gives the same
  result from every related state and ends in a related state.  \<open>D\<close> is the state in which the
  whole run ends: relations may speak about what is still to come.
\<close>

definition sim ::
    "('t \<Rightarrow> 't \<Rightarrow> bool) \<Rightarrow> 't \<Rightarrow> ('t \<Rightarrow> 's \<Rightarrow> bool) \<Rightarrow> ('t, 'a) state \<Rightarrow> ('s, 'a) state \<Rightarrow> bool" where
  "sim le D R f g = (\<forall>d v d'. run_state f d = (v, d') \<longrightarrow> le d d' \<and>
     (le d' D \<longrightarrow> (\<forall>c. R d c \<longrightarrow> (\<exists>c'. run_state g c = (v, c') \<and> R d' c'))))"

lemma simI:
  assumes "\<And>d v d'. run_state f d = (v, d') \<Longrightarrow> le d d'"
    and "\<And>d v d' c. run_state f d = (v, d') \<Longrightarrow> le d' D \<Longrightarrow> R d c \<Longrightarrow> \<exists>c'. run_state g c = (v, c') \<and> R d' c'"
  shows "sim le D R f g"
  using assms by (simp add: sim_def)

lemma sim_le: "sim le D R f g \<Longrightarrow> run_state f d = (v, d') \<Longrightarrow> le d d'"
  by (simp add: sim_def)

lemma sim_step:
  "sim le D R f g \<Longrightarrow> run_state f d = (v, d') \<Longrightarrow> le d' D \<Longrightarrow> R d c \<Longrightarrow>
   \<exists>c'. run_state g c = (v, c') \<and> R d' c'"
  by (simp add: sim_def)

lemma run_state_bind_eq:
  "run_state (State_Monad.bind f h) d = (case run_state f d of (x, d') \<Rightarrow> run_state (h x) d')"
  by (cases f) (simp add: State_Monad.bind_def split: prod.splits)

lemma sim_bind:
  assumes tr: "\<And>x y z. le x y \<Longrightarrow> le y z \<Longrightarrow> le x z"
    and f: "sim le D R f g" and h: "\<And>x. sim le D R (h x) (k x)"
  shows "sim le D R (State_Monad.bind f h) (State_Monad.bind g k)"
proof (rule simI)
  fix d v d'
  assume "run_state (State_Monad.bind f h) d = (v, d')"
  then obtain x d1 where 1: "run_state f d = (x, d1)" and 2: "run_state (h x) d1 = (v, d')"
    by (auto simp: run_state_bind_eq split: prod.splits)
  show "le d d'" by (rule tr [OF sim_le [OF f 1] sim_le [OF h 2]])
  show "\<exists>c'. run_state (State_Monad.bind g k) c = (v, c') \<and> R d' c'" if D: "le d' D" and R: "R d c" for c
  proof -
    have "le d1 D" using sim_le [OF h 2] D by (rule tr)
    from sim_step [OF f 1 this R] obtain c1 where c1: "run_state g c = (x, c1)" "R d1 c1" by blast
    from sim_step [OF h 2 D c1(2)] c1(1) show ?thesis by (auto simp: run_state_bind_eq)
  qed
qed

lemma sim_return: "(\<And>x. le x x) \<Longrightarrow> sim le D R (State_Monad.return v) (State_Monad.return v)"
  by (simp add: sim_def State_Monad.return_def)

text \<open>
  Two providers whose operations simulate each other for the arguments the application passes:
  then the whole application does.
\<close>

locale api_sim =
  fixes A :: "'t zigbee_api" and B :: "'s zigbee_api" and le :: "'t \<Rightarrow> 't \<Rightarrow> bool" and D :: 't
    and R :: "'t \<Rightarrow> 's \<Rightarrow> bool"
  assumes le_refl: "le x x"
    and le_trans: "le x y \<Longrightarrow> le y z \<Longrightarrow> le x z"
    and sim_get_panid: "sim le D R (api_get_panid A) (api_get_panid B)"
    and sim_get_channel: "sim le D R (api_get_channel A) (api_get_channel B)"
    and sim_get_sensor_addr: "sim le D R (api_get_sensor_addr A) (api_get_sensor_addr B)"
    and sim_open_network: "sim le D R (api_open_network A d) (api_open_network B d)"
    and sim_wait_annce: "sim le D R (api_wait_annce A k_app_annce_timeout_ms) (api_wait_annce B k_app_annce_timeout_ms)"
    and sim_find_sensor: "sim le D R (api_find_sensor A a k_request_timeout_ms) (api_find_sensor B a k_request_timeout_ms)"
    and sim_read_basic: "sim le D R (api_read_basic A a ep k_request_timeout_ms) (api_read_basic B a ep k_request_timeout_ms)"
    and sim_bind_sensor: "sim le D R (api_bind_sensor A a ep k_request_timeout_ms) (api_bind_sensor B a ep k_request_timeout_ms)"
    and sim_subscribe_sensor:
      "sim le D R (api_subscribe_sensor A a ep k_request_timeout_ms) (api_subscribe_sensor B a ep k_request_timeout_ms)"
    and sim_config_report:
      "sim le D R (api_config_report A a ep k_request_timeout_ms) (api_config_report B a ep k_request_timeout_ms)"
    and sim_read_temp: "sim le D R (api_read_temp A a ep k_request_timeout_ms) (api_read_temp B a ep k_request_timeout_ms)"
    and sim_get_last_temp: "sim le D R (api_get_last_temp A) (api_get_last_temp B)"
    and sim_log: "sim le D R (app_log A l) (app_log B l)"
    and sim_sleep: "sim le D R (app_sleep_ms A n) (app_sleep_ms B n)"
begin

lemmas bindI = sim_bind [where le = le, OF le_trans]
lemmas returnI = sim_return [where le = le, OF le_refl]

lemmas sim_ops = sim_get_panid sim_get_channel sim_get_sensor_addr sim_open_network sim_wait_annce
  sim_find_sensor sim_read_basic sim_bind_sensor sim_subscribe_sensor sim_config_report sim_read_temp
  sim_get_last_temp sim_log sim_sleep

lemmas sim_intros = bindI returnI sim_ops

lemma sim_try_cached: "sim le D R (try_cached_sensor A p panid ch) (try_cached_sensor B p panid ch)"
  unfolding try_cached_sensor_def by (auto intro!: sim_intros)

lemma sim_report_loop: "sim le D R (report_loop A n) (report_loop B n)"
  by (induction n) (auto intro!: sim_intros)

lemma sim_join: "sim le D R (join_sensor A panid) (join_sensor B panid)"
  unfolding join_sensor_def by (auto intro!: sim_intros)

lemma sim_setup: "sim le D R (setup_reports A a ep) (setup_reports B a ep)"
  unfolding setup_reports_def by (auto intro!: sim_intros sim_report_loop)

lemma sim_commission: "sim le D R (commission A panid) (commission B panid)"
  unfolding commission_def by (auto intro!: sim_intros sim_join sim_setup split: sum.splits)

lemma sim_read_out: "sim le D R (read_out A s) (read_out B s)"
  unfolding read_out_def print_temp_attrs_def by (auto intro!: sim_intros)

theorem sim_run: "sim le D R (run A p) (run B p)"
  unfolding run_def
  by (auto intro!: sim_intros sim_try_cached sim_commission sim_read_out split: sum.splits)

end

end
