(* ===== verification/Remote.thy ===== *)
theory Remote
  imports Rpc_Server Zigbee_Rpc Thermostat_App "HOL-Library.Sublist"
begin

text \<open>
  The two ends together.  \<open>direct_api\<close> provides the application's interface by calling the
  coordinator's functions on the spot, the way the server task runs them (one poll of the link
  before each request), and records the requests and the reply bytes; \<open>rpc_api\<close> provides it by
  the client functions over a socket.  The application gives the same result, prints the same
  lines and causes the same server state either way.
\<close>

section \<open>Two providers of the API\<close>

record dev =
  dev_srv :: rpc_server
  dev_reqs :: "rpc_request list"
  dev_replies :: bytes
  dev_log :: "app_log list"

definition direct_op ::
    "zb_env \<Rightarrow> srv_env \<Rightarrow> rpc_request \<Rightarrow> (rpc_server \<Rightarrow> 'a \<times> rpc_server) \<Rightarrow> (dev, 'a) state" where
  "direct_op E V rq f = State (\<lambda>d.
     let st0 = snd (poll_ppp V (dev_srv d)); (x, st1) = f st0
     in (x, d\<lparr>dev_srv := st1, dev_reqs := dev_reqs d @ [rq],
              dev_replies := dev_replies d @ fst (exec_request E V rq st0)\<rparr>))"

definition direct_api :: "zb_env \<Rightarrow> srv_env \<Rightarrow> dev zigbee_api" where
  "direct_api E V = \<lparr>
     api_get_panid = direct_op E V Rq_get_panid (on_stack (zigbee_get_panid E)),
     api_get_channel = direct_op E V Rq_get_channel (on_stack (zigbee_get_channel E)),
     api_get_sensor_addr = direct_op E V Rq_get_sensor_addr (on_stack zigbee_get_sensor_addr),
     api_open_network = (\<lambda>d. direct_op E V (Rq_open_network \<lparr>on_duration = d\<rparr>) (on_stack (zigbee_open_network E d))),
     api_wait_annce = (\<lambda>t. direct_op E V Rq_wait_annce (wait_annce_loop E V t)),
     api_find_sensor = (\<lambda>a t. direct_op E V (Rq_find_sensor \<lparr>fs_short_addr = to_le16 a\<rparr>)
       (on_stack (zigbee_find_sensor E a t))),
     api_read_basic = (\<lambda>a ep t. direct_op E V (Rq_read_basic (to_wire a ep)) (on_stack (zigbee_read_basic E a ep t))),
     api_bind_sensor = (\<lambda>a ep t. direct_op E V (Rq_bind_sensor (to_wire a ep)) (on_stack (zigbee_bind_sensor E a ep t))),
     api_subscribe_sensor = (\<lambda>a ep t. direct_op E V (Rq_subscribe_sensor (to_wire a ep))
       (on_stack (zigbee_subscribe_sensor E a ep t))),
     api_config_report = (\<lambda>a ep t. direct_op E V (Rq_config_report (to_wire a ep))
       (on_stack (zigbee_config_report E a ep t))),
     api_read_temp = (\<lambda>a ep t. direct_op E V (Rq_read_temp (to_wire a ep)) (on_stack (zigbee_read_temp E a ep t))),
     api_get_last_temp = direct_op E V Rq_get_last_temp (on_stack zigbee_get_last_temp),
     app_log = (\<lambda>l. State (\<lambda>d. ((), d\<lparr>dev_log := dev_log d @ [l]\<rparr>))),
     app_sleep_ms = (\<lambda>n. State_Monad.return ())\<rparr>"

record app_client =
  ac_rpc :: rpc_client
  ac_log :: "app_log list"

definition rpc_op :: "(rpc_client \<Rightarrow> 'a \<times> rpc_client) \<Rightarrow> (app_client, 'a) state" where
  "rpc_op f = State (\<lambda>a. let (x, c) = f (ac_rpc a) in (x, a\<lparr>ac_rpc := c\<rparr>))"

definition rpc_api :: "app_client zigbee_api" where
  "rpc_api = \<lparr>
     api_get_panid = rpc_op rpc_zigbee_get_panid,
     api_get_channel = rpc_op rpc_zigbee_get_channel,
     api_get_sensor_addr = rpc_op rpc_zigbee_get_sensor_addr,
     api_open_network = (\<lambda>d. rpc_op (rpc_zigbee_open_network d)),
     api_wait_annce = (\<lambda>t. rpc_op (rpc_zigbee_wait_annce t)),
     api_find_sensor = (\<lambda>a t. rpc_op (rpc_zigbee_find_sensor a t)),
     api_read_basic = (\<lambda>a ep t. rpc_op (rpc_zigbee_read_basic a ep t)),
     api_bind_sensor = (\<lambda>a ep t. rpc_op (rpc_zigbee_bind_sensor a ep t)),
     api_subscribe_sensor = (\<lambda>a ep t. rpc_op (rpc_zigbee_subscribe_sensor a ep t)),
     api_config_report = (\<lambda>a ep t. rpc_op (rpc_zigbee_config_report a ep t)),
     api_read_temp = (\<lambda>a ep t. rpc_op (rpc_zigbee_read_temp a ep t)),
     api_get_last_temp = rpc_op rpc_zigbee_get_last_temp,
     app_log = (\<lambda>l. State (\<lambda>a. ((), a\<lparr>ac_log := ac_log a @ [l]\<rparr>))),
     app_sleep_ms = (\<lambda>n. State_Monad.return ())\<rparr>"

section \<open>Coupling\<close>

definition dev_le :: "dev \<Rightarrow> dev \<Rightarrow> bool" where
  "dev_le d d' = prefix (dev_replies d) (dev_replies d')"

text \<open>
  The server side has executed the recorded requests; the client has sent their frames and has
  yet to read the replies between \<open>d\<close> and the end \<open>D\<close> of the run.
\<close>

definition coupled :: "zb_env \<Rightarrow> srv_env \<Rightarrow> rpc_server \<Rightarrow> bytes \<Rightarrow> dev \<Rightarrow> dev \<Rightarrow> app_client \<Rightarrow> bool" where
  "coupled E V st0 s0 D d a = (let c = ac_rpc a in
     good (srv_stack (dev_srv d)) \<and> exec_requests E V (dev_reqs d) st0 = (dev_replies d, dev_srv d) \<and>
     attached c \<and> wx_ok (wx (conn c)) \<and>
     dev_replies D = dev_replies d @ rx_stream (rx (conn c)) \<and>
     sent (conn c) = s0 @ concat (map request_frame (dev_reqs d)) \<and> ac_log a = dev_log d)"

lemma exec_requests_snoc:
  "exec_requests E V (rs @ [r]) st =
     (let (bs, st1) = exec_requests E V rs st; (b, st2) = exec_request E V r (snd (poll_ppp V st1))
      in (bs @ b, st2))"
  by (induction rs arbitrary: st) (simp_all add: case_prod_beta Let_def)

lemma exchanged_attached: "exchanged c q rest c' \<Longrightarrow> attached c' = attached c"
  by (simp add: exchanged_def attached_def)

context rpc_entry begin

lemma sim_op:
  assumes frame: "request_frame rq = request_bytes D q"
    and exec: "exec_request E V rq = run_handler D f q"
    and client: "\<And>c c' resp. attached c \<Longrightarrow> with_engine (call D q) c = (Some resp, c') \<Longrightarrow> g c = (dec resp, c')"
    and direct: "\<And>st resp st'. good (srv_stack st) \<Longrightarrow> f q st = (resp, st') \<Longrightarrow>
      wt_valid (desc_resp D) resp \<and> h st = (dec resp, st') \<and> good (srv_stack st')"
  shows "sim dev_le Dv (coupled E V st0 s0 Dv) (direct_op E V rq h) (rpc_op g)"
proof (rule simI)
  fix d v d'
  assume r: "run_state (direct_op E V rq h) d = (v, d')"
  let ?st = "snd (poll_ppp V (dev_srv d))"
  obtain resp st' where f: "f q ?st = (resp, st')" by fastforce
  let ?b = "frame (api_value (desc_id D)) (desc_resp D) resp"
  have ex: "exec_request E V rq ?st = (?b, st')" by (simp add: exec run_handler_def f)
  show "dev_le d d'" using r by (auto simp: direct_op_def dev_le_def Let_def split: prod.splits)
  show "\<exists>a'. run_state (rpc_op g) a = (v, a') \<and> coupled E V st0 s0 Dv d' a'"
    if le: "dev_le d' Dv" and R: "coupled E V st0 s0 Dv d a" for a
  proof -
    let ?c = "ac_rpc a"
    have "good (srv_stack ?st)" using R by (simp add: coupled_def poll_ppp_def Let_def)
    from direct [OF this f] have h: "wt_valid (desc_resp D) resp" "h ?st = (dec resp, st')" "good (srv_stack st')"
      by simp_all
    have d': "v = dec resp" "d' = d\<lparr>dev_srv := st', dev_reqs := dev_reqs d @ [rq], dev_replies := dev_replies d @ ?b\<rparr>"
      using r by (auto simp: direct_op_def h ex Let_def)
    obtain rest where "dev_replies Dv = dev_replies d' @ rest" using le by (auto simp: dev_le_def prefix_def)
    then have st: "rx_stream (rx (conn ?c)) = ?b @ rest" "dev_replies Dv = dev_replies d @ ?b @ rest"
      using R d' by (auto simp: coupled_def Let_def)
    have w: "wx_ok (wx (conn ?c))" "attached ?c" using R by (simp_all add: coupled_def Let_def)
    obtain c' where c': "with_engine (call D q) ?c = (Some resp, c')" "exchanged ?c (request_bytes D q) rest c'"
      using remote_call [OF w(1) h(1) st(1), where request = q] by (auto simp: request_bytes_def)
    have "run_state (rpc_op g) a = (v, a\<lparr>ac_rpc := c'\<rparr>)"
      by (simp add: rpc_op_def client [OF w(2) c'(1)] d')
    moreover have "coupled E V st0 s0 Dv d' (a\<lparr>ac_rpc := c'\<rparr>)"
      using R c'(2) st(2) h(3) exchanged_attached [OF c'(2)]
      by (auto simp: coupled_def d' exchanged_def exec_requests_snoc ex frame Let_def)
    ultimately show ?thesis by blast
  qed
qed

end

section \<open>Every operation of the API\<close>

text \<open>The timeouts the application passes are those the server applies.\<close>

lemma timeouts_in_sync:
  "k_request_timeout_ms = k_rpc_timeout_ms" "k_app_annce_timeout_ms = k_annce_timeout_ms"
  by (simp_all add: k_request_timeout_ms_def k_rpc_timeout_ms_def k_app_annce_timeout_ms_def k_annce_timeout_ms_def)

lemma to_wire_simps [simp]: "za_short_addr (to_wire a ep) = to_le16 a" "za_ep (to_wire a ep) = ep"
  by (simp_all add: to_wire_def)

lemmas direct_simps = handle_defs on_stack_def Let_def case_prod_beta timeouts_in_sync
  zigbee_bind_sensor_def zigbee_subscribe_sensor_def

text \<open>Decoding what a handler encoded gives the stack's result back.\<close>

lemma addr_decode: "addr_ok x \<Longrightarrow> \<lparr>ad_err = from_le32_s (to_le32_s (ad_err x)), ad_short_addr = ad_short_addr x,
    ad_ep = ad_ep x\<rparr> = x"
  by (simp add: addr_ok_def)

lemma basic_decode: "basic_ok x \<Longrightarrow> \<lparr>ba_err = from_le32_s (to_le32_s (ba_err x)),
    ba_manufacturer = take 16 (ba_manufacturer x), ba_model = take 16 (ba_model x)\<rparr> = x"
  by (simp add: basic_ok_def)

lemma temp_decode: "temp_ok x \<Longrightarrow> \<lparr>te_err = from_le32_s (to_le32_s (te_err x)),
    te_measured = from_le16_s (to_le16_s (te_measured x)),
    te_min_measured = from_le16_s (to_le16_s (te_min_measured x)),
    te_max_measured = from_le16_s (to_le16_s (te_max_measured x)),
    te_tolerance = from_le16_s (to_le16_s (te_tolerance x))\<rparr> = x"
  by (simp add: temp_ok_def)

locale remote_run = typed_stack E for E +
  fixes V :: srv_env and st0 :: rpc_server and s0 :: bytes and Dv :: dev
begin

abbreviation R :: "dev \<Rightarrow> app_client \<Rightarrow> bool" where
  "R \<equiv> coupled E V st0 s0 Dv"

lemma get_panid_sim: "sim dev_le Dv R (direct_op E V (Rq_get_panid) (on_stack (zigbee_get_panid E))) (rpc_op (rpc_zigbee_get_panid))"
proof (rule get_panid_rpc.sim_op [where q = "EmptyReq" and f = "\<lambda>_. handle_get_panid E" and dec = "\<lambda>r. from_le16 (u16_value r)"])
  show "wt_valid (desc_resp desc_get_panid) resp \<and> (on_stack (zigbee_get_panid E)) st = ((\<lambda>r. from_le16 (u16_value r)) resp, st') \<and> good (srv_stack st')"
    if "good (srv_stack st)" "(\<lambda>_. handle_get_panid E) (EmptyReq) st = (resp, st')" for st resp st'
    using that by (auto simp: direct_simps getters_good)
qed (simp_all add: rpc_api_defs Let_def)

lemma get_channel_sim: "sim dev_le Dv R (direct_op E V (Rq_get_channel) (on_stack (zigbee_get_channel E))) (rpc_op (rpc_zigbee_get_channel))"
proof (rule get_channel_rpc.sim_op [where q = "EmptyReq" and f = "\<lambda>_. handle_get_channel E" and dec = "\<lambda>r. u8_value r"])
  show "wt_valid (desc_resp desc_get_channel) resp \<and> (on_stack (zigbee_get_channel E)) st = ((\<lambda>r. u8_value r) resp, st') \<and> good (srv_stack st')"
    if "good (srv_stack st)" "(\<lambda>_. handle_get_channel E) (EmptyReq) st = (resp, st')" for st resp st'
    using that by (auto simp: direct_simps getters_good)
qed (simp_all add: rpc_api_defs Let_def)

lemma get_sensor_addr_sim: "sim dev_le Dv R (direct_op E V (Rq_get_sensor_addr) (on_stack zigbee_get_sensor_addr)) (rpc_op (rpc_zigbee_get_sensor_addr))"
proof (rule get_sensor_addr_rpc.sim_op [where q = "EmptyReq" and f = "\<lambda>_. handle_get_sensor_addr" and dec = "\<lambda>r. from_le16 (u16_value r)"])
  show "wt_valid (desc_resp desc_get_sensor_addr) resp \<and> (on_stack zigbee_get_sensor_addr) st = ((\<lambda>r. from_le16 (u16_value r)) resp, st') \<and> good (srv_stack st')"
    if "good (srv_stack st)" "(\<lambda>_. handle_get_sensor_addr) (EmptyReq) st = (resp, st')" for st resp st'
    using that by (auto simp: direct_simps zigbee_get_sensor_addr_def)
qed (simp_all add: rpc_api_defs Let_def)

lemma get_last_temp_sim: "sim dev_le Dv R (direct_op E V (Rq_get_last_temp) (on_stack zigbee_get_last_temp)) (rpc_op (rpc_zigbee_get_last_temp))"
proof (rule get_last_temp_rpc.sim_op [where q = "EmptyReq" and f = "\<lambda>_. handle_get_last_temp" and dec = "\<lambda>r. from_le16_s (i16_value r)"])
  show "wt_valid (desc_resp desc_get_last_temp) resp \<and> (on_stack zigbee_get_last_temp) st = ((\<lambda>r. from_le16_s (i16_value r)) resp, st') \<and> good (srv_stack st')"
    if "good (srv_stack st)" "(\<lambda>_. handle_get_last_temp) (EmptyReq) st = (resp, st')" for st resp st'
    using that good_caches(7) [of "srv_stack st"] by (auto simp: direct_simps zigbee_get_last_temp_def)
qed (simp_all add: rpc_api_defs Let_def)

lemma open_network_sim: "sim dev_le Dv R (direct_op E V (Rq_open_network \<lparr>on_duration = d\<rparr>) (on_stack (zigbee_open_network E d))) (rpc_op (rpc_zigbee_open_network d))"
proof (rule open_network_rpc.sim_op [where q = "\<lparr>on_duration = d\<rparr>" and f = "handle_open_network E" and dec = "\<lambda>r. from_le32_s (i32_value r)"])
  show "wt_valid (desc_resp desc_open_network) resp \<and> (on_stack (zigbee_open_network E d)) st = ((\<lambda>r. from_le32_s (i32_value r)) resp, st') \<and> good (srv_stack st')"
    if "good (srv_stack st)" "(handle_open_network E) (\<lparr>on_duration = d\<rparr>) st = (resp, st')" for st resp st'
    using that open_network_good(1) [of "srv_stack st" d] open_network_good(2) [of d "srv_stack st"] by (auto simp: direct_simps)
qed (simp_all add: rpc_api_defs Let_def)

lemma wait_annce_sim: "sim dev_le Dv R (direct_op E V (Rq_wait_annce) (wait_annce_loop E V k_app_annce_timeout_ms)) (rpc_op (rpc_zigbee_wait_annce k_app_annce_timeout_ms))"
proof (rule wait_annce_rpc.sim_op [where q = "EmptyReq" and f = "\<lambda>_. handle_wait_annce E V" and dec = "\<lambda>r. from_le16 (u16_value r)"])
  show "wt_valid (desc_resp desc_wait_annce) resp \<and> (wait_annce_loop E V k_app_annce_timeout_ms) st = ((\<lambda>r. from_le16 (u16_value r)) resp, st') \<and> good (srv_stack st')"
    if "good (srv_stack st)" "(\<lambda>_. handle_wait_annce E V) (EmptyReq) st = (resp, st')" for st resp st'
    using that good_step.wait_loop_step [of st V] by (auto simp: direct_simps)
qed (simp_all add: rpc_api_defs Let_def)

lemma find_sensor_sim: "sim dev_le Dv R (direct_op E V (Rq_find_sensor \<lparr>fs_short_addr = to_le16 a\<rparr>) (on_stack (zigbee_find_sensor E a k_request_timeout_ms))) (rpc_op (rpc_zigbee_find_sensor a k_request_timeout_ms))"
proof (rule find_sensor_rpc.sim_op [where q = "\<lparr>fs_short_addr = to_le16 a\<rparr>" and f = "handle_find_sensor E" and dec = "\<lambda>r. \<lparr>ad_err = from_le32_s (za_err r), ad_short_addr = from_le16 (za_short_addr r), ad_ep = za_ep r\<rparr>"])
  show "wt_valid (desc_resp desc_find_sensor) resp \<and> (on_stack (zigbee_find_sensor E a k_request_timeout_ms)) st = ((\<lambda>r. \<lparr>ad_err = from_le32_s (za_err r), ad_short_addr = from_le16 (za_short_addr r), ad_ep = za_ep r\<rparr>) resp, st') \<and> good (srv_stack st')"
    if "good (srv_stack st)" "(handle_find_sensor E) (\<lparr>fs_short_addr = to_le16 a\<rparr>) st = (resp, st')" for st resp st'
    using that find_sensor_good [of "srv_stack st"] by (auto simp: direct_simps addr_decode)
qed (simp_all add: rpc_api_defs Let_def)

lemma read_basic_sim: "sim dev_le Dv R (direct_op E V (Rq_read_basic (to_wire a ep)) (on_stack (zigbee_read_basic E a ep k_request_timeout_ms))) (rpc_op (rpc_zigbee_read_basic a ep k_request_timeout_ms))"
proof (rule read_basic_rpc.sim_op [where q = "to_wire a ep" and f = "handle_read_basic E" and dec = "\<lambda>r. \<lparr>ba_err = from_le32_s (zb_err r), ba_manufacturer = take 16 (zb_manufacturer r), ba_model = take 16 (zb_model r)\<rparr>"])
  show "wt_valid (desc_resp desc_read_basic) resp \<and> (on_stack (zigbee_read_basic E a ep k_request_timeout_ms)) st = ((\<lambda>r. \<lparr>ba_err = from_le32_s (zb_err r), ba_manufacturer = take 16 (zb_manufacturer r), ba_model = take 16 (zb_model r)\<rparr>) resp, st') \<and> good (srv_stack st')"
    if "good (srv_stack st)" "(handle_read_basic E) (to_wire a ep) st = (resp, st')" for st resp st'
    using that read_basic_good [of "srv_stack st"] by (auto simp: direct_simps basic_decode basic_ok_def)
qed (simp_all add: rpc_api_defs Let_def)

lemma bind_sensor_sim: "sim dev_le Dv R (direct_op E V (Rq_bind_sensor (to_wire a ep)) (on_stack (zigbee_bind_sensor E a ep k_request_timeout_ms))) (rpc_op (rpc_zigbee_bind_sensor a ep k_request_timeout_ms))"
proof (rule bind_sensor_rpc.sim_op [where q = "to_wire a ep" and f = "handle_bind_sensor E" and dec = "\<lambda>r. from_le32_s (i32_value r)"])
  show "wt_valid (desc_resp desc_bind_sensor) resp \<and> (on_stack (zigbee_bind_sensor E a ep k_request_timeout_ms)) st = ((\<lambda>r. from_le32_s (i32_value r)) resp, st') \<and> good (srv_stack st')"
    if "good (srv_stack st)" "(handle_bind_sensor E) (to_wire a ep) st = (resp, st')" for st resp st'
    using that bind_common_good [of "srv_stack st"] by (auto simp: direct_simps)
qed (simp_all add: rpc_api_defs Let_def)

lemma subscribe_sensor_sim: "sim dev_le Dv R (direct_op E V (Rq_subscribe_sensor (to_wire a ep)) (on_stack (zigbee_subscribe_sensor E a ep k_request_timeout_ms))) (rpc_op (rpc_zigbee_subscribe_sensor a ep k_request_timeout_ms))"
proof (rule subscribe_sensor_rpc.sim_op [where q = "to_wire a ep" and f = "handle_subscribe_sensor E" and dec = "\<lambda>r. from_le32_s (i32_value r)"])
  show "wt_valid (desc_resp desc_subscribe_sensor) resp \<and> (on_stack (zigbee_subscribe_sensor E a ep k_request_timeout_ms)) st = ((\<lambda>r. from_le32_s (i32_value r)) resp, st') \<and> good (srv_stack st')"
    if "good (srv_stack st)" "(handle_subscribe_sensor E) (to_wire a ep) st = (resp, st')" for st resp st'
    using that bind_common_good [of "srv_stack st"] by (auto simp: direct_simps)
qed (simp_all add: rpc_api_defs Let_def)

lemma config_report_sim: "sim dev_le Dv R (direct_op E V (Rq_config_report (to_wire a ep)) (on_stack (zigbee_config_report E a ep k_request_timeout_ms))) (rpc_op (rpc_zigbee_config_report a ep k_request_timeout_ms))"
proof (rule config_report_rpc.sim_op [where q = "to_wire a ep" and f = "handle_config_report E" and dec = "\<lambda>r. from_le32_s (i32_value r)"])
  show "wt_valid (desc_resp desc_config_report) resp \<and> (on_stack (zigbee_config_report E a ep k_request_timeout_ms)) st = ((\<lambda>r. from_le32_s (i32_value r)) resp, st') \<and> good (srv_stack st')"
    if "good (srv_stack st)" "(handle_config_report E) (to_wire a ep) st = (resp, st')" for st resp st'
    using that config_report_good [of "srv_stack st"] by (auto simp: direct_simps)
qed (simp_all add: rpc_api_defs Let_def)

lemma read_temp_sim: "sim dev_le Dv R (direct_op E V (Rq_read_temp (to_wire a ep)) (on_stack (zigbee_read_temp E a ep k_request_timeout_ms))) (rpc_op (rpc_zigbee_read_temp a ep k_request_timeout_ms))"
proof (rule read_temp_rpc.sim_op [where q = "to_wire a ep" and f = "handle_read_temp E" and dec = "\<lambda>r. \<lparr>te_err = from_le32_s (zt_err r), te_measured = from_le16_s (zt_measured r), te_min_measured = from_le16_s (zt_min_measured r), te_max_measured = from_le16_s (zt_max_measured r), te_tolerance = from_le16_s (zt_tolerance r)\<rparr>"])
  show "wt_valid (desc_resp desc_read_temp) resp \<and> (on_stack (zigbee_read_temp E a ep k_request_timeout_ms)) st = ((\<lambda>r. \<lparr>te_err = from_le32_s (zt_err r), te_measured = from_le16_s (zt_measured r), te_min_measured = from_le16_s (zt_min_measured r), te_max_measured = from_le16_s (zt_max_measured r), te_tolerance = from_le16_s (zt_tolerance r)\<rparr>) resp, st') \<and> good (srv_stack st')"
    if "good (srv_stack st)" "(handle_read_temp E) (to_wire a ep) st = (resp, st')" for st resp st'
    using that read_temp_good [of "srv_stack st"] by (auto simp: direct_simps temp_decode)
qed (simp_all add: rpc_api_defs Let_def)

end

sublocale remote_run \<subseteq> app: api_sim "direct_api E V" rpc_api dev_le Dv R
proof unfold_locales
  show "dev_le x x" for x by (simp add: dev_le_def)
  show "dev_le x y \<Longrightarrow> dev_le y z \<Longrightarrow> dev_le x z" for x y z
    unfolding dev_le_def by (rule prefix_order.trans)
  show "sim dev_le Dv R (app_log (direct_api E V) l) (app_log rpc_api l)" for l
    by (auto simp: sim_def direct_api_def rpc_api_def dev_le_def coupled_def Let_def)
  show "sim dev_le Dv R (app_sleep_ms (direct_api E V) n) (app_sleep_ms rpc_api n)" for n
    by (auto simp: sim_def direct_api_def rpc_api_def dev_le_def State_Monad.return_def)
qed (simp_all add: direct_api_def rpc_api_def get_panid_sim get_channel_sim get_sensor_addr_sim open_network_sim
    wait_annce_sim find_sensor_sim read_basic_sim bind_sensor_sim subscribe_sensor_sim config_report_sim
    read_temp_sim get_last_temp_sim)

interpretation c_remote: remote_run "c_env E" V st0 s0 Dv for E V st0 s0 Dv
  by intro_locales

section \<open>The application over the wire\<close>

definition dev_start :: "rpc_server \<Rightarrow> dev" where
  "dev_start st = \<lparr>dev_srv = st, dev_reqs = [], dev_replies = [], dev_log = []\<rparr>"

context remote_run begin

lemma run_remote:
  assumes r: "run_state (run (direct_api E V) probe) (dev_start st0) = (res, Dv)"
    and ok: "good (srv_stack st0)" "attached c" "wx_ok (wx (conn c))"
    and st: "rx_stream (rx (conn c)) = dev_replies Dv" "sent (conn c) = s0"
  shows "\<exists>c'. run_state (run rpc_api probe) \<lparr>ac_rpc = c, ac_log = []\<rparr> = (res, \<lparr>ac_rpc = c', ac_log = dev_log Dv\<rparr>) \<and>
     sent (conn c') = s0 @ concat (map request_frame (dev_reqs Dv)) \<and>
     exec_requests E V (dev_reqs Dv) st0 = (dev_replies Dv, dev_srv Dv)"
proof -
  have "R (dev_start st0) \<lparr>ac_rpc = c, ac_log = []\<rparr>"
    using ok st by (simp add: coupled_def dev_start_def)
  from sim_step [OF app.sim_run r app.le_refl this] obtain a' where
    a': "run_state (run rpc_api probe) \<lparr>ac_rpc = c, ac_log = []\<rparr> = (res, a')" "R Dv a'" by blast
  then show ?thesis
    by (intro exI [of _ "ac_rpc a'"]) (cases a', simp add: coupled_def Let_def)
qed

end


text \<open>A concrete run: the sensor is known, is found again and is read.\<close>

definition cached_srv :: rpc_server where
  "cached_srv = (lab_srv [])\<lparr>srv_stack := (lab_stack [[Ev_match found_rsp],
     [Ev_zcl (Zcl_read_attr_rsp (Some temp_rsp))]])\<lparr>s_last_sensor_addr := 0x4D2A\<rparr>\<rparr>"

definition cached_run :: "Result \<times> dev" where
  "cached_run = run_state (run (direct_api lab_env lab_link) True) (dev_start (cached_srv\<lparr>s_client_fd := 54\<rparr>))"

lemma cached_good: "good (srv_stack cached_srv)"
  using lab_stack_ok by (simp add: cached_srv_def good_def stack_ok_update windows_all_update found_rsp_def
      windows_all_def)

lemma cached_result: "fst cached_run = Success"
  by code_simp

definition one_read :: "bytes \<Rightarrow> sock" where
  "one_read bs = \<lparr>rx = [Rx_data bs], wx = [], sent = []\<rparr>"

lemma one_read_simps [simp]: "rx_stream (rx (one_read bs)) = bs" "wx_ok (wx (one_read bs))" "sent (one_read bs) = []"
  by (simp_all add: one_read_def)

definition lab_client :: "bytes \<Rightarrow> rpc_client" where
  "lab_client bs = \<lparr>g_fd = 7, cl_socks = (\<lambda>_. one_read bs)\<rparr>"

lemma lab_client_simps [simp]: "attached (lab_client bs)" "conn (lab_client bs) = one_read bs"
  by (simp_all add: lab_client_def attached_def)


section \<open>A server without the cached-sensor procedure\<close>

lemma rpc_op_run: "run_state (rpc_op f) a = (fst (f (ac_rpc a)), a\<lparr>ac_rpc := snd (f (ac_rpc a))\<rparr>)"
  by (simp add: rpc_op_def case_prod_beta)

lemma get_panid_answered:
  assumes "attached c" "wx_ok (wx (conn c))"
    and "rx_stream (rx (conn c)) = frame (api_value Api_get_panid) U16Resp_type \<lparr>u16_value = to_le16 p\<rparr> @ rest"
  obtains c' where "rpc_zigbee_get_panid c = (p, c')" "attached c'" "wx_ok (wx (conn c'))"
    "rx_stream (rx (conn c')) = rest"
proof -
  obtain c' where c': "with_engine (call desc_get_panid EmptyReq) c = (Some \<lparr>u16_value = to_le16 p\<rparr>, c')"
      "exchanged c (frame (api_value Api_get_panid) EmptyReq_type EmptyReq) rest c'"
    using get_panid_rpc.remote_call [of c "\<lparr>u16_value = to_le16 p\<rparr>" rest EmptyReq] assms
    by (auto simp del: api_value.simps)
  show thesis
    using assms c' exchanged_attached [OF c'(2)]
    by (intro that [of c']) (auto simp: rpc_zigbee_get_panid_def exchanged_def)
qed

lemma get_channel_answered:
  assumes "attached c" "wx_ok (wx (conn c))"
    and "rx_stream (rx (conn c)) = frame (api_value Api_get_channel) U8Resp_type \<lparr>u8_value = ch\<rparr> @ rest"
  obtains c' where "rpc_zigbee_get_channel c = (ch, c')" "attached c'" "wx_ok (wx (conn c'))"
    "rx_stream (rx (conn c')) = rest"
proof -
  obtain c' where c': "with_engine (call desc_get_channel EmptyReq) c = (Some \<lparr>u8_value = ch\<rparr>, c')"
      "exchanged c (frame (api_value Api_get_channel) EmptyReq_type EmptyReq) rest c'"
    using get_channel_rpc.remote_call [of c "\<lparr>u8_value = ch\<rparr>" rest EmptyReq] assms
    by (auto simp del: api_value.simps)
  show thesis
    using assms c' exchanged_attached [OF c'(2)]
    by (intro that [of c']) (auto simp: rpc_zigbee_get_channel_def exchanged_def)
qed

lemma get_sensor_addr_refused:
  assumes "attached c" "wx_ok (wx (conn c))" "rx_stream (rx (conn c)) = error_frame e @ rest"
  shows "fst (rpc_zigbee_get_sensor_addr c) = k_invalid_short_addr"
proof -
  obtain c' where "with_engine (call desc_get_sensor_addr EmptyReq) c = (None, c')"
    using get_sensor_addr_rpc.remote_call_error [of c _ rest EmptyReq] assms
    unfolding error_frame_def by blast
  with assms show ?thesis by (simp add: rpc_zigbee_get_sensor_addr_def)
qed

text \<open>
  Against a server that answers the network queries but refuses the cached-sensor probe with an
  error frame, the application stops at the probe and asks for a retry without it; it opens no
  network and starts no commissioning.
\<close>

lemma old_server_retry:
  assumes "attached c" "wx_ok (wx (conn c))" "p \<noteq> 0"
    and "rx_stream (rx (conn c)) = frame (api_value Api_get_panid) U16Resp_type \<lparr>u16_value = to_le16 p\<rparr> @
      frame (api_value Api_get_channel) U8Resp_type \<lparr>u8_value = ch\<rparr> @ error_frame e @ rest"
  shows "\<exists>c'. run_state (run rpc_api True) \<lparr>ac_rpc = c, ac_log = []\<rparr> =
    (Retry_without_cache, \<lparr>ac_rpc = c', ac_log = [Log_no_cache_api]\<rparr>)"
proof -
  obtain c1 where c1: "rpc_zigbee_get_panid c = (p, c1)" "attached c1" "wx_ok (wx (conn c1))"
    "rx_stream (rx (conn c1)) = frame (api_value Api_get_channel) U8Resp_type \<lparr>u8_value = ch\<rparr> @ error_frame e @ rest"
    using get_panid_answered [OF assms(1,2,4)] by blast
  obtain c2 where c2: "rpc_zigbee_get_channel c1 = (ch, c2)" "attached c2" "wx_ok (wx (conn c2))"
    "rx_stream (rx (conn c2)) = error_frame e @ rest"
    using get_channel_answered [OF c1(2-4)] by blast
  obtain x c3 where c3: "rpc_zigbee_get_sensor_addr c2 = (x, c3)" by fastforce
  with get_sensor_addr_refused [OF c2(2-4)] have "x = k_app_invalid_short_addr"
    by (simp add: k_invalid_short_addr_def k_app_invalid_short_addr_def)
  with c1(1) c2(1) c3 assms(3) show ?thesis
    by (simp add: run_def try_cached_sensor_def rpc_api_def run_state_bind_eq rpc_op_run State_Monad.return_def)
qed

end
