(* ===== verification/Client_Main.thy ===== *)
theory Client_Main
  imports Remote
begin

text \<open>
  The Linux client's program \<^verbatim>\<open>zb_rpc_client/main.cpp\<close>: option checks, the wait for the PPP link,
  the connection loop, and \<open>main\<close> with its acquisition and release of the serial port, the link
  and the RPC sockets.

  The environment \<open>M\<close> answers the calls that leave the program: \<open>stop_at t\<close> is what the \<open>t\<close>-th look
  at \<open>g_stop_requested\<close> sees (the signal handler may set it at any time), \<open>up_at t\<close> the \<open>t\<close>-th
  answer of \<open>ppp_link_is_up\<close>, \<open>try_at n\<close> the outcome of the system calls of the \<open>n\<close>-th connection
  attempt.  \<open>cm_trace\<close> records every acquisition and release.
\<close>

section \<open>Options\<close>

record Options =
  o_device :: string
  o_host :: string
  o_port :: u16
  o_baud :: int
  o_wait_seconds :: int
  o_verbose :: bool

definition default_options :: Options where
  "default_options = \<lparr>o_device = ''/dev/ttyUSB1'', o_host = k_default_host, o_port = k_default_port,
     o_baud = 115200, o_wait_seconds = 60, o_verbose = False\<rparr>"

text \<open>What \<open>getopt_long\<close> returns one after the other: an option with its argument, or an error.\<close>

datatype selected =
    Sel_device string
  | Sel_baud string
  | Sel_host string
  | Sel_port string
  | Sel_wait string
  | Sel_verbose
  | Sel_help
  | Sel_unknown

text \<open>\<open>atoi\<close>: leading blanks, an optional sign, then the digits up to the first other character.\<close>

definition digit_of :: "char \<Rightarrow> int option" where
  "digit_of c = (let n = of_char c :: int in if 48 \<le> n \<and> n \<le> 57 then Some (n - 48) else None)"

fun atoi_digits :: "int \<Rightarrow> string \<Rightarrow> int" where
  "atoi_digits acc [] = acc"
| "atoi_digits acc (c # cs) = (case digit_of c of None \<Rightarrow> acc | Some k \<Rightarrow> atoi_digits (10 * acc + k) cs)"

fun atoi :: "string \<Rightarrow> int" where
  "atoi [] = 0"
| "atoi (c # cs) =
     (if c = CHR '' '' then atoi cs
      else if c = CHR ''-'' then - atoi_digits 0 cs
      else if c = CHR ''+'' then atoi_digits 0 cs
      else atoi_digits 0 (c # cs))"

datatype parse_result = Parsed Options | Rejected | Exit_help

fun parse_loop :: "selected list \<Rightarrow> Options \<Rightarrow> parse_result" where
  "parse_loop [] options =
     (if 0 < o_baud options \<and> 0 < o_port options \<and> 0 < o_wait_seconds options then Parsed options else Rejected)"
| "parse_loop (Sel_device s # ss) options = parse_loop ss (options\<lparr>o_device := s\<rparr>)"
| "parse_loop (Sel_baud s # ss) options = parse_loop ss (options\<lparr>o_baud := atoi s\<rparr>)"
| "parse_loop (Sel_host s # ss) options = parse_loop ss (options\<lparr>o_host := s\<rparr>)"
| "parse_loop (Sel_port s # ss) options = parse_loop ss (options\<lparr>o_port := word_of_int (atoi s)\<rparr>)"
| "parse_loop (Sel_wait s # ss) options = parse_loop ss (options\<lparr>o_wait_seconds := atoi s\<rparr>)"
| "parse_loop (Sel_verbose # ss) options = parse_loop ss (options\<lparr>o_verbose := True\<rparr>)"
| "parse_loop (Sel_help # ss) options = Exit_help"
| "parse_loop (Sel_unknown # ss) options = Rejected"

definition parse_options :: "selected list \<Rightarrow> parse_result" where
  "parse_options ss = parse_loop ss default_options"

section \<open>State and environment\<close>

datatype connect_result = Connect_ok | Connect_wait | Connect_refused

datatype poll_result = Poll_ready | Poll_timeout | Poll_eintr | Poll_error

record connect_try =
  ct_socket :: int
  ct_flags_ok :: bool
  ct_connect :: connect_result
  ct_polls :: "poll_result list"
  ct_so_error_clear :: bool

record main_env =
  stop_at :: "nat \<Rightarrow> bool"
  up_at :: "nat \<Rightarrow> bool"
  pton_ok :: "string \<Rightarrow> bool"
  try_at :: "nat \<Rightarrow> connect_try"
  serial_ok :: bool
  link_ok :: bool
  start_ok :: bool

datatype main_op =
    Serial_open | Serial_close | Link_create | Serial_attach | Link_start | Link_stop | Link_destroy
  | Sock_open int | Sock_shutdown int | Sock_close int

record main_state =
  cm_app :: app_client
  g_rpc_socket :: int
  cm_looks :: nat
  cm_ups :: nat
  cm_tries :: nat
  cm_trace :: "main_op list"

definition look_stop :: "main_env \<Rightarrow> main_state \<Rightarrow> bool \<times> main_state" where
  "look_stop M st = (stop_at M (cm_looks st), st\<lparr>cm_looks := cm_looks st + 1\<rparr>)"

definition act :: "main_op \<Rightarrow> main_state \<Rightarrow> main_state" where
  "act x st = st\<lparr>cm_trace := cm_trace st @ [x]\<rparr>"

text \<open>The signal handler: besides setting the flag it shuts the RPC socket down.\<close>

definition on_signal :: "main_state \<Rightarrow> main_state" where
  "on_signal st = (if 0 \<le> g_rpc_socket st then act (Sock_shutdown (g_rpc_socket st)) st else st)"

section \<open>Waiting and connecting\<close>

fun wait_link_loop :: "main_env \<Rightarrow> nat \<Rightarrow> main_state \<Rightarrow> bool \<times> main_state" where
  "wait_link_loop M 0 st = (False, st)"
| "wait_link_loop M (Suc left) st =
     (let (stop, st1) = look_stop M st
      in if stop then (False, st1)
         else let st2 = st1\<lparr>cm_ups := cm_ups st1 + 1\<rparr>
              in if up_at M (cm_ups st1) then (True, st2) else wait_link_loop M left st2)"

definition wait_for_link :: "main_env \<Rightarrow> int \<Rightarrow> main_state \<Rightarrow> bool \<times> main_state" where
  "wait_for_link M seconds st = wait_link_loop M (nat (seconds * 10)) st"

text \<open>The \<open>do ... while\<close> around \<open>poll\<close>: \<open>True\<close> when \<open>ready > 0\<close>.\<close>

fun poll_loop :: "main_env \<Rightarrow> poll_result list \<Rightarrow> main_state \<Rightarrow> bool \<times> main_state" where
  "poll_loop M [] st = (False, st)"
| "poll_loop M (Poll_ready # ps) st = (True, st)"
| "poll_loop M (Poll_timeout # ps) st = (False, st)"
| "poll_loop M (Poll_error # ps) st = (False, st)"
| "poll_loop M (Poll_eintr # ps) st =
     (let (stop, st1) = look_stop M st in if stop then (False, st1) else poll_loop M ps st1)"

fun connect_loop :: "main_env \<Rightarrow> nat \<Rightarrow> main_state \<Rightarrow> int \<times> main_state" where
  "connect_loop M 0 st = (-1, st)"
| "connect_loop M (Suc left) st =
     (let (stop, st1) = look_stop M st
      in if stop then (-1, st1)
         else let t = try_at M (cm_tries st1); st2 = st1\<lparr>cm_tries := cm_tries st1 + 1\<rparr>; socket_fd = ct_socket t
              in if socket_fd < 0 then (-1, st2)
                 else let st3 = act (Sock_open socket_fd) st2
                      in if \<not> ct_flags_ok t then (-1, act (Sock_close socket_fd) st3)
                         else if ct_connect t = Connect_ok then (socket_fd, st3)
                         else let (ready, st4) = (if ct_connect t = Connect_wait then poll_loop M (ct_polls t) st3
                                                  else (False, st3))
                              in if ready \<and> ct_so_error_clear t then (socket_fd, st4)
                                 else let (stop', st5) = look_stop M (act (Sock_close socket_fd) st4)
                                      in connect_loop M left st5)"

definition connect_rpc :: "main_env \<Rightarrow> string \<Rightarrow> main_state \<Rightarrow> int \<times> main_state" where
  "connect_rpc M host st = (if \<not> pton_ok M host then (-1, st) else connect_loop M 50 st)"

section \<open>main\<close>

definition on_rpc :: "(rpc_client \<Rightarrow> rpc_client) \<Rightarrow> main_state \<Rightarrow> main_state" where
  "on_rpc f st = st\<lparr>cm_app := (cm_app st)\<lparr>ac_rpc := f (ac_rpc (cm_app st))\<rparr>\<rparr>"

definition use_socket :: "int \<Rightarrow> main_state \<Rightarrow> main_state" where
  "use_socket fd st = on_rpc (\<lambda>c. snd (attach fd c)) (st\<lparr>g_rpc_socket := fd\<rparr>)"

definition run_app :: "bool \<Rightarrow> main_state \<Rightarrow> Result \<times> main_state" where
  "run_app probe st = (let (r, a) = run_state (run rpc_api probe) (cm_app st) in (r, st\<lparr>cm_app := a\<rparr>))"

definition release_socket :: "int \<Rightarrow> main_state \<Rightarrow> main_state" where
  "release_socket fd st = act (Sock_close fd) (act (Sock_shutdown fd) (st\<lparr>g_rpc_socket := -1\<rparr>))"

text \<open>The part of \<open>main\<close> after the link is up: connect, run, perhaps reconnect and run again.\<close>

definition rpc_session :: "main_env \<Rightarrow> string \<Rightarrow> main_state \<Rightarrow> bool \<times> main_state" where
  "rpc_session M host st =
     (let (socket_fd, st1) = connect_rpc M host st
      in if socket_fd < 0 then (False, st1)
         else let st2 = use_socket socket_fd st1;
                  (stop, st3) = look_stop M st2;
                  (result, fd, st4) =
                    (if stop then (Failure, socket_fd, st3)
                     else let (result, st4) = run_app True st3
                          in if result \<noteq> Retry_without_cache then (result, socket_fd, st4)
                             else let (stop', st5) = look_stop M st4
                                  in if stop' then (result, socket_fd, st5)
                                     else let st6 = release_socket socket_fd (on_rpc detach st5);
                                              (socket_fd', st7) = connect_rpc M host st6
                                          in if socket_fd' < 0 then (result, socket_fd', st7)
                                             else let (result', st8) = run_app False (use_socket socket_fd' st7)
                                                  in (result', socket_fd', st8));
                  st5 = on_rpc detach st4;
                  st6 = (if 0 \<le> fd then release_socket fd st5 else st5)
              in (result = Success, st6))"

definition main_options :: "main_env \<Rightarrow> Options \<Rightarrow> main_state \<Rightarrow> int \<times> main_state" where
  "main_options M options st =
     (if \<not> serial_ok M then (1, st)
      else let st1 = act Serial_open st
           in if \<not> link_ok M then (1, act Serial_close st1)
              else let st3 = act Link_start (act Serial_attach (act Link_create st1))
                   in if \<not> start_ok M then (1, act Link_destroy (act Serial_close (act Link_stop st3)))
                      else let (stop, st4) = look_stop M st3;
                               (success, st5) =
                                 (if stop then (False, st4)
                                  else let (up, st5) = wait_for_link M (o_wait_seconds options) st4
                                       in if \<not> up then (False, st5) else rpc_session M (o_host options) st5)
                           in (if success then 0 else 1,
                               act Link_destroy (act Serial_close (act Link_stop st5))))"

definition main :: "main_env \<Rightarrow> selected list \<Rightarrow> main_state \<Rightarrow> int \<times> main_state" where
  "main M ss st =
     (case parse_options ss of
        Rejected \<Rightarrow> (1, st)
      | Exit_help \<Rightarrow> (0, st)
      | Parsed options \<Rightarrow> main_options M options st)"

section \<open>Resources\<close>

text \<open>
  What is held after a trace: the serial port, the link and the open sockets.  \<open>None\<close> marks a
  trace that misuses a resource (closes what is not open, opens twice, uses a missing link, destroys
  the link before the serial port that sends for it is closed).
\<close>

type_synonym held = "bool \<times> bool \<times> int list"

fun track_op :: "main_op \<Rightarrow> held \<Rightarrow> held option" where
  "track_op Serial_open (a, b, s) = (if a then None else Some (True, b, s))"
| "track_op Serial_close (a, b, s) = (if a then Some (False, b, s) else None)"
| "track_op Link_create (a, b, s) = (if b then None else Some (a, True, s))"
| "track_op Serial_attach (a, b, s) = (if a \<and> b then Some (a, b, s) else None)"
| "track_op Link_start (a, b, s) = (if b then Some (a, b, s) else None)"
| "track_op Link_stop (a, b, s) = (if b then Some (a, b, s) else None)"
| "track_op Link_destroy (a, b, s) = (if b \<and> \<not> a then Some (a, False, s) else None)"
| "track_op (Sock_open fd) (a, b, s) = Some (a, b, fd # s)"
| "track_op (Sock_shutdown fd) (a, b, s) = (if fd \<in> set s then Some (a, b, s) else None)"
| "track_op (Sock_close fd) (a, b, s) = (if fd \<in> set s then Some (a, b, remove1 fd s) else None)"

fun track :: "main_op list \<Rightarrow> held \<Rightarrow> held option" where
  "track [] h = Some h"
| "track (x # xs) h = (case track_op x h of None \<Rightarrow> None | Some h' \<Rightarrow> track xs h')"

lemma track_snoc: "track (xs @ [x]) h = (case track xs h of None \<Rightarrow> None | Some h' \<Rightarrow> track_op x h')"
  by (induction xs arbitrary: h) (auto split: option.splits)

definition holds :: "main_state \<Rightarrow> held \<Rightarrow> bool" where
  "holds st h = (track (cm_trace st) (False, False, []) = Some h)"

lemma holds_act: "holds st h \<Longrightarrow> track_op x h = Some h' \<Longrightarrow> holds (act x st) h'"
  by (simp add: holds_def act_def track_snoc)

lemma holds_update [simp]:
  "holds (st\<lparr>cm_app := a\<rparr>) h = holds st h" "holds (st\<lparr>g_rpc_socket := fd\<rparr>) h = holds st h"
  "holds (st\<lparr>cm_looks := n\<rparr>) h = holds st h" "holds (st\<lparr>cm_ups := n\<rparr>) h = holds st h"
  "holds (st\<lparr>cm_tries := n\<rparr>) h = holds st h"
  by (simp_all add: holds_def)

lemma holds_simple [simp]:
  "holds (snd (look_stop M st)) h = holds st h" "holds (on_rpc f st) h = holds st h"
  "holds (use_socket fd st) h = holds st h" "holds (snd (run_app p st)) h = holds st h"
  by (simp_all add: look_stop_def on_rpc_def use_socket_def run_app_def case_prod_beta Let_def)

lemma wait_link_holds [simp]: "holds (snd (wait_for_link M n st)) h = holds st h"
proof -
  have "holds (snd (wait_link_loop M k st)) h = holds st h" for k
    by (induction k arbitrary: st) (simp_all add: case_prod_beta Let_def)
  then show ?thesis by (simp add: wait_for_link_def)
qed

lemma poll_loop_holds [simp]: "holds (snd (poll_loop M ps st)) h = holds st h"
proof (induction ps arbitrary: st)
  case (Cons p ps)
  then show ?case by (cases p) (simp_all add: case_prod_beta Let_def)
qed simp

lemma connect_loop_holds:
  "holds st (a, b, s) \<Longrightarrow> connect_loop M n st = (fd, st') \<Longrightarrow>
   holds st' (a, b, if fd < 0 then s else fd # s)"
proof (induction n arbitrary: st)
  case (Suc n)
  let ?st2 = "(snd (look_stop M st))\<lparr>cm_tries := Suc (cm_tries (snd (look_stop M st)))\<rparr>"
  let ?t = "try_at M (cm_tries (snd (look_stop M st)))"
  let ?st3 = "act (Sock_open (ct_socket ?t)) ?st2"
  have 3: "holds ?st3 (a, b, ct_socket ?t # s)"
    using Suc.prems(1) by (intro holds_act [where h = "(a, b, s)"]) simp_all
  have 4: "holds (act (Sock_close (ct_socket ?t)) x) (a, b, s)" if "holds x (a, b, ct_socket ?t # s)" for x
    using that by (rule holds_act) simp
  have 5: "holds st' (a, b, if fd < 0 then s else fd # s)"
    if "connect_loop M n (snd (look_stop M (act (Sock_close (ct_socket ?t)) x))) = (fd, st')"
      "holds x (a, b, ct_socket ?t # s)" for x
    using Suc.IH [OF _ that(1)] 4 [OF that(2)] by simp
  show ?case
    using Suc.prems 3 4 [OF 3] 5 [of ?st3] 5 [of "snd (poll_loop M (ct_polls ?t) ?st3)"]
    by (auto simp: case_prod_beta Let_def split: if_splits)
qed simp

lemma connect_rpc_holds:
  "holds st (a, b, s) \<Longrightarrow> connect_rpc M host st = (fd, st') \<Longrightarrow> holds st' (a, b, if fd < 0 then s else fd # s)"
  by (auto simp: connect_rpc_def split: if_splits dest: connect_loop_holds)

lemma release_holds: "holds st (a, b, fd # s) \<Longrightarrow> holds (release_socket fd st) (a, b, s)"
  unfolding release_socket_def
  by (rule holds_act [where h = "(a, b, fd # s)"], rule holds_act [where h = "(a, b, fd # s)"]) simp_all

lemma rpc_session_holds:
  assumes "holds st (a, b, [])" "rpc_session M host st = (ok, st')"
  shows "holds st' (a, b, [])"
proof -
  obtain fd st1 where c1: "connect_rpc M host st = (fd, st1)" by fastforce
  have h1: "holds st1 (a, b, if fd < 0 then [] else [fd])" by (rule connect_rpc_holds [OF assms(1) c1])
  define st5 where "st5 = snd (look_stop M (snd (run_app True (snd (look_stop M (use_socket fd st1))))))"
  obtain fd' st7 where c2: "connect_rpc M host (release_socket fd (on_rpc detach st5)) = (fd', st7)" by fastforce
  have h5: "\<not> fd < 0 \<Longrightarrow> holds (on_rpc detach st5) (a, b, [fd])"
    using h1 by (simp add: st5_def)
  then have h2: "\<not> fd < 0 \<Longrightarrow> holds st7 (a, b, if fd' < 0 then [] else [fd'])"
    using connect_rpc_holds [OF release_holds c2] by blast
  show ?thesis
    using assms(2) h1 h2 h5
    by (auto simp: rpc_session_def c1 c2 st5_def [symmetric] case_prod_beta Let_def intro!: release_holds
        split: if_splits)
qed

lemma close_down_holds:
  "holds st (True, True, []) \<Longrightarrow> holds (act Link_destroy (act Serial_close (act Link_stop st))) (False, False, [])"
  by (rule holds_act [where h = "(False, True, [])"], rule holds_act [where h = "(True, True, [])"],
      rule holds_act [where h = "(True, True, [])"]) simp_all

lemma main_options_holds:
  assumes "holds st (False, False, [])"
  shows "holds (snd (main_options M options st)) (False, False, [])"
proof -
  have 1: "holds (act Serial_open st) (True, False, [])"
    using assms by (rule holds_act) simp
  then have 2: "holds (act Serial_close (act Serial_open st)) (False, False, [])"
    by (rule holds_act) simp
  have 3: "holds (act Link_create (act Serial_open st)) (True, True, [])"
    using 1 by (rule holds_act) simp
  then have 4: "holds (act Serial_attach (act Link_create (act Serial_open st))) (True, True, [])"
    by (rule holds_act) simp
  then have 5: "holds (act Link_start (act Serial_attach (act Link_create (act Serial_open st)))) (True, True, [])"
    by (rule holds_act) simp
  have 6: "holds (snd (rpc_session M host x)) (True, True, [])" if "holds x (True, True, [])" for host x
    using rpc_session_holds [OF that] by (metis prod.collapse)
  show ?thesis
    using assms 2 4 5 by (auto simp: main_options_def case_prod_beta Let_def intro!: close_down_holds 6)
qed

section \<open>Progress\<close>

lemma wait_link_loop_iff:
  "fst (wait_link_loop M n st) \<longleftrightarrow>
   (\<exists>k < n. up_at M (cm_ups st + k) \<and> (\<forall>j < Suc k. \<not> stop_at M (cm_looks st + j)))"
proof (induction n arbitrary: st)
  case (Suc n)
  have "(\<forall>j < Suc (Suc k). \<not> stop_at M (cm_looks st + j)) \<longleftrightarrow>
      \<not> stop_at M (cm_looks st) \<and> (\<forall>j < Suc k. \<not> stop_at M (Suc (cm_looks st) + j))" for k
    by (subst All_less_Suc2) simp
  then show ?case
    using Suc.IH [of "(snd (look_stop M st))\<lparr>cm_ups := Suc (cm_ups st)\<rparr>"]
    by (auto simp: look_stop_def Let_def Ex_less_Suc2)
qed simp

lemma poll_loop_tries [simp]: "cm_tries (snd (poll_loop M ps st)) = cm_tries st"
proof (induction ps arbitrary: st)
  case (Cons p ps)
  then show ?case by (cases p) (simp_all add: case_prod_beta Let_def look_stop_def)
qed simp

lemma connect_loop_tries: "cm_tries (snd (connect_loop M n st)) \<le> cm_tries st + n"
proof (induction n arbitrary: st)
  case (Suc n)
  let ?st2 = "(snd (look_stop M st))\<lparr>cm_tries := Suc (cm_tries (snd (look_stop M st)))\<rparr>"
  let ?t = "try_at M (cm_tries (snd (look_stop M st)))"
  let ?st3 = "act (Sock_open (ct_socket ?t)) ?st2"
  show ?case
    using Suc.IH [of "snd (look_stop M (act (Sock_close (ct_socket ?t)) ?st3))"]
      Suc.IH [of "snd (look_stop M (act (Sock_close (ct_socket ?t)) (snd (poll_loop M (ct_polls ?t) ?st3))))"]
    by (auto simp: case_prod_beta Let_def look_stop_def act_def)
qed simp

lemma parse_loop_ok:
  "parse_loop ss options = Parsed o' \<Longrightarrow> 0 < o_baud o' \<and> 0 < o_port o' \<and> 0 < o_wait_seconds o'"
  by (induction ss options rule: parse_loop.induct) (auto split: if_splits)

section \<open>Properties\<close>

text \<open>
  C4: on every path through the client program, whatever fails and whenever the user interrupts
  it, everything it opened is closed again exactly once: the serial port, the PPP link and every
  RPC socket of every connection attempt, and nothing is used before it is open.
\<close>

theorem main_releases_everything:
  assumes "cm_trace st = []"
  shows "track (cm_trace (snd (main M ss st))) (False, False, []) = Some (False, False, [])"
proof -
  have "holds st (False, False, [])" using assms by (simp add: holds_def)
  then have "holds (snd (main M ss st)) (False, False, [])"
    by (auto simp: main_def main_options_holds split: parse_result.splits)
  then show ?thesis by (simp add: holds_def)
qed

definition lab_try :: connect_try where
  "lab_try = \<lparr>ct_socket = 7, ct_flags_ok = True, ct_connect = Connect_wait, ct_polls = [Poll_eintr, Poll_ready],
     ct_so_error_clear = False\<rparr>"

definition lab_main :: main_env where
  "lab_main = \<lparr>stop_at = (\<lambda>t. 4 < t), up_at = (\<lambda>t. 0 < t), pton_ok = (\<lambda>_. True), try_at = (\<lambda>_. lab_try),
     serial_ok = True, link_ok = True, start_ok = True\<rparr>"

definition fresh_main :: main_state where
  "fresh_main = \<lparr>cm_app = \<lparr>ac_rpc = lab_client [], ac_log = []\<rparr>, g_rpc_socket = -1, cm_looks = 0, cm_ups = 0,
     cm_tries = 0, cm_trace = []\<rparr>"

theorem main_releases_everything_witness:
  "track (cm_trace (snd (main lab_main [Sel_verbose] fresh_main))) (False, False, []) = Some (False, False, [])"
  by (rule main_releases_everything) (simp add: fresh_main_def)

text \<open>
  waiting for the link succeeds exactly when the link is up at one of the first ten polls per
  second of the limit and no stop was requested until then; in particular it always ends.
\<close>

lemma wait_for_link_iff:
  "fst (wait_for_link M seconds st) \<longleftrightarrow>
   (\<exists>k < nat (seconds * 10). up_at M (cm_ups st + k) \<and> (\<forall>j < Suc k. \<not> stop_at M (cm_looks st + j)))"
  by (simp only: wait_for_link_def wait_link_loop_iff)

text \<open>
  C9: connecting makes at most 50 attempts, and every socket it opens but does not return is closed
  by the time it returns.
\<close>

theorem connect_rpc_bounded:
  "cm_tries (snd (connect_rpc M host st)) \<le> cm_tries st + 50 \<and>
   (track (cm_trace st) (False, False, []) = Some (a, b, s) \<longrightarrow>
    track (cm_trace (snd (connect_rpc M host st))) (False, False, []) =
      Some (a, b, if fst (connect_rpc M host st) < 0 then s else fst (connect_rpc M host st) # s))"
  using connect_loop_tries [of M 50 st] connect_rpc_holds [of st a b s M host, OF _ prod.collapse [symmetric]]
  by (auto simp: connect_rpc_def holds_def)

theorem connect_rpc_bounded_witness:
  "track (cm_trace (snd (connect_rpc lab_main ''192.168.11.2'' fresh_main))) (False, False, []) =
     Some (False, False, if fst (connect_rpc lab_main ''192.168.11.2'' fresh_main) < 0 then []
       else [fst (connect_rpc lab_main ''192.168.11.2'' fresh_main)])"
  using connect_rpc_bounded [of lab_main "''192.168.11.2''" fresh_main False False "[]"]
  by (simp add: fresh_main_def)

text \<open>
  Options are accepted only with a positive baud rate, port and waiting time; a port argument
  is reduced modulo 65536 first, so 65537 is accepted and means port 1, and 65536 is rejected.
\<close>

lemma parse_options_checked:
  "(parse_options ss = Parsed o' \<longrightarrow> 0 < o_baud o' \<and> 0 < o_port o' \<and> 0 < o_wait_seconds o') \<and>
   parse_options [Sel_port ''65537''] = Parsed (default_options\<lparr>o_port := 1\<rparr>) \<and>
   parse_options [Sel_port ''65536''] = Rejected"
proof -
  have "atoi ''65537'' = 65537" "atoi ''65536'' = 65536"
    by (simp_all add: digit_of_def)
  then show ?thesis
    using parse_loop_ok [of ss default_options o'] by (simp add: parse_options_def default_options_def)
qed

end
