(* ===== verification/Reflection.thy ===== *)
theory Reflection
  imports Protocol
begin

text \<open>
  The reflection layer of \<^verbatim>\<open>zb_rpc_shared/include/zb_rpc/reflection.hpp\<close>: which types may travel
  (\<open>wire_safe\<close>), the names of the procedures (\<open>api_name\<close>) and the bounded text dump of payloads.
  What the C++ templates learn about a type by reflection is a value of type \<open>ctype\<close>, an object
  together with what its type says about it a value of type \<open>cvalue\<close>.
\<close>

section \<open>Types that may travel\<close>

datatype ctype =
    CT_void
  | CT_EmptyReq
  | CT_uint8
  | CT_char
  | CT_le16
  | CT_le32
  | CT_array ctype nat
  | CT_class string "(string \<times> ctype) list"
  | CT_other string

fun remove_all_extents :: "ctype \<Rightarrow> ctype" where
  "remove_all_extents (CT_array t n) = remove_all_extents t"
| "remove_all_extents t = t"

lemma remove_all_extents_size: "size (remove_all_extents t) \<le> size t"
  by (induction t rule: remove_all_extents.induct) simp_all

lemma member_size: "(x, t) \<in> set ms \<Longrightarrow> size t < Suc (size_list (size_prod (\<lambda>_. 0) size) ms)"
  by (induction ms) auto

function wire_safe :: "ctype \<Rightarrow> bool" where
  "wire_safe CT_void = True"
| "wire_safe CT_EmptyReq = True"
| "wire_safe CT_uint8 = True"
| "wire_safe CT_char = True"
| "wire_safe CT_le16 = True"
| "wire_safe CT_le32 = True"
| "wire_safe (CT_array t n) = wire_safe (remove_all_extents t)"
| "wire_safe (CT_class name members) = (\<forall>(x, t) \<in> set members. wire_safe t)"
| "wire_safe (CT_other name) = False"
  by pat_completeness auto
termination
proof (relation "measure size")
  show "(remove_all_extents t, CT_array t n) \<in> measure size" for t n
    using remove_all_extents_size [of t] by simp
  show "(t, CT_class name members) \<in> measure size" if "p \<in> set members" "(x, t) = p" for name members p x t
    using member_size [of x t members] that by auto
qed simp

section \<open>Names of the procedures\<close>

text \<open>The enumerators of \<open>api_id\<close> with their identifiers, in the order of the declaration.\<close>

definition api_enumerators :: "(api_enum \<times> string) list" where
  "api_enumerators =
     [(Api_error, ''error''), (Api_get_short_addr, ''get_short_addr''), (Api_get_panid, ''get_panid''),
      (Api_get_channel, ''get_channel''), (Api_open_network, ''open_network''), (Api_wait_annce, ''wait_annce''),
      (Api_find_sensor, ''find_sensor''), (Api_read_basic, ''read_basic''), (Api_bind_sensor, ''bind_sensor''),
      (Api_subscribe_sensor, ''subscribe_sensor''), (Api_config_report, ''config_report''),
      (Api_read_temp, ''read_temp''), (Api_get_last_temp, ''get_last_temp''),
      (Api_get_sensor_addr, ''get_sensor_addr'')]"

fun api_name_in :: "(api_enum \<times> string) list \<Rightarrow> api_id \<Rightarrow> string" where
  "api_name_in [] i = ''unknown''"
| "api_name_in ((a, name) # es) i = (if i = api_value a then name else api_name_in es i)"

definition api_name :: "api_id \<Rightarrow> string" where
  "api_name i = api_name_in api_enumerators i"

section \<open>The dump buffer\<close>

text \<open>
  \<open>db_text\<close> is the C string in \<open>data\<close> (384 bytes with the terminator), \<open>db_size\<close> the member \<open>size\<close>.
  \<open>append\<close> is \<open>snprintf\<close> at \<open>data + size\<close>: it keeps what fits and returns the full length.
\<close>

record DumpBuffer =
  db_text :: string
  db_size :: nat

definition dump_capacity :: nat where
  "dump_capacity = 384"

definition empty_dump :: DumpBuffer where
  "empty_dump = \<lparr>db_text = [], db_size = 0\<rparr>"

definition append_text :: "string \<Rightarrow> DumpBuffer \<Rightarrow> DumpBuffer" where
  "append_text t b =
     (if dump_capacity - 1 \<le> db_size b then b
      else let written = length t;
               text = take (db_size b) (db_text b) @ take (dump_capacity - db_size b - 1) t
           in if 0 < written
              then let new_size = db_size b + written
                   in b\<lparr>db_text := text, db_size := (if dump_capacity \<le> new_size then dump_capacity - 1 else new_size)\<rparr>
              else b\<lparr>db_text := text\<rparr>)"

section \<open>Dumping a value\<close>

datatype cvalue =
    CV_EmptyReq
  | CV_uint8 u8
  | CV_char u8
  | CV_le16 le16
  | CV_le32 le32
  | CV_chars bytes
  | CV_array "cvalue list"
  | CV_class string "(string \<times> cvalue) list"

text \<open>The conversions \<open>%c\<close>, \<open>%u\<close> and \<open>%0<n>x\<close>.\<close>

definition byte_char :: "u8 \<Rightarrow> char" where
  "byte_char b = char_of (unat b)"

definition hex_digit :: "nat \<Rightarrow> char" where
  "hex_digit n = (if n < 10 then char_of (48 + n) else char_of (87 + n))"

fun hex_fixed :: "nat \<Rightarrow> nat \<Rightarrow> string" where
  "hex_fixed 0 n = []"
| "hex_fixed (Suc w) n = hex_fixed w (n div 16) @ [hex_digit (n mod 16)]"

fun decimal :: "nat \<Rightarrow> string" where
  "decimal n = (if n < 10 then [char_of (48 + n)] else decimal (n div 10) @ [char_of (48 + n mod 10)])"

declare decimal.simps [simp del]

fun dump_chars :: "bytes \<Rightarrow> DumpBuffer \<Rightarrow> DumpBuffer" where
  "dump_chars [] buffer = buffer"
| "dump_chars (c # cs) buffer = (if c = 0 then buffer else dump_chars cs (append_text [byte_char c] buffer))"

fun dump_value :: "cvalue \<Rightarrow> DumpBuffer \<Rightarrow> DumpBuffer"
  and dump_elements :: "bool \<Rightarrow> cvalue list \<Rightarrow> DumpBuffer \<Rightarrow> DumpBuffer"
  and dump_members :: "bool \<Rightarrow> (string \<times> cvalue) list \<Rightarrow> DumpBuffer \<Rightarrow> DumpBuffer" where
  "dump_value CV_EmptyReq buffer = append_text ''{}'' buffer"
| "dump_value (CV_le32 v) buffer = append_text (''0x'' @ hex_fixed 8 (unat (from_le32 v))) buffer"
| "dump_value (CV_le16 v) buffer = append_text (''0x'' @ hex_fixed 4 (unat (from_le16 v))) buffer"
| "dump_value (CV_uint8 v) buffer = append_text (decimal (unat v)) buffer"
| "dump_value (CV_char v) buffer = append_text (CHR 0x27 # byte_char v # [CHR 0x27]) buffer"
| "dump_value (CV_chars cs) buffer = append_text [CHR 0x22] (dump_chars cs (append_text [CHR 0x22] buffer))"
| "dump_value (CV_array vs) buffer = append_text '']'' (dump_elements True vs (append_text ''['' buffer))"
| "dump_value (CV_class name ms) buffer =
     append_text '' }'' (dump_members True ms (append_text (name @ '' { '') buffer))"
| "dump_elements first [] buffer = buffer"
| "dump_elements first (v # vs) buffer =
     dump_elements False vs (dump_value v (if first then buffer else append_text '', '' buffer))"
| "dump_members first [] buffer = buffer"
| "dump_members first ((x, v) # ms) buffer =
     dump_members False ms
       (dump_value v (append_text (x @ ''='') (if first then buffer else append_text '', '' buffer)))"

definition dump :: "cvalue \<Rightarrow> string" where
  "dump v = db_text (dump_value v empty_dump)"

section \<open>Reference: the text without a limit\<close>

fun chars_text :: "bytes \<Rightarrow> string" where
  "chars_text cs = map byte_char (takeWhile (\<lambda>c. c \<noteq> 0) cs)"

fun value_text :: "cvalue \<Rightarrow> string"
  and elements_text :: "bool \<Rightarrow> cvalue list \<Rightarrow> string"
  and members_text :: "bool \<Rightarrow> (string \<times> cvalue) list \<Rightarrow> string" where
  "value_text CV_EmptyReq = ''{}''"
| "value_text (CV_le32 v) = ''0x'' @ hex_fixed 8 (unat (from_le32 v))"
| "value_text (CV_le16 v) = ''0x'' @ hex_fixed 4 (unat (from_le16 v))"
| "value_text (CV_uint8 v) = decimal (unat v)"
| "value_text (CV_char v) = CHR 0x27 # byte_char v # [CHR 0x27]"
| "value_text (CV_chars cs) = CHR 0x22 # chars_text cs @ [CHR 0x22]"
| "value_text (CV_array vs) = ''['' @ elements_text True vs @ '']''"
| "value_text (CV_class name ms) = name @ '' { '' @ members_text True ms @ '' }''"
| "elements_text first [] = []"
| "elements_text first (v # vs) = (if first then [] else '', '') @ value_text v @ elements_text False vs"
| "members_text first [] = []"
| "members_text first ((x, v) # ms) =
     (if first then [] else '', '') @ x @ ''='' @ value_text v @ members_text False ms"

text \<open>The buffer that holds the first 383 characters of \<open>t\<close>.\<close>

definition holding :: "string \<Rightarrow> DumpBuffer" where
  "holding t = \<lparr>db_text = take (dump_capacity - 1) t, db_size = min (dump_capacity - 1) (length t)\<rparr>"

lemma append_holding [simp]: "append_text t (holding s) = holding (s @ t)"
  by (auto simp: append_text_def holding_def dump_capacity_def min_def Let_def)

lemma dump_chars_holding [simp]: "dump_chars cs (holding s) = holding (s @ chars_text cs)"
  by (induction cs arbitrary: s) simp_all

lemma dump_holding:
  "dump_value v (holding s) = holding (s @ value_text v)"
  "dump_elements first vs (holding s) = holding (s @ elements_text first vs)"
  "dump_members first ms (holding s) = holding (s @ members_text first ms)"
proof (induction v and first vs and first ms arbitrary: s and s and s
    rule: value_text_elements_text_members_text.induct)
qed (simp_all del: chars_text.simps)

lemma empty_holding: "empty_dump = holding []"
  by (simp add: empty_dump_def holding_def)

lemma hex_fixed_length [simp]: "length (hex_fixed w n) = w"
  by (induction w arbitrary: n) simp_all

lemma decimal_length: "n < 10 ^ Suc k \<Longrightarrow> length (decimal n) \<le> Suc k"
proof (induction k arbitrary: n)
  case 0
  then show ?case by (simp add: decimal.simps)
next
  case (Suc k)
  have "n div 10 < 10 ^ Suc k" using Suc.prems by (simp add: less_mult_imp_div_less)
  from Suc.IH [OF this] show ?case by (subst decimal.simps) simp
qed

section \<open>The payload types of the protocol\<close>

definition ct_ErrorResp :: ctype where
  "ct_ErrorResp = CT_class ''ErrorResp'' [(''code'', CT_le32)]"

definition ct_U8Resp :: ctype where
  "ct_U8Resp = CT_class ''U8Resp'' [(''value'', CT_uint8)]"

definition ct_U16Resp :: ctype where
  "ct_U16Resp = CT_class ''U16Resp'' [(''value'', CT_le16)]"

definition ct_I16Resp :: ctype where
  "ct_I16Resp = CT_class ''I16Resp'' [(''value'', CT_le16)]"

definition ct_I32Resp :: ctype where
  "ct_I32Resp = CT_class ''I32Resp'' [(''value'', CT_le32)]"

definition ct_OpenNetworkReq :: ctype where
  "ct_OpenNetworkReq = CT_class ''OpenNetworkReq'' [(''duration'', CT_uint8)]"

definition ct_FindSensorReq :: ctype where
  "ct_FindSensorReq = CT_class ''FindSensorReq'' [(''short_addr'', CT_le16)]"

definition ct_zb_addr_t :: ctype where
  "ct_zb_addr_t = CT_class ''zb_addr_t'' [(''err'', CT_le32), (''short_addr'', CT_le16), (''ep'', CT_uint8)]"

definition ct_zb_basic_t :: ctype where
  "ct_zb_basic_t = CT_class ''zb_basic_t'' [(''err'', CT_le32), (''manufacturer'', CT_array CT_char 16), (''model'', CT_array CT_char 16)]"

definition ct_zb_temp_t :: ctype where
  "ct_zb_temp_t = CT_class ''zb_temp_t'' [(''err'', CT_le32), (''measured'', CT_le16), (''min_measured'', CT_le16), (''max_measured'', CT_le16), (''tolerance'', CT_le16)]"

lemmas ct_defs =
  ct_ErrorResp_def ct_U8Resp_def ct_U16Resp_def ct_I16Resp_def ct_I32Resp_def ct_OpenNetworkReq_def ct_FindSensorReq_def ct_zb_addr_t_def ct_zb_basic_t_def ct_zb_temp_t_def

definition protocol_types :: "ctype list" where
  "protocol_types =
     [CT_EmptyReq, ct_ErrorResp, ct_U8Resp, ct_U16Resp, ct_I16Resp, ct_I32Resp, ct_OpenNetworkReq, ct_FindSensorReq, ct_zb_addr_t, ct_zb_basic_t, ct_zb_temp_t]"

definition basic_value :: "zb_basic_t \<Rightarrow> cvalue" where
  "basic_value b = CV_class ''zb_basic_t'' [(''err'', CV_le32 (zb_err b)),
     (''manufacturer'', CV_chars (zb_manufacturer b)), (''model'', CV_chars (zb_model b))]"

section \<open>Properties\<close>

text \<open>
  Dumping a payload of any type never writes past the 384 bytes of the buffer, and the text is
  exactly the first 383 characters of the unbounded rendering, so it is complete when it fits.
\<close>

lemma dump_is_prefix:
  "dump v = take 383 (value_text v) \<and> length (dump v) < dump_capacity"
  by (simp add: dump_def empty_holding dump_holding) (simp add: holding_def dump_capacity_def)

text \<open>
  The dump of the largest payload of the protocol is never cut, whatever bytes it holds.
\<close>

lemma dump_basic_complete:
  assumes "length (zb_manufacturer b) = 16" "length (zb_model b) = 16"
  shows "dump (basic_value b) = value_text (basic_value b)"
proof -
  have "length (takeWhile (\<lambda>c. c \<noteq> 0) cs) \<le> length cs" for cs :: bytes
    by (rule length_takeWhile_le)
  from this [of "zb_manufacturer b"] this [of "zb_model b"] assms
  have "length (value_text (basic_value b)) \<le> 383" by (simp add: basic_value_def)
  then show ?thesis by (simp add: dump_def empty_holding dump_holding) (simp add: holding_def dump_capacity_def)
qed

text \<open>
  Procedure names identify procedures: every enumerator has its own name, and an identifier
  that is no enumerator is reported as unknown.
\<close>

lemma api_name_unique:
  "api_name (api_value a) = api_name (api_value b) \<longleftrightarrow> a = b"
  by (cases a; cases b) (simp_all add: api_name_def api_enumerators_def)


end
