(* ===== verification/Host_Sim.thy ===== *)
theory Host_Sim
  imports Client_Main Reflection
begin

text \<open>
  The host simulation under \<^verbatim>\<open>zb_rpc/\<close>: the simulated coordinator (\<open>src/sim_zigbee.cpp\<close>), the
  catalogue derived from its function signatures (\<open>auto_rpc.hpp\<close>, \<open>catalog.hpp\<close>), the fold-based
  dispatcher (\<open>dispatch.hpp\<close>), the socket helpers (\<open>sock.hpp\<close>) and the server program.
\<close>

section \<open>The simulated coordinator\<close>

record sim_state =
  g_short_addr :: u16
  g_panid :: u16
  g_channel :: u8
  g_sensor_short :: u16
  g_sensor_ep :: u8
  g_temp :: int
  g_permit_join :: bool
  g_joined :: bool

definition sim_init :: sim_state where
  "sim_init = \<lparr>g_short_addr = 0, g_panid = 0x4c19, g_channel = 13, g_sensor_short = 0x1956, g_sensor_ep = 0x0a,
     g_temp = 1300, g_permit_join = False, g_joined = False\<rparr>"

definition bump_temp :: "sim_state \<Rightarrow> sim_state" where
  "bump_temp s = (if g_temp s < 1800 then s\<lparr>g_temp := g_temp s + 100\<rparr> else s)"

definition sim_get_short_addr :: "EmptyReq \<Rightarrow> sim_state \<Rightarrow> U16Resp \<times> sim_state" where
  "sim_get_short_addr r s = (\<lparr>u16_value = to_le16 (g_short_addr s)\<rparr>, s)"

definition sim_get_panid :: "EmptyReq \<Rightarrow> sim_state \<Rightarrow> U16Resp \<times> sim_state" where
  "sim_get_panid r s = (\<lparr>u16_value = to_le16 (g_panid s)\<rparr>, s)"

definition sim_get_channel :: "EmptyReq \<Rightarrow> sim_state \<Rightarrow> U8Resp \<times> sim_state" where
  "sim_get_channel r s = (\<lparr>u8_value = g_channel s\<rparr>, s)"

definition sim_open_network :: "OpenNetworkReq \<Rightarrow> sim_state \<Rightarrow> I32Resp \<times> sim_state" where
  "sim_open_network request s = (\<lparr>i32_value = to_le32_s 0\<rparr>, s\<lparr>g_permit_join := (on_duration request \<noteq> 0)\<rparr>)"

definition sim_wait_annce :: "EmptyReq \<Rightarrow> sim_state \<Rightarrow> U16Resp \<times> sim_state" where
  "sim_wait_annce r s = (\<lparr>u16_value = to_le16 (g_sensor_short s)\<rparr>, s\<lparr>g_joined := True\<rparr>)"

definition sim_find_sensor :: "FindSensorReq \<Rightarrow> sim_state \<Rightarrow> zb_addr_t \<times> sim_state" where
  "sim_find_sensor request s =
     (let short_addr = from_le16 (fs_short_addr request);
          out = \<lparr>za_err = to_le32_s 0, za_short_addr = to_le16 0, za_ep = 0\<rparr>
      in if \<not> g_joined s \<or> short_addr \<noteq> g_sensor_short s then (out\<lparr>za_err := to_le32_s (-1)\<rparr>, s)
         else (\<lparr>za_err = to_le32_s 0, za_short_addr = to_le16 (g_sensor_short s), za_ep = g_sensor_ep s\<rparr>, s))"

text \<open>\<open>strncpy(dst, src, 15)\<close> into a zeroed array of 16.\<close>

definition str16 :: "string \<Rightarrow> bytes" where
  "str16 t = map (\<lambda>c. of_nat (of_char c)) (take 15 t) @ replicate (16 - length (take 15 t)) 0"

definition sim_read_basic :: "zb_addr_t \<Rightarrow> sim_state \<Rightarrow> zb_basic_t \<times> sim_state" where
  "sim_read_basic addr s =
     (let out = \<lparr>zb_err = to_le32_s 0, zb_manufacturer = replicate 16 0, zb_model = replicate 16 0\<rparr>
      in if from_le16 (za_short_addr addr) \<noteq> g_sensor_short s then (out\<lparr>zb_err := to_le32_s (-1)\<rparr>, s)
         else (\<lparr>zb_err = to_le32_s 0, zb_manufacturer = str16 ''ESPRESSIF'', zb_model = str16 ''esp32h2''\<rparr>, s))"

definition sim_status :: "zb_addr_t \<Rightarrow> sim_state \<Rightarrow> I32Resp" where
  "sim_status addr s = \<lparr>i32_value = to_le32_s (if from_le16 (za_short_addr addr) = g_sensor_short s then 0 else -1)\<rparr>"

definition sim_bind_sensor :: "zb_addr_t \<Rightarrow> sim_state \<Rightarrow> I32Resp \<times> sim_state" where
  "sim_bind_sensor addr s = (sim_status addr s, s)"

definition sim_subscribe_sensor :: "zb_addr_t \<Rightarrow> sim_state \<Rightarrow> I32Resp \<times> sim_state" where
  "sim_subscribe_sensor addr s = (sim_status addr s, s)"

definition sim_config_report :: "zb_addr_t \<Rightarrow> sim_state \<Rightarrow> I32Resp \<times> sim_state" where
  "sim_config_report addr s = (sim_status addr s, s)"

definition sim_read_temp :: "zb_addr_t \<Rightarrow> sim_state \<Rightarrow> zb_temp_t \<times> sim_state" where
  "sim_read_temp addr s =
     (let out = \<lparr>zt_err = to_le32_s 0, zt_measured = to_le16 0, zt_min_measured = to_le16 0,
                 zt_max_measured = to_le16 0, zt_tolerance = to_le16 0\<rparr>
      in if from_le16 (za_short_addr addr) \<noteq> g_sensor_short s then (out\<lparr>zt_err := to_le32_s (-1)\<rparr>, s)
         else let s' = bump_temp s
              in (\<lparr>zt_err = to_le32_s 0, zt_measured = to_le16_s (g_temp s'), zt_min_measured = to_le16_s (-1000),
                   zt_max_measured = to_le16_s 8000, zt_tolerance = to_le16_s 0\<rparr>, s'))"

definition sim_get_last_temp :: "EmptyReq \<Rightarrow> sim_state \<Rightarrow> I16Resp \<times> sim_state" where
  "sim_get_last_temp r s = (let s' = bump_temp s in (\<lparr>i16_value = to_le16_s (g_temp s')\<rparr>, s'))"

section \<open>The catalogue derived from the signatures\<close>

text \<open>The host copy of the protocol knows every procedure but \<open>get_sensor_addr\<close>.\<close>

definition host_enumerators :: "(api_enum \<times> string) list" where
  "host_enumerators =
     [(Api_error, ''error''), (Api_get_short_addr, ''get_short_addr''), (Api_get_panid, ''get_panid''),
      (Api_get_channel, ''get_channel''), (Api_open_network, ''open_network''), (Api_wait_annce, ''wait_annce''),
      (Api_find_sensor, ''find_sensor''), (Api_read_basic, ''read_basic''), (Api_bind_sensor, ''bind_sensor''),
      (Api_subscribe_sensor, ''subscribe_sensor''), (Api_config_report, ''config_report''),
      (Api_read_temp, ''read_temp''), (Api_get_last_temp, ''get_last_temp'')]"

text \<open>A name without enumerator makes the program ill-formed: \<open>None\<close>.\<close>

fun id_for_name_in :: "(api_enum \<times> string) list \<Rightarrow> string \<Rightarrow> api_enum option" where
  "id_for_name_in [] name = None"
| "id_for_name_in ((a, x) # es) name = (if x = name then Some a else id_for_name_in es name)"

definition id_for_name :: "string \<Rightarrow> api_enum option" where
  "id_for_name name = id_for_name_in host_enumerators name"

text \<open>
  What reflection tells about a member of a namespace; \<open>nm_call\<close> is the code instantiated for it,
  given its identifier.
\<close>

type_synonym sim_call = "frame_header \<Rightarrow> engine \<times> sim_state \<Rightarrow> invoke_result \<times> engine \<times> sim_state"

record ns_member =
  nm_function :: bool
  nm_identifier :: "string option"
  nm_special :: bool
  nm_constructor :: bool
  nm_destructor :: bool
  nm_params :: nat
  nm_request :: ctype
  nm_response :: ctype
  nm_call :: "api_enum \<Rightarrow> sim_call"

definition is_rpc_handler :: "ns_member \<Rightarrow> bool" where
  "is_rpc_handler m =
     (nm_function m \<and> nm_identifier m \<noteq> None \<and> \<not> nm_special m \<and> \<not> nm_constructor m \<and> \<not> nm_destructor m \<and>
      nm_params m = 1)"

text \<open>A static assertion that fails makes the program ill-formed as well.\<close>

definition fn_desc ::
    "string \<Rightarrow> ctype \<Rightarrow> 'req wire_type \<Rightarrow> ctype \<Rightarrow> 'resp wire_type \<Rightarrow> ('req, 'resp) rpc_desc option" where
  "fn_desc name ct_req T ct_resp R =
     (case id_for_name name of
        None \<Rightarrow> None
      | Some a \<Rightarrow>
          if wire_safe ct_req \<and> wire_safe ct_resp \<and> (wt_is_empty T \<or> wt_size T \<le> unat k_max_payload) \<and>
            wt_size R \<le> unat k_max_payload
          then Some \<lparr>desc_id = a, desc_req = T, desc_resp = R\<rparr> else None)"

text \<open>The body of \<open>dispatch_ns\<close> for one matching member.\<close>

definition ns_call ::
    "'req wire_type \<Rightarrow> 'resp wire_type \<Rightarrow> ('req \<Rightarrow> sim_state \<Rightarrow> 'resp \<times> sim_state) \<Rightarrow> api_enum \<Rightarrow> sim_call" where
  "ns_call T R f a header es =
     (let (e, st) = es
      in case receive_payload T header e of
           (None, e1) \<Rightarrow>
             (Failed, if last_error e1 \<noteq> Err_none then snd (send_error (last_error e1) e1) else e1, st)
         | (Some request, e1) \<Rightarrow>
             let (response, st') = f request st;
                 (ok, e2) = send R (api_value a) response e1
             in (if ok then Handled else Failed, e2, st'))"

fun dispatch_ns :: "ns_member list \<Rightarrow> sim_call" where
  "dispatch_ns [] header es = (No_match, es)"
| "dispatch_ns (m # ms) header es =
     (if is_rpc_handler m
      then case nm_identifier m of
             None \<Rightarrow> dispatch_ns ms header es
           | Some name \<Rightarrow>
               (case id_for_name name of
                  None \<Rightarrow> dispatch_ns ms header es
                | Some a \<Rightarrow> if fh_id header = api_value a then nm_call m a header es
                            else dispatch_ns ms header es)
      else dispatch_ns ms header es)"

definition rpc_member ::
    "string \<Rightarrow> ctype \<Rightarrow> ctype \<Rightarrow> 'req wire_type \<Rightarrow> 'resp wire_type \<Rightarrow>
     ('req \<Rightarrow> sim_state \<Rightarrow> 'resp \<times> sim_state) \<Rightarrow> ns_member" where
  "rpc_member name req resp T R f =
     \<lparr>nm_function = True, nm_identifier = Some name, nm_special = False, nm_constructor = False, nm_destructor = False, nm_params = 1,
      nm_request = req, nm_response = resp, nm_call = ns_call T R f\<rparr>"

text \<open>The members of namespace \<open>sim\<close>, as \<^verbatim>\<open>sim_zigbee.hpp\<close> declares them.\<close>

definition sim_members :: "ns_member list" where
  "sim_members =
     [rpc_member ''get_short_addr'' CT_EmptyReq ct_U16Resp EmptyReq_type U16Resp_type sim_get_short_addr,
      rpc_member ''get_panid'' CT_EmptyReq ct_U16Resp EmptyReq_type U16Resp_type sim_get_panid,
      rpc_member ''get_channel'' CT_EmptyReq ct_U8Resp EmptyReq_type U8Resp_type sim_get_channel,
      rpc_member ''open_network'' ct_OpenNetworkReq ct_I32Resp OpenNetworkReq_type I32Resp_type sim_open_network,
      rpc_member ''wait_annce'' CT_EmptyReq ct_U16Resp EmptyReq_type U16Resp_type sim_wait_annce,
      rpc_member ''find_sensor'' ct_FindSensorReq ct_zb_addr_t FindSensorReq_type zb_addr_type sim_find_sensor,
      rpc_member ''read_basic'' ct_zb_addr_t ct_zb_basic_t zb_addr_type zb_basic_type sim_read_basic,
      rpc_member ''bind_sensor'' ct_zb_addr_t ct_I32Resp zb_addr_type I32Resp_type sim_bind_sensor,
      rpc_member ''subscribe_sensor'' ct_zb_addr_t ct_I32Resp zb_addr_type I32Resp_type sim_subscribe_sensor,
      rpc_member ''config_report'' ct_zb_addr_t ct_I32Resp zb_addr_type I32Resp_type sim_config_report,
      rpc_member ''read_temp'' ct_zb_addr_t ct_zb_temp_t zb_addr_type zb_temp_type sim_read_temp,
      rpc_member ''get_last_temp'' CT_EmptyReq ct_I16Resp EmptyReq_type I16Resp_type sim_get_last_temp]"

section \<open>The catalogue text\<close>

text \<open>\<open>append_u32\<close>: digits are collected from the low end in \<open>tmp\<close> (16 bytes), then written back to front.\<close>

function tmp_digits :: "u32 \<Rightarrow> string" where
  "tmp_digits n = (if n = 0 then [] else char_of (48 + unat (n mod 10)) # tmp_digits (n div 10))"
  by pat_completeness auto
termination
  by (relation "measure unat") (auto simp: unat_div unat_gt_0)

declare tmp_digits.simps [simp del]

definition append_u32 :: "string \<Rightarrow> u32 \<Rightarrow> string" where
  "append_u32 out n = out @ rev (if n = 0 then ''0'' else tmp_digits n)"

text \<open>\<open>display_string_of\<close> for the class types of the protocol.\<close>

fun display_string_of :: "ctype \<Rightarrow> string" where
  "display_string_of CT_EmptyReq = ''EmptyReq''"
| "display_string_of (CT_class name members) = name"
| "display_string_of t = []"

definition append_catalog_line :: "string \<Rightarrow> string \<Rightarrow> api_enum \<Rightarrow> ns_member \<Rightarrow> string" where
  "append_catalog_line out name a m =
     append_u32 (out @ ''  '' @ name @ '' id='') (api_value a) @ '' req='' @ display_string_of (nm_request m) @
     '' resp='' @ display_string_of (nm_response m) @ [CHR 0x0A]"

fun catalog_lines :: "ns_member list \<Rightarrow> string \<Rightarrow> nat \<Rightarrow> (string \<times> nat) option" where
  "catalog_lines [] out count = Some (out, count)"
| "catalog_lines (m # ms) out count =
     (if is_rpc_handler m
      then if \<not> wire_safe (nm_request m) \<or> \<not> wire_safe (nm_response m) then None
           else case nm_identifier m of
             None \<Rightarrow> None
           | Some name \<Rightarrow>
               (case id_for_name name of
                  None \<Rightarrow> None
                | Some a \<Rightarrow> catalog_lines ms (append_catalog_line out name a m) (count + 1))
      else catalog_lines ms out count)"

definition catalog_dump :: "ns_member list \<Rightarrow> string option" where
  "catalog_dump ms =
     (case catalog_lines ms (''rpc catalog:'' @ [CHR 0x0A]) 0 of
        None \<Rightarrow> None
      | Some (out, count) \<Rightarrow> if count = 0 then None else Some out)"

definition verify_catalog :: "ns_member list \<Rightarrow> bool" where
  "verify_catalog ms = (catalog_dump ms \<noteq> None)"

section \<open>Fold-based dispatch\<close>

text \<open>\<open>dispatch<Handlers...>\<close>: every handler is tried while the result is \<open>no_match\<close>.\<close>

definition dispatch_fold :: "sim_call list \<Rightarrow> sim_call" where
  "dispatch_fold handlers header es =
     fold (\<lambda>h r. case r of (No_match, es') \<Rightarrow> h header es' | _ \<Rightarrow> r) handlers (No_match, es)"

definition sim_handlers :: "sim_call list" where
  "sim_handlers =
     [invoke_one desc_get_short_addr sim_get_short_addr, invoke_one desc_get_panid sim_get_panid,
      invoke_one desc_get_channel sim_get_channel, invoke_one desc_open_network sim_open_network,
      invoke_one desc_wait_annce sim_wait_annce, invoke_one desc_find_sensor sim_find_sensor,
      invoke_one desc_read_basic sim_read_basic, invoke_one desc_bind_sensor sim_bind_sensor,
      invoke_one desc_subscribe_sensor sim_subscribe_sensor, invoke_one desc_config_report sim_config_report,
      invoke_one desc_read_temp sim_read_temp, invoke_one desc_get_last_temp sim_get_last_temp]"

section \<open>Sockets\<close>

text \<open>The answers of the socket library to one call of a helper; open descriptors are listed.\<close>

record sock_env =
  se_socket :: int
  se_pton_ok :: bool
  se_bind_ok :: bool
  se_listen_ok :: bool
  se_connect_ok :: bool
  se_accept :: int

definition rpc_listen :: "sock_env \<Rightarrow> int list \<Rightarrow> int \<times> int list" where
  "rpc_listen S fds =
     (let fd = se_socket S
      in if fd < 0 then (-1, fds)
         else let fds1 = fd # fds
              in if \<not> se_pton_ok S then (-1, remove1 fd fds1)
                 else if \<not> se_bind_ok S then (-1, remove1 fd fds1)
                 else if \<not> se_listen_ok S then (-1, remove1 fd fds1)
                 else (fd, fds1))"

definition rpc_accept :: "sock_env \<Rightarrow> int list \<Rightarrow> int \<times> int list" where
  "rpc_accept S fds = (let fd = se_accept S in (fd, if fd < 0 then fds else fd # fds))"

definition rpc_connect :: "sock_env \<Rightarrow> int list \<Rightarrow> int \<times> int list" where
  "rpc_connect S fds =
     (let fd = se_socket S
      in if fd < 0 then (-1, fds)
         else let fds1 = fd # fds
              in if \<not> se_pton_ok S then (-1, remove1 fd fds1)
                 else if \<not> se_connect_ok S then (-1, remove1 fd fds1)
                 else (fd, fds1))"

section \<open>The server program\<close>

definition handle_commands :: "engine \<times> sim_state \<Rightarrow> bool \<times> engine \<times> sim_state" where
  "handle_commands es =
     (let (e, st) = es
      in case receive_header e of
           (None, e1) \<Rightarrow>
             (False, if last_error e1 \<noteq> Err_none then snd (send_error (last_error e1) e1) else e1, st)
         | (Some header, e1) \<Rightarrow>
             if fh_id header = api_value Api_error then (False, e1, st)
             else case dispatch_ns sim_members header (e1, st) of
                    (No_match, e2, st2) \<Rightarrow>
                      (case discard_payload (fh_size header) e2 of
                         (False, e3) \<Rightarrow> (False, e3, st2)
                       | (True, e3) \<Rightarrow> (False, snd (send_error Unknown_api e3), st2))
                  | (Handled, e2, st2) \<Rightarrow> (True, e2, st2)
                  | (Failed, e2, st2) \<Rightarrow> (False, e2, st2))"

lemma ns_call_pending: "ns_call T R f a h (e, st) = (r, e', st') \<Longrightarrow> pending e' \<le> pending e"
  by (auto simp: ns_call_def Let_def send_error_pending
      dest!: send_pending receive_payload_pending split: prod.splits option.splits if_splits)

definition member_ok :: "ns_member \<Rightarrow> bool" where
  "member_ok m = (\<forall>a h e st r e' st'. nm_call m a h (e, st) = (r, e', st') \<longrightarrow> pending e' \<le> pending e)"

lemma rpc_member_ok: "member_ok (rpc_member x y z T R f)"
  by (auto simp: member_ok_def rpc_member_def dest: ns_call_pending)

lemma member_okD: "member_ok m \<Longrightarrow> nm_call m a h (e, st) = (r, e', st') \<Longrightarrow> pending e' \<le> pending e"
  unfolding member_ok_def by blast

lemma dispatch_ns_pending:
  "list_all member_ok ms \<Longrightarrow> dispatch_ns ms h (e, st) = (r, e', st') \<Longrightarrow> pending e' \<le> pending e"
  by (induction ms) (auto dest: member_okD split: if_splits option.splits)

lemma sim_members_ok: "list_all member_ok sim_members"
  by (simp add: sim_members_def rpc_member_ok)

lemma handle_commands_pending:
  assumes "handle_commands (e, st) = (True, e', st')"
  shows "pending e' < pending e"
proof -
  obtain h e1 where h: "receive_header e = (Some h, e1)"
    using assms by (auto simp: handle_commands_def split: prod.splits option.splits)
  from receive_header_pending [OF h] assms h show ?thesis
    by (auto simp: handle_commands_def split: prod.splits invoke_result.splits bool.splits if_splits
        dest!: dispatch_ns_pending [OF sim_members_ok])
qed

function handle_loop :: "engine \<times> sim_state \<Rightarrow> engine \<times> sim_state" where
  "handle_loop es = (case handle_commands es of (ok, es') \<Rightarrow> if ok then handle_loop es' else es')"
  by pat_completeness auto
termination
  by (relation "measure (\<lambda>(e, st). pending e)") (auto dest: handle_commands_pending [OF sym])

declare handle_loop.simps [simp del]

text \<open>The answers of the sockets may depend on the address; \<open>args\<close> is \<open>argv\<close> with the program name.\<close>

definition host_default_host :: string where
  "host_default_host = ''127.0.0.1''"

definition host_address :: "string list \<Rightarrow> string \<times> u16" where
  "host_address args =
     (if length args > 1 then args ! 1 else host_default_host,
      if length args > 2 then word_of_int (atoi (args ! 2)) else k_default_port)"

definition sim_server_main ::
    "(string \<Rightarrow> u16 \<Rightarrow> sock_env) \<Rightarrow> (int \<Rightarrow> sock) \<Rightarrow> string list \<Rightarrow> int list \<Rightarrow> sim_state \<Rightarrow>
     int \<times> int list \<times> (engine \<times> sim_state) option" where
  "sim_server_main S socks args fds st =
     (let (host, port) = host_address args;
          (listen_fd, fds1) = rpc_listen (S host port) fds
      in if listen_fd < 0 then (1, fds1, None)
         else let (conn, fds2) = rpc_accept (S host port) fds1;
                  fds3 = remove1 listen_fd fds2
              in if conn < 0 then (1, fds3, None)
                 else let es = handle_loop (mk_engine (socks conn), st)
                      in (0, remove1 conn fds3, Some es))"

section \<open>The two dispatchers agree\<close>

lemma ns_call_invoke_one:
  "fh_id header = api_value (desc_id D) \<Longrightarrow>
   ns_call (desc_req D) (desc_resp D) f (desc_id D) header es = invoke_one D f header es"
  by (simp add: ns_call_def invoke_one_def split: prod.splits)

lemma dispatch_ns_member:
  assumes "id_for_name name = Some (desc_id D)"
  shows "dispatch_ns (rpc_member name x y (desc_req D) (desc_resp D) f # ms) header es =
    (case invoke_one D f header es of (No_match, es') \<Rightarrow> dispatch_ns ms header es' | r \<Rightarrow> r)"
proof (cases "fh_id header = api_value (desc_id D)")
  case True
  then have "fst (invoke_one D f header es) \<noteq> No_match"
    by (auto simp: invoke_one_def Let_def split: prod.splits option.splits)
  then have "(case invoke_one D f header es of (No_match, es') \<Rightarrow> dispatch_ns ms header es' | r \<Rightarrow> r) =
      invoke_one D f header es"
    by (cases "invoke_one D f header es") (simp split: invoke_result.split)
  with True assms show ?thesis
    by (simp add: rpc_member_def is_rpc_handler_def ns_call_invoke_one)
next
  case False
  with assms show ?thesis
    by (simp add: rpc_member_def is_rpc_handler_def invoke_one_def split: prod.splits)
qed

definition fold_step :: "frame_header \<Rightarrow> sim_call \<Rightarrow> invoke_result \<times> engine \<times> sim_state \<Rightarrow> invoke_result \<times> engine \<times> sim_state" where
  "fold_step header h r = (case r of (No_match, es') \<Rightarrow> h header es' | _ \<Rightarrow> r)"

lemma fold_step_matched: "fst r \<noteq> No_match \<Longrightarrow> fold (fold_step header) hs r = r"
proof (induction hs)
  case (Cons h hs)
  then have "fold_step header h r = r"
    by (cases r) (simp add: fold_step_def split: invoke_result.splits)
  with Cons show ?case by simp
qed simp

lemma fold_step_Cons:
  "fold (fold_step header) (h # hs) (No_match, es) =
     (case h header es of (No_match, es') \<Rightarrow> fold (fold_step header) hs (No_match, es') | r \<Rightarrow> r)"
proof (cases "h header es")
  case (fields r e st)
  then show ?thesis
    using fold_step_matched [of "h header es" header hs]
    by (cases r) (simp_all add: fold_step_def)
qed

lemma ids_for_names:
  "id_for_name ''get_short_addr'' = Some (desc_id desc_get_short_addr)"
  "id_for_name ''get_panid'' = Some (desc_id desc_get_panid)"
  "id_for_name ''get_channel'' = Some (desc_id desc_get_channel)"
  "id_for_name ''open_network'' = Some (desc_id desc_open_network)"
  "id_for_name ''wait_annce'' = Some (desc_id desc_wait_annce)"
  "id_for_name ''find_sensor'' = Some (desc_id desc_find_sensor)"
  "id_for_name ''read_basic'' = Some (desc_id desc_read_basic)"
  "id_for_name ''bind_sensor'' = Some (desc_id desc_bind_sensor)"
  "id_for_name ''subscribe_sensor'' = Some (desc_id desc_subscribe_sensor)"
  "id_for_name ''config_report'' = Some (desc_id desc_config_report)"
  "id_for_name ''read_temp'' = Some (desc_id desc_read_temp)"
  "id_for_name ''get_last_temp'' = Some (desc_id desc_get_last_temp)"
  by (simp_all add: id_for_name_def host_enumerators_def)

definition implements :: "sim_call \<Rightarrow> ns_member \<Rightarrow> bool" where
  "implements h m = (\<forall>ms header es. dispatch_ns (m # ms) header es =
     (case h header es of (No_match, es') \<Rightarrow> dispatch_ns ms header es' | r \<Rightarrow> r))"

lemma implementsI:
  "id_for_name name = Some (desc_id D) \<Longrightarrow> desc_req D = T \<Longrightarrow> desc_resp D = R \<Longrightarrow>
   implements (invoke_one D f) (rpc_member name x y T R f)"
  using dispatch_ns_member [of name D x y f] by (auto simp: implements_def)

lemma dispatch_ns_fold:
  assumes "list_all2 implements hs ms"
  shows "dispatch_ns ms header es = fold (fold_step header) hs (No_match, es)"
  using assms
proof (induction hs ms arbitrary: es rule: list_all2_induct)
  case (Cons h hs m ms)
  then have "dispatch_ns (m # ms) header es =
      (case h header es of (No_match, es') \<Rightarrow> dispatch_ns ms header es' | r \<Rightarrow> r)"
    by (simp only: implements_def)
  with Cons.IH show ?case unfolding fold_step_Cons by (simp split: prod.splits invoke_result.splits)
qed simp

lemma sim_implements: "list_all2 implements sim_handlers sim_members"
  unfolding sim_handlers_def sim_members_def by (simp add: implementsI ids_for_names)

lemma dispatch_agree: "dispatch_ns sim_members header es = dispatch_fold sim_handlers header es"
  unfolding dispatch_ns_fold [OF sim_implements] dispatch_fold_def fold_step_def [abs_def] ..

section \<open>Decimal digits\<close>

lemma tmp_digits_decimal: "n \<noteq> 0 \<Longrightarrow> rev (tmp_digits n) = decimal (unat n)"
proof (induction n rule: tmp_digits.induct)
  case (1 n)
  have u: "unat (n div 10) = unat n div 10" "unat (n mod 10) = unat n mod 10"
    by (simp_all add: unat_div unat_mod)
  show ?case
  proof (cases "n div 10 = 0")
    case True
    then have "unat n div 10 = 0" using u(1) by simp
    then show ?thesis using 1(2) True u by (simp add: tmp_digits.simps [of n] tmp_digits.simps [of 0] decimal.simps)
  next
    case False
    then have "unat n div 10 \<noteq> 0" using u(1) by (metis unat_eq_0)
    then show ?thesis
      using 1 False u by (simp add: tmp_digits.simps [of n] decimal.simps [of "unat n"])
  qed
qed

section \<open>Sessions with the simulated coordinator\<close>

fun sim_exec :: "rpc_request \<Rightarrow> sim_state \<Rightarrow> bytes \<times> sim_state" where
  "sim_exec Rq_get_short_addr = run_handler desc_get_short_addr sim_get_short_addr EmptyReq"
| "sim_exec Rq_get_panid = run_handler desc_get_panid sim_get_panid EmptyReq"
| "sim_exec Rq_get_channel = run_handler desc_get_channel sim_get_channel EmptyReq"
| "sim_exec (Rq_open_network q) = run_handler desc_open_network sim_open_network q"
| "sim_exec Rq_wait_annce = run_handler desc_wait_annce sim_wait_annce EmptyReq"
| "sim_exec (Rq_find_sensor q) = run_handler desc_find_sensor sim_find_sensor q"
| "sim_exec (Rq_read_basic q) = run_handler desc_read_basic sim_read_basic q"
| "sim_exec (Rq_bind_sensor q) = run_handler desc_bind_sensor sim_bind_sensor q"
| "sim_exec (Rq_subscribe_sensor q) = run_handler desc_subscribe_sensor sim_subscribe_sensor q"
| "sim_exec (Rq_config_report q) = run_handler desc_config_report sim_config_report q"
| "sim_exec (Rq_read_temp q) = run_handler desc_read_temp sim_read_temp q"
| "sim_exec Rq_get_last_temp = run_handler desc_get_last_temp sim_get_last_temp EmptyReq"
| "sim_exec Rq_get_sensor_addr = (\<lambda>s. (error_frame Unknown_api, s))"

fun sim_execs :: "rpc_request list \<Rightarrow> sim_state \<Rightarrow> bytes \<times> sim_state" where
  "sim_execs [] s = ([], s)"
| "sim_execs (r # rs) s = (let (b, s1) = sim_exec r s; (bs, s2) = sim_execs rs s1 in (b @ bs, s2))"

definition sim_knows :: "rpc_request \<Rightarrow> bool" where
  "sim_knows r = (r \<noteq> Rq_get_sensor_addr)"

lemma fold_step_simps:
  "fh_id h \<noteq> api_value (desc_id D) \<Longrightarrow> fold_step h (invoke_one D f) (No_match, es) = (No_match, es)"
  "fh_id h = api_value (desc_id D) \<Longrightarrow> fold_step h (invoke_one D f) (No_match, es) = invoke_one D f h es"
  "fst r \<noteq> No_match \<Longrightarrow> fold_step h g r = r"
  by (cases r; auto simp: fold_step_def split: invoke_result.splits)+

lemma dispatch_ns_known:
  "fh_id h = api_value Api_get_short_addr \<Longrightarrow> dispatch_ns sim_members h es = invoke_one desc_get_short_addr sim_get_short_addr h es"
  "fh_id h = api_value Api_get_panid \<Longrightarrow> dispatch_ns sim_members h es = invoke_one desc_get_panid sim_get_panid h es"
  "fh_id h = api_value Api_get_channel \<Longrightarrow> dispatch_ns sim_members h es = invoke_one desc_get_channel sim_get_channel h es"
  "fh_id h = api_value Api_open_network \<Longrightarrow> dispatch_ns sim_members h es = invoke_one desc_open_network sim_open_network h es"
  "fh_id h = api_value Api_wait_annce \<Longrightarrow> dispatch_ns sim_members h es = invoke_one desc_wait_annce sim_wait_annce h es"
  "fh_id h = api_value Api_find_sensor \<Longrightarrow> dispatch_ns sim_members h es = invoke_one desc_find_sensor sim_find_sensor h es"
  "fh_id h = api_value Api_read_basic \<Longrightarrow> dispatch_ns sim_members h es = invoke_one desc_read_basic sim_read_basic h es"
  "fh_id h = api_value Api_bind_sensor \<Longrightarrow> dispatch_ns sim_members h es = invoke_one desc_bind_sensor sim_bind_sensor h es"
  "fh_id h = api_value Api_subscribe_sensor \<Longrightarrow> dispatch_ns sim_members h es = invoke_one desc_subscribe_sensor sim_subscribe_sensor h es"
  "fh_id h = api_value Api_config_report \<Longrightarrow> dispatch_ns sim_members h es = invoke_one desc_config_report sim_config_report h es"
  "fh_id h = api_value Api_read_temp \<Longrightarrow> dispatch_ns sim_members h es = invoke_one desc_read_temp sim_read_temp h es"
  "fh_id h = api_value Api_get_last_temp \<Longrightarrow> dispatch_ns sim_members h es = invoke_one desc_get_last_temp sim_get_last_temp h es"
  unfolding dispatch_ns_fold [OF sim_implements] sim_handlers_def
  by (simp_all add: fold_step_simps del: api_value.simps)

lemma dispatch_ns_unknown:
  "fh_id h = api_value Api_get_sensor_addr \<Longrightarrow> dispatch_ns sim_members h es = (No_match, es)"
  unfolding dispatch_ns_fold [OF sim_implements] sim_handlers_def
  by (simp add: fold_step_simps del: api_value.simps)

context rpc_entry begin

lemma answers_known:
  assumes wx: "wx_ok (wx (eng_fd e))" and valid: "wt_valid (desc_req D) request"
    and stream: "rx_stream (rx (eng_fd e)) = request_bytes D request @ rest"
    and disp: "\<And>h es. fh_id h = api_value (desc_id D) \<Longrightarrow> dispatch_ns sim_members h es = invoke_one D f h es"
    and run: "run_handler D f request st = (b, st')"
  obtains s where "handle_commands (e, st) = (True, \<lparr>eng_fd = s, last_error = Err_none\<rparr>, st')"
    and "sent s = sent (eng_fd e) @ b" and "rx_stream (rx s) = rest" and "wx_ok (wx s)"
proof -
  let ?i = "api_value (desc_id D)" and ?n = "payload_size (desc_req D)"
  let ?h = "\<lparr>fh_id = ?i, fh_size = of_nat ?n\<rparr>"
  have "rx_stream (rx (eng_fd e)) = frame_header_bytes ?i ?n @ payload_bytes (desc_req D) request @ rest"
    using stream by (simp add: request_bytes_def frame_def)
  moreover have "?n \<le> 64" using req.payload_size_max by simp
  ultimately obtain es where rh: "receive_header e =
      (Some ?h, e\<lparr>last_error := Err_none, eng_fd := (eng_fd e)\<lparr>rx := es\<rparr>\<rparr>)"
    and st: "rx_stream es = payload_bytes (desc_req D) request @ rest"
    by (rule receive_header_frame)
  let ?e1 = "e\<lparr>last_error := Err_none, eng_fd := (eng_fd e)\<lparr>rx := es\<rparr>\<rparr>"
  obtain resp where f: "f request st = (resp, st')" and b: "b = frame ?i (desc_resp D) resp"
    using run by (auto simp: run_handler_def split: prod.splits)
  have "wx_ok (wx (eng_fd ?e1))" "rx_stream (rx (eng_fd ?e1)) = payload_bytes (desc_req D) request @ rest"
    using wx st by simp_all
  then obtain s where "invoke_one D f ?h (?e1, st) = (Handled, ?e1\<lparr>eng_fd := s\<rparr>, st')"
    "sent s = sent (eng_fd ?e1) @ frame ?i (desc_resp D) resp" "rx_stream (rx s) = rest" "wx_ok (wx s)"
    using invoke_one_ok [where f = f and e = ?e1 and st = st, OF _ valid _ f] by blast
  then show thesis
    using disp [of ?h] b id_not_error
    by (intro that [of s]) (simp_all add: handle_commands_def rh engine_reset del: api_value.simps)
qed

end

lemma sim_request:
  assumes "sim_knows r" "wx_ok (wx (eng_fd e))" "rx_stream (rx (eng_fd e)) = request_frame r @ rest"
    and "sim_exec r st = (b, st')"
  obtains s where "handle_commands (e, st) = (True, \<lparr>eng_fd = s, last_error = Err_none\<rparr>, st')"
    and "sent s = sent (eng_fd e) @ b" and "rx_stream (rx s) = rest" and "wx_ok (wx s)"
proof (cases r)
  case Rq_get_short_addr
  show ?thesis
    by (rule get_short_addr_rpc.answers_known [OF assms(2), where request = EmptyReq])
      (use assms(3,4) Rq_get_short_addr that in \<open>simp_all add: dispatch_ns_known del: api_value.simps\<close>)
next
  case Rq_get_panid
  show ?thesis
    by (rule get_panid_rpc.answers_known [OF assms(2), where request = EmptyReq])
      (use assms(3,4) Rq_get_panid that in \<open>simp_all add: dispatch_ns_known del: api_value.simps\<close>)
next
  case Rq_get_channel
  show ?thesis
    by (rule get_channel_rpc.answers_known [OF assms(2), where request = EmptyReq])
      (use assms(3,4) Rq_get_channel that in \<open>simp_all add: dispatch_ns_known del: api_value.simps\<close>)
next
  case (Rq_open_network q)
  show ?thesis
    by (rule open_network_rpc.answers_known [OF assms(2), where request = q])
      (use assms(3,4) Rq_open_network that in \<open>simp_all add: dispatch_ns_known del: api_value.simps\<close>)
next
  case Rq_wait_annce
  show ?thesis
    by (rule wait_annce_rpc.answers_known [OF assms(2), where request = EmptyReq])
      (use assms(3,4) Rq_wait_annce that in \<open>simp_all add: dispatch_ns_known del: api_value.simps\<close>)
next
  case (Rq_find_sensor q)
  show ?thesis
    by (rule find_sensor_rpc.answers_known [OF assms(2), where request = q])
      (use assms(3,4) Rq_find_sensor that in \<open>simp_all add: dispatch_ns_known del: api_value.simps\<close>)
next
  case (Rq_read_basic q)
  show ?thesis
    by (rule read_basic_rpc.answers_known [OF assms(2), where request = q])
      (use assms(3,4) Rq_read_basic that in \<open>simp_all add: dispatch_ns_known del: api_value.simps\<close>)
next
  case (Rq_bind_sensor q)
  show ?thesis
    by (rule bind_sensor_rpc.answers_known [OF assms(2), where request = q])
      (use assms(3,4) Rq_bind_sensor that in \<open>simp_all add: dispatch_ns_known del: api_value.simps\<close>)
next
  case (Rq_subscribe_sensor q)
  show ?thesis
    by (rule subscribe_sensor_rpc.answers_known [OF assms(2), where request = q])
      (use assms(3,4) Rq_subscribe_sensor that in \<open>simp_all add: dispatch_ns_known del: api_value.simps\<close>)
next
  case (Rq_config_report q)
  show ?thesis
    by (rule config_report_rpc.answers_known [OF assms(2), where request = q])
      (use assms(3,4) Rq_config_report that in \<open>simp_all add: dispatch_ns_known del: api_value.simps\<close>)
next
  case (Rq_read_temp q)
  show ?thesis
    by (rule read_temp_rpc.answers_known [OF assms(2), where request = q])
      (use assms(3,4) Rq_read_temp that in \<open>simp_all add: dispatch_ns_known del: api_value.simps\<close>)
next
  case Rq_get_last_temp
  show ?thesis
    by (rule get_last_temp_rpc.answers_known [OF assms(2), where request = EmptyReq])
      (use assms(3,4) Rq_get_last_temp that in \<open>simp_all add: dispatch_ns_known del: api_value.simps\<close>)
next
  case Rq_get_sensor_addr
  then show ?thesis using assms(1) by (simp add: sim_knows_def)
qed

lemma handle_loop_prefix:
  assumes "wx_ok (wx (eng_fd e))" "rx_stream (rx (eng_fd e)) = concat (map request_frame rs) @ rest"
    and "list_all sim_knows rs"
  shows "\<exists>e'. handle_loop (e, st) = handle_loop (e', snd (sim_execs rs st)) \<and>
           sent (eng_fd e') = sent (eng_fd e) @ fst (sim_execs rs st) \<and>
           rx_stream (rx (eng_fd e')) = rest \<and> wx_ok (wx (eng_fd e'))"
  using assms
proof (induction rs arbitrary: e st)
  case Nil
  then show ?case by (auto intro!: exI [of _ e])
next
  case (Cons r rs)
  obtain b st1 where r: "sim_exec r st = (b, st1)" by fastforce
  from Cons.prems r obtain s where
    s: "handle_commands (e, st) = (True, \<lparr>eng_fd = s, last_error = Err_none\<rparr>, st1)" "sent s = sent (eng_fd e) @ b"
    and next_ok: "rx_stream (rx s) = concat (map request_frame rs) @ rest" "wx_ok (wx s)"
    by (auto elim: sim_request [rotated 3])
  from Cons.IH [of "\<lparr>eng_fd = s, last_error = Err_none\<rparr>" st1] Cons.prems next_ok s r show ?case
    by (auto simp: handle_loop.simps [of "(e, st)"] split: prod.splits)
qed

text \<open>The end of a session: end of file, or the procedure this server does not know.\<close>

lemma handle_commands_eof:
  assumes "rx_stream (rx (eng_fd e)) = []"
  shows "\<exists>e'. handle_loop (e, st) = (e', st) \<and> sent (eng_fd e') = sent (eng_fd e)"
proof -
  from assms receive_header_short [of e] obtain es where
    "receive_header e = (None, e\<lparr>last_error := Err_none, eng_fd := (eng_fd e)\<lparr>rx := es\<rparr>\<rparr>)"
    by auto
  then show ?thesis by (simp add: handle_loop.simps [of "(e, st)"] handle_commands_def)
qed

lemma handle_commands_unknown:
  assumes wx: "wx_ok (wx (eng_fd e))" and "rx_stream (rx (eng_fd e)) = request_frame Rq_get_sensor_addr @ rest"
  shows "\<exists>e'. handle_loop (e, st) = (e', st) \<and> sent (eng_fd e') = sent (eng_fd e) @ error_frame Unknown_api"
proof -
  let ?h = "\<lparr>fh_id = api_value Api_get_sensor_addr, fh_size = 0\<rparr>"
  have "rx_stream (rx (eng_fd e)) = frame_header_bytes (api_value Api_get_sensor_addr) 0 @ rest"
    using assms(2) by (simp add: request_bytes_def frame_def payload_bytes_def)
  then obtain es where rh: "receive_header e =
      (Some ?h, e\<lparr>last_error := Err_none, eng_fd := (eng_fd e)\<lparr>rx := es\<rparr>\<rparr>)"
    using receive_header_frame [of e "api_value Api_get_sensor_addr" 0 rest] by (auto simp del: api_value.simps)
  have "dispatch_ns sim_members ?h es' = (No_match, es')" for es'
    by (rule dispatch_ns_unknown) simp
  with rh wx show ?thesis
    by (simp add: handle_loop.simps [of "(e, st)"] handle_commands_def discard_payload.simps [of 0] send_error_sent
        del: api_value.simps)
qed

section \<open>Properties\<close>

text \<open>
  C28: the dispatcher generated from the signatures of the simulated coordinator behaves exactly like
  the fold over explicitly listed handlers, for every frame.
\<close>

theorem reflected_dispatch_equiv:
  "dispatch_ns sim_members header es = dispatch_fold sim_handlers header es"
  by (rule dispatch_agree)

text \<open>
  every descriptor the host catalogue derives from a function's name and signature is the
  descriptor the firmware and its client use for the procedure of that name: identifier, request
  and response layout agree.
\<close>

lemma derived_catalog_matches:
  "fn_desc ''get_short_addr'' CT_EmptyReq EmptyReq_type ct_U16Resp U16Resp_type = Some desc_get_short_addr \<and>
   fn_desc ''get_panid'' CT_EmptyReq EmptyReq_type ct_U16Resp U16Resp_type = Some desc_get_panid \<and>
   fn_desc ''get_channel'' CT_EmptyReq EmptyReq_type ct_U8Resp U8Resp_type = Some desc_get_channel \<and>
   fn_desc ''open_network'' ct_OpenNetworkReq OpenNetworkReq_type ct_I32Resp I32Resp_type = Some desc_open_network \<and>
   fn_desc ''wait_annce'' CT_EmptyReq EmptyReq_type ct_U16Resp U16Resp_type = Some desc_wait_annce \<and>
   fn_desc ''find_sensor'' ct_FindSensorReq FindSensorReq_type ct_zb_addr_t zb_addr_type = Some desc_find_sensor \<and>
   fn_desc ''read_basic'' ct_zb_addr_t zb_addr_type ct_zb_basic_t zb_basic_type = Some desc_read_basic \<and>
   fn_desc ''bind_sensor'' ct_zb_addr_t zb_addr_type ct_I32Resp I32Resp_type = Some desc_bind_sensor \<and>
   fn_desc ''subscribe_sensor'' ct_zb_addr_t zb_addr_type ct_I32Resp I32Resp_type = Some desc_subscribe_sensor \<and>
   fn_desc ''config_report'' ct_zb_addr_t zb_addr_type ct_I32Resp I32Resp_type = Some desc_config_report \<and>
   fn_desc ''read_temp'' ct_zb_addr_t zb_addr_type ct_zb_temp_t zb_temp_type = Some desc_read_temp \<and>
   fn_desc ''get_last_temp'' CT_EmptyReq EmptyReq_type ct_I16Resp I16Resp_type = Some desc_get_last_temp \<and>
   verify_catalog sim_members"
proof -
  have all: "list_all (\<lambda>m. \<exists>x a. nm_identifier m = Some x \<and> id_for_name x = Some a \<and> is_rpc_handler m \<and>
      wire_safe (nm_request m) \<and> wire_safe (nm_response m)) sim_members"
    by (simp add: sim_members_def rpc_member_def is_rpc_handler_def ids_for_names ct_defs)
  have lines: "list_all (\<lambda>m. \<exists>x a. nm_identifier m = Some x \<and> id_for_name x = Some a \<and> is_rpc_handler m \<and>
      wire_safe (nm_request m) \<and> wire_safe (nm_response m)) ms \<Longrightarrow>
      \<exists>t. catalog_lines ms out n = Some (t, n + length ms)" for ms out n
  proof (induction ms arbitrary: out n)
    case (Cons m ms)
    then obtain x a where "nm_identifier m = Some x" "id_for_name x = Some a" "is_rpc_handler m" "wire_safe (nm_request m)"
      "wire_safe (nm_response m)" by auto
    with Cons.IH [of "append_catalog_line out x a m" "Suc n"] Cons.prems show ?case by simp
  qed simp
  obtain t where "catalog_lines sim_members (''rpc catalog:'' @ [CHR 0x0A]) 0 = Some (t, length sim_members)"
    using lines [OF all, of "''rpc catalog:'' @ [CHR 0x0A]" 0] by auto
  then have "verify_catalog sim_members"
    by (simp add: verify_catalog_def catalog_dump_def sim_members_def)
  then show ?thesis by (simp add: fn_desc_def ids_for_names desc_defs wire_defs ct_defs k_max_payload_def)
qed

text \<open>
  the simulation server answers any sequence of requests it knows with one response each, in
  order, computed by the simulated coordinator; the cached-sensor probe of a newer client is
  answered by the unknown-procedure error and ends the session.
\<close>

lemma sim_session:
  assumes "wx_ok (wx s)" "list_all sim_knows rs" "sim_execs rs st = (replies, st')"
    and "rx_stream (rx s) = concat (map request_frame rs) \<and> last_reply = [] \<or>
      rx_stream (rx s) = concat (map request_frame rs) @ request_frame Rq_get_sensor_addr @ rest \<and>
      last_reply = error_frame Unknown_api"
  shows "\<exists>e. handle_loop (mk_engine s, st) = (e, st') \<and> sent (eng_fd e) = sent s @ replies @ last_reply"
  using assms(4)
proof (elim disjE conjE)
  assume r: "rx_stream (rx s) = concat (map request_frame rs)" "last_reply = []"
  obtain e' where e': "handle_loop (mk_engine s, st) = handle_loop (e', st')"
      "sent (eng_fd e') = sent s @ replies" "rx_stream (rx (eng_fd e')) = []"
    using handle_loop_prefix [of "mk_engine s" rs "[]" st] assms(1-3) r by auto
  then show ?thesis using handle_commands_eof [of e' st'] r by auto
next
  assume r: "rx_stream (rx s) = concat (map request_frame rs) @ request_frame Rq_get_sensor_addr @ rest"
    "last_reply = error_frame Unknown_api"
  obtain e' where e': "handle_loop (mk_engine s, st) = handle_loop (e', st')"
      "sent (eng_fd e') = sent s @ replies" "rx_stream (rx (eng_fd e')) = request_frame Rq_get_sensor_addr @ rest"
      "wx_ok (wx (eng_fd e'))"
    using handle_loop_prefix [of "mk_engine s" rs _ st] assms(1-3) r by auto
  then show ?thesis using handle_commands_unknown [of e' rest st'] r by auto
qed

text \<open>
  C25: \<open>append_u32\<close> writes the decimal digits of its argument, and its 16-byte scratch array is never
  exceeded.
\<close>

lemma append_u32_decimal:
  "append_u32 out n = out @ decimal (unat n) \<and> length (tmp_digits n) \<le> 10"
proof -
  have digit_zero: "CHR ''0'' = char_of (48 :: nat)" by code_simp
  have "unat n < 10 ^ Suc 9" using unsigned_less [of n, where ?'a = nat] by simp
  then have "length (decimal (unat n)) \<le> 10" using decimal_length [of "unat n" 9] by simp
  then have "n \<noteq> 0 \<Longrightarrow> length (tmp_digits n) \<le> 10"
    using tmp_digits_decimal [of n] by (metis length_rev)
  then have "length (tmp_digits n) \<le> 10" by (cases "n = 0") (simp_all add: tmp_digits.simps [of 0])
  then show ?thesis
    by (cases "n = 0") (simp_all add: append_u32_def tmp_digits_decimal decimal.simps [of 0] digit_zero)
qed

text \<open>
  names and identifiers of the host catalogue are inverse to each other: the name reported for
  a procedure finds that procedure again, except for the one the host copy lacks.
\<close>

lemma name_id_roundtrip:
  "id_for_name (api_name (api_value a)) = (if a = Api_get_sensor_addr then None else Some a)"
  by (cases a) (simp_all add: id_for_name_def host_enumerators_def api_name_def api_enumerators_def)

lemma sim_exec_temp:
  "1300 \<le> g_temp s \<and> g_temp s \<le> 1800 \<and> g_temp s mod 100 = 0 \<Longrightarrow>
   let t = g_temp (snd (sim_exec r s)) in g_temp s \<le> t \<and> 1300 \<le> t \<and> t \<le> 1800 \<and> t mod 100 = 0"
  by (cases r) (auto simp: run_handler_def sim_get_short_addr_def sim_get_panid_def sim_get_channel_def
      sim_open_network_def sim_wait_annce_def sim_find_sensor_def sim_read_basic_def sim_bind_sensor_def
      sim_subscribe_sensor_def sim_config_report_def sim_read_temp_def sim_get_last_temp_def bump_temp_def Let_def)

lemma sim_execs_temp:
  "1300 \<le> g_temp s \<and> g_temp s \<le> 1800 \<and> g_temp s mod 100 = 0 \<Longrightarrow>
   let t = g_temp (snd (sim_execs rs s)) in g_temp s \<le> t \<and> 1300 \<le> t \<and> t \<le> 1800 \<and> t mod 100 = 0"
proof (induction rs arbitrary: s)
  case (Cons r rs)
  obtain b s1 where r: "sim_exec r s = (b, s1)" by fastforce
  have "let t = g_temp s1 in g_temp s \<le> t \<and> 1300 \<le> t \<and> t \<le> 1800 \<and> t mod 100 = 0"
    using sim_exec_temp [OF Cons.prems, of r] r by simp
  with Cons.IH [of s1] r show ?case by (auto simp: Let_def split: prod.splits)
qed (simp add: Let_def)

text \<open>
  the simulated temperature only rises, in steps of one degree, and stops at 18 degrees: after
  any sequence of requests it lies between its start and 18 degrees.
\<close>

lemma sim_temp_bounded:
  "g_temp (snd (sim_execs rs sim_init)) \<le> g_temp (snd (sim_execs (rs @ rs') sim_init)) \<and>
   g_temp (snd (sim_execs (rs @ rs') sim_init)) \<in> {1300, 1400, 1500, 1600, 1700, 1800}"
proof -
  have app: "snd (sim_execs (rs @ rs') s) = snd (sim_execs rs' (snd (sim_execs rs s)))" for s
  proof (induction rs arbitrary: s)
    case (Cons r rs)
    then show ?case by (simp add: case_prod_beta Let_def)
  qed simp
  let ?s = "snd (sim_execs rs sim_init)" and ?t = "g_temp (snd (sim_execs (rs @ rs') sim_init))"
  have "1300 \<le> g_temp ?s \<and> g_temp ?s \<le> 1800 \<and> g_temp ?s mod 100 = 0"
    using sim_execs_temp [of sim_init rs] by (simp add: sim_init_def Let_def)
  from sim_execs_temp [OF this, of rs'] have "g_temp ?s \<le> ?t \<and> 1300 \<le> ?t \<and> ?t \<le> 1800 \<and> ?t mod 100 = 0"
    by (simp add: app Let_def)
  moreover from this have "?t = 1300 \<or> ?t = 1400 \<or> ?t = 1500 \<or> ?t = 1600 \<or> ?t = 1700 \<or> ?t = 1800"
    by presburger
  ultimately show ?thesis by auto
qed

end
