(* ===== verification/Host_Client.thy ===== *)
theory Host_Client
  imports Host_Sim
begin

text \<open>
  The client program of the host simulation, \<^verbatim>\<open>zb_rpc/src/client.cpp\<close>, with the wrappers of
  \<open>catalog.hpp\<close> it calls.  Its session is a program of the state monad over the engine and the log;
  temperatures are logged as the hundredths of a degree \<open>to_celsius\<close> divides.
\<close>

section \<open>The derived catalogue and its wrappers\<close>

definition host_get_short_addr :: "(EmptyReq, U16Resp) rpc_desc" where
  "host_get_short_addr = the (fn_desc ''get_short_addr'' CT_EmptyReq EmptyReq_type ct_U16Resp U16Resp_type)"

definition host_get_panid :: "(EmptyReq, U16Resp) rpc_desc" where
  "host_get_panid = the (fn_desc ''get_panid'' CT_EmptyReq EmptyReq_type ct_U16Resp U16Resp_type)"

definition host_get_channel :: "(EmptyReq, U8Resp) rpc_desc" where
  "host_get_channel = the (fn_desc ''get_channel'' CT_EmptyReq EmptyReq_type ct_U8Resp U8Resp_type)"

definition host_open_network :: "(OpenNetworkReq, I32Resp) rpc_desc" where
  "host_open_network = the (fn_desc ''open_network'' ct_OpenNetworkReq OpenNetworkReq_type ct_I32Resp I32Resp_type)"

definition host_wait_annce :: "(EmptyReq, U16Resp) rpc_desc" where
  "host_wait_annce = the (fn_desc ''wait_annce'' CT_EmptyReq EmptyReq_type ct_U16Resp U16Resp_type)"

definition host_find_sensor :: "(FindSensorReq, zb_addr_t) rpc_desc" where
  "host_find_sensor = the (fn_desc ''find_sensor'' ct_FindSensorReq FindSensorReq_type ct_zb_addr_t zb_addr_type)"

definition host_read_basic :: "(zb_addr_t, zb_basic_t) rpc_desc" where
  "host_read_basic = the (fn_desc ''read_basic'' ct_zb_addr_t zb_addr_type ct_zb_basic_t zb_basic_type)"

definition host_bind_sensor :: "(zb_addr_t, I32Resp) rpc_desc" where
  "host_bind_sensor = the (fn_desc ''bind_sensor'' ct_zb_addr_t zb_addr_type ct_I32Resp I32Resp_type)"

definition host_subscribe_sensor :: "(zb_addr_t, I32Resp) rpc_desc" where
  "host_subscribe_sensor = the (fn_desc ''subscribe_sensor'' ct_zb_addr_t zb_addr_type ct_I32Resp I32Resp_type)"

definition host_config_report :: "(zb_addr_t, I32Resp) rpc_desc" where
  "host_config_report = the (fn_desc ''config_report'' ct_zb_addr_t zb_addr_type ct_I32Resp I32Resp_type)"

definition host_read_temp :: "(zb_addr_t, zb_temp_t) rpc_desc" where
  "host_read_temp = the (fn_desc ''read_temp'' ct_zb_addr_t zb_addr_type ct_zb_temp_t zb_temp_type)"

definition host_get_last_temp :: "(EmptyReq, I16Resp) rpc_desc" where
  "host_get_last_temp = the (fn_desc ''get_last_temp'' CT_EmptyReq EmptyReq_type ct_I16Resp I16Resp_type)"

lemmas host_defs =
  host_get_short_addr_def host_get_panid_def host_get_channel_def host_open_network_def host_wait_annce_def
  host_find_sensor_def host_read_basic_def host_bind_sensor_def host_subscribe_sensor_def host_config_report_def
  host_read_temp_def host_get_last_temp_def

lemma host_descs [simp]:
  "host_get_short_addr = desc_get_short_addr" "host_get_panid = desc_get_panid"
  "host_get_channel = desc_get_channel" "host_open_network = desc_open_network"
  "host_wait_annce = desc_wait_annce" "host_find_sensor = desc_find_sensor"
  "host_read_basic = desc_read_basic" "host_bind_sensor = desc_bind_sensor"
  "host_subscribe_sensor = desc_subscribe_sensor" "host_config_report = desc_config_report"
  "host_read_temp = desc_read_temp" "host_get_last_temp = desc_get_last_temp"
  by (simp_all add: host_defs fn_desc_def ids_for_names desc_defs wire_defs ct_defs k_max_payload_def)

section \<open>The session\<close>

datatype host_log =
    HL string
  | HL_open u16 u8
  | HL_commissioned u16
  | HL_find u16
  | HL_read_basic u16 u8
  | HL_model bytes
  | HL_manufacturer bytes
  | HL_bind u16 u8
  | HL_subscribe u16 u8
  | HL_bound u16 u8
  | HL_subscribed u16 u8
  | HL_temp int
  | HL_measured int
  | HL_min_measured int
  | HL_max_measured int

type_synonym host = "engine \<times> host_log list"

definition say :: "host_log \<Rightarrow> (host, unit) state" where
  "say x = State (\<lambda>(e, l). ((), e, l @ [x]))"

text \<open>\<open>rpc_call_fn\<close> for requests with and without payload; \<open>None\<close> is \<open>false\<close>.\<close>

definition rpc_call_fn :: "('req, 'resp) rpc_desc \<Rightarrow> 'req \<Rightarrow> (host, 'resp option) state" where
  "rpc_call_fn D request = State (\<lambda>(e, l). let (r, e') = call D request e in (r, e', l))"

definition rpc_call_fn_empty :: "(EmptyReq, 'resp) rpc_desc \<Rightarrow> (host, 'resp option) state" where
  "rpc_call_fn_empty D = State (\<lambda>(e, l). let (r, e') = call_empty D e in (r, e', l))"

primrec host_reports :: "nat \<Rightarrow> (host, unit) state" where
  "host_reports 0 = State_Monad.return ()"
| "host_reports (Suc n) = do {
     t \<leftarrow> rpc_call_fn_empty host_get_last_temp;
     (case t of
        None \<Rightarrow> State_Monad.return ()
      | Some t \<Rightarrow> do {
          say (HL ''ZCL Report Attribute message for endpoint(1) cluster(0x0402) client with status(0x00)'');
          say (HL_temp (from_le16_s (i16_value t)));
          host_reports n
        })
   }"

text \<open>\<open>main\<close> from the first request to the sensor's address; \<open>None\<close> is the early \<open>return 1\<close>.\<close>

definition host_join :: "(host, (u16 \<times> u16 \<times> zb_addr_t) option) state" where
  "host_join = do {
     short_addr \<leftarrow> rpc_call_fn_empty host_get_short_addr;
     (case short_addr of None \<Rightarrow> State_Monad.return None | Some short_addr \<Rightarrow> do {
     panid \<leftarrow> rpc_call_fn_empty host_get_panid;
     (case panid of None \<Rightarrow> State_Monad.return None | Some panid \<Rightarrow> do {
     channel \<leftarrow> rpc_call_fn_empty host_get_channel;
     (case channel of None \<Rightarrow> State_Monad.return None | Some channel \<Rightarrow> do {
     open \<leftarrow> rpc_call_fn host_open_network \<lparr>on_duration = 180\<rparr>;
     if (case open of None \<Rightarrow> True | Some r \<Rightarrow> from_le32_s (i32_value r) \<noteq> 0)
     then do { say (HL ''Failed to open network''); State_Monad.return None }
     else do {
     say (HL_open (from_le16 (u16_value panid)) 180);
     peer \<leftarrow> rpc_call_fn_empty host_wait_annce;
     (case peer of None \<Rightarrow> State_Monad.return None | Some peer \<Rightarrow> do {
     say (HL_commissioned (from_le16 (u16_value peer)));
     say (HL_find (from_le16 (u16_value peer)));
     sensor \<leftarrow> rpc_call_fn host_find_sensor \<lparr>fs_short_addr = to_le16 (from_le16 (u16_value peer))\<rparr>;
     (case sensor of
        None \<Rightarrow> do { say (HL ''Failed to find HA temperature sensor''); State_Monad.return None }
      | Some sensor \<Rightarrow>
          if from_le32_s (za_err sensor) \<noteq> 0
          then do { say (HL ''Failed to find HA temperature sensor''); State_Monad.return None }
          else State_Monad.return (Some (from_le16 (u16_value short_addr), from_le16 (u16_value panid), sensor)))
     })}})})})}"

text \<open>The set-up of the sensor; the results of binding, subscribing and reporting are not looked at.\<close>

definition host_setup :: "u16 \<Rightarrow> u16 \<Rightarrow> zb_addr_t \<Rightarrow> (host, bool) state" where
  "host_setup short_addr panid sensor = do {
     say (HL_read_basic (from_le16 (za_short_addr sensor)) (za_ep sensor));
     basic \<leftarrow> rpc_call_fn host_read_basic sensor;
     (case basic of None \<Rightarrow> State_Monad.return False | Some basic \<Rightarrow> do {
     say (HL ''ZCL Read Attribute Response message for endpoint(1) cluster(0x0000) client with status(0x00)'');
     say (HL_model (zb_model basic));
     say (HL_manufacturer (zb_manufacturer basic));
     say (HL_bind (from_le16 (za_short_addr sensor)) (za_ep sensor));
     _ \<leftarrow> rpc_call_fn host_bind_sensor sensor;
     say (HL_subscribe (from_le16 (za_short_addr sensor)) (za_ep sensor));
     _ \<leftarrow> rpc_call_fn host_subscribe_sensor sensor;
     say (HL_bound short_addr (za_ep sensor));
     say (HL ''Attempt to configure reporting for HA temperature sensor'');
     _ \<leftarrow> rpc_call_fn host_config_report sensor;
     say (HL_open panid 180);
     say (HL_subscribed (from_le16 (za_short_addr sensor)) (za_ep sensor));
     say (HL ''ZCL Report Config Response message for endpoint(1) cluster(0x0402) client with status(0x00)'');
     State_Monad.return True
     })}"

definition host_read_out :: "zb_addr_t \<Rightarrow> (host, int) state" where
  "host_read_out sensor = do {
     attrs \<leftarrow> rpc_call_fn host_read_temp sensor;
     (case attrs of None \<Rightarrow> State_Monad.return 1 | Some attrs \<Rightarrow> do {
     say (HL ''Read Attributes of Temperature Measurement'');
     say (HL ''ZCL Read Attribute Response message for endpoint(1) cluster(0x0402) client with status(0x00)'');
     say (HL_measured (from_le16_s (zt_measured attrs)));
     say (HL_min_measured (from_le16_s (zt_min_measured attrs)));
     say (HL_max_measured (from_le16_s (zt_max_measured attrs)));
     State_Monad.return 0
     })}"

definition host_session :: "(host, int) state" where
  "host_session = do {
     joined \<leftarrow> host_join;
     (case joined of None \<Rightarrow> State_Monad.return 1 | Some (short_addr, panid, sensor) \<Rightarrow> do {
     ready \<leftarrow> host_setup short_addr panid sensor;
     if \<not> ready then State_Monad.return 1
     else do { _ \<leftarrow> host_reports 5; host_read_out sensor }
     })}"

definition host_client_main ::
    "(string \<Rightarrow> u16 \<Rightarrow> sock_env) \<Rightarrow> (int \<Rightarrow> sock) \<Rightarrow> string list \<Rightarrow> int list \<Rightarrow> int \<times> int list \<times> host option" where
  "host_client_main S socks args fds =
     (let (host, port) = host_address args;
          (fd, fds1) = rpc_connect (S host port) fds
      in if fd < 0 then (1, fds1, None)
         else let (code, h) = run_state host_session (mk_engine (socks fd),
                  [HL ''Initialize Zigbee stack'', HL ''Deferred driver initialization successful'',
                   HL ''Device started up in non factory-reset mode'', HL ''Device reboot''])
              in (code, remove1 fd fds1, Some h))"

section \<open>Programs over a connection\<close>

text \<open>
  \<open>runs m q b x l\<close>: on any connection that delivers \<open>b\<close>, program \<open>m\<close> sends exactly \<open>q\<close>, reads exactly
  \<open>b\<close>, logs \<open>l\<close> and returns \<open>x\<close>.
\<close>

definition runs :: "(host, 'a) state \<Rightarrow> bytes \<Rightarrow> bytes \<Rightarrow> 'a \<Rightarrow> host_log list \<Rightarrow> bool" where
  "runs m q b x l = (\<forall>e l0 rest. wx_ok (wx (eng_fd e)) \<longrightarrow> rx_stream (rx (eng_fd e)) = b @ rest \<longrightarrow>
     (\<exists>e'. run_state m (e, l0) = (x, e', l0 @ l) \<and> sent (eng_fd e') = sent (eng_fd e) @ q \<and>
        rx_stream (rx (eng_fd e')) = rest \<and> wx_ok (wx (eng_fd e'))))"

lemma runsD:
  assumes "runs m q b x l" "wx_ok (wx (eng_fd e))" "rx_stream (rx (eng_fd e)) = b @ rest"
  obtains e' where "run_state m (e, l0) = (x, e', l0 @ l)" "sent (eng_fd e') = sent (eng_fd e) @ q"
    "rx_stream (rx (eng_fd e')) = rest" "wx_ok (wx (eng_fd e'))"
  using assms unfolding runs_def by metis

lemma runs_return: "runs (State_Monad.return x) [] [] x []"
  by (auto simp: runs_def State_Monad.return_def)

lemma runs_say: "runs (say x) [] [] () [x]"
  by (auto simp: runs_def say_def)

lemma runs_bind:
  assumes "runs m q b x l" "runs (f x) q' b' y l'"
  shows "runs (State_Monad.bind m f) (q @ q') (b @ b') y (l @ l')"
  unfolding runs_def
proof (intro allI impI)
  fix e :: engine and l0 rest assume e: "wx_ok (wx (eng_fd e))" "rx_stream (rx (eng_fd e)) = (b @ b') @ rest"
  obtain e1 where e1: "run_state m (e, l0) = (x, e1, l0 @ l)" "sent (eng_fd e1) = sent (eng_fd e) @ q"
      "rx_stream (rx (eng_fd e1)) = b' @ rest" "wx_ok (wx (eng_fd e1))"
    using runsD [OF assms(1) e(1), of "b' @ rest" l0] e(2) by auto
  obtain e2 where "run_state (f x) (e1, l0 @ l) = (y, e2, (l0 @ l) @ l')" "sent (eng_fd e2) = sent (eng_fd e1) @ q'"
      "rx_stream (rx (eng_fd e2)) = rest" "wx_ok (wx (eng_fd e2))"
    by (rule runsD [OF assms(2) e1(4,3)])
  with e1 show "\<exists>e'. run_state (State_Monad.bind m f) (e, l0) = (y, e', l0 @ l @ l') \<and>
      sent (eng_fd e') = sent (eng_fd e) @ q @ q' \<and> rx_stream (rx (eng_fd e')) = rest \<and> wx_ok (wx (eng_fd e'))"
    by (auto simp: State_Monad.bind_def)
qed

context rpc_entry begin

lemma runs_call:
  assumes "wt_valid (desc_resp D) v"
  shows "runs (rpc_call_fn D request) (request_bytes D request) (frame (api_value (desc_id D)) (desc_resp D) v) (Some v) []"
  unfolding runs_def
proof (intro allI impI)
  fix e :: engine and l0 rest
  assume "wx_ok (wx (eng_fd e))" "rx_stream (rx (eng_fd e)) = frame (api_value (desc_id D)) (desc_resp D) v @ rest"
  then obtain s where "call D request e = (Some v, \<lparr>eng_fd = s, last_error = Err_none\<rparr>)"
    "sent s = sent (eng_fd e) @ request_bytes D request" "rx_stream (rx s) = rest" "wx_ok (wx s)"
    using call_ok [OF _ assms, where request = request] unfolding request_bytes_def by blast
  then show "\<exists>e'. run_state (rpc_call_fn D request) (e, l0) = (Some v, e', l0 @ []) \<and>
      sent (eng_fd e') = sent (eng_fd e) @ request_bytes D request \<and> rx_stream (rx (eng_fd e')) = rest \<and>
      wx_ok (wx (eng_fd e'))"
    by (simp add: rpc_call_fn_def)
qed

end

lemma rpc_call_fn_empty_eq: "desc_req D = EmptyReq_type \<Longrightarrow> rpc_call_fn_empty D = rpc_call_fn D EmptyReq"
  by (simp add: rpc_call_fn_empty_def rpc_call_fn_def call_empty_eq)

lemma runs_empty_calls:
  "runs (rpc_call_fn_empty desc_get_short_addr) (request_frame Rq_get_short_addr)
     (frame (api_value Api_get_short_addr) U16Resp_type v) (Some v) []"
  "runs (rpc_call_fn_empty desc_get_panid) (request_frame Rq_get_panid)
     (frame (api_value Api_get_panid) U16Resp_type v) (Some v) []"
  "runs (rpc_call_fn_empty desc_get_channel) (request_frame Rq_get_channel)
     (frame (api_value Api_get_channel) U8Resp_type w) (Some w) []"
  "runs (rpc_call_fn_empty desc_wait_annce) (request_frame Rq_wait_annce)
     (frame (api_value Api_wait_annce) U16Resp_type v) (Some v) []"
  "runs (rpc_call_fn_empty desc_get_last_temp) (request_frame Rq_get_last_temp)
     (frame (api_value Api_get_last_temp) I16Resp_type u) (Some u) []"
  using get_short_addr_rpc.runs_call [of v EmptyReq] get_panid_rpc.runs_call [of v EmptyReq]
    get_channel_rpc.runs_call [of w EmptyReq] wait_annce_rpc.runs_call [of v EmptyReq]
    get_last_temp_rpc.runs_call [of u EmptyReq]
  by (simp_all add: rpc_call_fn_empty_eq del: api_value.simps)

lemma runs_calls:
  "runs (rpc_call_fn desc_open_network q1) (request_frame (Rq_open_network q1))
     (frame (api_value Api_open_network) I32Resp_type i) (Some i) []"
  "runs (rpc_call_fn desc_find_sensor q2) (request_frame (Rq_find_sensor q2))
     (frame (api_value Api_find_sensor) zb_addr_type a) (Some a) []"
  "length (zb_manufacturer b) = 16 \<and> length (zb_model b) = 16 \<Longrightarrow>
   runs (rpc_call_fn desc_read_basic q3) (request_frame (Rq_read_basic q3))
     (frame (api_value Api_read_basic) zb_basic_type b) (Some b) []"
  "runs (rpc_call_fn desc_bind_sensor q3) (request_frame (Rq_bind_sensor q3))
     (frame (api_value Api_bind_sensor) I32Resp_type i) (Some i) []"
  "runs (rpc_call_fn desc_subscribe_sensor q3) (request_frame (Rq_subscribe_sensor q3))
     (frame (api_value Api_subscribe_sensor) I32Resp_type i) (Some i) []"
  "runs (rpc_call_fn desc_config_report q3) (request_frame (Rq_config_report q3))
     (frame (api_value Api_config_report) I32Resp_type i) (Some i) []"
  "runs (rpc_call_fn desc_read_temp q3) (request_frame (Rq_read_temp q3))
     (frame (api_value Api_read_temp) zb_temp_type t) (Some t) []"
  using open_network_rpc.runs_call [of i q1] find_sensor_rpc.runs_call [of a q2] read_basic_rpc.runs_call [of b q3]
    bind_sensor_rpc.runs_call [of i q3] subscribe_sensor_rpc.runs_call [of i q3]
    config_report_rpc.runs_call [of i q3] read_temp_rpc.runs_call [of t q3]
  by (simp_all del: api_value.simps)

text \<open>\<open>served m st rs x l st'\<close>: program \<open>m\<close> against the simulated coordinator in state \<open>st\<close>.\<close>

definition served :: "(host, 'a) state \<Rightarrow> sim_state \<Rightarrow> rpc_request list \<Rightarrow> 'a \<Rightarrow> host_log list \<Rightarrow> sim_state \<Rightarrow> bool" where
  "served m st rs x l st' =
     (runs m (concat (map request_frame rs)) (fst (sim_execs rs st)) x l \<and> snd (sim_execs rs st) = st')"

lemma sim_execs_append:
  "sim_execs (rs @ rs') st =
     (fst (sim_execs rs st) @ fst (sim_execs rs' (snd (sim_execs rs st))), snd (sim_execs rs' (snd (sim_execs rs st))))"
  by (induction rs arbitrary: st) (simp_all add: case_prod_beta Let_def)

lemma served_return: "served (State_Monad.return x) st [] x [] st"
  by (simp add: served_def runs_return)

lemma served_say: "served (say x) st [] () [x] st"
  by (simp add: served_def runs_say)

lemma served_bind:
  "served m st rs x l st1 \<Longrightarrow> served (f x) st1 rs' y l' st2 \<Longrightarrow>
   served (State_Monad.bind m f) st (rs @ rs') y (l @ l') st2"
  by (auto simp: served_def sim_execs_append intro!: runs_bind)

lemma served_call:
  "runs m (request_frame r) b x [] \<Longrightarrow> sim_exec r st = (b, st') \<Longrightarrow> served m st [r] x [] st'"
  by (simp add: served_def)

lemma served_then_say:
  "x = x' \<Longrightarrow> served (f ()) st rs y l st' \<Longrightarrow> served (State_Monad.bind (say x) f) st rs y (x' # l) st'"
  using served_bind [OF served_say [of x st], of f rs y l st'] by simp

lemma served_then_call:
  "runs m (request_frame r) b x [] \<Longrightarrow> sim_exec r st = (b, st1) \<Longrightarrow> served (f x) st1 rs y l st' \<Longrightarrow>
   served (State_Monad.bind m f) st (r # rs) y l st'"
  using served_bind [OF served_call [of m r b x st st1], of f rs y l st'] by simp

section \<open>The client meets the simulated coordinator\<close>

definition sim_sensor :: "sim_state \<Rightarrow> zb_addr_t" where
  "sim_sensor st = \<lparr>za_err = to_le32_s 0, za_short_addr = to_le16 (g_sensor_short st), za_ep = g_sensor_ep st\<rparr>"

lemmas sim_defs =
  run_handler_def sim_get_short_addr_def sim_get_panid_def sim_get_channel_def
  sim_open_network_def sim_wait_annce_def sim_find_sensor_def sim_read_basic_def sim_bind_sensor_def
  sim_subscribe_sensor_def sim_config_report_def sim_read_temp_def sim_get_last_temp_def sim_status_def
  sim_sensor_def

lemma served_network:
  "served (f (Some \<lparr>u16_value = to_le16 (g_short_addr st)\<rparr>)) st rs y l st' \<Longrightarrow>
   served (State_Monad.bind (rpc_call_fn_empty desc_get_short_addr) f) st (Rq_get_short_addr # rs) y l st'"
  "served (f (Some \<lparr>u16_value = to_le16 (g_panid st)\<rparr>)) st rs y l st' \<Longrightarrow>
   served (State_Monad.bind (rpc_call_fn_empty desc_get_panid) f) st (Rq_get_panid # rs) y l st'"
  "served (g (Some \<lparr>u8_value = g_channel st\<rparr>)) st rs y l st' \<Longrightarrow>
   served (State_Monad.bind (rpc_call_fn_empty desc_get_channel) g) st (Rq_get_channel # rs) y l st'"
  "served (h (Some \<lparr>i32_value = to_le32_s 0\<rparr>)) (st\<lparr>g_permit_join := (on_duration q \<noteq> 0)\<rparr>) rs y l st' \<Longrightarrow>
   served (State_Monad.bind (rpc_call_fn desc_open_network q) h) st (Rq_open_network q # rs) y l st'"
  "served (f (Some \<lparr>u16_value = to_le16 (g_sensor_short st)\<rparr>)) (st\<lparr>g_joined := True\<rparr>) rs y l st' \<Longrightarrow>
   served (State_Monad.bind (rpc_call_fn_empty desc_wait_annce) f) st (Rq_wait_annce # rs) y l st'"
  by (rule served_then_call, rule runs_empty_calls runs_calls, simp add: sim_defs del: api_value.simps, assumption)+

lemma served_find_sensor:
  "g_joined st \<Longrightarrow> from_le16 (fs_short_addr r) = g_sensor_short st \<Longrightarrow> served (f (Some (sim_sensor st))) st rs y l st' \<Longrightarrow>
   served (State_Monad.bind (rpc_call_fn desc_find_sensor r) f) st (Rq_find_sensor r # rs) y l st'"
  by (rule served_then_call, rule runs_calls(2) [where a = "sim_sensor st"], simp add: sim_defs del: api_value.simps)

lemma served_read_basic:
  "from_le16 (za_short_addr q) = g_sensor_short st \<Longrightarrow>
   served (g (Some \<lparr>zb_err = to_le32_s 0, zb_manufacturer = str16 ''ESPRESSIF'', zb_model = str16 ''esp32h2''\<rparr>)) st rs y l st' \<Longrightarrow>
   served (State_Monad.bind (rpc_call_fn desc_read_basic q) g) st (Rq_read_basic q # rs) y l st'"
  by (rule served_then_call, rule runs_calls(3) [where b = "\<lparr>zb_err = to_le32_s 0,
    zb_manufacturer = str16 ''ESPRESSIF'', zb_model = str16 ''esp32h2''\<rparr>"], simp add: str16_def,
    simp add: sim_defs del: api_value.simps, assumption)

lemma served_status:
  "served (h (Some (sim_status q st))) st rs y l st' \<Longrightarrow>
   served (State_Monad.bind (rpc_call_fn desc_bind_sensor q) h) st (Rq_bind_sensor q # rs) y l st'"
  "served (h (Some (sim_status q st))) st rs y l st' \<Longrightarrow>
   served (State_Monad.bind (rpc_call_fn desc_subscribe_sensor q) h) st (Rq_subscribe_sensor q # rs) y l st'"
  "served (h (Some (sim_status q st))) st rs y l st' \<Longrightarrow>
   served (State_Monad.bind (rpc_call_fn desc_config_report q) h) st (Rq_config_report q # rs) y l st'"
  by (rule served_then_call, rule runs_calls(4-6) [where i = "sim_status q st"], simp add: sim_defs del: api_value.simps,
    assumption)+

lemma served_temp:
  "served (f (Some \<lparr>i16_value = to_le16_s (g_temp (bump_temp st))\<rparr>)) (bump_temp st) rs y l st' \<Longrightarrow>
   served (State_Monad.bind (rpc_call_fn_empty desc_get_last_temp) f) st (Rq_get_last_temp # rs) y l st'"
  "from_le16 (za_short_addr q) = g_sensor_short st \<Longrightarrow>
   served (g (Some \<lparr>zt_err = to_le32_s 0, zt_measured = to_le16_s (g_temp (bump_temp st)), zt_min_measured = to_le16_s (-1000),
      zt_max_measured = to_le16_s 8000, zt_tolerance = to_le16_s 0\<rparr>)) (bump_temp st) rs y l st' \<Longrightarrow>
   served (State_Monad.bind (rpc_call_fn desc_read_temp q) g) st (Rq_read_temp q # rs) y l st'"
  by (rule served_then_call, rule runs_empty_calls runs_calls, simp add: sim_defs Let_def del: api_value.simps, assumption)+

lemma served_returnI: "x = y \<Longrightarrow> st = st' \<Longrightarrow> served (State_Monad.return x) st [] y [] st'"
  by (simp add: served_return)

lemmas served_rules =
  served_network served_find_sensor served_read_basic served_status served_temp served_then_say served_returnI

definition join_script :: "sim_state \<Rightarrow> rpc_request list" where
  "join_script st = [Rq_get_short_addr, Rq_get_panid, Rq_get_channel, Rq_open_network \<lparr>on_duration = 180\<rparr>,
     Rq_wait_annce, Rq_find_sensor \<lparr>fs_short_addr = to_le16 (g_sensor_short st)\<rparr>]"

lemma served_join:
  "served host_join st (join_script st) (Some (g_short_addr st, g_panid st, sim_sensor st))
     [HL_open (g_panid st) 180, HL_commissioned (g_sensor_short st), HL_find (g_sensor_short st)]
     (st\<lparr>g_permit_join := True, g_joined := True\<rparr>)"
  unfolding host_join_def join_script_def host_descs
  by (rule served_rules; (simp add: sim_sensor_def)?)+

definition setup_script :: "zb_addr_t \<Rightarrow> rpc_request list" where
  "setup_script a = [Rq_read_basic a, Rq_bind_sensor a, Rq_subscribe_sensor a, Rq_config_report a]"

definition setup_log :: "u16 \<Rightarrow> u16 \<Rightarrow> u16 \<Rightarrow> u8 \<Rightarrow> host_log list" where
  "setup_log short_addr panid sensor ep =
     [HL_read_basic sensor ep,
      HL ''ZCL Read Attribute Response message for endpoint(1) cluster(0x0000) client with status(0x00)'',
      HL_model (str16 ''esp32h2''), HL_manufacturer (str16 ''ESPRESSIF''),
      HL_bind sensor ep, HL_subscribe sensor ep, HL_bound short_addr ep,
      HL ''Attempt to configure reporting for HA temperature sensor'', HL_open panid 180, HL_subscribed sensor ep,
      HL ''ZCL Report Config Response message for endpoint(1) cluster(0x0402) client with status(0x00)'']"

lemma served_setup:
  "served (host_setup a p (sim_sensor st)) st (setup_script (sim_sensor st)) True
     (setup_log a p (g_sensor_short st) (g_sensor_ep st)) st"
  unfolding host_setup_def setup_script_def setup_log_def host_descs
  by (rule served_rules; (simp add: sim_sensor_def)?)+

primrec reports_log :: "nat \<Rightarrow> sim_state \<Rightarrow> host_log list" where
  "reports_log 0 st = []"
| "reports_log (Suc n) st =
     HL ''ZCL Report Attribute message for endpoint(1) cluster(0x0402) client with status(0x00)'' #
     HL_temp (g_temp (bump_temp st)) # reports_log n (bump_temp st)"

lemma bump_temp_range: "int16_range (g_temp st) \<Longrightarrow> int16_range (g_temp (bump_temp st))"
  by (auto simp: bump_temp_def)

lemma bump_temp_keeps [simp]:
  "g_sensor_short (bump_temp st) = g_sensor_short st" "g_sensor_ep (bump_temp st) = g_sensor_ep st"
  by (simp_all add: bump_temp_def)

lemma bumps_keep [simp]:
  "g_sensor_short ((bump_temp ^^ n) st) = g_sensor_short st" "g_sensor_ep ((bump_temp ^^ n) st) = g_sensor_ep st"
  by (induction n) simp_all

lemma bumps_range: "int16_range (g_temp st) \<Longrightarrow> int16_range (g_temp ((bump_temp ^^ n) st))"
  by (induction n) (simp, metis bump_temp_range comp_apply funpow.simps(2))

lemma served_reports:
  "int16_range (g_temp st) \<Longrightarrow>
   served (host_reports n) st (replicate n Rq_get_last_temp) () (reports_log n st) ((bump_temp ^^ n) st)"
proof (induction n arbitrary: st)
  case 0
  then show ?case by (simp add: served_return)
next
  case (Suc n)
  have "served (host_reports n) (bump_temp st) (replicate n Rq_get_last_temp) () (reports_log n (bump_temp st))
      ((bump_temp ^^ Suc n) st)"
    using Suc.IH [OF bump_temp_range [OF Suc.prems]] by (simp only: funpow_Suc_right comp_apply)
  then show ?case
    using bump_temp_range [OF Suc.prems] unfolding host_reports.simps replicate_Suc reports_log.simps host_descs
    by - (rule served_rules; simp add: served_then_say)
qed

definition read_out_log :: "sim_state \<Rightarrow> host_log list" where
  "read_out_log st =
     [HL ''Read Attributes of Temperature Measurement'',
      HL ''ZCL Read Attribute Response message for endpoint(1) cluster(0x0402) client with status(0x00)'',
      HL_measured (g_temp (bump_temp st)), HL_min_measured (-1000), HL_max_measured 8000]"

lemma served_read_out:
  assumes "int16_range (g_temp st)" "za_short_addr a = to_le16 (g_sensor_short st)"
  shows "served (host_read_out a) st [Rq_read_temp a] 0 (read_out_log st) (bump_temp st)"
  unfolding host_read_out_def read_out_log_def host_descs using assms bump_temp_range [OF assms(1)]
  by - (rule served_rules; simp add: served_then_say served_returnI)

definition joined :: "sim_state \<Rightarrow> sim_state" where
  "joined st = st\<lparr>g_permit_join := True, g_joined := True\<rparr>"

definition session_script :: "sim_state \<Rightarrow> rpc_request list" where
  "session_script st = join_script st @ setup_script (sim_sensor st) @ replicate 5 Rq_get_last_temp @
     [Rq_read_temp (sim_sensor st)]"

definition session_log :: "sim_state \<Rightarrow> host_log list" where
  "session_log st =
     [HL_open (g_panid st) 180, HL_commissioned (g_sensor_short st), HL_find (g_sensor_short st)] @
     setup_log (g_short_addr st) (g_panid st) (g_sensor_short st) (g_sensor_ep st) @
     reports_log 5 (joined st) @ read_out_log ((bump_temp ^^ 5) (joined st))"

lemma served_session:
  assumes "int16_range (g_temp st)"
  shows "served host_session st (session_script st) 0 (session_log st) ((bump_temp ^^ 6) (joined st))"
proof -
  let ?j = "joined st"
  have sensor: "sim_sensor ?j = sim_sensor st" "g_sensor_short ?j = g_sensor_short st"
      "g_sensor_ep ?j = g_sensor_ep st" and range: "int16_range (g_temp ?j)"
    using assms by (simp_all add: sim_sensor_def joined_def)
  have "served (host_read_out (sim_sensor st)) ((bump_temp ^^ 5) ?j) [Rq_read_temp (sim_sensor st)] 0
      (read_out_log ((bump_temp ^^ 5) ?j)) (bump_temp ((bump_temp ^^ 5) ?j))"
    by (rule served_read_out [OF bumps_range [OF range]]) (simp add: sim_sensor_def sensor(2))
  from served_bind [where f = "\<lambda>_. host_read_out (sim_sensor st)", OF served_reports [OF range, of 5] this]
  have "served (do { _ \<leftarrow> host_reports 5; host_read_out (sim_sensor st) }) ?j
      (replicate 5 Rq_get_last_temp @ [Rq_read_temp (sim_sensor st)]) 0
      (reports_log 5 ?j @ read_out_log ((bump_temp ^^ 5) ?j)) ((bump_temp ^^ 6) ?j)"
    by (simp add: numeral_eq_Suc)
  then show ?thesis
    unfolding host_session_def session_script_def session_log_def
    using served_setup [of "g_short_addr st" "g_panid st" ?j]
    by (intro served_bind [OF served_join [folded joined_def]])
      (simp add: sensor served_bind)
qed

section \<open>Properties\<close>

text \<open>
  C27: the host client run against the answers of the simulated coordinator completes: it sends
  exactly its request sequence, exits with 0, closes its socket and logs the network, the joined
  sensor, its names, five rising reports and the final attributes as the coordinator holds them.
\<close>

theorem host_client_session:
  assumes "int16_range (g_temp st)" and "se_socket (S host port) = fd" "0 \<le> fd" "se_pton_ok (S host port)"
    "se_connect_ok (S host port)" and "host_address args = (host, port)"
    and "wx_ok (wx (socks fd))" "rx_stream (rx (socks fd)) = fst (sim_execs (session_script st) st)"
  shows "\<exists>e l. host_client_main S socks args fds = (0, fds, Some (e, l @ session_log st)) \<and> length l = 4 \<and>
    sent (eng_fd e) = sent (socks fd) @ concat (map request_frame (session_script st))"
proof -
  have c: "rpc_connect (S host port) fds = (fd, fd # fds)" using assms(2-5) by (simp add: rpc_connect_def)
  have "runs host_session (concat (map request_frame (session_script st))) (fst (sim_execs (session_script st) st)) 0
      (session_log st)"
    using served_session [OF assms(1)] by (simp only: served_def)
  moreover have "wx_ok (wx (eng_fd (mk_engine (socks fd))))"
      "rx_stream (rx (eng_fd (mk_engine (socks fd)))) = fst (sim_execs (session_script st) st) @ []"
    using assms(7,8) by (simp_all add: mk_engine_def)
  ultimately obtain e' where "run_state host_session (mk_engine (socks fd),
      [HL ''Initialize Zigbee stack'', HL ''Deferred driver initialization successful'',
       HL ''Device started up in non factory-reset mode'', HL ''Device reboot'']) = (0, e',
      [HL ''Initialize Zigbee stack'', HL ''Deferred driver initialization successful'',
       HL ''Device started up in non factory-reset mode'', HL ''Device reboot''] @ session_log st)"
    "sent (eng_fd e') = sent (eng_fd (mk_engine (socks fd))) @ concat (map request_frame (session_script st))"
    by (rule runsD)
  then show ?thesis
    using assms(3,6) c unfolding host_client_main_def
    by (intro exI [of _ e'] exI [of _ "[HL ''Initialize Zigbee stack'', HL ''Deferred driver initialization successful'',
       HL ''Device started up in non factory-reset mode'', HL ''Device reboot'']"]) (simp add: mk_engine_def)
qed

definition lab_sockets :: "string \<Rightarrow> u16 \<Rightarrow> sock_env" where
  "lab_sockets host port = \<lparr>se_socket = 3, se_pton_ok = True, se_bind_ok = True, se_listen_ok = True,
     se_connect_ok = True, se_accept = 4\<rparr>"

lemma lab_session:
  "int16_range (g_temp sim_init)" "host_address [''client'', ''10.0.0.1'', ''4000''] = (''10.0.0.1'', 4000)"
  "5 < length (fst (sim_execs (session_script sim_init) sim_init))"
  by code_simp+

theorem host_client_session_witness:
  "\<exists>e l. host_client_main lab_sockets (\<lambda>_. chunked (fst (sim_execs (session_script sim_init) sim_init)))
     [''client'', ''10.0.0.1'', ''4000''] [] = (0, [], Some (e, l @ session_log sim_init)) \<and> length l = 4 \<and>
   sent (eng_fd e) = concat (map request_frame (session_script sim_init))"
  using host_client_session [of sim_init lab_sockets "''10.0.0.1''" 4000 3 "[''client'', ''10.0.0.1'', ''4000'']"
      "\<lambda>_. chunked (fst (sim_execs (session_script sim_init) sim_init))" "[]"]
    lab_session by (simp add: lab_sockets_def)

end
