(* ===== verification/Step_Machine.thy ===== *)
theory Step_Machine
  imports Zb_Prelude
begin

text \<open>
  Interleavings.  A component whose callbacks and tasks run concurrently is a function \<open>step\<close>
  from labels (which callback or task moves, with what data) to state changes, and an execution
  is any list of labels, run by \<open>fold\<close>.  The two locales are the contracts its proofs use: an
  invariant that every step keeps, and an obligation that only certain steps discharge.
\<close>

locale machine_inv =
  fixes step :: "'l \<Rightarrow> 's \<Rightarrow> 's" and inv :: "'s \<Rightarrow> bool"
  assumes step_inv: "inv s \<Longrightarrow> inv (step l s)"
begin

lemma run_inv: "inv s \<Longrightarrow> inv (fold step ls s)"
  by (induction ls arbitrary: s) (simp_all add: step_inv)

end

text \<open>\<open>owed s\<close>: something is still to be done; \<open>serves l s\<close>: label \<open>l\<close> does it in state \<open>s\<close>.\<close>

locale obligation = machine_inv step inv for step :: "'l \<Rightarrow> 's \<Rightarrow> 's" and inv +
  fixes owed :: "'s \<Rightarrow> bool" and serves :: "'l \<Rightarrow> 's \<Rightarrow> bool"
  assumes keeps: "inv s \<Longrightarrow> owed s \<Longrightarrow> \<not> serves l s \<Longrightarrow> owed (step l s)"
begin

lemma owed_until_served:
  assumes "inv s" "owed s" "\<not> owed (fold step ls s)"
  shows "\<exists>before l after. ls = before @ l # after \<and> owed (fold step before s) \<and> serves l (fold step before s)"
  using assms
proof (induction ls arbitrary: s)
  case (Cons l ls)
  show ?case
  proof (cases "serves l s")
    case True
    with Cons.prems(2) show ?thesis by (intro exI [of _ "[]"]) simp
  next
    case False
    with Cons.prems have "owed (step l s)" "inv (step l s)" by (simp_all add: keeps step_inv)
    with Cons.IH [of "step l s"] Cons.prems(3) obtain before l' after where
      "ls = before @ l' # after" "owed (fold step before (step l s))" "serves l' (fold step before (step l s))"
      by auto
    then show ?thesis by (intro exI [of _ "l # before"]) auto
  qed
qed simp

end

end
