(* ===== verification/Netdev_Fwd.thy ===== *)
theory Netdev_Fwd
  imports Step_Machine
begin

text \<open>
  TCP forwarding between the PPP link and the host, \<^verbatim>\<open>zb_rpc_client/netdev_fwd.c\<close>.

  A forwarded connection is touched by two threads: lwIP's thread runs the callbacks
  \<open>netdev_recv\<close>, \<open>netdev_err\<close> and \<open>close_pcb_cb\<close>, and \<open>host_to_pcb_thread\<close> copies from the host.  The connection
  object is \<open>None\<close> once it has been freed; an access to it then sets \<open>nd_fault\<close>.
\<close>

section \<open>Configuration and listener\<close>

datatype err_t = ERR_OK | ERR_MEM | ERR_VAL | ERR_ARG | ERR_ABRT | ERR_other

record netdev =
  s_host :: string
  s_port :: u16
  s_enabled :: bool
  s_listening :: bool

definition netdev_init :: netdev where
  "netdev_init = \<lparr>s_host = ''127.0.0.1'', s_port = 0, s_enabled = False, s_listening = False\<rparr>"

text \<open>\<open>snprintf\<close> into 256 bytes keeps at most 255 characters.\<close>

definition netdev_fwd_configure :: "string option \<Rightarrow> u16 \<Rightarrow> netdev \<Rightarrow> netdev" where
  "netdev_fwd_configure host port n =
     (let n1 = (case host of None \<Rightarrow> n | Some h \<Rightarrow> if h = [] then n else n\<lparr>s_host := take 255 h\<rparr>)
      in n1\<lparr>s_port := port, s_enabled := (port \<noteq> 0)\<rparr>)"

definition netdev_fwd_enabled :: "netdev \<Rightarrow> bool" where
  "netdev_fwd_enabled n = s_enabled n"

record listen_env =
  tcp_new_ok :: bool
  tcp_bind_ok :: bool
  tcp_listen_ok :: bool
  listen_callback_ok :: bool

definition netdev_start_listen :: "listen_env \<Rightarrow> netdev \<Rightarrow> netdev" where
  "netdev_start_listen W n =
     (if s_listening n \<or> \<not> s_enabled n then n
      else if \<not> tcp_new_ok W then n
      else if \<not> tcp_bind_ok W then n
      else if \<not> tcp_listen_ok W then n
      else n\<lparr>s_listening := True\<rparr>)"

definition netdev_fwd_on_link_up :: "listen_env \<Rightarrow> netdev \<Rightarrow> netdev" where
  "netdev_fwd_on_link_up W n =
     (if \<not> s_enabled n \<or> s_listening n then n
      else if listen_callback_ok W then netdev_start_listen W n else n)"

section \<open>Accepting a connection\<close>

text \<open>One address of the resolver: the socket it gives (negative if none) and whether it connects.\<close>

record addrinfo =
  ai_socket :: int
  ai_connects :: bool

fun connect_first :: "addrinfo list \<Rightarrow> int list \<Rightarrow> int \<times> int list" where
  "connect_first [] fds = (-1, fds)"
| "connect_first (ai # ais) fds =
     (if ai_socket ai < 0 then connect_first ais fds
      else let fds1 = ai_socket ai # fds
           in if ai_connects ai then (ai_socket ai, fds1)
              else connect_first ais (remove1 (ai_socket ai) fds1))"

definition linux_connect_host :: "addrinfo list option \<Rightarrow> int list \<Rightarrow> int \<times> int list" where
  "linux_connect_host resolved fds = (case resolved of None \<Rightarrow> (-1, fds) | Some ais \<Rightarrow> connect_first ais fds)"

record netdev_conn =
  c_pcb :: bool
  host_fd :: int
  alive :: bool

text \<open>Where \<open>host_to_pcb_thread\<close> stands.\<close>

datatype thread_pc = Th_none | Th_loop | Th_write bytes | Th_wait bytes | Th_end | Th_close | Th_free | Th_done

text \<open>Where lwIP's thread stands: in no callback, or in \<open>netdev_recv\<close> with the segments it has still to write.\<close>

datatype lwip_pc = Lw_idle | Lw_recv "bytes list"

text \<open>
  One connection: the object, the lwIP connection (\<open>pcb_live\<close>) with its callbacks (\<open>pcb_arg\<close>: they are set and
  their argument points at the object), the requests in lwIP's mailbox (a close, a write with its result), the
  two threads, the open host descriptors, the bytes written to the host and into the connection, and whether its
  end was passed on.
\<close>

record fwd =
  conn :: "netdev_conn option"
  pcb_live :: bool
  pcb_arg :: bool
  close_queued :: bool
  write_req :: "bytes option"
  write_done :: "err_t option"
  lw_thread :: lwip_pc
  thread :: thread_pc
  nd_fds :: "int list"
  to_host :: bytes
  to_pcb :: bytes
  host_shut :: bool
  nd_fault :: bool

definition netdev_err :: "fwd \<Rightarrow> fwd" where
  "netdev_err f =
     (case conn f of
        None \<Rightarrow> f\<lparr>nd_fault := True\<rparr>
      | Some c \<Rightarrow> f\<lparr>conn := Some (c\<lparr>c_pcb := False, alive := False\<rparr>), host_shut := (host_shut f \<or> 0 \<le> host_fd c)\<rparr>)"

text \<open>
  \<open>tcp_abort\<close> frees the connection; \<open>notifies\<close> says whether lwIP reports the abort to the error callback.
\<close>

definition tcp_abort :: "bool \<Rightarrow> fwd \<Rightarrow> fwd" where
  "tcp_abort notifies f = (if notifies \<and> pcb_arg f then netdev_err f else f)\<lparr>pcb_live := False, pcb_arg := False\<rparr>"

record accept_env =
  accept_err :: err_t
  resolved :: "addrinfo list option"
  calloc_conn :: bool
  thread_create_ok :: bool
  abort_notifies :: bool

definition netdev_accept :: "accept_env \<Rightarrow> fwd \<Rightarrow> err_t \<times> fwd" where
  "netdev_accept A f =
     (if accept_err A \<noteq> ERR_OK \<or> \<not> pcb_live f then (ERR_VAL, f)
      else let (fd, fds1) = linux_connect_host (resolved A) (nd_fds f);
               f1 = f\<lparr>nd_fds := fds1\<rparr>
           in if fd < 0 then (ERR_ABRT, tcp_abort (abort_notifies A) f1)
              else if \<not> calloc_conn A
              then (ERR_MEM, tcp_abort (abort_notifies A) (f1\<lparr>nd_fds := remove1 fd fds1\<rparr>))
              else let f2 = f1\<lparr>conn := Some \<lparr>c_pcb = True, host_fd = fd, alive = True\<rparr>, pcb_arg := True\<rparr>
                   in if \<not> thread_create_ok A
                      then (ERR_ABRT, tcp_abort (abort_notifies A) (f2\<lparr>nd_fds := remove1 fd fds1, conn := None\<rparr>))
                      else (ERR_OK, f2\<lparr>thread := Th_loop\<rparr>))"

section \<open>The callbacks\<close>

text \<open>
  The write loop of \<open>netdev_recv\<close> for one segment; the answers of \<open>write\<close> are a list (negative: an error,
  \<open>None\<close>: interrupted), with everything written once it is used up.
\<close>

fun write_seg :: "int option list \<Rightarrow> bytes \<Rightarrow> fwd \<Rightarrow> int option list \<times> fwd" where
  "write_seg ws [] f = (ws, f)"
| "write_seg [] bs f =
     (case conn f of
        None \<Rightarrow> ([], f\<lparr>nd_fault := True\<rparr>)
      | Some c \<Rightarrow> if 0 \<le> host_fd c \<and> alive c then ([], f\<lparr>to_host := to_host f @ bs\<rparr>) else ([], f))"
| "write_seg (w # ws) bs f =
     (case conn f of
        None \<Rightarrow> (w # ws, f\<lparr>nd_fault := True\<rparr>)
      | Some c \<Rightarrow>
          if 0 \<le> host_fd c \<and> alive c
          then case w of
                 None \<Rightarrow> write_seg ws bs f
               | Some n \<Rightarrow>
                   if n < 0 then (ws, f\<lparr>conn := Some (c\<lparr>alive := False\<rparr>)\<rparr>)
                   else write_seg ws (drop (nat n) bs) (f\<lparr>to_host := to_host f @ take (nat n) bs\<rparr>)
          else (w # ws, f))"

fun write_segs :: "int option list \<Rightarrow> bytes list \<Rightarrow> fwd \<Rightarrow> fwd" where
  "write_segs ws [] f = f"
| "write_segs ws (seg # segs) f = (let (ws', f') = write_seg ws seg f in write_segs ws' segs f')"

text \<open>\<open>p\<close> is the received packet by segments, \<open>None\<close> the end of the stream.\<close>

definition netdev_recv :: "int option list \<Rightarrow> bytes list option \<Rightarrow> err_t \<Rightarrow> fwd \<Rightarrow> err_t \<times> fwd" where
  "netdev_recv ws p err f =
     (if \<not> pcb_arg f then (ERR_ARG, f)
      else if err \<noteq> ERR_OK then (ERR_OK, f)
      else case p of
             None \<Rightarrow>
               (case conn f of
                  None \<Rightarrow> (ERR_OK, f\<lparr>nd_fault := True\<rparr>)
                | Some c \<Rightarrow> (ERR_OK, f\<lparr>conn := Some (c\<lparr>alive := False\<rparr>), host_shut := (host_shut f \<or> 0 \<le> host_fd c)\<rparr>))
           | Some segs \<Rightarrow> (ERR_OK, write_segs ws segs f))"

text \<open>
  The same callback step by step, as the other thread may see it: \<open>recv_begin\<close> runs up to the write loop,
  \<open>recv_write\<close> is one turn of it with the answer of one \<open>write\<close>.
\<close>

definition recv_begin :: "bytes list option \<Rightarrow> err_t \<Rightarrow> fwd \<Rightarrow> fwd" where
  "recv_begin p err f =
     (if \<not> pcb_arg f \<or> err \<noteq> ERR_OK then f
      else case p of None \<Rightarrow> snd (netdev_recv [] None err f) | Some segs \<Rightarrow> f\<lparr>lw_thread := Lw_recv segs\<rparr>)"

definition recv_write :: "int option \<Rightarrow> fwd \<Rightarrow> fwd" where
  "recv_write w f =
     (case lw_thread f of
        Lw_idle \<Rightarrow> f
      | Lw_recv [] \<Rightarrow> f\<lparr>lw_thread := Lw_idle\<rparr>
      | Lw_recv (bs # segs) \<Rightarrow>
          if bs = [] then f\<lparr>lw_thread := Lw_recv segs\<rparr>
          else case conn f of
            None \<Rightarrow> f\<lparr>nd_fault := True, lw_thread := Lw_recv segs\<rparr>
          | Some c \<Rightarrow>
              if 0 \<le> host_fd c \<and> alive c
              then case w of
                     None \<Rightarrow> f
                   | Some n \<Rightarrow>
                       if n < 0 then f\<lparr>conn := Some (c\<lparr>alive := False\<rparr>), lw_thread := Lw_recv segs\<rparr>
                       else f\<lparr>to_host := to_host f @ take (nat n) bs, lw_thread := Lw_recv (drop (nat n) bs # segs)\<rparr>
              else f\<lparr>lw_thread := Lw_recv segs\<rparr>)"

text \<open>The queued close works on the connection of lwIP, which must still exist.\<close>

definition close_pcb_cb :: "fwd \<Rightarrow> fwd" where
  "close_pcb_cb f =
     f\<lparr>nd_fault := (nd_fault f \<or> \<not> pcb_live f), pcb_arg := False, pcb_live := False, close_queued := False\<rparr>"

section \<open>The thread\<close>

datatype host_read = Host_data bytes | Host_eintr | Host_eof | Host_error

text \<open>
  \<open>tcp_write_sync\<close> puts a write into lwIP's mailbox and waits for it; \<open>do_tcp_write\<close> is lwIP's side, with the
  result of \<open>tcp_write\<close>.  \<open>None\<close>: the thread waits.
\<close>

datatype write_sched = Sem_failed | Callback_failed | Scheduled

definition do_tcp_write :: "err_t \<Rightarrow> fwd \<Rightarrow> fwd" where
  "do_tcp_write e f =
     (case write_req f of
        None \<Rightarrow> f
      | Some bs \<Rightarrow>
          f\<lparr>nd_fault := (nd_fault f \<or> \<not> pcb_live f), to_pcb := to_pcb f @ (if e = ERR_OK then bs else []),
            write_req := None, write_done := Some e\<rparr>)"

definition tcp_write_sync :: "write_sched \<Rightarrow> bytes \<Rightarrow> fwd \<Rightarrow> err_t option \<times> fwd" where
  "tcp_write_sync w bs f =
     (case w of
        Sem_failed \<Rightarrow> (Some ERR_MEM, f)
      | Callback_failed \<Rightarrow> (Some ERR_VAL, f)
      | Scheduled \<Rightarrow> (None, f\<lparr>write_req := Some bs, write_done := None\<rparr>))"

definition NETDEV_BUF :: nat where
  "NETDEV_BUF = 2048"

text \<open>What the inner loop does with the result of a write: try again, go on, or give up.\<close>

definition write_result :: "err_t \<Rightarrow> bytes \<Rightarrow> netdev_conn \<Rightarrow> fwd \<Rightarrow> fwd" where
  "write_result e bs c f =
     (if e = ERR_MEM then f\<lparr>thread := Th_write bs\<rparr>
      else if e = ERR_OK then f\<lparr>thread := Th_loop\<rparr>
      else f\<lparr>conn := Some (c\<lparr>alive := False\<rparr>), thread := Th_loop\<rparr>)"

text \<open>One move of the thread, with the answers of the calls it may make.\<close>

definition thread_step :: "host_read \<Rightarrow> write_sched \<Rightarrow> fwd \<Rightarrow> fwd" where
  "thread_step r w f =
     (if thread f = Th_none \<or> thread f = Th_done then f
      else case conn f of
        None \<Rightarrow> f\<lparr>nd_fault := True\<rparr>
      | Some c \<Rightarrow>
          (case thread f of
             Th_loop \<Rightarrow>
               if alive c \<and> 0 \<le> host_fd c \<and> c_pcb c
               then (case r of
                       Host_data bs \<Rightarrow> f\<lparr>thread := (if bs = [] then Th_end else Th_write (take NETDEV_BUF bs))\<rparr>
                     | Host_eintr \<Rightarrow> f
                     | Host_eof \<Rightarrow> f\<lparr>thread := Th_end\<rparr>
                     | Host_error \<Rightarrow> f\<lparr>thread := Th_end\<rparr>)
               else f\<lparr>thread := Th_end\<rparr>
           | Th_write bs \<Rightarrow>
               if alive c \<and> c_pcb c
               then (case tcp_write_sync w bs f of
                       (None, f1) \<Rightarrow> f1\<lparr>thread := Th_wait bs\<rparr>
                     | (Some e, f1) \<Rightarrow> write_result e bs c f1)
               else f\<lparr>thread := Th_loop\<rparr>
           | Th_wait bs \<Rightarrow> (case write_done f of None \<Rightarrow> f | Some e \<Rightarrow> write_result e bs c f)
           | Th_end \<Rightarrow>
               f\<lparr>conn := Some (c\<lparr>alive := False, c_pcb := False\<rparr>),
                 close_queued := (close_queued f \<or> c_pcb c \<and> w \<noteq> Callback_failed), thread := Th_close\<rparr>
           | Th_close \<Rightarrow>
               if 0 \<le> host_fd c
               then f\<lparr>conn := Some (c\<lparr>host_fd := -1\<rparr>), nd_fds := remove1 (host_fd c) (nd_fds f), thread := Th_free\<rparr>
               else f\<lparr>thread := Th_free\<rparr>
           | Th_free \<Rightarrow> f\<lparr>conn := None, thread := Th_done\<rparr>
           | _ \<Rightarrow> f))"

text \<open>Who moves: lwIP's thread (a callback, a turn of the receive loop, a queued request) or the copying thread.\<close>

datatype fwd_label =
    Recv "bytes list option" err_t
  | Recv_write "int option"
  | Err
  | Close
  | Write err_t
  | Thread host_read write_sched

fun fwd_step :: "fwd_label \<Rightarrow> fwd \<Rightarrow> fwd" where
  "fwd_step (Recv p e) f = (if lw_thread f = Lw_idle \<and> pcb_live f then recv_begin p e f else f)"
| "fwd_step (Recv_write w) f = recv_write w f"
| "fwd_step Err f =
     (if lw_thread f = Lw_idle \<and> pcb_live f \<and> pcb_arg f then (netdev_err f)\<lparr>pcb_live := False, pcb_arg := False\<rparr> else f)"
| "fwd_step Close f = (if lw_thread f = Lw_idle \<and> close_queued f then close_pcb_cb f else f)"
| "fwd_step (Write e) f = (if lw_thread f = Lw_idle then do_tcp_write e f else f)"
| "fwd_step (Thread r w) f = thread_step r w f"

section \<open>Descriptors\<close>

lemma connect_first_fds:
  "connect_first ais fds = (fd, fds') \<Longrightarrow> fd < 0 \<and> fds' = fds \<or> 0 \<le> fd \<and> fds' = fd # fds"
  by (induction ais fds rule: connect_first.induct) (auto simp: Let_def split: if_splits)

lemma linux_connect_host_fds:
  "linux_connect_host ais fds = (fd, fds') \<Longrightarrow> fd < 0 \<and> fds' = fds \<or> 0 \<le> fd \<and> fds' = fd # fds"
  by (auto simp: linux_connect_host_def dest: connect_first_fds split: option.splits)

lemma tcp_abort_simps [simp]:
  "nd_fds (tcp_abort b f) = nd_fds f" "\<not> pcb_live (tcp_abort b f)" "\<not> pcb_arg (tcp_abort b f)"
  "conn (tcp_abort b f) = None \<longleftrightarrow> conn f = None"
  "nd_fault (tcp_abort b f) \<longleftrightarrow> nd_fault f \<or> b \<and> pcb_arg f \<and> conn f = None"
  by (auto simp: tcp_abort_def netdev_err_def split: option.splits)

section \<open>Bytes towards the host\<close>

text \<open>The steps of the receive loop, taken one after the other, are the callback.\<close>

lemma recv_write_turn:
  "recv_write w (f\<lparr>lw_thread := Lw_recv ([] # segs)\<rparr>) = f\<lparr>lw_thread := Lw_recv segs\<rparr>"
  "recv_write w (f\<lparr>lw_thread := Lw_recv ((b # bs) # segs)\<rparr>) =
     (case conn f of
        None \<Rightarrow> f\<lparr>nd_fault := True, lw_thread := Lw_recv segs\<rparr>
      | Some c \<Rightarrow>
          if 0 \<le> host_fd c \<and> alive c
          then case w of
                 None \<Rightarrow> f\<lparr>lw_thread := Lw_recv ((b # bs) # segs)\<rparr>
               | Some n \<Rightarrow>
                   if n < 0 then f\<lparr>conn := Some (c\<lparr>alive := False\<rparr>), lw_thread := Lw_recv segs\<rparr>
                   else f\<lparr>to_host := to_host f @ take (nat n) (b # bs), lw_thread := Lw_recv (drop (nat n) (b # bs) # segs)\<rparr>
          else f\<lparr>lw_thread := Lw_recv segs\<rparr>)"
  by (cases f; simp add: recv_write_def split: option.splits)+

lemma write_seg_steps:
  "\<exists>ks. fold recv_write ks (f\<lparr>lw_thread := Lw_recv (bs # segs)\<rparr>) = (snd (write_seg ws bs f))\<lparr>lw_thread := Lw_recv segs\<rparr>"
proof (induction ws bs f rule: write_seg.induct)
  case (1 ws f)
  then show ?case by (intro exI [of _ "[None]"]) (simp add: recv_write_turn)
next
  case (2 b bs f)
  let ?whole = "Some (int (length (b # bs)))"
  show ?case
  proof (cases "\<exists>c. conn f = Some c \<and> 0 \<le> host_fd c \<and> alive c")
    case True
    then show ?thesis by (intro exI [of _ "[?whole, None]"]) (auto simp: recv_write_turn nat_add_distrib)
  next
    case False
    then show ?thesis by (intro exI [of _ "[None]"]) (auto simp: recv_write_turn split: option.splits)
  qed
next
  case (3 w ws b bs f)
  let ?at = "\<lambda>bs f. f\<lparr>lw_thread := Lw_recv (bs # segs)\<rparr>"
  show ?case
  proof (cases "\<exists>c. conn f = Some c \<and> 0 \<le> host_fd c \<and> alive c \<and> (case w of None \<Rightarrow> True | Some n \<Rightarrow> 0 \<le> n)")
    case True
    then obtain c bs' f' where turn: "recv_write w (?at (b # bs) f) = ?at bs' f'"
        "snd (write_seg (w # ws) (b # bs) f) = snd (write_seg ws bs' f')"
        "\<exists>ks. fold recv_write ks (?at bs' f') = (snd (write_seg ws bs' f'))\<lparr>lw_thread := Lw_recv segs\<rparr>"
      using 3 by (cases w) (force simp: recv_write_turn)+
    then obtain ks where "fold recv_write ks (?at bs' f') = (snd (write_seg ws bs' f'))\<lparr>lw_thread := Lw_recv segs\<rparr>" by blast
    with turn show ?thesis by (intro exI [of _ "w # ks"]) simp
  next
    case False
    then show ?thesis by (intro exI [of _ "[w]"]) (auto simp: recv_write_turn split: option.splits)
  qed
qed

lemma write_segs_steps:
  "\<exists>ks. fold recv_write ks (f\<lparr>lw_thread := Lw_recv segs\<rparr>) = (write_segs ws segs f)\<lparr>lw_thread := Lw_idle\<rparr>"
proof (induction segs arbitrary: ws f)
  case Nil
  then show ?case by (intro exI [of _ "[None]"]) (simp add: recv_write_def)
next
  case (Cons seg segs)
  obtain ks where ks: "fold recv_write ks (f\<lparr>lw_thread := Lw_recv (seg # segs)\<rparr>) = (snd (write_seg ws seg f))\<lparr>lw_thread := Lw_recv segs\<rparr>"
    using write_seg_steps by blast
  obtain ks' where "fold recv_write ks' ((snd (write_seg ws seg f))\<lparr>lw_thread := Lw_recv segs\<rparr>) =
      (write_segs (fst (write_seg ws seg f)) segs (snd (write_seg ws seg f)))\<lparr>lw_thread := Lw_idle\<rparr>"
    using Cons.IH by blast
  with ks show ?case by (intro exI [of _ "ks @ ks'"]) (simp add: case_prod_beta)
qed

definition writes_ok :: "int option list \<Rightarrow> bool" where
  "writes_ok ws = list_all (\<lambda>w. case w of None \<Rightarrow> True | Some n \<Rightarrow> 0 \<le> n) ws"

lemma write_seg_ok:
  "conn f = Some c \<Longrightarrow> 0 \<le> host_fd c \<Longrightarrow> alive c \<Longrightarrow> writes_ok ws \<Longrightarrow>
   snd (write_seg ws bs f) = f\<lparr>to_host := to_host f @ bs\<rparr> \<and> writes_ok (fst (write_seg ws bs f))"
  by (induction ws bs f rule: write_seg.induct) (auto simp: writes_ok_def split: option.splits)

lemma write_segs_ok:
  "conn f = Some c \<Longrightarrow> 0 \<le> host_fd c \<Longrightarrow> alive c \<Longrightarrow> writes_ok ws \<Longrightarrow>
   write_segs ws segs f = f\<lparr>to_host := to_host f @ concat segs\<rparr>"
proof (induction segs arbitrary: ws f)
  case (Cons seg segs)
  obtain ws' f' where w: "write_seg ws seg f = (ws', f')" by fastforce
  with write_seg_ok [OF Cons.prems, of seg] Cons.IH [of "f\<lparr>to_host := to_host f @ seg\<rparr>" ws'] Cons.prems show ?case by simp
qed simp

section \<open>Orderly closing\<close>

text \<open>
  When the two threads respect each other: lwIP takes a queued request before it starts another callback, the
  close request finds room in its mailbox, and the connection object is not freed while a callback works on it.
\<close>

fun orderly :: "fwd_label \<Rightarrow> fwd \<Rightarrow> bool" where
  "orderly (Recv p e) f = (\<not> close_queued f \<and> write_req f = None)"
| "orderly Err f = (\<not> close_queued f \<and> write_req f = None)"
| "orderly (Thread r w) f = ((thread f = Th_end \<longrightarrow> w \<noteq> Callback_failed) \<and> (thread f = Th_free \<longrightarrow> lw_thread f = Lw_idle))"
| "orderly _ f = True"

definition orderly_step :: "fwd_label \<Rightarrow> fwd \<Rightarrow> fwd" where
  "orderly_step l f = (if orderly l f then fwd_step l f else f)"

text \<open>
  Who refers to whom: the connection object lives while its thread does and holds the one host descriptor,
  lwIP points at it until closed, and a queued write is one the thread waits for.
\<close>

definition conn_ok :: "fwd \<Rightarrow> bool" where
  "conn_ok f =
     (case conn f of
        None \<Rightarrow> (thread f = Th_none \<or> thread f = Th_done) \<and> lw_thread f = Lw_idle \<and> nd_fds f = []
      | Some c \<Rightarrow> thread f \<noteq> Th_none \<and> thread f \<noteq> Th_done \<and> (c_pcb c \<longrightarrow> pcb_arg f \<and> \<not> close_queued f) \<and>
          (thread f = Th_close \<or> thread f = Th_free \<longrightarrow> \<not> c_pcb c) \<and> (thread f = Th_free \<longrightarrow> host_fd c < 0) \<and>
          nd_fds f = (if 0 \<le> host_fd c then [host_fd c] else []))"

definition requests_ok :: "fwd \<Rightarrow> bool" where
  "requests_ok f =
     ((close_queued f \<longrightarrow> pcb_live f \<and> thread f \<in> {Th_close, Th_free, Th_done}) \<and>
      (write_req f \<noteq> None \<longrightarrow> pcb_live f \<and> write_done f = None \<and> (\<exists>bs. thread f = Th_wait bs)))"

definition arg_ok :: "fwd \<Rightarrow> bool" where
  "arg_ok f = (pcb_arg f \<longrightarrow> pcb_live f \<and> (close_queued f \<or> (\<exists>c. conn f = Some c \<and> c_pcb c)))"

definition fwd_inv :: "fwd \<Rightarrow> bool" where
  "fwd_inv f = (\<not> nd_fault f \<and> conn_ok f \<and> requests_ok f \<and> arg_ok f)"

lemmas fwd_inv_defs = fwd_inv_def conn_ok_def requests_ok_def arg_ok_def

lemma orderly_thread:
  assumes "fwd_inv f" "orderly (Thread r w) f"
  shows "fwd_inv (thread_step r w f)"
proof (cases "conn f")
  case None
  then show ?thesis using assms by (auto simp: fwd_inv_defs thread_step_def)
next
  case (Some c)
  show ?thesis
  proof (cases "thread f")
    case Th_loop
    then show ?thesis using assms Some by (cases r) (auto simp: fwd_inv_defs thread_step_def)
  next
    case (Th_write bs)
    then show ?thesis using assms Some by (cases w) (auto simp: fwd_inv_defs thread_step_def tcp_write_sync_def write_result_def)
  next
    case (Th_wait bs)
    then show ?thesis using assms Some by (cases "write_done f") (auto simp: fwd_inv_defs thread_step_def write_result_def)
  qed (use assms Some in \<open>auto simp: fwd_inv_defs thread_step_def\<close>)
qed

lemma orderly_close: "fwd_inv f \<Longrightarrow> fwd_inv (fwd_step Close f)"
  by (cases "conn f") (auto simp: fwd_inv_defs close_pcb_cb_def)

lemma orderly_write: "fwd_inv f \<Longrightarrow> fwd_inv (fwd_step (Write e) f)"
  by (cases "conn f"; cases "write_req f") (auto simp: fwd_inv_defs do_tcp_write_def)

lemma orderly_recv: "fwd_inv f \<Longrightarrow> orderly (Recv p e) f \<Longrightarrow> fwd_inv (fwd_step (Recv p e) f)"
  by (cases p; cases "conn f") (auto simp: fwd_inv_defs recv_begin_def netdev_recv_def)

lemma orderly_err:
  assumes "fwd_inv f" "orderly Err f"
  shows "fwd_inv (fwd_step Err f)"
proof (cases "lw_thread f = Lw_idle \<and> pcb_live f \<and> pcb_arg f")
  case True
  then obtain c where "conn f = Some c" using assms by (auto simp: fwd_inv_defs)
  with True assms show ?thesis by (simp add: fwd_inv_defs netdev_err_def)
qed (use assms(1) in auto)

lemma orderly_recv_write:
  assumes "fwd_inv f"
  shows "fwd_inv (fwd_step (Recv_write w) f)"
proof (cases "lw_thread f = Lw_idle")
  case False
  then obtain c where "conn f = Some c" using assms by (auto simp: fwd_inv_defs split: option.splits)
  with assms show ?thesis
    by (cases w) (auto simp: fwd_inv_defs recv_write_def split: lwip_pc.splits list.splits)
qed (use assms in \<open>simp add: recv_write_def\<close>)

interpretation orderly_machine: machine_inv orderly_step fwd_inv
proof
  fix f l assume "fwd_inv f"
  then show "fwd_inv (orderly_step l f)"
    using orderly_thread orderly_close orderly_write orderly_recv orderly_recv_write orderly_err
    by (cases l) (simp_all add: orderly_step_def)
qed

section \<open>Properties\<close>

definition fresh_fwd :: fwd where
  "fresh_fwd = \<lparr>conn = None, pcb_live = True, pcb_arg = False, close_queued = False, write_req = None, write_done = None,
     lw_thread = Lw_idle, thread = Th_none, nd_fds = [], to_host = [], to_pcb = [], host_shut = False, nd_fault = False\<rparr>"

definition lab_accept :: accept_env where
  "lab_accept = \<lparr>accept_err = ERR_OK, resolved = Some [\<lparr>ai_socket = 8, ai_connects = False\<rparr>, \<lparr>ai_socket = 9, ai_connects = True\<rparr>],
     calloc_conn = True, thread_create_ok = True, abort_notifies = True\<rparr>"

text \<open>
  C39: accepting a forwarded connection keeps descriptors balanced: on success exactly the host socket stays
  open and its thread runs; on every failure all sockets tried are closed and the incoming connection is aborted.
  Freed memory is touched in exactly one case: the thread could not be created and lwIP reports the abort
  to the error callback, whose argument has just been freed.
\<close>

theorem netdev_accept_outcome:
  assumes "accept_err A = ERR_OK" "pcb_live f" "\<not> pcb_arg f" "conn f = None" "\<not> nd_fault f"
    and "netdev_accept A f = (e, f')"
  shows "(if e = ERR_OK then (\<exists>fd. nd_fds f' = fd # nd_fds f \<and> conn f' = Some \<lparr>c_pcb = True, host_fd = fd, alive = True\<rparr>) \<and>
           thread f' = Th_loop
         else nd_fds f' = nd_fds f \<and> conn f' = None \<and> \<not> pcb_live f') \<and>
    (nd_fault f' \<longleftrightarrow> abort_notifies A \<and> \<not> thread_create_ok A \<and> calloc_conn A \<and>
       0 \<le> fst (linux_connect_host (resolved A) (nd_fds f)))"
proof -
  obtain fd fds where c: "linux_connect_host (resolved A) (nd_fds f) = (fd, fds)" by fastforce
  from linux_connect_host_fds [OF c] assms c show ?thesis
    by (auto simp: netdev_accept_def Let_def split: if_splits)
qed

theorem netdev_accept_outcome_witness:
  "(\<exists>fd. nd_fds (snd (netdev_accept lab_accept fresh_fwd)) = [fd]) \<and> \<not> nd_fault (snd (netdev_accept lab_accept fresh_fwd)) \<and>
   nd_fault (snd (netdev_accept (lab_accept\<lparr>thread_create_ok := False\<rparr>) fresh_fwd))"
proof -
  have ok: "fst (netdev_accept lab_accept fresh_fwd) = ERR_OK" "accept_err lab_accept = ERR_OK" "pcb_live fresh_fwd"
      "\<not> pcb_arg fresh_fwd" "conn fresh_fwd = None" "\<not> nd_fault fresh_fwd" "nd_fds fresh_fwd = []"
      "thread_create_ok lab_accept" "0 \<le> fst (linux_connect_host (resolved lab_accept) [])" "abort_notifies lab_accept"
      "calloc_conn lab_accept" by code_simp+
  show ?thesis
    using netdev_accept_outcome [OF ok(2-6) prod.collapse [symmetric]]
      netdev_accept_outcome [of "lab_accept\<lparr>thread_create_ok := False\<rparr>" fresh_fwd, OF _ ok(3-6) prod.collapse [symmetric]]
      ok(1,2,7-) by auto
qed

text \<open>
  what the device sends arrives at the host complete and in order, whatever way its packets are cut
  into segments and the host takes them in parts, as long as the host keeps accepting.
\<close>

lemma netdev_recv_forwards:
  assumes "pcb_arg f" "conn f = Some c" "0 \<le> host_fd c" "alive c" "writes_ok ws"
  shows "netdev_recv ws (Some segs) ERR_OK f = (ERR_OK, f\<lparr>to_host := to_host f @ concat segs\<rparr>)"
  using assms write_segs_ok [of f c ws segs] by (simp add: netdev_recv_def)


definition accepted :: fwd where
  "accepted = snd (netdev_accept lab_accept fresh_fwd)"

text \<open>One byte from the host written into the connection, a packet from the device, then the end of the host's stream.\<close>

definition fwd_session :: "fwd_label list" where
  "fwd_session =
     [Thread (Host_data [7]) Scheduled, Thread Host_eof Scheduled, Write ERR_OK, Recv (Some [[1, 2]]) ERR_OK, Recv_write (Some 1),
      Thread Host_eof Scheduled, Recv_write (Some 1), Recv_write None, Recv_write None, Thread Host_eof Scheduled,
      Thread Host_eof Scheduled, Close, Thread Host_eof Scheduled, Thread Host_eof Scheduled]"



end
