(* ===== verification/Ppp_Link.thy ===== *)
theory Ppp_Link
  imports Netdev_Fwd
begin

text \<open>
  The client's end of the PPP link: \<^verbatim>\<open>zb_rpc_client/ppp_link.c\<close> (the link object and its TUN thread),
  \<^verbatim>\<open>ppp_lwip.c\<close> (the glue to lwIP's PPP) and \<^verbatim>\<open>serial_io.c\<close> (the serial port).

  All three share the record \<open>client_io\<close>.  The link and the serial port are heap objects: \<open>None\<close>
  is memory that is not allocated, and an access to it sets \<open>fault\<close>, as does a copy that leaves
  a buffer.  lwIP, the kernel and the thread library answer through the record \<open>link_env\<close>; what lwIP
  sends while a call runs is the list of frames it passes to the output callback.
\<close>

section \<open>State\<close>

definition BUF_SIZE :: nat where
  "BUF_SIZE = 1518"

datatype ppp_link_mode = PPP_LINK_MODE_SERVER | PPP_LINK_MODE_CLIENT

record ppp_config =
  mode :: ppp_link_mode
  local_ip :: string
  peer_ip :: string
  dns_ip :: string
  ipv6 :: bool
  netdev :: bool

text \<open>The fields of lwIP's PPP control block the configuration writes.\<close>

record ppp_pcb =
  pcb_passive :: bool
  fsm_timeout :: nat
  ouraddr :: u32
  hisaddr :: u32
  accept_remote :: bool
  accept_local :: bool
  ask_for_local :: bool
  dnsaddr :: "u32 option"
  usepeerdns :: bool
  want_vj :: bool
  allow_vj :: bool
  want_ifaceid :: bool
  allow_ifaceid :: bool
  want_v6_local :: bool
  allow_v6_local :: bool
  want_use_ip :: bool

text \<open>\<open>io_output\<close>: the output callback is installed, with the serial port as its context.\<close>

record ppp_link_io =
  tun_fd :: int
  in_buf :: bytes
  out_buf :: bytes
  ppp_cfg :: "ppp_config option"
  io_output :: bool

record ppp_link =
  io :: ppp_link_io
  running :: bool
  thread_started :: bool

record serial_io =
  serial_fd :: int
  serial_running :: bool
  verbose :: bool
  attached_link :: bool

text \<open>
  \<open>s_io\<close> points into the link.  \<open>serial_tx\<close>, \<open>tun_tx\<close>, \<open>ppp_rx\<close> and \<open>netif_tx\<close> collect what went to the serial
  port, to the TUN device, into lwIP's PPP input and out through the PPP interface (\<open>True\<close> for IPv6);
  \<open>write_answers\<close> are the results of the coming writes to the serial port, which accepts everything once
  they are used up.
\<close>

record client_io =
  link :: "ppp_link option"
  serial :: "serial_io option"
  s_io :: bool
  ppp :: "ppp_pcb option"
  s_link_up :: bool
  s_use_tcpip :: bool
  nd :: netdev
  io_fds :: "int list"
  serial_tx :: bytes
  write_answers :: "int list"
  tun_tx :: "bytes list"
  ppp_rx :: "bytes list"
  netif_tx :: "(bool \<times> bytes) list"
  fault :: bool

record link_env =
  calloc_ok :: bool
  tun_open :: int
  tunsetiff_ok :: bool
  thread_ok :: bool
  aton :: "string \<Rightarrow> u32 option"
  new_pcb :: "ppp_pcb option"
  session_ok :: bool
  session_frames :: "bytes list"
  close_frames :: "bytes list"
  sem_ok :: bool
  callback_ok :: bool
  serial_open_fd :: int
  tcgetattr_ok :: bool
  tcsetattr_ok :: bool
  serial_thread_ok :: bool

section \<open>The serial port\<close>

datatype speed = B9600 | B19200 | B38400 | B57600 | B115200 | B230400 | B460800 | B921600

definition baud_to_speed :: "int \<Rightarrow> speed" where
  "baud_to_speed baud =
     (if baud = 9600 then B9600 else if baud = 19200 then B19200 else if baud = 38400 then B38400
      else if baud = 57600 then B57600 else if baud = 115200 then B115200 else if baud = 230400 then B230400
      else if baud = 460800 then B460800 else if baud = 921600 then B921600 else B115200)"

text \<open>\<open>write\<close> returns a negative number, or how much of the data it took.\<close>

definition serial_output :: "bytes \<Rightarrow> client_io \<Rightarrow> int \<times> client_io" where
  "serial_output bs c =
     (case serial c of
        None \<Rightarrow> (-1, c\<lparr>fault := True\<rparr>)
      | Some s \<Rightarrow>
          let written = (case write_answers c of [] \<Rightarrow> int (length bs) | w # ws \<Rightarrow> min w (int (length bs)));
              c1 = c\<lparr>write_answers := tl (write_answers c)\<rparr>
          in if written < 0 then (-1, c1)
             else (written, c1\<lparr>serial_tx := serial_tx c1 @ take (nat written) bs\<rparr>))"

definition serial_io_open :: "link_env \<Rightarrow> bool \<Rightarrow> client_io \<Rightarrow> bool \<times> client_io" where
  "serial_io_open L v c =
     (if \<not> calloc_ok L then (False, c)
      else let fd = serial_open_fd L
           in if fd < 0 then (False, c)
              else let c1 = c\<lparr>io_fds := fd # io_fds c\<rparr>
                   in if \<not> tcgetattr_ok L then (False, c1\<lparr>io_fds := remove1 fd (io_fds c1)\<rparr>)
                      else if \<not> tcsetattr_ok L then (False, c1\<lparr>io_fds := remove1 fd (io_fds c1)\<rparr>)
                      else if \<not> serial_thread_ok L then (False, c1\<lparr>io_fds := remove1 fd (io_fds c1)\<rparr>)
                      else (True, c1\<lparr>serial := Some \<lparr>serial_fd = fd, serial_running = True, verbose = v,
                                               attached_link = False\<rparr>\<rparr>))"

definition ppp_link_set_output :: "bool \<Rightarrow> client_io \<Rightarrow> client_io" where
  "ppp_link_set_output fn c =
     (case link c of
        None \<Rightarrow> c\<lparr>fault := True\<rparr>
      | Some l \<Rightarrow> c\<lparr>link := Some (l\<lparr>io := (io l)\<lparr>io_output := fn\<rparr>\<rparr>)\<rparr>)"

definition serial_io_attach :: "client_io \<Rightarrow> client_io" where
  "serial_io_attach c =
     (case serial c of
        None \<Rightarrow> c\<lparr>fault := True\<rparr>
      | Some s \<Rightarrow> ppp_link_set_output True (c\<lparr>serial := Some (s\<lparr>attached_link := True\<rparr>)\<rparr>))"

text \<open>Closing stops the reader thread, detaches the callback while both objects exist, then frees.\<close>

definition serial_io_close :: "client_io \<Rightarrow> client_io" where
  "serial_io_close c =
     (case serial c of
        None \<Rightarrow> c
      | Some s \<Rightarrow>
          let c1 = (if attached_link s then ppp_link_set_output False c else c)
          in c1\<lparr>serial := None, io_fds := remove1 (serial_fd s) (io_fds c1)\<rparr>)"

section \<open>The glue to lwIP\<close>

text \<open>The error codes of lwIP's PPP; \<open>PPPERR_NONE\<close> reports an established link.\<close>

datatype ppp_err = PPPERR_NONE | PPPERR_failure nat

text \<open>\<open>has_addr\<close>: the interface has an IPv4 address.\<close>

definition ppp_link_status_cb :: "listen_env \<Rightarrow> bool \<Rightarrow> ppp_err \<Rightarrow> client_io \<Rightarrow> client_io" where
  "ppp_link_status_cb W has_addr err c =
     (case err of
        PPPERR_failure n \<Rightarrow> c\<lparr>s_link_up := False\<rparr>
      | PPPERR_NONE \<Rightarrow>
          let c1 = c\<lparr>s_link_up := True\<rparr>
          in if netdev_fwd_enabled (nd c1) \<and> has_addr then c1\<lparr>nd := netdev_fwd_on_link_up W (nd c1)\<rparr> else c1)"

definition ppp_output_cb :: "bytes \<Rightarrow> client_io \<Rightarrow> nat \<times> client_io" where
  "ppp_output_cb data c =
     (if \<not> s_io c then (0, c)
      else case link c of
             None \<Rightarrow> (0, c\<lparr>fault := True\<rparr>)
           | Some l \<Rightarrow>
               if io_output (io l)
               then let (n, c1) = serial_output data c in (if 0 < n then nat n else 0, c1)
               else (0, c))"

text \<open>What lwIP sends during one of its calls.\<close>

definition emit :: "bytes list \<Rightarrow> client_io \<Rightarrow> client_io" where
  "emit frames c = fold (\<lambda>f c. snd (ppp_output_cb f c)) frames c"

definition ppp_link_serial_input :: "bytes \<Rightarrow> client_io \<Rightarrow> client_io" where
  "ppp_link_serial_input data c = (if ppp c = None then c else c\<lparr>ppp_rx := ppp_rx c @ [data]\<rparr>)"

definition ppp_link_input :: "bytes \<Rightarrow> client_io \<Rightarrow> client_io" where
  "ppp_link_input data c = ppp_link_serial_input data c"

definition configure_ppp_server :: "link_env \<Rightarrow> bool \<Rightarrow> ppp_config option \<Rightarrow> ppp_pcb \<Rightarrow> ppp_pcb option" where
  "configure_ppp_server L fwd cfg pcb =
     (case cfg of
        None \<Rightarrow> None
      | Some cfg \<Rightarrow>
          (case aton L (local_ip cfg) of None \<Rightarrow> None | Some local_addr \<Rightarrow>
          (case aton L (peer_ip cfg) of None \<Rightarrow> None | Some peer_addr \<Rightarrow>
          (case aton L (dns_ip cfg) of None \<Rightarrow> None | Some dns_addr \<Rightarrow>
             let pcb1 = pcb\<lparr>pcb_passive := True, fsm_timeout := 1, ouraddr := local_addr, accept_remote := True,
                   ask_for_local := True, hisaddr := peer_addr, accept_local := True, dnsaddr := Some dns_addr,
                   usepeerdns := False, want_vj := \<not> fwd, allow_vj := \<not> fwd\<rparr>
             in Some (if ipv6 cfg
                      then pcb1\<lparr>want_ifaceid := True, allow_ifaceid := True, want_v6_local := True,
                             allow_v6_local := True, want_use_ip := True\<rparr>
                      else pcb1\<lparr>want_ifaceid := False, allow_ifaceid := False\<rparr>)))))"

definition configure_ppp_client :: "bool \<Rightarrow> ppp_config option \<Rightarrow> ppp_pcb \<Rightarrow> ppp_pcb option" where
  "configure_ppp_client fwd cfg pcb =
     (case cfg of
        None \<Rightarrow> None
      | Some cfg \<Rightarrow>
          Some (pcb\<lparr>fsm_timeout := 1, usepeerdns := True, want_vj := \<not> fwd,
                 want_ifaceid := ipv6 cfg, allow_ifaceid := ipv6 cfg\<rparr>))"

definition ppp_link_is_up :: "client_io \<Rightarrow> bool" where
  "ppp_link_is_up c = s_link_up c"

text \<open>\<open>ppp_close\<close> sends the terminate request through the output callback.\<close>

definition ppp_link_lwip_stop :: "link_env \<Rightarrow> client_io \<Rightarrow> client_io" where
  "ppp_link_lwip_stop L c =
     (if ppp c = None then c
      else if s_use_tcpip c
      then if \<not> sem_ok L then c else if callback_ok L then emit (close_frames L) c else c
      else emit (close_frames L) c)"

text \<open>
  Creating and starting the session: the common part of \<open>ppp_link_lwip_init\<close> and, inside the lwIP thread,
  of \<open>ppp_setup_tcpip\<close>.  A null configuration would be dereferenced for its mode.
\<close>

definition ppp_setup :: "link_env \<Rightarrow> ppp_config option \<Rightarrow> client_io \<Rightarrow> bool \<times> client_io" where
  "ppp_setup L cfg c =
     (let c1 = c\<lparr>ppp := new_pcb L\<rparr>
      in case new_pcb L of
           None \<Rightarrow> (False, c1)
         | Some pcb \<Rightarrow>
             (case cfg of
                None \<Rightarrow> (False, c1\<lparr>fault := True\<rparr>)
              | Some g \<Rightarrow>
                  (case (if mode g = PPP_LINK_MODE_SERVER then configure_ppp_server L (netdev_fwd_enabled (nd c)) cfg pcb
                         else configure_ppp_client (netdev_fwd_enabled (nd c)) cfg pcb) of
                     None \<Rightarrow> (False, c1)
                   | Some pcb' \<Rightarrow>
                       let c2 = emit (session_frames L) (c1\<lparr>ppp := Some pcb'\<rparr>)
                       in (session_ok L, c2))))"

definition ppp_setup_tcpip :: "link_env \<Rightarrow> ppp_config option \<Rightarrow> client_io \<Rightarrow> bool \<times> client_io" where
  "ppp_setup_tcpip L cfg c = ppp_setup L cfg c"

definition ppp_link_lwip_init :: "link_env \<Rightarrow> client_io \<Rightarrow> bool \<times> client_io" where
  "ppp_link_lwip_init L c =
     (case link c of
        None \<Rightarrow> (False, c\<lparr>s_io := False\<rparr>)
      | Some l \<Rightarrow>
          let c1 = c\<lparr>s_io := True,
                s_use_tcpip := (netdev_fwd_enabled (nd c) \<or> (case ppp_cfg (io l) of None \<Rightarrow> False | Some g \<Rightarrow> netdev g))\<rparr>
          in if s_use_tcpip c1
             then if \<not> sem_ok L \<or> \<not> callback_ok L then (False, c1)
                  else ppp_setup_tcpip L (ppp_cfg (io l)) c1
             else ppp_setup L (ppp_cfg (io l)) c1)"

section \<open>Packets between TUN and PPP\<close>

definition ip6_header :: bytes where
  "ip6_header = [0, 0, 0x86, 0xdd]"

definition ip4_header :: bytes where
  "ip4_header = [0, 0, 0x08, 0]"

text \<open>\<open>memcpy\<close> into a buffer at an offset: \<open>None\<close> when it would leave the buffer.\<close>

definition copy_into :: "bytes \<Rightarrow> nat \<Rightarrow> bytes \<Rightarrow> bytes option" where
  "copy_into buf offset data =
     (if offset + length data \<le> length buf then Some (take offset buf @ data @ drop (offset + length data) buf) else None)"

text \<open>The loop over the packet's segments.\<close>

fun copy_segments :: "bytes \<Rightarrow> nat \<Rightarrow> bytes list \<Rightarrow> (bytes \<times> nat) option" where
  "copy_segments buf offset [] = Some (buf, offset)"
| "copy_segments buf offset (seg # segs) =
     (case copy_into buf offset seg of
        None \<Rightarrow> None
      | Some buf' \<Rightarrow> copy_segments buf' (offset + length seg) segs)"

text \<open>\<open>wrote\<close>: how much of the frame the TUN device accepts.\<close>

definition tun_output :: "(nat \<Rightarrow> int) \<Rightarrow> bytes list \<Rightarrow> bytes \<Rightarrow> client_io \<Rightarrow> err_t \<times> client_io" where
  "tun_output wrote p tun_header c =
     (if \<not> s_io c then (ERR_ARG, c)
      else case link c of
             None \<Rightarrow> (ERR_ARG, c\<lparr>fault := True\<rparr>)
           | Some l \<Rightarrow>
               if tun_fd (io l) < 0 then (ERR_OK, c)
               else (case copy_segments (in_buf (io l)) 0 (tun_header # p) of
                       None \<Rightarrow> (ERR_ABRT, c\<lparr>fault := True\<rparr>)
                     | Some (buf, offset) \<Rightarrow>
                         let c1 = c\<lparr>link := Some (l\<lparr>io := (io l)\<lparr>in_buf := buf\<rparr>\<rparr>),
                               tun_tx := tun_tx c @ [take (nat (wrote offset)) (take offset buf)]\<rparr>
                         in if wrote offset \<noteq> int offset then (ERR_ABRT, c1) else (ERR_OK, c1)))"

definition ip6_input :: "(nat \<Rightarrow> int) \<Rightarrow> bytes list \<Rightarrow> client_io \<Rightarrow> err_t \<times> client_io" where
  "ip6_input wrote p c = tun_output wrote p ip6_header c"

text \<open>\<open>lwip_ip4_input\<close> is lwIP's own IPv4 input, used when TCP forwarding is on.\<close>

definition ip4_input ::
    "(bytes list \<Rightarrow> client_io \<Rightarrow> err_t \<times> client_io) \<Rightarrow> (nat \<Rightarrow> int) \<Rightarrow> bytes list \<Rightarrow> client_io \<Rightarrow> err_t \<times> client_io" where
  "ip4_input lwip_ip4_input wrote p c = (if netdev_fwd_enabled (nd c) then lwip_ip4_input p c else tun_output wrote p ip4_header c)"

text \<open>What the kernel answers to one poll of the TUN device, and whether a packet buffer is available.\<close>

datatype tun_event = Tun_idle | Tun_error | Tun_frame bytes

definition ppp_link_tun_poll :: "tun_event \<Rightarrow> bool \<Rightarrow> client_io \<Rightarrow> int \<times> client_io" where
  "ppp_link_tun_poll event pbuf_ok c =
     (case link c of
        None \<Rightarrow> (0, c)
      | Some l \<Rightarrow>
          if tun_fd (io l) < 0 then (0, c)
          else (case event of
                  Tun_idle \<Rightarrow> (0, c)
                | Tun_error \<Rightarrow> (-1, c)
                | Tun_frame f \<Rightarrow>
                    let frame = take BUF_SIZE f;
                        c1 = c\<lparr>link := Some (l\<lparr>io := (io l)\<lparr>out_buf := frame @ drop (length frame) (out_buf (io l))\<rparr>\<rparr>)\<rparr>
                    in if length frame \<le> 4 then (0, c1)
                       else if \<not> pbuf_ok then (-1, c1)
                       else let packet = drop 4 frame
                            in (1, if take 4 frame = ip6_header then c1\<lparr>netif_tx := netif_tx c1 @ [(True, packet)]\<rparr>
                                   else if take 4 frame = ip4_header then c1\<lparr>netif_tx := netif_tx c1 @ [(False, packet)]\<rparr>
                                   else c1)))"

section \<open>The link object\<close>

definition ppp_link_create :: "link_env \<Rightarrow> ppp_config option \<Rightarrow> bool \<Rightarrow> client_io \<Rightarrow> bool \<times> client_io" where
  "ppp_link_create L cfg use_tun c =
     (if cfg = None then (False, c)
      else if \<not> calloc_ok L then (False, c)
      else let l = \<lparr>io = \<lparr>tun_fd = -1, in_buf = replicate BUF_SIZE 0, out_buf = replicate BUF_SIZE 0, ppp_cfg = cfg,
                          io_output = False\<rparr>, running = False, thread_started = False\<rparr>
           in if \<not> use_tun then (True, c\<lparr>link := Some l\<rparr>)
              else let fd = tun_open L
                   in if fd < 0 then (False, c)
                      else let c1 = c\<lparr>io_fds := fd # io_fds c\<rparr>
                           in if \<not> tunsetiff_ok L then (False, c1\<lparr>io_fds := remove1 fd (io_fds c1)\<rparr>)
                              else (True, c1\<lparr>link := Some (l\<lparr>io := (io l)\<lparr>tun_fd := fd\<rparr>\<rparr>)\<rparr>))"

definition ppp_link_start :: "link_env \<Rightarrow> client_io \<Rightarrow> bool \<times> client_io" where
  "ppp_link_start L c =
     (if link c = None then (False, c)
      else let (ok, c1) = ppp_link_lwip_init L c
           in if \<not> ok then (False, c1)
              else case link c1 of
                     None \<Rightarrow> (False, c1\<lparr>fault := True\<rparr>)
                   | Some l \<Rightarrow>
                       if \<not> thread_ok L then (False, c1\<lparr>link := Some (l\<lparr>running := False\<rparr>)\<rparr>)
                       else (True, c1\<lparr>link := Some (l\<lparr>running := True, thread_started := True\<rparr>)\<rparr>))"

definition stop_tun_thread :: "ppp_link \<Rightarrow> ppp_link" where
  "stop_tun_thread l = (if thread_started l then l\<lparr>running := False, thread_started := False\<rparr> else l)"

definition ppp_link_stop :: "link_env \<Rightarrow> client_io \<Rightarrow> client_io" where
  "ppp_link_stop L c =
     (case link c of
        None \<Rightarrow> c
      | Some l \<Rightarrow> ppp_link_lwip_stop L (c\<lparr>link := Some (stop_tun_thread l)\<rparr>))"

definition ppp_link_destroy :: "client_io \<Rightarrow> client_io" where
  "ppp_link_destroy c =
     (case link c of
        None \<Rightarrow> c
      | Some l \<Rightarrow>
          let l' = stop_tun_thread l
          in c\<lparr>link := None,
               io_fds := (if 0 \<le> tun_fd (io l') then remove1 (tun_fd (io l')) (io_fds c) else io_fds c)\<rparr>)"

section \<open>The threads\<close>

text \<open>
  What one turn of the serial reader meets.  The loop ends when the list is used up (the flag was cleared)
  or on a hard error.
\<close>

datatype serial_event = Ser_idle | Ser_eintr | Ser_poll_error | Ser_data bytes | Ser_empty | Ser_again | Ser_error

fun serial_read_task :: "serial_event list \<Rightarrow> client_io \<Rightarrow> client_io" where
  "serial_read_task [] c = c"
| "serial_read_task (Ser_poll_error # es) c = c"
| "serial_read_task (Ser_error # es) c = c"
| "serial_read_task (Ser_data bs # es) c =
     (case serial c of
        None \<Rightarrow> c\<lparr>fault := True\<rparr>
      | Some s \<Rightarrow>
          serial_read_task es (if attached_link s \<and> bs \<noteq> [] then ppp_link_input (take 1024 bs) c else c))"
| "serial_read_task (e # es) c = serial_read_task es c"

text \<open>The TUN thread polls while the link is running; results are ignored.\<close>

fun tun_thread :: "(tun_event \<times> bool) list \<Rightarrow> client_io \<Rightarrow> client_io" where
  "tun_thread [] c = c"
| "tun_thread ((e, ok) # es) c =
     (case link c of
        None \<Rightarrow> c\<lparr>fault := True\<rparr>
      | Some l \<Rightarrow> if running l then tun_thread es (snd (ppp_link_tun_poll e ok c)) else c)"

section \<open>Copying a packet\<close>

lemma copy_into_Some:
  "copy_into buf k data = Some buf' \<Longrightarrow> length buf' = length buf \<and> take (k + length data) buf' = take k buf @ data"
  by (auto simp: copy_into_def split: if_splits)

lemma copy_segments_spec:
  "k \<le> length buf \<Longrightarrow>
   (case copy_segments buf k segs of
      None \<Rightarrow> length buf < k + length (concat segs)
    | Some (buf', n) \<Rightarrow> n = k + length (concat segs) \<and> n \<le> length buf \<and> length buf' = length buf \<and>
        take n buf' = take k buf @ concat segs)"
proof (induction segs arbitrary: buf k)
  case (Cons seg segs)
  show ?case
  proof (cases "copy_into buf k seg")
    case None
    then show ?thesis by (auto simp: copy_into_def split: if_splits)
  next
    case (Some buf')
    have "k + length seg \<le> length buf'" using Some by (auto simp: copy_into_def split: if_splits)
    from Cons.IH [OF this] copy_into_Some [OF Some] Some show ?thesis by (simp split: option.splits prod.splits)
  qed
qed simp

lemma tun_output_spec:
  assumes "s_io c" "link c = Some l" "0 \<le> tun_fd (io l)" "length (in_buf (io l)) = BUF_SIZE"
    and "wrote (length h + length (concat p)) = int (length h + length (concat p))"
  shows "(let (e, c') = tun_output wrote p h c
    in if length h + length (concat p) \<le> BUF_SIZE
       then e = ERR_OK \<and> fault c' = fault c \<and> tun_tx c' = tun_tx c @ [h @ concat p]
       else fault c' \<and> tun_tx c' = tun_tx c)"
  using copy_segments_spec [of 0 "in_buf (io l)" "h # p"] assms
  by (auto simp: tun_output_def Let_def split: option.splits prod.splits)

lemma tun_poll_dispatch:
  assumes "link c = Some l" "0 \<le> tun_fd (io l)" "packet \<noteq> []" "length packet \<le> 1514" "length header = 4"
  shows "netif_tx (snd (ppp_link_tun_poll (Tun_frame (header @ packet)) True c)) =
    netif_tx c @ (if header = ip6_header then [(True, packet)] else if header = ip4_header then [(False, packet)] else [])"
proof -
  have "take BUF_SIZE (header @ packet) = header @ packet" using assms(4,5) by (simp add: BUF_SIZE_def)
  moreover have "take 4 (header @ packet) = header" "drop 4 (header @ packet) = packet" "4 < length (header @ packet)"
    using assms(3,5) by simp_all
  ultimately show ?thesis
    using assms(1,2) by (simp add: ppp_link_tun_poll_def Let_def)
qed

section \<open>Sending\<close>

lemma serial_output_frame [simp]:
  "link (snd (serial_output bs c)) = link c" "serial (snd (serial_output bs c)) = serial c"
  "io_fds (snd (serial_output bs c)) = io_fds c" "s_io (snd (serial_output bs c)) = s_io c"
  "ppp (snd (serial_output bs c)) = ppp c"
  by (auto simp: serial_output_def Let_def split: option.splits)

lemma output_cb_frame [simp]:
  "link (snd (ppp_output_cb bs c)) = link c" "serial (snd (ppp_output_cb bs c)) = serial c"
  "io_fds (snd (ppp_output_cb bs c)) = io_fds c" "s_io (snd (ppp_output_cb bs c)) = s_io c"
  "ppp (snd (ppp_output_cb bs c)) = ppp c"
  by (auto simp: ppp_output_cb_def case_prod_beta split: option.splits)

lemma emit_frame [simp]:
  "link (emit fs c) = link c" "serial (emit fs c) = serial c" "io_fds (emit fs c) = io_fds c"
  "s_io (emit fs c) = s_io c" "ppp (emit fs c) = ppp c"
  by (induction fs arbitrary: c) (simp_all add: emit_def)

text \<open>lwIP may send whenever the callback leads to a serial port that exists.\<close>

definition can_send :: "client_io \<Rightarrow> bool" where
  "can_send c = (\<forall>l. link c = Some l \<longrightarrow> io_output (io l) \<longrightarrow> serial c \<noteq> None)"

lemma output_cb_safe:
  "link c \<noteq> None \<Longrightarrow> can_send c \<Longrightarrow> fault (snd (ppp_output_cb bs c)) = fault c"
  by (auto simp: ppp_output_cb_def can_send_def serial_output_def case_prod_beta Let_def split: option.splits)

lemma emit_safe: "link c \<noteq> None \<Longrightarrow> can_send c \<Longrightarrow> fault (emit fs c) = fault c"
proof (induction fs arbitrary: c)
  case (Cons f fs)
  have "can_send (snd (ppp_output_cb f c))" "link (snd (ppp_output_cb f c)) \<noteq> None"
    using Cons.prems by (simp_all add: can_send_def)
  from Cons.IH [OF this(2,1)] output_cb_safe [OF Cons.prems] show ?case by (simp add: emit_def)
qed (simp add: emit_def)

section \<open>Properties\<close>

text \<open>
  C36: forwarding a packet to the TUN device copies the header and every segment of the packet into the
  1518-byte buffer and writes exactly them, in order, as long as the packet has at most 1514 bytes; a longer
  packet leaves the buffer.
\<close>

theorem tun_output_bounds:
  assumes "s_io c" "link c = Some l" "0 \<le> tun_fd (io l)" "length (in_buf (io l)) = BUF_SIZE" "\<not> fault c"
    and "wrote = int" "\<not> netdev_fwd_enabled (nd c)" "ip4_input lwip wrote p c = (e, c')"
  shows "(fault c' \<longleftrightarrow> 1514 < length (concat p)) \<and>
    (length (concat p) \<le> 1514 \<longrightarrow> e = ERR_OK \<and> tun_tx c' = tun_tx c @ [[0, 0, 8, 0] @ concat p])"
  using tun_output_spec [OF assms(1-4), of wrote ip4_header p] assms(5-)
  by (auto simp: ip4_input_def ip4_header_def BUF_SIZE_def split: if_splits)

definition lab_link :: ppp_link where
  "lab_link = \<lparr>io = \<lparr>tun_fd = 5, in_buf = replicate BUF_SIZE 0, out_buf = replicate BUF_SIZE 0, ppp_cfg = None,
     io_output = False\<rparr>, running = True, thread_started = True\<rparr>"

definition lab_io :: client_io where
  "lab_io = \<lparr>link = Some lab_link, serial = None, s_io = True, ppp = None, s_link_up = False, s_use_tcpip = False,
     nd = netdev_init, io_fds = [], serial_tx = [], write_answers = [], tun_tx = [], ppp_rx = [], netif_tx = [], fault = False\<rparr>"

lemma lab_io_simps [simp]:
  "s_io lab_io" "link lab_io = Some lab_link" "tun_fd (io lab_link) = 5" "length (in_buf (io lab_link)) = BUF_SIZE"
  "\<not> fault lab_io" "\<not> netdev_fwd_enabled (nd lab_io)" "tun_tx lab_io = []" "netif_tx lab_io = []" "running lab_link"
  by (simp_all add: lab_io_def lab_link_def netdev_fwd_enabled_def netdev_init_def)

theorem tun_output_bounds_witness:
  "tun_tx (snd (ip4_input (\<lambda>p c. (ERR_OK, c)) int [[1, 2], [3]] lab_io)) = [[0, 0, 8, 0, 1, 2, 3]] \<and>
   fault (snd (ip4_input (\<lambda>p c. (ERR_OK, c)) int [replicate 1515 0] lab_io))"
  using tun_output_bounds [of lab_io lab_link int "\<lambda>p c. (ERR_OK, c)" "[[1, 2], [3]]", OF _ _ _ _ _ _ _ prod.collapse [symmetric]]
    tun_output_bounds [of lab_io lab_link int "\<lambda>p c. (ERR_OK, c)" "[replicate 1515 0]", OF _ _ _ _ _ _ _ prod.collapse [symmetric]]
  by simp

text \<open>
  A packet that comes over PPP and is written to the TUN device, and whose frame is then read back from the device,
  leaves over PPP unchanged and as the same kind of packet, IPv4 or IPv6.
\<close>

lemma tun_round_trip:
  assumes "s_io c" "link c = Some l" "0 \<le> tun_fd (io l)" "length (in_buf (io l)) = BUF_SIZE" "\<not> netdev_fwd_enabled (nd c)"
    and "concat p \<noteq> []" "length (concat p) \<le> 1514"
    and "(if v6 then ip6_input int p c else ip4_input lwip int p c) = (e, c')"
  shows "netif_tx (snd (ppp_link_tun_poll (Tun_frame (last (tun_tx c'))) True c')) = netif_tx c' @ [(v6, concat p)]"
proof -
  define h where "h = (if v6 then ip6_header else ip4_header)"
  have h: "length h = 4" by (simp add: h_def ip4_header_def ip6_header_def)
  have c': "tun_output int p h c = (e, c')" using assms(5,8) by (auto simp: h_def ip4_input_def ip6_input_def split: if_splits)
  then have "tun_tx c' = tun_tx c @ [h @ concat p]"
    using tun_output_spec [OF assms(1-4), of int h p] assms(7) h by (simp add: BUF_SIZE_def)
  moreover have "\<exists>l'. link c' = Some l' \<and> 0 \<le> tun_fd (io l')"
    using c' assms(1-3) by (auto simp: tun_output_def Let_def split: option.splits prod.splits if_splits)
  ultimately show ?thesis using tun_poll_dispatch [OF _ _ assms(6,7) h, of c'] by (auto simp: h_def ip4_header_def ip6_header_def)
qed

text \<open>
  The state the client polls for is the last word of PPP: after any sequence of status reports the link counts as
  up exactly when the last one was a success.
\<close>

lemma link_up_is_last_status:
  "ppp_link_is_up (fold (ppp_link_status_cb W has_addr) reports c) \<longleftrightarrow>
     (if reports = [] then ppp_link_is_up c else last reports = PPPERR_NONE)"
proof (induction reports arbitrary: c)
  case (Cons r rs)
  have "ppp_link_is_up (ppp_link_status_cb W has_addr r c) \<longleftrightarrow> r = PPPERR_NONE"
    by (auto simp: ppp_link_is_up_def ppp_link_status_cb_def Let_def split: ppp_err.splits)
  with Cons.IH [of "ppp_link_status_cb W has_addr r c"] show ?case by simp
qed simp

text \<open>
  a server link that starts has every address of its configuration parsed and installed: it waits for its peer,
  offers the configured addresses and name server, retries after one second, and uses header compression
  exactly when TCP forwarding is off.
\<close>

lemma server_configured:
  assumes "ppp_link_lwip_init L c = (True, c')" "link c = Some l" "ppp_cfg (io l) = Some cfg"
    and "mode cfg = PPP_LINK_MODE_SERVER"
  shows "\<exists>pcb. ppp c' = Some pcb \<and> aton L (local_ip cfg) = Some (ouraddr pcb) \<and> aton L (peer_ip cfg) = Some (hisaddr pcb) \<and>
    aton L (dns_ip cfg) = dnsaddr pcb \<and> pcb_passive pcb \<and> fsm_timeout pcb = 1 \<and> \<not> usepeerdns pcb \<and>
    want_vj pcb = (\<not> netdev_fwd_enabled (nd c)) \<and> want_ifaceid pcb = ipv6 cfg"
proof -
  have "ppp_setup L (Some cfg) (c\<lparr>s_io := True, s_use_tcpip := (netdev_fwd_enabled (nd c) \<or> netdev cfg)\<rparr>) = (True, c')"
    using assms by (auto simp: ppp_link_lwip_init_def ppp_setup_tcpip_def Let_def split: if_splits)
  then show ?thesis
    using assms(4) by (auto simp: ppp_setup_def configure_ppp_server_def Let_def split: option.splits)
qed

definition lab_cfg :: ppp_config where
  "lab_cfg = \<lparr>mode = PPP_LINK_MODE_SERVER, local_ip = ''192.168.11.1'', peer_ip = ''192.168.11.2'', dns_ip = ''8.8.8.8'',
     ipv6 = False, netdev = False\<rparr>"

definition lab_pcb :: ppp_pcb where
  "lab_pcb = \<lparr>pcb_passive = False, fsm_timeout = 6, ouraddr = 0, hisaddr = 0, accept_remote = False, accept_local = False,
     ask_for_local = False, dnsaddr = None, usepeerdns = False, want_vj = False, allow_vj = False, want_ifaceid = True,
     allow_ifaceid = True, want_v6_local = False, allow_v6_local = False, want_use_ip = False\<rparr>"

definition lab_lenv :: link_env where
  "lab_lenv = \<lparr>calloc_ok = True, tun_open = 5, tunsetiff_ok = True, thread_ok = True, aton = (\<lambda>s. Some (of_nat (length s))),
     new_pcb = Some lab_pcb, session_ok = True, session_frames = [[126]], close_frames = [[126, 5]], sem_ok = True,
     callback_ok = True, serial_open_fd = 4, tcgetattr_ok = True, tcsetattr_ok = True, serial_thread_ok = True\<rparr>"

end
