(* ===== verification/Client_Link.thy ===== *)
theory Client_Link
  imports Client_Main Ppp_Link "HOL-Library.Multiset"
begin

text \<open>
  The client program on top of its link: \<open>main\<close> (Client_Main) decides which operations on the serial port and the
  link happen in which order, Ppp_Link says what they do.  Here the trace of \<open>main\<close> is executed on the model of the
  link, interleaved with arbitrary work of the reader thread, the TUN thread and lwIP.
\<close>

section \<open>Executing a trace\<close>

text \<open>Work of the threads; packets reach the glue only through an attached serial port.\<close>

datatype traffic =
    Tr_serial "serial_event list"
  | Tr_tun "(tun_event \<times> bool) list"
  | Tr_status listen_env bool ppp_err
  | Tr_packet bool "nat \<Rightarrow> int" "bytes list"

datatype client_label = Op main_op | Work traffic

fun link_op :: "link_env \<Rightarrow> ppp_config \<Rightarrow> bool \<Rightarrow> main_op \<Rightarrow> client_io \<Rightarrow> client_io" where
  "link_op L cfg v Serial_open c = snd (serial_io_open L v c)"
| "link_op L cfg v Serial_close c = serial_io_close c"
| "link_op L cfg v Link_create c = snd (ppp_link_create L (Some cfg) True c)"
| "link_op L cfg v Serial_attach c = serial_io_attach c"
| "link_op L cfg v Link_start c = snd (ppp_link_start L c)"
| "link_op L cfg v Link_stop c = ppp_link_stop L c"
| "link_op L cfg v Link_destroy c = ppp_link_destroy c"
| "link_op L cfg v (Sock_open fd) c = c"
| "link_op L cfg v (Sock_shutdown fd) c = c"
| "link_op L cfg v (Sock_close fd) c = c"

definition port_attached :: "client_io \<Rightarrow> bool" where
  "port_attached c = (case serial c of None \<Rightarrow> False | Some s \<Rightarrow> attached_link s)"

fun work :: "traffic \<Rightarrow> client_io \<Rightarrow> client_io" where
  "work (Tr_serial es) c = (if serial c = None then c else serial_read_task es c)"
| "work (Tr_tun es) c = (if link c = None then c else tun_thread es c)"
| "work (Tr_status W a e) c = ppp_link_status_cb W a e c"
| "work (Tr_packet v6 wrote p) c =
     (if \<not> port_attached c then c
      else if v6 then snd (ip6_input wrote p c) else snd (ip4_input (\<lambda>p c. (ERR_OK, c)) wrote p c))"

fun client_step :: "link_env \<Rightarrow> ppp_config \<Rightarrow> bool \<Rightarrow> client_label \<Rightarrow> client_io \<Rightarrow> client_io" where
  "client_step L cfg v (Op x) c = link_op L cfg v x c"
| "client_step L cfg v (Work t) c = work t c"

fun ops_of :: "client_label list \<Rightarrow> main_op list" where
  "ops_of [] = []"
| "ops_of (Op x # ls) = x # ops_of ls"
| "ops_of (Work t # ls) = ops_of ls"

text \<open>Packets PPP delivers fit the frame buffer.\<close>

fun fits :: "client_label \<Rightarrow> bool" where
  "fits (Work (Tr_packet v6 wrote p)) = (length (concat p) \<le> 1514)"
| "fits _ = True"

section \<open>The objects agree with what main holds\<close>

definition fds_of :: "client_io \<Rightarrow> int multiset" where
  "fds_of c =
     (case serial c of None \<Rightarrow> {#} | Some s \<Rightarrow> {#serial_fd s#}) +
     (case link c of None \<Rightarrow> {#} | Some l \<Rightarrow> if 0 \<le> tun_fd (io l) then {#tun_fd (io l)#} else {#})"

definition io_inv :: "held \<Rightarrow> client_io \<Rightarrow> bool" where
  "io_inv h c \<longleftrightarrow>
     \<not> fault c \<and> \<not> netdev_fwd_enabled (nd c) \<and> mset (io_fds c) = fds_of c \<and>
     (serial c \<noteq> None \<longleftrightarrow> fst h) \<and> (link c \<noteq> None \<longleftrightarrow> fst (snd h)) \<and> (port_attached c \<longrightarrow> fst (snd h)) \<and>
     (\<forall>l. link c = Some l \<longrightarrow> (io_output (io l) \<longrightarrow> port_attached c) \<and> length (in_buf (io l)) = BUF_SIZE \<and>
        ppp_cfg (io l) \<noteq> None)"

lemma io_invE:
  assumes "io_inv (a, b, s) c"
  shows "\<not> fault c" "\<not> netdev_fwd_enabled (nd c)" "mset (io_fds c) = fds_of c" "serial c \<noteq> None \<longleftrightarrow> a" "link c \<noteq> None \<longleftrightarrow> b"
    "port_attached c \<Longrightarrow> b" "link c = Some l \<Longrightarrow> io_output (io l) \<Longrightarrow> port_attached c"
    "link c = Some l \<Longrightarrow> length (in_buf (io l)) = BUF_SIZE" "link c = Some l \<Longrightarrow> ppp_cfg (io l) \<noteq> None"
  using assms by (auto simp: io_inv_def)

lemma io_inv_can_send: "io_inv h c \<Longrightarrow> can_send c"
  by (auto simp: io_inv_def can_send_def port_attached_def split: option.splits)

lemma io_inv_emit:
  assumes "io_inv h c" "link c \<noteq> None"
  shows "io_inv h (emit fs c)"
proof -
  have "nd (emit fs c) = nd c" for c
    by (induction fs arbitrary: c)
      (auto simp: emit_def ppp_output_cb_def serial_output_def case_prod_beta Let_def split: option.splits)
  then show ?thesis
    using assms emit_safe [OF assms(2) io_inv_can_send [OF assms(1)], of fs]
    by (simp add: io_inv_def fds_of_def port_attached_def)
qed

lemma serial_open_inv:
  assumes "io_inv (False, b, s) c" "fst (serial_io_open L v c)"
  shows "io_inv (True, b, s) (snd (serial_io_open L v c))"
  using assms by (auto simp: serial_io_open_def io_inv_def port_attached_def fds_of_def Let_def split: if_splits option.splits)

lemma serial_close_inv:
  assumes "io_inv (True, b, s) c"
  shows "io_inv (False, b, s) (serial_io_close c)"
proof -
  obtain p where p: "serial c = Some p" using io_invE(4) [OF assms] by auto
  let ?c = "if attached_link p then ppp_link_set_output False c else c"
  have fds: "mset (io_fds c) = {#serial_fd p#} + (fds_of c - {#serial_fd p#})"
    using io_invE(3) [OF assms] p by (simp add: fds_of_def)
  have "attached_link p \<Longrightarrow> link c \<noteq> None" using io_invE(5,6) [OF assms] p by (simp add: port_attached_def)
  then have "link ?c = map_option (\<lambda>l. if attached_link p then l\<lparr>io := (io l)\<lparr>io_output := False\<rparr>\<rparr> else l) (link c)"
      "fault ?c = fault c" "io_fds ?c = io_fds c" "nd ?c = nd c" "serial ?c = Some p"
    using p by (auto simp: ppp_link_set_output_def map_option.id split: option.splits)
  then show ?thesis
    using assms p fds by (auto simp: serial_io_close_def io_inv_def port_attached_def fds_of_def Let_def split: option.splits)
qed

lemma link_create_inv:
  assumes "io_inv (a, False, s) c" "fst (ppp_link_create L (Some cfg) True c)"
  shows "io_inv (a, True, s) (snd (ppp_link_create L (Some cfg) True c))"
  using assms by (auto simp: ppp_link_create_def io_inv_def port_attached_def fds_of_def Let_def BUF_SIZE_def
      split: if_splits option.splits)

lemma attach_inv: "io_inv (True, True, s) c \<Longrightarrow> io_inv (True, True, s) (serial_io_attach c)"
  by (auto simp: serial_io_attach_def ppp_link_set_output_def io_inv_def port_attached_def fds_of_def split: option.splits)

lemma io_inv_update:
  "io_inv h (c\<lparr>s_io := x\<rparr>) = io_inv h c" "io_inv h (c\<lparr>s_use_tcpip := x\<rparr>) = io_inv h c" "io_inv h (c\<lparr>ppp := y\<rparr>) = io_inv h c"
  "io_inv h (c\<lparr>s_link_up := x\<rparr>) = io_inv h c" "io_inv h (c\<lparr>ppp_rx := z\<rparr>) = io_inv h c" "io_inv h (c\<lparr>netif_tx := w\<rparr>) = io_inv h c"
  "io_inv h (c\<lparr>tun_tx := z\<rparr>) = io_inv h c"
  by (simp_all add: io_inv_def port_attached_def fds_of_def)

text \<open>Changes of the link object that keep its descriptor, buffer, configuration and callback.\<close>

lemma io_inv_link:
  assumes "io_inv h c" "link c = Some l" "tun_fd (io l') = tun_fd (io l)" "io_output (io l') = io_output (io l)"
    "length (in_buf (io l')) = length (in_buf (io l))" "ppp_cfg (io l') = ppp_cfg (io l)"
  shows "io_inv h (c\<lparr>link := Some l'\<rparr>)"
  using assms by (simp add: io_inv_def port_attached_def fds_of_def)

lemma setup_inv:
  assumes "io_inv h c" "link c = Some l"
  shows "io_inv h (snd (ppp_setup L (ppp_cfg (io l)) c)) \<and> link (snd (ppp_setup L (ppp_cfg (io l)) c)) = Some l"
proof -
  have "ppp_cfg (io l) \<noteq> None" using assms by (auto simp: io_inv_def)
  moreover have "io_inv h (emit fs (c\<lparr>ppp := p\<rparr>))" for fs p
    using assms by (intro io_inv_emit) (simp_all add: io_inv_update)
  ultimately show ?thesis
    using assms by (auto simp: ppp_setup_def Let_def io_inv_update split: option.splits)
qed

lemma start_inv:
  assumes "io_inv (a, True, s) c"
  shows "io_inv (a, True, s) (snd (ppp_link_start L c))"
proof -
  obtain l where l: "link c = Some l" using io_invE(5) [OF assms] by auto
  let ?c = "snd (ppp_link_lwip_init L c)"
  have "io_inv (a, True, s) ?c \<and> link ?c = Some l"
    using l assms setup_inv [of "(a, True, s)" "c\<lparr>s_io := True, s_use_tcpip := x\<rparr>" l L for x]
    by (auto simp: ppp_link_lwip_init_def ppp_setup_tcpip_def io_inv_update Let_def)
  then show ?thesis
    using l by (auto simp: ppp_link_start_def case_prod_beta Let_def intro!: io_inv_link [where l = l] split: option.splits)
qed

lemma stop_inv:
  assumes "io_inv (a, True, s) c"
  shows "io_inv (a, True, s) (ppp_link_stop L c)"
proof -
  obtain l where l: "link c = Some l" using io_invE(5) [OF assms] by auto
  have "io_inv (a, True, s) (c\<lparr>link := Some (stop_tun_thread l)\<rparr>)"
    by (rule io_inv_link [OF assms l]) (simp_all add: stop_tun_thread_def)
  then show ?thesis
    using l by (auto simp: ppp_link_stop_def ppp_link_lwip_stop_def intro: io_inv_emit)
qed

lemma destroy_inv:
  assumes "io_inv (False, True, s) c"
  shows "io_inv (False, False, s) (ppp_link_destroy c)"
proof -
  obtain l where l: "link c = Some l" using io_invE(5) [OF assms] by auto
  have "serial c = None" using io_invE(4) [OF assms] by auto
  with l assms show ?thesis
    by (auto simp: ppp_link_destroy_def stop_tun_thread_def io_inv_def fds_of_def port_attached_def Let_def)
qed

lemma io_inv_socks: "io_inv (a, b, s) c \<Longrightarrow> io_inv (a, b, s') c"
  by (simp add: io_inv_def)

lemma link_op_inv:
  assumes "io_inv h c" "track_op x h = Some h'"
    and "x = Serial_open \<Longrightarrow> fst (serial_io_open L v c)" "x = Link_create \<Longrightarrow> fst (ppp_link_create L (Some cfg) True c)"
  shows "io_inv h' (link_op L cfg v x c)"
proof -
  obtain a b s where h: "h = (a, b, s)" by (cases h)
  show ?thesis
    using assms unfolding h
    by (cases x) (auto simp: serial_open_inv serial_close_inv link_create_inv attach_inv start_inv stop_inv destroy_inv
        split: if_splits intro: io_inv_socks)
qed

section \<open>The threads\<close>

lemma serial_task_inv: "io_inv h c \<Longrightarrow> serial c \<noteq> None \<Longrightarrow> io_inv h (serial_read_task es c)"
proof (induction es c rule: serial_read_task.induct)
  case (4 bs es c)
  obtain s where s: "serial c = Some s" using 4 by auto
  let ?c = "if attached_link s \<and> bs \<noteq> [] then ppp_link_input (take 1024 bs) c else c"
  have "io_inv h ?c" "serial ?c = serial c"
    using 4 by (auto simp: ppp_link_input_def ppp_link_serial_input_def io_inv_update)
  with 4 s show ?case by simp
qed simp_all

lemma tun_poll_inv: "io_inv h c \<Longrightarrow> link c \<noteq> None \<Longrightarrow>
   io_inv h (snd (ppp_link_tun_poll e ok c)) \<and> link (snd (ppp_link_tun_poll e ok c)) \<noteq> None"
  by (auto simp: ppp_link_tun_poll_def Let_def io_inv_update intro!: io_inv_link split: option.splits tun_event.splits)

lemma tun_thread_inv: "io_inv h c \<Longrightarrow> link c \<noteq> None \<Longrightarrow> io_inv h (tun_thread es c)"
proof (induction es c rule: tun_thread.induct)
  case (2 e ok es c)
  then obtain l where l: "link c = Some l" by auto
  with 2 tun_poll_inv [of h c e ok] show ?case by auto
qed simp

lemma tun_output_inv:
  assumes "io_inv h c" "port_attached c" "length hdr + length (concat p) \<le> BUF_SIZE"
  shows "io_inv h (snd (tun_output wrote p hdr c))"
proof -
  obtain l where l: "link c = Some l" using assms by (auto simp: io_inv_def)
  then have len: "length (in_buf (io l)) = BUF_SIZE" using assms by (auto simp: io_inv_def)
  have "io_inv h (c\<lparr>link := Some (l\<lparr>io := (io l)\<lparr>in_buf := buf\<rparr>\<rparr>)\<rparr>)" if "length buf = BUF_SIZE" for buf
    using that len by (intro io_inv_link [OF assms(1) l]) simp_all
  then show ?thesis
    using copy_segments_spec [of 0 "in_buf (io l)" "hdr # p"] assms l len
    by (auto simp: tun_output_def Let_def io_inv_update split: option.splits)
qed

lemma work_inv:
  assumes "io_inv h c" "fits (Work t)"
  shows "io_inv h (work t c)"
proof (cases t)
  case (Tr_packet v6 wrote p)
  then show ?thesis
    using assms tun_output_inv [OF assms(1), of ip6_header p wrote] tun_output_inv [OF assms(1), of ip4_header p wrote]
    by (auto simp: ip6_input_def ip4_input_def ip6_header_def ip4_header_def BUF_SIZE_def io_inv_def)
next
  case (Tr_status W a e)
  then show ?thesis
    using assms by (auto simp: ppp_link_status_cb_def Let_def io_inv_def fds_of_def port_attached_def split: ppp_err.splits)
qed (use assms serial_task_inv tun_thread_inv in auto)

section \<open>Whole executions\<close>

text \<open>What the operating system grants does not change while the program runs.\<close>

definition grants :: "link_env \<Rightarrow> ppp_config \<Rightarrow> main_op list \<Rightarrow> bool" where
  "grants L cfg ops =
     (\<forall>v c. (Serial_open \<in> set ops \<longrightarrow> fst (serial_io_open L v c)) \<and>
            (Link_create \<in> set ops \<longrightarrow> fst (ppp_link_create L (Some cfg) True c)))"

lemma client_run_inv:
  "io_inv h c \<Longrightarrow> track (ops_of ls) h = Some h' \<Longrightarrow> grants L cfg (ops_of ls) \<Longrightarrow> list_all fits ls \<Longrightarrow>
   io_inv h' (fold (client_step L cfg v) ls c)"
proof (induction ls arbitrary: h c)
  case (Cons x ls)
  show ?case
  proof (cases x)
    case (Op y)
    from Cons.prems(2) Op obtain h1 where h1: "track_op y h = Some h1" "track (ops_of ls) h1 = Some h'"
      by (auto split: option.splits)
    have g: "grants L cfg (ops_of ls)" using Cons.prems(3) Op by (auto simp: grants_def)
    have "io_inv h1 (link_op L cfg v y c)"
      using Cons.prems(1,3) h1(1) Op by (intro link_op_inv) (auto simp: grants_def)
    from Cons.IH [OF this h1(2) g] Cons.prems(4) Op show ?thesis by simp
  next
    case (Work t)
    with Cons.prems(1,4) have "io_inv h (work t c)" by (intro work_inv) simp_all
    from Cons.IH [OF this] Cons.prems Work show ?thesis by simp
  qed
qed simp

definition idle_io :: client_io where
  "idle_io = \<lparr>link = None, serial = None, s_io = False, ppp = None, s_link_up = False, s_use_tcpip = False, nd = netdev_init,
     io_fds = [], serial_tx = [], write_answers = [], tun_tx = [], ppp_rx = [], netif_tx = [], fault = False\<rparr>"

lemma idle_io_inv: "io_inv (False, False, []) idle_io"
  by (simp add: io_inv_def idle_io_def port_attached_def fds_of_def netdev_fwd_enabled_def netdev_init_def)

section \<open>Properties\<close>


definition lab_run :: "client_label list" where
  "lab_run = [Op Serial_open, Work (Tr_serial [Ser_data [1]]), Op Link_create, Op Serial_attach, Op Link_start,
     Work (Tr_status \<lparr>tcp_new_ok = True, tcp_bind_ok = True, tcp_listen_ok = True, listen_callback_ok = True\<rparr> True PPPERR_NONE),
     Work (Tr_serial [Ser_eintr, Ser_data [126, 255]]), Work (Tr_tun [(Tun_frame [0, 0, 8, 0, 69], True)]),
     Work (Tr_packet False int [[69], [0]]), Op Link_stop, Op Serial_close, Op Link_destroy]"


end
