(* ===== verification/Ppp_Uart.thy ===== *)
theory Ppp_Uart
  imports Step_Machine Stack_Props
begin

text \<open>
  The PPP client of the firmware, \<^verbatim>\<open>zb_rpc_server/main/ppp_uart.c\<close>, and \<^verbatim>\<open>app_main.c\<close>.

  The event group, the task notification and the network interface are one record.  The event
  handlers are functions on it; the reconnect task is a program counter moved by \<open>reconnect_step\<close>,
  so that events of the PPP stack may arrive between any two of its calls.  The numeric event
  codes belong to ESP-IDF: they are the record \<open>ppp_codes\<close>.
\<close>

section \<open>State\<close>

text \<open>The calls made on the network interface, in order.\<close>

datatype netif_op = Nif_start | Nif_connected | Nif_disconnected | Nif_stop

datatype event_handler = Got_ip_handler | Lost_ip_handler | Status_handler

record ppp_uart =
  s_link_events :: bool
  link_up :: bool
  phase_dead :: bool
  s_netif :: "nat option"
  s_reconnect_task :: bool
  rx_task :: bool
  notified :: nat
  fsm_timeout_time :: "nat option"
  status_events :: bool
  handlers :: "event_handler list"
  netif_ops :: "netif_op list"

record ppp_codes =
  code_none :: int
  code_dead :: int
  phase_offset :: int
  internal_offset :: int

section \<open>Event handlers\<close>

definition ppp_uart_is_connected :: "ppp_uart \<Rightarrow> bool" where
  "ppp_uart_is_connected s = (s_link_events s \<and> link_up s)"

text \<open>The event data: \<open>None\<close> is a null pointer, \<open>Some n\<close> an event of interface \<open>n\<close>.\<close>

definition event_is_for_our_netif :: "nat option option \<Rightarrow> ppp_uart \<Rightarrow> bool" where
  "event_is_for_our_netif event s = (case event of None \<Rightarrow> False | Some n \<Rightarrow> n = s_netif s)"

definition request_reconnect :: "ppp_uart \<Rightarrow> ppp_uart" where
  "request_reconnect s =
     (let s1 = s\<lparr>link_up := False\<rparr>
      in if s_reconnect_task s1 then s1\<lparr>notified := notified s1 + 1\<rparr> else s1)"

datatype ip_event_id = IP_EVENT_PPP_GOT_IP | IP_EVENT_PPP_LOST_IP | IP_EVENT_other

definition on_ip_event :: "ip_event_id \<Rightarrow> nat option option \<Rightarrow> ppp_uart \<Rightarrow> ppp_uart" where
  "on_ip_event event_id event s =
     (if \<not> event_is_for_our_netif event s then s
      else case event_id of
             IP_EVENT_PPP_GOT_IP \<Rightarrow> s\<lparr>phase_dead := False, link_up := True\<rparr>
           | IP_EVENT_PPP_LOST_IP \<Rightarrow> request_reconnect s
           | IP_EVENT_other \<Rightarrow> s)"

definition on_ppp_status :: "ppp_codes \<Rightarrow> int \<Rightarrow> ppp_uart \<Rightarrow> ppp_uart" where
  "on_ppp_status K event_id s =
     (if event_id = code_dead K then s\<lparr>phase_dead := True\<rparr>
      else if event_id = code_none K \<or> phase_offset K \<le> event_id \<and> event_id < internal_offset K then s
      else request_reconnect s)"

section \<open>The reconnect task\<close>

text \<open>Where the task stands: each location is the call it makes next.\<close>

datatype reconnect_pc = Rc_take | Rc_delay | Rc_wait | Rc_stop | Rc_clear | Rc_start | Rc_connect

record ppp_sys =
  dev :: ppp_uart
  pc :: reconnect_pc

definition netif_call :: "netif_op \<Rightarrow> ppp_uart \<Rightarrow> ppp_uart" where
  "netif_call x s = s\<lparr>netif_ops := netif_ops s @ [x]\<rparr>"

text \<open>
  One move of the task; \<open>expired\<close> says whether the wait for the dead phase has timed out.  A task
  that is blocked stays where it is.
\<close>

fun reconnect_step :: "bool \<Rightarrow> ppp_sys \<Rightarrow> ppp_sys" where
  "reconnect_step expired s =
     (case pc s of
        Rc_take \<Rightarrow>
          if notified (dev s) = 0 then s
          else s\<lparr>dev := (dev s)\<lparr>notified := 0\<rparr>, pc := Rc_delay\<rparr>
      | Rc_delay \<Rightarrow>
          if ppp_uart_is_connected (dev s) then s\<lparr>pc := Rc_take\<rparr>
          else s\<lparr>dev := netif_call Nif_disconnected (dev s), pc := Rc_wait\<rparr>
      | Rc_wait \<Rightarrow>
          if phase_dead (dev s) then s\<lparr>pc := Rc_stop\<rparr>
          else if expired then s\<lparr>dev := (dev s)\<lparr>notified := notified (dev s) + 1\<rparr>, pc := Rc_take\<rparr>
          else s
      | Rc_stop \<Rightarrow> s\<lparr>dev := netif_call Nif_stop (dev s), pc := Rc_clear\<rparr>
      | Rc_clear \<Rightarrow> s\<lparr>dev := (dev s)\<lparr>phase_dead := False\<rparr>, pc := Rc_start\<rparr>
      | Rc_start \<Rightarrow> s\<lparr>dev := netif_call Nif_start (dev s), pc := Rc_connect\<rparr>
      | Rc_connect \<Rightarrow> s\<lparr>dev := netif_call Nif_connected (dev s), pc := Rc_take\<rparr>)"

declare reconnect_step.simps [simp del]

text \<open>Who moves next: the event loop, or the task.\<close>

datatype ppp_label =
    Ip_event ip_event_id "nat option option"
  | Ppp_status int
  | Reconnect bool

fun ppp_step :: "ppp_codes \<Rightarrow> ppp_label \<Rightarrow> ppp_sys \<Rightarrow> ppp_sys" where
  "ppp_step K (Ip_event i e) s = s\<lparr>dev := on_ip_event i e (dev s)\<rparr>"
| "ppp_step K (Ppp_status c) s = s\<lparr>dev := on_ppp_status K c (dev s)\<rparr>"
| "ppp_step K (Reconnect expired) s = reconnect_step expired s"

section \<open>UART traffic\<close>

text \<open>
  The answers of \<open>uart_write_bytes\<close> are a list, with everything written once it is used up; the
  third component collects what went out.
\<close>

fun uart_transmit :: "int list \<Rightarrow> bytes \<Rightarrow> bytes \<Rightarrow> esp_err \<times> bytes \<times> int list" where
  "uart_transmit ws [] out = (ESP_OK, out, ws)"
| "uart_transmit [] bs out = (ESP_OK, out @ bs, [])"
| "uart_transmit (w # ws) bs out =
     (if w < 0 then (ESP_FAIL, out, ws)
      else uart_transmit ws (drop (nat w) bs) (out @ take (nat w) bs))"

datatype uart_event = UART_DATA | UART_FIFO_OVF | UART_BUFFER_FULL | UART_BREAK | UART_PARITY_ERR | UART_FRAME_ERR | UART_other

definition PPP_RX_CHUNK_SIZE :: nat where
  "PPP_RX_CHUNK_SIZE = 1024"

text \<open>
  The bytes in the driver's ring, the chunks handed to the network interface so far, the pending
  driver events, and the answers of the driver's next reads (all that was wanted once the list is
  used up).
\<close>

record uart_rx =
  ring :: bytes
  delivered :: "bytes list"
  s_uart_events :: "uart_event list"
  reads :: "int list"

definition uart_read_bytes :: "nat \<Rightarrow> uart_rx \<Rightarrow> bytes \<times> uart_rx" where
  "uart_read_bytes wanted r =
     (let n = (case reads r of [] \<Rightarrow> wanted | k # ks \<Rightarrow> min (nat k) wanted)
      in (take n (ring r), r\<lparr>ring := drop n (ring r), reads := tl (reads r)\<rparr>))"

lemma uart_read_bytes_length: "uart_read_bytes wanted r = (b, r') \<Longrightarrow> length b \<le> wanted"
  by (auto simp: uart_read_bytes_def Let_def split: list.splits)

function receive_loop :: "nat \<Rightarrow> uart_rx \<Rightarrow> uart_rx" where
  "receive_loop remaining r =
     (if remaining = 0 then r
      else case uart_read_bytes (min remaining PPP_RX_CHUNK_SIZE) r of
             (b, r') \<Rightarrow> if b = [] then r'
                        else receive_loop (remaining - length b) (r'\<lparr>delivered := delivered r' @ [b]\<rparr>))"
  by pat_completeness auto
termination
  by (relation "measure fst") (auto dest!: uart_read_bytes_length [OF sym])

declare receive_loop.simps [simp del]

text \<open>\<open>buffered\<close>: what \<open>uart_get_buffered_data_len\<close> reports, \<open>None\<close> for an error.\<close>

definition uart_receive_event :: "nat option \<Rightarrow> uart_event \<Rightarrow> uart_rx \<Rightarrow> uart_rx" where
  "uart_receive_event buffered event r =
     (case event of
        UART_DATA \<Rightarrow> (case buffered of None \<Rightarrow> r | Some remaining \<Rightarrow> receive_loop remaining r)
      | UART_FIFO_OVF \<Rightarrow> r\<lparr>ring := [], s_uart_events := []\<rparr>
      | UART_BUFFER_FULL \<Rightarrow> r\<lparr>ring := [], s_uart_events := []\<rparr>
      | _ \<Rightarrow> r)"

text \<open>One turn of \<open>uart_receive_task\<close>: it blocks while no driver event is queued.\<close>

definition uart_receive_task :: "nat option \<Rightarrow> uart_rx \<Rightarrow> uart_rx" where
  "uart_receive_task buffered r =
     (case s_uart_events r of
        [] \<Rightarrow> r
      | event # events \<Rightarrow> uart_receive_event buffered event (r\<lparr>s_uart_events := events\<rparr>))"

section \<open>Start\<close>

record start_env =
  group_ok :: bool
  driver_install :: esp_err
  param_config :: esp_err
  set_pin :: esp_err
  set_rx_timeout :: esp_err
  netif_new :: "nat option"
  netif_pcb :: bool
  get_params :: esp_err
  set_params :: esp_err
  register :: "event_handler \<Rightarrow> esp_err"
  rx_task_ok :: bool
  reconnect_task_ok :: bool

definition configure_ppp_timers :: "start_env \<Rightarrow> ppp_uart \<Rightarrow> ppp_uart" where
  "configure_ppp_timers W s = (if netif_pcb W then s\<lparr>fsm_timeout_time := Some 1\<rparr> else s)"

text \<open>\<open>ESP_RETURN_ON_ERROR\<close>\<close>

definition return_on_error :: "esp_err \<Rightarrow> (ppp_uart \<Rightarrow> esp_err \<times> ppp_uart) \<Rightarrow> ppp_uart \<Rightarrow> esp_err \<times> ppp_uart" where
  "return_on_error r k s = (if r \<noteq> ESP_OK then (r, s) else k s)"

definition register_handler ::
    "start_env \<Rightarrow> event_handler \<Rightarrow> (ppp_uart \<Rightarrow> esp_err \<times> ppp_uart) \<Rightarrow> ppp_uart \<Rightarrow> esp_err \<times> ppp_uart" where
  "register_handler W h k s = return_on_error (register W h) (\<lambda>s. k (s\<lparr>handlers := handlers s @ [h]\<rparr>)) s"

definition start_tasks :: "start_env \<Rightarrow> ppp_uart \<Rightarrow> esp_err \<times> ppp_uart" where
  "start_tasks W s =
     (if \<not> rx_task_ok W then (ESP_ERR_NO_MEM, s)
      else let s1 = s\<lparr>rx_task := True\<rparr>
           in if \<not> reconnect_task_ok W then (ESP_ERR_NO_MEM, s1)
              else (ESP_OK, netif_call Nif_connected (netif_call Nif_start (s1\<lparr>s_reconnect_task := True\<rparr>))))"

definition ppp_uart_start :: "start_env \<Rightarrow> ppp_uart \<Rightarrow> esp_err \<times> ppp_uart" where
  "ppp_uart_start W s0 =
     (let s = s0\<lparr>s_link_events := group_ok W\<rparr>
      in if \<not> group_ok W then (ESP_ERR_NO_MEM, s)
         else (return_on_error (driver_install W) (return_on_error (param_config W)
           (return_on_error (set_pin W) (return_on_error (set_rx_timeout W) (\<lambda>s.
             let s1 = s\<lparr>s_netif := netif_new W\<rparr>
             in if netif_new W = None then (ESP_ERR_NO_MEM, s1)
                else (return_on_error (get_params W) (return_on_error (set_params W) (\<lambda>s.
                  register_handler W Got_ip_handler (register_handler W Lost_ip_handler
                    (register_handler W Status_handler (start_tasks W))) (s\<lparr>status_events := True\<rparr>))))
                  (configure_ppp_timers W s1)))))) s)"

definition ppp_uart_wait_connected :: "bool \<Rightarrow> ppp_uart \<Rightarrow> bool" where
  "ppp_uart_wait_connected up_in_time s = (s_link_events s \<and> (link_up s \<or> up_in_time))"

text \<open>
  \<open>app_main\<close>: a failed \<open>ESP_ERROR_CHECK\<close> aborts, which is \<open>Inl\<close> of the call that failed;
  \<open>rpc_server_start\<close> aborts when it cannot create its task.
\<close>

datatype boot_call = Boot_nvs | Boot_netif | Boot_event_loop | Boot_ppp | Boot_zigbee | Boot_rpc_server

record boot_env =
  nvs_flash_init :: esp_err
  esp_netif_init :: esp_err
  event_loop_create :: esp_err
  boot_ppp :: start_env
  boot_alloc :: "nat \<Rightarrow> bool"
  boot_zigbee_task :: bool
  rpc_server_task :: bool

definition rpc_server_start :: "boot_env \<Rightarrow> bool" where
  "rpc_server_start B = rpc_server_task B"

definition app_main :: "boot_env \<Rightarrow> ppp_uart \<Rightarrow> zb_stack \<Rightarrow> (boot_call + unit) \<times> ppp_uart \<times> zb_stack" where
  "app_main B s z =
     (if nvs_flash_init B \<noteq> ESP_OK then (Inl Boot_nvs, s, z)
      else if esp_netif_init B \<noteq> ESP_OK then (Inl Boot_netif, s, z)
      else if event_loop_create B \<noteq> ESP_OK then (Inl Boot_event_loop, s, z)
      else let (r, s1) = ppp_uart_start (boot_ppp B) s
           in if r \<noteq> ESP_OK then (Inl Boot_ppp, s1, z)
              else let (r', z1) = zigbee_stack_start (boot_alloc B) (boot_zigbee_task B) z
                   in if r' \<noteq> ESP_OK then (Inl Boot_zigbee, s1, z1)
                      else if \<not> rpc_server_start B then (Inl Boot_rpc_server, s1, z1)
                      else (Inr (), s1, z1))"

section \<open>The task and the event loop\<close>

lemma netif_call_simps [simp]:
  "netif_ops (netif_call x s) = netif_ops s @ [x]" "notified (netif_call x s) = notified s"
  "link_up (netif_call x s) = link_up s" "s_link_events (netif_call x s) = s_link_events s"
  "phase_dead (netif_call x s) = phase_dead s" "s_reconnect_task (netif_call x s) = s_reconnect_task s"
  "s_netif (netif_call x s) = s_netif s"
  by (simp_all add: netif_call_def)

lemma request_reconnect_simps [simp]:
  "netif_ops (request_reconnect s) = netif_ops s" "link_up (request_reconnect s) = False"
  "s_link_events (request_reconnect s) = s_link_events s" "s_netif (request_reconnect s) = s_netif s"
  "s_reconnect_task (request_reconnect s) = s_reconnect_task s"
  "notified (request_reconnect s) = (if s_reconnect_task s then notified s + 1 else notified s)"
  by (simp_all add: request_reconnect_def Let_def)

text \<open>The handlers never call the interface and never take a notification back.\<close>

lemma on_ip_event_frame [simp]:
  "netif_ops (on_ip_event i e s) = netif_ops s" "s_reconnect_task (on_ip_event i e s) = s_reconnect_task s"
  "s_link_events (on_ip_event i e s) = s_link_events s" "s_netif (on_ip_event i e s) = s_netif s"
  by (auto simp: on_ip_event_def split: ip_event_id.splits)

lemma on_ppp_status_frame [simp]:
  "netif_ops (on_ppp_status K c s) = netif_ops s" "s_reconnect_task (on_ppp_status K c s) = s_reconnect_task s"
  "s_link_events (on_ppp_status K c s) = s_link_events s" "s_netif (on_ppp_status K c s) = s_netif s"
  by (auto simp: on_ppp_status_def)

lemma handlers_notified:
  "0 < notified s \<Longrightarrow> 0 < notified (on_ip_event i e s)" "0 < notified s \<Longrightarrow> 0 < notified (on_ppp_status K c s)"
  by (auto simp: on_ip_event_def on_ppp_status_def split: ip_event_id.splits)

lemma step_frame:
  "s_reconnect_task (dev (ppp_step K l s)) = s_reconnect_task (dev s)"
  "s_link_events (dev (ppp_step K l s)) = s_link_events (dev s)"
  "s_netif (dev (ppp_step K l s)) = s_netif (dev s)"
  by (cases l; simp add: reconnect_step.simps split: reconnect_pc.splits)+

text \<open>The life of the PPP session as the interface sees it.\<close>

datatype session = Session_down | Session_started | Session_running | Session_closing

fun session_op :: "netif_op \<Rightarrow> session \<Rightarrow> session option" where
  "session_op Nif_start Session_down = Some Session_started"
| "session_op Nif_connected Session_started = Some Session_running"
| "session_op Nif_disconnected Session_running = Some Session_closing"
| "session_op Nif_disconnected Session_closing = Some Session_closing"
| "session_op Nif_stop Session_closing = Some Session_down"
| "session_op _ _ = None"

definition session_of :: "netif_op list \<Rightarrow> session option" where
  "session_of ops = fold (\<lambda>x m. Option.bind m (session_op x)) ops (Some Session_down)"

lemma session_of_snoc: "session_of (ops @ [x]) = Option.bind (session_of ops) (session_op x)"
  by (simp add: session_of_def)

definition session_inv :: "ppp_sys \<Rightarrow> bool" where
  "session_inv s = (case pc s of
       Rc_take \<Rightarrow> session_of (netif_ops (dev s)) \<in> {Some Session_running, Some Session_closing}
     | Rc_delay \<Rightarrow> session_of (netif_ops (dev s)) \<in> {Some Session_running, Some Session_closing}
     | Rc_wait \<Rightarrow> session_of (netif_ops (dev s)) = Some Session_closing
     | Rc_stop \<Rightarrow> session_of (netif_ops (dev s)) = Some Session_closing
     | Rc_clear \<Rightarrow> session_of (netif_ops (dev s)) = Some Session_down
     | Rc_start \<Rightarrow> session_of (netif_ops (dev s)) = Some Session_down
     | Rc_connect \<Rightarrow> session_of (netif_ops (dev s)) = Some Session_started)"

interpretation session_machine: machine_inv "ppp_step K" session_inv for K
proof
  fix s l assume "session_inv s"
  then show "session_inv (ppp_step K l s)"
    by (cases l; cases "pc s") (auto simp: session_inv_def session_of_snoc reconnect_step.simps)
qed

text \<open>A loss that the task has not looked at since it was reported.\<close>

definition reconnect_owed :: "ppp_sys \<Rightarrow> bool" where
  "reconnect_owed s = (0 < notified (dev s) \<or> pc s = Rc_delay)"

text \<open>The task's look at the link, after the delay.\<close>

fun checks_link :: "ppp_label \<Rightarrow> ppp_sys \<Rightarrow> bool" where
  "checks_link (Reconnect expired) s = (pc s = Rc_delay)"
| "checks_link _ s = False"

interpretation reconnect_obligation: obligation "ppp_step K" "\<lambda>_. True" reconnect_owed checks_link for K
proof
  fix s l assume "reconnect_owed s" "\<not> checks_link l s"
  then show "reconnect_owed (ppp_step K l s)"
    by (cases l) (auto simp: reconnect_owed_def handlers_notified reconnect_step.simps split: reconnect_pc.splits)
qed simp

section \<open>Waiting out a session that does not die\<close>

text \<open>One round: take the notification, stop the session, wait in vain.\<close>

definition vain_round :: "ppp_label list" where
  "vain_round = [Reconnect False, Reconnect False, Reconnect True]"

lemma vain_rounds:
  assumes "pc s = Rc_take" "0 < notified (dev s)" "\<not> link_up (dev s)" "\<not> phase_dead (dev s)"
  shows "let s' = fold (ppp_step K) (concat (replicate n vain_round)) s
    in pc s' = Rc_take \<and> 0 < notified (dev s') \<and> \<not> link_up (dev s') \<and> \<not> phase_dead (dev s') \<and>
       netif_ops (dev s') = netif_ops (dev s) @ replicate n Nif_disconnected"
  using assms
proof (induction n arbitrary: s)
  case (Suc n)
  let ?s = "fold (ppp_step K) vain_round s"
  have "pc ?s = Rc_take" "0 < notified (dev ?s)" "\<not> link_up (dev ?s)" "\<not> phase_dead (dev ?s)"
      and ops: "netif_ops (dev ?s) = netif_ops (dev s) @ [Nif_disconnected]"
    using Suc.prems by (simp_all add: vain_round_def reconnect_step.simps ppp_uart_is_connected_def)
  from Suc.IH [OF this(1-4)] show ?case by (simp add: Let_def ops)
qed (simp add: Let_def)

section \<open>Bytes\<close>

lemma uart_transmit_spec:
  "uart_transmit ws bs out = (r, out', ws') \<Longrightarrow>
   (r = ESP_OK \<and> out' = out @ bs) \<or> (r = ESP_FAIL \<and> (\<exists>k. out' = out @ take k bs) \<and> (\<exists>w \<in> set ws. w < 0))"
proof (induction ws bs out rule: uart_transmit.induct)
  case (3 w ws b bs out)
  show ?case
  proof (cases "w < 0")
    case True
    with 3(2) show ?thesis by (auto intro: exI [of _ 0])
  next
    case False
    have "out @ take (nat w) (b # bs) @ take k (drop (nat w) (b # bs)) = out @ take (nat w + k) (b # bs)" for k
      by (simp only: take_add)
    with False 3 show ?thesis by (fastforce simp del: take_Cons')
  qed
qed auto

lemma uart_read_bytes_ring:
  "uart_read_bytes n r = (b, r') \<Longrightarrow> b @ ring r' = ring r \<and> delivered r' = delivered r \<and> length b \<le> n \<and>
     (reads r = [] \<longrightarrow> b = take n (ring r) \<and> reads r' = [])"
  by (auto simp: uart_read_bytes_def Let_def split: list.splits)

text \<open>Nothing is lost, duplicated or reordered between the ring and the interface.\<close>

definition passed_on :: "nat \<Rightarrow> uart_rx \<Rightarrow> uart_rx \<Rightarrow> bytes list \<Rightarrow> bool" where
  "passed_on n r r' bs =
     (delivered r' = delivered r @ bs \<and> concat bs @ ring r' = ring r \<and>
      list_all (\<lambda>b. b \<noteq> [] \<and> length b \<le> PPP_RX_CHUNK_SIZE) bs \<and> length (concat bs) \<le> n \<and>
      (reads r = [] \<longrightarrow> concat bs = take n (ring r)))"

lemma receive_loop_spec: "\<exists>bs. passed_on n r (receive_loop n r) bs"
proof (induction n r rule: receive_loop.induct)
  case (1 n r)
  obtain b r1 where r1: "uart_read_bytes (min n PPP_RX_CHUNK_SIZE) r = (b, r1)" by fastforce
  note b = uart_read_bytes_ring [OF r1]
  show ?case
  proof (cases "n = 0 \<or> b = []")
    case True
    then show ?thesis
      using b r1 by (auto simp: passed_on_def receive_loop.simps [of n r] PPP_RX_CHUNK_SIZE_def
          intro!: exI [of _ "[]"])
  next
    case False
    with 1 [OF _ r1 [symmetric]] obtain bs where
      bs: "passed_on (n - length b) (r1\<lparr>delivered := delivered r1 @ [b]\<rparr>)
        (receive_loop (n - length b) (r1\<lparr>delivered := delivered r1 @ [b]\<rparr>)) bs" by auto
    have ring: "ring r = b @ ring r1" and le: "length b \<le> n" using b by simp_all
    have "receive_loop n r = receive_loop (n - length b) (r1\<lparr>delivered := delivered r1 @ [b]\<rparr>)"
      using False r1 by (simp add: receive_loop.simps [of n r])
    moreover have "reads r = [] \<Longrightarrow> reads r1 = []" "length b \<le> PPP_RX_CHUNK_SIZE" "delivered r1 = delivered r"
      using b by simp_all
    ultimately show ?thesis
      using bs le False by (intro exI [of _ "b # bs"]) (auto simp: passed_on_def ring)
  qed
qed

section \<open>Start-up\<close>

definition boot_state :: ppp_uart where
  "boot_state = \<lparr>s_link_events = False, link_up = False, phase_dead = False, s_netif = None, s_reconnect_task = False,
     rx_task = False, notified = 0, fsm_timeout_time = None, status_events = False, handlers = [], netif_ops = []\<rparr>"

lemma start_ok:
  assumes "ppp_uart_start W boot_state = (ESP_OK, s)"
  shows "s_link_events s" "s_netif s = netif_new W" "s_netif s \<noteq> None" "s_reconnect_task s" "rx_task s" "status_events s"
    "handlers s = [Got_ip_handler, Lost_ip_handler, Status_handler]" "netif_ops s = [Nif_start, Nif_connected]"
    "\<not> link_up s" "\<not> phase_dead s" "notified s = 0"
  using assms by (auto simp: ppp_uart_start_def boot_state_def return_on_error_def register_handler_def start_tasks_def
      configure_ppp_timers_def netif_call_def Let_def split: if_splits)

lemma start_failed:
  assumes "ppp_uart_start W boot_state = (r, s)" "r \<noteq> ESP_OK"
  shows "netif_ops s = []" "\<not> s_reconnect_task s"
  using assms by (auto simp: ppp_uart_start_def boot_state_def return_on_error_def register_handler_def start_tasks_def
      configure_ppp_timers_def Let_def split: if_splits)

text \<open>The state after a successful start, with the reconnect task waiting for its first notification.\<close>

definition started :: "start_env \<Rightarrow> ppp_sys" where
  "started W = \<lparr>dev = snd (ppp_uart_start W boot_state), pc = Rc_take\<rparr>"

definition ok_env :: start_env where
  "ok_env = \<lparr>group_ok = True, driver_install = ESP_OK, param_config = ESP_OK, set_pin = ESP_OK, set_rx_timeout = ESP_OK,
     netif_new = Some 7, netif_pcb = True, get_params = ESP_OK, set_params = ESP_OK, register = (\<lambda>_. ESP_OK),
     rx_task_ok = True, reconnect_task_ok = True\<rparr>"

lemma ok_env_starts: "fst (ppp_uart_start ok_env boot_state) = ESP_OK"
  by code_simp

lemma started_frame:
  assumes "fst (ppp_uart_start W boot_state) = ESP_OK"
  shows "s_reconnect_task (dev (fold (ppp_step K) ls (started W)))"
    "s_link_events (dev (fold (ppp_step K) ls (started W)))"
    "s_netif (dev (fold (ppp_step K) ls (started W))) = netif_new W"
proof -
  let ?t = "\<lambda>s. s_reconnect_task (dev s) \<and> s_link_events (dev s) \<and> s_netif (dev s) = netif_new W"
  have "ppp_uart_start W boot_state = (ESP_OK, dev (started W))"
    using assms by (simp add: started_def prod_eq_iff)
  then have "?t (started W)" by (simp add: start_ok)
  moreover have "?t (fold (ppp_step K) ls s)" if "?t s" for s
    using that by (induction ls arbitrary: s) (simp_all add: step_frame)
  ultimately show "s_reconnect_task (dev (fold (ppp_step K) ls (started W)))"
    "s_link_events (dev (fold (ppp_step K) ls (started W)))"
    "s_netif (dev (fold (ppp_step K) ls (started W))) = netif_new W" by blast+
qed

section \<open>Properties\<close>

text \<open>
  C18: whatever events the PPP stack reports and however they interleave with the reconnect task,
  the calls on the network interface follow its life cycle: a session is stopped only after it
  was asked to close, restarted only after it was stopped, and connected once per start.
\<close>

theorem ppp_session_order:
  assumes "fst (ppp_uart_start W boot_state) = ESP_OK"
  shows "session_of (netif_ops (dev (fold (ppp_step K) ls (started W)))) \<noteq> None"
proof -
  have "ppp_uart_start W boot_state = (ESP_OK, dev (started W))"
    using assms by (simp add: started_def prod_eq_iff)
  then have "netif_ops (dev (started W)) = [Nif_start, Nif_connected]" by (rule start_ok)
  then have "session_inv (started W)" by (simp add: session_inv_def started_def session_of_def)
  then have "session_inv (fold (ppp_step K) ls (started W))" by (rule session_machine.run_inv)
  then show ?thesis
    by (cases "pc (fold (ppp_step K) ls (started W))") (auto simp: session_inv_def)
qed

theorem ppp_session_order_witness:
  "session_of (netif_ops (dev (fold (ppp_step \<lparr>code_none = 0, code_dead = 256, phase_offset = 256, internal_offset = 512\<rparr>)
     [Ppp_status 5, Reconnect False, Reconnect False, Ppp_status 256, Reconnect False, Reconnect False] (started ok_env)))) \<noteq> None"
  by (rule ppp_session_order [OF ok_env_starts])

text \<open>
  C5: no loss of the link is forgotten: after the interface reports the loss, the reconnect task does not
  come to rest before it has looked at the link again, however many other events arrive.
\<close>

theorem reconnect_not_lost:
  assumes "fst (ppp_uart_start W boot_state) = ESP_OK"
    and "s = fold (ppp_step K) ls (started W)"
    and "lost \<in> {Ip_event IP_EVENT_PPP_LOST_IP (Some (netif_new W)), Ppp_status c}"
    and "c \<noteq> code_dead K" "c \<noteq> code_none K" "c < phase_offset K \<or> internal_offset K \<le> c"
    and "fold (ppp_step K) ls' (ppp_step K lost s) = s'" "pc s' = Rc_take" "notified (dev s') = 0"
  shows "\<exists>before t after. ls' = before @ Reconnect t # after \<and> pc (fold (ppp_step K) before (ppp_step K lost s)) = Rc_delay"
proof -
  have "reconnect_owed (ppp_step K lost s)"
    using assms(3-6) started_frame [OF assms(1), of K ls] assms(2)
    by (auto simp: reconnect_owed_def on_ip_event_def on_ppp_status_def event_is_for_our_netif_def)
  moreover have "\<not> reconnect_owed (fold (ppp_step K) ls' (ppp_step K lost s))"
    using assms(7-9) by (simp add: reconnect_owed_def)
  ultimately obtain before l after where "ls' = before @ l # after"
      "checks_link l (fold (ppp_step K) before (ppp_step K lost s))"
    using reconnect_obligation.owed_until_served by blast
  then show ?thesis by (cases l) auto
qed

definition lab_codes :: ppp_codes where
  "lab_codes = \<lparr>code_none = 0, code_dead = 256, phase_offset = 256, internal_offset = 512\<rparr>"

theorem reconnect_not_lost_witness:
  "\<exists>before t after. [Reconnect False, Reconnect False, Ppp_status 256] @ replicate 5 (Reconnect False) = before @ Reconnect t # after \<and>
     pc (fold (ppp_step lab_codes) before (ppp_step lab_codes (Ppp_status 5) (started ok_env))) = Rc_delay"
proof -
  have "pc (fold (ppp_step lab_codes) ([Reconnect False, Reconnect False, Ppp_status 256] @ replicate 5 (Reconnect False))
      (ppp_step lab_codes (Ppp_status 5) (started ok_env))) = Rc_take \<and>
    notified (dev (fold (ppp_step lab_codes) ([Reconnect False, Reconnect False, Ppp_status 256] @ replicate 5 (Reconnect False))
      (ppp_step lab_codes (Ppp_status 5) (started ok_env)))) = 0" by code_simp
  then show ?thesis
    using reconnect_not_lost [OF ok_env_starts, of "started ok_env" lab_codes "[]" "Ppp_status 5" 5] 
    by (simp add: lab_codes_def)
qed

text \<open>
  a session that does not reach its dead phase is not given up: each time the wait times out
  the task keeps itself notified and asks the session to close again, as often as it takes.
\<close>

lemma stop_retried:
  assumes "pc s = Rc_take" "0 < notified (dev s)" "\<not> link_up (dev s)" "\<not> phase_dead (dev s)"
  shows "netif_ops (dev (fold (ppp_step K) (concat (replicate n vain_round)) s)) =
      netif_ops (dev s) @ replicate n Nif_disconnected \<and>
    0 < notified (dev (fold (ppp_step K) (concat (replicate n vain_round)) s))"
  using vain_rounds [OF assms, of K n] by (simp add: Let_def)

text \<open>
  received bytes reach the network interface unchanged and in order, in chunks of at most 1024
  bytes, and a read that is not cut short passes on everything the driver had announced.
\<close>

lemma uart_receive_in_order:
  "\<exists>bs. passed_on n r (uart_receive_event (Some n) UART_DATA r) bs"
  using receive_loop_spec [of n r] by (simp add: uart_receive_event_def)

text \<open>
  Starting PPP is all or nothing: on success all three handlers are registered and both tasks exist before
  the session is started; on any error the session is never started.
\<close>

lemma ppp_start_all_or_nothing:
  "let (r, s) = ppp_uart_start W boot_state
   in if r = ESP_OK
      then handlers s = [Got_ip_handler, Lost_ip_handler, Status_handler] \<and> rx_task s \<and> s_reconnect_task s \<and>
        s_netif s \<noteq> None \<and> status_events s \<and> netif_ops s = [Nif_start, Nif_connected]
      else netif_ops s = []"
proof (cases "ppp_uart_start W boot_state")
  case (Pair r s)
  then show ?thesis using start_ok [of W s] start_failed [of W r s] by auto
qed

text \<open>
  C6: transmitting either hands every byte to the UART in order, or fails because the driver
  refused, after a prefix went out.
\<close>

theorem uart_transmit_complete:
  "case uart_transmit ws bs out of
     (ESP_OK, out', ws') \<Rightarrow> out' = out @ bs
   | (r, out', ws') \<Rightarrow> r = ESP_FAIL \<and> (\<exists>k. out' = out @ take k bs) \<and> (\<exists>w. w \<in> set ws \<and> w < 0)"
  using uart_transmit_spec [of ws bs out] by (cases "uart_transmit ws bs out") (auto split: esp_err.splits)

text \<open>
  the firmware comes up only as a whole: when \<open>app_main\<close> returns, PPP runs with its reconnect task and every
  queue and semaphore of the Zigbee adapter exists; when it aborts before PPP, nothing was started, and the
  Zigbee adapter is never touched unless PPP is running.
\<close>

lemma boot_order:
  assumes "app_main B boot_state z = (r, s, z')"
  shows "(r = Inr () \<longrightarrow> netif_ops s = [Nif_start, Nif_connected] \<and> s_reconnect_task s \<and> s_annce_q z' \<noteq> None \<and> s_match_q z' \<noteq> None \<and>
      s_basic_done z' \<noteq> None \<and> s_temp_done z' \<noteq> None \<and> s_bind_done z' \<noteq> None \<and> s_report_done z' \<noteq> None) \<and>
    (r \<in> {Inl Boot_nvs, Inl Boot_netif, Inl Boot_event_loop} \<longrightarrow> s = boot_state) \<and>
    (z' \<noteq> z \<longrightarrow> netif_ops s = [Nif_start, Nif_connected])"
proof -
  obtain p s1 where p: "ppp_uart_start (boot_ppp B) boot_state = (p, s1)" by fastforce
  from assms p start_ok [of "boot_ppp B" s1] show ?thesis
    by (auto simp: app_main_def zigbee_stack_start_def Let_def split: if_splits)
qed

definition lab_boot :: boot_env where
  "lab_boot = \<lparr>nvs_flash_init = ESP_OK, esp_netif_init = ESP_OK, event_loop_create = ESP_OK, boot_ppp = ok_env,
     boot_alloc = (\<lambda>_. True), boot_zigbee_task = True, rpc_server_task = True\<rparr>"

end
