(* ===== verification/Server_Task.thy ===== *)
theory Server_Task
  imports Rpc_Server
begin

text \<open>
  The whole \<open>server_task\<close> of \<^verbatim>\<open>zb_rpc_server/main/rpc_server.cpp\<close>: turn after turn it waits for PPP, opens a listener and
  serves clients until the link or \<open>accept\<close> fails.  The lemmas follow the socket descriptors through the handlers, the
  dispatch chain and the loops.
\<close>

section \<open>The task\<close>

text \<open>
  The endless outer loop on a list of turns: what the socket library answers when the listener is created, and the
  outcomes of \<open>accept\<close>.  The task stays in a turn whose outcomes are used up; the result says whether it is
  between two turns.
\<close>

fun server_task ::
    "zb_env \<Rightarrow> srv_env \<Rightarrow> (listener_env \<times> accept_result list) list \<Rightarrow> rpc_server \<Rightarrow> bool \<times> sock list \<times> rpc_server" where
  "server_task E V [] st = (True, [], st)"
| "server_task E V ((L, outcomes) # turns) st =
     (let (left, served, st1) = server_turn E V L outcomes st
      in if \<not> left then (False, served, st1)
         else let (left', served', st2) = server_task E V turns st1 in (left', served @ served', st2))"

section \<open>Descriptors\<close>

lemma on_stack_open [simp]:
  "srv_open (snd (on_stack f st)) = srv_open st" "s_client_fd (snd (on_stack f st)) = s_client_fd st"
  by (simp_all add: on_stack_def case_prod_beta Let_def)

lemma polls_open [simp]:
  "srv_open (snd (poll_ppp V st)) = srv_open st" "srv_open (snd (client_connected V st)) = srv_open st"
  by (auto simp: poll_ppp_def client_connected_def Let_def split: peek_result.splits)

lemma wait_loop_open [simp]: "srv_open (snd (wait_annce_loop E V n st)) = srv_open st"
proof (induction "unat n" arbitrary: n st rule: less_induct)
  case less
  have "n \<noteq> 0 \<Longrightarrow> srv_open (snd (wait_annce_loop E V (n - (if n < k_annce_slice_ms then n else k_annce_slice_ms)) st')) =
      srv_open st'" for st'
    by (rule less) (rule chunk_less, simp_all add: k_annce_slice_ms_def)
  then show ?case by (simp add: wait_annce_loop.simps [of E V n st] case_prod_beta Let_def)
qed

definition open_is :: "int list \<Rightarrow> invoke_result \<times> engine \<times> rpc_server \<Rightarrow> bool" where
  "open_is fds r = (srv_open (snd (snd r)) = fds)"

lemma open_is_invoke:
  assumes "\<And>r st. srv_open (snd (f r st)) = srv_open st"
  shows "open_is (srv_open st) (invoke_one D f h (e, st))"
  using assms [of _ st] by (auto simp: open_is_def invoke_one_def Let_def case_prod_beta split: option.splits prod.splits)

lemma open_is_or_else:
  assumes "open_is fds r" "\<And>r st. srv_open (snd (f r st)) = srv_open st"
  shows "open_is fds (or_else r (invoke_one D f h))"
proof (cases r)
  case (fields x e st)
  with assms open_is_invoke [of f st D h e] show ?thesis by (cases x) (auto simp: open_is_def or_else_def)
qed

lemma handlers_open:
  "srv_open (snd (handle_get_short_addr E st)) = srv_open st" "srv_open (snd (handle_get_panid E st)) = srv_open st"
  "srv_open (snd (handle_get_channel E st)) = srv_open st" "srv_open (snd (handle_open_network E q1 st)) = srv_open st"
  "srv_open (snd (handle_wait_annce E V st)) = srv_open st" "srv_open (snd (handle_find_sensor E q2 st)) = srv_open st"
  "srv_open (snd (handle_read_basic E q st)) = srv_open st" "srv_open (snd (handle_bind_sensor E q st)) = srv_open st"
  "srv_open (snd (handle_subscribe_sensor E q st)) = srv_open st" "srv_open (snd (handle_config_report E q st)) = srv_open st"
  "srv_open (snd (handle_read_temp E q st)) = srv_open st" "srv_open (snd (handle_get_last_temp st)) = srv_open st"
  "srv_open (snd (handle_get_sensor_addr st)) = srv_open st"
  by (simp_all add: handle_defs case_prod_beta Let_def)

lemma dispatch_chain_open: "open_is (srv_open st) (dispatch_chain E V h (e, st))"
  unfolding dispatch_chain_def Let_def by (intro open_is_or_else open_is_invoke handlers_open)

lemma dispatch_open: "srv_open (snd (snd (dispatch E V h (e, st)))) = srv_open st"
  using dispatch_chain_open [of st E V h e]
  by (auto simp: dispatch_def open_is_def split: invoke_result.splits prod.splits bool.splits)

lemma serve_loop_open: "srv_open (snd (serve_loop E V e st)) = srv_open st"
proof (induction E V e st rule: serve_loop.induct)
  case (1 E V e st)
  show ?case
  proof (cases "fst (poll_ppp V st) \<and> fst (receive_header e) \<noteq> None")
    case True
    then obtain h e1 where h: "receive_header e = (Some h, e1)" by (cases "receive_header e") auto
    obtain ok e2 st2 where d: "dispatch E V h (e1, snd (poll_ppp V st)) = (ok, e2, st2)" by (metis prod_cases3)
    have "srv_open st2 = srv_open st" using dispatch_open [of E V h e1 "snd (poll_ppp V st)"] d by simp
    with 1 True h d show ?thesis
      by (cases "poll_ppp V st") (auto simp: serve_loop.simps [of E V e st])
  next
    case False
    then show ?thesis
      using polls_open(1) [of V st] by (auto simp: serve_loop.simps [of E V e st] case_prod_beta Let_def split: option.splits)
  qed
qed

lemma serve_client_open:
  "srv_open (snd (serve_client E V fd s st)) = srv_open st" "s_client_fd (snd (serve_client E V fd s st)) = -1"
  using serve_loop_open [of E V "mk_engine s" "st\<lparr>s_client_fd := fd\<rparr>"]
  by (simp_all add: serve_client_def case_prod_beta Let_def)

lemma accept_loop_open:
  "accept_loop E V outcomes st = (left, served, st') \<Longrightarrow> srv_open st' = srv_open st"
proof (induction outcomes arbitrary: st left served st')
  case (Cons a outcomes)
  obtain up st1 where p: "poll_ppp V st = (up, st1)" by fastforce
  then have 1: "srv_open st1 = srv_open st" using polls_open(1) [of V st] by simp
  show ?case
  proof (cases a)
    case (Accept_client fd s)
    let ?st2 = "close_fd fd (snd (serve_client E V fd s (open_fd fd st1)))"
    have "srv_open ?st2 = srv_open st1" by (simp add: close_fd_def open_fd_def serve_client_open)
    moreover obtain lf sv st3 where r: "accept_loop E V outcomes ?st2 = (lf, sv, st3)" by (metis prod_cases3)
    moreover note Cons.IH [OF r]
    ultimately show ?thesis
      using Cons.prems p 1 Accept_client by (auto simp: case_prod_beta split: if_splits)
  next
    case Accept_again
    with Cons.prems Cons.IH [of st1] p 1 show ?thesis by (auto split: if_splits)
  next
    case Accept_error
    with Cons.prems p 1 show ?thesis by (auto split: if_splits)
  qed
qed simp

lemma server_turn_open:
  assumes "server_turn E V L outcomes st = (left, served, st')"
  shows "srv_open st' = (if left then srv_open st else socket_fd L # srv_open st)"
proof -
  obtain l st1 where l: "create_listener L st = (l, st1)" by fastforce
  then have 1: "l < 0 \<and> srv_open st1 = srv_open st \<or> 0 \<le> l \<and> l = socket_fd L \<and> srv_open st1 = l # srv_open st"
    by (auto simp: create_listener_def open_fd_def close_fd_def Let_def split: if_splits)
  obtain lf sv st2 where a: "accept_loop E V outcomes st1 = (lf, sv, st2)" by (metis prod_cases3)
  from accept_loop_open [OF a] assms l a 1 show ?thesis
    by (auto simp: server_turn_def close_fd_def split: if_splits)
qed

section \<open>Properties\<close>

text \<open>
  C24: however many turns the server task makes and whatever its sockets do, it leaks no descriptor: between two turns
  it holds exactly what it held at the start, and while it waits for clients it holds the one listener besides.
\<close>

theorem server_task_descriptors:
  assumes "server_task E V turns st = (between, served, st')"
  shows "srv_open st' = srv_open st \<or> \<not> between \<and> (\<exists>L. L \<in> fst ` set turns \<and> srv_open st' = socket_fd L # srv_open st)"
  using assms
proof (induction turns arbitrary: st between served st')
  case (Cons t turns)
  obtain L outcomes where t: "t = (L, outcomes)" by fastforce
  obtain left sv st1 where u: "server_turn E V L outcomes st = (left, sv, st1)" by (metis prod_cases3)
  obtain l2 sv2 st2 where r: "server_task E V turns st1 = (l2, sv2, st2)" by (metis prod_cases3)
  from Cons.IH [OF r] Cons.prems t u r server_turn_open [OF u] show ?case
    by (auto split: if_splits)
qed simp

definition lab_turns :: "(listener_env \<times> accept_result list) list" where
  "lab_turns = [(\<lparr>socket_fd = 5, bind_ok = True, listen_ok = False\<rparr>, []),
     (\<lparr>socket_fd = 6, bind_ok = True, listen_ok = True\<rparr>, [Accept_again, Accept_error])]"

theorem server_task_descriptors_witness:
  "srv_open (snd (snd (server_task lab_env lab_link lab_turns (lab_srv [])))) = srv_open (lab_srv [])"
proof -
  obtain b sv st where r: "server_task lab_env lab_link lab_turns (lab_srv []) = (b, sv, st)" by (metis prod_cases3)
  then have b
    by (auto simp: lab_turns_def server_turn_def create_listener_def poll_ppp_def lab_link_def Let_def)
  with server_task_descriptors [OF r] r show ?thesis by simp
qed

end
