(* ===== verification/Zigbee_Boot.thy ===== *)
theory Zigbee_Boot
  imports Stack_Props
begin

text \<open>
  The start of the Zigbee stack: \<open>zigbee_main_task\<close> and \<open>zigbee_create_device\<close> of \<^verbatim>\<open>zb_rpc_server/main/zigbee_stack.c\<close>
  with the settings of \<^verbatim>\<open>thermostat.h\<close>.  The calls into the Zigbee SDK are values, collected in order; a call whose
  \<open>ESP_ERROR_CHECK\<close> fails aborts the firmware.
\<close>

section \<open>Settings\<close>

definition ESP_ZIGBEE_HA_THERMOSTAT_EP_ID :: u8 where
  "ESP_ZIGBEE_HA_THERMOSTAT_EP_ID = 1"

text \<open>\<open>CONFIG_ZB_EXAMPLE_PRIMARY_CHANNEL\<close> is a number set when the firmware is configured.\<close>

definition ESP_ZIGBEE_PRIMARY_CHANNEL_MASK :: "nat \<Rightarrow> u32" where
  "ESP_ZIGBEE_PRIMARY_CHANNEL_MASK channel = push_bit channel 1"

definition text_bytes :: "string \<Rightarrow> bytes" where
  "text_bytes t = map (\<lambda>c. of_nat (of_char c)) t"

definition ESP_MANUFACTURER_NAME :: bytes where
  "ESP_MANUFACTURER_NAME = 9 # text_bytes ''ESPRESSIF''"

definition ESP_MODEL_IDENTIFIER :: "string \<Rightarrow> bytes" where
  "ESP_MODEL_IDENTIFIER target = 7 # text_bytes target"

section \<open>The task\<close>

datatype sdk_call =
    Sdk_init
  | Sdk_distributed_security bool
  | Sdk_primary_channels u32
  | Sdk_secondary_channels u32
  | Sdk_add_signal_handler
  | Sdk_create_thermostat u8
  | Sdk_basic_manufacturer bytes
  | Sdk_basic_model bytes
  | Sdk_add_basic_client
  | Sdk_add_temperature_client
  | Sdk_add_endpoint
  | Sdk_register_device
  | Sdk_register_action_handler
  | Sdk_start bool
  | Sdk_launch_mainloop
  | Sdk_deinit
  | Sdk_task_delete

type_synonym sdk_run = "sdk_call list \<Rightarrow> bool \<times> sdk_call list"

text \<open>A call without and with \<open>ESP_ERROR_CHECK\<close>; \<open>False\<close> is an abort.\<close>

definition sdk_do :: "sdk_call \<Rightarrow> sdk_run" where
  "sdk_do x calls = (True, calls @ [x])"

definition sdk_check :: "(sdk_call \<Rightarrow> bool) \<Rightarrow> sdk_call \<Rightarrow> sdk_run" where
  "sdk_check ok x calls = (ok x, calls @ [x])"

definition sdk_then :: "sdk_run \<Rightarrow> sdk_run \<Rightarrow> sdk_run" where
  "sdk_then f g calls = (let (r, calls') = f calls in if r then g calls' else (False, calls'))"

definition sdk_all :: "sdk_run list \<Rightarrow> sdk_run" where
  "sdk_all fs = foldr sdk_then fs (\<lambda>calls. (True, calls))"

definition zigbee_create_device :: "(sdk_call \<Rightarrow> bool) \<Rightarrow> string \<Rightarrow> sdk_run" where
  "zigbee_create_device ok target = sdk_all
     [sdk_do (Sdk_create_thermostat ESP_ZIGBEE_HA_THERMOSTAT_EP_ID),
      sdk_do (Sdk_basic_manufacturer ESP_MANUFACTURER_NAME),
      sdk_do (Sdk_basic_model (ESP_MODEL_IDENTIFIER target)),
      sdk_check ok Sdk_add_basic_client, sdk_check ok Sdk_add_temperature_client,
      sdk_check ok Sdk_add_endpoint, sdk_check ok Sdk_register_device,
      sdk_do Sdk_register_action_handler]"

definition zigbee_main_task :: "(sdk_call \<Rightarrow> bool) \<Rightarrow> nat \<Rightarrow> u32 \<Rightarrow> string \<Rightarrow> sdk_run" where
  "zigbee_main_task ok channel secondary target = sdk_all
     [sdk_check ok Sdk_init, sdk_do (Sdk_distributed_security False),
      sdk_check ok (Sdk_primary_channels (ESP_ZIGBEE_PRIMARY_CHANNEL_MASK channel)),
      sdk_check ok (Sdk_secondary_channels secondary), sdk_check ok Sdk_add_signal_handler,
      zigbee_create_device ok target, sdk_check ok (Sdk_start False),
      sdk_do Sdk_launch_mainloop, sdk_do Sdk_deinit, sdk_do Sdk_task_delete]"

section \<open>Sequences of calls\<close>

text \<open>A call with the flag whether its result is checked.\<close>

definition sdk_step :: "(sdk_call \<Rightarrow> bool) \<Rightarrow> bool \<times> sdk_call \<Rightarrow> sdk_run" where
  "sdk_step ok c = (if fst c then sdk_check ok (snd c) else sdk_do (snd c))"

lemma sdk_step_simps: "sdk_step ok (c, x) = (if c then sdk_check ok x else sdk_do x)"
  by (simp add: sdk_step_def)

lemma sdk_all_simps [simp]:
  "sdk_all [] calls = (True, calls)"
  "sdk_all (f # fs) calls = (case f calls of (r, calls') \<Rightarrow> if r then sdk_all fs calls' else (False, calls'))"
  by (cases "f calls"; simp add: sdk_all_def sdk_then_def)+

lemma sdk_all_append:
  "sdk_all (fs @ gs) calls = (case sdk_all fs calls of (r, calls') \<Rightarrow> if r then sdk_all gs calls' else (False, calls'))"
  by (induction fs arbitrary: calls) (auto split: prod.splits)

lemma sdk_all_nested: "sdk_all (fs @ sdk_all gs # hs) = sdk_all (fs @ gs @ hs)"
  by (rule ext) (simp add: sdk_all_append split: prod.splits)

lemma sdk_steps:
  "sdk_all (map (sdk_step ok) xs) calls = (r, calls') \<Longrightarrow>
   r \<and> calls' = calls @ map snd xs \<or>
   \<not> r \<and> (\<exists>k. k < length xs \<and> calls' = calls @ take (Suc k) (map snd xs) \<and> fst (xs ! k) \<and> \<not> ok (snd (xs ! k)))"
proof (induction xs arbitrary: calls)
  case (Cons x xs)
  show ?case
  proof (cases "fst x \<and> \<not> ok (snd x)")
    case True
    with Cons.prems have "\<not> r \<and> calls' = calls @ take (Suc 0) (map snd (x # xs))"
      by (cases x) (auto simp: sdk_step_simps sdk_check_def)
    with True show ?thesis by (intro disjI2 conjI exI [of _ 0]) auto
  next
    case False
    with Cons.prems have "sdk_all (map (sdk_step ok) xs) (calls @ [snd x]) = (r, calls')"
      by (cases x) (auto simp: sdk_step_simps sdk_check_def sdk_do_def split: if_splits)
    from Cons.IH [OF this] show ?thesis by (auto intro: exI [of _ "Suc _"])
  qed
qed simp

section \<open>Names on the air\<close>

text \<open>An octet string in memory, followed by whatever comes after it.\<close>

definition in_memory :: "bytes \<Rightarrow> (nat \<Rightarrow> u8) \<Rightarrow> nat \<Rightarrow> u8" where
  "in_memory bs rest i = (if i < length bs then bs ! i else rest i)"

lemma copy_octet_string:
  assumes "unat n = length t" "length t \<le> 15"
  shows "copy_zcl_string 16 (Some (in_memory (n # t) rest)) = t @ replicate (16 - length t) 0"
proof -
  have "map (\<lambda>i. in_memory (n # t) rest (i + 1)) [0..<length t] = t"
    by (auto simp: in_memory_def intro: nth_equalityI)
  then show ?thesis using assms by (simp add: copy_zcl_string_Some in_memory_def [of _ _ 0] min_def)
qed

lemma copy_octet_string_long:
  assumes "unat n \<le> length t" "unat n \<le> 15"
  shows "copy_zcl_string 16 (Some (in_memory (n # t) rest)) = take (unat n) t @ replicate (16 - unat n) 0"
proof -
  have "map (\<lambda>i. in_memory (n # t) rest (i + 1)) [0..<unat n] = take (unat n) t"
    using assms(1) by (auto simp: in_memory_def intro!: nth_equalityI)
  then show ?thesis using assms by (simp add: copy_zcl_string_Some in_memory_def [of _ _ 0] min_def)
qed

section \<open>Properties\<close>

text \<open>
  The names the coordinator publishes are read back by a peer that runs the same string decoder: the manufacturer
  completely, the model up to its fixed length of seven characters, so a target name is complete exactly when it has
  seven characters.
\<close>

lemma published_names_read_back:
  assumes "7 \<le> length target"
  shows "copy_zcl_string 16 (Some (in_memory ESP_MANUFACTURER_NAME rest)) = text_bytes ''ESPRESSIF'' @ replicate 7 0 \<and>
    copy_zcl_string 16 (Some (in_memory (ESP_MODEL_IDENTIFIER target) rest)) = text_bytes (take 7 target) @ replicate 9 0"
proof -
  have "length (text_bytes t) = length t" "take k (text_bytes t) = text_bytes (take k t)" for t k
    by (simp_all add: text_bytes_def take_map)
  then show ?thesis
    using assms copy_octet_string [of 9 "text_bytes ''ESPRESSIF''" rest]
      copy_octet_string_long [of 7 "text_bytes target" rest]
    by (simp add: ESP_MANUFACTURER_NAME_def ESP_MODEL_IDENTIFIER_def)
qed

text \<open>
  C2: the stack's main loop runs only after every setting was accepted, the device is registered and both the signal
  and the action handler are in place, in this order; a failed call stops the start with nothing after it.
\<close>

definition start_steps :: "nat \<Rightarrow> u32 \<Rightarrow> string \<Rightarrow> (bool \<times> sdk_call) list" where
  "start_steps channel secondary target =
     [(True, Sdk_init), (False, Sdk_distributed_security False), (True, Sdk_primary_channels (push_bit channel 1)),
      (True, Sdk_secondary_channels secondary), (True, Sdk_add_signal_handler), (False, Sdk_create_thermostat 1),
      (False, Sdk_basic_manufacturer ESP_MANUFACTURER_NAME), (False, Sdk_basic_model (ESP_MODEL_IDENTIFIER target)),
      (True, Sdk_add_basic_client), (True, Sdk_add_temperature_client), (True, Sdk_add_endpoint), (True, Sdk_register_device),
      (False, Sdk_register_action_handler), (True, Sdk_start False)]"

text \<open>
  The stack's main loop runs only after every setting was accepted, the device is registered and both the signal
  and the action handler are in place, in this order; a failed check stops the start with nothing after it.
\<close>

lemma mainloop_needs_device:
  "case zigbee_main_task ok channel secondary target [] of
     (True, calls) \<Rightarrow> calls = map snd (start_steps channel secondary target) @ [Sdk_launch_mainloop, Sdk_deinit, Sdk_task_delete]
   | (False, calls) \<Rightarrow> \<exists>k. k < 14 \<and> calls = take (Suc k) (map snd (start_steps channel secondary target)) \<and>
       \<not> ok (snd (start_steps channel secondary target ! k))"
proof -
  let ?xs = "start_steps channel secondary target @ [(False, Sdk_launch_mainloop), (False, Sdk_deinit), (False, Sdk_task_delete)]"
  have "zigbee_main_task ok channel secondary target = sdk_all (map (sdk_step ok) ?xs)"
    unfolding zigbee_main_task_def zigbee_create_device_def
    using sdk_all_nested [where fs = "map (sdk_step ok) (take 5 ?xs)" and gs = "map (sdk_step ok) (take 8 (drop 5 ?xs))"
        and hs = "map (sdk_step ok) (drop 13 ?xs)"]
    by (simp add: start_steps_def sdk_step_def ESP_ZIGBEE_PRIMARY_CHANNEL_MASK_def ESP_ZIGBEE_HA_THERMOSTAT_EP_ID_def del: sdk_all_simps)
  then have task: "zigbee_main_task ok channel secondary target [] = sdk_all (map (sdk_step ok) ?xs) []" by simp
  have len: "length (start_steps channel secondary target) = 14" by (simp add: start_steps_def)
  obtain r calls where r: "sdk_all (map (sdk_step ok) ?xs) [] = (r, calls)" by fastforce
  have k: "k < 14" if "k < length ?xs" "fst (?xs ! k)" for k
    using that len by (auto simp: nth_append less_Suc_eq nth_Cons' split: if_splits)
  show ?thesis
  proof (cases r)
    case True
    then show ?thesis using sdk_steps [OF r] r task by simp
  next
    case False
    with sdk_steps [OF r] obtain k where "k < 14" "calls = take (Suc k) (map snd ?xs)" "\<not> ok (snd (?xs ! k))"
      using k by auto
    with False r task len show ?thesis by (auto simp: nth_append intro!: exI [of _ k])
  qed
qed

end
