(* ===== verification/Qr_Memory.thy ===== *)
theory Qr_Memory
  imports Zb_Prelude "HOL-Library.Monad_Syntax"
begin

text \<open>
  Arrays and loops of the QR tool.  A routine returns an option: \<open>None\<close> is an assertion that fails or an access
  outside an array.  \<open>for_each\<close> is a \<open>for\<close> loop over the list of its counter's values.
\<close>

section \<open>Arrays\<close>

definition load :: "bytes \<Rightarrow> int \<Rightarrow> u8 option" where
  "load b i = (if 0 \<le> i \<and> nat i < length b then Some (b ! nat i) else None)"

definition store :: "int \<Rightarrow> u8 \<Rightarrow> bytes \<Rightarrow> bytes option" where
  "store i v b = (if 0 \<le> i \<and> nat i < length b then Some (b[nat i := v]) else None)"

text \<open>\<open>memset(b, 0, n)\<close>\<close>

definition clear :: "int \<Rightarrow> bytes \<Rightarrow> bytes option" where
  "clear n b = (if nat n \<le> length b then Some (replicate (nat n) 0 @ drop (nat n) b) else None)"

abbreviation asserting :: "bool \<Rightarrow> unit option" where
  "asserting p \<equiv> (if p then Some () else None)"

section \<open>Loops\<close>

primrec for_each :: "('a \<Rightarrow> 's \<Rightarrow> 's option) \<Rightarrow> 'a list \<Rightarrow> 's \<Rightarrow> 's option" where
  "for_each f [] s = Some s"
| "for_each f (x # xs) s = Option.bind (f x s) (for_each f xs)"

lemma for_each_append: "for_each f (xs @ ys) s = Option.bind (for_each f xs s) (for_each f ys)"
  by (induction xs arbitrary: s) (auto simp: bind_eq_None_conv split: option.splits bind_splits)

lemma for_each_nested:
  "for_each (\<lambda>x. for_each (g x) (ys x)) xs s = for_each (\<lambda>(x, y). g x y) (concat (map (\<lambda>x. map (Pair x) (ys x)) xs)) s"
proof -
  have inner: "for_each (g x) zs t = for_each (\<lambda>(x, y). g x y) (map (Pair x) zs) t" for x zs t
    by (induction zs arbitrary: t) (auto split: bind_splits)
  show ?thesis by (induction xs arbitrary: s) (auto simp: for_each_append inner [symmetric] split: bind_splits)
qed

lemma for_each_map: "for_each f (map h xs) s = for_each (\<lambda>x. f (h x)) xs s"
  by (induction xs arbitrary: s) (auto split: bind_splits)

lemma for_each_cong: "(\<And>x s. x \<in> set xs \<Longrightarrow> f x s = g x s) \<Longrightarrow> for_each f xs s = for_each g xs s"
  by (induction xs arbitrary: s) (auto split: bind_splits)

text \<open>The contract of a loop: an invariant indexed by the elements done so far.\<close>

lemma for_each_inv:
  assumes "I [] s"
    and "\<And>ys x zs t. xs = ys @ x # zs \<Longrightarrow> I ys t \<Longrightarrow> \<exists>t'. f x t = Some t' \<and> I (ys @ [x]) t'"
  shows "\<exists>t. for_each f xs s = Some t \<and> I xs t"
proof -
  have "\<exists>t. for_each f ys s = Some t \<and> I ys t" if "xs = ys @ zs" for ys zs
    using that
  proof (induction ys arbitrary: zs rule: rev_induct)
    case Nil
    then show ?case using assms(1) by simp
  next
    case (snoc x ys)
    then obtain t where "for_each f ys s = Some t" "I ys t" by auto
    with snoc.prems assms(2) [of ys x zs t] show ?case by (auto simp: for_each_append)
  qed
  then show ?thesis by simp
qed

lemma for_each_always:
  assumes "P s" "\<And>x t. x \<in> set xs \<Longrightarrow> P t \<Longrightarrow> \<exists>t'. f x t = Some t' \<and> P t'"
  shows "\<exists>t. for_each f xs s = Some t \<and> P t"
  by (rule for_each_inv [where I = "\<lambda>_. P"]) (use assms in auto)

section \<open>Lists of stores\<close>

definition stores :: "(nat \<times> u8) list \<Rightarrow> bytes \<Rightarrow> bytes option" where
  "stores = for_each (\<lambda>(k, v). store (int k) v)"

lemma stores_total:
  assumes "\<forall>(k, v) \<in> set ws. k < length b"
  shows "\<exists>b'. stores ws b = Some b' \<and> length b' = length b \<and>
    (\<forall>k < length b. b' ! k = (case map_of (rev ws) k of None \<Rightarrow> b ! k | Some v \<Rightarrow> v))"
  using assms
proof (induction ws rule: rev_induct)
  case (snoc w ws)
  obtain k v where w: "w = (k, v)" by fastforce
  from snoc obtain b' where "stores ws b = Some b'" "length b' = length b"
    "\<forall>k < length b. b' ! k = (case map_of (rev ws) k of None \<Rightarrow> b ! k | Some v \<Rightarrow> v)" by auto
  with snoc.prems show ?case
    by (auto simp: stores_def for_each_append w store_def nth_list_update split: option.splits)
qed (simp add: stores_def)

lemma stores_distinct:
  assumes "distinct (map fst ws)" "\<forall>(k, v) \<in> set ws. k < length b" "stores ws b = Some b'" "(k, v) \<in> set ws"
  shows "b' ! k = v"
proof -
  have "map_of (rev ws) k = Some v" using assms(1,4) by (simp add: map_of_eq_Some_iff rev_map [symmetric] distinct_rev)
  then show ?thesis using stores_total [OF assms(2)] assms(2-4) by auto
qed

section \<open>Bits of a byte array, most significant first\<close>

definition buf_bit :: "bytes \<Rightarrow> nat \<Rightarrow> bool" where
  "buf_bit b k = bit (b ! (k div 8)) (7 - k mod 8)"

text \<open>The first \<open>n\<close> bytes hold the bits \<open>bs\<close>, then zeros.\<close>

definition holds_bits :: "nat \<Rightarrow> bytes \<Rightarrow> bool list \<Rightarrow> bool" where
  "holds_bits n b bs = (n \<le> length b \<and> length bs \<le> 8 * n \<and> (\<forall>k < 8 * n. buf_bit b k = (k < length bs \<and> bs ! k)))"

lemma holds_bits_clear: "clear (int n) b = Some b' \<Longrightarrow> holds_bits n b' []"
  by (auto simp: clear_def holds_bits_def buf_bit_def nth_append split: if_splits)

text \<open>The \<open>w\<close> low bits of a number, most significant first.\<close>

definition bits_of :: "nat \<Rightarrow> nat \<Rightarrow> bool list" where
  "bits_of w v = map (bit v) (rev [0..<w])"

lemma length_bits_of [simp]: "length (bits_of w v) = w"
  by (simp add: bits_of_def)

definition value_of :: "bool list \<Rightarrow> nat" where
  "value_of bs = fold (\<lambda>b n. 2 * n + of_bool b) bs 0"

lemma value_of_snoc: "value_of (bs @ [b]) = 2 * value_of bs + of_bool b"
  by (simp add: value_of_def)

lemma bits_of_Suc: "bits_of (Suc w) v = bits_of w (v div 2) @ [odd v]"
proof -
  have "[0..<Suc w] = 0 # map Suc [0..<w]" by (simp only: map_Suc_upt upt_conv_Cons)
  then have "rev [0..<Suc w] = map Suc (rev [0..<w]) @ [0]" by (simp add: rev_map)
  then show ?thesis by (simp only: bits_of_def) (simp add: bit_Suc bit_0)
qed

lemma value_of_bits_of: "v < 2 ^ w \<Longrightarrow> value_of (bits_of w v) = v"
proof (induction w arbitrary: v)
  case 0
  then show ?case by (simp add: bits_of_def value_of_def)
next
  case (Suc w)
  then have "v div 2 < 2 ^ w" by auto
  then show ?case using Suc.IH [of "v div 2"] by (simp add: bits_of_Suc value_of_snoc)
qed

lemma bits_of_value_of: "bits_of (length bs) (value_of bs) = bs"
proof (induction bs rule: rev_induct)
  case (snoc b bs)
  then show ?case by (simp add: bits_of_Suc value_of_snoc)
qed (simp add: bits_of_def)

lemma value_of_less: "value_of bs < 2 ^ length bs"
  by (induction bs rule: rev_induct) (auto simp: value_of_def [of "[]"] value_of_snoc of_bool_def)

end
