(* ===== verification/Qr_Bits.thy ===== *)
theory Qr_Bits
  imports Qr_Memory
begin

text \<open>
  The segments of a QR Code, \<^verbatim>\<open>tools/qrtext/qrcodegen.h\<close>: appending bits to a buffer and the numeric, alphanumeric, byte
  and ECI encodings, with the readers that recover the characters.  A text is the list of its bytes before the
  terminating NUL.
\<close>

section \<open>Appending bits\<close>

type_synonym bit_buffer = "bytes \<times> nat"

definition append_bit :: "nat \<Rightarrow> nat \<Rightarrow> bit_buffer \<Rightarrow> bit_buffer option" where
  "append_bit val i s =
     (case s of (buffer, bitLen) \<Rightarrow> do {
        x \<leftarrow> load buffer (int (bitLen div 8));
        buffer' \<leftarrow> store (int (bitLen div 8)) (x OR of_nat (push_bit (7 - bitLen mod 8) (drop_bit i val AND 1))) buffer;
        Some (buffer', bitLen + 1)
      })"

definition appendBitsToBuffer :: "nat \<Rightarrow> nat \<Rightarrow> bit_buffer \<Rightarrow> bit_buffer option" where
  "appendBitsToBuffer val numBits s = do {
     _ \<leftarrow> asserting (numBits \<le> 16 \<and> drop_bit numBits val = 0);
     for_each (append_bit val) (rev [0..<numBits]) s
   }"

section \<open>Segments\<close>

datatype qrcodegen_Mode = Mode_NUMERIC | Mode_ALPHANUMERIC | Mode_BYTE | Mode_KANJI | Mode_ECI

fun mode_value :: "qrcodegen_Mode \<Rightarrow> nat" where
  "mode_value Mode_NUMERIC = 0x1"
| "mode_value Mode_ALPHANUMERIC = 0x2"
| "mode_value Mode_BYTE = 0x4"
| "mode_value Mode_KANJI = 0x8"
| "mode_value Mode_ECI = 0x7"

record qrcodegen_Segment =
  seg_mode :: qrcodegen_Mode
  seg_numChars :: int
  seg_data :: bytes
  seg_bitLength :: int

definition INT16_MAX :: nat where
  "INT16_MAX = 32767"

definition SIZE_MAX :: nat where
  "SIZE_MAX = 2 ^ 64 - 1"

definition ALPHANUMERIC_CHARSET :: string where
  "ALPHANUMERIC_CHARSET = ''0123456789ABCDEFGHIJKLMNOPQRSTUVWXYZ $%*+-./:''"

text \<open>\<open>strchr\<close> as an offset.\<close>

fun index_of :: "u8 \<Rightarrow> string \<Rightarrow> nat option" where
  "index_of c [] = None"
| "index_of c (x # xs) = (if c = of_char x then Some 0 else map_option Suc (index_of c xs))"

definition qrcodegen_isAlphanumeric :: "bytes \<Rightarrow> bool" where
  "qrcodegen_isAlphanumeric text = list_all (\<lambda>c. index_of c ALPHANUMERIC_CHARSET \<noteq> None) text"

definition qrcodegen_isNumeric :: "bytes \<Rightarrow> bool" where
  "qrcodegen_isNumeric text = list_all (\<lambda>c. \<not> (c < 48 \<or> 57 < c)) text"

definition calcSegmentBitLength :: "qrcodegen_Mode \<Rightarrow> nat \<Rightarrow> int option" where
  "calcSegmentBitLength mode numChars =
     (if INT16_MAX < numChars then Some (-1)
      else do {
        result \<leftarrow> (case mode of
            Mode_NUMERIC \<Rightarrow> Some ((numChars * 10 + 2) div 3)
          | Mode_ALPHANUMERIC \<Rightarrow> Some ((numChars * 11 + 1) div 2)
          | Mode_BYTE \<Rightarrow> Some (numChars * 8)
          | Mode_KANJI \<Rightarrow> Some (numChars * 13)
          | Mode_ECI \<Rightarrow> if numChars = 0 then Some (3 * 8) else None);
        Some (if INT16_MAX < result then -1 else int result)
      })"

definition qrcodegen_calcSegmentBufferSize :: "qrcodegen_Mode \<Rightarrow> nat \<Rightarrow> nat option" where
  "qrcodegen_calcSegmentBufferSize mode numChars = do {
     temp \<leftarrow> calcSegmentBitLength mode numChars;
     if temp = -1 then Some SIZE_MAX
     else do {
       _ \<leftarrow> asserting (0 \<le> temp \<and> temp \<le> int INT16_MAX);
       Some ((nat temp + 7) div 8)
     }
   }"

definition qrcodegen_makeBytes :: "bytes \<Rightarrow> bytes \<Rightarrow> qrcodegen_Segment option" where
  "qrcodegen_makeBytes data buf = do {
     bitLength \<leftarrow> calcSegmentBitLength Mode_BYTE (length data);
     _ \<leftarrow> asserting (bitLength \<noteq> -1);
     _ \<leftarrow> asserting (length data \<le> length buf);
     Some \<lparr>seg_mode = Mode_BYTE, seg_numChars = int (length data),
           seg_data = data @ drop (length data) buf, seg_bitLength = bitLength\<rparr>
   }"

text \<open>One character: the accumulated value and the number of characters in it.\<close>

definition numeric_turn :: "u8 \<Rightarrow> bit_buffer \<times> nat \<times> nat \<Rightarrow> (bit_buffer \<times> nat \<times> nat) option" where
  "numeric_turn c s =
     (case s of (buf, accumData, accumCount) \<Rightarrow> do {
        _ \<leftarrow> asserting (48 \<le> c \<and> c \<le> 57);
        let accumData' = accumData * 10 + (unat c - 48);
        if accumCount + 1 = 3
        then do { buf' \<leftarrow> appendBitsToBuffer accumData' 10 buf; Some (buf', 0, 0) }
        else Some (buf, accumData', accumCount + 1)
      })"

definition qrcodegen_makeNumeric :: "bytes \<Rightarrow> bytes \<Rightarrow> qrcodegen_Segment option" where
  "qrcodegen_makeNumeric digits buf = do {
     bitLen \<leftarrow> calcSegmentBitLength Mode_NUMERIC (length digits);
     _ \<leftarrow> asserting (bitLen \<noteq> -1);
     buf0 \<leftarrow> (if 0 < bitLen then clear ((bitLen + 7) div 8) buf else Some buf);
     (bb, accumData, accumCount) \<leftarrow> for_each numeric_turn digits ((buf0, 0), 0, 0);
     (buf', bitLength) \<leftarrow> (if 0 < accumCount then appendBitsToBuffer accumData (accumCount * 3 + 1) bb else Some bb);
     _ \<leftarrow> asserting (int bitLength = bitLen);
     Some \<lparr>seg_mode = Mode_NUMERIC, seg_numChars = int (length digits), seg_data = buf', seg_bitLength = int bitLength\<rparr>
   }"

definition alphanumeric_turn :: "u8 \<Rightarrow> bit_buffer \<times> nat \<times> nat \<Rightarrow> (bit_buffer \<times> nat \<times> nat) option" where
  "alphanumeric_turn c s =
     (case s of (buf, accumData, accumCount) \<Rightarrow> do {
        temp \<leftarrow> index_of c ALPHANUMERIC_CHARSET;
        let accumData' = accumData * 45 + temp;
        if accumCount + 1 = 2
        then do { buf' \<leftarrow> appendBitsToBuffer accumData' 11 buf; Some (buf', 0, 0) }
        else Some (buf, accumData', accumCount + 1)
      })"

definition qrcodegen_makeAlphanumeric :: "bytes \<Rightarrow> bytes \<Rightarrow> qrcodegen_Segment option" where
  "qrcodegen_makeAlphanumeric text buf = do {
     bitLen \<leftarrow> calcSegmentBitLength Mode_ALPHANUMERIC (length text);
     _ \<leftarrow> asserting (bitLen \<noteq> -1);
     buf0 \<leftarrow> (if 0 < bitLen then clear ((bitLen + 7) div 8) buf else Some buf);
     (bb, accumData, accumCount) \<leftarrow> for_each alphanumeric_turn text ((buf0, 0), 0, 0);
     (buf', bitLength) \<leftarrow> (if 0 < accumCount then appendBitsToBuffer accumData 6 bb else Some bb);
     _ \<leftarrow> asserting (int bitLength = bitLen);
     Some \<lparr>seg_mode = Mode_ALPHANUMERIC, seg_numChars = int (length text), seg_data = buf', seg_bitLength = int bitLength\<rparr>
   }"

definition eci_segment :: "bit_buffer \<Rightarrow> qrcodegen_Segment" where
  "eci_segment s = \<lparr>seg_mode = Mode_ECI, seg_numChars = 0, seg_data = fst s, seg_bitLength = int (snd s)\<rparr>"

definition qrcodegen_makeEci :: "int \<Rightarrow> bytes \<Rightarrow> qrcodegen_Segment option" where
  "qrcodegen_makeEci assignVal buf =
     (if assignVal < 0 then None
      else if assignVal < 2 ^ 7 then do {
        b \<leftarrow> clear 1 buf;
        map_option eci_segment (appendBitsToBuffer (nat assignVal) 8 (b, 0))
      }
      else if assignVal < 2 ^ 14 then do {
        b \<leftarrow> clear 2 buf;
        s \<leftarrow> appendBitsToBuffer 2 2 (b, 0);
        map_option eci_segment (appendBitsToBuffer (nat assignVal) 14 s)
      }
      else if assignVal < 1000000 then do {
        b \<leftarrow> clear 3 buf;
        s \<leftarrow> appendBitsToBuffer 6 3 (b, 0);
        s \<leftarrow> appendBitsToBuffer (drop_bit 10 (nat assignVal)) 11 s;
        map_option eci_segment (appendBitsToBuffer (nat assignVal AND 0x3FF) 10 s)
      }
      else None)"

definition qrcodegen_VERSION_MIN :: int where "qrcodegen_VERSION_MIN = 1"
definition qrcodegen_VERSION_MAX :: int where "qrcodegen_VERSION_MAX = 40"

definition numCharCountBits :: "qrcodegen_Mode \<Rightarrow> int \<Rightarrow> nat option" where
  "numCharCountBits mode version = do {
     _ \<leftarrow> asserting (qrcodegen_VERSION_MIN \<le> version \<and> version \<le> qrcodegen_VERSION_MAX);
     let i = nat ((version + 7) div 17);
     Some (case mode of
         Mode_NUMERIC \<Rightarrow> [10, 12, 14] ! i
       | Mode_ALPHANUMERIC \<Rightarrow> [9, 11, 13] ! i
       | Mode_BYTE \<Rightarrow> [8, 16, 16] ! i
       | Mode_KANJI \<Rightarrow> [8, 10, 12] ! i
       | Mode_ECI \<Rightarrow> 0)
   }"

fun total_bits_loop :: "qrcodegen_Segment list \<Rightarrow> int \<Rightarrow> int \<Rightarrow> int option" where
  "total_bits_loop [] version result = do {
     _ \<leftarrow> asserting (0 \<le> result \<and> result \<le> int INT16_MAX);
     Some result
   }"
| "total_bits_loop (seg # segs) version result = do {
     _ \<leftarrow> asserting (0 \<le> seg_numChars seg \<and> seg_numChars seg \<le> int INT16_MAX);
     _ \<leftarrow> asserting (0 \<le> seg_bitLength seg \<and> seg_bitLength seg \<le> int INT16_MAX);
     ccbits \<leftarrow> numCharCountBits (seg_mode seg) version;
     _ \<leftarrow> asserting (ccbits \<le> 16);
     if 2 ^ ccbits \<le> seg_numChars seg then Some (-1)
     else let result' = result + 4 + int ccbits + seg_bitLength seg
          in if int INT16_MAX < result' then Some (-1) else total_bits_loop segs version result'
   }"

definition getTotalBits :: "qrcodegen_Segment list \<Rightarrow> int \<Rightarrow> int option" where
  "getTotalBits segs version = total_bits_loop segs version 0"

section \<open>Effect of appending\<close>

lemma bit_mask: "bit (of_nat (push_bit m (of_bool x)) :: u8) j = (x \<and> j = m \<and> j < 8)"
  unfolding of_nat_push_bit by (cases x) (auto simp: bit_push_bit_iff bit_1_iff simp del: push_bit_of_1)

lemma buf_bit_update:
  assumes "l div 8 < length b"
  shows "buf_bit (b[l div 8 := b ! (l div 8) OR of_nat (push_bit (7 - l mod 8) (of_bool x))]) k =
    (buf_bit b k \<or> k = l \<and> x)"
proof -
  have "7 - k mod 8 = 7 - l mod 8 \<longleftrightarrow> k mod 8 = l mod 8"
    using mod_less_divisor [of 8 k] mod_less_divisor [of 8 l] by linarith
  moreover have "k div 8 = l div 8 \<and> k mod 8 = l mod 8 \<longleftrightarrow> k = l" by (metis div_mult_mod_eq)
  ultimately show ?thesis
    using assms by (auto simp: buf_bit_def nth_list_update bit_or_iff bit_mask simp del: of_nat_push_bit)
qed

lemma low_bit_nat: "drop_bit i val AND 1 = (of_bool (bit val i) :: nat)"
  by (simp add: and_one_eq bit_iff_odd_drop_bit mod_2_eq_odd)

lemma append_bit_ok:
  assumes "holds_bits n b bs" "length bs < 8 * n"
  shows "\<exists>b'. append_bit val i (b, length bs) = Some (b', length bs + 1) \<and> holds_bits n b' (bs @ [bit val i]) \<and> length b' = length b"
proof -
  let ?l = "length bs"
  let ?b = "b[?l div 8 := b ! (?l div 8) OR of_nat (push_bit (7 - ?l mod 8) (of_bool (bit val i)))]"
  have n: "n \<le> length b" and k: "\<And>k. k < 8 * n \<Longrightarrow> buf_bit b k = (k < ?l \<and> bs ! k)"
    using assms(1) by (auto simp: holds_bits_def)
  have l: "?l div 8 < length b" using assms(2) n by linarith
  have "append_bit val i (b, ?l) = Some (?b, ?l + 1)"
    unfolding append_bit_def prod.case low_bit_nat using l by (simp add: load_def store_def)
  moreover have "buf_bit ?b k = (k < ?l + 1 \<and> (bs @ [bit val i]) ! k)" if "k < 8 * n" for k
    unfolding buf_bit_update [OF l] k [OF that] by (auto simp: nth_append less_Suc_eq)
  ultimately show ?thesis using n assms(2) by (auto simp: holds_bits_def)
qed

lemma append_ok:
  assumes "holds_bits n b bs" "length bs + w \<le> 8 * n" "w \<le> 16" "val < 2 ^ w"
  shows "\<exists>b'. appendBitsToBuffer val w (b, length bs) = Some (b', length bs + w) \<and>
    holds_bits n b' (bs @ bits_of w val) \<and> length b' = length b"
proof -
  have "\<exists>s. for_each (append_bit val) (rev [0..<w]) (b, length bs) = Some s \<and>
      (\<lambda>js s. snd s = length bs + length js \<and> holds_bits n (fst s) (bs @ map (bit val) js) \<and> length (fst s) = length b) (rev [0..<w]) s"
  proof (rule for_each_inv, goal_cases)
    case 1
    then show ?case using assms(1) by simp
  next
    case (2 ys x zs t)
    from arg_cong [OF 2(1), of length] have "length ys < w" by simp
    then show ?case using 2(2) append_bit_ok [of n "fst t" "bs @ map (bit val) ys" val x] assms(2)
      by (cases t) fastforce
  qed
  moreover have "drop_bit w val = 0" using assms(4) by (simp add: drop_bit_eq_div)
  ultimately show ?thesis using assms(3) by (auto simp: appendBitsToBuffer_def bits_of_def)
qed

section \<open>The encodings and their readers\<close>

text \<open>Three digits in ten bits, two in seven, one in four.\<close>

fun numeric_bits :: "nat list \<Rightarrow> bool list" where
  "numeric_bits [] = []"
| "numeric_bits [a] = bits_of 4 a"
| "numeric_bits [a, b] = bits_of 7 (a * 10 + b)"
| "numeric_bits (a # b # c # ds) = bits_of 10 ((a * 10 + b) * 10 + c) @ numeric_bits ds"

fun read_numeric :: "nat \<Rightarrow> bool list \<Rightarrow> nat list" where
  "read_numeric 0 bs = []"
| "read_numeric (Suc 0) bs = [value_of (take 4 bs)]"
| "read_numeric (Suc (Suc 0)) bs = (let v = value_of (take 7 bs) in [v div 10, v mod 10])"
| "read_numeric (Suc (Suc (Suc n))) bs =
     (let v = value_of (take 10 bs) in v div 100 # v div 10 mod 10 # v mod 10 # read_numeric n (drop 10 bs))"

text \<open>Two characters in eleven bits, one in six.\<close>

fun alphanumeric_bits :: "nat list \<Rightarrow> bool list" where
  "alphanumeric_bits [] = []"
| "alphanumeric_bits [a] = bits_of 6 a"
| "alphanumeric_bits (a # b # cs) = bits_of 11 (a * 45 + b) @ alphanumeric_bits cs"

fun read_alphanumeric :: "nat \<Rightarrow> bool list \<Rightarrow> nat list" where
  "read_alphanumeric 0 bs = []"
| "read_alphanumeric (Suc 0) bs = [value_of (take 6 bs)]"
| "read_alphanumeric (Suc (Suc n)) bs =
     (let v = value_of (take 11 bs) in v div 45 # v mod 45 # read_alphanumeric n (drop 11 bs))"

definition byte_bits :: "bytes \<Rightarrow> bool list" where
  "byte_bits bs = concat (map (\<lambda>b. bits_of 8 (unat b)) bs)"

fun read_bytes :: "nat \<Rightarrow> bool list \<Rightarrow> bytes" where
  "read_bytes 0 bs = []"
| "read_bytes (Suc n) bs = of_nat (value_of (take 8 bs)) # read_bytes n (drop 8 bs)"

lemma three_digits:
  assumes "a < 10" "b < 10" "c < (10 :: nat)"
  shows "((a * 10 + b) * 10 + c) div 100 = a" "((a * 10 + b) * 10 + c) div 10 mod 10 = b" "((a * 10 + b) * 10 + c) mod 10 = c"
proof -
  show "((a * 10 + b) * 10 + c) div 100 = a" by (rule div_nat_eqI) (use assms in auto)
  have "((a * 10 + b) * 10 + c) div 10 = a * 10 + b" by (rule div_nat_eqI) (use assms in auto)
  then show "((a * 10 + b) * 10 + c) div 10 mod 10 = b" using assms by simp
  show "((a * 10 + b) * 10 + c) mod 10 = c" using assms by (simp only: mod_mult_self3) simp
qed

lemma read_numeric_bits:
  "\<forall>d \<in> set ds. d < 10 \<Longrightarrow> read_numeric (length ds) (numeric_bits ds @ rest) = ds"
proof (induction ds rule: numeric_bits.induct)
  case (4 a b c ds)
  then have "value_of (bits_of 10 ((a * 10 + b) * 10 + c)) = (a * 10 + b) * 10 + c"
    by (intro value_of_bits_of) auto
  with 4 show ?case using three_digits [of a b c] by (simp add: Let_def)
qed (auto simp: value_of_bits_of Let_def)

lemma read_alphanumeric_bits:
  "\<forall>d \<in> set ds. d < 45 \<Longrightarrow> read_alphanumeric (length ds) (alphanumeric_bits ds @ rest) = ds"
proof (induction ds rule: alphanumeric_bits.induct)
  case (3 a b cs)
  then have "value_of (bits_of 11 (a * 45 + b)) = a * 45 + b" by (intro value_of_bits_of) auto
  with 3 show ?case by (simp add: Let_def)
qed (auto simp: value_of_bits_of)

lemma value_of_byte: "value_of (bits_of 8 (unat (b :: u8))) = unat b"
  using unsigned_less [of b, where ?'a = nat] by (intro value_of_bits_of) simp

lemma read_bytes_bits: "read_bytes (length bs) (byte_bits bs @ rest) = bs"
  by (induction bs) (simp_all add: byte_bits_def value_of_byte)

lemma length_numeric_bits: "length (numeric_bits ds) = (length ds * 10 + 2) div 3"
  by (induction ds rule: numeric_bits.induct) auto

lemma length_alphanumeric_bits: "length (alphanumeric_bits ds) = (length ds * 11 + 1) div 2"
  by (induction ds rule: alphanumeric_bits.induct) auto

lemma length_byte_bits: "length (byte_bits bs) = 8 * length bs"
  by (induction bs) (simp_all add: byte_bits_def)

text \<open>Characters as numbers, and back.\<close>

definition digit_values :: "bytes \<Rightarrow> nat list" where
  "digit_values text = map (\<lambda>c. unat c - 48) text"

definition char_values :: "bytes \<Rightarrow> nat list" where
  "char_values text = map (\<lambda>c. the (index_of c ALPHANUMERIC_CHARSET)) text"

definition digit_char :: "nat \<Rightarrow> u8" where
  "digit_char d = of_nat (d + 48)"

definition charset_char :: "nat \<Rightarrow> u8" where
  "charset_char i = of_char (ALPHANUMERIC_CHARSET ! i)"

lemma index_of_nth: "index_of c cs = Some i \<Longrightarrow> i < length cs \<and> of_char (cs ! i) = c"
  by (induction cs arbitrary: i) (auto split: if_splits)

lemma digit_values_less: "qrcodegen_isNumeric text \<Longrightarrow> \<forall>d \<in> set (digit_values text). d < 10"
  by (auto simp: qrcodegen_isNumeric_def digit_values_def list_all_iff word_less_nat_alt not_less)

lemma digit_chars: "qrcodegen_isNumeric text \<Longrightarrow> map digit_char (digit_values text) = text"
  by (auto simp: qrcodegen_isNumeric_def digit_values_def digit_char_def list_all_iff word_less_nat_alt not_less intro!: map_idI)

lemma index_of_the: "index_of c cs \<noteq> None \<Longrightarrow> the (index_of c cs) < length cs \<and> of_char (cs ! the (index_of c cs)) = c"
  using index_of_nth [of c cs] by auto

lemma length_charset: "length ALPHANUMERIC_CHARSET = 45"
  by (simp add: ALPHANUMERIC_CHARSET_def)

lemma char_values_less: "qrcodegen_isAlphanumeric text \<Longrightarrow> \<forall>d \<in> set (char_values text). d < 45"
  using index_of_the length_charset by (fastforce simp: qrcodegen_isAlphanumeric_def char_values_def list_all_iff)

lemma charset_chars: "qrcodegen_isAlphanumeric text \<Longrightarrow> map charset_char (char_values text) = text"
  using index_of_the
  by (fastforce simp: qrcodegen_isAlphanumeric_def char_values_def charset_char_def list_all_iff intro!: map_idI)

section \<open>The loops compute the encodings\<close>

lemma list_induct_three:
  assumes "P []" "\<And>a. P [a]" "\<And>a b. P [a, b]" "\<And>a b c xs. P xs \<Longrightarrow> P (a # b # c # xs)"
  shows "P xs"
proof (induction xs rule: length_induct)
  case (1 xs)
  consider "xs = []" | a where "xs = [a]" | a b where "xs = [a, b]" | a b c ys where "xs = a # b # c # ys"
    by (metis list.exhaust)
  then show ?case using assms 1 by cases auto
qed

definition numeric_finish :: "bit_buffer \<times> nat \<times> nat \<Rightarrow> bit_buffer option" where
  "numeric_finish s =
     (case s of (bb, accumData, accumCount) \<Rightarrow>
        if 0 < accumCount then appendBitsToBuffer accumData (accumCount * 3 + 1) bb else Some bb)"

lemma numeric_loop:
  assumes "holds_bits n b bs" "qrcodegen_isNumeric ds" "length bs + length (numeric_bits (digit_values ds)) \<le> 8 * n"
  shows "\<exists>b'. Option.bind (for_each numeric_turn ds ((b, length bs), 0, 0)) numeric_finish =
      Some (b', length (bs @ numeric_bits (digit_values ds))) \<and>
    holds_bits n b' (bs @ numeric_bits (digit_values ds)) \<and> length b' = length b"
  using assms
proof (induction ds arbitrary: b bs rule: list_induct_three)
  case 1
  then show ?case by (simp add: numeric_finish_def digit_values_def)
next
  case (2 a)
  then have "48 \<le> a" "a \<le> 57" "unat a - 48 < 2 ^ 4" "unat a - 48 < 10"
    by (auto simp: qrcodegen_isNumeric_def not_less word_le_nat_alt)
  then show ?case using 2 append_ok [of n b bs 4 "unat a - 48"]
    by (auto simp: numeric_finish_def numeric_turn_def digit_values_def)
next
  case (3 a c)
  then have ac: "48 \<le> a" "a \<le> 57" "48 \<le> c" "c \<le> 57"
    by (auto simp: qrcodegen_isNumeric_def not_less)
  then have "(unat a - 48) * 10 + (unat c - 48) < 2 ^ 7" by (auto simp: word_le_nat_alt)
  then show ?case using 3 ac append_ok [of n b bs 7 "(unat a - 48) * 10 + (unat c - 48)"]
    by (auto simp: numeric_finish_def numeric_turn_def digit_values_def)
next
  case (4 a c d ds)
  let ?v = "((unat a - 48) * 10 + (unat c - 48)) * 10 + (unat d - 48)"
  from 4 have acd: "48 \<le> a" "a \<le> 57" "48 \<le> c" "c \<le> 57" "48 \<le> d" "d \<le> 57" and num: "qrcodegen_isNumeric ds"
    by (auto simp: qrcodegen_isNumeric_def not_less)
  then have v: "?v < 2 ^ 10" by (auto simp: word_le_nat_alt)
  obtain b' where b': "appendBitsToBuffer ?v 10 (b, length bs) = Some (b', length bs + 10)"
      "holds_bits n b' (bs @ bits_of 10 ?v)" "length b' = length b"
    using append_ok [OF 4(2) _ _ v] 4(4) by (auto simp: digit_values_def)
  have "for_each numeric_turn (a # c # d # ds) ((b, length bs), 0, 0) =
      for_each numeric_turn ds ((b', length (bs @ bits_of 10 ?v)), 0, 0)"
    using acd b'(1) by (simp add: numeric_turn_def)
  then show ?case using 4(1) [OF b'(2) num] 4(4) b'(3) by (simp add: digit_values_def)
qed

definition alphanumeric_finish :: "bit_buffer \<times> nat \<times> nat \<Rightarrow> bit_buffer option" where
  "alphanumeric_finish s =
     (case s of (bb, accumData, accumCount) \<Rightarrow> if 0 < accumCount then appendBitsToBuffer accumData 6 bb else Some bb)"

lemma alphanumeric_loop:
  assumes "holds_bits n b bs" "qrcodegen_isAlphanumeric cs" "length bs + length (alphanumeric_bits (char_values cs)) \<le> 8 * n"
  shows "\<exists>b'. Option.bind (for_each alphanumeric_turn cs ((b, length bs), 0, 0)) alphanumeric_finish =
      Some (b', length (bs @ alphanumeric_bits (char_values cs))) \<and>
    holds_bits n b' (bs @ alphanumeric_bits (char_values cs)) \<and> length b' = length b"
  using assms
proof (induction cs arbitrary: b bs rule: induct_list012)
  case 1
  then show ?case by (simp add: alphanumeric_finish_def char_values_def)
next
  case (2 a)
  then obtain i where i: "index_of a ALPHANUMERIC_CHARSET = Some i" "i < 45"
    using index_of_nth length_charset by (fastforce simp: qrcodegen_isAlphanumeric_def)
  then show ?case using 2 append_ok [of n b bs 6 i]
    by (auto simp: alphanumeric_finish_def alphanumeric_turn_def char_values_def)
next
  case (3 a c cs)
  then obtain i j where i: "index_of a ALPHANUMERIC_CHARSET = Some i" "i < 45"
      "index_of c ALPHANUMERIC_CHARSET = Some j" "j < 45" and cs: "qrcodegen_isAlphanumeric cs"
    using index_of_nth length_charset by (fastforce simp: qrcodegen_isAlphanumeric_def)
  let ?v = "i * 45 + j"
  have v: "?v < 2 ^ 11" using i by simp
  obtain b' where b': "appendBitsToBuffer ?v 11 (b, length bs) = Some (b', length bs + 11)"
      "holds_bits n b' (bs @ bits_of 11 ?v)" "length b' = length b"
    using append_ok [OF 3(3) _ _ v] 3(5) i by (auto simp: char_values_def)
  have "for_each alphanumeric_turn (a # c # cs) ((b, length bs), 0, 0) =
      for_each alphanumeric_turn cs ((b', length (bs @ bits_of 11 ?v)), 0, 0)"
    using i b'(1) by (simp add: alphanumeric_turn_def)
  then show ?case using 3(1) [OF b'(2) cs] 3(5) b'(3) i by (simp add: char_values_def)
qed

section \<open>The segments built\<close>

text \<open>What a segment has to satisfy: its first bits are \<open>bs\<close>.\<close>

definition seg_holds :: "qrcodegen_Segment \<Rightarrow> bool list \<Rightarrow> bool" where
  "seg_holds seg bs =
     (seg_bitLength seg = int (length bs) \<and> length bs \<le> 8 * length (seg_data seg) \<and>
      (\<forall>k < length bs. buf_bit (seg_data seg) k = bs ! k))"

lemma holds_bits_seg:
  "holds_bits n b bs \<Longrightarrow> seg_bitLength seg = int (length bs) \<Longrightarrow> seg_data seg = b \<Longrightarrow> seg_holds seg bs"
  by (auto simp: holds_bits_def seg_holds_def)

lemma clear_seg_buffer:
  assumes "sz = (len + 7) div 8" "sz \<le> length buf"
  shows "\<exists>b. (if 0 < int len then clear ((int len + 7) div 8) buf else Some buf) = Some b \<and> holds_bits sz b [] \<and> length b = length buf"
proof (cases "len = 0")
  case True
  then show ?thesis using assms by (simp add: holds_bits_def)
next
  case False
  have "(int len + 7) div 8 = int sz" by (simp add: assms(1) zdiv_int)
  moreover obtain b where "clear (int sz) buf = Some b" "length b = length buf" using assms(2) by (auto simp: clear_def)
  ultimately show ?thesis using False holds_bits_clear by auto
qed

lemma buffer_size_bits:
  assumes "qrcodegen_calcSegmentBufferSize mode n = Some sz" "sz < SIZE_MAX"
  shows "\<exists>len. calcSegmentBitLength mode n = Some (int len) \<and> len \<le> INT16_MAX \<and> n \<le> INT16_MAX \<and> sz = (len + 7) div 8"
proof -
  obtain l where l: "calcSegmentBitLength mode n = Some l" "l \<noteq> -1" "0 \<le> l" "l \<le> int INT16_MAX" "sz = (nat l + 7) div 8"
    using assms by (auto simp: qrcodegen_calcSegmentBufferSize_def bind_eq_Some_conv split: if_splits)
  then show ?thesis by (intro exI [of _ "nat l"]) (auto simp: calcSegmentBitLength_def split: if_splits)
qed

lemma makeNumeric_ok:
  assumes "qrcodegen_isNumeric ds" "qrcodegen_calcSegmentBufferSize Mode_NUMERIC (length ds) = Some sz" "sz \<le> length buf"
    and "sz < SIZE_MAX"
  shows "\<exists>seg. qrcodegen_makeNumeric ds buf = Some seg \<and> seg_mode seg = Mode_NUMERIC \<and> seg_numChars seg = int (length ds) \<and>
    length ds \<le> INT16_MAX \<and> seg_holds seg (numeric_bits (digit_values ds)) \<and> length (numeric_bits (digit_values ds)) \<le> INT16_MAX \<and>
    length (seg_data seg) = length buf"
proof -
  let ?bs = "numeric_bits (digit_values ds)"
  have len: "calcSegmentBitLength Mode_NUMERIC (length ds) = Some (int (length ?bs))" "length ds \<le> INT16_MAX"
      "length ?bs \<le> INT16_MAX" "sz = (length ?bs + 7) div 8"
    using buffer_size_bits [OF assms(2,4)]
    by (auto simp: calcSegmentBitLength_def length_numeric_bits digit_values_def split: if_splits)
  obtain b where b: "(if 0 < int (length ?bs) then clear ((int (length ?bs) + 7) div 8) buf else Some buf) = Some b" "holds_bits sz b []"
      "length b = length buf"
    using clear_seg_buffer [OF len(4) assms(3)] by blast
  have room: "length ?bs \<le> 8 * sz" unfolding len(4) by linarith
  obtain b' where b': "Option.bind (for_each numeric_turn ds ((b, 0), 0, 0)) numeric_finish = Some (b', length ?bs)" "holds_bits sz b' ?bs"
      "length b' = length b"
    using numeric_loop [OF b(2) assms(1)] room by auto
  then obtain bb acc cnt where t: "for_each numeric_turn ds ((b, 0), 0, 0) = Some (bb, acc, cnt)"
    by (auto simp: bind_eq_Some_conv)
  have "qrcodegen_makeNumeric ds buf = Some \<lparr>seg_mode = Mode_NUMERIC, seg_numChars = int (length ds), seg_data = b', seg_bitLength = int (length ?bs)\<rparr>"
    unfolding qrcodegen_makeNumeric_def len(1) bind.simps b(1) t prod.case using b'(1)
    by (simp add: t numeric_finish_def)
  then show ?thesis using len b'(2,3) b(3) by (auto intro: holds_bits_seg)
qed

lemma makeAlphanumeric_ok:
  assumes "qrcodegen_isAlphanumeric cs" "qrcodegen_calcSegmentBufferSize Mode_ALPHANUMERIC (length cs) = Some sz" "sz \<le> length buf"
    and "sz < SIZE_MAX"
  shows "\<exists>seg. qrcodegen_makeAlphanumeric cs buf = Some seg \<and> seg_mode seg = Mode_ALPHANUMERIC \<and> seg_numChars seg = int (length cs) \<and>
    length cs \<le> INT16_MAX \<and> seg_holds seg (alphanumeric_bits (char_values cs)) \<and> length (alphanumeric_bits (char_values cs)) \<le> INT16_MAX \<and>
    length (seg_data seg) = length buf"
proof -
  let ?bs = "alphanumeric_bits (char_values cs)"
  have len: "calcSegmentBitLength Mode_ALPHANUMERIC (length cs) = Some (int (length ?bs))" "length cs \<le> INT16_MAX"
      "length ?bs \<le> INT16_MAX" "sz = (length ?bs + 7) div 8"
    using buffer_size_bits [OF assms(2,4)]
    by (auto simp: calcSegmentBitLength_def length_alphanumeric_bits char_values_def split: if_splits)
  obtain b where b: "(if 0 < int (length ?bs) then clear ((int (length ?bs) + 7) div 8) buf else Some buf) = Some b" "holds_bits sz b []"
      "length b = length buf"
    using clear_seg_buffer [OF len(4) assms(3)] by blast
  have room: "length ?bs \<le> 8 * sz" unfolding len(4) by linarith
  obtain b' where b': "Option.bind (for_each alphanumeric_turn cs ((b, 0), 0, 0)) alphanumeric_finish = Some (b', length ?bs)" "holds_bits sz b' ?bs"
      "length b' = length b"
    using alphanumeric_loop [OF b(2) assms(1)] room by auto
  then obtain bb acc cnt where t: "for_each alphanumeric_turn cs ((b, 0), 0, 0) = Some (bb, acc, cnt)"
    by (auto simp: bind_eq_Some_conv)
  have "qrcodegen_makeAlphanumeric cs buf = Some \<lparr>seg_mode = Mode_ALPHANUMERIC, seg_numChars = int (length cs), seg_data = b', seg_bitLength = int (length ?bs)\<rparr>"
    unfolding qrcodegen_makeAlphanumeric_def len(1) bind.simps b(1) t prod.case using b'(1)
    by (simp add: t alphanumeric_finish_def)
  then show ?thesis using len b'(2,3) b(3) by (auto intro: holds_bits_seg)
qed

lemma buf_bit_byte_bits:
  "k < 8 * length bs \<Longrightarrow> buf_bit (bs @ rest) k = byte_bits bs ! k"
proof (induction bs arbitrary: k)
  case (Cons b bs)
  show ?case
  proof (cases "k < 8")
    case True
    then show ?thesis by (auto simp: buf_bit_def byte_bits_def nth_append bits_of_def rev_nth bit_unsigned_iff)
  next
    case False
    then obtain j where j: "k = j + 8" by (metis add.commute le_Suc_ex not_less)
    then have "(j + 8) div 8 = Suc (j div 8)" by simp
    then show ?thesis using Cons j by (simp add: buf_bit_def byte_bits_def nth_append)
  qed
qed simp

lemma makeBytes_ok:
  assumes "8 * length data \<le> INT16_MAX" "length data \<le> length buf"
  shows "\<exists>seg. qrcodegen_makeBytes data buf = Some seg \<and> seg_mode seg = Mode_BYTE \<and> seg_numChars seg = int (length data) \<and>
    seg_holds seg (byte_bits data)"
  using assms by (auto simp: qrcodegen_makeBytes_def calcSegmentBitLength_def seg_holds_def length_byte_bits buf_bit_byte_bits)

end
