(* ===== verification/Qr_Grid.thy ===== *)
theory Qr_Grid
  imports Qr_Bits
begin

text \<open>
  The module grid of a QR Code: byte 0 holds the side length, the other bytes the modules row by row.  An operation on
  the grid is specified by its effect on the modules inside (\<open>paints\<close>): it succeeds, keeps the size and changes the
  modules by a function.
\<close>

section \<open>Modules\<close>

definition getBit :: "int \<Rightarrow> nat \<Rightarrow> bool" where
  "getBit x i = ((drop_bit i x AND 1) \<noteq> 0)"

text \<open>\<open>index >> 3\<close> and \<open>index & 7\<close> of a non-negative index are its quotient and remainder.\<close>

definition getModule :: "bytes \<Rightarrow> int \<Rightarrow> int \<Rightarrow> bool option" where
  "getModule qrcode x y = do {
     b0 \<leftarrow> load qrcode 0;
     let qrsize = uint b0;
     _ \<leftarrow> asserting (21 \<le> qrsize \<and> qrsize \<le> 177 \<and> 0 \<le> x \<and> x < qrsize \<and> 0 \<le> y \<and> y < qrsize);
     let index = y * qrsize + x;
     b \<leftarrow> load qrcode (index div 8 + 1);
     Some (getBit (uint b) (nat (index mod 8)))
   }"

definition setModule :: "int \<Rightarrow> int \<Rightarrow> bool \<Rightarrow> bytes \<Rightarrow> bytes option" where
  "setModule x y isBlack qrcode = do {
     b0 \<leftarrow> load qrcode 0;
     let qrsize = uint b0;
     _ \<leftarrow> asserting (21 \<le> qrsize \<and> qrsize \<le> 177 \<and> 0 \<le> x \<and> x < qrsize \<and> 0 \<le> y \<and> y < qrsize);
     let index = y * qrsize + x;
     let bitIndex = nat (index mod 8);
     let byteIndex = index div 8 + 1;
     b \<leftarrow> load qrcode byteIndex;
     store byteIndex (if isBlack then b OR push_bit bitIndex 1 else b AND (push_bit bitIndex 1 XOR 0xFF)) qrcode
   }"

definition setModuleBounded :: "int \<Rightarrow> int \<Rightarrow> bool \<Rightarrow> bytes \<Rightarrow> bytes option" where
  "setModuleBounded x y isBlack qrcode = do {
     b0 \<leftarrow> load qrcode 0;
     let qrsize = uint b0;
     if 0 \<le> x \<and> x < qrsize \<and> 0 \<le> y \<and> y < qrsize then setModule x y isBlack qrcode else Some qrcode
   }"

definition qrcodegen_getSize :: "bytes \<Rightarrow> int option" where
  "qrcodegen_getSize qrcode = do {
     b0 \<leftarrow> load qrcode 0;
     let result = uint b0;
     _ \<leftarrow> asserting (qrcodegen_VERSION_MIN * 4 + 17 \<le> result \<and> result \<le> qrcodegen_VERSION_MAX * 4 + 17);
     Some result
   }"

definition qrcodegen_getModule :: "bytes \<Rightarrow> int \<Rightarrow> int \<Rightarrow> bool option" where
  "qrcodegen_getModule qrcode x y = do {
     b0 \<leftarrow> load qrcode 0;
     let qrsize = uint b0;
     if 0 \<le> x \<and> x < qrsize \<and> 0 \<le> y \<and> y < qrsize then getModule qrcode x y else Some False
   }"

definition fillRectangle :: "int \<Rightarrow> int \<Rightarrow> int \<Rightarrow> int \<Rightarrow> bytes \<Rightarrow> bytes option" where
  "fillRectangle left upper width height =
     for_each (\<lambda>dy. for_each (\<lambda>dx. setModule (left + dx) (upper + dy) True) [0..width - 1]) [0..height - 1]"

section \<open>The grid behind the bytes\<close>

definition wf_grid :: "int \<Rightarrow> bytes \<Rightarrow> bool" where
  "wf_grid n q = (21 \<le> n \<and> n \<le> 177 \<and> q \<noteq> [] \<and> uint (q ! 0) = n \<and> (n * n + 7) div 8 + 1 \<le> int (length q))"

definition module_at :: "int \<Rightarrow> bytes \<Rightarrow> int \<Rightarrow> int \<Rightarrow> bool" where
  "module_at n q x y = bit (q ! nat ((y * n + x) div 8 + 1)) (nat ((y * n + x) mod 8))"

definition cells :: "int \<Rightarrow> (int \<times> int) set" where
  "cells n = {0..<n} \<times> {0..<n}"

lemma cell_index:
  assumes "(x, y) \<in> cells n"
  shows "0 \<le> y * n + x" "y * n + x < n * n"
proof -
  from assms have a: "0 \<le> x" "x < n" "0 \<le> y" "y \<le> n - 1" by (auto simp: cells_def)
  then show "0 \<le> y * n + x" by simp
  have "y * n \<le> (n - 1) * n" using a by (intro mult_right_mono) auto
  then show "y * n + x < n * n" using a by (simp add: algebra_simps)
qed

lemma cell_index_eq:
  assumes "(x, y) \<in> cells n" "(x', y') \<in> cells n" "y * n + x = y' * n + x'"
  shows "x = x' \<and> y = y'"
proof -
  have "0 \<le> x" "x < n" "0 \<le> x'" "x' < n" using assms by (auto simp: cells_def)
  then have "(y * n + x) div n = y" "(y' * n + x') div n = y'" by (simp_all add: div_add1_eq)
  then show ?thesis using assms(3) by simp
qed

lemma cell_byte:
  assumes "wf_grid n q" "(x, y) \<in> cells n"
  shows "0 \<le> (y * n + x) div 8" "nat ((y * n + x) div 8 + 1) < length q"
proof -
  show a: "0 \<le> (y * n + x) div 8" using cell_index [OF assms(2)] by simp
  have "(y * n + x) div 8 < (n * n + 7) div 8" using cell_index [OF assms(2)] by linarith
  then show "nat ((y * n + x) div 8 + 1) < length q" using assms(1) a by (auto simp: wf_grid_def)
qed

lemma getBit_uint: "getBit (uint (b :: u8)) i = bit b i"
  by (auto simp: getBit_def and_one_eq bit_iff_odd_drop_bit [symmetric] mod_2_eq_odd bit_unsigned_iff)

lemma load_size: "wf_grid n q \<Longrightarrow> load q 0 = Some (q ! 0) \<and> uint (q ! 0) = n"
  by (simp add: wf_grid_def load_def)

lemma getModule_ok:
  assumes "wf_grid n q" "(x, y) \<in> cells n"
  shows "getModule q x y = Some (module_at n q x y)"
  using assms cell_byte [OF assms] load_size [OF assms(1)]
  by (auto simp: getModule_def Let_def load_def [of _ "_ + 1"] module_at_def wf_grid_def cells_def getBit_uint)

lemma qrcodegen_getModule_ok:
  assumes "wf_grid n q"
  shows "qrcodegen_getModule q x y = Some ((x, y) \<in> cells n \<and> module_at n q x y)"
  using assms load_size [OF assms] getModule_ok [OF assms, of x y] by (auto simp: qrcodegen_getModule_def cells_def)

lemma getSize_ok: "wf_grid n q \<Longrightarrow> qrcodegen_getSize q = Some n"
  using load_size [of n q] by (auto simp: qrcodegen_getSize_def wf_grid_def qrcodegen_VERSION_MIN_def qrcodegen_VERSION_MAX_def)

lemma bit_set_byte:
  assumes "j < 8" "i < 8"
  shows "bit (if c then b OR push_bit i 1 else b AND (push_bit i 1 XOR 0xFF) :: u8) j = (if j = i then c else bit b j)"
proof -
  have "bit (push_bit i 1 :: u8) j = (j = i)" using assms by (auto simp: bit_push_bit_iff bit_1_iff simp del: push_bit_of_1)
  moreover have "bit (0xFF :: u8) j"
  proof -
    have "(0xFF :: u8) = mask 8" by (simp add: mask_eq_exp_minus_1)
    then show ?thesis using assms by (simp only: bit_mask_iff) simp
  qed
  ultimately show ?thesis by (auto simp: bit_or_iff bit_and_iff bit_xor_iff)
qed

lemma div_mod_8_eq:
  fixes a b :: int
  assumes "0 \<le> a div 8" "0 \<le> b div 8" "nat (a div 8 + 1) = nat (b div 8 + 1)" "nat (a mod 8) = nat (b mod 8)"
  shows "a = b"
proof -
  have "a div 8 = b div 8" using assms(1-3) by linarith
  moreover have "a mod 8 = b mod 8" using assms(4) by (simp add: eq_nat_nat_iff)
  ultimately show ?thesis by (metis div_mult_mod_eq)
qed

lemma setModule_ok:
  assumes "wf_grid n q" "(x, y) \<in> cells n"
  shows "\<exists>q'. setModule x y c q = Some q' \<and> wf_grid n q' \<and> length q' = length q \<and>
    (\<forall>x' y'. (x', y') \<in> cells n \<longrightarrow> module_at n q' x' y' = (if (x', y') = (x, y) then c else module_at n q x' y'))"
proof -
  let ?k = "nat ((y * n + x) div 8 + 1)" and ?i = "nat ((y * n + x) mod 8)"
  let ?v = "if c then q ! ?k OR push_bit ?i 1 else q ! ?k AND (push_bit ?i 1 XOR 0xFF)"
  have k: "0 \<le> (y * n + x) div 8" "?k < length q" using cell_byte [OF assms] by auto
  have "setModule x y c q = Some (q[?k := ?v])"
    using assms k load_size [OF assms(1)]
    by (auto simp: setModule_def Let_def load_def [of _ "_ + 1"] store_def wf_grid_def cells_def)
  moreover have "wf_grid n (q[?k := ?v])"
  proof -
    have "?k \<noteq> 0" using k by simp
    then have "q[?k := ?v] ! 0 = q ! 0" by (simp add: nth_list_update)
    then show ?thesis using assms(1) by (simp add: wf_grid_def)
  qed
  moreover have "module_at n (q[?k := ?v]) x' y' = (if (x', y') = (x, y) then c else module_at n q x' y')"
    if "(x', y') \<in> cells n" for x' y'
  proof -
    let ?k' = "nat ((y' * n + x') div 8 + 1)" and ?i' = "nat ((y' * n + x') mod 8)"
    have same: "?k' = ?k \<and> ?i' = ?i \<longleftrightarrow> (x', y') = (x, y)"
    proof
      assume a: "?k' = ?k \<and> ?i' = ?i"
      have "0 \<le> (y' * n + x') div 8" using cell_byte [OF assms(1) that] by simp
      with a k have "y' * n + x' = y * n + x" by (intro div_mod_8_eq) auto
      with cell_index_eq [OF that assms(2)] show "(x', y') = (x, y)" by simp
    qed simp
    have i: "?i' < 8" "?i < 8" by (simp_all add: nat_less_iff)
    show ?thesis
    proof (cases "?k' = ?k")
      case True
      then have "module_at n (q[?k := ?v]) x' y' = bit ?v ?i'" using k(2) by (simp add: module_at_def)
      also have "\<dots> = (if ?i' = ?i then c else bit (q ! ?k) ?i')" using i by (rule bit_set_byte)
      finally show ?thesis using True same by (auto simp: module_at_def)
    next
      case False
      then show ?thesis using same by (auto simp: module_at_def)
    qed
  qed
  ultimately show ?thesis by simp
qed

section \<open>Contracts of drawing operations\<close>

text \<open>\<open>f\<close> succeeds, keeps the grid and changes each module by \<open>h\<close>.\<close>

definition paints :: "int \<Rightarrow> (int \<Rightarrow> int \<Rightarrow> bool \<Rightarrow> bool) \<Rightarrow> (bytes \<Rightarrow> bytes option) \<Rightarrow> bool" where
  "paints n h f =
     (\<forall>q. wf_grid n q \<longrightarrow> (\<exists>q'. f q = Some q' \<and> wf_grid n q' \<and> length q' = length q \<and>
        (\<forall>x y. (x, y) \<in> cells n \<longrightarrow> module_at n q' x y = h x y (module_at n q x y))))"

text \<open>\<open>f\<close> blackens exactly \<open>R\<close>; \<open>f\<close> changes nothing outside \<open>S\<close>.\<close>

definition fills :: "int \<Rightarrow> (int \<times> int) set \<Rightarrow> (bytes \<Rightarrow> bytes option) \<Rightarrow> bool" where
  "fills n R f = paints n (\<lambda>x y m. m \<or> (x, y) \<in> R) f"

definition touches :: "int \<Rightarrow> (int \<times> int) set \<Rightarrow> (bytes \<Rightarrow> bytes option) \<Rightarrow> bool" where
  "touches n S f =
     (\<forall>q. wf_grid n q \<longrightarrow> (\<exists>q'. f q = Some q' \<and> wf_grid n q' \<and> length q' = length q \<and>
        (\<forall>x y. (x, y) \<in> cells n \<longrightarrow> (x, y) \<notin> S \<longrightarrow> module_at n q' x y = module_at n q x y)))"

lemma paintsD:
  assumes "paints n h f" "wf_grid n q"
  obtains q' where "f q = Some q'" "wf_grid n q'" "length q' = length q"
    "\<And>x y. (x, y) \<in> cells n \<Longrightarrow> module_at n q' x y = h x y (module_at n q x y)"
  using assms by (auto simp: paints_def)

lemma touchesD:
  assumes "touches n S f" "wf_grid n q"
  obtains q' where "f q = Some q'" "wf_grid n q'" "length q' = length q"
    "\<And>x y. (x, y) \<in> cells n \<Longrightarrow> (x, y) \<notin> S \<Longrightarrow> module_at n q' x y = module_at n q x y"
  using assms by (auto simp: touches_def)

lemma paints_setModule:
  "(x, y) \<in> cells n \<Longrightarrow> paints n (\<lambda>x' y' m. if (x', y') = (x, y) then c else m) (setModule x y c)"
  using setModule_ok [of n _ x y c] by (simp add: paints_def)

lemma paints_seq:
  assumes "paints n h f" "paints n k g"
  shows "paints n (\<lambda>x y m. k x y (h x y m)) (\<lambda>q. Option.bind (f q) g)"
  unfolding paints_def
proof (intro allI impI)
  fix q assume "wf_grid n q"
  with assms(1) obtain q1 where 1: "f q = Some q1" "wf_grid n q1" "length q1 = length q"
    "\<And>x y. (x, y) \<in> cells n \<Longrightarrow> module_at n q1 x y = h x y (module_at n q x y)" by (rule paintsD) blast
  from assms(2) 1(2) obtain q2 where "g q1 = Some q2" "wf_grid n q2" "length q2 = length q1"
    "\<And>x y. (x, y) \<in> cells n \<Longrightarrow> module_at n q2 x y = k x y (module_at n q1 x y)" by (rule paintsD) blast
  with 1 show "\<exists>q'. Option.bind (f q) g = Some q' \<and> wf_grid n q' \<and> length q' = length q \<and>
      (\<forall>x y. (x, y) \<in> cells n \<longrightarrow> module_at n q' x y = k x y (h x y (module_at n q x y)))" by auto
qed

lemma paints_cong:
  "paints n h f \<Longrightarrow> (\<And>x y m. (x, y) \<in> cells n \<Longrightarrow> h x y m = k x y m) \<Longrightarrow> paints n k f"
  by (auto simp: paints_def)

lemma paints_Some: "paints n (\<lambda>x y m. m) Some"
  by (simp add: paints_def)

lemma touches_paints: "paints n h f \<Longrightarrow> (\<And>x y m. (x, y) \<in> cells n \<Longrightarrow> (x, y) \<notin> S \<Longrightarrow> h x y m = m) \<Longrightarrow> touches n S f"
  by (fastforce simp: paints_def touches_def)

lemma fills_setModule: "(x, y) \<in> cells n \<Longrightarrow> fills n {(x, y)} (setModule x y True)"
  unfolding fills_def by (rule paints_cong [OF paints_setModule]) auto

lemma fills_seq: "fills n R f \<Longrightarrow> fills n Q g \<Longrightarrow> fills n (R \<union> Q) (\<lambda>q. Option.bind (f q) g)"
  unfolding fills_def by (drule (1) paints_seq) (auto elim!: paints_cong)

lemma fills_Some: "fills n {} Some"
  unfolding fills_def by (rule paints_cong [OF paints_Some]) simp

lemma fills_for_each: "(\<And>a. a \<in> set xs \<Longrightarrow> fills n (R a) (f a)) \<Longrightarrow> fills n (\<Union>a \<in> set xs. R a) (for_each f xs)"
proof (induction xs)
  case Nil
  have "for_each f [] = Some" by (simp add: fun_eq_iff)
  then show ?case using fills_Some by simp
next
  case (Cons a xs)
  have "for_each f (a # xs) = (\<lambda>q. Option.bind (f a q) (for_each f xs))" by (simp add: fun_eq_iff)
  then show ?case using fills_seq [of n "R a" "f a"] Cons by simp
qed

lemma touches_setModule: "(x, y) \<in> cells n \<Longrightarrow> (x, y) \<in> S \<Longrightarrow> touches n S (setModule x y c)"
  by (rule touches_paints [OF paints_setModule]) auto

lemma touches_setModuleBounded: "(x, y) \<in> cells n \<longrightarrow> (x, y) \<in> S \<Longrightarrow> touches n S (setModuleBounded x y c)"
proof -
  assume S: "(x, y) \<in> cells n \<longrightarrow> (x, y) \<in> S"
  have "setModuleBounded x y c q = (if (x, y) \<in> cells n then setModule x y c q else Some q)" if "wf_grid n q" for q
    using load_size [OF that] by (simp add: setModuleBounded_def cells_def)
  then show ?thesis
    using S touches_setModule [of x y n S c] by (cases "(x, y) \<in> cells n") (simp_all add: touches_def)
qed

lemma touches_Some: "touches n S Some"
  by (simp add: touches_def)

lemma touches_seq: "touches n S f \<Longrightarrow> touches n S g \<Longrightarrow> touches n S (\<lambda>q. Option.bind (f q) g)"
  unfolding touches_def
proof (intro allI impI, goal_cases)
  case (1 q)
  then obtain q1 where q1: "f q = Some q1" "wf_grid n q1" "length q1 = length q"
    "\<forall>x y. (x, y) \<in> cells n \<longrightarrow> (x, y) \<notin> S \<longrightarrow> module_at n q1 x y = module_at n q x y" by blast
  moreover from 1 q1(2) obtain q2 where "g q1 = Some q2" "wf_grid n q2" "length q2 = length q1"
    "\<forall>x y. (x, y) \<in> cells n \<longrightarrow> (x, y) \<notin> S \<longrightarrow> module_at n q2 x y = module_at n q1 x y" by blast
  ultimately show ?case by auto
qed

lemma touches_for_each: "(\<And>a. a \<in> set xs \<Longrightarrow> touches n S (f a)) \<Longrightarrow> touches n S (for_each f xs)"
proof (induction xs)
  case Nil
  have "for_each f [] = Some" by (simp add: fun_eq_iff)
  then show ?case using touches_Some by simp
next
  case (Cons a xs)
  have "for_each f (a # xs) = (\<lambda>q. Option.bind (f a q) (for_each f xs))" by (simp add: fun_eq_iff)
  then show ?case using touches_seq [of n S "f a"] Cons by simp
qed

text \<open>A loop that visits cells once each and changes only the cell it visits.\<close>

lemma paints_cells:
  assumes "\<And>c. c \<in> set cs \<Longrightarrow> paints n (\<lambda>x y m. if (x, y) = c then g c m else m) (f c)" "distinct cs"
  shows "paints n (\<lambda>x y m. if (x, y) \<in> set cs then g (x, y) m else m) (for_each f cs)"
  using assms
proof (induction cs)
  case Nil
  have "for_each f [] = Some" by (simp add: fun_eq_iff)
  then show ?case using paints_Some by simp
next
  case (Cons c cs)
  have "for_each f (c # cs) = (\<lambda>q. Option.bind (f c q) (for_each f cs))" by (simp add: fun_eq_iff)
  moreover have "paints n (\<lambda>x y m. if (x, y) \<in> set cs then g (x, y) (if (x, y) = c then g c m else m)
      else (if (x, y) = c then g c m else m)) (\<lambda>q. Option.bind (f c q) (for_each f cs))"
    using Cons by (intro paints_seq) auto
  moreover have "(if (x, y) \<in> set cs then g (x, y) (if (x, y) = c then g c m else m) else (if (x, y) = c then g c m else m)) =
      (if (x, y) \<in> set (c # cs) then g (x, y) m else m)" for x y m
    using Cons.prems(2) by (cases "(x, y) = c") auto
  ultimately show ?case by simp
qed

lemma fills_fillRectangle:
  assumes "\<And>x y. l \<le> x \<Longrightarrow> x < l + w \<Longrightarrow> t \<le> y \<Longrightarrow> y < t + h \<Longrightarrow> (x, y) \<in> cells n"
  shows "fills n {(x, y). l \<le> x \<and> x < l + w \<and> t \<le> y \<and> y < t + h} (fillRectangle l t w h)"
proof -
  have "fills n (\<Union>dy \<in> set [0..h - 1]. \<Union>dx \<in> set [0..w - 1]. {(l + dx, t + dy)}) (fillRectangle l t w h)"
    unfolding fillRectangle_def by (intro fills_for_each fills_setModule assms) auto
  moreover have "(\<Union>dy \<in> set [0..h - 1]. \<Union>dx \<in> set [0..w - 1]. {(l + dx, t + dy)}) =
      {(x, y). l \<le> x \<and> x < l + w \<and> t \<le> y \<and> y < t + h}"
  proof (intro set_eqI iffI)
    fix c assume "c \<in> {(x, y). l \<le> x \<and> x < l + w \<and> t \<le> y \<and> y < t + h}"
    then show "c \<in> (\<Union>dy \<in> set [0..h - 1]. \<Union>dx \<in> set [0..w - 1]. {(l + dx, t + dy)})"
      by (intro UN_I [of "snd c - t"] UN_I [of "fst c - l"]) auto
  qed auto
  ultimately show ?thesis by simp
qed

end
