(* ===== verification/Qr_Function.thy ===== *)
theory Qr_Function
  imports Qr_Grid
begin

text \<open>
  The function modules: finder, timing and alignment patterns, format and version bits.  \<open>is_function\<close> says which
  modules they are; \<open>initializeFunctionModules\<close> blackens exactly these, and the routines that draw the patterns
  touch no others.
\<close>

section \<open>The routines\<close>

definition align_count :: "int \<Rightarrow> int" where
  "align_count version = version div 7 + 2"

definition align_step :: "int \<Rightarrow> int" where
  "align_step version =
     (if version = 32 then 26 else (version * 4 + align_count version * 2 + 1) div (align_count version * 2 - 2) * 2)"

definition getAlignmentPatternPositions :: "int \<Rightarrow> bytes \<Rightarrow> (int \<times> bytes) option" where
  "getAlignmentPatternPositions version result =
     (if version = 1 then Some (0, result)
      else do {
        (r, pos) \<leftarrow> for_each (\<lambda>i (r, pos). do { r' \<leftarrow> store i (of_int pos) r; Some (r', pos - align_step version) })
                       (rev [1..align_count version - 1]) (result, version * 4 + 10);
        r' \<leftarrow> store 0 6 r;
        Some (align_count version, r')
      })"

text \<open>The local array of seven positions; what is not written is not read.\<close>

definition alignPatPos :: bytes where
  "alignPatPos = replicate 7 0"

definition finder_corner :: "int \<Rightarrow> int \<Rightarrow> int \<Rightarrow> bool" where
  "finder_corner numAlign i j = (i = 0 \<and> j = 0 \<or> i = 0 \<and> j = numAlign - 1 \<or> i = numAlign - 1 \<and> j = 0)"

definition each_alignment :: "(int \<Rightarrow> int \<Rightarrow> bytes \<Rightarrow> bytes option) \<Rightarrow> int \<Rightarrow> bytes \<Rightarrow> bytes option" where
  "each_alignment draw version qrcode = do {
     (numAlign, pos) \<leftarrow> getAlignmentPatternPositions version alignPatPos;
     for_each (\<lambda>i. for_each (\<lambda>j q.
       if finder_corner numAlign i j then Some q
       else do { a \<leftarrow> load pos i; b \<leftarrow> load pos j; draw (uint a) (uint b) q }) [0..numAlign - 1]) [0..numAlign - 1] qrcode
   }"

definition initializeFunctionModules :: "int \<Rightarrow> bytes \<Rightarrow> bytes option" where
  "initializeFunctionModules version qrcode = do {
     let qrsize = version * 4 + 17;
     q \<leftarrow> clear ((qrsize * qrsize + 7) div 8 + 1) qrcode;
     q \<leftarrow> store 0 (of_int qrsize) q;
     q \<leftarrow> fillRectangle 6 0 1 qrsize q;
     q \<leftarrow> fillRectangle 0 6 qrsize 1 q;
     q \<leftarrow> fillRectangle 0 0 9 9 q;
     q \<leftarrow> fillRectangle (qrsize - 8) 0 8 9 q;
     q \<leftarrow> fillRectangle 0 (qrsize - 8) 9 8 q;
     q \<leftarrow> each_alignment (\<lambda>a b. fillRectangle (a - 2) (b - 2) 5 5) version q;
     if 7 \<le> version then do {
       q \<leftarrow> fillRectangle (qrsize - 11) 0 3 6 q;
       fillRectangle 0 (qrsize - 11) 6 3 q
     } else Some q
   }"

text \<open>The timing loop runs over \<open>7, 9, ...\<close> below \<open>qrsize - 7\<close>.\<close>

definition odd_range :: "int \<Rightarrow> int list" where
  "odd_range qrsize = map (\<lambda>k. 7 + 2 * k) [0..(qrsize - 15) div 2]"

definition version_bits :: "int \<Rightarrow> int" where
  "version_bits version =
     (let rem = fold (\<lambda>i rem. push_bit 1 rem XOR (drop_bit 11 rem * 0x1F25)) [0..<12] version
      in push_bit 12 version OR rem)"

definition drawWhiteFunctionModules :: "int \<Rightarrow> bytes \<Rightarrow> bytes option" where
  "drawWhiteFunctionModules version qrcode = do {
     qrsize \<leftarrow> qrcodegen_getSize qrcode;
     q \<leftarrow> for_each (\<lambda>i q. do { q \<leftarrow> setModule 6 i False q; setModule i 6 False q }) (odd_range qrsize) qrcode;
     q \<leftarrow> for_each (\<lambda>dy. for_each (\<lambda>dx q.
            let dist = max \<bar>dx\<bar> \<bar>dy\<bar>
            in if dist = 2 \<or> dist = 4
               then do {
                 q \<leftarrow> setModuleBounded (3 + dx) (3 + dy) False q;
                 q \<leftarrow> setModuleBounded (qrsize - 4 + dx) (3 + dy) False q;
                 setModuleBounded (3 + dx) (qrsize - 4 + dy) False q
               }
               else Some q) [-4..4]) [-4..4] q;
     q \<leftarrow> each_alignment (\<lambda>a b. for_each (\<lambda>dy. for_each (\<lambda>dx. setModule (a + dx) (b + dy) (dx = 0 \<and> dy = 0)) [-1..1]) [-1..1])
            version q;
     if 7 \<le> version then do {
       let bits = version_bits version;
       _ \<leftarrow> asserting (drop_bit 18 bits = 0);
       for_each (\<lambda>i. for_each (\<lambda>j q.
         let k = qrsize - 11 + j; black = (drop_bit (nat (i * 3 + j)) bits AND 1 \<noteq> 0)
         in do { q \<leftarrow> setModule k i black q; setModule i k black q }) [0..2]) [0..5] q
     } else Some q
   }"

datatype qrcodegen_Ecc = Ecc_LOW | Ecc_MEDIUM | Ecc_QUARTILE | Ecc_HIGH

fun ecc_index :: "qrcodegen_Ecc \<Rightarrow> nat" where
  "ecc_index Ecc_LOW = 0"
| "ecc_index Ecc_MEDIUM = 1"
| "ecc_index Ecc_QUARTILE = 2"
| "ecc_index Ecc_HIGH = 3"

definition format_bits :: "qrcodegen_Ecc \<Rightarrow> int \<Rightarrow> int" where
  "format_bits ecl msk =
     (let data = push_bit 3 ([1, 0, 3, 2] ! ecc_index ecl) OR msk;
          rem = fold (\<lambda>i rem. push_bit 1 rem XOR (drop_bit 9 rem * 0x537)) [0..<10] data
      in (push_bit 10 data OR rem) XOR 0x5412)"

definition drawFormatBits :: "qrcodegen_Ecc \<Rightarrow> int \<Rightarrow> bytes \<Rightarrow> bytes option" where
  "drawFormatBits ecl msk qrcode = do {
     _ \<leftarrow> asserting (0 \<le> msk \<and> msk \<le> 7);
     let bits = format_bits ecl msk;
     _ \<leftarrow> asserting (drop_bit 15 bits = 0);
     q \<leftarrow> for_each (\<lambda>i. setModule 8 i (getBit bits (nat i))) [0..5] qrcode;
     q \<leftarrow> setModule 8 7 (getBit bits 6) q;
     q \<leftarrow> setModule 8 8 (getBit bits 7) q;
     q \<leftarrow> setModule 7 8 (getBit bits 8) q;
     q \<leftarrow> for_each (\<lambda>i. setModule (14 - i) 8 (getBit bits (nat i))) [9..14] q;
     qrsize \<leftarrow> qrcodegen_getSize q;
     q \<leftarrow> for_each (\<lambda>i. setModule (qrsize - 1 - i) 8 (getBit bits (nat i))) [0..7] q;
     q \<leftarrow> for_each (\<lambda>i. setModule 8 (qrsize - 15 + i) (getBit bits (nat i))) [8..14] q;
     setModule 8 (qrsize - 8) True q
   }"

section \<open>Alignment positions\<close>

definition align_pos :: "int \<Rightarrow> int list" where
  "align_pos v =
     (if v = 1 then []
      else 6 # map (\<lambda>i. v * 4 + 10 - (align_count v - 1 - i) * align_step v) [1..align_count v - 1])"

lemma align_table:
  "list_all (\<lambda>v. getAlignmentPatternPositions v alignPatPos =
     Some (int (length (align_pos v)), map of_int (align_pos v) @ replicate (7 - length (align_pos v)) 0)) [1..40]"
  by code_simp

text \<open>The first position is 6, the last one \<open>qrsize - 7\<close>, the ones between keep away from both.\<close>

definition align_ok :: "int \<Rightarrow> bool" where
  "align_ok v =
     (let n = v * 4 + 17; ps = align_pos v
      in v = 1 \<or>
         2 \<le> length ps \<and> length ps \<le> 7 \<and> hd ps = 6 \<and> last ps = n - 7 \<and>
         list_all (\<lambda>p. 22 \<le> p \<and> p \<le> n - 23) (butlast (tl ps)) \<and> sorted_wrt (\<lambda>p r. p + 12 \<le> r) ps)"

lemma align_ok: "list_all align_ok [1..40]"
  by code_simp

lemma table_entry: "list_all P [a..b] \<Longrightarrow> a \<le> v \<Longrightarrow> v \<le> b \<Longrightarrow> P v"
  by (simp add: list_all_iff)

lemma align_structure:
  assumes "1 \<le> v" "v \<le> 40" "v \<noteq> 1" "n = v * 4 + 17"
  shows "\<exists>mid. align_pos v = 6 # mid @ [n - 7] \<and> (\<forall>p \<in> set mid. 22 \<le> p \<and> p \<le> n - 23) \<and> sorted_wrt (\<lambda>p r. p + 12 \<le> r) (align_pos v)"
proof -
  have "align_ok v" by (rule table_entry [OF align_ok assms(1,2)])
  then have ok: "2 \<le> length (align_pos v)" "hd (align_pos v) = 6" "last (align_pos v) = n - 7"
    "list_all (\<lambda>p. 22 \<le> p \<and> p \<le> n - 23) (butlast (tl (align_pos v)))" "sorted_wrt (\<lambda>p r. p + 12 \<le> r) (align_pos v)"
    using assms by (auto simp: align_ok_def Let_def)
  then have "tl (align_pos v) \<noteq> []" by (cases "align_pos v") auto
  then have "align_pos v = 6 # butlast (tl (align_pos v)) @ [n - 7]"
    using ok(1-3) append_butlast_last_id [of "tl (align_pos v)"] by (cases "align_pos v") auto
  with ok show ?thesis by (intro exI [of _ "butlast (tl (align_pos v))"]) (simp add: list_all_iff)
qed

lemma align_pos_range:
  assumes "1 \<le> v" "v \<le> 40" "n = v * 4 + 17" "p \<in> set (align_pos v)"
  shows "6 \<le> p" "p \<le> n - 7" "p < 256"
proof -
  have "v \<noteq> 1" using assms(4) by (auto simp: align_pos_def)
  with align_structure [OF assms(1,2) _ assms(3)] assms show "6 \<le> p" "p \<le> n - 7" "p < 256" by force+
qed

definition is_aligned :: "int \<Rightarrow> int \<Rightarrow> int \<Rightarrow> bool" where
  "is_aligned v x y =
     (let ps = align_pos v; idx = [0..int (length ps) - 1]
      in list_ex (\<lambda>i. list_ex (\<lambda>j. \<not> finder_corner (int (length ps)) i j \<and>
           \<bar>x - ps ! nat i\<bar> \<le> 2 \<and> \<bar>y - ps ! nat j\<bar> \<le> 2) idx) idx)"

text \<open>The function modules of a version.\<close>

definition is_function :: "int \<Rightarrow> int \<Rightarrow> int \<Rightarrow> bool" where
  "is_function v x y =
     (let n = v * 4 + 17
      in x = 6 \<or> y = 6 \<or> x \<le> 8 \<and> y \<le> 8 \<or> n - 8 \<le> x \<and> y \<le> 8 \<or> x \<le> 8 \<and> n - 8 \<le> y \<or> is_aligned v x y \<or>
         7 \<le> v \<and> (n - 11 \<le> x \<and> x \<le> n - 9 \<and> y \<le> 5 \<or> x \<le> 5 \<and> n - 11 \<le> y \<and> y \<le> n - 9))"

definition function_cells :: "int \<Rightarrow> (int \<times> int) set" where
  "function_cells v = {(x, y). is_function v x y}"

lemma each_alignment_alt:
  assumes "1 \<le> v" "v \<le> 40"
  shows "each_alignment draw v q =
    for_each (\<lambda>i. for_each (\<lambda>j q. if finder_corner (int (length (align_pos v))) i j then Some q
      else draw (align_pos v ! nat i) (align_pos v ! nat j) q) [0..int (length (align_pos v)) - 1]) [0..int (length (align_pos v)) - 1] q"
proof -
  let ?ps = "align_pos v" and ?b = "map of_int (align_pos v) @ replicate (7 - length (align_pos v)) 0 :: bytes"
  have "getAlignmentPatternPositions v alignPatPos = Some (int (length ?ps), ?b)"
    by (rule table_entry [OF align_table assms])
  moreover have "load ?b i = Some (of_int (?ps ! nat i)) \<and> uint (of_int (?ps ! nat i) :: u8) = ?ps ! nat i"
    if "i \<in> set [0..int (length ?ps) - 1]" for i
  proof -
    have i: "0 \<le> i" "nat i < length ?ps" using that by auto
    then have "?ps ! nat i \<in> set ?ps" by simp
    from align_pos_range [OF assms refl this] have "uint (of_int (?ps ! nat i) :: u8) = ?ps ! nat i"
      by (simp add: uint_word_of_int take_bit_int_eq_self_iff)
    then show ?thesis using i by (simp add: load_def nth_append)
  qed
  ultimately show ?thesis
    unfolding each_alignment_def by (auto intro!: for_each_cong)
qed

lemma fills_square:
  assumes "2 \<le> a" "a < n - 2" "2 \<le> b" "b < n - 2"
  shows "fills n {(x, y). \<bar>x - a\<bar> \<le> 2 \<and> \<bar>y - b\<bar> \<le> 2} (fillRectangle (a - 2) (b - 2) 5 5)"
proof -
  have "{(x, y). \<bar>x - a\<bar> \<le> 2 \<and> \<bar>y - b\<bar> \<le> 2} = {(x, y). a - 2 \<le> x \<and> x < a - 2 + 5 \<and> b - 2 \<le> y \<and> y < b - 2 + 5}"
    by auto
  then show ?thesis using assms by (simp only:) (rule fills_fillRectangle, auto simp: cells_def)
qed

lemma fills_alignment:
  assumes "1 \<le> v" "v \<le> 40" "n = v * 4 + 17"
  shows "fills n {(x, y). is_aligned v x y} (each_alignment (\<lambda>a b. fillRectangle (a - 2) (b - 2) 5 5) v)"
proof -
  let ?ps = "align_pos v" and ?idx = "[0..int (length (align_pos v)) - 1]"
  let ?R = "\<lambda>i j. if finder_corner (int (length ?ps)) i j then {} else
    {(x, y). \<bar>x - ?ps ! nat i\<bar> \<le> 2 \<and> \<bar>y - ?ps ! nat j\<bar> \<le> 2}"
  let ?f = "\<lambda>i j q. if finder_corner (int (length ?ps)) i j then Some q
      else fillRectangle (?ps ! nat i - 2) (?ps ! nat j - 2) 5 5 q"
  have range: "2 \<le> ?ps ! nat i \<and> ?ps ! nat i < n - 2" if "i \<in> set ?idx" for i
    using align_pos_range [OF assms, of "?ps ! nat i"] that by force
  have "fills n (?R i j) (?f i j)" if "i \<in> set ?idx" "j \<in> set ?idx" for i j
    using range [OF that(1)] range [OF that(2)] fills_Some [of n] fills_square [of "?ps ! nat i" n "?ps ! nat j"]
    by (cases "finder_corner (int (length ?ps)) i j") simp_all
  then have "fills n (\<Union>i \<in> set ?idx. \<Union>j \<in> set ?idx. ?R i j) (for_each (\<lambda>i. for_each (?f i) ?idx) ?idx)"
    by (intro fills_for_each)
  moreover have "(\<Union>i \<in> set ?idx. \<Union>j \<in> set ?idx. ?R i j) = {(x, y). is_aligned v x y}"
    by (auto simp: is_aligned_def Let_def list_ex_iff split: if_splits)
  moreover have "each_alignment (\<lambda>a b. fillRectangle (a - 2) (b - 2) 5 5) v = for_each (\<lambda>i. for_each (?f i) ?idx) ?idx"
    using each_alignment_alt [OF assms(1,2)] by (simp add: fun_eq_iff)
  ultimately show ?thesis by simp
qed

lemma touches_alignment:
  assumes "1 \<le> v" "v \<le> 40" "n = v * 4 + 17"
    and "\<And>a b. 6 \<le> a \<Longrightarrow> a \<le> n - 7 \<Longrightarrow> 6 \<le> b \<Longrightarrow> b \<le> n - 7 \<Longrightarrow>
      touches n {(x, y). \<bar>x - a\<bar> \<le> 2 \<and> \<bar>y - b\<bar> \<le> 2} (draw a b)"
  shows "touches n {(x, y). is_aligned v x y} (each_alignment draw v)"
proof -
  let ?ps = "align_pos v" and ?idx = "[0..int (length (align_pos v)) - 1]"
  let ?f = "\<lambda>i j q. if finder_corner (int (length ?ps)) i j then Some q else draw (?ps ! nat i) (?ps ! nat j) q"
  have "touches n {(x, y). is_aligned v x y} (?f i j)" if "i \<in> set ?idx" "j \<in> set ?idx" for i j
  proof (cases "finder_corner (int (length ?ps)) i j")
    case True
    then show ?thesis using touches_Some by simp
  next
    case False
    have sub: "{(x, y). \<bar>x - ?ps ! nat i\<bar> \<le> 2 \<and> \<bar>y - ?ps ! nat j\<bar> \<le> 2} \<subseteq> {(x, y). is_aligned v x y}"
    proof (intro subsetI, clarsimp simp only: mem_Collect_eq case_prod_conv)
      fix x y assume "\<bar>x - ?ps ! nat i\<bar> \<le> 2" "\<bar>y - ?ps ! nat j\<bar> \<le> 2"
      then show "is_aligned v x y"
        unfolding is_aligned_def Let_def list_ex_iff using that False by (intro bexI [of _ i] bexI [of _ j]) auto
    qed
    have "touches n {(x, y). \<bar>x - ?ps ! nat i\<bar> \<le> 2 \<and> \<bar>y - ?ps ! nat j\<bar> \<le> 2} (draw (?ps ! nat i) (?ps ! nat j))"
      using align_pos_range [OF assms(1-3), of "?ps ! nat i"] align_pos_range [OF assms(1-3), of "?ps ! nat j"] that
      by (intro assms(4)) force+
    then show ?thesis using False sub unfolding touches_def by fastforce
  qed
  moreover have "each_alignment draw v = for_each (\<lambda>i. for_each (?f i) ?idx) ?idx"
    using each_alignment_alt [OF assms(1,2)] by (simp add: fun_eq_iff)
  ultimately show ?thesis by (simp only:) (intro touches_for_each)
qed

section \<open>Marking the function modules\<close>

lemma blank_grid:
  assumes "1 \<le> v" "v \<le> 40" "n = v * 4 + 17" "(n * n + 7) div 8 + 1 \<le> int (length q)"
  shows "\<exists>q1 q2. clear ((n * n + 7) div 8 + 1) q = Some q1 \<and> store 0 (of_int n) q1 = Some q2 \<and> wf_grid n q2 \<and>
    length q2 = length q \<and> (\<forall>x y. (x, y) \<in> cells n \<longrightarrow> \<not> module_at n q2 x y)"
proof -
  let ?m = "nat ((n * n + 7) div 8 + 1)"
  let ?q = "of_int n # replicate (?m - 1) 0 @ drop ?m q"
  have "0 \<le> n * n" by simp
  then have m: "0 < ?m" "?m \<le> length q" using assms(4) by linarith+
  then have "replicate ?m (0 :: u8) = 0 # replicate (?m - 1) 0" by (cases ?m) auto
  then have c: "clear ((n * n + 7) div 8 + 1) q = Some (0 # replicate (?m - 1) 0 @ drop ?m q)"
    using m by (simp add: clear_def)
  have wf: "wf_grid n ?q"
  proof -
    have "21 \<le> n" "n \<le> 177" using assms(1-3) by auto
    then show ?thesis using assms(4) m by (auto simp: wf_grid_def uint_word_of_int take_bit_int_eq_self_iff)
  qed
  have "\<not> module_at n ?q x y" if "(x, y) \<in> cells n" for x y
  proof -
    have "(y * n + x) div 8 < (n * n + 7) div 8" using cell_index [OF that] by linarith
    then have "nat ((y * n + x) div 8) < ?m - 1" using cell_index [OF that] by auto
    moreover have "nat ((y * n + x) div 8 + 1) = Suc (nat ((y * n + x) div 8))" using cell_index [OF that] by linarith
    ultimately show ?thesis by (simp add: module_at_def nth_append)
  qed
  then show ?thesis using c wf m by (auto simp: store_def)
qed

lemma fills_rectangles:
  assumes "21 \<le> n"
  shows "fills n {(x, y). (x, y) \<in> cells n \<and> x = 6} (fillRectangle 6 0 1 n)"
    and "fills n {(x, y). (x, y) \<in> cells n \<and> y = 6} (fillRectangle 0 6 n 1)"
    and "fills n {(x, y). (x, y) \<in> cells n \<and> x \<le> 8 \<and> y \<le> 8} (fillRectangle 0 0 9 9)"
    and "fills n {(x, y). (x, y) \<in> cells n \<and> n - 8 \<le> x \<and> y \<le> 8} (fillRectangle (n - 8) 0 8 9)"
    and "fills n {(x, y). (x, y) \<in> cells n \<and> x \<le> 8 \<and> n - 8 \<le> y} (fillRectangle 0 (n - 8) 9 8)"
    and "fills n {(x, y). (x, y) \<in> cells n \<and> n - 11 \<le> x \<and> x \<le> n - 9 \<and> y \<le> 5} (fillRectangle (n - 11) 0 3 6)"
    and "fills n {(x, y). (x, y) \<in> cells n \<and> x \<le> 5 \<and> n - 11 \<le> y \<and> y \<le> n - 9} (fillRectangle 0 (n - 11) 6 3)"
proof -
  have "fills n R (fillRectangle l t w h)"
    if "R = {(x, y). l \<le> x \<and> x < l + w \<and> t \<le> y \<and> y < t + h}" "R \<subseteq> cells n" for R l t w h
    using that fills_fillRectangle [of l w t h n] by blast
  note rect = this
  show "fills n {(x, y). (x, y) \<in> cells n \<and> x = 6} (fillRectangle 6 0 1 n)"
    "fills n {(x, y). (x, y) \<in> cells n \<and> y = 6} (fillRectangle 0 6 n 1)"
    "fills n {(x, y). (x, y) \<in> cells n \<and> x \<le> 8 \<and> y \<le> 8} (fillRectangle 0 0 9 9)"
    "fills n {(x, y). (x, y) \<in> cells n \<and> n - 8 \<le> x \<and> y \<le> 8} (fillRectangle (n - 8) 0 8 9)"
    "fills n {(x, y). (x, y) \<in> cells n \<and> x \<le> 8 \<and> n - 8 \<le> y} (fillRectangle 0 (n - 8) 9 8)"
    "fills n {(x, y). (x, y) \<in> cells n \<and> n - 11 \<le> x \<and> x \<le> n - 9 \<and> y \<le> 5} (fillRectangle (n - 11) 0 3 6)"
    "fills n {(x, y). (x, y) \<in> cells n \<and> x \<le> 5 \<and> n - 11 \<le> y \<and> y \<le> n - 9} (fillRectangle 0 (n - 11) 6 3)"
    using assms by (intro rect; auto simp: cells_def)+
qed

lemma initialize_ok:
  assumes "1 \<le> v" "v \<le> 40" "n = v * 4 + 17" "(n * n + 7) div 8 + 1 \<le> int (length q)"
  shows "\<exists>q'. initializeFunctionModules v q = Some q' \<and> wf_grid n q' \<and> length q' = length q \<and>
    (\<forall>x y. (x, y) \<in> cells n \<longrightarrow> module_at n q' x y = is_function v x y)"
proof -
  obtain q1 q2 where q: "clear ((n * n + 7) div 8 + 1) q = Some q1" "store 0 (of_int n) q1 = Some q2" "wf_grid n q2"
      "length q2 = length q" "\<And>x y. (x, y) \<in> cells n \<Longrightarrow> \<not> module_at n q2 x y"
    using blank_grid [OF assms] by blast
  have n: "21 \<le> n" using assms by simp
  let ?V1 = "{(x, y). (x, y) \<in> cells n \<and> n - 11 \<le> x \<and> x \<le> n - 9 \<and> y \<le> 5}"
  let ?V2 = "{(x, y). (x, y) \<in> cells n \<and> x \<le> 5 \<and> n - 11 \<le> y \<and> y \<le> n - 9}"
  let ?V = "if 7 \<le> v then ?V1 \<union> ?V2 else {}"
  let ?blocks = "\<lambda>q. if 7 \<le> v then Option.bind (fillRectangle (n - 11) 0 3 6 q) (fillRectangle 0 (n - 11) 6 3) else Some q"
  have V: "fills n ?V ?blocks"
    using fills_seq [OF fills_rectangles(6,7) [OF n]] fills_Some [of n] by (cases "7 \<le> v") simp_all
  note F = fills_seq [OF fills_rectangles(1) [OF n] fills_seq [OF fills_rectangles(2) [OF n] fills_seq [OF fills_rectangles(3) [OF n]
      fills_seq [OF fills_rectangles(4) [OF n] fills_seq [OF fills_rectangles(5) [OF n] fills_seq [OF fills_alignment [OF assms(1-3)] V]]]]]]
  let ?f = "\<lambda>q. Option.bind (fillRectangle 6 0 1 n q) (\<lambda>q. Option.bind (fillRectangle 0 6 n 1 q)
      (\<lambda>q. Option.bind (fillRectangle 0 0 9 9 q) (\<lambda>q. Option.bind (fillRectangle (n - 8) 0 8 9 q) (\<lambda>q. Option.bind (fillRectangle 0 (n - 8) 9 8 q)
          (\<lambda>q. Option.bind (each_alignment (\<lambda>a b. fillRectangle (a - 2) (b - 2) 5 5) v q) ?blocks)))))"
  have f: "paints n (\<lambda>x y m. m \<or> is_function v x y) ?f"
    by (rule paints_cong [OF F [unfolded fills_def]]) (auto simp: is_function_def Let_def assms(3))
  obtain q' where q': "?f q2 = Some q'" "wf_grid n q'" "length q' = length q2"
      "\<And>x y. (x, y) \<in> cells n \<Longrightarrow> module_at n q' x y = (module_at n q2 x y \<or> is_function v x y)"
    by (rule paintsD [OF f q(3)]) (rule that)
  have "initializeFunctionModules v q = Some q'"
    unfolding initializeFunctionModules_def Let_def assms(3) [symmetric] using q(1,2) q'(1) by simp
  then show ?thesis using q(4,5) q'(2-) by auto
qed

section \<open>Drawing the patterns\<close>

lemma touches_mono: "touches n S f \<Longrightarrow> S \<inter> cells n \<subseteq> T \<Longrightarrow> touches n T f"
  unfolding touches_def by (meson IntI subsetD)

lemma touches_cong: "touches n S f \<Longrightarrow> (\<And>q. wf_grid n q \<Longrightarrow> g q = f q) \<Longrightarrow> touches n S g"
  by (simp add: touches_def)

lemma touches_if: "touches n S f \<Longrightarrow> touches n S g \<Longrightarrow> touches n S (\<lambda>q. if b then f q else g q)"
  by (cases b) simp_all

lemma version_bits_fit: "list_all (\<lambda>v. drop_bit 18 (version_bits v) = 0) [7..40]"
  by code_simp

lemma touches_timing:
  assumes "n = v * 4 + 17" "1 \<le> v" "v \<le> 40"
  shows "touches n (function_cells v) (for_each (\<lambda>i q. Option.bind (setModule 6 i False q) (setModule i 6 False)) (odd_range n))"
  using assms by (intro touches_for_each touches_seq touches_setModule)
    (auto simp: odd_range_def cells_def function_cells_def is_function_def)

lemma function_cells_finder:
  "x \<le> 8 \<Longrightarrow> y \<le> 8 \<Longrightarrow> (x, y) \<in> function_cells v"
  "v * 4 + 9 \<le> x \<Longrightarrow> y \<le> 8 \<Longrightarrow> (x, y) \<in> function_cells v"
  "x \<le> 8 \<Longrightarrow> v * 4 + 9 \<le> y \<Longrightarrow> (x, y) \<in> function_cells v"
  by (simp_all add: function_cells_def is_function_def)

lemma touches_finders:
  assumes "n = v * 4 + 17" "1 \<le> v" "v \<le> 40"
  shows "touches n (function_cells v) (for_each (\<lambda>dy. for_each (\<lambda>dx q.
            let dist = max \<bar>dx\<bar> \<bar>dy\<bar>
            in if dist = 2 \<or> dist = 4
               then Option.bind (setModuleBounded (3 + dx) (3 + dy) False q)
                 (\<lambda>q. Option.bind (setModuleBounded (n - 4 + dx) (3 + dy) False q)
                   (setModuleBounded (3 + dx) (n - 4 + dy) False))
               else Some q) [-4..4]) [-4..4])"
  unfolding Let_def
proof (intro touches_for_each touches_if touches_seq touches_setModuleBounded touches_Some impI)
  fix dx dy :: int
  assume "dx \<in> set [-4..4]" "dy \<in> set [-4..4]"
  then have d: "dx \<le> 4" "dy \<le> 4" "-4 \<le> dx" "-4 \<le> dy" by (simp_all only: set_upto atLeastAtMost_iff)
  show "(3 + dx, 3 + dy) \<in> function_cells v" "(n - 4 + dx, 3 + dy) \<in> function_cells v" "(3 + dx, n - 4 + dy) \<in> function_cells v"
    using d assms(1) by (auto intro: function_cells_finder)
qed

lemma touches_aligned:
  assumes "n = v * 4 + 17" "1 \<le> v" "v \<le> 40"
  shows "touches n (function_cells v)
    (each_alignment (\<lambda>a b. for_each (\<lambda>dy. for_each (\<lambda>dx. setModule (a + dx) (b + dy) (dx = 0 \<and> dy = 0)) [-1..1]) [-1..1]) v)"
proof (rule touches_mono [OF touches_alignment [OF assms(2,3,1)]])
  show "{(x, y). is_aligned v x y} \<inter> cells n \<subseteq> function_cells v"
    by (auto simp: function_cells_def is_function_def Let_def)
qed (intro touches_for_each touches_setModule; use assms in \<open>auto simp: cells_def\<close>)

lemma touches_version_blocks:
  assumes "n = v * 4 + 17" "7 \<le> v" "v \<le> 40"
  shows "touches n (function_cells v) (for_each (\<lambda>i. for_each (\<lambda>j q.
         let k = n - 11 + j; black = (drop_bit (nat (i * 3 + j)) bits AND 1 \<noteq> 0)
         in Option.bind (setModule k i black q) (setModule i k black)) [0..2]) [0..5])"
  unfolding Let_def using assms
  by (intro touches_for_each touches_seq touches_setModule) (auto simp: cells_def function_cells_def is_function_def)

lemma touches_white:
  assumes "n = v * 4 + 17" "1 \<le> v" "v \<le> 40"
  shows "touches n (function_cells v) (drawWhiteFunctionModules v)"
proof -
  let ?bits = "version_bits v"
  let ?blocks = "\<lambda>q. if 7 \<le> v then for_each (\<lambda>i. for_each (\<lambda>j q.
         let k = n - 11 + j; black = (drop_bit (nat (i * 3 + j)) ?bits AND 1 \<noteq> 0)
         in Option.bind (setModule k i black q) (setModule i k black)) [0..2]) [0..5] q else Some q"
  have b: "drop_bit 18 ?bits = 0" if "7 \<le> v" by (rule table_entry [OF version_bits_fit that assms(3)])
  have V: "touches n (function_cells v) ?blocks"
    using touches_version_blocks [OF assms(1) _ assms(3), of ?bits] touches_Some [of n]
    by (cases "7 \<le> v") (simp_all only: if_True if_False simp_thms)
  note T = touches_seq [OF touches_timing [OF assms] touches_seq [OF touches_finders [OF assms] touches_seq [OF touches_aligned [OF assms] V]]]
  have "drawWhiteFunctionModules v q = (Option.bind (for_each (\<lambda>i q. Option.bind (setModule 6 i False q) (setModule i 6 False)) (odd_range n) q)
      (\<lambda>q. Option.bind (for_each (\<lambda>dy. for_each (\<lambda>dx q.
            let dist = max \<bar>dx\<bar> \<bar>dy\<bar>
            in if dist = 2 \<or> dist = 4
               then Option.bind (setModuleBounded (3 + dx) (3 + dy) False q)
                 (\<lambda>q. Option.bind (setModuleBounded (n - 4 + dx) (3 + dy) False q)
                   (setModuleBounded (3 + dx) (n - 4 + dy) False))
               else Some q) [-4..4]) [-4..4] q)
      (\<lambda>q. Option.bind (each_alignment (\<lambda>a b. for_each (\<lambda>dy. for_each (\<lambda>dx. setModule (a + dx) (b + dy) (dx = 0 \<and> dy = 0)) [-1..1]) [-1..1]) v q)
        ?blocks)))" if "wf_grid n q" for q
    unfolding drawWhiteFunctionModules_def getSize_ok [OF that] bind.simps Let_def
    using b by (cases "7 \<le> v") simp_all
  with T show ?thesis by (rule touches_cong)
qed

section \<open>Format bits\<close>

definition draw_list :: "((int \<times> int) \<times> bool) list \<Rightarrow> bytes \<Rightarrow> bytes option" where
  "draw_list = for_each (\<lambda>((x, y), c). setModule x y c)"

lemma paints_draw_list:
  "fst ` set ds \<subseteq> cells n \<Longrightarrow> paints n (\<lambda>x y m. case map_of (rev ds) (x, y) of None \<Rightarrow> m | Some c \<Rightarrow> c) (draw_list ds)"
proof (induction ds rule: rev_induct)
  case Nil
  have "draw_list [] = Some" by (simp add: draw_list_def fun_eq_iff)
  then show ?case using paints_Some by simp
next
  case (snoc d ds)
  obtain x y c where d: "d = ((x, y), c)" by (metis prod.exhaust)
  have "draw_list (ds @ [d]) = (\<lambda>q. Option.bind (draw_list ds q) (setModule x y c))"
    by (auto simp: draw_list_def fun_eq_iff for_each_append d split: bind_splits)
  moreover have "paints n (\<lambda>x' y' m. if (x', y') = (x, y) then c else (case map_of (rev ds) (x', y') of None \<Rightarrow> m | Some c \<Rightarrow> c))
      (\<lambda>q. Option.bind (draw_list ds q) (setModule x y c))"
    using snoc by (intro paints_seq paints_setModule) (auto simp: d)
  ultimately show ?case by (auto simp: d elim!: paints_cong)
qed

lemma paints_exact:
  assumes "wf_grid n q" "paints n h f" "f q = Some q'"
  shows "wf_grid n q'" "length q' = length q" "(x, y) \<in> cells n \<Longrightarrow> module_at n q' x y = h x y (module_at n q x y)"
  using assms by (auto simp: paints_def)

definition format_first :: "int \<Rightarrow> ((int \<times> int) \<times> bool) list" where
  "format_first bits = map (\<lambda>i. ((8, i), getBit bits (nat i))) [0..5] @
     [((8, 7), getBit bits 6), ((8, 8), getBit bits 7), ((7, 8), getBit bits 8)] @
     map (\<lambda>i. ((14 - i, 8), getBit bits (nat i))) [9..14]"

definition format_second :: "int \<Rightarrow> int \<Rightarrow> ((int \<times> int) \<times> bool) list" where
  "format_second n bits = map (\<lambda>i. ((n - 1 - i, 8), getBit bits (nat i))) [0..7] @
     map (\<lambda>i. ((8, n - 15 + i), getBit bits (nat i))) [8..14] @ [((8, n - 8), True)]"

lemma format_bits_fit: "list_all (\<lambda>e. list_all (\<lambda>m. drop_bit 15 (format_bits e m) = 0) [0..7]) [Ecc_LOW, Ecc_MEDIUM, Ecc_QUARTILE, Ecc_HIGH]"
  by code_simp

lemma format_bits_fit': "0 \<le> m \<Longrightarrow> m \<le> 7 \<Longrightarrow> drop_bit 15 (format_bits e m) = 0"
proof -
  assume m: "0 \<le> m" "m \<le> 7"
  have "list_all (\<lambda>m. drop_bit 15 (format_bits e m) = 0) [0..7]"
    using format_bits_fit unfolding list.pred_inject by (cases e) simp_all
  then show ?thesis using m by (rule table_entry)
qed

lemma draw_list_simps:
  "draw_list (ds @ es) = (\<lambda>q. Option.bind (draw_list ds q) (draw_list es))"
  "draw_list (((x, y), c) # ds) = (\<lambda>q. Option.bind (setModule x y c q) (draw_list ds))"
  "draw_list [((x, y), c)] = setModule x y c"
  "draw_list (map (\<lambda>i. ((g i, h i), k i)) xs) = for_each (\<lambda>i. setModule (g i) (h i) (k i)) xs"
  by (auto simp: draw_list_def fun_eq_iff for_each_append for_each_map split: bind_splits)

lemma drawFormatBits_alt:
  assumes "wf_grid n q" "0 \<le> m" "m \<le> 7"
  shows "drawFormatBits e m q = draw_list (format_first (format_bits e m) @ format_second n (format_bits e m)) q"
proof -
  let ?b = "format_bits e m"
  have first: "fst ` set (format_first ?b) \<subseteq> cells n" using assms(1) by (auto simp: format_first_def cells_def wf_grid_def)
  obtain q1 where q1: "draw_list (format_first ?b) q = Some q1"
    using paints_draw_list [OF first] assms(1) by (meson paintsD)
  then have "wf_grid n q1" using paints_exact(1) [OF assms(1) paints_draw_list [OF first]] by blast
  note sz = getSize_ok [OF this]
  have "Option.bind (for_each (\<lambda>i. setModule 8 i (getBit ?b (nat i))) [0..5] q) (\<lambda>q.
      Option.bind (setModule 8 7 (getBit ?b 6) q) (\<lambda>q. Option.bind (setModule 8 8 (getBit ?b 7) q) (\<lambda>q.
      Option.bind (setModule 7 8 (getBit ?b 8) q) (for_each (\<lambda>i. setModule (14 - i) 8 (getBit ?b (nat i))) [9..14])))) =
    draw_list (format_first ?b) q"
    by (simp only: format_first_def draw_list_simps append_Cons append_Nil)
  moreover have "Option.bind (for_each (\<lambda>i. setModule (n - 1 - i) 8 (getBit ?b (nat i))) [0..7] q1) (\<lambda>q.
      Option.bind (for_each (\<lambda>i. setModule 8 (n - 15 + i) (getBit ?b (nat i))) [8..14] q) (setModule 8 (n - 8) True)) =
    draw_list (format_second n ?b) q1"
    by (simp only: format_second_def draw_list_simps(1,3,4))
  ultimately have parts:
    "Option.bind (for_each (\<lambda>i. setModule 8 i (getBit ?b (nat i))) [0..5] q) (\<lambda>q.
      Option.bind (setModule 8 7 (getBit ?b 6) q) (\<lambda>q. Option.bind (setModule 8 8 (getBit ?b 7) q) (\<lambda>q.
      Option.bind (setModule 7 8 (getBit ?b 8) q) (for_each (\<lambda>i. setModule (14 - i) 8 (getBit ?b (nat i))) [9..14])))) = Some q1"
    "Option.bind (for_each (\<lambda>i. setModule (n - 1 - i) 8 (getBit ?b (nat i))) [0..7] q1) (\<lambda>q.
      Option.bind (for_each (\<lambda>i. setModule 8 (n - 15 + i) (getBit ?b (nat i))) [8..14] q) (setModule 8 (n - 8) True)) =
     draw_list (format_second n ?b) q1"
    by (simp_all only: q1)
  from parts(1) obtain qa qb qc qd where steps:
    "for_each (\<lambda>i. setModule 8 i (getBit ?b (nat i))) [0..5] q = Some qa" "setModule 8 7 (getBit ?b 6) qa = Some qb"
    "setModule 8 8 (getBit ?b 7) qb = Some qc" "setModule 7 8 (getBit ?b 8) qc = Some qd"
    "for_each (\<lambda>i. setModule (14 - i) 8 (getBit ?b (nat i))) [9..14] qd = Some q1"
    unfolding bind_eq_Some_conv by blast
  have m: "(0 \<le> m \<and> m \<le> 7) = True" "(drop_bit 15 ?b = 0) = True" using assms(2,3) format_bits_fit' [OF assms(2,3)] by simp_all
  show ?thesis
    by (simp only: drawFormatBits_def Let_def m if_True bind.simps steps sz parts(2) draw_list_simps(1) q1)
qed

lemma format_cells:
  assumes "n = v * 4 + 17" "1 \<le> v" "v \<le> 40"
  shows "fst ` set (format_first b @ format_second n b) \<subseteq> cells n \<inter> function_cells v"
proof -
  have "fst ` set (format_first b) \<subseteq> function_cells v"
    by (auto simp: format_first_def intro!: function_cells_finder(1))
  moreover have "fst ` set (format_second n b) \<subseteq> function_cells v"
    using assms(1) by (auto simp: format_second_def function_cells_def is_function_def Let_def)
  moreover have "fst ` set (format_first b) \<subseteq> cells n" "fst ` set (format_second n b) \<subseteq> cells n"
    using assms by (auto simp: format_first_def format_second_def cells_def)
  ultimately show ?thesis by auto
qed

lemma touches_format:
  assumes "n = v * 4 + 17" "1 \<le> v" "v \<le> 40" "0 \<le> m" "m \<le> 7"
  shows "touches n (function_cells v) (drawFormatBits e m)"
proof (rule touches_cong)
  let ?ds = "format_first (format_bits e m) @ format_second n (format_bits e m)"
  note c = format_cells [OF assms(1-3), of "format_bits e m"]
  show "touches n (function_cells v) (draw_list ?ds)"
  proof (rule touches_paints [OF paints_draw_list])
    show "fst ` set ?ds \<subseteq> cells n" using c by blast
    fix x y c' assume "(x, y) \<notin> function_cells v"
    then have "(x, y) \<notin> fst ` set ?ds" using c by blast
    then have "map_of (rev ?ds) (x, y) = None" by (simp only: map_of_eq_None_iff set_rev not_False_eq_True)
    then show "(case map_of (rev ?ds) (x, y) of None \<Rightarrow> c' | Some c \<Rightarrow> c) = c'" by (simp only: option.case)
  qed
qed (use drawFormatBits_alt assms in blast)

text \<open>Where a reader finds bit \<open>i\<close> of the format, and what it makes of the fifteen bits.\<close>

definition format_cell :: "nat \<Rightarrow> int \<times> int" where
  "format_cell i =
     (if i \<le> 5 then (8, int i) else if i = 6 then (8, 7) else if i = 7 then (8, 8) else if i = 8 then (7, 8) else (14 - int i, 8))"

definition decode_format :: "int \<Rightarrow> qrcodegen_Ecc \<times> int" where
  "decode_format bits =
     (let data = drop_bit 10 (bits XOR 0x5412)
      in ([Ecc_MEDIUM, Ecc_LOW, Ecc_HIGH, Ecc_QUARTILE] ! nat (drop_bit 3 data), data AND 7))"

definition read_format :: "(int \<Rightarrow> int \<Rightarrow> bool) \<Rightarrow> qrcodegen_Ecc \<times> int" where
  "read_format g = decode_format (horner_sum of_bool 2 (map (\<lambda>i. case format_cell i of (x, y) \<Rightarrow> g x y) [0..<15]))"

lemma format_cell_drawn:
  assumes "i < 15"
  shows "(format_cell i, getBit b i) \<in> set (format_first b)"
proof -
  consider "i \<le> 5" | "i = 6" | "i = 7" | "i = 8" | "9 \<le> i" by linarith
  then show ?thesis
  proof cases
    case 1
    then show ?thesis by (auto simp: format_cell_def format_first_def intro!: image_eqI [of _ _ "int i"] simp del: upto_rec_numeral)
  next
    case 5
    then show ?thesis using assms
      by (auto simp: format_cell_def format_first_def intro!: image_eqI [of _ _ "int i"] simp del: upto_rec_numeral)
  qed (auto simp: format_cell_def format_first_def)
qed

lemma format_drawn_once:
  assumes "21 \<le> n" "i < 15"
  shows "map_of (rev (format_first b @ format_second n b)) (format_cell i) = Some (getBit b i)"
proof -
  have "map fst (format_first b) = map (Pair 8) [0..5] @ [(8, 7), (8, 8), (7, 8)] @ map (\<lambda>i. (14 - i, 8)) [9..14]"
    by (simp add: format_first_def o_def del: upto_rec_numeral)
  moreover have "distinct (map (Pair 8) [0..5] @ [(8, 7), (8, 8), (7, 8)] @ map (\<lambda>i. (14 - i, 8)) [9..14] :: (int \<times> int) list)"
    by code_simp
  ultimately have "distinct (map fst (rev (format_first b)))" by (simp only: rev_map [symmetric] distinct_rev)
  then have "map_of (rev (format_first b)) (format_cell i) = Some (getBit b i)"
    using format_cell_drawn [OF assms(2), of b] by (intro map_of_is_SomeI) simp_all
  moreover have "format_cell i \<notin> fst ` set (format_second n b)"
    using assms by (auto simp: format_cell_def format_second_def split: if_splits)
  then have "map_of (rev (format_second n b)) (format_cell i) = None" by (simp add: map_of_eq_None_iff)
  ultimately show ?thesis by (simp add: map_add_def)
qed

lemma decode_format_bits:
  "list_all (\<lambda>e. list_all (\<lambda>m. decode_format (format_bits e m) = (e, m)) [0..7]) [Ecc_LOW, Ecc_MEDIUM, Ecc_QUARTILE, Ecc_HIGH]"
  by code_simp

lemma read_format_drawn:
  assumes "wf_grid n q" "0 \<le> m" "m \<le> 7" "drawFormatBits e m q = Some q'" "n = v * 4 + 17" "1 \<le> v" "v \<le> 40"
  shows "read_format (module_at n q') = (e, m)"
proof -
  let ?b = "format_bits e m"
  let ?ds = "format_first ?b @ format_second n ?b"
  have n: "21 \<le> n" using assms by simp
  have in_cells: "fst ` set ?ds \<subseteq> cells n" using format_cells [OF assms(5-7)] by blast
  have "module_at n q' x y = getBit ?b i" if "i < 15" "format_cell i = (x, y)" for i x y
  proof -
    have "(x, y) \<in> cells n" using format_cell_drawn [OF that(1), of ?b] in_cells that(2) by force
    moreover have "draw_list ?ds q = Some q'" using drawFormatBits_alt [OF assms(1-3)] assms(4) by simp
    ultimately show ?thesis
      using paints_exact(3) [OF assms(1) paints_draw_list [OF in_cells]] format_drawn_once [OF n that(1), of ?b] that(2) by simp
  qed
  then have "map (\<lambda>i. case format_cell i of (x, y) \<Rightarrow> module_at n q' x y) [0..<15] = map (bit ?b) [0..<15]"
    by (auto simp: getBit_def and_one_eq bit_iff_odd_drop_bit odd_iff_mod_2_eq_one split: prod.splits)
  then have "read_format (module_at n q') = decode_format (take_bit 15 ?b)"
    by (simp only: read_format_def horner_sum_bit_eq_take_bit)
  also have "take_bit 15 ?b = ?b"
    using format_bits_fit' [OF assms(2,3), of e] bits_ident [of 15 ?b] by simp
  also have "decode_format ?b = (e, m)"
  proof -
    have "list_all (\<lambda>m. decode_format (format_bits e m) = (e, m)) [0..7]"
      using decode_format_bits unfolding list.pred_inject by (cases e) simp_all
    then show ?thesis using assms(2,3) by (rule table_entry)
  qed
  finally show ?thesis .
qed

end
