(* ===== verification/Qr_Count.thy ===== *)
theory Qr_Count
  imports Qr_Function
begin

text \<open>
  How many data modules and codewords a version has.  The closed formula of \<open>getNumRawDataModules\<close> is the number of
  cells that are not function modules: these split into disjoint rectangles.
\<close>

section \<open>The routines and tables\<close>

definition getNumRawDataModules :: "int \<Rightarrow> int option" where
  "getNumRawDataModules ver = do {
     _ \<leftarrow> asserting (qrcodegen_VERSION_MIN \<le> ver \<and> ver \<le> qrcodegen_VERSION_MAX);
     let result = (16 * ver + 128) * ver + 64;
     let result =
       (if 2 \<le> ver
        then let numAlign = ver div 7 + 2;
                 result = result - ((25 * numAlign - 10) * numAlign - 55)
             in if 7 \<le> ver then result - 36 else result
        else result);
     _ \<leftarrow> asserting (208 \<le> result \<and> result \<le> 29648);
     Some result
   }"

definition ECC_CODEWORDS_PER_BLOCK :: "int list list" where
  "ECC_CODEWORDS_PER_BLOCK =
     [[-1, 7, 10, 15, 20, 26, 18, 20, 24, 30, 18, 20, 24, 26, 30, 22, 24, 28, 30, 28, 28, 28, 28, 30, 30, 26, 28, 30, 30, 30, 30, 30, 30, 30, 30, 30, 30, 30, 30, 30, 30],
      [-1, 10, 16, 26, 18, 24, 16, 18, 22, 22, 26, 30, 22, 22, 24, 24, 28, 28, 26, 26, 26, 26, 28, 28, 28, 28, 28, 28, 28, 28, 28, 28, 28, 28, 28, 28, 28, 28, 28, 28, 28],
      [-1, 13, 22, 18, 26, 18, 24, 18, 22, 20, 24, 28, 26, 24, 20, 30, 24, 28, 28, 26, 30, 28, 30, 30, 30, 30, 28, 30, 30, 30, 30, 30, 30, 30, 30, 30, 30, 30, 30, 30, 30],
      [-1, 17, 28, 22, 16, 22, 28, 26, 26, 24, 28, 24, 28, 22, 24, 24, 30, 28, 28, 26, 28, 30, 24, 30, 30, 30, 30, 30, 30, 30, 30, 30, 30, 30, 30, 30, 30, 30, 30, 30, 30]]"

definition NUM_ERROR_CORRECTION_BLOCKS :: "int list list" where
  "NUM_ERROR_CORRECTION_BLOCKS =
     [[-1, 1, 1, 1, 1, 1, 2, 2, 2, 2, 4, 4, 4, 4, 4, 6, 6, 6, 6, 7, 8, 8, 9, 9, 10, 12, 12, 12, 13, 14, 15, 16, 17, 18, 19, 19, 20, 21, 22, 24, 25],
      [-1, 1, 1, 1, 2, 2, 4, 4, 4, 5, 5, 5, 8, 9, 9, 10, 10, 11, 13, 14, 16, 17, 17, 18, 20, 21, 23, 25, 26, 28, 29, 31, 33, 35, 37, 38, 40, 43, 45, 47, 49],
      [-1, 1, 1, 2, 2, 4, 4, 6, 6, 8, 8, 8, 10, 12, 16, 12, 17, 16, 18, 21, 20, 23, 23, 25, 27, 29, 34, 34, 35, 38, 40, 43, 45, 48, 51, 53, 56, 59, 62, 65, 68],
      [-1, 1, 1, 2, 4, 4, 4, 5, 6, 8, 8, 11, 11, 16, 16, 18, 16, 19, 21, 25, 25, 25, 34, 30, 32, 35, 37, 40, 42, 45, 48, 51, 54, 57, 60, 63, 66, 70, 74, 77, 81]]"

text \<open>A table access \<open>[e][v]\<close>; the version is asserted to be in range before.\<close>

definition table_at :: "int list list \<Rightarrow> qrcodegen_Ecc \<Rightarrow> int \<Rightarrow> int option" where
  "table_at t ecl v = (if 0 \<le> v \<and> v < 41 then Some (t ! ecc_index ecl ! nat v) else None)"

definition getNumDataCodewords :: "int \<Rightarrow> qrcodegen_Ecc \<Rightarrow> int option" where
  "getNumDataCodewords version ecl = do {
     raw \<leftarrow> getNumRawDataModules version;
     e \<leftarrow> table_at ECC_CODEWORDS_PER_BLOCK ecl version;
     b \<leftarrow> table_at NUM_ERROR_CORRECTION_BLOCKS ecl version;
     Some (raw div 8 - e * b)
   }"

section \<open>The formula counts the data modules\<close>

definition band :: "int list \<Rightarrow> int set" where
  "band ps = (\<Union>p \<in> set ps. {p - 2..p + 2})"

lemma band_simps [simp]: "band [] = {}" "band (p # ps) = {p - 2..p + 2} \<union> band ps" "band (ps @ qs) = band ps \<union> band qs"
  by (auto simp: band_def)

lemma in_band: "x \<in> band ps \<longleftrightarrow> (\<exists>i < length ps. \<bar>x - ps ! i\<bar> \<le> 2)"
proof -
  have "x \<in> {p - 2..p + 2} \<longleftrightarrow> \<bar>x - p\<bar> \<le> 2" for p by auto
  then have "x \<in> band ps \<longleftrightarrow> (\<exists>p \<in> set ps. \<bar>x - p\<bar> \<le> 2)" by (simp add: band_def)
  then show ?thesis by (metis in_set_conv_nth)
qed

lemma finite_band [simp]: "finite (band ps)"
  by (simp add: band_def)

lemma card_band: "sorted_wrt (\<lambda>p r. p + 12 \<le> r) ps \<Longrightarrow> card (band ps) = 5 * length ps"
proof (induction ps)
  case (Cons p ps)
  then have "{p - 2..p + 2} \<inter> band ps = {}" by (fastforce simp: band_def)
  then show ?case using Cons by (simp add: card_Un_disjoint)
qed simp

text \<open>The alignment patterns: the square of inner positions, and the inner patterns on the two timing lines.\<close>

lemma is_aligned_bands:
  assumes "align_pos v = 6 # mid @ [z]"
  shows "is_aligned v x y \<longleftrightarrow> x \<in> band (mid @ [z]) \<and> y \<in> band (mid @ [z]) \<or> \<bar>x - 6\<bar> \<le> 2 \<and> y \<in> band mid \<or> x \<in> band mid \<and> \<bar>y - 6\<bar> \<le> 2"
proof -
  let ?ps = "6 # mid @ [z]"
  let ?K = "length mid + 1"
  have "is_aligned v x y \<longleftrightarrow> (\<exists>i \<le> ?K. \<exists>j \<le> ?K. \<not> (i = 0 \<and> j = 0 \<or> i = 0 \<and> j = ?K \<or> i = ?K \<and> j = 0) \<and>
      \<bar>x - ?ps ! i\<bar> \<le> 2 \<and> \<bar>y - ?ps ! j\<bar> \<le> 2)" (is "_ \<longleftrightarrow> ?R")
  proof -
    let ?P = "\<lambda>i j. \<not> (i = 0 \<and> j = 0 \<or> i = 0 \<and> j = ?K \<or> i = ?K \<and> j = 0) \<and> \<bar>x - ?ps ! i\<bar> \<le> 2 \<and> \<bar>y - ?ps ! j\<bar> \<le> 2"
    have ex: "(\<exists>i \<in> {0..int ?K}. \<exists>j \<in> {0..int ?K}. P (nat i) (nat j)) \<longleftrightarrow> (\<exists>i \<le> ?K. \<exists>j \<le> ?K. P i j)" for P
    proof -
      have "{0..int ?K} = int ` {..?K}" using image_int_atLeastAtMost [of 0 ?K] by (simp add: atMost_atLeast0 del: image_int_atLeastAtMost)
      then show ?thesis by (simp only: bex_simps nat_int) auto
    qed
    have "is_aligned v x y \<longleftrightarrow> (\<exists>i \<in> {0..int ?K}. \<exists>j \<in> {0..int ?K}. ?P (nat i) (nat j))"
      unfolding is_aligned_def assms Let_def list_ex_iff finder_corner_def set_upto
      by (intro bex_cong) auto
    then show ?thesis using ex [of ?P] by blast
  qed
  also have "\<dots> \<longleftrightarrow> x \<in> band (mid @ [z]) \<and> y \<in> band (mid @ [z]) \<or> \<bar>x - 6\<bar> \<le> 2 \<and> y \<in> band mid \<or> x \<in> band mid \<and> \<bar>y - 6\<bar> \<le> 2"
    (is "_ \<longleftrightarrow> ?S")
  proof
    assume ?R
    then obtain i j where ij: "i \<le> ?K" "j \<le> ?K" "\<not> (i = 0 \<and> j = 0 \<or> i = 0 \<and> j = ?K \<or> i = ?K \<and> j = 0)"
      "\<bar>x - ?ps ! i\<bar> \<le> 2" "\<bar>y - ?ps ! j\<bar> \<le> 2" by blast
    have inner: "u \<in> band (mid @ [z])" if "\<bar>u - ?ps ! Suc k\<bar> \<le> 2" "Suc k \<le> ?K" for u k
      unfolding in_band using that by (intro exI [of _ k]) simp
    have edge: "u \<in> band mid" if "\<bar>u - ?ps ! Suc k\<bar> \<le> 2" "Suc k < ?K" for u k
      unfolding in_band using that by (intro exI [of _ k]) (simp add: nth_append)
    show ?S
    proof (cases i)
      case 0
      then obtain k where "j = Suc k" "Suc k < ?K" using ij(2,3) by (cases j) auto
      then show ?thesis using ij(4,5) 0 edge [of y k] by simp
    next
      case i: (Suc l)
      show ?thesis
      proof (cases j)
        case 0
        then have "Suc l < ?K" using ij(1,3) i by auto
        then show ?thesis using ij(4,5) 0 i edge [of x l] by simp
      next
        case (Suc k)
        then show ?thesis using inner [of x l] inner [of y k] ij i by simp
      qed
    qed
  next
    have inner: "\<exists>k. Suc k \<le> ?K \<and> \<bar>u - ?ps ! Suc k\<bar> \<le> 2" if "u \<in> band (mid @ [z])" for u
      using that unfolding in_band by (auto simp: less_Suc_eq_le)
    have edge: "\<exists>k. Suc k < ?K \<and> \<bar>u - ?ps ! Suc k\<bar> \<le> 2" if "u \<in> band mid" for u
      using that unfolding in_band by (auto simp: nth_append)
    have R: ?R if "i \<le> ?K" "j \<le> ?K" "\<not> (i = 0 \<and> j = 0 \<or> i = 0 \<and> j = ?K \<or> i = ?K \<and> j = 0)"
      "\<bar>x - ?ps ! i\<bar> \<le> 2" "\<bar>y - ?ps ! j\<bar> \<le> 2" for i j using that by blast
    assume ?S
    then consider "x \<in> band (mid @ [z])" "y \<in> band (mid @ [z])" | "\<bar>x - 6\<bar> \<le> 2" "y \<in> band mid" | "x \<in> band mid" "\<bar>y - 6\<bar> \<le> 2"
      by blast
    then show ?R
    proof cases
      case 1
      then obtain k l where "Suc k \<le> ?K" "\<bar>x - ?ps ! Suc k\<bar> \<le> 2" "Suc l \<le> ?K" "\<bar>y - ?ps ! Suc l\<bar> \<le> 2" using inner by blast
      then show ?thesis by (intro R [of "Suc k" "Suc l"]) auto
    next
      case 2
      then obtain k where "Suc k < ?K" "\<bar>y - ?ps ! Suc k\<bar> \<le> 2" using edge by blast
      then show ?thesis using 2 by (intro R [of 0 "Suc k"]) auto
    next
      case 3
      then obtain k where "Suc k < ?K" "\<bar>x - ?ps ! Suc k\<bar> \<le> 2" using edge by blast
      then show ?thesis using 3 by (intro R [of "Suc k" 0]) auto
    qed
  qed
  finally show ?thesis .
qed

text \<open>The function modules as disjoint rectangles.\<close>

definition blocks_for :: "int \<Rightarrow> (int set \<times> int set) list" where
  "blocks_for v =
     (let n = v * 4 + 17
      in if 7 \<le> v then [({n - 11..n - 9}, {0..5}), ({0..5}, {n - 11..n - 9})] else [])"

definition function_rects :: "int \<Rightarrow> int set \<Rightarrow> int set \<Rightarrow> (int set \<times> int set) list" where
  "function_rects v I M =
     (let n = v * 4 + 17
      in [({0..8}, {0..8}), ({n - 8..n - 1}, {0..8}), ({0..8}, {n - 8..n - 1}), ({6}, {9..n - 9}), ({9..n - 9}, {6}),
          (I, I), ({4, 5, 7, 8}, M), (M, {4, 5, 7, 8})] @ blocks_for v)"

lemma card_rects:
  assumes "sorted_wrt (\<lambda>a b. fst a \<inter> fst b = {} \<or> snd a \<inter> snd b = {}) rs" "\<forall>(a, b) \<in> set rs. finite a \<and> finite b"
  shows "card (\<Union>(a, b) \<in> set rs. a \<times> b) = (\<Sum>(a, b) \<leftarrow> rs. card a * card b)" "finite (\<Union>(a, b) \<in> set rs. a \<times> b)"
proof -
  show fin: "finite (\<Union>(a, b) \<in> set rs. a \<times> b)" using assms(2) by auto
  show "card (\<Union>(a, b) \<in> set rs. a \<times> b) = (\<Sum>(a, b) \<leftarrow> rs. card a * card b)" using assms
  proof (induction rs)
    case (Cons r rs)
    obtain a b where r: "r = (a, b)" by fastforce
    have "(a \<times> b) \<inter> (\<Union>(a, b) \<in> set rs. a \<times> b) = {}" using Cons.prems(1) by (fastforce simp: r)
    moreover have "finite (a \<times> b)" "finite (\<Union>(a, b) \<in> set rs. a \<times> b)" using Cons.prems(2) by (auto simp: r)
    ultimately show ?case using Cons by (simp add: r card_Un_disjoint card_cartesian_product)
  qed simp
qed

lemma rects_disjoint:
  assumes "n = v * 4 + 17" "1 \<le> v" "I \<subseteq> {16..n - 5}" "M \<subseteq> {20..n - 21}"
  shows "sorted_wrt (\<lambda>a b. fst a \<inter> fst b = {} \<or> snd a \<inter> snd b = {}) (function_rects v I M)"
  using assms by (auto simp: function_rects_def blocks_for_def Let_def disjoint_iff subset_iff)

lemma function_rects_cells:
  assumes "n = v * 4 + 17" "1 \<le> v" "I \<subseteq> {16..n - 5}" "M \<subseteq> {20..n - 21}" "(x, y) \<in> cells n"
    and "is_aligned v x y \<longleftrightarrow> x \<in> I \<and> y \<in> I \<or> \<bar>x - 6\<bar> \<le> 2 \<and> y \<in> M \<or> x \<in> M \<and> \<bar>y - 6\<bar> \<le> 2"
  shows "is_function v x y \<longleftrightarrow> (\<exists>(a, b) \<in> set (function_rects v I M). x \<in> a \<and> y \<in> b)"
proof -
  have bounds: "0 \<le> x" "x < n" "0 \<le> y" "y < n" using assms(5) by (auto simp: cells_def)
  have I: "u \<in> I \<Longrightarrow> 16 \<le> u \<and> u \<le> n - 5" and M: "u \<in> M \<Longrightarrow> 20 \<le> u \<and> u \<le> n - 21" for u using assms(3,4) by auto
  have rect: "(\<exists>(a, b) \<in> set ((p, q) # rs). x \<in> a \<and> y \<in> b) \<longleftrightarrow> x \<in> p \<and> y \<in> q \<or> (\<exists>(a, b) \<in> set rs. x \<in> a \<and> y \<in> b)"
    "(\<exists>(a, b) \<in> set []. x \<in> a \<and> y \<in> b) \<longleftrightarrow> False" for p q rs by auto
  have inside: "(0 \<le> x) = True" "(x \<le> n - 1) = True" "(0 \<le> y) = True" "(y \<le> n - 1) = True" using bounds by auto
  let ?V = "7 \<le> v \<and> (n - 11 \<le> x \<and> x \<le> n - 9 \<and> y \<le> 5 \<or> x \<le> 5 \<and> n - 11 \<le> y \<and> y \<le> n - 9)"
  let ?F = "x \<le> 8 \<and> y \<le> 8 \<or> n - 8 \<le> x \<and> y \<le> 8 \<or> x \<le> 8 \<and> n - 8 \<le> y"
  have lines: "?F \<or> x = 6 \<or> y = 6 \<longleftrightarrow> ?F \<or> x = 6 \<and> 9 \<le> y \<and> y \<le> n - 9 \<or> 9 \<le> x \<and> x \<le> n - 9 \<and> y = 6"
    using bounds by auto
  have side: "\<bar>u - 6\<bar> \<le> 2 \<longleftrightarrow> u = 4 \<or> u = 5 \<or> u = 6 \<or> u = 7 \<or> u = 8" for u :: int by auto
  have 1: "is_function v x y \<longleftrightarrow> (?F \<or> x = 6 \<or> y = 6) \<or>
      (x \<in> I \<and> y \<in> I \<or> (x = 4 \<or> x = 5 \<or> x = 7 \<or> x = 8) \<and> y \<in> M \<or> x \<in> M \<and> (y = 4 \<or> y = 5 \<or> y = 7 \<or> y = 8)) \<or> ?V"
    unfolding is_function_def assms(6) Let_def assms(1) [symmetric] side by blast
  have 2: "(\<exists>(a, b) \<in> set (function_rects v I M). x \<in> a \<and> y \<in> b) \<longleftrightarrow>
      (?F \<or> x = 6 \<and> 9 \<le> y \<and> y \<le> n - 9 \<or> 9 \<le> x \<and> x \<le> n - 9 \<and> y = 6) \<or>
      (x \<in> I \<and> y \<in> I \<or> (x = 4 \<or> x = 5 \<or> x = 7 \<or> x = 8) \<and> y \<in> M \<or> x \<in> M \<and> (y = 4 \<or> y = 5 \<or> y = 7 \<or> y = 8)) \<or> ?V"
    unfolding function_rects_def blocks_for_def Let_def assms(1) [symmetric]
    by (cases "7 \<le> v") (simp_all only: if_True if_False append_Cons append_Nil append_Nil2 rect atLeastAtMost_iff singleton_iff insert_iff
      empty_iff inside simp_thms disj_assoc conj_assoc)
  show ?thesis unfolding 1 2 lines by (rule refl)
qed

lemma align_bands:
  assumes "1 \<le> v" "v \<le> 40" "n = v * 4 + 17"
  shows "\<exists>I M. I \<subseteq> {16..n - 5} \<and> M \<subseteq> {20..n - 21} \<and>
    (\<forall>x y. is_aligned v x y \<longleftrightarrow> x \<in> I \<and> y \<in> I \<or> \<bar>x - 6\<bar> \<le> 2 \<and> y \<in> M \<or> x \<in> M \<and> \<bar>y - 6\<bar> \<le> 2) \<and>
    int (card I) = (if v = 1 then 0 else 5 * (v div 7 + 1)) \<and> int (card M) = (if v = 1 then 0 else 5 * (v div 7))"
proof (cases "v = 1")
  case True
  have "is_aligned v x y = False" for x y by (simp add: is_aligned_def align_pos_def True)
  then show ?thesis using True by (intro exI [of _ "{}"]) simp
next
  case False
  then obtain mid where mid: "align_pos v = 6 # mid @ [n - 7]" "\<And>p. p \<in> set mid \<Longrightarrow> 22 \<le> p \<and> p \<le> n - 23"
      "sorted_wrt (\<lambda>p r. p + 12 \<le> r) (align_pos v)"
    using align_structure [OF assms(1,2) _ assms(3)] by blast
  have "int (length (align_pos v)) = v div 7 + 2"
    using False assms(1) by (simp add: align_pos_def align_count_def)
  then have len: "int (length mid) = v div 7" using mid(1) by simp
  have sorted: "sorted_wrt (\<lambda>p r. p + 12 \<le> r) (mid @ [n - 7])" "sorted_wrt (\<lambda>p r. p + 12 \<le> r) mid"
    using mid(1,3) by (simp_all add: sorted_wrt_append)
  have M: "band mid \<subseteq> {20..n - 21}" using mid(2) by (fastforce simp: band_def)
  moreover have "band (mid @ [n - 7]) \<subseteq> {16..n - 5}" using M False assms(1,3) by (auto simp: subset_iff)
  moreover have "int (card (band (mid @ [n - 7]))) = 5 * (v div 7 + 1)" "int (card (band mid)) = 5 * (v div 7)"
    unfolding card_band [OF sorted(1)] card_band [OF sorted(2)] using len by simp_all
  ultimately show ?thesis
    using False is_aligned_bands [OF mid(1)] by (intro exI [of _ "band (mid @ [n - 7])"] exI [of _ "band mid"]) simp
qed

definition data_cells :: "int \<Rightarrow> (int \<times> int) set" where
  "data_cells v = {c \<in> cells (v * 4 + 17). \<not> is_function v (fst c) (snd c)}"

lemma raw_total: "list_all (\<lambda>v. getNumRawDataModules v \<noteq> None) [1..40]"
  by code_simp

lemma card_function_cells:
  assumes "1 \<le> v" "v \<le> 40"
  shows "int (card (cells (v * 4 + 17) \<inter> function_cells v)) =
    225 + 8 * v + (if v = 1 then 0 else 25 * (v div 7 + 1) * (v div 7 + 1) + 40 * (v div 7)) + (if 7 \<le> v then 36 else 0)"
proof -
  define n where "n = v * 4 + 17"
  obtain I M where IM: "I \<subseteq> {16..n - 5}" "M \<subseteq> {20..n - 21}"
    "\<And>x y. is_aligned v x y \<longleftrightarrow> x \<in> I \<and> y \<in> I \<or> \<bar>x - 6\<bar> \<le> 2 \<and> y \<in> M \<or> x \<in> M \<and> \<bar>y - 6\<bar> \<le> 2"
    "int (card I) = (if v = 1 then 0 else 5 * (v div 7 + 1))" "int (card M) = (if v = 1 then 0 else 5 * (v div 7))"
    using align_bands [OF assms n_def] by blast
  let ?rs = "function_rects v I M"
  have fin: "finite I" "finite M" using IM(1,2) by (auto intro: finite_subset)
  then have finite: "\<forall>(a, b) \<in> set ?rs. finite a \<and> finite b"
    by (auto simp: function_rects_def blocks_for_def Let_def)
  have sub: "a \<subseteq> {0..n - 1} \<and> b \<subseteq> {0..n - 1}" if "(a, b) \<in> set ?rs" for a b
  proof -
    have "I \<subseteq> {0..n - 1}" "M \<subseteq> {0..n - 1}" using IM(1,2) by auto
    then show ?thesis using that assms(1) by (auto simp: function_rects_def blocks_for_def Let_def n_def split: if_splits)
  qed
  have "cells n \<inter> function_cells v = (\<Union>(a, b) \<in> set ?rs. a \<times> b)"
  proof (intro set_eqI iffI)
    fix c assume c: "c \<in> cells n \<inter> function_cells v"
    obtain x y where xy: "c = (x, y)" by fastforce
    have "is_function v x y" "(x, y) \<in> cells n" using c xy by (auto simp: function_cells_def)
    then have "\<exists>(a, b) \<in> set ?rs. x \<in> a \<and> y \<in> b"
      using function_rects_cells [OF n_def assms(1) IM(1,2) _ IM(3)] by blast
    then show "c \<in> (\<Union>(a, b) \<in> set ?rs. a \<times> b)" using xy by fastforce
  next
    fix c assume "c \<in> (\<Union>(a, b) \<in> set ?rs. a \<times> b)"
    then obtain a b x y where ab: "(a, b) \<in> set ?rs" "x \<in> a" "y \<in> b" "c = (x, y)" by auto
    then have cell: "(x, y) \<in> cells n" using sub [OF ab(1)] by (auto simp: cells_def)
    have "is_function v x y" using function_rects_cells [OF n_def assms(1) IM(1,2) cell IM(3)] ab by blast
    then show "c \<in> cells n \<inter> function_cells v" using cell ab(4) by (simp add: function_cells_def)
  qed
  then have "int (card (cells n \<inter> function_cells v)) = int (\<Sum>(a, b) \<leftarrow> ?rs. card a * card b)"
    using card_rects(1) [OF rects_disjoint [OF n_def assms(1) IM(1,2)] finite] by simp
  also have "\<dots> = 225 + 8 * v + int (card I) * int (card I) + 8 * int (card M) + (if 7 \<le> v then 36 else 0)"
    using assms(1) by (simp add: function_rects_def blocks_for_def Let_def)
  finally show ?thesis using IM(4,5) unfolding n_def by (simp add: algebra_simps)
qed

lemma raw_count:
  assumes "1 \<le> v" "v \<le> 40"
  shows "getNumRawDataModules v = Some (int (card (data_cells v)))"
proof -
  let ?n = "v * 4 + 17"
  have fin: "finite (cells ?n)" by (simp add: cells_def)
  have "data_cells v = cells ?n - (cells ?n \<inter> function_cells v)" by (auto simp: data_cells_def function_cells_def)
  then have "card (data_cells v) = card (cells ?n) - card (cells ?n \<inter> function_cells v)"
    using fin by (simp add: card_Diff_subset)
  moreover have "card (cells ?n \<inter> function_cells v) \<le> card (cells ?n)" using fin by (intro card_mono) auto
  moreover have "int (card (cells ?n)) = ?n * ?n" using assms(1) by (simp add: cells_def card_cartesian_product)
  ultimately have "int (card (data_cells v)) = ?n * ?n - int (card (cells ?n \<inter> function_cells v))" by simp
  moreover obtain r where r: "getNumRawDataModules v = Some r"
    using table_entry [OF raw_total assms] by blast
  then have "r = (16 * v + 128) * v + 64 - (if 2 \<le> v then (25 * (v div 7 + 2) - 10) * (v div 7 + 2) - 55 else 0) - (if 7 \<le> v then 36 else 0)"
    by (auto simp: getNumRawDataModules_def Let_def split: if_splits)
  ultimately show ?thesis using r card_function_cells [OF assms] assms(1) by (simp add: algebra_simps split: if_splits)
qed

text \<open>
  For every version the closed formula equals the number of modules that are not function modules.
\<close>

lemma data_modules_counted:
  assumes "1 \<le> v" "v \<le> 40"
  shows "getNumRawDataModules v = Some (int (card {(x, y). 0 \<le> x \<and> x < v * 4 + 17 \<and> 0 \<le> y \<and> y < v * 4 + 17 \<and> \<not> is_function v x y}))"
proof -
  have "data_cells v = {(x, y). 0 \<le> x \<and> x < v * 4 + 17 \<and> 0 \<le> y \<and> y < v * 4 + 17 \<and> \<not> is_function v x y}"
    by (auto simp: data_cells_def cells_def)
  then show ?thesis using raw_count [OF assms] by simp
qed

end
