(* ===== verification/Qr_Data.thy ===== *)
theory Qr_Data
  imports Qr_Count
begin

text \<open>
  Drawing the codewords in the zigzag scan, and the mask patterns.  The scan visits each cell outside the timing column
  once; so the data modules in scan order hold the bits of the codewords, and a mask applied twice is undone.
\<close>

section \<open>The routines\<close>

text \<open>The right columns of the column pairs, from \<open>right\<close> on; the timing column 6 is skipped.\<close>

function column_pairs :: "int \<Rightarrow> int list" where
  "column_pairs right =
     (if right < 1 then [] else let r = (if right = 6 then 5 else right) in r # column_pairs (r - 2))"
  by auto
termination by (relation "measure nat") (auto split: if_splits)

declare column_pairs.simps [simp del]

definition zigzag_cell :: "int \<Rightarrow> int \<Rightarrow> int \<Rightarrow> int \<Rightarrow> int \<times> int" where
  "zigzag_cell qrsize right vert j = (right - j, if (right + 1) AND 2 = 0 then qrsize - 1 - vert else vert)"

definition codeword_turn :: "bytes \<Rightarrow> nat \<Rightarrow> int \<times> int \<Rightarrow> bytes \<times> nat \<Rightarrow> (bytes \<times> nat) option" where
  "codeword_turn data dataLen c s =
     (case c of (x, y) \<Rightarrow> case s of (q, i) \<Rightarrow> do {
        m \<leftarrow> getModule q x y;
        if \<not> m \<and> i < dataLen * 8
        then do {
          d \<leftarrow> load data (int (i div 8));
          q' \<leftarrow> setModule x y (getBit (uint d) (7 - i mod 8)) q;
          Some (q', i + 1)
        }
        else Some (q, i)
      })"

definition drawCodewords :: "bytes \<Rightarrow> nat \<Rightarrow> bytes \<Rightarrow> bytes option" where
  "drawCodewords data dataLen qrcode = do {
     qrsize \<leftarrow> qrcodegen_getSize qrcode;
     (q, i) \<leftarrow> for_each (\<lambda>right. for_each (\<lambda>vert. for_each (\<lambda>j. codeword_turn data dataLen (zigzag_cell qrsize right vert j))
                  [0..1]) [0..qrsize - 1]) (column_pairs (qrsize - 1)) (qrcode, 0);
     _ \<leftarrow> asserting (i = dataLen * 8);
     Some q
   }"

text \<open>The eight mask patterns.\<close>

definition mask_inverts :: "int \<Rightarrow> int \<Rightarrow> int \<Rightarrow> bool" where
  "mask_inverts msk x y =
     (if msk = 0 then (x + y) mod 2 = 0
      else if msk = 1 then y mod 2 = 0
      else if msk = 2 then x mod 3 = 0
      else if msk = 3 then (x + y) mod 3 = 0
      else if msk = 4 then (x div 3 + y div 2) mod 2 = 0
      else if msk = 5 then x * y mod 2 + x * y mod 3 = 0
      else if msk = 6 then (x * y mod 2 + x * y mod 3) mod 2 = 0
      else ((x + y) mod 2 + x * y mod 3) mod 2 = 0)"

definition applyMask :: "bytes \<Rightarrow> int \<Rightarrow> bytes \<Rightarrow> bytes option" where
  "applyMask functionModules msk qrcode = do {
     _ \<leftarrow> asserting (0 \<le> msk \<and> msk \<le> 7);
     qrsize \<leftarrow> qrcodegen_getSize qrcode;
     for_each (\<lambda>y. for_each (\<lambda>x q. do {
       f \<leftarrow> getModule functionModules x y;
       if f then Some q
       else do {
         val \<leftarrow> getModule q x y;
         setModule x y (val \<noteq> mask_inverts msk x y) q
       }
     }) [0..qrsize - 1]) [0..qrsize - 1] qrcode
   }"

section \<open>The zigzag scan\<close>

definition zigzag :: "int \<Rightarrow> (int \<times> int) list" where
  "zigzag n = concat (map (\<lambda>right. concat (map (\<lambda>vert. map (zigzag_cell n right vert) [0..1]) [0..n - 1])) (column_pairs (n - 1)))"

lemma for_each_concat: "for_each f (concat (map g xs)) = for_each (\<lambda>x. for_each f (g x)) xs"
proof
  show "for_each f (concat (map g xs)) s = for_each (\<lambda>x. for_each f (g x)) xs s" for s
    by (induction xs arbitrary: s) (auto simp: for_each_append split: bind_splits)
qed

lemma zigzag_loop:
  "for_each (\<lambda>right. for_each (\<lambda>vert. for_each (\<lambda>j. f (zigzag_cell n right vert j)) [0..1]) [0..n - 1]) (column_pairs (n - 1)) s =
   for_each f (zigzag n) s"
  unfolding zigzag_def for_each_concat for_each_map [THEN ext] by (rule refl)

lemma column_pairs_even:
  "length (column_pairs (2 * (int k + 3))) = k + 3 \<and>
   (\<Union>r \<in> set (column_pairs (2 * (int k + 3))). {r, r - 1}) = {0..5} \<union> {7..2 * (int k + 3)}"
proof (induction k)
  case 0
  have "column_pairs 6 = [5, 3, 1]" by (simp add: column_pairs.simps)
  then show ?case by auto
next
  case (Suc k)
  have "column_pairs (2 * (int (Suc k) + 3)) = 2 * (int (Suc k) + 3) # column_pairs (2 * (int k + 3))"
    using column_pairs.simps [of "2 * (int (Suc k) + 3)"] by (simp add: algebra_simps)
  then show ?case using Suc by auto
qed

lemma columns:
  assumes "n = v * 4 + 17" "1 \<le> v"
  shows "length (column_pairs (n - 1)) = nat ((n - 1) div 2)" "(\<Union>r \<in> set (column_pairs (n - 1)). {r, r - 1}) = {0..n - 1} - {6}"
proof -
  obtain k where k: "n - 1 = 2 * (int k + 3)" using assms by (intro that [of "nat (2 * v + 5)"]) simp
  show "length (column_pairs (n - 1)) = nat ((n - 1) div 2)" "(\<Union>r \<in> set (column_pairs (n - 1)). {r, r - 1}) = {0..n - 1} - {6}"
    using column_pairs_even [of k] unfolding k by auto
qed

lemma zigzag_column: "0 \<le> n \<Longrightarrow> (\<lambda>vert. if b then n - 1 - vert else vert) ` {0..n - 1} = {0..n - 1 :: int}"
proof (cases b)
  case True
  have "x \<in> (\<lambda>vert. n - 1 - vert) ` {0..n - 1}" if "x \<in> {0..n - 1}" for x using that by (intro image_eqI [of _ _ "n - 1 - x"]) auto
  then show ?thesis using True by auto
qed simp

lemma set_zigzag:
  assumes "n = v * 4 + 17" "1 \<le> v"
  shows "set (zigzag n) = {c \<in> cells n. fst c \<noteq> 6}"
proof -
  have "set (map (zigzag_cell n r vert) [0..1]) = {r, r - 1} \<times> {if (r + 1) AND 2 = 0 then n - 1 - vert else vert}" for r vert
    by (auto simp: zigzag_cell_def)
  then have col: "set (concat (map (\<lambda>vert. map (zigzag_cell n r vert) [0..1]) [0..n - 1])) =
      {r, r - 1} \<times> (\<lambda>vert. if (r + 1) AND 2 = 0 then n - 1 - vert else vert) ` {0..n - 1}" for r
    by (simp only: set_concat set_map image_image set_upto) blast
  have n: "0 \<le> n" using assms by simp
  have "set (zigzag n) = (\<Union>r \<in> set (column_pairs (n - 1)). set (concat (map (\<lambda>vert. map (zigzag_cell n r vert) [0..1]) [0..n - 1])))"
    by (simp add: zigzag_def)
  also have "\<dots> = (\<Union>r \<in> set (column_pairs (n - 1)). {r, r - 1} \<times> {0..n - 1})"
    unfolding col zigzag_column [OF n] by (rule refl)
  also have "\<dots> = (\<Union>r \<in> set (column_pairs (n - 1)). {r, r - 1}) \<times> {0..n - 1}"
    by (rule set_eqI) (simp only: UN_iff mem_Times_iff, blast)
  also have "\<dots> = ({0..n - 1} - {6}) \<times> {0..n - 1}" unfolding columns(2) [OF assms] by (rule refl)
  also have "\<dots> = {c \<in> cells n. fst c \<noteq> 6}" by (auto simp: cells_def)
  finally show ?thesis .
qed

lemma length_zigzag:
  assumes "n = v * 4 + 17" "1 \<le> v"
  shows "length (zigzag n) = nat ((n - 1) * n)"
proof -
  have "length (zigzag n) = length (column_pairs (n - 1)) * (nat n * 2)"
    by (simp add: zigzag_def length_concat o_def sum_list_triv del: upto_rec_numeral)
  also have "\<dots> = nat ((n - 1) div 2 * 2 * n)" using assms unfolding columns(1) [OF assms] by (simp add: nat_mult_distrib)
  also have "(n - 1) div 2 * 2 = n - 1" using assms by simp
  finally show ?thesis .
qed

lemma distinct_zigzag:
  assumes "n = v * 4 + 17" "1 \<le> v"
  shows "distinct (zigzag n)"
proof (rule card_distinct)
  have "set (zigzag n) = ({0..n - 1} - {6}) \<times> {0..n - 1}" unfolding set_zigzag [OF assms] by (auto simp: cells_def)
  then have "card (set (zigzag n)) = card ({0..n - 1} - {6}) * card {0..n - 1}" by (simp only: card_cartesian_product)
  moreover have "21 \<le> n" using assms by simp
  ultimately show "card (set (zigzag n)) = length (zigzag n)"
    unfolding length_zigzag [OF assms] by (simp add: nat_mult_distrib nat_diff_distrib)
qed

text \<open>The data modules in scan order.\<close>

definition data_order :: "int \<Rightarrow> (int \<times> int) list" where
  "data_order v = filter (\<lambda>(x, y). \<not> is_function v x y) (zigzag (v * 4 + 17))"

lemma data_order:
  assumes "1 \<le> v" "v \<le> 40"
  shows "set (data_order v) = data_cells v" "distinct (data_order v)" "getNumRawDataModules v = Some (int (length (data_order v)))"
proof -
  have "is_function v 6 y" for y by (simp add: is_function_def)
  then show set: "set (data_order v) = data_cells v"
    unfolding data_order_def data_cells_def using set_zigzag [OF refl assms(1)] by auto
  show dist: "distinct (data_order v)" using distinct_zigzag [OF refl assms(1)] by (simp add: data_order_def)
  show "getNumRawDataModules v = Some (int (length (data_order v)))"
    using raw_count [OF assms] distinct_card [OF dist] set by simp
qed

section \<open>Drawing the codewords\<close>

abbreviation module_of :: "int \<Rightarrow> bytes \<Rightarrow> int \<times> int \<Rightarrow> bool" where
  "module_of n q c \<equiv> module_at n q (fst c) (snd c)"

text \<open>After the cells \<open>cs\<close> have been visited, starting from \<open>q\<close>: the white ones hold bits, in order.\<close>

definition codewords_drawn :: "int \<Rightarrow> bytes \<Rightarrow> bytes \<Rightarrow> nat \<Rightarrow> (int \<times> int) list \<Rightarrow> bytes \<times> nat \<Rightarrow> bool" where
  "codewords_drawn n q data dataLen cs s =
     (let ds = filter (\<lambda>c. \<not> module_of n q c) cs
      in wf_grid n (fst s) \<and> length (fst s) = length q \<and> snd s = min (length ds) (dataLen * 8) \<and>
         (\<forall>k < length ds. module_of n (fst s) (ds ! k) = (k < dataLen * 8 \<and> buf_bit data k)) \<and>
         (\<forall>c \<in> cells n. c \<notin> set ds \<longrightarrow> module_of n (fst s) c = module_of n q c))"

lemma codeword_turn_ok:
  assumes "codewords_drawn n q data dataLen cs s" "distinct (cs @ [c])" "set (cs @ [c]) \<subseteq> cells n" "dataLen \<le> length data"
  shows "\<exists>s'. codeword_turn data dataLen c s = Some s' \<and> codewords_drawn n q data dataLen (cs @ [c]) s'"
proof -
  obtain x y where c: "c = (x, y)" by fastforce
  obtain q1 i where s: "s = (q1, i)" by fastforce
  define ds where "ds = filter (\<lambda>c. \<not> module_of n q c) cs"
  have I: "wf_grid n q1" "length q1 = length q" "i = min (length ds) (dataLen * 8)"
    "\<forall>k < length ds. module_of n q1 (ds ! k) = (k < dataLen * 8 \<and> buf_bit data k)"
    "\<forall>c \<in> cells n. c \<notin> set ds \<longrightarrow> module_of n q1 c = module_of n q c"
    using assms(1) by (simp_all add: codewords_drawn_def s ds_def Let_def)
  have cell: "(x, y) \<in> cells n" "c \<notin> set ds" using assms(2,3) by (auto simp: c ds_def)
  then have old: "module_at n q1 x y = module_of n q c" using I(5) [THEN bspec, of c] by (simp add: c)
  have next_ds: "filter (\<lambda>c. \<not> module_of n q c) (cs @ [c]) = (if module_of n q c then ds else ds @ [c])" by (simp add: ds_def)
  have dsc: "ds ! k \<in> cells n \<and> ds ! k \<noteq> c" if "k < length ds" for k
  proof -
    have "ds ! k \<in> set ds" using that by simp
    then show ?thesis using assms(3) cell(2) by (auto simp: ds_def)
  qed
  note get = getModule_ok [OF I(1) cell(1)]
  show ?thesis
  proof (cases "module_of n q c \<or> dataLen * 8 \<le> length ds")
    case True
    then have "codeword_turn data dataLen c s = Some (q1, i)" using get old I(3) by (auto simp: codeword_turn_def c s)
    moreover have "codewords_drawn n q data dataLen (cs @ [c]) (q1, i)"
    proof (cases "module_of n q c")
      case True
      then show ?thesis unfolding codewords_drawn_def Let_def next_ds using I by simp
    next
      case False
      then have "module_at n q1 x y = False" "dataLen * 8 \<le> length ds" using old True by auto
      then show ?thesis unfolding codewords_drawn_def Let_def next_ds using False I by (auto simp: nth_append c less_Suc_eq)
    qed
    ultimately show ?thesis by blast
  next
    case False
    then have lt: "length ds < dataLen * 8" "i = length ds" "\<not> module_at n q1 x y" using I(3) old by auto
    then have idx: "length ds div 8 < length data" using assms(4) by linarith
    obtain q2 where q2: "setModule x y (buf_bit data (length ds)) q1 = Some q2" "wf_grid n q2" "length q2 = length q1"
      "\<And>x' y'. (x', y') \<in> cells n \<Longrightarrow> module_at n q2 x' y' = (if (x', y') = (x, y) then buf_bit data (length ds) else module_at n q1 x' y')"
      using setModule_ok [OF I(1) cell(1)] by blast
    have "codeword_turn data dataLen c s = Some (q2, Suc (length ds))"
      using get lt idx q2(1) by (simp add: codeword_turn_def c s load_def getBit_uint buf_bit_def)
    moreover have "codewords_drawn n q data dataLen (cs @ [c]) (q2, Suc (length ds))"
    proof -
      have other: "module_of n q2 d = module_of n q1 d" if "d \<in> cells n" "d \<noteq> c" for d
        using q2(4) [of "fst d" "snd d"] that by (auto simp: c)
      have here: "module_of n q2 c = buf_bit data (length ds)" using q2(4) [OF cell(1)] by (simp add: c)
      have "module_of n q2 ((ds @ [c]) ! k) = (k < dataLen * 8 \<and> buf_bit data k)" if "k < length (ds @ [c])" for k
      proof (cases "k < length ds")
        case True
        then show ?thesis using other dsc [OF True] I(4) by (simp add: nth_append)
      next
        case False
        then have "k = length ds" using that by simp
        then show ?thesis using here lt(1) by simp
      qed
      moreover have "module_of n q2 d = module_of n q d" if "d \<in> cells n" "d \<notin> set (ds @ [c])" for d
        using that other [of d] I(5) by simp
      ultimately show ?thesis unfolding codewords_drawn_def Let_def next_ds using False q2(2,3) I(2) lt(1) by simp
    qed
    ultimately show ?thesis by blast
  qed
qed

lemma drawCodewords_ok:
  assumes "1 \<le> v" "v \<le> 40" "n = v * 4 + 17" "wf_grid n q" "\<And>x y. (x, y) \<in> cells n \<Longrightarrow> module_at n q x y = is_function v x y"
    and "dataLen \<le> length data" "dataLen * 8 \<le> length (data_order v)"
  shows "\<exists>q'. drawCodewords data dataLen q = Some q' \<and> wf_grid n q' \<and> length q' = length q \<and>
    (\<forall>k < length (data_order v). module_of n q' (data_order v ! k) = (k < dataLen * 8 \<and> buf_bit data k)) \<and>
    (\<forall>c \<in> cells n. c \<notin> data_cells v \<longrightarrow> module_of n q' c)"
proof -
  have cells: "set (zigzag n) \<subseteq> cells n" using set_zigzag [OF assms(3,1)] by auto
  have order: "filter (\<lambda>c. \<not> module_of n q c) (zigzag n) = data_order v"
    unfolding data_order_def assms(3) [symmetric] using cells assms(5) by (intro filter_cong refl) auto
  have "\<exists>s. for_each (codeword_turn data dataLen) (zigzag n) (q, 0) = Some s \<and> codewords_drawn n q data dataLen (zigzag n) s"
  proof (rule for_each_inv)
    show "codewords_drawn n q data dataLen [] (q, 0)" using assms(4) by (simp add: codewords_drawn_def)
    fix ys x zs t assume split: "zigzag n = ys @ x # zs" and I: "codewords_drawn n q data dataLen ys t"
    have "distinct (ys @ [x])" using distinct_zigzag [OF assms(3,1)] split by simp
    moreover have "set (ys @ [x]) \<subseteq> cells n" using cells split by simp
    ultimately show "\<exists>t'. codeword_turn data dataLen x t = Some t' \<and> codewords_drawn n q data dataLen (ys @ [x]) t'"
      using codeword_turn_ok [OF I _ _ assms(6)] by blast
  qed
  then obtain q' i where loop: "for_each (codeword_turn data dataLen) (zigzag n) (q, 0) = Some (q', i)"
    and I: "codewords_drawn n q data dataLen (zigzag n) (q', i)" by auto
  have "i = dataLen * 8" using I assms(7) by (simp add: codewords_drawn_def order Let_def)
  then have "drawCodewords data dataLen q = Some q'"
    unfolding drawCodewords_def getSize_ok [OF assms(4)] bind.simps zigzag_loop loop by simp
  moreover have "module_of n q' c" if "c \<in> cells n" "c \<notin> data_cells v" for c
  proof -
    have "module_of n q' c = module_of n q c" using I that data_order(1) [OF assms(1,2)] by (simp add: codewords_drawn_def order Let_def)
    then show ?thesis using that assms(5) [of "fst c" "snd c"] by (auto simp: data_cells_def assms(3))
  qed
  ultimately show ?thesis using I by (auto simp: codewords_drawn_def order Let_def)
qed

section \<open>Masks\<close>

text \<open>The function modules are marked in a grid of the same size; the mask inverts among the others.\<close>

lemma distinct_rows: "distinct xs \<Longrightarrow> distinct ys \<Longrightarrow> distinct (concat (map (\<lambda>y. map (\<lambda>x. (x, y)) xs) ys))"
  by (induction ys) (auto simp: distinct_map inj_on_def)

lemma paints_update:
  assumes "(x, y) \<in> cells n"
  shows "paints n (\<lambda>x' y' b. if (x', y') = (x, y) then g b else b) (\<lambda>q. Option.bind (getModule q x y) (\<lambda>val. setModule x y (g val) q))"
  unfolding paints_def
proof (intro allI impI)
  fix q assume wf: "wf_grid n q"
  then show "\<exists>q'. Option.bind (getModule q x y) (\<lambda>val. setModule x y (g val) q) = Some q' \<and> wf_grid n q' \<and> length q' = length q \<and>
      (\<forall>x' y'. (x', y') \<in> cells n \<longrightarrow> module_at n q' x' y' = (if (x', y') = (x, y) then g (module_at n q x' y') else module_at n q x' y'))"
    using setModule_ok [OF wf assms, of "g (module_at n q x y)"] getModule_ok [OF wf assms] by auto
qed

lemma applyMask_paints:
  assumes "wf_grid n f" "0 \<le> m" "m \<le> 7"
  shows "paints n (\<lambda>x y b. b \<noteq> (\<not> module_at n f x y \<and> mask_inverts m x y)) (applyMask f m)"
proof -
  let ?turn = "\<lambda>c q. if module_of n f c then Some q else
    Option.bind (getModule q (fst c) (snd c)) (\<lambda>val. setModule (fst c) (snd c) (val \<noteq> mask_inverts m (fst c) (snd c)) q)"
  let ?cs = "concat (map (\<lambda>y. map (\<lambda>x. (x, y)) [0..n - 1]) [0..n - 1])"
  let ?g = "\<lambda>c b. b \<noteq> (\<not> module_of n f c \<and> mask_inverts m (fst c) (snd c))"
  have set: "set ?cs = cells n" by (auto simp: cells_def)
  have dist: "distinct ?cs" by (rule distinct_rows) simp_all
  have "paints n (\<lambda>x y b. if (x, y) = c then ?g c b else b) (?turn c)" if "c \<in> set ?cs" for c
  proof (cases "module_of n f c")
    case True
    then have "?turn c = Some" by (simp add: fun_eq_iff)
    then show ?thesis using True paints_Some [of n] by (auto elim: paints_cong)
  next
    case False
    have cell: "(fst c, snd c) \<in> cells n" using that unfolding set by simp
    show ?thesis
      using False paints_update [OF cell, of "\<lambda>val. val \<noteq> mask_inverts m (fst c) (snd c)"]
      by (simp only: False if_False prod.collapse simp_thms)
  qed
  then have "paints n (\<lambda>x y b. if (x, y) \<in> set ?cs then ?g (x, y) b else b) (for_each ?turn ?cs)"
    by (rule paints_cells) (assumption, rule dist)
  then have P: "paints n (\<lambda>x y b. b \<noteq> (\<not> module_at n f x y \<and> mask_inverts m x y)) (for_each ?turn ?cs)"
    by (rule paints_cong) (simp only: set if_True fst_conv snd_conv)
  have "applyMask f m q = for_each ?turn ?cs q" if "wf_grid n q" for q
  proof -
    have "for_each ?turn ?cs q = for_each (\<lambda>y. for_each (\<lambda>x. ?turn (x, y)) [0..n - 1]) [0..n - 1] q"
      by (simp only: for_each_concat for_each_map [THEN ext])
    also have "\<dots> = applyMask f m q"
      unfolding applyMask_def using assms(2,3) getSize_ok [OF that] getModule_ok [OF assms(1)]
      by (auto simp: cells_def intro!: for_each_cong)
    finally show ?thesis by simp
  qed
  then show ?thesis using P by (simp add: paints_def)
qed

text \<open>Applying a mask twice gives the bytes of the modules back.\<close>

lemma applyMask_twice:
  assumes "wf_grid n f" "0 \<le> m" "m \<le> 7" "wf_grid n q" "applyMask f m q = Some q1" "applyMask f m q1 = Some q2" "(x, y) \<in> cells n"
  shows "module_at n q2 x y = module_at n q x y"
proof -
  note P = applyMask_paints [OF assms(1-3)]
  note 1 = paints_exact [OF assms(4) P assms(5)]
  show ?thesis using 1(3) [OF assms(7)] paints_exact(3) [OF 1(1) P assms(6,7)] by blast
qed

end
