(* ===== verification/Qr_Penalty.thy ===== *)
theory Qr_Penalty
  imports Qr_Data
begin

text \<open>
  The penalty score of a symbol, by which the automatic mask is chosen.  It is defined for every well-formed grid, and
  far below the initial \<open>LONG_MAX\<close> of the search.
\<close>

section \<open>The routines\<close>

definition PENALTY_N1 :: int where "PENALTY_N1 = 3"
definition PENALTY_N2 :: int where "PENALTY_N2 = 3"
definition PENALTY_N3 :: int where "PENALTY_N3 = 40"
definition PENALTY_N4 :: int where "PENALTY_N4 = 10"

definition finderPenaltyAddHistory :: "int \<Rightarrow> int list \<Rightarrow> int list" where
  "finderPenaltyAddHistory currentRunLength runHistory = currentRunLength # take 6 runHistory"

definition finderPenaltyCountPatterns :: "int list \<Rightarrow> int \<Rightarrow> int option" where
  "finderPenaltyCountPatterns h qrsize = do {
     let n = h ! 1;
     _ \<leftarrow> asserting (n \<le> qrsize * 3);
     let core = (n > 0 \<and> h ! 2 = n \<and> h ! 3 = n * 3 \<and> h ! 4 = n \<and> h ! 5 = n);
     Some ((if core \<and> n * 4 \<le> h ! 0 \<and> n \<le> h ! 6 then 1 else 0) + (if core \<and> n * 4 \<le> h ! 6 \<and> n \<le> h ! 0 then 1 else 0))
   }"

definition finderPenaltyTerminateAndCount :: "bool \<Rightarrow> int \<Rightarrow> int list \<Rightarrow> int \<Rightarrow> int option" where
  "finderPenaltyTerminateAndCount currentRunColor currentRunLength runHistory qrsize =
     (let (h, len) = (if currentRunColor then (finderPenaltyAddHistory currentRunLength runHistory, 0)
                      else (runHistory, currentRunLength))
      in finderPenaltyCountPatterns (finderPenaltyAddHistory (len + qrsize) h) qrsize)"

record line_state =
  line_result :: int
  runColor :: bool
  run :: int
  runHistory :: "int list"
  padRun :: int

definition line_turn :: "bytes \<Rightarrow> int \<Rightarrow> int \<times> int \<Rightarrow> line_state \<Rightarrow> line_state option" where
  "line_turn qrcode qrsize c s = do {
     m \<leftarrow> getModule qrcode (fst c) (snd c);
     if m = runColor s then
       let r = run s + 1
       in Some (s\<lparr>run := r, line_result := (if r = 5 then line_result s + PENALTY_N1 else if r > 5 then line_result s + 1 else line_result s)\<rparr>)
     else do {
       let h = finderPenaltyAddHistory (run s + padRun s) (runHistory s);
       res \<leftarrow> (if \<not> runColor s then do { k \<leftarrow> finderPenaltyCountPatterns h qrsize; Some (line_result s + k * PENALTY_N3) }
               else Some (line_result s));
       Some \<lparr>line_result = res, runColor = m, run = 1, runHistory = h, padRun = 0\<rparr>
     }
   }"

text \<open>A row or a column, given by its cells.\<close>

definition line_penalty :: "bytes \<Rightarrow> int \<Rightarrow> (int \<times> int) list \<Rightarrow> int \<Rightarrow> int option" where
  "line_penalty qrcode qrsize cs result = do {
     s \<leftarrow> for_each (line_turn qrcode qrsize) cs
            \<lparr>line_result = result, runColor = False, run = 0, runHistory = replicate 7 0, padRun = qrsize\<rparr>;
     k \<leftarrow> finderPenaltyTerminateAndCount (runColor s) (run s + padRun s) (runHistory s) qrsize;
     Some (line_result s + k * PENALTY_N3)
   }"

definition block_same :: "bytes \<Rightarrow> int \<Rightarrow> int \<Rightarrow> bool option" where
  "block_same qrcode x y = do {
     color \<leftarrow> getModule qrcode x y;
     a \<leftarrow> getModule qrcode (x + 1) y;
     if color \<noteq> a then Some False
     else do {
       b \<leftarrow> getModule qrcode x (y + 1);
       if color \<noteq> b then Some False
       else do { c \<leftarrow> getModule qrcode (x + 1) (y + 1); Some (color = c) }
     }
   }"

text \<open>The number of steps of five percent by which the black modules leave the range from 45 to 55 percent.\<close>

definition balance_steps :: "int \<Rightarrow> int \<Rightarrow> int" where
  "balance_steps black area = (\<bar>black * 20 - area * 10\<bar> + area - 1) div area - 1"

definition getPenaltyScore :: "bytes \<Rightarrow> int option" where
  "getPenaltyScore qrcode = do {
     qrsize \<leftarrow> qrcodegen_getSize qrcode;
     let range = [0..qrsize - 1];
     result \<leftarrow> for_each (\<lambda>y. line_penalty qrcode qrsize (map (\<lambda>x. (x, y)) range)) range 0;
     result \<leftarrow> for_each (\<lambda>x. line_penalty qrcode qrsize (map (\<lambda>y. (x, y)) range)) range result;
     result \<leftarrow> for_each (\<lambda>y. for_each (\<lambda>x r. do {
                  same \<leftarrow> block_same qrcode x y;
                  Some (if same then r + PENALTY_N2 else r)
                }) [0..qrsize - 2]) [0..qrsize - 2] result;
     black \<leftarrow> for_each (\<lambda>y. for_each (\<lambda>x b. do {
                  m \<leftarrow> getModule qrcode x y;
                  Some (if m then b + 1 else b)
                }) range) range 0;
     Some (result + balance_steps black (qrsize * qrsize) * PENALTY_N4)
   }"

section \<open>Defined and bounded\<close>

lemma for_each_grows:
  assumes "\<And>x t. x \<in> set xs \<Longrightarrow> \<exists>t'. f x t = Some t' \<and> t \<le> t' \<and> t' \<le> t + c"
  shows "\<exists>t. for_each f xs s = Some t \<and> s \<le> t \<and> t \<le> s + c * int (length xs)"
proof (rule for_each_inv [where I = "\<lambda>ys t. s \<le> t \<and> t \<le> s + c * int (length ys)"])
  fix ys x zs t assume xs: "xs = ys @ x # zs" and t: "s \<le> t \<and> t \<le> s + c * int (length ys)"
  obtain t' where "f x t = Some t'" "t \<le> t'" "t' \<le> t + c" using assms [of x t] xs by auto
  then show "\<exists>t'. f x t = Some t' \<and> s \<le> t' \<and> t' \<le> s + c * int (length (ys @ [x]))" using t by (auto simp: algebra_simps)
qed simp

lemma count_ok:
  assumes "h ! 1 \<le> n * 3"
  shows "\<exists>k. finderPenaltyCountPatterns h n = Some k \<and> 0 \<le> k \<and> k \<le> 2"
  using assms by (simp add: finderPenaltyCountPatterns_def Let_def)

definition history_ok :: "int \<Rightarrow> int list \<Rightarrow> bool" where
  "history_ok n h = (length h = 7 \<and> (\<forall>r \<in> set h. r \<le> n * 3))"

lemma history_nth: "history_ok n h \<Longrightarrow> i < 7 \<Longrightarrow> h ! i \<le> n * 3"
  by (simp add: history_ok_def)

lemma history_add: "history_ok n h \<Longrightarrow> r \<le> n * 3 \<Longrightarrow> history_ok n (finderPenaltyAddHistory r h)"
  by (auto simp: history_ok_def finderPenaltyAddHistory_def dest: in_set_takeD)

definition line_ok :: "int \<Rightarrow> int \<Rightarrow> nat \<Rightarrow> line_state \<Rightarrow> bool" where
  "line_ok n r k s =
     (0 \<le> run s \<and> run s \<le> int k \<and> (padRun s = 0 \<or> padRun s = n) \<and> history_ok n (runHistory s) \<and>
      r \<le> line_result s \<and> line_result s \<le> r + 80 * int k)"

lemma line_turn_ok:
  assumes "wf_grid n q" "c \<in> cells n" "line_ok n r k s" "int k < n"
  shows "\<exists>s'. line_turn q n c s = Some s' \<and> line_ok n r (Suc k) s'"
proof -
  have get: "getModule q (fst c) (snd c) = Some (module_of n q c)" using getModule_ok [OF assms(1)] assms(2) by simp
  show ?thesis
  proof (cases "module_of n q c = runColor s")
    case True
    then show ?thesis using get assms(3) by (auto simp: line_turn_def Let_def line_ok_def PENALTY_N1_def)
  next
    case False
    let ?h = "finderPenaltyAddHistory (run s + padRun s) (runHistory s)"
    have h: "history_ok n ?h" using assms(3,4) by (auto simp: line_ok_def intro!: history_add)
    obtain p where p: "finderPenaltyCountPatterns ?h n = Some p" "0 \<le> p" "p \<le> 2"
      using count_ok [OF history_nth [OF h, of 1]] by auto
    then show ?thesis using False get assms(3) h by (auto simp: line_turn_def Let_def line_ok_def PENALTY_N3_def)
  qed
qed

lemma terminate_ok:
  assumes "history_ok n h" "0 \<le> n" "len \<le> 2 * n"
  shows "\<exists>k. finderPenaltyTerminateAndCount c len h n = Some k \<and> 0 \<le> k \<and> k \<le> 2"
proof -
  have "history_ok n (finderPenaltyAddHistory (len + n) h)" "history_ok n (finderPenaltyAddHistory (0 + n) (finderPenaltyAddHistory len h))"
    using assms by (auto intro!: history_add)
  then show ?thesis
    unfolding finderPenaltyTerminateAndCount_def by (cases c) (auto simp: Let_def intro!: count_ok history_nth)
qed

lemma line_penalty_ok:
  assumes "wf_grid n q" "set cs \<subseteq> cells n" "int (length cs) = n"
  shows "\<exists>r'. line_penalty q n cs r = Some r' \<and> r \<le> r' \<and> r' \<le> r + 80 * (n + 1)"
proof -
  let ?s = "\<lparr>line_result = r, runColor = False, run = 0, runHistory = replicate 7 0, padRun = n\<rparr>"
  have n: "0 \<le> n" using assms(1) by (simp add: wf_grid_def)
  have "\<exists>s. for_each (line_turn q n) cs ?s = Some s \<and> line_ok n r (length cs) s"
  proof (rule for_each_inv [where I = "\<lambda>ys. line_ok n r (length ys)"])
    show "line_ok n r (length []) ?s" using n by (simp add: line_ok_def history_ok_def)
    fix ys c zs t assume "cs = ys @ c # zs" "line_ok n r (length ys) t"
    then show "\<exists>t'. line_turn q n c t = Some t' \<and> line_ok n r (length (ys @ [c])) t'"
      using line_turn_ok [OF assms(1), of c r "length ys" t] assms(2,3) by auto
  qed
  then obtain s where s: "for_each (line_turn q n) cs ?s = Some s" "line_ok n r (length cs) s" by blast
  then have "history_ok n (runHistory s)" "run s + padRun s \<le> 2 * n" using assms(3) n by (auto simp: line_ok_def)
  from terminate_ok [OF this(1) n this(2)] obtain k
    where "finderPenaltyTerminateAndCount (runColor s) (run s + padRun s) (runHistory s) n = Some k" "0 \<le> k" "k \<le> 2" by blast
  then show ?thesis using s assms(3) by (auto simp: line_penalty_def line_ok_def PENALTY_N3_def)
qed

lemma block_same_ok:
  assumes "wf_grid n q" "0 \<le> x" "x < n - 1" "0 \<le> y" "y < n - 1"
  shows "\<exists>b. block_same q x y = Some b"
  using assms getModule_ok [OF assms(1)] by (auto simp: block_same_def cells_def)

lemma balance_bound:
  assumes "0 \<le> b" "b \<le> t" "0 < t"
  shows "-1 \<le> balance_steps b t" "balance_steps b t \<le> 9"
proof -
  have "(\<bar>b * 20 - t * 10\<bar> + t - 1) div t \<le> (11 * t - 1) div t" using assms by (intro zdiv_mono1) auto
  also have "11 * t - 1 = (t - 1) + 10 * t" by simp
  also have "\<dots> div t = 10" using assms by (simp only: div_mult_self1) (simp add: div_pos_pos_trivial)
  finally show "balance_steps b t \<le> 9" by (simp add: balance_steps_def)
  have "0 \<le> (\<bar>b * 20 - t * 10\<bar> + t - 1) div t" using assms by (intro pos_imp_zdiv_nonneg_iff [THEN iffD2]) auto
  then show "-1 \<le> balance_steps b t" by (simp add: balance_steps_def)
qed

lemma getPenaltyScore_ok:
  assumes "wf_grid n q"
  shows "\<exists>p. getPenaltyScore q = Some p \<and> p \<le> 200 * n * n"
proof -
  have n: "21 \<le> n" using assms by (simp add: wf_grid_def)
  let ?row = "\<lambda>y. map (\<lambda>x. (x, y)) [0..n - 1]" and ?col = "\<lambda>x. map (\<lambda>y. (x, y)) [0..n - 1]"
  have line: "\<exists>r'. line_penalty q n (?row i) r = Some r' \<and> r \<le> r' \<and> r' \<le> r + 80 * (n + 1)"
    "\<exists>r'. line_penalty q n (?col i) r = Some r' \<and> r \<le> r' \<and> r' \<le> r + 80 * (n + 1)" if "i \<in> set [0..n - 1]" for i r
    by (rule line_penalty_ok [OF assms]; use that n in \<open>auto simp: cells_def\<close>)+
  obtain r1 where r1: "for_each (\<lambda>y. line_penalty q n (?row y)) [0..n - 1] 0 = Some r1" "r1 \<le> 80 * (n + 1) * n"
    using for_each_grows [of "[0..n - 1]" "\<lambda>y. line_penalty q n (?row y)" "80 * (n + 1)" 0, OF line(1)] n by auto
  obtain r2 where r2: "for_each (\<lambda>x. line_penalty q n (?col x)) [0..n - 1] r1 = Some r2" "r2 \<le> r1 + 80 * (n + 1) * n"
    using for_each_grows [of "[0..n - 1]" "\<lambda>y. line_penalty q n (?col y)" "80 * (n + 1)" r1, OF line(2)] n by auto
  let ?block = "\<lambda>x y r. Option.bind (block_same q x y) (\<lambda>same. Some (if same then r + PENALTY_N2 else r))"
  have "\<exists>t'. ?block x y t = Some t' \<and> t \<le> t' \<and> t' \<le> t + 3" if "x \<in> set [0..n - 2]" "y \<in> set [0..n - 2]" for x y t
    using block_same_ok [OF assms, of x y] that by (auto simp: PENALTY_N2_def)
  then have "\<exists>t'. for_each (\<lambda>x. ?block x y) [0..n - 2] t = Some t' \<and> t \<le> t' \<and> t' \<le> t + 3 * int (length [0..n - 2])" if "y \<in> set [0..n - 2]" for y t
    using that by (intro for_each_grows) blast
  from for_each_grows [of "[0..n - 2]" "\<lambda>y. for_each (\<lambda>x. ?block x y) [0..n - 2]" "3 * int (length [0..n - 2])" r2, OF this]
  obtain r3 where r3: "for_each (\<lambda>y. for_each (\<lambda>x. ?block x y) [0..n - 2]) [0..n - 2] r2 = Some r3" "r3 \<le> r2 + 3 * (n - 1) * (n - 1)"
    using n by auto
  let ?black = "\<lambda>x y b. Option.bind (getModule q x y) (\<lambda>m. Some (if m then b + 1 else b))"
  have "\<exists>t'. ?black x y t = Some t' \<and> t \<le> t' \<and> t' \<le> t + (1 :: int)" if "x \<in> set [0..n - 1]" "y \<in> set [0..n - 1]" for x y t
    using getModule_ok [OF assms, of x y] that by (auto simp: cells_def)
  then have "\<exists>t'. for_each (\<lambda>x. ?black x y) [0..n - 1] t = Some t' \<and> t \<le> t' \<and> t' \<le> t + 1 * int (length [0..n - 1])" if "y \<in> set [0..n - 1]" for y t
    using that by (intro for_each_grows) blast
  from for_each_grows [of "[0..n - 1]" "\<lambda>y. for_each (\<lambda>x. ?black x y) [0..n - 1]" "1 * int (length [0..n - 1])" 0, OF this]
  obtain b where b: "for_each (\<lambda>y. for_each (\<lambda>x. ?black x y) [0..n - 1]) [0..n - 1] 0 = Some b" "0 \<le> b" "b \<le> n * n"
    using n by auto
  have "balance_steps b (n * n) \<le> 9" using balance_bound(2) [OF b(2,3)] n by simp
  moreover have "getPenaltyScore q = Some (r3 + balance_steps b (n * n) * PENALTY_N4)"
    unfolding getPenaltyScore_def Let_def getSize_ok [OF assms] bind.simps using r1(1) r2(1) r3(1) b(1) by simp
  moreover have "r3 + 90 \<le> 200 * n * n"
  proof -
    define a where "a = n * n"
    have "21 * n \<le> a" unfolding a_def using n by (intro mult_right_mono) auto
    moreover have "r1 \<le> 80 * a + 80 * n" "r2 \<le> r1 + (80 * a + 80 * n)" "r3 \<le> r2 + (3 * a - 6 * n + 3)"
      using r1(2) r2(2) r3(2) by (simp_all add: a_def algebra_simps)
    ultimately have "r3 + 90 \<le> 200 * a" using n by linarith
    then show ?thesis by (simp add: a_def mult.assoc)
  qed
  ultimately show ?thesis by (auto simp: PENALTY_N4_def)
qed

end
