(* ===== verification/Qr_Field.thy ===== *)
theory Qr_Field
  imports Zb_Prelude
begin

text \<open>
  The finite field of the QR tool, \<^verbatim>\<open>tools/qrtext/qrcodegen.h\<close>: multiplication of bytes as polynomials over
  GF(2) modulo \<open>0x11D\<close>.  The laws are proved by linearity: both arguments are sums of powers of two, so a law
  holds for all bytes once it holds for the eight powers.  The type \<open>gf\<close> carries the laws as an instance of
  the ring classes, so that the proofs on codewords are ordinary algebra.
\<close>

section \<open>Multiplication\<close>

text \<open>One turn of the loop works on \<open>int\<close> and truncates to \<open>uint8_t\<close>.\<close>

definition rs_turn :: "u8 \<Rightarrow> u8 \<Rightarrow> nat \<Rightarrow> u8 \<Rightarrow> u8" where
  "rs_turn x y i z =
     (let z1 = ucast (push_bit 1 (ucast z :: u32) XOR (drop_bit 7 (ucast z) * 0x11D)) :: u8
      in z1 XOR ucast ((drop_bit i (ucast y :: u32) AND 1) * ucast x))"

definition reedSolomonMultiply :: "u8 \<Rightarrow> u8 \<Rightarrow> u8" where
  "reedSolomonMultiply x y = fold (rs_turn x y) (rev [0..<8]) 0"

section \<open>Linearity\<close>

text \<open>Multiplication by \<open>x\<close>, and the selection of a factor by a bit.\<close>

definition xtime :: "u8 \<Rightarrow> u8" where
  "xtime z = push_bit 1 z XOR (if bit z 7 then 0x1D else 0)"

definition pick :: "bool \<Rightarrow> u8 \<Rightarrow> u8" where
  "pick b x = (if b then x else 0)"

lemma ucast_xor: "(ucast (a XOR b :: u32) :: u8) = ucast a XOR ucast b"
  by (rule bit_eqI) (auto simp: bit_simps)

lemma drop_bit_7: "drop_bit 7 (ucast (z :: u8) :: u32) = of_bool (bit z 7)"
proof (rule bit_eqI)
  fix n
  show "bit (drop_bit 7 (ucast z :: u32)) n = bit (of_bool (bit z 7) :: u32) n"
    using bit_imp_le_length [of z "7 + n"] by (cases n) (auto simp: bit_simps)
qed

lemma low_bit: "(drop_bit i (ucast (y :: u8) :: u32) AND 1) = of_bool (bit y i)"
  by (rule bit_eqI) (auto simp: bit_simps bit_1_iff dest: bit_imp_le_length)

lemma push_bit_ucast: "(ucast (push_bit 1 (ucast (z :: u8) :: u32)) :: u8) = push_bit 1 z"
  by (rule bit_eqI) (auto simp only: bit_unsigned_iff bit_push_bit_iff possible_bit_word len_num1 len_bit0)

lemma ucast_ucast_u8: "(ucast (ucast (x :: u8) :: u32) :: u8) = x"
  by (rule bit_eqI) (auto simp: bit_simps)

lemma rs_turn_alt: "rs_turn x y i z = xtime z XOR pick (bit y i) x"
proof -
  have "(ucast (of_bool b * 0x11D :: u32) :: u8) = (if b then 0x1D else 0)" for b by simp
  moreover have "(ucast (of_bool b * ucast x :: u32) :: u8) = pick b x" for b
    by (cases b) (auto simp: pick_def ucast_ucast_u8)
  ultimately show ?thesis
    by (simp only: rs_turn_def Let_def ucast_xor drop_bit_7 low_bit push_bit_ucast xtime_def)
qed

lemma reedSolomonMultiply_alt:
  "reedSolomonMultiply x y = fold (\<lambda>i z. xtime z XOR pick (bit y i) x) (rev [0..<8]) 0"
  unfolding reedSolomonMultiply_def by (rule arg_cong [where f = "\<lambda>g. fold g _ _"]) (simp add: fun_eq_iff rs_turn_alt)

lemma xtime_xor: "xtime (a XOR b) = xtime a XOR xtime b"
  unfolding xtime_def by (rule bit_eqI) (auto simp: bit_simps)

lemma xtime_0 [simp]: "xtime 0 = 0" by (simp add: xtime_def)

lemma xor_ac4: "(a XOR b) XOR (c XOR d) = (a XOR c) XOR (b XOR d :: u8)"
  by (simp add: ac_simps)

text \<open>The loop for any list of bit positions is linear in the factor \<open>x\<close> and in the bits of \<open>y\<close>.\<close>

lemma fold_turns_xor:
  assumes "\<And>i. h i = f i XOR g i"
  shows "fold (\<lambda>i z. xtime z XOR h i) is (a XOR b) = fold (\<lambda>i z. xtime z XOR f i) is a XOR fold (\<lambda>i z. xtime z XOR g i) is b"
proof (induction "is" arbitrary: a b)
  case (Cons i "is")
  have "xtime (a XOR b) XOR h i = (xtime a XOR f i) XOR (xtime b XOR g i)"
    unfolding assms xtime_xor by (rule xor_ac4)
  then show ?case by (simp only: fold_Cons o_apply Cons.IH)
qed simp

lemma mult_xor_left: "reedSolomonMultiply (a XOR b) y = reedSolomonMultiply a y XOR reedSolomonMultiply b y"
  unfolding reedSolomonMultiply_alt
  by (subst fold_turns_xor [where a = 0 and b = 0, simplified, symmetric]) (auto simp: pick_def)

lemma mult_xor_right: "reedSolomonMultiply x (a XOR b) = reedSolomonMultiply x a XOR reedSolomonMultiply x b"
  unfolding reedSolomonMultiply_alt
  by (subst fold_turns_xor [where a = 0 and b = 0, simplified, symmetric]) (auto simp: pick_def bit_xor_iff)

lemma mult_0_left [simp]: "reedSolomonMultiply 0 y = 0"
  using mult_xor_left [of 0 0 y] by simp

lemma mult_0_right [simp]: "reedSolomonMultiply x 0 = 0"
  using mult_xor_right [of x 0 0] by simp

text \<open>Every byte is a sum of powers of two, so additive properties need only be checked there.\<close>

definition powers :: "u8 list" where
  "powers = [1, 2, 4, 8, 16, 32, 64, 128]"

definition bit_sum :: "u8 \<Rightarrow> nat list \<Rightarrow> u8 \<Rightarrow> u8" where
  "bit_sum y is a = fold (\<lambda>i z. z XOR pick (bit y i) (push_bit i 1)) is a"

lemma bit_pick: "bit (pick b (push_bit i 1)) n = (b \<and> n = i \<and> n < 8)"
  unfolding pick_def by (cases b) (auto simp: bit_push_bit_iff bit_1_iff simp del: push_bit_of_1)

lemma bit_bit_sum: "distinct is \<Longrightarrow> bit (bit_sum y is a) n = (bit a n \<noteq> (n \<in> set is \<and> bit y n))"
proof (induction "is" arbitrary: a)
  case (Cons i "is")
  have "bit (bit_sum y (i # is) a) n = ((bit a n \<noteq> (bit y i \<and> n = i \<and> n < 8)) \<noteq> (n \<in> set is \<and> bit y n))"
    using Cons by (simp add: bit_sum_def bit_xor_iff bit_pick del: push_bit_of_1)
  moreover have "bit y n \<Longrightarrow> n < 8" using bit_imp_le_length [of y n] by simp
  ultimately show ?case using Cons.prems by (cases "n = i") auto
qed (simp add: bit_sum_def)

lemma byte_sum: "bit_sum y [0..<8] 0 = y"
  by (rule bit_eqI) (auto simp: bit_bit_sum)

lemma linear_ext:
  fixes f g :: "u8 \<Rightarrow> u8"
  assumes f: "\<And>a b. f (a XOR b) = f a XOR f b" and g: "\<And>a b. g (a XOR b) = g a XOR g b"
    and p: "\<And>p. p \<in> set powers \<Longrightarrow> f p = g p"
  shows "f y = g y"
proof -
  have z: "f 0 = 0" "g 0 = 0" using f [of 0 0] g [of 0 0] by auto
  have q: "f (pick b (push_bit i 1)) = g (pick b (push_bit i 1))" if "i < 8" for i b
  proof -
    from that have "i \<in> {0, 1, 2, 3, 4, 5, 6, 7}" by auto
    then have "push_bit i 1 \<in> set powers" by (auto simp: powers_def push_bit_eq_mult)
    then show ?thesis using p z by (simp add: pick_def)
  qed
  have "f (bit_sum y is a) = g (bit_sum y is a)" if "f a = g a" "\<forall>i \<in> set is. i < 8" for "is" a
    using that by (induction "is" arbitrary: a) (simp_all add: bit_sum_def f g q del: push_bit_of_1)
  from this [of 0 "[0..<8]"] z show ?thesis by (simp add: byte_sum)
qed

section \<open>The laws\<close>

text \<open>The product with a power of two is repeated multiplication by \<open>x\<close>.\<close>

lemma eight_turns: "rev [0..<8] = [7, 6, 5, 4, 3, 2, 1, 0 :: nat]"
  by (simp add: upt_rec)

lemma mult_powers:
  "reedSolomonMultiply x 1 = x" "reedSolomonMultiply x 2 = xtime x" "reedSolomonMultiply x 4 = xtime (xtime x)"
  "reedSolomonMultiply x 8 = xtime (xtime (xtime x))" "reedSolomonMultiply x 16 = xtime (xtime (xtime (xtime x)))"
  "reedSolomonMultiply x 32 = xtime (xtime (xtime (xtime (xtime x))))"
  "reedSolomonMultiply x 64 = xtime (xtime (xtime (xtime (xtime (xtime x)))))"
  "reedSolomonMultiply x 128 = xtime (xtime (xtime (xtime (xtime (xtime (xtime x))))))"
  by (simp_all add: reedSolomonMultiply_alt eight_turns pick_def)

lemma xtime_powers [simp]:
  "xtime 1 = 2" "xtime 2 = 4" "xtime 4 = 8" "xtime 8 = 16" "xtime 16 = 32" "xtime 32 = 64" "xtime 64 = 128" "xtime 128 = 29"
  "xtime 29 = 58" "xtime 58 = 116" "xtime 116 = 232" "xtime 232 = 205" "xtime 205 = 135" "xtime 135 = 19" "xtime 19 = 38"
  by (simp_all add: xtime_def)

text \<open>The reduction: \<open>x^8 = x^4 + x^3 + x^2 + 1\<close>.\<close>

lemma xtime_8:
  "xtime (xtime (xtime (xtime (xtime (xtime (xtime (xtime x))))))) =
   xtime (xtime (xtime (xtime x))) XOR xtime (xtime (xtime x)) XOR xtime (xtime x) XOR x"
  by (rule linear_ext [where f = "\<lambda>x. xtime (xtime (xtime (xtime (xtime (xtime (xtime (xtime x)))))))"])
    (simp_all only: xtime_xor, simp_all add: ac_simps, auto simp: powers_def)

lemma mult_29: "reedSolomonMultiply x 29 = xtime (xtime (xtime (xtime x))) XOR xtime (xtime (xtime x)) XOR xtime (xtime x) XOR x"
proof -
  have "(29 :: u8) = 16 XOR 8 XOR 4 XOR 1" by simp
  then show ?thesis by (simp only: mult_xor_right mult_powers)
qed

lemma mult_xtime_right: "reedSolomonMultiply x (xtime y) = xtime (reedSolomonMultiply x y)"
  by (rule linear_ext [where f = "\<lambda>y. reedSolomonMultiply x (xtime y)"])
    (simp_all only: xtime_xor mult_xor_right, auto simp: powers_def mult_powers mult_29 xtime_8)

lemma mult_xtime_left: "reedSolomonMultiply (xtime x) y = xtime (reedSolomonMultiply x y)"
  by (rule linear_ext [where f = "reedSolomonMultiply (xtime x)"])
    (simp_all only: xtime_xor mult_xor_right, auto simp: powers_def mult_powers)

lemma mult_assoc: "reedSolomonMultiply (reedSolomonMultiply x y) z = reedSolomonMultiply x (reedSolomonMultiply y z)"
  by (rule linear_ext [where f = "reedSolomonMultiply (reedSolomonMultiply x y)"])
    (simp_all only: mult_xor_right, auto simp: powers_def mult_powers mult_xtime_right)

lemma mult_1: "reedSolomonMultiply 1 x = x"
  by (rule linear_ext [where f = "reedSolomonMultiply 1"])
    (simp_all only: mult_xor_right, auto simp: powers_def mult_powers)

lemma mult_powers_left:
  assumes "p \<in> set powers"
  shows "reedSolomonMultiply p y = reedSolomonMultiply y p"
proof -
  have "p = 1 \<or> p = xtime 1 \<or> p = xtime (xtime 1) \<or> p = xtime (xtime (xtime 1)) \<or> p = xtime (xtime (xtime (xtime 1))) \<or>
      p = xtime (xtime (xtime (xtime (xtime 1)))) \<or> p = xtime (xtime (xtime (xtime (xtime (xtime 1))))) \<or>
      p = xtime (xtime (xtime (xtime (xtime (xtime (xtime 1))))))"
    using assms by (auto simp: powers_def)
  then show ?thesis
    by (elim disjE) (simp_all only: mult_xtime_left mult_xtime_right mult_1 mult_powers(1))
qed

lemma mult_commute: "reedSolomonMultiply x y = reedSolomonMultiply y x"
  by (rule linear_ext [where f = "\<lambda>x. reedSolomonMultiply x y"])
    (simp_all only: mult_xor_left mult_xor_right, rule mult_powers_left)

section \<open>Reference: product and remainder of polynomials\<close>

text \<open>Schoolbook multiplication over GF(2), then division by \<open>0x11D\<close> from the highest power down.\<close>

definition clmul :: "u8 \<Rightarrow> u8 \<Rightarrow> u16" where
  "clmul x y = fold (\<lambda>i z. z XOR (if bit y i then push_bit i (ucast x) else 0)) [0..<8] 0"

definition reduce_at :: "nat \<Rightarrow> u16 \<Rightarrow> u16" where
  "reduce_at i z = (if bit z i then z XOR push_bit (i - 8) 0x11D else z)"

definition poly_mod :: "u16 \<Rightarrow> u8" where
  "poly_mod z = ucast (fold reduce_at (rev [8..<15]) z)"

lemma reduce_at_xor: "reduce_at i (a XOR b) = reduce_at i a XOR reduce_at i b"
  by (auto simp: reduce_at_def bit_xor_iff ac_simps)

lemma poly_mod_xor: "poly_mod (a XOR b) = poly_mod a XOR poly_mod b"
proof -
  have "fold reduce_at is (a XOR b) = fold reduce_at is a XOR fold reduce_at is b" for "is"
    by (induction "is" arbitrary: a b) (simp_all add: reduce_at_xor)
  then show ?thesis unfolding poly_mod_def by (simp only:) (rule bit_eqI, auto simp: bit_simps)
qed

lemma fold_xor_split:
  fixes f g h :: "nat \<Rightarrow> u16"
  assumes "\<And>i. h i = f i XOR g i"
  shows "fold (\<lambda>i z. z XOR h i) is (a XOR b) = fold (\<lambda>i z. z XOR f i) is a XOR fold (\<lambda>i z. z XOR g i) is b"
proof (induction "is" arbitrary: a b)
  case (Cons i "is")
  have "(a XOR b) XOR h i = (a XOR f i) XOR (b XOR g i)" by (simp add: assms ac_simps)
  then show ?case by (simp only: fold_Cons o_apply Cons.IH)
qed simp

lemma push_ucast_xor: "push_bit i (ucast (a XOR b :: u8) :: u16) = push_bit i (ucast a) XOR push_bit i (ucast b)"
  by (rule bit_eqI) (auto simp: bit_simps)

lemma clmul_xor_left: "clmul (a XOR b) y = clmul a y XOR clmul b y"
  unfolding clmul_def
  by (subst fold_xor_split [where a = 0 and b = 0, simplified, symmetric]) (auto simp: push_ucast_xor)

lemma clmul_xor_right: "clmul x (a XOR b) = clmul x a XOR clmul x b"
  unfolding clmul_def
  by (subst fold_xor_split [where a = 0 and b = 0, simplified, symmetric]) (auto simp: bit_xor_iff)

lemma clmul_powers:
  "clmul x 1 = ucast x" "clmul x 2 = push_bit 1 (ucast x)" "clmul x 4 = push_bit 2 (ucast x)" "clmul x 8 = push_bit 3 (ucast x)"
  "clmul x 16 = push_bit 4 (ucast x)" "clmul x 32 = push_bit 5 (ucast x)" "clmul x 64 = push_bit 6 (ucast x)"
  "clmul x 128 = push_bit 7 (ucast x)"
proof -
  have "[0..<8] = [0, 1, 2, 3, 4, 5, 6, 7 :: nat]" by (simp add: upt_rec)
  then have "clmul x y = fold (\<lambda>i z. z XOR (if bit y i then push_bit i (ucast x) else 0)) [0, 1, 2, 3, 4, 5, 6, 7] 0" for y
    by (simp only: clmul_def)
  then show "clmul x 1 = ucast x" "clmul x 2 = push_bit 1 (ucast x)" "clmul x 4 = push_bit 2 (ucast x)" "clmul x 8 = push_bit 3 (ucast x)"
    "clmul x 16 = push_bit 4 (ucast x)" "clmul x 32 = push_bit 5 (ucast x)" "clmul x 64 = push_bit 6 (ucast x)"
    "clmul x 128 = push_bit 7 (ucast x)" by simp_all
qed

lemma poly_mod_powers:
  "poly_mod 1 = 1" "poly_mod 2 = 2" "poly_mod 4 = 4" "poly_mod 8 = 8" "poly_mod 16 = 16" "poly_mod 32 = 32" "poly_mod 64 = 64"
  "poly_mod 128 = 128" "poly_mod 256 = 29" "poly_mod 512 = 58" "poly_mod 1024 = 116" "poly_mod 2048 = 232" "poly_mod 4096 = 205"
  "poly_mod 8192 = 135" "poly_mod 16384 = 19"
  by (simp_all add: poly_mod_def reduce_at_def upt_rec)

lemma product_powers:
  assumes "p \<in> set powers" "q \<in> set powers"
  shows "reedSolomonMultiply p q = poly_mod (clmul p q)"
proof -
  from assms(2) have "q \<in> {1, 2, 4, 8, 16, 32, 64, 128}" by (auto simp: powers_def)
  with assms(1) show ?thesis
    by (elim insertE emptyE; hypsubst; simp only: mult_powers clmul_powers)
      (auto simp: powers_def poly_mod_powers)
qed

text \<open>
  The multiplication routine, which interleaves shifting and reduction bit by bit, is multiplication of polynomials over
  the field of two elements followed by reduction modulo \<open>0x11D\<close>.
\<close>

lemma multiply_product: "reedSolomonMultiply x y = poly_mod (clmul x y)"
proof (rule linear_ext [where f = "\<lambda>x. reedSolomonMultiply x y"])
  fix p assume p: "p \<in> set powers"
  show "reedSolomonMultiply p y = poly_mod (clmul p y)"
  proof (rule linear_ext [where f = "reedSolomonMultiply p"])
    fix q assume "q \<in> set powers"
    with p show "reedSolomonMultiply p q = poly_mod (clmul p q)" by (rule product_powers)
  qed (simp_all only: mult_xor_right clmul_xor_right poly_mod_xor)
qed (simp_all only: mult_xor_left clmul_xor_left poly_mod_xor)

section \<open>The ring of bytes\<close>

typedef gf = "UNIV :: u8 set"
  morphisms byte_of gf_of ..

setup_lifting type_definition_gf

instantiation gf :: comm_ring_1
begin

lift_definition zero_gf :: gf is 0 .
lift_definition one_gf :: gf is 1 .
lift_definition plus_gf :: "gf \<Rightarrow> gf \<Rightarrow> gf" is "(XOR)" .
lift_definition minus_gf :: "gf \<Rightarrow> gf \<Rightarrow> gf" is "(XOR)" .
lift_definition uminus_gf :: "gf \<Rightarrow> gf" is "\<lambda>x. x" .
lift_definition times_gf :: "gf \<Rightarrow> gf \<Rightarrow> gf" is reedSolomonMultiply .

instance
proof
  fix a b c :: gf
  show "a + b + c = a + (b + c)" by transfer (simp add: ac_simps)
  show "a + b = b + a" by transfer (simp add: ac_simps)
  show "0 + a = a" by transfer simp
  show "- a + a = 0" by transfer simp
  show "a - b = a + - b" by transfer simp
  show "a * b * c = a * (b * c)" by transfer (rule mult_assoc)
  show "a * b = b * a" by transfer (rule mult_commute)
  show "1 * a = a" by transfer (rule mult_1)
  show "(a + b) * c = a * c + b * c" by transfer (rule mult_xor_left)
  show "(0 :: gf) \<noteq> 1" by transfer simp
qed

end

lemma gf_plus_self [simp]: "x + x = (0 :: gf)"
  by transfer simp

end
