(* ===== verification/Qr_Ecc.thy ===== *)
theory Qr_Ecc
  imports Qr_Field
begin

text \<open>
  The Reed-Solomon code of the QR tool: the generator polynomial and the remainder of a block.  Polynomials are
  byte lists from the highest power down.  A block followed by its remainder vanishes at the powers of the
  generator element, which is what makes it a codeword.
\<close>

section \<open>The routines\<close>

definition qrcodegen_REED_SOLOMON_DEGREE_MAX :: nat where
  "qrcodegen_REED_SOLOMON_DEGREE_MAX = 30"

text \<open>One multiplication by \<open>x - root\<close>, in place; the array of \<open>degree\<close> bytes drops the highest term.\<close>

definition divisor_turn :: "nat \<Rightarrow> u8 \<Rightarrow> nat \<Rightarrow> bytes \<Rightarrow> bytes" where
  "divisor_turn degree root j r =
     (let r1 = r[j := reedSolomonMultiply (r ! j) root]
      in if j + 1 < degree then r1[j := r1 ! j XOR r1 ! (j + 1)] else r1)"

definition divisor_step :: "nat \<Rightarrow> bytes \<times> u8 \<Rightarrow> bytes \<times> u8" where
  "divisor_step degree s =
     (case s of (r, root) \<Rightarrow> (fold (divisor_turn degree root) [0..<degree] r, reedSolomonMultiply root 0x02))"

text \<open>A failed assertion is \<open>None\<close>.\<close>

definition reedSolomonComputeDivisor :: "nat \<Rightarrow> bytes option" where
  "reedSolomonComputeDivisor degree =
     (if \<not> (1 \<le> degree \<and> degree \<le> qrcodegen_REED_SOLOMON_DEGREE_MAX) then None
      else Some (fst (fold (\<lambda>i. divisor_step degree) [0..<degree] ((replicate degree 0)[degree - 1 := 1], 1))))"

text \<open>The \<open>memmove\<close> takes the first byte away and the last one becomes zero.\<close>

definition remainder_step :: "bytes \<Rightarrow> nat \<Rightarrow> u8 \<Rightarrow> bytes \<Rightarrow> bytes" where
  "remainder_step generator degree d r =
     (let factor = d XOR r ! 0
      in fold (\<lambda>j r. r[j := r ! j XOR reedSolomonMultiply (generator ! j) factor]) [0..<degree] (tl r @ [0]))"

definition reedSolomonComputeRemainder :: "bytes \<Rightarrow> bytes \<Rightarrow> nat \<Rightarrow> bytes option" where
  "reedSolomonComputeRemainder data generator degree =
     (if \<not> (1 \<le> degree \<and> degree \<le> qrcodegen_REED_SOLOMON_DEGREE_MAX) then None
      else Some (fold (remainder_step generator degree) data (replicate degree 0)))"

section \<open>Loops over an array\<close>

text \<open>A loop that rewrites each element from elements it has not reached yet is a map.\<close>

lemma fold_update:
  assumes "\<And>j r. j < n \<Longrightarrow> length r = n \<Longrightarrow> (\<forall>k. j \<le> k \<longrightarrow> k < n \<longrightarrow> r ! k = xs ! k) \<Longrightarrow> f j r = r[j := g j]"
    and "length xs = n" "m \<le> n"
  shows "fold f [0..<m] xs = map g [0..<m] @ drop m xs"
  using assms(3)
proof (induction m)
  case (Suc m)
  let ?r = "map g [0..<m] @ drop m xs"
  have "f m ?r = ?r[m := g m]"
    using Suc.prems assms(2) by (intro assms(1)) (auto simp: nth_append)
  also have "\<dots> = map g [0..<Suc m] @ drop (Suc m) xs"
    using Suc.prems assms(2) by (simp add: list_update_append Cons_nth_drop_Suc [symmetric])
  finally show ?case using Suc by simp
qed simp

lemma divisor_turns:
  assumes "length r = degree"
  shows "fold (divisor_turn degree root) [0..<degree] r =
    map (\<lambda>j. reedSolomonMultiply (r ! j) root XOR (if j + 1 < degree then r ! (j + 1) else 0)) [0..<degree]"
  using assms
  by (subst fold_update [where n = degree and xs = r and
        g = "\<lambda>j. reedSolomonMultiply (r ! j) root XOR (if j + 1 < degree then r ! (j + 1) else 0)"])
    (auto simp: divisor_turn_def Let_def)

lemma remainder_turns:
  assumes "length r = degree" "0 < degree"
  shows "remainder_step generator degree d r =
    map (\<lambda>j. (tl r @ [0]) ! j XOR reedSolomonMultiply (generator ! j) (d XOR r ! 0)) [0..<degree]"
  using assms unfolding remainder_step_def Let_def
  by (subst fold_update [where n = degree and xs = "tl r @ [0]" and
        g = "\<lambda>j. (tl r @ [0]) ! j XOR reedSolomonMultiply (generator ! j) (d XOR r ! 0)"]) auto

section \<open>Evaluation of polynomials\<close>

definition gf_eval :: "gf \<Rightarrow> gf list \<Rightarrow> gf" where
  "gf_eval c p = fold (\<lambda>a s. s * c + a) p 0"

lemma gf_eval_snoc: "gf_eval c (p @ [a]) = gf_eval c p * c + a"
  by (simp add: gf_eval_def)

lemma gf_eval_append: "gf_eval c (p @ q) = gf_eval c p * c ^ length q + gf_eval c q"
proof (induction q rule: rev_induct)
  case (snoc a q)
  then show ?case using gf_eval_snoc [of c "p @ q" a] by (simp add: gf_eval_snoc algebra_simps)
qed (simp add: gf_eval_def)

lemma gf_eval_Nil [simp]: "gf_eval c [] = 0"
  by (simp add: gf_eval_def)

lemma gf_eval_single [simp]: "gf_eval c [a] = a"
  by (simp add: gf_eval_def)

lemma gf_eval_Cons: "gf_eval c (a # p) = a * c ^ length p + gf_eval c p"
  using gf_eval_append [of c "[a]" p] by simp

lemma gf_eval_add:
  "length p = length q \<Longrightarrow> gf_eval c (map2 (+) p q) = gf_eval c p + gf_eval c q"
  by (induction p q rule: list_induct2) (simp_all add: gf_eval_Cons algebra_simps)

lemma gf_eval_scale: "gf_eval c (map (\<lambda>a. a * k) p) = gf_eval c p * k"
  by (induction p) (simp_all add: gf_eval_Cons algebra_simps)

section \<open>The generator polynomial\<close>

lemma gf_of_simps [simp]:
  "gf_of (a XOR b) = gf_of a + gf_of b" "gf_of (reedSolomonMultiply a b) = gf_of a * gf_of b" "gf_of 0 = 0" "gf_of 1 = 1"
  by (simp_all add: plus_gf.abs_eq times_gf.abs_eq zero_gf_def one_gf_def eq_onp_same_args)

definition bytes_eval :: "gf \<Rightarrow> bytes \<Rightarrow> gf" where
  "bytes_eval c p = gf_eval c (map gf_of p)"

lemma bytes_eval_shift:
  assumes "p \<noteq> []"
  shows "bytes_eval c (tl p @ [0]) = bytes_eval c p * c + gf_of (p ! 0) * c ^ length p"
proof -
  obtain a q where p: "p = a # q" using assms by (cases p) auto
  have "gf_of a * c ^ length q * c + gf_of a * c ^ length q * c = 0" by simp
  then show ?thesis by (simp add: p bytes_eval_def gf_eval_snoc gf_eval_Cons algebra_simps)
qed

lemma bytes_eval_sum:
  assumes "length p = length q"
  shows "bytes_eval c (map (\<lambda>j. p ! j XOR q ! j) [0..<length p]) = bytes_eval c p + bytes_eval c q"
proof -
  have "map gf_of (map (\<lambda>j. p ! j XOR q ! j) [0..<length p]) = map2 (+) (map gf_of p) (map gf_of q)"
    using assms by (intro nth_equalityI) auto
  then show ?thesis using assms by (simp add: bytes_eval_def gf_eval_add)
qed

lemma bytes_eval_scale: "bytes_eval c (map (\<lambda>a. reedSolomonMultiply a k) p) = bytes_eval c p * gf_of k"
  using gf_eval_scale [of c "gf_of k" "map gf_of p"] by (simp add: bytes_eval_def o_def)

text \<open>A step of the generator computation multiplies by \<open>x - root\<close> and drops the highest term.\<close>

lemma divisor_turns_eval:
  assumes "length r = n" "0 < n"
  shows "bytes_eval c (fold (divisor_turn n root) [0..<n] r) =
    bytes_eval c r * (c + gf_of root) + gf_of (r ! 0) * c ^ n"
proof -
  have "fold (divisor_turn n root) [0..<n] r =
      map (\<lambda>j. map (\<lambda>a. reedSolomonMultiply a root) r ! j XOR (tl r @ [0]) ! j) [0..<n]"
    using assms by (simp add: divisor_turns) (auto simp: nth_append nth_tl)
  then have "bytes_eval c (fold (divisor_turn n root) [0..<n] r) =
      bytes_eval c (map (\<lambda>a. reedSolomonMultiply a root) r) + bytes_eval c (tl r @ [0])"
    using assms bytes_eval_sum [of "map (\<lambda>a. reedSolomonMultiply a root) r" "tl r @ [0]" c] by simp
  moreover have "r \<noteq> []" using assms by auto
  ultimately show ?thesis using assms by (simp add: bytes_eval_scale bytes_eval_shift algebra_simps)
qed

text \<open>
  After \<open>i\<close> of \<open>n\<close> steps the array holds the product of the first \<open>i\<close> factors: its leading one has moved up
  from the last place and leaves the array with the last step.
\<close>

definition divisor_inv :: "nat \<Rightarrow> nat \<Rightarrow> bytes \<times> u8 \<Rightarrow> bool" where
  "divisor_inv n i s =
     (length (fst s) = n \<and> gf_of (snd s) = gf_of 2 ^ i \<and>
      (i < n \<longrightarrow> fst s ! (n - 1 - i) = 1 \<and> (\<forall>j < n - 1 - i. fst s ! j = 0)) \<and>
      (\<forall>c. bytes_eval c (fst s) + (if i = n then c ^ n else 0) = (\<Prod>k<i. c + gf_of 2 ^ k)))"

lemma divisor_inv_start: "0 < n \<Longrightarrow> divisor_inv n 0 ((replicate n 0)[n - 1 := 1], 1)"
proof -
  assume n: "0 < n"
  then have "(replicate n 0)[n - 1 := 1] = replicate (n - 1) (0 :: u8) @ [1]"
    by (cases n) (simp_all add: replicate_append_same [symmetric] list_update_append)
  moreover have "gf_eval c (replicate m 0) = 0" for c m by (induction m) (simp_all add: gf_eval_Cons)
  ultimately show ?thesis using n by (simp add: divisor_inv_def bytes_eval_def gf_eval_snoc nth_append)
qed

lemma divisor_inv_step:
  assumes "divisor_inv n i s" "i < n"
  shows "divisor_inv n (Suc i) (divisor_step n s)"
proof -
  obtain r root where s: "s = (r, root)" by fastforce
  let ?r = "fold (divisor_turn n root) [0..<n] r"
  have r: "length r = n" "gf_of root = gf_of 2 ^ i" "r ! (n - 1 - i) = 1" "\<And>j. j < n - 1 - i \<Longrightarrow> r ! j = 0"
    "\<And>c. bytes_eval c r = (\<Prod>k<i. c + gf_of 2 ^ k)" and n: "0 < n"
    using assms by (auto simp: divisor_inv_def s)
  have r': "?r = map (\<lambda>j. reedSolomonMultiply (r ! j) root XOR (if j + 1 < n then r ! (j + 1) else 0)) [0..<n]"
    using r(1) by (rule divisor_turns)
  have lead: "?r ! (n - 1 - Suc i) = 1 \<and> (\<forall>j < n - 1 - Suc i. ?r ! j = 0)" if "Suc i < n"
  proof -
    have "r ! (n - 1 - Suc i) = 0" "r ! (n - 1 - Suc i + 1) = 1" using that r(3,4) by (auto simp: Suc_diff_Suc)
    then show ?thesis using that r(4) unfolding r' by auto
  qed
  have first: "r ! 0 = (if Suc i = n then 1 else 0)" using r(3,4) assms(2) by (cases "Suc i = n") auto
  have "bytes_eval c ?r + (if Suc i = n then c ^ n else 0) = (\<Prod>k<Suc i. c + gf_of 2 ^ k)" for c
    using divisor_turns_eval [OF r(1) n, of c root] r(2,5) first by (simp add: add.assoc)
  then show ?thesis using lead r(2) unfolding divisor_inv_def by (auto simp: s divisor_step_def r' power_commutes)
qed

lemma divisor_inv_steps: "0 < n \<Longrightarrow> i \<le> n \<Longrightarrow> divisor_inv n i (fold (\<lambda>i. divisor_step n) [0..<i] ((replicate n 0)[n - 1 := 1], 1))"
  by (induction i) (simp_all add: divisor_inv_start [simplified] divisor_inv_step)

lemma divisor_total:
  "1 \<le> n \<Longrightarrow> n \<le> 30 \<Longrightarrow> \<exists>g. reedSolomonComputeDivisor n = Some g \<and> length g = n"
  using divisor_inv_steps [of n n]
  by (auto simp: reedSolomonComputeDivisor_def qrcodegen_REED_SOLOMON_DEGREE_MAX_def divisor_inv_def)

lemma divisor_eval:
  assumes "reedSolomonComputeDivisor n = Some g"
  shows "length g = n" "c ^ n + bytes_eval c g = (\<Prod>k<n. c + gf_of 2 ^ k)"
  using assms divisor_inv_steps [of n n]
  by (auto simp: reedSolomonComputeDivisor_def divisor_inv_def add.commute split: if_splits)

section \<open>The remainder\<close>

lemma remainder_step_length: "length r = n \<Longrightarrow> 0 < n \<Longrightarrow> length (remainder_step g n d r) = n"
  by (simp add: remainder_turns)

lemma remainder_step_eval:
  assumes "length r = n" "length g = n" "0 < n" and root: "c ^ n + bytes_eval c g = 0"
  shows "bytes_eval c (remainder_step g n d r) = bytes_eval c r * c + gf_of d * c ^ n"
proof -
  let ?f = "d XOR r ! 0"
  have "remainder_step g n d r = map (\<lambda>j. (tl r @ [0]) ! j XOR map (\<lambda>a. reedSolomonMultiply a ?f) g ! j) [0..<n]"
    using assms by (simp add: remainder_turns)
  then have "bytes_eval c (remainder_step g n d r) = bytes_eval c (tl r @ [0]) + bytes_eval c g * gf_of ?f"
    using assms bytes_eval_sum [of "tl r @ [0]" "map (\<lambda>a. reedSolomonMultiply a ?f) g" c] by (simp add: bytes_eval_scale)
  moreover have "bytes_eval c g = c ^ n" using root by (metis add.left_commute add.right_neutral gf_plus_self)
  moreover have "r \<noteq> []" using assms by auto
  ultimately have "bytes_eval c (remainder_step g n d r) =
      bytes_eval c r * c + gf_of d * c ^ n + (gf_of (r ! 0) * c ^ n + gf_of (r ! 0) * c ^ n)"
    using assms by (simp add: bytes_eval_shift algebra_simps)
  then show ?thesis by simp
qed

lemma remainder_eval:
  assumes "length g = n" "0 < n" "c ^ n + bytes_eval c g = 0" "length r = n"
  shows "bytes_eval c (fold (remainder_step g n) data r) = bytes_eval c r * c ^ length data + bytes_eval c data * c ^ n \<and>
    length (fold (remainder_step g n) data r) = n"
proof (induction data rule: rev_induct)
  case (snoc d data)
  then show ?case using assms remainder_step_eval [of "fold (remainder_step g n) data r" n g c d]
    by (simp add: remainder_step_length) (simp add: bytes_eval_def gf_eval_snoc algebra_simps)
qed (use assms in \<open>simp add: bytes_eval_def\<close>)

lemma remainder_length:
  assumes "reedSolomonComputeRemainder data g n = Some e"
  shows "length e = n"
proof -
  have "length r = n \<Longrightarrow> 0 < n \<Longrightarrow> length (fold (remainder_step g n) data r) = n" for r
    by (induction data arbitrary: r) (simp_all add: remainder_step_length)
  then show ?thesis using assms by (auto simp: reedSolomonComputeRemainder_def split: if_splits)
qed

text \<open>The codeword of a block: its data followed by its error correction bytes.\<close>

lemma codeword_vanishes:
  assumes "reedSolomonComputeDivisor n = Some g" "reedSolomonComputeRemainder data g n = Some e" "k < n"
  shows "bytes_eval (gf_of 2 ^ k) (data @ e) = 0"
proof -
  let ?c = "gf_of 2 ^ k"
  have n: "0 < n" and e: "e = fold (remainder_step g n) data (replicate n 0)"
    using assms(2) by (auto simp: reedSolomonComputeRemainder_def split: if_splits)
  have "(\<Prod>i<n. ?c + gf_of 2 ^ i) = 0" using assms(3) by (intro prod_zero bexI [of _ k]) auto
  then have root: "?c ^ n + bytes_eval ?c g = 0" using divisor_eval [OF assms(1)] by simp
  have "gf_eval ?c (replicate m 0) = 0" for m by (induction m) (simp_all add: gf_eval_Cons)
  then have "bytes_eval ?c e = bytes_eval ?c data * ?c ^ n" "length e = n"
    using remainder_eval [OF divisor_eval(1) [OF assms(1)] n root, of "replicate n 0" data]
    by (simp_all add: e bytes_eval_def)
  then show ?thesis by (simp add: bytes_eval_def gf_eval_append)
qed

end
