(* ===== verification/Qr_Blocks.thy ===== *)
theory Qr_Blocks
  imports Qr_Count Qr_Ecc
begin

text \<open>
  Splitting the data into blocks, adding the error correction bytes and interleaving.  No byte of the result is written
  twice, so a reader that undoes the interleaving finds each data block and its error correction bytes.
\<close>

section \<open>The routine\<close>

text \<open>The bytes \<open>data[off .. off + len)\<close>, read and overwritten.\<close>

definition slice :: "bytes \<Rightarrow> int \<Rightarrow> int \<Rightarrow> bytes option" where
  "slice b off len = (if 0 \<le> off \<and> 0 \<le> len \<and> off + len \<le> int (length b) then Some (take (nat len) (drop (nat off) b)) else None)"

definition blit :: "int \<Rightarrow> bytes \<Rightarrow> bytes \<Rightarrow> bytes option" where
  "blit off src b =
     (if 0 \<le> off \<and> off + int (length src) \<le> int (length b)
      then Some (take (nat off) b @ src @ drop (nat off + length src) b) else None)"

definition copy_data_turn :: "int \<Rightarrow> int \<Rightarrow> int \<Rightarrow> bytes \<Rightarrow> int \<Rightarrow> int \<Rightarrow> bytes \<times> int \<Rightarrow> (bytes \<times> int) option" where
  "copy_data_turn numBlocks numShortBlocks shortBlockDataLen data dat j s =
     (case s of (result, k) \<Rightarrow> do {
        let k = (if j = shortBlockDataLen then k - numShortBlocks else k);
        b \<leftarrow> load data (dat + j);
        r \<leftarrow> store k b result;
        Some (r, k + numBlocks)
      })"

definition copy_ecc_turn :: "int \<Rightarrow> bytes \<Rightarrow> int \<Rightarrow> int \<Rightarrow> bytes \<times> int \<Rightarrow> (bytes \<times> int) option" where
  "copy_ecc_turn numBlocks data dataLen j s =
     (case s of (result, k) \<Rightarrow> do {
        b \<leftarrow> load data (dataLen + j);
        r \<leftarrow> store k b result;
        Some (r, k + numBlocks)
      })"

definition block_turn ::
    "int \<Rightarrow> int \<Rightarrow> int \<Rightarrow> int \<Rightarrow> int \<Rightarrow> bytes \<Rightarrow> int \<Rightarrow> bytes \<times> bytes \<times> int \<Rightarrow> (bytes \<times> bytes \<times> int) option" where
  "block_turn numBlocks numShortBlocks shortBlockDataLen blockEccLen dataLen rsdiv i s =
     (case s of (data, result, dat) \<Rightarrow> do {
        let datLen = shortBlockDataLen + (if i < numShortBlocks then 0 else 1);
        block \<leftarrow> slice data dat datLen;
        ecc \<leftarrow> reedSolomonComputeRemainder block rsdiv (nat blockEccLen);
        data \<leftarrow> blit dataLen ecc data;
        (result, _) \<leftarrow> for_each (copy_data_turn numBlocks numShortBlocks shortBlockDataLen data dat) [0..datLen - 1] (result, i);
        (result, _) \<leftarrow> for_each (copy_ecc_turn numBlocks data dataLen) [0..blockEccLen - 1] (result, dataLen + i);
        Some (data, result, dat + datLen)
      })"

definition addEccAndInterleave :: "bytes \<Rightarrow> int \<Rightarrow> qrcodegen_Ecc \<Rightarrow> bytes \<Rightarrow> (bytes \<times> bytes) option" where
  "addEccAndInterleave data version ecl result = do {
     _ \<leftarrow> asserting (qrcodegen_VERSION_MIN \<le> version \<and> version \<le> qrcodegen_VERSION_MAX);
     numBlocks \<leftarrow> table_at NUM_ERROR_CORRECTION_BLOCKS ecl version;
     blockEccLen \<leftarrow> table_at ECC_CODEWORDS_PER_BLOCK ecl version;
     raw \<leftarrow> getNumRawDataModules version;
     let rawCodewords = raw div 8;
     dataLen \<leftarrow> getNumDataCodewords version ecl;
     let numShortBlocks = numBlocks - rawCodewords mod numBlocks;
     let shortBlockDataLen = rawCodewords div numBlocks - blockEccLen;
     rsdiv \<leftarrow> reedSolomonComputeDivisor (nat blockEccLen);
     (data, result, _) \<leftarrow> for_each (block_turn numBlocks numShortBlocks shortBlockDataLen blockEccLen dataLen rsdiv)
                             [0..numBlocks - 1] (data, result, 0);
     Some (data, result)
   }"

section \<open>The layout of the blocks\<close>

text \<open>Number of blocks, of short blocks, data bytes of a short block, error correction bytes of a block.\<close>

record block_layout =
  blocks :: nat
  shorts :: nat
  short_len :: nat
  ecc_len :: nat

definition layout_of :: "int \<Rightarrow> qrcodegen_Ecc \<Rightarrow> block_layout" where
  "layout_of v e =
     (let b = nat (NUM_ERROR_CORRECTION_BLOCKS ! ecc_index e ! nat v); c = nat (ECC_CODEWORDS_PER_BLOCK ! ecc_index e ! nat v);
          raw = nat (case getNumRawDataModules v of Some r \<Rightarrow> r div 8 | None \<Rightarrow> 0)
      in \<lparr>blocks = b, shorts = b - raw mod b, short_len = raw div b - c, ecc_len = c\<rparr>)"

definition data_len :: "block_layout \<Rightarrow> nat" where
  "data_len l = short_len l * blocks l + (blocks l - shorts l)"

definition raw_len :: "block_layout \<Rightarrow> nat" where
  "raw_len l = data_len l + ecc_len l * blocks l"

definition layout_ok :: "block_layout \<Rightarrow> bool" where
  "layout_ok l = (0 < shorts l \<and> shorts l \<le> blocks l \<and> 0 < short_len l \<and> 1 \<le> ecc_len l \<and> ecc_len l \<le> 30)"

definition table_ok :: "int \<Rightarrow> qrcodegen_Ecc \<Rightarrow> bool" where
  "table_ok v e =
     (case table_at NUM_ERROR_CORRECTION_BLOCKS e v of None \<Rightarrow> False | Some b \<Rightarrow>
      case table_at ECC_CODEWORDS_PER_BLOCK e v of None \<Rightarrow> False | Some c \<Rightarrow>
      case getNumRawDataModules v of None \<Rightarrow> False | Some r \<Rightarrow>
        0 < b \<and> 1 \<le> c \<and> c \<le> 30 \<and> c < r div 8 div b \<and> 9 \<le> r div 8 - c * b \<and> (r div 8 - c * b) * 8 \<le> 32767)"

lemma table_ok: "list_all (\<lambda>e. list_all (\<lambda>v. table_ok v e) [1..40]) [Ecc_LOW, Ecc_MEDIUM, Ecc_QUARTILE, Ecc_HIGH]"
  by code_simp

lemma layout_facts:
  assumes "1 \<le> v" "v \<le> 40" "l = layout_of v e"
  shows "layout_ok l" "9 \<le> data_len l" "data_len l * 8 \<le> INT16_MAX"
    "table_at NUM_ERROR_CORRECTION_BLOCKS e v = Some (int (blocks l))" "table_at ECC_CODEWORDS_PER_BLOCK e v = Some (int (ecc_len l))"
    "\<exists>r. getNumRawDataModules v = Some r \<and> r div 8 = int (raw_len l)" "getNumDataCodewords v e = Some (int (data_len l))"
    "int (blocks l) - int (raw_len l) mod int (blocks l) = int (shorts l)"
    "int (raw_len l) div int (blocks l) - int (ecc_len l) = int (short_len l)"
proof -
  have "list_all (\<lambda>v. table_ok v e) [1..40]" using table_ok unfolding list.pred_inject by (cases e) simp_all
  then have "table_ok v e" using assms(1,2) by (rule table_entry)
  then obtain b c r where t: "table_at NUM_ERROR_CORRECTION_BLOCKS e v = Some b" "table_at ECC_CODEWORDS_PER_BLOCK e v = Some c"
      "getNumRawDataModules v = Some r" and ok: "0 < b" "1 \<le> c" "c \<le> 30" "c < r div 8 div b" "9 \<le> r div 8 - c * b" "(r div 8 - c * b) * 8 \<le> 32767"
    by (auto simp: table_ok_def split: option.splits)
  define B C R where "B = nat b" "C = nat c" "R = nat (r div 8)"
  have "0 < r div 8 div b" using ok(2,4) by linarith
  then have "0 \<le> r div 8" using ok(1) pos_imp_zdiv_nonneg_iff [of b "r div 8"] by linarith
  then have i: "b = int B" "c = int C" "r div 8 = int R" using ok by (simp_all add: B_C_R_def)
  have lt: "C < R div B" using ok(4) unfolding i by (simp flip: of_nat_div)
  have l: "l = \<lparr>blocks = B, shorts = B - R mod B, short_len = R div B - C, ecc_len = C\<rparr>"
    using t assms by (auto simp: layout_of_def table_at_def B_C_R_def Let_def)
  have B: "0 < B" using ok(1) i by simp
  have mod: "R mod B < B" using B by simp
  have "(R div B - C) * B + C * B = R div B * B" using lt by (simp add: diff_mult_distrib)
  then have "(R div B - C) * B + R mod B + C * B = R" using div_mult_mod_eq [of R B] by linarith
  then have raw: "raw_len l = R" "data_len l + C * B = R" using mod by (simp_all add: l raw_len_def data_len_def)
  then have D: "int (data_len l) = r div 8 - c * b" unfolding i by (metis add_diff_cancel_right' of_nat_add of_nat_mult)
  show "layout_ok l" using mod lt ok(2,3) i by (auto simp: layout_ok_def l)
  show "9 \<le> data_len l" "data_len l * 8 \<le> INT16_MAX" using ok(5,6) D by (auto simp: INT16_MAX_def)
  show "table_at NUM_ERROR_CORRECTION_BLOCKS e v = Some (int (blocks l))" "table_at ECC_CODEWORDS_PER_BLOCK e v = Some (int (ecc_len l))"
    "\<exists>r. getNumRawDataModules v = Some r \<and> r div 8 = int (raw_len l)" "getNumDataCodewords v e = Some (int (data_len l))"
    using t i raw(1) D by (simp_all add: l getNumDataCodewords_def)
  show "int (blocks l) - int (raw_len l) mod int (blocks l) = int (shorts l)"
    "int (raw_len l) div int (blocks l) - int (ecc_len l) = int (short_len l)"
    unfolding raw(1) using mod lt by (simp_all add: l of_nat_diff flip: of_nat_mod of_nat_div)
qed

text \<open>Where the data bytes of block \<open>i\<close> start, how many there are, and where byte \<open>j\<close> goes.\<close>

definition block_start :: "block_layout \<Rightarrow> nat \<Rightarrow> nat" where
  "block_start l i = i * short_len l + (i - shorts l)"

definition block_len :: "block_layout \<Rightarrow> nat \<Rightarrow> nat" where
  "block_len l i = short_len l + (if i < shorts l then 0 else 1)"

definition data_pos :: "block_layout \<Rightarrow> nat \<Rightarrow> nat \<Rightarrow> nat" where
  "data_pos l i j = (if j < short_len l then i + j * blocks l else i + j * blocks l - shorts l)"

definition ecc_pos :: "block_layout \<Rightarrow> nat \<Rightarrow> nat \<Rightarrow> nat" where
  "ecc_pos l i j = data_len l + i + j * blocks l"

lemma block_start_Suc: "block_start l (Suc i) = block_start l i + block_len l i"
  by (simp add: block_start_def block_len_def Suc_diff_le)

lemma block_start_mono: "i \<le> k \<Longrightarrow> block_start l i \<le> block_start l k"
  by (simp add: block_start_def add_mono)

lemma block_start_last: "block_start l (blocks l) = data_len l"
  by (simp add: block_start_def data_len_def)

lemma block_inside: "i < blocks l \<Longrightarrow> block_start l i + block_len l i \<le> data_len l"
  using block_start_mono [of "Suc i" "blocks l" l] by (simp add: block_start_Suc block_start_last)

lemma mult_add_less: "i < b \<Longrightarrow> j < n \<Longrightarrow> i + j * b < n * (b :: nat)"
proof -
  assume a: "i < b" "j < n"
  have "Suc j * b \<le> n * b" using a(2) by (intro mult_right_mono) auto
  then show ?thesis using a(1) by simp
qed

lemma mult_add_eq:
  assumes "i < b" "i' < b" "i + j * b = i' + j' * (b :: nat)"
  shows "i = i' \<and> j = j'"
proof -
  have "(i + j * b) mod b = i" "(i' + j' * b) mod b = i'" "(i + j * b) div b = j" "(i' + j' * b) div b = j'" using assms(1,2) by simp_all
  then show ?thesis using assms(3) by metis
qed

lemma data_pos_cases:
  assumes "layout_ok l" "i < blocks l" "j < block_len l i"
  shows "j < short_len l \<and> data_pos l i j = i + j * blocks l \<and> data_pos l i j < short_len l * blocks l \<or>
    j = short_len l \<and> shorts l \<le> i \<and> data_pos l i j = short_len l * blocks l + (i - shorts l)"
proof (cases "j < short_len l")
  case True
  then show ?thesis using mult_add_less [OF assms(2)] by (simp add: data_pos_def)
next
  case False
  then have "j = short_len l" "shorts l \<le> i" using assms(3) by (auto simp: block_len_def split: if_splits)
  then show ?thesis by (simp add: data_pos_def)
qed

lemma data_pos_less:
  assumes "layout_ok l" "i < blocks l" "j < block_len l i"
  shows "data_pos l i j < data_len l"
  using data_pos_cases [OF assms] assms by (auto simp: data_len_def layout_ok_def)

lemma ecc_pos_less: "i < blocks l \<Longrightarrow> j < ecc_len l \<Longrightarrow> ecc_pos l i j < raw_len l"
  using mult_add_less [of i "blocks l" j "ecc_len l"] by (simp add: ecc_pos_def raw_len_def)

lemma data_pos_inj:
  assumes "layout_ok l" "i < blocks l" "j < block_len l i" "i' < blocks l" "j' < block_len l i'" "data_pos l i j = data_pos l i' j'"
  shows "i = i' \<and> j = j'"
  using data_pos_cases [OF assms(1-3)] data_pos_cases [OF assms(1,4,5)]
proof (elim disjE conjE)
  assume "data_pos l i j = i + j * blocks l" "data_pos l i' j' = i' + j' * blocks l"
  then show ?thesis using mult_add_eq [OF assms(2,4)] assms(6) by metis
qed (use assms(6) in simp_all)

lemma ecc_pos_inj: "i < blocks l \<Longrightarrow> i' < blocks l \<Longrightarrow> ecc_pos l i j = ecc_pos l i' j' \<Longrightarrow> i = i' \<and> j = j'"
  using mult_add_eq [of i "blocks l" i' j j'] by (simp add: ecc_pos_def)

lemma data_ecc_pos:
  "layout_ok l \<Longrightarrow> i < blocks l \<Longrightarrow> j < block_len l i \<Longrightarrow> data_pos l i j \<noteq> ecc_pos l i' j'"
  using data_pos_less [of l i j] by (simp add: ecc_pos_def)

section \<open>The copy loops as stores\<close>

lemma upto_snoc: "[0..int (Suc n) - 1] = [0..int n - 1] @ [int n]"
  using upto_rec2 [of 0 "int n"] by simp

lemma stores_snoc: "stores (ws @ [(k, v)]) r = Option.bind (stores ws r) (store (int k) v)"
  by (auto simp: stores_def for_each_append split: bind_splits)

lemma copy_loop:
  assumes "\<And>j. j < n \<Longrightarrow> load data (dat + int j) = Some (f j)" "\<And>j. j < n \<Longrightarrow> int (pos j) = k + int j * b - (if L \<le> int j then s else 0)" "0 \<le> L"
  shows "for_each (copy_data_turn b s L data dat) [0..int n - 1] (r, k) =
    map_option (\<lambda>r. (r, k + int n * b - (if L < int n then s else 0))) (stores (map (\<lambda>j. (pos j, f j)) [0..<n]) r)"
  using assms
proof (induction n)
  case 0
  then show ?case by (simp add: stores_def)
next
  case (Suc n)
  then have IH: "for_each (copy_data_turn b s L data dat) [0..int n - 1] (r, k) =
      map_option (\<lambda>r. (r, k + int n * b - (if L < int n then s else 0))) (stores (map (\<lambda>j. (pos j, f j)) [0..<n]) r)" by simp
  let ?k = "k + int n * b - (if L < int n then s else 0)"
  have kn: "(if int n = L then ?k - s else ?k) = int (pos n)" "int (pos n) + b = k + int (Suc n) * b - (if L < int (Suc n) then s else 0)"
    using Suc.prems(2) [of n] by (auto simp: algebra_simps)
  have turn: "copy_data_turn b s L data dat (int n) (r', ?k) =
      map_option (\<lambda>r. (r, k + int (Suc n) * b - (if L < int (Suc n) then s else 0))) (store (int (pos n)) (f n) r')" for r'
    unfolding copy_data_turn_def prod.case Let_def kn using Suc.prems(1) [of n]
    by (cases "store (int (pos n)) (f n) r'") simp_all
  show ?case
    unfolding upto_snoc for_each_append IH upt_Suc_append [OF zero_le] map_append list.map stores_snoc
    by (cases "stores (map (\<lambda>j. (pos j, f j)) [0..<n]) r") (simp_all only: option.map bind.simps for_each.simps turn, auto split: bind_splits option.splits)
qed

lemma copy_ecc_alt: "copy_ecc_turn b data dl = copy_data_turn b 0 0 data dl"
  by (auto simp: fun_eq_iff copy_ecc_turn_def copy_data_turn_def)

text \<open>What block \<open>i\<close> writes.\<close>

definition block_writes :: "block_layout \<Rightarrow> bytes \<Rightarrow> (nat \<Rightarrow> bytes) \<Rightarrow> nat \<Rightarrow> (nat \<times> u8) list" where
  "block_writes l data ecc i =
     map (\<lambda>j. (data_pos l i j, data ! (block_start l i + j))) [0..<block_len l i] @
     map (\<lambda>j. (ecc_pos l i j, ecc i ! j)) [0..<ecc_len l]"

definition data_block :: "block_layout \<Rightarrow> bytes \<Rightarrow> nat \<Rightarrow> bytes" where
  "data_block l data i = take (block_len l i) (drop (block_start l i) data)"

lemma stores_append: "stores (xs @ ys) r = Option.bind (stores xs r) (stores ys)"
  by (simp add: stores_def for_each_append)

lemma block_turn_alt:
  assumes "layout_ok l" "i < blocks l" "raw_len l \<le> length d" "take (data_len l) d = take (data_len l) data"
    and ecc: "reedSolomonComputeRemainder (data_block l data i) g (ecc_len l) = Some (ecc i)"
  shows "\<exists>d'. block_turn (int (blocks l)) (int (shorts l)) (int (short_len l)) (int (ecc_len l)) (int (data_len l)) g (int i)
      (d, r, int (block_start l i)) =
      map_option (\<lambda>r. (d', r, int (block_start l (Suc i)))) (stores (block_writes l data ecc i) r) \<and>
    length d' = length d \<and> take (data_len l) d' = take (data_len l) data"
proof -
  let ?D = "data_len l"
  define d' where "d' = take ?D d @ ecc i @ drop (?D + ecc_len l) d"
  have len: "length (ecc i) = ecc_len l" by (rule remainder_length [OF ecc])
  have "ecc_len l \<le> ecc_len l * blocks l" using assms(2) by (cases "blocks l") auto
  then have room: "?D + ecc_len l \<le> length d" using assms(3) unfolding raw_len_def by linarith
  have inside: "block_start l i + block_len l i \<le> ?D" by (rule block_inside [OF assms(2)])
  have "take (block_len l i) (drop (block_start l i) d) = take (block_len l i) (drop (block_start l i) (take ?D d))"
    using inside by (simp add: drop_take min_def)
  also have "\<dots> = data_block l data i" unfolding assms(4) data_block_def using inside by (simp add: drop_take min_def)
  finally have sl: "slice d (int (block_start l i)) (int (block_len l i)) = Some (data_block l data i)"
    using inside room by (simp add: slice_def)
  have bl: "blit (int ?D) (ecc i) d = Some d'" using room by (simp add: blit_def d'_def len)
  have "length d' = length d" "take ?D d' = take ?D d" using room len by (simp_all add: d'_def)
  then have d': "length d' = length d" "take ?D d' = take ?D data" by (simp_all only: assms(4))
  have ld: "load d' (int (block_start l i) + int j) = Some (data ! (block_start l i + j))" if "j < block_len l i" for j
  proof -
    have "block_start l i + j < ?D" using that inside by simp
    then have "d' ! (block_start l i + j) = data ! (block_start l i + j)" using d'(2) by (metis nth_take)
    then show ?thesis using \<open>block_start l i + j < ?D\<close> room d'(1) by (simp add: load_def nat_add_distrib)
  qed
  have le: "load d' (int ?D + int j) = Some (ecc i ! j)" if "j < ecc_len l" for j
    using that room len by (simp add: load_def nat_add_distrib d'_def nth_append)
  have dp: "int (data_pos l i j) = int i + int j * int (blocks l) - (if int (short_len l) \<le> int j then int (shorts l) else 0)"
    if "j < block_len l i" for j
    using data_pos_cases [OF assms(1,2) that] by (auto simp: of_nat_diff)
  have bl_len: "int (short_len l) + (if int i < int (shorts l) then 0 else 1) = int (block_len l i)" by (simp add: block_len_def)
  have copy: "for_each (copy_data_turn (int (blocks l)) (int (shorts l)) (int (short_len l)) d' (int (block_start l i))) [0..int (block_len l i) - 1] (r, int i) =
      map_option (\<lambda>r. (r, int i + int (block_len l i) * int (blocks l) - (if int (short_len l) < int (block_len l i) then int (shorts l) else 0)))
        (stores (map (\<lambda>j. (data_pos l i j, data ! (block_start l i + j))) [0..<block_len l i]) r)"
    by (rule copy_loop [OF ld dp]) simp_all
  have copy2: "for_each (copy_ecc_turn (int (blocks l)) d' (int ?D)) [0..int (ecc_len l) - 1] (r, int ?D + int i) =
      map_option (\<lambda>r. (r, int ?D + int i + int (ecc_len l) * int (blocks l) - (if 0 < int (ecc_len l) then 0 else 0)))
        (stores (map (\<lambda>j. (ecc_pos l i j, ecc i ! j)) [0..<ecc_len l]) r)" for r
    unfolding copy_ecc_alt by (rule copy_loop [OF le]) (simp_all add: ecc_pos_def)
  have "block_turn (int (blocks l)) (int (shorts l)) (int (short_len l)) (int (ecc_len l)) (int ?D) g (int i) (d, r, int (block_start l i)) =
      map_option (\<lambda>r. (d', r, int (block_start l (Suc i)))) (stores (block_writes l data ecc i) r)"
    unfolding block_turn_def Let_def bl_len prod.case sl bind.simps nat_int ecc bl copy block_writes_def stores_append block_start_Suc
    by (cases "stores (map (\<lambda>j. (data_pos l i j, data ! (block_start l i + j))) [0..<block_len l i]) r")
      (simp_all add: copy2 split: bind_splits option.splits)
  then show ?thesis using d' by blast
qed

section \<open>The whole routine\<close>

definition all_writes :: "block_layout \<Rightarrow> bytes \<Rightarrow> (nat \<Rightarrow> bytes) \<Rightarrow> nat \<Rightarrow> (nat \<times> u8) list" where
  "all_writes l data ecc n = concat (map (block_writes l data ecc) [0..<n])"

lemma in_all_writes:
  "(k, b) \<in> set (all_writes l data ecc n) \<longleftrightarrow>
   (\<exists>i < n. (\<exists>j < block_len l i. k = data_pos l i j \<and> b = data ! (block_start l i + j)) \<or> (\<exists>j < ecc_len l. k = ecc_pos l i j \<and> b = ecc i ! j))"
  by (fastforce simp: all_writes_def block_writes_def)

lemma writes_inside:
  assumes "layout_ok l" "n \<le> blocks l"
  shows "\<forall>(k, b) \<in> set (all_writes l data ecc n). k < raw_len l"
proof -
  have "k < raw_len l" if kb: "(k, b) \<in> set (all_writes l data ecc n)" for k b
  proof -
    obtain i where i: "i < blocks l" "(\<exists>j < block_len l i. k = data_pos l i j) \<or> (\<exists>j < ecc_len l. k = ecc_pos l i j)"
      using kb [unfolded in_all_writes] assms(2) by (metis order_less_le_trans)
    then show ?thesis using data_pos_less [OF assms(1) i(1)] ecc_pos_less [OF i(1)] by (fastforce simp: raw_len_def)
  qed
  then show ?thesis by blast
qed

lemma map_of_only:
  assumes "(k, v) \<in> set ws" "\<And>v'. (k, v') \<in> set ws \<Longrightarrow> v' = v"
  shows "map_of ws k = Some v"
proof -
  have "map_of ws k \<noteq> None" using assms(1) by (metis map_of_eq_None_iff fst_conv imageI)
  then obtain v' where v': "map_of ws k = Some v'" by blast
  with assms(2) [OF map_of_SomeD [OF v']] show ?thesis by simp
qed

lemma writes_once:
  assumes "layout_ok l" "i < blocks l"
  shows "j < block_len l i \<Longrightarrow> map_of (rev (all_writes l data ecc (blocks l))) (data_pos l i j) = Some (data ! (block_start l i + j))"
    and "j < ecc_len l \<Longrightarrow> map_of (rev (all_writes l data ecc (blocks l))) (ecc_pos l i j) = Some (ecc i ! j)"
proof -
  assume j: "j < block_len l i"
  show "map_of (rev (all_writes l data ecc (blocks l))) (data_pos l i j) = Some (data ! (block_start l i + j))"
  proof (rule map_of_only; simp only: set_rev in_all_writes)
    show "\<exists>i' < blocks l. (\<exists>j' < block_len l i'. data_pos l i j = data_pos l i' j' \<and> data ! (block_start l i + j) = data ! (block_start l i' + j')) \<or>
        (\<exists>j' < ecc_len l. data_pos l i j = ecc_pos l i' j' \<and> data ! (block_start l i + j) = ecc i' ! j')" using assms(2) j by blast
    fix v assume "\<exists>i' < blocks l. (\<exists>j' < block_len l i'. data_pos l i j = data_pos l i' j' \<and> v = data ! (block_start l i' + j')) \<or>
        (\<exists>j' < ecc_len l. data_pos l i j = ecc_pos l i' j' \<and> v = ecc i' ! j')"
    then show "v = data ! (block_start l i + j)"
      using data_pos_inj [OF assms j] data_ecc_pos [OF assms j] by metis
  qed
next
  assume j: "j < ecc_len l"
  show "map_of (rev (all_writes l data ecc (blocks l))) (ecc_pos l i j) = Some (ecc i ! j)"
  proof (rule map_of_only; simp only: set_rev in_all_writes)
    show "\<exists>i' < blocks l. (\<exists>j' < block_len l i'. ecc_pos l i j = data_pos l i' j' \<and> ecc i ! j = data ! (block_start l i' + j')) \<or>
        (\<exists>j' < ecc_len l. ecc_pos l i j = ecc_pos l i' j' \<and> ecc i ! j = ecc i' ! j')" using assms(2) j by blast
    fix v assume "\<exists>i' < blocks l. (\<exists>j' < block_len l i'. ecc_pos l i j = data_pos l i' j' \<and> v = data ! (block_start l i' + j')) \<or>
        (\<exists>j' < ecc_len l. ecc_pos l i j = ecc_pos l i' j' \<and> v = ecc i' ! j')"
    then show "v = ecc i ! j"
      using data_ecc_pos [OF assms(1)] ecc_pos_inj [OF assms(2)] by metis
  qed
qed

text \<open>The reader: the data bytes and the error correction bytes of a block.\<close>

definition read_data :: "block_layout \<Rightarrow> bytes \<Rightarrow> nat \<Rightarrow> bytes" where
  "read_data l r i = map (\<lambda>j. r ! data_pos l i j) [0..<block_len l i]"

definition read_ecc :: "block_layout \<Rightarrow> bytes \<Rightarrow> nat \<Rightarrow> bytes" where
  "read_ecc l r i = map (\<lambda>j. r ! ecc_pos l i j) [0..<ecc_len l]"

definition deinterleave :: "block_layout \<Rightarrow> bytes \<Rightarrow> bytes" where
  "deinterleave l r = concat (map (read_data l r) [0..<blocks l])"

lemma data_blocks: "n \<le> blocks l \<Longrightarrow> data_len l \<le> length data \<Longrightarrow> concat (map (data_block l data) [0..<n]) = take (block_start l n) data"
proof (induction n)
  case 0
  then show ?case by (simp add: block_start_def)
next
  case (Suc n)
  then show ?case by (simp add: block_start_Suc take_add data_block_def)
qed

lemma blocks_loop:
  assumes "layout_ok l" "raw_len l \<le> length data" "raw_len l \<le> length result" "reedSolomonComputeDivisor (ecc_len l) = Some g"
    and ecc: "\<And>i. reedSolomonComputeRemainder (data_block l data i) g (ecc_len l) = Some (ecc i)"
  shows "n \<le> blocks l \<Longrightarrow> \<exists>d r. for_each (block_turn (int (blocks l)) (int (shorts l)) (int (short_len l)) (int (ecc_len l)) (int (data_len l)) g)
      [0..int n - 1] (data, result, 0) = Some (d, r, int (block_start l n)) \<and> length d = length data \<and> take (data_len l) d = take (data_len l) data \<and>
      stores (all_writes l data ecc n) result = Some r"
proof (induction n)
  case 0
  then show ?case by (simp add: block_start_def all_writes_def stores_def)
next
  case (Suc n)
  then obtain d r where IH: "for_each (block_turn (int (blocks l)) (int (shorts l)) (int (short_len l)) (int (ecc_len l)) (int (data_len l)) g)
      [0..int n - 1] (data, result, 0) = Some (d, r, int (block_start l n))" "length d = length data" "take (data_len l) d = take (data_len l) data"
      "stores (all_writes l data ecc n) result = Some r" by auto
  have "n < blocks l" "raw_len l \<le> length d" using Suc.prems assms(2) IH(2) by auto
  from block_turn_alt [where ecc = ecc and r = r, OF assms(1) this IH(3) ecc [of n]] obtain d' where
    d': "block_turn (int (blocks l)) (int (shorts l)) (int (short_len l)) (int (ecc_len l)) (int (data_len l)) g (int n) (d, r, int (block_start l n)) =
      map_option (\<lambda>r. (d', r, int (block_start l (Suc n)))) (stores (block_writes l data ecc n) r)" "length d' = length d" "take (data_len l) d' = take (data_len l) data"
    by blast
  have all: "all_writes l data ecc (Suc n) = all_writes l data ecc n @ block_writes l data ecc n" by (simp add: all_writes_def)
  obtain r' where r': "stores (all_writes l data ecc (Suc n)) result = Some r'"
    using stores_total [of "all_writes l data ecc (Suc n)" result] writes_inside [OF assms(1) Suc.prems, of data ecc] assms(3) by fastforce
  then have "stores (block_writes l data ecc n) r = Some r'" using IH(4) by (simp add: all stores_append)
  then show ?case
    unfolding upto_snoc for_each_append IH(1) bind.simps using d' r' IH(2) by (intro exI [of _ d'] exI [of _ r']) simp
qed

lemma interleave_ok:
  assumes "1 \<le> v" "v \<le> 40" "l = layout_of v e" "raw_len l \<le> length data" "raw_len l \<le> length result"
  shows "\<exists>g d r. reedSolomonComputeDivisor (ecc_len l) = Some g \<and> addEccAndInterleave data v e result = Some (d, r) \<and>
    length d = length data \<and> length r = length result \<and> deinterleave l r = take (data_len l) data \<and>
    (\<forall>i < blocks l. reedSolomonComputeRemainder (read_data l r i) g (ecc_len l) = Some (read_ecc l r i))"
proof -
  note facts = layout_facts [OF assms(1-3)]
  have E: "1 \<le> ecc_len l" "ecc_len l \<le> 30" using facts(1) by (auto simp: layout_ok_def)
  obtain g where g: "reedSolomonComputeDivisor (ecc_len l) = Some g" using divisor_total [OF E] by blast
  define ecc where "ecc i = the (reedSolomonComputeRemainder (data_block l data i) g (ecc_len l))" for i
  have ecc: "reedSolomonComputeRemainder (data_block l data i) g (ecc_len l) = Some (ecc i)" for i
    using E by (simp add: ecc_def reedSolomonComputeRemainder_def qrcodegen_REED_SOLOMON_DEGREE_MAX_def)
  obtain d r where loop: "for_each (block_turn (int (blocks l)) (int (shorts l)) (int (short_len l)) (int (ecc_len l)) (int (data_len l)) g)
      [0..int (blocks l) - 1] (data, result, 0) = Some (d, r, int (block_start l (blocks l)))" "length d = length data"
      and r: "stores (all_writes l data ecc (blocks l)) result = Some r"
    using blocks_loop [OF facts(1) assms(4,5) g ecc, of "blocks l"] by blast
  have ins: "\<forall>(k, b) \<in> set (all_writes l data ecc (blocks l)). k < length result"
    using writes_inside [OF facts(1) order_refl, of data ecc] assms(5) by fastforce
  then have R: "length r = length result" "\<forall>k < length result. r ! k = (case map_of (rev (all_writes l data ecc (blocks l))) k of None \<Rightarrow> result ! k | Some v \<Rightarrow> v)"
    using stores_total [OF ins] r by auto
  have D: "data_len l \<le> length data" using assms(4) by (simp add: raw_len_def)
  have rd: "read_data l r i = data_block l data i" if "i < blocks l" for i
  proof (rule nth_equalityI)
    have "block_start l i + block_len l i \<le> length data" using block_inside [OF that] D by simp
    then show "length (read_data l r i) = length (data_block l data i)" by (simp add: read_data_def data_block_def)
    fix j assume "j < length (read_data l r i)"
    then have j: "j < block_len l i" by (simp add: read_data_def)
    then have "data_pos l i j < length result" using data_pos_less [OF facts(1) that j] assms(5) by (simp add: raw_len_def)
    then show "read_data l r i ! j = data_block l data i ! j"
      using j writes_once(1) [OF facts(1) that j, of data ecc] R(2) \<open>block_start l i + block_len l i \<le> length data\<close>
      by (simp add: read_data_def data_block_def)
  qed
  have re: "read_ecc l r i = ecc i" if "i < blocks l" for i
  proof (rule nth_equalityI)
    show "length (read_ecc l r i) = length (ecc i)" using remainder_length [OF ecc] by (simp add: read_ecc_def)
    fix j assume "j < length (read_ecc l r i)"
    then have j: "j < ecc_len l" by (simp add: read_ecc_def)
    then have "ecc_pos l i j < length result" using ecc_pos_less [OF that j] assms(5) by simp
    then show "read_ecc l r i ! j = ecc i ! j" using j writes_once(2) [OF facts(1) that j, of data ecc] R(2) by (simp add: read_ecc_def)
  qed
  have "map (read_data l r) [0..<blocks l] = map (data_block l data) [0..<blocks l]" using rd by simp
  then have "deinterleave l r = take (data_len l) data"
    unfolding deinterleave_def using data_blocks [OF order_refl D] by (simp only: block_start_last)
  moreover obtain raw where raw: "getNumRawDataModules v = Some raw" "raw div 8 = int (raw_len l)" using facts(6) by blast
  have "addEccAndInterleave data v e result = Some (d, r)"
    unfolding addEccAndInterleave_def Let_def facts(4,5,7) raw(1) bind.simps raw(2) facts(8,9) nat_int g loop(1)
    using assms(1,2) by (simp add: qrcodegen_VERSION_MIN_def qrcodegen_VERSION_MAX_def)
  ultimately show ?thesis using g loop(2) R(1) rd re ecc by auto
qed

end
