(* ===== verification/Qr_Encode.thy ===== *)
theory Qr_Encode
  imports Qr_Penalty Qr_Blocks
begin

text \<open>
  The encoder: choice of the version and the error correction level, the data bit string, the drawing of the symbol and
  the choice of the mask.  A segment carries its data by value; in \<open>qrcodegen_encodeText\<close> it lies in \<open>tempBuffer\<close>, which is
  written only after the last segment has been read.
\<close>

section \<open>The routines\<close>

definition qrcodegen_BUFFER_LEN_FOR_VERSION :: "int \<Rightarrow> int" where
  "qrcodegen_BUFFER_LEN_FOR_VERSION n = ((n * 4 + 17) * (n * 4 + 17) + 7) div 8 + 1"

definition LONG_MAX :: int where
  "LONG_MAX = 2 ^ 63 - 1"

text \<open>The version loop: \<open>Some None\<close> when no version up to \<open>maxVersion\<close> is large enough.\<close>

function find_version :: "qrcodegen_Segment list \<Rightarrow> qrcodegen_Ecc \<Rightarrow> int \<Rightarrow> int \<Rightarrow> (int \<times> int) option option" where
  "find_version segs ecl version maxVersion =
     (case getNumDataCodewords version ecl of None \<Rightarrow> None | Some codewords \<Rightarrow>
      case getTotalBits segs version of None \<Rightarrow> None | Some dataUsedBits \<Rightarrow>
        if dataUsedBits \<noteq> -1 \<and> dataUsedBits \<le> codewords * 8 then Some (Some (version, dataUsedBits))
        else if maxVersion \<le> version then Some None
        else find_version segs ecl (version + 1) maxVersion)"
  by pat_completeness auto
termination by (relation "measure (\<lambda>(_, _, v, m). nat (m - v))") auto

declare find_version.simps [simp del]

definition boost_level :: "int \<Rightarrow> int \<Rightarrow> bool \<Rightarrow> qrcodegen_Ecc \<Rightarrow> qrcodegen_Ecc option" where
  "boost_level version dataUsedBits boostEcl =
     for_each (\<lambda>i ecl.
       if boostEcl then do { c \<leftarrow> getNumDataCodewords version i; Some (if dataUsedBits \<le> c * 8 then i else ecl) }
       else Some ecl) [Ecc_MEDIUM, Ecc_QUARTILE, Ecc_HIGH]"

definition append_segment :: "int \<Rightarrow> qrcodegen_Segment \<Rightarrow> bit_buffer \<Rightarrow> bit_buffer option" where
  "append_segment version seg s = do {
     s \<leftarrow> appendBitsToBuffer (mode_value (seg_mode seg)) 4 s;
     cc \<leftarrow> numCharCountBits (seg_mode seg) version;
     s \<leftarrow> appendBitsToBuffer (nat (seg_numChars seg)) cc s;
     for_each (\<lambda>j s. do {
       d \<leftarrow> load (seg_data seg) (int (j div 8));
       appendBitsToBuffer (drop_bit (7 - j mod 8) (unat d) AND 1) 1 s
     }) [0..<nat (seg_bitLength seg)] s
   }"

lemma append_bit_length: "append_bit val i s = Some s' \<Longrightarrow> snd s' = snd s + 1"
  by (auto simp: append_bit_def bind_eq_Some_conv split: prod.splits)

lemma append_length:
  assumes "appendBitsToBuffer val w s = Some s'"
  shows "snd s' = snd s + w"
proof -
  have "for_each (append_bit val) xs s = Some s' \<Longrightarrow> snd s' = snd s + length xs" for xs s s'
    by (induction xs arbitrary: s) (auto simp: bind_eq_Some_conv dest!: append_bit_length)
  then show ?thesis using assms by (auto simp: appendBitsToBuffer_def split: if_splits)
qed

function pad_loop :: "u8 \<Rightarrow> nat \<Rightarrow> bit_buffer \<Rightarrow> bit_buffer option" where
  "pad_loop padByte capacity s =
     (if snd s < capacity
      then (case appendBitsToBuffer (unat padByte) 8 s of None \<Rightarrow> None
            | Some s' \<Rightarrow> pad_loop (padByte XOR (0xEC XOR 0x11)) capacity s')
      else Some s)"
  by pat_completeness auto
termination
  by (relation "measure (\<lambda>(_, c, s). c - snd s)") (auto dest!: append_length)

declare pad_loop.simps [simp del]

text \<open>The data bit string: all segments, the terminator and the padding.\<close>

definition write_data ::
    "qrcodegen_Segment list \<Rightarrow> int \<Rightarrow> qrcodegen_Ecc \<Rightarrow> int \<Rightarrow> bytes \<Rightarrow> bytes option" where
  "write_data segs version ecl dataUsedBits qrcode = do {
     q \<leftarrow> clear (qrcodegen_BUFFER_LEN_FOR_VERSION version) qrcode;
     (q, bitLen) \<leftarrow> for_each (append_segment version) segs (q, 0);
     _ \<leftarrow> asserting (int bitLen = dataUsedBits);
     codewords \<leftarrow> getNumDataCodewords version ecl;
     let dataCapacityBits = codewords * 8;
     _ \<leftarrow> asserting (int bitLen \<le> dataCapacityBits);
     let terminatorBits = dataCapacityBits - int bitLen;
     let terminatorBits = (if 4 < terminatorBits then 4 else terminatorBits);
     (q, bitLen) \<leftarrow> appendBitsToBuffer 0 (nat terminatorBits) (q, bitLen);
     (q, bitLen) \<leftarrow> appendBitsToBuffer 0 ((8 - bitLen mod 8) mod 8) (q, bitLen);
     _ \<leftarrow> asserting (bitLen mod 8 = 0);
     (q, bitLen) \<leftarrow> pad_loop 0xEC (nat dataCapacityBits) (q, bitLen);
     Some q
   }"

text \<open>Function modules and codewords: the symbol without mask and format, and the grid that marks the function modules.\<close>

definition draw_symbol :: "int \<Rightarrow> qrcodegen_Ecc \<Rightarrow> bytes \<Rightarrow> bytes \<Rightarrow> (bytes \<times> bytes) option" where
  "draw_symbol version ecl tempBuffer qrcode = do {
     (q, temp) \<leftarrow> addEccAndInterleave qrcode version ecl tempBuffer;
     q \<leftarrow> initializeFunctionModules version q;
     raw \<leftarrow> getNumRawDataModules version;
     q \<leftarrow> drawCodewords temp (nat (raw div 8)) q;
     q \<leftarrow> drawWhiteFunctionModules version q;
     temp \<leftarrow> initializeFunctionModules version temp;
     Some (temp, q)
   }"

definition mask_turn :: "qrcodegen_Ecc \<Rightarrow> bytes \<Rightarrow> int \<Rightarrow> bytes \<times> int \<times> int \<Rightarrow> (bytes \<times> int \<times> int) option" where
  "mask_turn ecl tempBuffer msk s =
     (case s of (q, best, minPenalty) \<Rightarrow> do {
        q \<leftarrow> applyMask tempBuffer msk q;
        q \<leftarrow> drawFormatBits ecl msk q;
        penalty \<leftarrow> getPenaltyScore q;
        let (best, minPenalty) = (if penalty < minPenalty then (msk, penalty) else (best, minPenalty));
        q \<leftarrow> applyMask tempBuffer msk q;
        Some (q, best, minPenalty)
      })"

text \<open>Mask -1 is \<open>qrcodegen_Mask_AUTO\<close>.\<close>

definition mask_symbol :: "qrcodegen_Ecc \<Rightarrow> int \<Rightarrow> bytes \<Rightarrow> bytes \<Rightarrow> bytes option" where
  "mask_symbol ecl msk tempBuffer qrcode = do {
     (q, msk) \<leftarrow> (if msk = -1
                   then do { (q, best, _) \<leftarrow> for_each (mask_turn ecl tempBuffer) [0..7] (qrcode, msk, LONG_MAX); Some (q, best) }
                   else Some (qrcode, msk));
     _ \<leftarrow> asserting (0 \<le> msk \<and> msk \<le> 7);
     q \<leftarrow> applyMask tempBuffer msk q;
     drawFormatBits ecl msk q
   }"

text \<open>The result and the contents of \<open>tempBuffer\<close> and \<open>qrcode\<close>.\<close>

definition qrcodegen_encodeSegmentsAdvanced ::
    "qrcodegen_Segment list \<Rightarrow> qrcodegen_Ecc \<Rightarrow> int \<Rightarrow> int \<Rightarrow> int \<Rightarrow> bool \<Rightarrow> bytes \<Rightarrow> bytes \<Rightarrow> (bool \<times> bytes \<times> bytes) option" where
  "qrcodegen_encodeSegmentsAdvanced segs ecl minVersion maxVersion msk boostEcl tempBuffer qrcode = do {
     _ \<leftarrow> asserting (qrcodegen_VERSION_MIN \<le> minVersion \<and> minVersion \<le> maxVersion \<and> maxVersion \<le> qrcodegen_VERSION_MAX);
     _ \<leftarrow> asserting (-1 \<le> msk \<and> msk \<le> 7);
     found \<leftarrow> find_version segs ecl minVersion maxVersion;
     case found of
       None \<Rightarrow> do { q \<leftarrow> store 0 0 qrcode; Some (False, tempBuffer, q) }
     | Some (version, dataUsedBits) \<Rightarrow> do {
         _ \<leftarrow> asserting (dataUsedBits \<noteq> -1);
         ecl \<leftarrow> boost_level version dataUsedBits boostEcl ecl;
         q \<leftarrow> write_data segs version ecl dataUsedBits qrcode;
         (temp, q) \<leftarrow> draw_symbol version ecl tempBuffer q;
         q \<leftarrow> mask_symbol ecl msk temp q;
         Some (True, temp, q)
       }
   }"

definition qrcodegen_encodeSegments ::
    "qrcodegen_Segment list \<Rightarrow> qrcodegen_Ecc \<Rightarrow> bytes \<Rightarrow> bytes \<Rightarrow> (bool \<times> bytes \<times> bytes) option" where
  "qrcodegen_encodeSegments segs ecl tempBuffer qrcode =
     qrcodegen_encodeSegmentsAdvanced segs ecl qrcodegen_VERSION_MIN qrcodegen_VERSION_MAX (-1) True tempBuffer qrcode"

definition encode_failed :: "bytes \<Rightarrow> bytes \<Rightarrow> (bool \<times> bytes \<times> bytes) option" where
  "encode_failed tempBuffer qrcode = do { q \<leftarrow> store 0 0 qrcode; Some (False, tempBuffer, q) }"

text \<open>The segment of a non-empty text and the contents of \<open>tempBuffer\<close>; no segment is the jump to \<open>fail\<close>.\<close>

definition text_segment :: "bytes \<Rightarrow> int \<Rightarrow> bytes \<Rightarrow> (qrcodegen_Segment option \<times> bytes) option" where
  "text_segment text bufLen tempBuffer =
     (if qrcodegen_isNumeric text
      then do {
        sz \<leftarrow> qrcodegen_calcSegmentBufferSize Mode_NUMERIC (length text);
        if bufLen < int sz then Some (None, tempBuffer)
        else do { seg \<leftarrow> qrcodegen_makeNumeric text tempBuffer; Some (Some seg, seg_data seg) }
      }
      else if qrcodegen_isAlphanumeric text
      then do {
        sz \<leftarrow> qrcodegen_calcSegmentBufferSize Mode_ALPHANUMERIC (length text);
        if bufLen < int sz then Some (None, tempBuffer)
        else do { seg \<leftarrow> qrcodegen_makeAlphanumeric text tempBuffer; Some (Some seg, seg_data seg) }
      }
      else if bufLen < int (length text) then Some (None, tempBuffer)
      else do {
        data \<leftarrow> blit 0 text tempBuffer;
        bitLength \<leftarrow> calcSegmentBitLength Mode_BYTE (length text);
        Some (if bitLength = -1 then None
              else Some \<lparr>seg_mode = Mode_BYTE, seg_numChars = int (length text), seg_data = data, seg_bitLength = bitLength\<rparr>,
              data)
      })"

definition qrcodegen_encodeText ::
    "bytes \<Rightarrow> bytes \<Rightarrow> bytes \<Rightarrow> qrcodegen_Ecc \<Rightarrow> int \<Rightarrow> int \<Rightarrow> int \<Rightarrow> bool \<Rightarrow> (bool \<times> bytes \<times> bytes) option" where
  "qrcodegen_encodeText text tempBuffer qrcode ecl minVersion maxVersion msk boostEcl =
     (if text = [] then qrcodegen_encodeSegmentsAdvanced [] ecl minVersion maxVersion msk boostEcl tempBuffer qrcode
      else do {
        (made, temp) \<leftarrow> text_segment text (qrcodegen_BUFFER_LEN_FOR_VERSION maxVersion) tempBuffer;
        case made of
          None \<Rightarrow> encode_failed temp qrcode
        | Some seg \<Rightarrow> qrcodegen_encodeSegmentsAdvanced [seg] ecl minVersion maxVersion msk boostEcl temp qrcode
      })"

definition qrcodegen_encodeBinary ::
    "bytes \<Rightarrow> nat \<Rightarrow> bytes \<Rightarrow> qrcodegen_Ecc \<Rightarrow> int \<Rightarrow> int \<Rightarrow> int \<Rightarrow> bool \<Rightarrow> (bool \<times> bytes \<times> bytes) option" where
  "qrcodegen_encodeBinary dataAndTemp dataLen qrcode ecl minVersion maxVersion msk boostEcl = do {
     bitLength \<leftarrow> calcSegmentBitLength Mode_BYTE dataLen;
     if bitLength = -1 then encode_failed dataAndTemp qrcode
     else qrcodegen_encodeSegmentsAdvanced
            [\<lparr>seg_mode = Mode_BYTE, seg_numChars = int dataLen, seg_data = dataAndTemp, seg_bitLength = bitLength\<rparr>]
            ecl minVersion maxVersion msk boostEcl dataAndTemp qrcode
   }"

section \<open>Segments and their bit string\<close>

definition seg_bits :: "qrcodegen_Segment \<Rightarrow> bool list" where
  "seg_bits seg = map (buf_bit (seg_data seg)) [0..<nat (seg_bitLength seg)]"

definition seg_wf :: "qrcodegen_Segment \<Rightarrow> bool" where
  "seg_wf seg =
     (0 \<le> seg_numChars seg \<and> seg_numChars seg \<le> int INT16_MAX \<and> 0 \<le> seg_bitLength seg \<and> seg_bitLength seg \<le> int INT16_MAX \<and>
      seg_bitLength seg \<le> 8 * int (length (seg_data seg)))"

definition count_bits :: "qrcodegen_Mode \<Rightarrow> int \<Rightarrow> nat" where
  "count_bits mode v = (case numCharCountBits mode v of Some w \<Rightarrow> w | None \<Rightarrow> 0)"

definition seg_stream :: "int \<Rightarrow> qrcodegen_Segment \<Rightarrow> bool list" where
  "seg_stream v seg =
     bits_of 4 (mode_value (seg_mode seg)) @ bits_of (count_bits (seg_mode seg) v) (nat (seg_numChars seg)) @ seg_bits seg"

definition stream :: "int \<Rightarrow> qrcodegen_Segment list \<Rightarrow> bool list" where
  "stream v segs = concat (map (seg_stream v) segs)"

definition counts_ok :: "int \<Rightarrow> qrcodegen_Segment list \<Rightarrow> bool" where
  "counts_ok v segs = list_all (\<lambda>seg. seg_numChars seg < 2 ^ count_bits (seg_mode seg) v) segs"

lemma count_bits_ok:
  assumes "1 \<le> v" "v \<le> 40"
  shows "numCharCountBits mode v = Some (count_bits mode v)" "count_bits mode v \<le> 16"
proof -
  have i: "nat ((v + 7) div 17) \<le> 2" using assms by linarith
  show "numCharCountBits mode v = Some (count_bits mode v)"
    using assms by (simp add: count_bits_def numCharCountBits_def Let_def qrcodegen_VERSION_MIN_def qrcodegen_VERSION_MAX_def)
  consider "nat ((v + 7) div 17) = 0" | "nat ((v + 7) div 17) = 1" | "nat ((v + 7) div 17) = 2" using i by linarith
  then show "count_bits mode v \<le> 16"
    using assms by cases (cases mode; simp add: count_bits_def numCharCountBits_def Let_def qrcodegen_VERSION_MIN_def qrcodegen_VERSION_MAX_def)+
qed

lemma total_bits_loop_eq:
  assumes "1 \<le> v" "v \<le> 40" "\<forall>seg \<in> set segs. seg_wf seg" "0 \<le> r" "r \<le> int INT16_MAX"
  shows "total_bits_loop segs v r =
    Some (if counts_ok v segs \<and> r + int (length (stream v segs)) \<le> int INT16_MAX then r + int (length (stream v segs)) else -1)"
  using assms(3-)
proof (induction segs arbitrary: r)
  case Nil
  then show ?case by (simp add: counts_ok_def stream_def)
next
  case (Cons seg segs)
  let ?r = "r + 4 + int (count_bits (seg_mode seg) v) + seg_bitLength seg"
  have wf: "seg_wf seg" using Cons.prems(1) by simp
  have s: "int (length (stream v (seg # segs))) = 4 + int (count_bits (seg_mode seg) v) + seg_bitLength seg + int (length (stream v segs))"
    using wf by (simp add: stream_def seg_stream_def seg_bits_def seg_wf_def)
  have c: "counts_ok v (seg # segs) \<longleftrightarrow> \<not> 2 ^ count_bits (seg_mode seg) v \<le> seg_numChars seg \<and> counts_ok v segs"
    by (auto simp: counts_ok_def)
  have loop: "total_bits_loop (seg # segs) v r =
      (if 2 ^ count_bits (seg_mode seg) v \<le> seg_numChars seg then Some (-1)
       else if int INT16_MAX < ?r then Some (-1) else total_bits_loop segs v ?r)"
    using wf count_bits_ok [OF assms(1,2)] by (simp add: seg_wf_def Let_def)
  show ?case
  proof (cases "int INT16_MAX < ?r")
    case True
    then show ?thesis unfolding loop c s by simp
  next
    case False
    then have "0 \<le> ?r" "?r \<le> int INT16_MAX" using Cons.prems(2) wf by (auto simp: seg_wf_def)
    then show ?thesis using Cons.IH [of ?r] Cons.prems(1) False unfolding loop c s by (simp add: add.assoc)
  qed
qed

lemma getTotalBits_eq:
  assumes "1 \<le> v" "v \<le> 40" "\<forall>seg \<in> set segs. seg_wf seg"
  shows "getTotalBits segs v =
    Some (if counts_ok v segs \<and> length (stream v segs) \<le> INT16_MAX then int (length (stream v segs)) else -1)"
  using total_bits_loop_eq [OF assms, of 0] by (simp add: getTotalBits_def)

text \<open>A version holds the segments if the counts have room in their fields and the bits in the data codewords.\<close>

definition segs_fit :: "qrcodegen_Segment list \<Rightarrow> qrcodegen_Ecc \<Rightarrow> int \<Rightarrow> bool" where
  "segs_fit segs e v = (counts_ok v segs \<and> length (stream v segs) \<le> 8 * data_len (layout_of v e))"

lemma find_version_spec:
  assumes "1 \<le> v" "v \<le> m" "m \<le> 40" "\<forall>seg \<in> set segs. seg_wf seg"
  shows "find_version segs e v m = Some None \<and> (\<forall>w. v \<le> w \<and> w \<le> m \<longrightarrow> \<not> segs_fit segs e w) \<or>
    (\<exists>u. find_version segs e v m = Some (Some (u, int (length (stream u segs)))) \<and> v \<le> u \<and> u \<le> m \<and> segs_fit segs e u \<and>
      (\<forall>w. v \<le> w \<and> w < u \<longrightarrow> \<not> segs_fit segs e w))"
  using assms
proof (induction segs e v m rule: find_version.induct)
  case (1 segs e v m)
  have v: "v \<le> 40" using 1(3,4) by simp
  note facts = layout_facts [OF 1(2) v refl, of e]
  have tot: "getTotalBits segs v =
    Some (if counts_ok v segs \<and> length (stream v segs) \<le> INT16_MAX then int (length (stream v segs)) else -1)"
    by (rule getTotalBits_eq [OF 1(2) v 1(5)])
  let ?t = "if counts_ok v segs \<and> length (stream v segs) \<le> INT16_MAX then int (length (stream v segs)) else -1"
  have F: "segs_fit segs e v \<longleftrightarrow> ?t \<noteq> -1 \<and> ?t \<le> int (data_len (layout_of v e)) * 8"
    using facts(3) by (auto simp: segs_fit_def)
  have step: "find_version segs e v m = (if segs_fit segs e v then Some (Some (v, int (length (stream v segs))))
      else if m \<le> v then Some None else find_version segs e (v + 1) m)"
    unfolding find_version.simps [of segs e v m] facts(7) tot option.case F using F by (auto simp: segs_fit_def)
  show ?case
  proof (cases "segs_fit segs e v")
    case True
    then show ?thesis using step 1(3) by (intro disjI2 exI [of _ v]) auto
  next
    case False
    show ?thesis
    proof (cases "m \<le> v")
      case True
      then show ?thesis using step False 1(3) by (intro disjI1) auto
    next
      case nm: False
      have IH: "find_version segs e (v + 1) m = Some None \<and> (\<forall>w. v + 1 \<le> w \<and> w \<le> m \<longrightarrow> \<not> segs_fit segs e w) \<or>
          (\<exists>u. find_version segs e (v + 1) m = Some (Some (u, int (length (stream u segs)))) \<and> v + 1 \<le> u \<and> u \<le> m \<and> segs_fit segs e u \<and>
            (\<forall>w. v + 1 \<le> w \<and> w < u \<longrightarrow> \<not> segs_fit segs e w))"
        using 1(1) [OF facts(7) tot] F False nm 1(2-5) by simp
      have split: "v \<le> w \<longleftrightarrow> w = v \<or> v + 1 \<le> w" for w by linarith
      show ?thesis using IH step False nm unfolding split by force
    qed
  qed
qed

lemma boost_level_spec:
  assumes "1 \<le> v" "v \<le> 40" "segs_fit segs e v"
  shows "\<exists>e'. boost_level v (int (length (stream v segs))) boost e = Some e' \<and> segs_fit segs e' v \<and> (\<not> boost \<longrightarrow> e' = e) \<and>
    (boost \<longrightarrow> (\<forall>d. segs_fit segs d v \<longrightarrow> ecc_index d \<le> ecc_index e'))"
proof -
  have N: "getNumDataCodewords v d = Some (int (data_len (layout_of v d)))" for d by (rule layout_facts(7) [OF assms(1,2) refl])
  have F: "segs_fit segs d v \<longleftrightarrow> int (length (stream v segs)) \<le> int (data_len (layout_of v d)) * 8" for d
    using assms(3) by (auto simp: segs_fit_def)
  have all: "(\<forall>d. P d) \<longleftrightarrow> P Ecc_LOW \<and> P Ecc_MEDIUM \<and> P Ecc_QUARTILE \<and> P Ecc_HIGH" for P by (metis qrcodegen_Ecc.exhaust)
  show ?thesis
  proof (cases boost)
    case True
    have "boost_level v (int (length (stream v segs))) boost e =
        Some (if segs_fit segs Ecc_HIGH v then Ecc_HIGH else if segs_fit segs Ecc_QUARTILE v then Ecc_QUARTILE
              else if segs_fit segs Ecc_MEDIUM v then Ecc_MEDIUM else e)"
      using True by (simp add: boost_level_def N F)
    then show ?thesis using True assms(3) unfolding all by (cases e) auto
  next
    case False
    then show ?thesis using assms(3) by (simp add: boost_level_def)
  qed
qed

section \<open>The data bit string\<close>

primrec pads :: "u8 \<Rightarrow> nat \<Rightarrow> bool list" where
  "pads p 0 = []"
| "pads p (Suc n) = bits_of 8 (unat p) @ pads (p XOR (0xEC XOR 0x11)) n"

definition terminated :: "nat \<Rightarrow> bool list \<Rightarrow> bool list" where
  "terminated capacity s = s @ replicate (min 4 (capacity - length s)) False"

definition to_byte :: "bool list \<Rightarrow> bool list" where
  "to_byte s = s @ replicate ((8 - length s mod 8) mod 8) False"

definition data_stream :: "nat \<Rightarrow> bool list \<Rightarrow> bool list" where
  "data_stream capacity s =
     (let a = to_byte (terminated capacity s) in a @ pads 0xEC ((capacity - length a) div 8))"

lemma bits_of_0: "bits_of w 0 = replicate w False"
  by (rule nth_equalityI) (simp_all add: bits_of_def)

lemma length_pads [simp]: "length (pads p n) = 8 * n"
  by (induction n arbitrary: p) simp_all

lemma unat_byte_less: "unat (p :: u8) < 256"
  using unsigned_less [of p, where ?'a = nat] by simp

lemma pad_loop_ok:
  assumes "holds_bits n b bs" "length bs + 8 * k = capacity" "capacity \<le> 8 * n"
  shows "\<exists>b'. pad_loop p capacity (b, length bs) = Some (b', capacity) \<and> holds_bits n b' (bs @ pads p k) \<and> length b' = length b"
  using assms
proof (induction k arbitrary: p b bs)
  case 0
  then show ?case by (simp add: pad_loop.simps)
next
  case (Suc k)
  have "length bs + 8 \<le> 8 * n" using Suc.prems(2,3) by simp
  moreover have "unat p < 2 ^ 8" using unat_byte_less [of p] by simp
  ultimately obtain b1 where b1: "appendBitsToBuffer (unat p) 8 (b, length bs) = Some (b1, length bs + 8)"
      "holds_bits n b1 (bs @ bits_of 8 (unat p))" "length b1 = length b"
    using append_ok [OF Suc.prems(1), of 8 "unat p"] by auto
  let ?p = "p XOR (0xEC XOR 0x11)"
  obtain b' where "pad_loop ?p capacity (b1, length (bs @ bits_of 8 (unat p))) = Some (b', capacity)"
      "holds_bits n b' ((bs @ bits_of 8 (unat p)) @ pads ?p k)" "length b' = length b1"
    using Suc.IH [OF b1(2), of ?p] Suc.prems(2,3) by auto
  then show ?case using b1 Suc.prems(2) by (subst pad_loop.simps) simp
qed

lemma append_segment_ok:
  assumes "1 \<le> v" "v \<le> 40" "seg_wf seg" "seg_numChars seg < 2 ^ count_bits (seg_mode seg) v"
    and "holds_bits n b bs" "length (bs @ seg_stream v seg) \<le> 8 * n"
  shows "\<exists>b'. append_segment v seg (b, length bs) = Some (b', length (bs @ seg_stream v seg)) \<and> holds_bits n b' (bs @ seg_stream v seg) \<and> length b' = length b"
proof -
  let ?m = "bits_of 4 (mode_value (seg_mode seg))" and ?w = "count_bits (seg_mode seg) v" and ?c = "nat (seg_numChars seg)"
  have len: "length bs + 4 + ?w + length (seg_bits seg) \<le> 8 * n" using assms(6) by (simp add: seg_stream_def)
  have "mode_value (seg_mode seg) < 2 ^ 4" by (cases "seg_mode seg") simp_all
  then obtain b1 where b1: "appendBitsToBuffer (mode_value (seg_mode seg)) 4 (b, length bs) = Some (b1, length (bs @ ?m))"
      "holds_bits n b1 (bs @ ?m)" "length b1 = length b"
    using append_ok [OF assms(5), of 4] len by auto
  have "?c < 2 ^ ?w" using assms(3,4) by (simp add: nat_less_iff seg_wf_def)
  then obtain b2 where b2: "appendBitsToBuffer ?c ?w (b1, length (bs @ ?m)) = Some (b2, length (bs @ ?m @ bits_of ?w ?c))"
      "holds_bits n b2 (bs @ ?m @ bits_of ?w ?c)" "length b2 = length b"
    using append_ok [OF b1(2), of ?w ?c] len count_bits_ok(2) [OF assms(1,2)] b1(3) by auto
  let ?h = "bs @ ?m @ bits_of ?w ?c"
  let ?f = "\<lambda>j s. Option.bind (load (seg_data seg) (int (j div 8))) (\<lambda>d. appendBitsToBuffer (drop_bit (7 - j mod 8) (unat d) AND 1) 1 s)"
  have "\<exists>t. for_each ?f [0..<nat (seg_bitLength seg)] (b2, length ?h) = Some t \<and>
      snd t = length ?h + length [0..<nat (seg_bitLength seg)] \<and>
      holds_bits n (fst t) (?h @ map (buf_bit (seg_data seg)) [0..<nat (seg_bitLength seg)]) \<and> length (fst t) = length b"
  proof (rule for_each_inv [where I = "\<lambda>ys t. snd t = length ?h + length ys \<and> holds_bits n (fst t) (?h @ map (buf_bit (seg_data seg)) ys) \<and> length (fst t) = length b"])
    fix ys j zs t assume split: "[0..<nat (seg_bitLength seg)] = ys @ j # zs"
      and t: "snd t = length ?h + length ys \<and> holds_bits n (fst t) (?h @ map (buf_bit (seg_data seg)) ys) \<and> length (fst t) = length b"
    have "length ys + 1 \<le> nat (seg_bitLength seg)" using arg_cong [OF split, of length] by simp
    then have room: "length (?h @ map (buf_bit (seg_data seg)) ys) + 1 \<le> 8 * n" using len by (simp add: seg_bits_def)
    have "j \<in> set [0..<nat (seg_bitLength seg)]" unfolding split by simp
    then have j: "j div 8 < length (seg_data seg)" using assms(3) by (auto simp: seg_wf_def)
    have bit: "drop_bit (7 - j mod 8) (unat (seg_data seg ! (j div 8))) AND 1 = (of_bool (buf_bit (seg_data seg) j) :: nat)"
      unfolding low_bit_nat by (simp add: buf_bit_def bit_unsigned_iff)
    have one: "bits_of 1 (of_bool x) = [x]" for x by (cases x) (simp_all add: bits_of_def bit_0)
    have hb: "holds_bits n (fst t) (?h @ map (buf_bit (seg_data seg)) ys)" using t by blast
    have lt: "(of_bool (buf_bit (seg_data seg) j) :: nat) < 2 ^ 1" by simp
    obtain b3 where b3: "appendBitsToBuffer (of_bool (buf_bit (seg_data seg) j)) 1 (fst t, length (?h @ map (buf_bit (seg_data seg)) ys)) =
        Some (b3, length (?h @ map (buf_bit (seg_data seg)) ys) + 1)"
        "holds_bits n b3 ((?h @ map (buf_bit (seg_data seg)) ys) @ [buf_bit (seg_data seg) j])" "length b3 = length (fst t)"
      using append_ok [OF hb room _ lt] unfolding one by auto
    have tt: "t = (fst t, length (?h @ map (buf_bit (seg_data seg)) ys))" using t by (cases t) simp
    have "load (seg_data seg) (int (j div 8)) = Some (seg_data seg ! (j div 8))" using j by (simp add: load_def)
    then have "?f j t = Some (b3, length (?h @ map (buf_bit (seg_data seg)) ys) + 1)"
      by (simp only: bind.simps bit) (subst tt, rule b3(1))
    then show "\<exists>t'. ?f j t = Some t' \<and> snd t' = length ?h + length (ys @ [j]) \<and> holds_bits n (fst t') (?h @ map (buf_bit (seg_data seg)) (ys @ [j])) \<and> length (fst t') = length b"
      using b3(2,3) t by (intro exI [of _ "(b3, length (?h @ map (buf_bit (seg_data seg)) ys) + 1)"]) simp
  qed (use b2 in simp)
  then show ?thesis
    using b1(1) b2(1) count_bits_ok(1) [OF assms(1,2)] by (fastforce simp: append_segment_def seg_stream_def seg_bits_def)
qed

lemma append_segments_ok:
  assumes "1 \<le> v" "v \<le> 40" "\<forall>seg \<in> set segs. seg_wf seg" "counts_ok v segs" "holds_bits n b []" "length (stream v segs) \<le> 8 * n"
  shows "\<exists>b'. for_each (append_segment v) segs (b, 0) = Some (b', length (stream v segs)) \<and> holds_bits n b' (stream v segs) \<and> length b' = length b"
proof -
  have "\<exists>t. for_each (append_segment v) segs (b, 0) = Some t \<and> snd t = length (stream v segs) \<and> holds_bits n (fst t) (stream v segs) \<and> length (fst t) = length b"
  proof (rule for_each_inv [where I = "\<lambda>ys t. snd t = length (stream v ys) \<and> holds_bits n (fst t) (stream v ys) \<and> length (fst t) = length b"])
    fix ys seg zs t assume split: "segs = ys @ seg # zs"
      and t: "snd t = length (stream v ys) \<and> holds_bits n (fst t) (stream v ys) \<and> length (fst t) = length b"
    have "stream v (ys @ [seg]) = stream v ys @ seg_stream v seg" by (simp add: stream_def)
    moreover have "length (stream v ys @ seg_stream v seg) \<le> 8 * n" using assms(6) unfolding split by (simp add: stream_def)
    moreover have "seg_wf seg" "seg_numChars seg < 2 ^ count_bits (seg_mode seg) v" using assms(3,4) by (auto simp: split counts_ok_def)
    ultimately show "\<exists>t'. append_segment v seg t = Some t' \<and> snd t' = length (stream v (ys @ [seg])) \<and> holds_bits n (fst t') (stream v (ys @ [seg])) \<and> length (fst t') = length b"
      using append_segment_ok [OF assms(1,2), of seg n "fst t" "stream v ys"] t by (cases t) auto
  qed (use assms(5) in \<open>simp add: stream_def\<close>)
  then show ?thesis by fastforce
qed

lemma raw_len_buffer:
  assumes "1 \<le> v" "v \<le> 40"
  shows "int (raw_len (layout_of v e)) + 1 \<le> qrcodegen_BUFFER_LEN_FOR_VERSION v" "8 * raw_len (layout_of v e) \<le> length (data_order v)"
    "\<exists>raw. getNumRawDataModules v = Some raw \<and> nat (raw div 8) = raw_len (layout_of v e)"
proof -
  let ?n = "v * 4 + 17"
  obtain raw where raw: "getNumRawDataModules v = Some raw" "raw div 8 = int (raw_len (layout_of v e))"
    using layout_facts(6) [OF assms refl] by blast
  have "finite (cells ?n)" "data_cells v \<subseteq> cells ?n" by (auto simp: cells_def data_cells_def)
  then have "card (data_cells v) \<le> card (cells ?n)" by (rule card_mono)
  moreover have "int (card (cells ?n)) = ?n * ?n" using assms(1) by (simp add: cells_def card_cartesian_product)
  ultimately have "int (card (data_cells v)) \<le> ?n * ?n" by linarith
  then have "raw \<le> ?n * ?n" using raw(1) raw_count [OF assms] by simp
  then show "int (raw_len (layout_of v e)) + 1 \<le> qrcodegen_BUFFER_LEN_FOR_VERSION v"
    unfolding qrcodegen_BUFFER_LEN_FOR_VERSION_def raw(2) [symmetric] by linarith
  have "raw = int (length (data_order v))" using data_order(3) [OF assms] raw(1) by simp
  then show "8 * raw_len (layout_of v e) \<le> length (data_order v)" using raw(2) by linarith
  show "\<exists>raw. getNumRawDataModules v = Some raw \<and> nat (raw div 8) = raw_len (layout_of v e)" using raw by auto
qed

lemma byte_bits_take: "m \<le> length b \<Longrightarrow> byte_bits (take m b) = map (buf_bit b) [0..<8 * m]"
proof (rule nth_equalityI)
  assume m: "m \<le> length b"
  then show "length (byte_bits (take m b)) = length (map (buf_bit b) [0..<8 * m])" by (simp add: length_byte_bits)
  fix k assume "k < length (byte_bits (take m b))"
  then have k: "k < 8 * length (take m b)" by (simp add: length_byte_bits)
  show "byte_bits (take m b) ! k = map (buf_bit b) [0..<8 * m] ! k"
    using buf_bit_byte_bits [OF k, of "drop m b"] k m by simp
qed

lemma round_up: "t + (8 - t mod 8) mod 8 = 8 * ((t + 7) div 8 :: nat)"
proof -
  obtain u r where t: "t = u * 8 + r" "r < 8" by (metis div_mult_mod_eq mod_less_divisor zero_less_numeral)
  show ?thesis
  proof (cases "r = 0")
    case False
    then have "t + 7 = (r - 1) + (u + 1) * 8" using t by simp
    then have "(t + 7) div 8 = u + 1" using t(2) by simp
    then show ?thesis using t False by simp
  qed (simp add: t)
qed

lemma padding_lengths:
  assumes "length s \<le> 8 * d" "a = to_byte (terminated (8 * d) s)"
  shows "length a mod 8 = 0" "length a + 8 * ((8 * d - length a) div 8) = 8 * d" "length (terminated (8 * d) s) \<le> length a" "length a \<le> 8 * d"
    "length (terminated (8 * d) s) \<le> 8 * d"
proof -
  define t where "t = length (terminated (8 * d) s)"
  have t: "t \<le> 8 * d" using assms(1) by (simp add: t_def terminated_def)
  have "length a = t + (8 - t mod 8) mod 8" by (simp add: assms(2) to_byte_def t_def)
  then have a: "length a = 8 * ((t + 7) div 8)" by (simp only: round_up)
  have le: "(t + 7) div 8 \<le> d" using t by linarith
  show "length a mod 8 = 0" "length a \<le> 8 * d" using le by (simp_all add: a)
  then show "length a + 8 * ((8 * d - length a) div 8) = 8 * d" by (simp add: a flip: diff_mult_distrib2)
  show "length (terminated (8 * d) s) \<le> length a" "length (terminated (8 * d) s) \<le> 8 * d" using t unfolding a t_def [symmetric] by linarith+
qed

lemma write_data_ok:
  assumes "1 \<le> v" "v \<le> 40" "\<forall>seg \<in> set segs. seg_wf seg" "segs_fit segs e v" "qrcodegen_BUFFER_LEN_FOR_VERSION v \<le> int (length q)"
  defines "d \<equiv> data_len (layout_of v e)"
  shows "\<exists>q'. write_data segs v e (int (length (stream v segs))) q = Some q' \<and> length q' = length q \<and>
    byte_bits (take d q') = data_stream (8 * d) (stream v segs)"
proof -
  let ?s = "stream v segs" and ?N = "nat (qrcodegen_BUFFER_LEN_FOR_VERSION v)"
  let ?t = "terminated (8 * d) ?s"
  define a where "a = to_byte ?t"
  have "d \<le> raw_len (layout_of v e)" by (simp add: d_def raw_len_def)
  then have dN: "d \<le> ?N" "0 \<le> qrcodegen_BUFFER_LEN_FOR_VERSION v" using raw_len_buffer(1) [OF assms(1,2), of e] by linarith+
  have s: "length ?s \<le> 8 * d" "counts_ok v segs" using assms(4) by (auto simp: segs_fit_def d_def)
  note L = padding_lengths [OF s(1) a_def]
  obtain q0 where q0: "clear (qrcodegen_BUFFER_LEN_FOR_VERSION v) q = Some q0" "length q0 = length q"
    using assms(5) by (auto simp: clear_def nat_le_iff)
  then have h0: "holds_bits ?N q0 []" using holds_bits_clear [of ?N q q0] dN(2) by simp
  obtain q1 where q1: "for_each (append_segment v) segs (q0, 0) = Some (q1, length ?s)" "holds_bits ?N q1 ?s" "length q1 = length q0"
    using append_segments_ok [OF assms(1-3) s(2) h0] s(1) dN(1) by auto
  let ?w = "min 4 (8 * d - length ?s)" and ?w' = "(8 - length ?t mod 8) mod 8"
  have "length ?s + ?w \<le> 8 * ?N" "?w \<le> 16" using s(1) dN(1) by auto
  then obtain q2 where q2: "appendBitsToBuffer 0 ?w (q1, length ?s) = Some (q2, length ?t)" "holds_bits ?N q2 ?t" "length q2 = length q1"
    using append_ok [OF q1(2), of ?w 0] by (auto simp: bits_of_0 terminated_def)
  have "length ?t + ?w' \<le> 8 * ?N" "?w' \<le> 16" using L(4) dN(1) by (auto simp: a_def to_byte_def)
  then obtain q3 where q3: "appendBitsToBuffer 0 ?w' (q2, length ?t) = Some (q3, length a)" "holds_bits ?N q3 a" "length q3 = length q2"
    using append_ok [OF q2(2), of ?w' 0] by (auto simp: bits_of_0 a_def to_byte_def)
  obtain q4 where q4: "pad_loop 0xEC (8 * d) (q3, length a) = Some (q4, 8 * d)" "holds_bits ?N q4 (data_stream (8 * d) ?s)" "length q4 = length q3"
    using pad_loop_ok [where p = "0xEC", OF q3(2) L(2)] dN(1) by (auto simp: data_stream_def a_def Let_def)
  have ds: "length (data_stream (8 * d) ?s) = 8 * d" using L(2) by (simp add: data_stream_def a_def Let_def)
  have "d \<le> length q4" using q4(2) dN(1) by (simp add: holds_bits_def)
  then have "byte_bits (take d q4) = data_stream (8 * d) ?s"
    using q4(2) dN(1) ds by (intro nth_equalityI) (simp_all add: byte_bits_take holds_bits_def)
  moreover have "nat (if 4 < int d * 8 - int (length ?s) then 4 else int d * 8 - int (length ?s)) = ?w" using s(1) by auto
  moreover have "nat (int d * 8) = 8 * d" by simp
  moreover have "int (length ?s) \<le> int d * 8" using s(1) by simp
  ultimately show ?thesis
    unfolding write_data_def q0(1) bind.simps q1(1) layout_facts(7) [OF assms(1,2) refl, of e, folded d_def] Let_def
    using q2(1,3) q3(1,3) q4(1,3) q1(3) q0(2) L(1) by simp
qed

end
