(* ===== verification/Qr_Symbol.thy ===== *)
theory Qr_Symbol
  imports Qr_Encode
begin

text \<open>
  What a finished symbol holds.  A reader follows the steps back: format bits, mask, zigzag scan, blocks, segment; it
  finds the text that was encoded.
\<close>

section \<open>The drawn symbol\<close>

text \<open>The codewords in the data modules, for modules given by \<open>h\<close>.\<close>

definition scan :: "int \<Rightarrow> (int \<Rightarrow> int \<Rightarrow> bool) \<Rightarrow> bytes" where
  "scan v h = read_bytes (length (data_order v) div 8) (map (\<lambda>(x, y). h x y) (data_order v))"

definition is_codeword :: "nat \<Rightarrow> bytes \<Rightarrow> bool" where
  "is_codeword n cw = (\<forall>k < n. bytes_eval (gf_of 2 ^ k) cw = 0)"

lemma read_bytes_take:
  assumes "m \<le> length r" "8 * m \<le> length bits" "\<And>k. k < 8 * m \<Longrightarrow> bits ! k = buf_bit r k"
  shows "read_bytes m bits = take m r"
proof -
  have "take (8 * m) bits = byte_bits (take m r)"
    unfolding byte_bits_take [OF assms(1)] using assms(2,3) by (intro nth_equalityI) simp_all
  then have "bits = byte_bits (take m r) @ drop (8 * m) bits" by (metis append_take_drop_id)
  then show ?thesis using read_bytes_bits [of "take m r" "drop (8 * m) bits"] assms(1) by simp
qed

lemma read_take:
  assumes "layout_ok l" "i < blocks l" "raw_len l \<le> length r"
  shows "read_data l (take (raw_len l) r) i = read_data l r i" "read_ecc l (take (raw_len l) r) i = read_ecc l r i"
proof -
  have "data_pos l i j < raw_len l" if "j < block_len l i" for j using data_pos_less [OF assms(1,2) that] by (simp add: raw_len_def)
  then show "read_data l (take (raw_len l) r) i = read_data l r i" by (simp add: read_data_def)
  show "read_ecc l (take (raw_len l) r) i = read_ecc l r i" using ecc_pos_less [OF assms(2)] by (simp add: read_ecc_def)
qed

definition marks_function :: "int \<Rightarrow> bytes \<Rightarrow> bool" where
  "marks_function v t = (wf_grid (v * 4 + 17) t \<and> (\<forall>x y. (x, y) \<in> cells (v * 4 + 17) \<longrightarrow> module_at (v * 4 + 17) t x y = is_function v x y))"

text \<open>The symbol before masking: well-formed, and its codewords are the interleaved blocks of \<open>data\<close>.\<close>

definition symbol_holds :: "int \<Rightarrow> qrcodegen_Ecc \<Rightarrow> (int \<Rightarrow> int \<Rightarrow> bool) \<Rightarrow> bytes \<Rightarrow> bool" where
  "symbol_holds v e h data =
     (let l = layout_of v e
      in deinterleave l (scan v h) = data \<and>
         (\<forall>i < blocks l. is_codeword (ecc_len l) (read_data l (scan v h) i @ read_ecc l (scan v h) i)))"

lemma draw_symbol_ok:
  assumes "1 \<le> v" "v \<le> 40" "n = v * 4 + 17" "qrcodegen_BUFFER_LEN_FOR_VERSION v \<le> int (length temp)"
    "qrcodegen_BUFFER_LEN_FOR_VERSION v \<le> int (length q)"
  shows "\<exists>t q'. draw_symbol v e temp q = Some (t, q') \<and> marks_function v t \<and> length t = length temp \<and> wf_grid n q' \<and> length q' = length q \<and>
    symbol_holds v e (module_at n q') (take (data_len (layout_of v e)) q)"
proof -
  define l where "l = layout_of v e"
  note raw = raw_len_buffer [OF assms(1,2), of e, folded l_def]
  have lens: "raw_len l \<le> length q" "raw_len l \<le> length temp" using raw(1) assms(4,5) by linarith+
  obtain g d r where I: "reedSolomonComputeDivisor (ecc_len l) = Some g" "addEccAndInterleave q v e temp = Some (d, r)"
    "length d = length q" "length r = length temp" "deinterleave l r = take (data_len l) q"
    "\<forall>i < blocks l. reedSolomonComputeRemainder (read_data l r i) g (ecc_len l) = Some (read_ecc l r i)"
    using interleave_ok [OF assms(1,2) l_def lens] by blast
  have buf: "(n * n + 7) div 8 + 1 \<le> int (length d)" "(n * n + 7) div 8 + 1 \<le> int (length r)"
    using assms(4,5) I(3,4) by (simp_all add: qrcodegen_BUFFER_LEN_FOR_VERSION_def assms(3))
  obtain q1 where q1: "initializeFunctionModules v d = Some q1" "wf_grid n q1" "length q1 = length d"
    "\<forall>x y. (x, y) \<in> cells n \<longrightarrow> module_at n q1 x y = is_function v x y" using initialize_ok [OF assms(1-3) buf(1)] by blast
  obtain t where t: "initializeFunctionModules v r = Some t" "wf_grid n t" "length t = length r"
    "\<forall>x y. (x, y) \<in> cells n \<longrightarrow> module_at n t x y = is_function v x y" using initialize_ok [OF assms(1-3) buf(2)] by blast
  obtain m where m: "getNumRawDataModules v = Some m" "nat (m div 8) = raw_len l" using raw(3) by blast
  have "raw_len l \<le> length r" "raw_len l * 8 \<le> length (data_order v)" using lens(2) I(4) raw(2) by simp_all
  from drawCodewords_ok [OF assms(1-3) q1(2) _ this] q1(4) obtain q2 where q2: "drawCodewords r (raw_len l) q1 = Some q2" "wf_grid n q2" "length q2 = length q1"
    "\<forall>k < length (data_order v). module_of n q2 (data_order v ! k) = (k < raw_len l * 8 \<and> buf_bit r k)" by blast
  obtain q3 where q3: "drawWhiteFunctionModules v q2 = Some q3" "wf_grid n q3" "length q3 = length q2"
    "\<And>x y. (x, y) \<in> cells n \<Longrightarrow> (x, y) \<notin> function_cells v \<Longrightarrow> module_at n q3 x y = module_at n q2 x y"
    using touches_white [OF assms(3,1,2)] q2(2) by (rule touchesD) blast
  have "m = int (length (data_order v))" using data_order(3) [OF assms(1,2)] m(1) by simp
  then have L: "length (data_order v) div 8 = raw_len l" using m(2) by (simp add: nat_div_distrib)
  have "map (\<lambda>(x, y). module_at n q3 x y) (data_order v) ! k = buf_bit r k" if "k < 8 * raw_len l" for k
  proof -
    have k: "k < length (data_order v)" using that raw(2) by simp
    then have "data_order v ! k \<in> data_cells v" using data_order(1) [OF assms(1,2)] nth_mem by blast
    then have "module_of n q3 (data_order v ! k) = module_of n q2 (data_order v ! k)"
      using q3(4) [of "fst (data_order v ! k)" "snd (data_order v ! k)"] by (auto simp: data_cells_def function_cells_def assms(3) case_prod_unfold)
    then show ?thesis using k q2(4) that by (simp add: case_prod_unfold)
  qed
  then have S: "scan v (module_at n q3) = take (raw_len l) r"
    unfolding scan_def L using lens(2) I(4) raw(2) by (intro read_bytes_take) simp_all
  have lok: "layout_ok l" using layout_facts(1) [OF assms(1,2) l_def] .
  note rt = read_take [OF lok _ \<open>raw_len l \<le> length r\<close>]
  have "symbol_holds v e (module_at n q3) (take (data_len l) q)"
    unfolding symbol_holds_def Let_def l_def [symmetric] S
  proof (intro conjI allI impI)
    have "map (read_data l (take (raw_len l) r)) [0..<blocks l] = map (read_data l r) [0..<blocks l]" using rt(1) by simp
    then show "deinterleave l (take (raw_len l) r) = take (data_len l) q" using I(5) by (simp only: deinterleave_def)
    fix i assume i: "i < blocks l"
    show "is_codeword (ecc_len l) (read_data l (take (raw_len l) r) i @ read_ecc l (take (raw_len l) r) i)"
      unfolding rt [OF i] is_codeword_def using codeword_vanishes [OF I(1)] I(6) i by blast
  qed
  moreover have "draw_symbol v e temp q = Some (t, q3)"
    unfolding draw_symbol_def I(2) bind.simps prod.case q1(1) m q2(1) q3(1) t(1) by (rule refl)
  moreover have "marks_function v t" using t(2,4) by (simp add: marks_function_def assms(3))
  ultimately show ?thesis using t(3) q3(2,3) q2(3) q1(3) I(3,4) by (auto simp: l_def)
qed

section \<open>Masking\<close>

definition format_area :: "int \<Rightarrow> (int \<times> int) set" where
  "format_area n = fst ` set (format_first 0 @ format_second n 0)"

definition masked :: "qrcodegen_Ecc \<Rightarrow> bytes \<Rightarrow> int \<Rightarrow> bytes \<Rightarrow> bytes option" where
  "masked e t m q = Option.bind (applyMask t m q) (drawFormatBits e m)"

definition masked_module :: "int \<Rightarrow> qrcodegen_Ecc \<Rightarrow> int \<Rightarrow> int \<Rightarrow> int \<Rightarrow> bool \<Rightarrow> bool" where
  "masked_module v e m x y b =
     (case map_of (rev (format_first (format_bits e m) @ format_second (v * 4 + 17) (format_bits e m))) (x, y) of
        None \<Rightarrow> b \<noteq> (\<not> is_function v x y \<and> mask_inverts m x y)
      | Some c \<Rightarrow> c)"

lemma paints_eq: "paints n h f \<Longrightarrow> (\<And>q. wf_grid n q \<Longrightarrow> g q = f q) \<Longrightarrow> paints n h g"
  by (simp add: paints_def)

lemma format_area_eq: "fst ` set (format_first b @ format_second n b) = format_area n"
proof -
  have "map fst (format_first b @ format_second n b) = map fst (format_first 0 @ format_second n 0)"
    by (simp add: format_first_def format_second_def o_def del: upto_rec_numeral)
  then have "set (map fst (format_first b @ format_second n b)) = set (map fst (format_first 0 @ format_second n 0))" by (rule arg_cong)
  then show ?thesis unfolding format_area_def list.set_map .
qed

lemma in_format_area:
  "map_of (rev (format_first b @ format_second n b)) c = None \<longleftrightarrow> c \<notin> format_area n"
  by (simp only: map_of_eq_None_iff set_rev format_area_eq)

lemma format_area_function: "1 \<le> v \<Longrightarrow> v \<le> 40 \<Longrightarrow> format_area (v * 4 + 17) \<subseteq> cells (v * 4 + 17) \<inter> function_cells v"
  using format_cells [of "v * 4 + 17" v 0] by (simp only: format_area_def)

lemma masked_paints:
  assumes "1 \<le> v" "v \<le> 40" "n = v * 4 + 17" "marks_function v t" "0 \<le> m" "m \<le> 7"
  shows "paints n (masked_module v e m) (masked e t m)"
proof -
  have t: "wf_grid n t" "\<And>x y. (x, y) \<in> cells n \<Longrightarrow> module_at n t x y = is_function v x y"
    using assms(4) by (auto simp: marks_function_def assms(3))
  let ?ds = "format_first (format_bits e m) @ format_second n (format_bits e m)"
  have "fst ` set ?ds \<subseteq> cells n" using format_cells [OF assms(3,1,2)] by blast
  from paints_draw_list [OF this] have "paints n (\<lambda>x y b. case map_of (rev ?ds) (x, y) of None \<Rightarrow> b | Some c \<Rightarrow> c) (drawFormatBits e m)"
    by (rule paints_eq) (use drawFormatBits_alt assms(5,6) in blast)
  from paints_seq [OF applyMask_paints [OF t(1) assms(5,6)] this]
  have P: "paints n (\<lambda>x y b. case map_of (rev ?ds) (x, y) of None \<Rightarrow> b \<noteq> (\<not> module_at n t x y \<and> mask_inverts m x y) | Some c \<Rightarrow> c) (masked e t m)"
    by (simp only: masked_def [abs_def])
  show ?thesis
    by (rule paints_cong [OF P]) (simp only: masked_module_def t(2) assms(3) [symmetric])
qed

lemma masked_module_format:
  "(x, y) \<in> format_area (v * 4 + 17) \<Longrightarrow> masked_module v e m x y b = masked_module v e m x y b'"
  "(x, y) \<notin> format_area (v * 4 + 17) \<Longrightarrow> masked_module v e m x y b = (b \<noteq> (\<not> is_function v x y \<and> mask_inverts m x y))"
  using in_format_area [of "format_bits e m" "v * 4 + 17" "(x, y)"] unfolding masked_module_def
  by (auto split: option.splits simp del: map_of_append rev_append)

lemma penalty_cong:
  assumes "wf_grid n q" "wf_grid n q'" "\<And>x y. (x, y) \<in> cells n \<Longrightarrow> module_at n q x y = module_at n q' x y"
  shows "getPenaltyScore q = getPenaltyScore q'"
proof -
  have "getModule q x y = getModule q' x y" for x y
  proof (cases "(x, y) \<in> cells n")
    case True
    then show ?thesis using getModule_ok [OF assms(1)] getModule_ok [OF assms(2)] assms(3) by simp
  next
    case False
    then show ?thesis using load_size [OF assms(1)] load_size [OF assms(2)] by (auto simp: getModule_def cells_def Let_def)
  qed
  then have "getModule q = getModule q'" by (simp add: fun_eq_iff)
  moreover have "qrcodegen_getSize q = qrcodegen_getSize q'" using getSize_ok assms(1,2) by simp
  ultimately show ?thesis
    unfolding getPenaltyScore_def line_penalty_def line_turn_def [abs_def] block_same_def by (simp only:)
qed

text \<open>A grid that differs from \<open>q0\<close> at most in the format area, which every masking overwrites.\<close>

definition agrees :: "int \<Rightarrow> bytes \<Rightarrow> bytes \<Rightarrow> bool" where
  "agrees n q0 q =
     (wf_grid n q \<and> length q = length q0 \<and> (\<forall>x y. (x, y) \<in> cells n \<longrightarrow> (x, y) \<notin> format_area n \<longrightarrow> module_at n q x y = module_at n q0 x y))"

lemma masked_agrees:
  assumes "1 \<le> v" "v \<le> 40" "n = v * 4 + 17" "marks_function v t" "0 \<le> m" "m \<le> 7" "agrees n q0 q" "wf_grid n q0"
  shows "\<exists>q1 q2. masked e t m q = Some q1 \<and> masked e t m q0 = Some q2 \<and> wf_grid n q1 \<and> wf_grid n q2 \<and> length q1 = length q0 \<and>
    (\<forall>x y. (x, y) \<in> cells n \<longrightarrow> module_at n q1 x y = masked_module v e m x y (module_at n q0 x y)) \<and>
    (\<forall>x y. (x, y) \<in> cells n \<longrightarrow> module_at n q2 x y = masked_module v e m x y (module_at n q0 x y))"
proof -
  note P = masked_paints [OF assms(1-6), of e]
  have q: "wf_grid n q" "length q = length q0" using assms(7) by (auto simp: agrees_def)
  obtain q1 where q1: "masked e t m q = Some q1" "wf_grid n q1" "length q1 = length q"
    "\<And>x y. (x, y) \<in> cells n \<Longrightarrow> module_at n q1 x y = masked_module v e m x y (module_at n q x y)" using P q(1) by (rule paintsD) blast
  obtain q2 where q2: "masked e t m q0 = Some q2" "wf_grid n q2"
    "\<And>x y. (x, y) \<in> cells n \<Longrightarrow> module_at n q2 x y = masked_module v e m x y (module_at n q0 x y)" using P assms(8) by (rule paintsD) blast
  have "masked_module v e m x y (module_at n q x y) = masked_module v e m x y (module_at n q0 x y)" if "(x, y) \<in> cells n" for x y
    using that assms(7) masked_module_format(1) [of x y v e m] by (cases "(x, y) \<in> format_area n") (auto simp: agrees_def assms(3))
  then show ?thesis using q1 q2 q(2) by metis
qed

definition mask_penalty :: "qrcodegen_Ecc \<Rightarrow> bytes \<Rightarrow> bytes \<Rightarrow> int \<Rightarrow> int" where
  "mask_penalty e t q m = the (Option.bind (masked e t m q) getPenaltyScore)"

lemma mask_turn_ok:
  assumes "1 \<le> v" "v \<le> 40" "n = v * 4 + 17" "marks_function v t" "0 \<le> m" "m \<le> 7" "agrees n q0 q" "wf_grid n q0"
  shows "\<exists>q'. agrees n q0 q' \<and> mask_penalty e t q0 m < LONG_MAX \<and> mask_turn e t m (q, best, least) =
    Some (if mask_penalty e t q0 m < least then (q', m, mask_penalty e t q0 m) else (q', best, least))"
proof -
  obtain q1 q2 where M: "masked e t m q = Some q1" "masked e t m q0 = Some q2" "wf_grid n q1" "wf_grid n q2" "length q1 = length q0"
    "\<And>x y. (x, y) \<in> cells n \<Longrightarrow> module_at n q1 x y = masked_module v e m x y (module_at n q0 x y)"
    "\<And>x y. (x, y) \<in> cells n \<Longrightarrow> module_at n q2 x y = masked_module v e m x y (module_at n q0 x y)"
    using masked_agrees [OF assms] by blast
  obtain p where p: "getPenaltyScore q2 = Some p" "p \<le> 200 * n * n" using getPenaltyScore_ok [OF M(4)] by blast
  have p1: "getPenaltyScore q1 = Some p" using penalty_cong [OF M(3,4)] M(6,7) p(1) by simp
  have pen: "mask_penalty e t q0 m = p" using M(2) p(1) by (simp add: mask_penalty_def)
  have "n * n \<le> 177 * 177" using assms(1-3) by (intro mult_mono) auto
  then have "p < LONG_MAX" using p(2) by (simp add: LONG_MAX_def mult.assoc)
  have t: "wf_grid n t" "\<And>x y. (x, y) \<in> cells n \<Longrightarrow> module_at n t x y = is_function v x y"
    using assms(4) by (auto simp: marks_function_def assms(3))
  obtain q3 where q3: "applyMask t m q1 = Some q3" "wf_grid n q3" "length q3 = length q1"
    "\<And>x y. (x, y) \<in> cells n \<Longrightarrow> module_at n q3 x y = (module_at n q1 x y \<noteq> (\<not> module_at n t x y \<and> mask_inverts m x y))"
    using applyMask_paints [OF t(1) assms(5,6)] M(3) by (rule paintsD) blast
  have "module_at n q3 x y = module_at n q0 x y" if "(x, y) \<in> cells n" "(x, y) \<notin> format_area n" for x y
    unfolding q3(4) [OF that(1)] M(6) [OF that(1)] t(2) [OF that(1)] masked_module_format(2) [OF that(2) [unfolded assms(3)]] by blast
  then have "agrees n q0 q3" using q3(2,3) M(5) by (simp add: agrees_def)
  moreover obtain qa where qa: "applyMask t m q = Some qa" "drawFormatBits e m qa = Some q1" using M(1) by (auto simp: masked_def bind_eq_Some_conv)
  have "mask_turn e t m (q, best, least) = Some (if p < least then (q3, m, p) else (q3, best, least))"
    unfolding mask_turn_def prod.case qa bind.simps p1 Let_def q3(1) by simp
  ultimately show ?thesis using pen \<open>p < LONG_MAX\<close> by auto
qed

lemma auto_mask_ok:
  assumes "1 \<le> v" "v \<le> 40" "n = v * 4 + 17" "marks_function v t" "wf_grid n q0"
  shows "\<exists>q m p. for_each (mask_turn e t) [0..7] (q0, -1, LONG_MAX) = Some (q, m, p) \<and> agrees n q0 q \<and> 0 \<le> m \<and> m \<le> 7 \<and>
    (\<forall>k. 0 \<le> k \<and> k \<le> 7 \<longrightarrow> mask_penalty e t q0 m \<le> mask_penalty e t q0 k)"
proof -
  let ?pen = "mask_penalty e t q0"
  let ?I = "\<lambda>ys (q, m, p). agrees n q0 q \<and> (if ys = [] then m = -1 \<and> p = LONG_MAX else m \<in> set ys \<and> p = ?pen m \<and> (\<forall>k \<in> set ys. p \<le> ?pen k))"
  have "\<exists>s. for_each (mask_turn e t) [0..7] (q0, -1, LONG_MAX) = Some s \<and> ?I [0..7] s"
  proof (rule for_each_inv [where I = ?I])
    show "?I [] (q0, -1, LONG_MAX)" using assms(5) by (simp add: agrees_def)
    fix ys k zs s assume split: "[0..7 :: int] = ys @ k # zs" and I: "?I ys s"
    obtain q m p where s: "s = (q, m, p)" by (metis prod.exhaust)
    have "k \<in> set [0..7]" unfolding split by simp
    then have k: "0 \<le> k" "k \<le> 7" by (simp_all only: set_upto atLeastAtMost_iff)
    have ag: "agrees n q0 q" using I s by simp
    obtain q' where q': "agrees n q0 q'" "?pen k < LONG_MAX" "mask_turn e t k (q, m, p) = Some (if ?pen k < p then (q', k, ?pen k) else (q', m, p))"
      using mask_turn_ok [OF assms(1-4) k ag assms(5)] by blast
    have "?I (ys @ [k]) (if ?pen k < p then (q', k, ?pen k) else (q', m, p))"
    proof (cases "ys = []")
      case True
      then have "p = LONG_MAX" using I s by simp
      then show ?thesis using True q'(1,2) by simp
    next
      case False
      then have mp: "m \<in> set ys" "p = ?pen m" "\<And>j. j \<in> set ys \<Longrightarrow> p \<le> ?pen j" using I s by auto
      show ?thesis
      proof (cases "?pen k < p")
        case True
        then have "?pen k \<le> ?pen j" if "j \<in> set ys" for j using mp(3) [OF that] by simp
        then show ?thesis using q'(1) True by simp
      next
        case False
        then show ?thesis using q'(1) mp by simp
      qed
    qed
    then show "\<exists>s'. mask_turn e t k s = Some s' \<and> ?I (ys @ [k]) s'"
      unfolding s by (intro exI conjI) (rule q'(3), assumption)
  qed
  then obtain s where s: "for_each (mask_turn e t) [0..7] (q0, -1, LONG_MAX) = Some s" "?I [0..7] s" by blast
  obtain q m p where "s = (q, m, p)" by (metis prod.exhaust)
  note r = s [unfolded this]
  have ne: "[0..7 :: int] \<noteq> []" by simp
  have J: "agrees n q0 q \<and> m \<in> set [0..7] \<and> p = ?pen m \<and> (\<forall>k \<in> set [0..7]. p \<le> ?pen k)"
    using r(2) unfolding prod.case if_not_P [OF ne] .
  then have "0 \<le> m" "m \<le> 7" "\<And>k. 0 \<le> k \<Longrightarrow> k \<le> 7 \<Longrightarrow> ?pen m \<le> ?pen k" unfolding set_upto by auto
  then show ?thesis using r(1) J by blast
qed

lemma mask_symbol_ok:
  assumes "1 \<le> v" "v \<le> 40" "n = v * 4 + 17" "marks_function v t" "wf_grid n q0" "-1 \<le> msk" "msk \<le> 7"
  shows "\<exists>q m. mask_symbol e msk t q0 = Some q \<and> 0 \<le> m \<and> m \<le> 7 \<and> (msk \<noteq> -1 \<longrightarrow> m = msk) \<and> wf_grid n q \<and> length q = length q0 \<and>
    read_format (module_at n q) = (e, m) \<and> getPenaltyScore q = Some (mask_penalty e t q0 m) \<and>
    (msk = -1 \<longrightarrow> (\<forall>k. 0 \<le> k \<and> k \<le> 7 \<longrightarrow> mask_penalty e t q0 m \<le> mask_penalty e t q0 k)) \<and>
    (\<forall>(x, y) \<in> data_cells v. module_at n q x y = (module_at n q0 x y \<noteq> mask_inverts m x y))"
proof -
  obtain q m where qm: "(if msk = -1 then Option.bind (for_each (mask_turn e t) [0..7] (q0, msk, LONG_MAX)) (\<lambda>(q, best, _). Some (q, best)) else Some (q0, msk)) = Some (q, m)"
      "agrees n q0 q" "0 \<le> m" "m \<le> 7" "msk \<noteq> -1 \<longrightarrow> m = msk" "msk = -1 \<longrightarrow> (\<forall>k. 0 \<le> k \<and> k \<le> 7 \<longrightarrow> mask_penalty e t q0 m \<le> mask_penalty e t q0 k)"
  proof (cases "msk = -1")
    case True
    then show ?thesis using auto_mask_ok [OF assms(1-5), of e] by (auto intro: that simp del: upto_rec_numeral)
  next
    case False
    then show ?thesis using assms(5-7) that [of q0 msk] by (simp add: agrees_def)
  qed
  obtain q1 q2 where M: "masked e t m q = Some q1" "masked e t m q0 = Some q2" "wf_grid n q1" "wf_grid n q2" "length q1 = length q0"
    "\<And>x y. (x, y) \<in> cells n \<Longrightarrow> module_at n q1 x y = masked_module v e m x y (module_at n q0 x y)"
    "\<And>x y. (x, y) \<in> cells n \<Longrightarrow> module_at n q2 x y = masked_module v e m x y (module_at n q0 x y)"
    using masked_agrees [OF assms(1-4) qm(3,4,2) assms(5), of e] by blast
  obtain p where "getPenaltyScore q2 = Some p" using getPenaltyScore_ok [OF M(4)] by blast
  then have pen: "getPenaltyScore q1 = Some (mask_penalty e t q0 m)" using penalty_cong [OF M(3,4)] M(2,6,7) by (simp add: mask_penalty_def)
  obtain qa where qa: "applyMask t m q = Some qa" "drawFormatBits e m qa = Some q1" using M(1) by (auto simp: masked_def bind_eq_Some_conv)
  have "wf_grid n t" "wf_grid n q" using assms(4) qm(2) by (auto simp: marks_function_def assms(3) agrees_def)
  then have "wf_grid n qa" using paints_exact(1) [OF _ applyMask_paints [OF _ qm(3,4)] qa(1)] by blast
  then have fmt: "read_format (module_at n q1) = (e, m)" using read_format_drawn qm(3,4) qa(2) assms(1-3) by blast
  have "module_at n q1 x y = (module_at n q0 x y \<noteq> mask_inverts m x y)" if "(x, y) \<in> data_cells v" for x y
  proof -
    have c: "(x, y) \<in> cells n" "\<not> is_function v x y" using that by (auto simp: data_cells_def assms(3))
    then have "(x, y) \<notin> format_area (v * 4 + 17)" using format_area_function [OF assms(1,2)] by (auto simp: function_cells_def)
    then show ?thesis using M(6) [OF c(1)] masked_module_format(2) c(2) by simp
  qed
  moreover have "mask_symbol e msk t q0 = Some q1"
    unfolding mask_symbol_def qm(1) bind.simps prod.case using qm(3,4) qa by simp
  ultimately show ?thesis using qm(3-6) M(3,5) fmt pen by blast
qed

section \<open>The encoder\<close>

lemma buffer_mono:
  assumes "1 \<le> v" "v \<le> w"
  shows "qrcodegen_BUFFER_LEN_FOR_VERSION v \<le> qrcodegen_BUFFER_LEN_FOR_VERSION w"
proof -
  have "(v * 4 + 17) * (v * 4 + 17) \<le> (w * 4 + 17) * (w * 4 + 17)" using assms by (intro mult_mono) auto
  then show ?thesis unfolding qrcodegen_BUFFER_LEN_FOR_VERSION_def by linarith
qed

lemma buffer_nonempty: "0 < qrcodegen_BUFFER_LEN_FOR_VERSION v"
proof -
  have "0 \<le> (v * 4 + 17) * (v * 4 + 17)" by simp
  then show ?thesis unfolding qrcodegen_BUFFER_LEN_FOR_VERSION_def by linarith
qed

text \<open>The arguments that the documentation allows.\<close>

definition encode_args :: "qrcodegen_Segment list \<Rightarrow> int \<Rightarrow> int \<Rightarrow> int \<Rightarrow> bytes \<Rightarrow> bytes \<Rightarrow> bool" where
  "encode_args segs minVersion maxVersion msk temp q =
     (1 \<le> minVersion \<and> minVersion \<le> maxVersion \<and> maxVersion \<le> 40 \<and> -1 \<le> msk \<and> msk \<le> 7 \<and> list_all seg_wf segs \<and>
      qrcodegen_BUFFER_LEN_FOR_VERSION maxVersion \<le> int (length temp) \<and> qrcodegen_BUFFER_LEN_FOR_VERSION maxVersion \<le> int (length q))"

text \<open>The version and the level that the encoder takes.\<close>

definition chosen :: "qrcodegen_Segment list \<Rightarrow> qrcodegen_Ecc \<Rightarrow> int \<Rightarrow> int \<Rightarrow> bool \<Rightarrow> int \<Rightarrow> qrcodegen_Ecc \<Rightarrow> bool" where
  "chosen segs ecl minVersion maxVersion boost v e =
     (minVersion \<le> v \<and> v \<le> maxVersion \<and> segs_fit segs ecl v \<and> (\<forall>w. minVersion \<le> w \<and> w < v \<longrightarrow> \<not> segs_fit segs ecl w) \<and>
      segs_fit segs e v \<and> (\<not> boost \<longrightarrow> e = ecl) \<and> (boost \<longrightarrow> (\<forall>d. segs_fit segs d v \<longrightarrow> ecc_index d \<le> ecc_index e)))"

lemma encode_too_long:
  assumes "encode_args segs lo hi msk temp q" "\<And>v. lo \<le> v \<Longrightarrow> v \<le> hi \<Longrightarrow> \<not> segs_fit segs ecl v"
  shows "\<exists>q'. qrcodegen_encodeSegmentsAdvanced segs ecl lo hi msk boost temp q = Some (False, temp, q') \<and> store 0 0 q = Some q'"
proof -
  have args: "1 \<le> lo" "lo \<le> hi" "hi \<le> 40" "-1 \<le> msk" "msk \<le> 7" "\<forall>seg \<in> set segs. seg_wf seg" "qrcodegen_BUFFER_LEN_FOR_VERSION hi \<le> int (length q)"
    using assms(1) by (auto simp: encode_args_def list_all_iff)
  have find: "find_version segs ecl lo hi = Some None" using find_version_spec [OF args(1-3,6), of ecl] assms(2) by blast
  have "q \<noteq> []" using args(7) buffer_nonempty [of hi] by auto
  then obtain q' where "store 0 0 q = Some q'" by (auto simp: store_def)
  with find show ?thesis
    unfolding qrcodegen_encodeSegmentsAdvanced_def using args(1-5) by (simp add: qrcodegen_VERSION_MIN_def qrcodegen_VERSION_MAX_def)
qed

lemma encode_stages:
  assumes "encode_args segs lo hi msk temp q" "lo \<le> v" "v \<le> hi" "segs_fit segs ecl v"
  shows "\<exists>v e t q0 data. chosen segs ecl lo hi boost v e \<and> 1 \<le> v \<and> v \<le> 40 \<and> marks_function v t \<and> length t = length temp \<and> wf_grid (v * 4 + 17) q0 \<and>
    length q0 = length q \<and> symbol_holds v e (module_at (v * 4 + 17) q0) data \<and>
    byte_bits data = data_stream (8 * data_len (layout_of v e)) (stream v segs) \<and>
    (\<forall>m. -1 \<le> m \<and> m \<le> 7 \<longrightarrow>
       qrcodegen_encodeSegmentsAdvanced segs ecl lo hi m boost temp q = map_option (\<lambda>q. (True, t, q)) (mask_symbol e m t q0))"
proof -
  have args: "1 \<le> lo" "lo \<le> hi" "hi \<le> 40" "\<forall>seg \<in> set segs. seg_wf seg" "qrcodegen_BUFFER_LEN_FOR_VERSION hi \<le> int (length temp)"
      "qrcodegen_BUFFER_LEN_FOR_VERSION hi \<le> int (length q)"
    using assms(1) by (auto simp: encode_args_def list_all_iff)
  obtain u where u: "find_version segs ecl lo hi = Some (Some (u, int (length (stream u segs))))" "lo \<le> u" "u \<le> hi" "segs_fit segs ecl u"
      "\<forall>w. lo \<le> w \<and> w < u \<longrightarrow> \<not> segs_fit segs ecl w"
    using find_version_spec [OF args(1-4), of ecl] assms(2-4) by blast
  have r: "1 \<le> u" "u \<le> 40" using u(2,3) args(1,3) by simp_all
  obtain e where e: "boost_level u (int (length (stream u segs))) boost ecl = Some e" "segs_fit segs e u" "\<not> boost \<longrightarrow> e = ecl"
      "boost \<longrightarrow> (\<forall>d. segs_fit segs d u \<longrightarrow> ecc_index d \<le> ecc_index e)"
    using boost_level_spec [OF r u(4), of boost] by blast
  have buf: "qrcodegen_BUFFER_LEN_FOR_VERSION u \<le> int (length temp)" "qrcodegen_BUFFER_LEN_FOR_VERSION u \<le> int (length q)"
    using buffer_mono [OF r(1) u(3)] args(5,6) by linarith+
  obtain q1 where q1: "write_data segs u e (int (length (stream u segs))) q = Some q1" "length q1 = length q"
      "byte_bits (take (data_len (layout_of u e)) q1) = data_stream (8 * data_len (layout_of u e)) (stream u segs)"
    using write_data_ok [OF r args(4) e(2) buf(2)] by blast
  obtain t q0 where d: "draw_symbol u e temp q1 = Some (t, q0)" "marks_function u t" "length t = length temp" "wf_grid (u * 4 + 17) q0" "length q0 = length q1"
      "symbol_holds u e (module_at (u * 4 + 17) q0) (take (data_len (layout_of u e)) q1)"
    using draw_symbol_ok [OF r refl buf(1), of q1 e] buf(2) q1(2) by auto
  have "qrcodegen_encodeSegmentsAdvanced segs ecl lo hi m boost temp q = map_option (\<lambda>q. (True, t, q)) (mask_symbol e m t q0)" if "-1 \<le> m" "m \<le> 7" for m
  proof -
    have "qrcodegen_encodeSegmentsAdvanced segs ecl lo hi m boost temp q = Option.bind (mask_symbol e m t q0) (\<lambda>q. Some (True, t, q))"
      unfolding qrcodegen_encodeSegmentsAdvanced_def u(1) bind.simps option.case prod.case e(1) q1(1) d(1)
      using that args(1-3) by (simp add: qrcodegen_VERSION_MIN_def qrcodegen_VERSION_MAX_def)
    then show ?thesis by (cases "mask_symbol e m t q0") simp_all
  qed
  moreover have "chosen segs ecl lo hi boost u e" using u e by (simp add: chosen_def)
  ultimately show ?thesis using r d q1 by metis
qed

section \<open>Reading a symbol\<close>

text \<open>The data codewords of the symbol with side \<open>n\<close> and modules \<open>g\<close>.\<close>

definition unmasked :: "(int \<Rightarrow> int \<Rightarrow> bool) \<Rightarrow> int \<Rightarrow> int \<Rightarrow> bool" where
  "unmasked g = (let m = snd (read_format g) in (\<lambda>x y. g x y \<noteq> mask_inverts m x y))"

definition symbol_data :: "int \<Rightarrow> (int \<Rightarrow> int \<Rightarrow> bool) \<Rightarrow> bytes" where
  "symbol_data n g = (let v = (n - 17) div 4 in deinterleave (layout_of v (fst (read_format g))) (scan v (unmasked g)))"

definition symbol_modules :: "bytes \<Rightarrow> int \<Rightarrow> int \<Rightarrow> bool" where
  "symbol_modules q x y = (getModule q x y = Some True)"

text \<open>A text of one segment.\<close>

definition read_text :: "int \<Rightarrow> bool list \<Rightarrow> bytes option" where
  "read_text v bs =
     (let mode = value_of (take 4 bs);
          count = (\<lambda>m. value_of (take (count_bits m v) (drop 4 bs)));
          rest = (\<lambda>m. drop (4 + count_bits m v) bs)
      in if mode = 0 then Some []
         else if mode = 1 then Some (map digit_char (read_numeric (count Mode_NUMERIC) (rest Mode_NUMERIC)))
         else if mode = 2 then Some (map charset_char (read_alphanumeric (count Mode_ALPHANUMERIC) (rest Mode_ALPHANUMERIC)))
         else if mode = 4 then Some (read_bytes (count Mode_BYTE) (rest Mode_BYTE))
         else None)"

definition read_symbol :: "bytes \<Rightarrow> bytes option" where
  "read_symbol q = do {
     n \<leftarrow> qrcodegen_getSize q;
     read_text ((n - 17) div 4) (byte_bits (symbol_data n (symbol_modules q)))
   }"

lemma scan_cong:
  assumes "1 \<le> v" "v \<le> 40" "\<And>x y. (x, y) \<in> data_cells v \<Longrightarrow> g x y = h x y"
  shows "scan v g = scan v h"
proof -
  have "map (\<lambda>(x, y). g x y) (data_order v) = map (\<lambda>(x, y). h x y) (data_order v)"
    using assms(3) data_order(1) [OF assms(1,2)] by auto
  then show ?thesis by (simp only: scan_def)
qed

lemma read_format_cong:
  assumes "1 \<le> v" "v \<le> 40" "n = v * 4 + 17" "\<And>x y. (x, y) \<in> cells n \<Longrightarrow> g x y = h x y"
  shows "read_format g = read_format h"
proof -
  have "(case format_cell i of (x, y) \<Rightarrow> g x y) = (case format_cell i of (x, y) \<Rightarrow> h x y)" if "i < 15" for i
  proof -
    have "format_cell i \<in> cells n" using format_cell_drawn [OF that, of 0] format_cells [OF assms(3,1,2), of 0] by force
    then show ?thesis using assms(4) by (auto split: prod.splits)
  qed
  then have "map (\<lambda>i. case format_cell i of (x, y) \<Rightarrow> g x y) [0..<15] = map (\<lambda>i. case format_cell i of (x, y) \<Rightarrow> h x y) [0..<15]" by auto
  then show ?thesis by (simp only: read_format_def)
qed

lemma symbol_modules_ok: "wf_grid n q \<Longrightarrow> (x, y) \<in> cells n \<Longrightarrow> symbol_modules q x y = module_at n q x y"
  by (simp add: symbol_modules_def getModule_ok)

text \<open>A symbol of version \<open>v\<close> and level \<open>e\<close> whose data codewords are those of the segments.\<close>

definition symbol_of :: "qrcodegen_Segment list \<Rightarrow> int \<Rightarrow> qrcodegen_Ecc \<Rightarrow> int \<Rightarrow> bytes \<Rightarrow> bool" where
  "symbol_of segs v e m q =
     (qrcodegen_getSize q = Some (v * 4 + 17) \<and> read_format (symbol_modules q) = (e, m) \<and> 0 \<le> m \<and> m \<le> 7 \<and>
      byte_bits (symbol_data (v * 4 + 17) (symbol_modules q)) = data_stream (8 * data_len (layout_of v e)) (stream v segs) \<and>
      (let l = layout_of v e; cw = scan v (unmasked (symbol_modules q))
       in \<forall>i < blocks l. is_codeword (ecc_len l) (read_data l cw i @ read_ecc l cw i)))"

lemma encode_total:
  assumes "encode_args segs lo hi msk temp q" "lo \<le> v" "v \<le> hi" "segs_fit segs ecl v"
  shows "\<exists>t q' v e m. qrcodegen_encodeSegmentsAdvanced segs ecl lo hi msk boost temp q = Some (True, t, q') \<and> chosen segs ecl lo hi boost v e \<and>
    length t = length temp \<and> wf_grid (v * 4 + 17) q' \<and> length q' = length q \<and> (msk \<noteq> -1 \<longrightarrow> m = msk) \<and> symbol_of segs v e m q'"
proof -
  obtain v e t q0 data where st: "chosen segs ecl lo hi boost v e" "1 \<le> v" "v \<le> 40" "marks_function v t" "length t = length temp" "wf_grid (v * 4 + 17) q0"
    "length q0 = length q" "symbol_holds v e (module_at (v * 4 + 17) q0) data"
    "byte_bits data = data_stream (8 * data_len (layout_of v e)) (stream v segs)"
    "\<And>m. -1 \<le> m \<Longrightarrow> m \<le> 7 \<Longrightarrow>
       qrcodegen_encodeSegmentsAdvanced segs ecl lo hi m boost temp q = map_option (\<lambda>q. (True, t, q)) (mask_symbol e m t q0)"
    using encode_stages [OF assms, of boost] by blast
  define n where "n = v * 4 + 17"
  have msk: "-1 \<le> msk" "msk \<le> 7" using assms(1) by (auto simp: encode_args_def)
  obtain q' m where M: "mask_symbol e msk t q0 = Some q'" "0 \<le> m" "m \<le> 7" "msk \<noteq> -1 \<longrightarrow> m = msk" "wf_grid n q'" "length q' = length q0"
    "read_format (module_at n q') = (e, m)" "\<forall>(x, y) \<in> data_cells v. module_at n q' x y = (module_at n q0 x y \<noteq> mask_inverts m x y)"
    using mask_symbol_ok [OF st(2,3) n_def st(4) _ msk, of q0 e] st(6) unfolding n_def [symmetric] by blast
  have fmt: "read_format (symbol_modules q') = (e, m)"
    using read_format_cong [OF st(2,3) n_def, of "symbol_modules q'" "module_at n q'"] symbol_modules_ok [OF M(5)] M(7) by simp
  have "unmasked (symbol_modules q') x y = module_at n q0 x y" if "(x, y) \<in> data_cells v" for x y
  proof -
    have "(x, y) \<in> cells n" using that by (auto simp: data_cells_def n_def)
    then show ?thesis using M(8) that symbol_modules_ok [OF M(5)] by (auto simp: unmasked_def fmt)
  qed
  then have sc: "scan v (unmasked (symbol_modules q')) = scan v (module_at n q0)" by (rule scan_cong [OF st(2,3)])
  have "symbol_data n (symbol_modules q') = data"
    using st(8) by (simp add: symbol_data_def fmt sc symbol_holds_def n_def Let_def)
  then have "symbol_of segs v e m q'"
    using getSize_ok [OF M(5)] fmt M(2,3) st(8,9) unfolding symbol_of_def n_def [symmetric] sc by (simp add: symbol_holds_def Let_def n_def)
  then show ?thesis using st(1,5,7) st(10) [OF msk] M unfolding n_def by auto
qed

end
