(* ===== verification/Qr_Text.thy ===== *)
theory Qr_Text
  imports Qr_Symbol
begin

text \<open>
  Encoding a text.  \<open>qrcodegen_encodeText\<close> gives a symbol from which the text is read back, or reports that no version in
  the range is large enough; it never fails an assertion or leaves a buffer.
\<close>

section \<open>The segment of a text\<close>

definition text_mode :: "bytes \<Rightarrow> qrcodegen_Mode" where
  "text_mode text = (if qrcodegen_isNumeric text then Mode_NUMERIC else if qrcodegen_isAlphanumeric text then Mode_ALPHANUMERIC else Mode_BYTE)"

definition text_payload :: "bytes \<Rightarrow> bool list" where
  "text_payload text =
     (if qrcodegen_isNumeric text then numeric_bits (digit_values text)
      else if qrcodegen_isAlphanumeric text then alphanumeric_bits (char_values text) else byte_bits text)"

definition text_stream :: "int \<Rightarrow> bytes \<Rightarrow> bool list" where
  "text_stream v text =
     (if text = [] then []
      else bits_of 4 (mode_value (text_mode text)) @ bits_of (count_bits (text_mode text) v) (length text) @ text_payload text)"

text \<open>A version is large enough for a text.\<close>

definition text_fits :: "bytes \<Rightarrow> qrcodegen_Ecc \<Rightarrow> int \<Rightarrow> bool" where
  "text_fits text e v =
     (length text < 2 ^ count_bits (text_mode text) v \<and> length (text_stream v text) \<le> 8 * data_len (layout_of v e))"

lemma seg_holds_bits: "seg_holds seg bs \<Longrightarrow> seg_bits seg = bs"
  by (auto simp: seg_holds_def seg_bits_def intro: nth_equalityI)

lemma seg_holds_wf:
  "seg_holds seg bs \<Longrightarrow> seg_numChars seg = int k \<Longrightarrow> k \<le> INT16_MAX \<Longrightarrow> length bs \<le> INT16_MAX \<Longrightarrow> seg_wf seg"
  by (auto simp: seg_holds_def seg_wf_def)

lemma text_payload_length:
  assumes "length (text_payload text) \<le> INT16_MAX"
  shows "calcSegmentBitLength (text_mode text) (length text) = Some (int (length (text_payload text)))" "length text \<le> INT16_MAX"
proof -
  have len: "length (text_payload text) = (case text_mode text of Mode_NUMERIC \<Rightarrow> (length text * 10 + 2) div 3
      | Mode_ALPHANUMERIC \<Rightarrow> (length text * 11 + 1) div 2 | _ \<Rightarrow> length text * 8)"
    by (simp add: text_payload_def text_mode_def length_numeric_bits length_alphanumeric_bits length_byte_bits digit_values_def char_values_def)
  have mode: "text_mode text \<in> {Mode_NUMERIC, Mode_ALPHANUMERIC, Mode_BYTE}" by (simp add: text_mode_def)
  have "length text \<le> length (text_payload text)" unfolding len using mode by (auto; linarith)
  then show "length text \<le> INT16_MAX" using assms by simp
  then show "calcSegmentBitLength (text_mode text) (length text) = Some (int (length (text_payload text)))"
    using mode assms unfolding len by (auto simp: calcSegmentBitLength_def)
qed

lemma buffer_max: "v \<le> 40 \<Longrightarrow> 1 \<le> v \<Longrightarrow> qrcodegen_BUFFER_LEN_FOR_VERSION v \<le> 3918"
  using buffer_mono [of v 40] by (simp add: qrcodegen_BUFFER_LEN_FOR_VERSION_def)

text \<open>A text that fits some version up to \<open>hi\<close> also fits the buffer of \<open>hi\<close>.\<close>

lemma text_fits_buffer:
  assumes "text \<noteq> []" "text_fits text e v" "1 \<le> v" "v \<le> hi" "hi \<le> 40"
  shows "length (text_payload text) \<le> INT16_MAX" "int ((length (text_payload text) + 7) div 8) \<le> qrcodegen_BUFFER_LEN_FOR_VERSION hi"
proof -
  have v: "v \<le> 40" using assms by simp
  let ?d = "data_len (layout_of v e)"
  have len: "length (text_payload text) \<le> 8 * ?d" using assms(1,2) by (simp add: text_fits_def text_stream_def)
  then show "length (text_payload text) \<le> INT16_MAX" using layout_facts(3) [OF assms(3) v refl, of e] by simp
  have "?d \<le> raw_len (layout_of v e)" by (simp add: raw_len_def)
  then have "int ?d \<le> qrcodegen_BUFFER_LEN_FOR_VERSION hi"
    using raw_len_buffer(1) [OF assms(3) v, of e] buffer_mono [OF assms(3,4)] by linarith
  then show "int ((length (text_payload text) + 7) div 8) \<le> qrcodegen_BUFFER_LEN_FOR_VERSION hi" using len by linarith
qed

definition text_made :: "bytes \<Rightarrow> qrcodegen_Segment \<Rightarrow> bool" where
  "text_made text seg =
     (seg_wf seg \<and> seg_mode seg = text_mode text \<and> seg_numChars seg = int (length text) \<and> seg_bits seg = text_payload text)"

lemma buffer_size_total: "mode \<noteq> Mode_ECI \<Longrightarrow> \<exists>sz. qrcodegen_calcSegmentBufferSize mode n = Some sz"
  by (cases mode) (auto simp: qrcodegen_calcSegmentBufferSize_def calcSegmentBitLength_def)

lemma too_big_for_buffer:
  assumes "text \<noteq> []" "1 \<le> v" "v \<le> hi" "hi \<le> 40" "qrcodegen_calcSegmentBufferSize (text_mode text) (length text) = Some sz"
    "qrcodegen_BUFFER_LEN_FOR_VERSION hi < int sz"
  shows "\<not> text_fits text e v"
proof
  assume "text_fits text e v"
  note b = text_fits_buffer [OF assms(1) this assms(2-4)]
  have "sz = (length (text_payload text) + 7) div 8"
    using assms(5) text_payload_length(1) [OF b(1)] b(1) by (auto simp: qrcodegen_calcSegmentBufferSize_def)
  then show False using assms(6) b(2) by simp
qed

lemma text_segment_ok:
  assumes "text \<noteq> []" "1 \<le> hi" "hi \<le> 40" "qrcodegen_BUFFER_LEN_FOR_VERSION hi \<le> int (length temp)"
  shows "\<exists>made t. text_segment text (qrcodegen_BUFFER_LEN_FOR_VERSION hi) temp = Some (made, t) \<and> length t = length temp \<and>
    (case made of None \<Rightarrow> (\<forall>v e. 1 \<le> v \<and> v \<le> hi \<longrightarrow> \<not> text_fits text e v) | Some seg \<Rightarrow> text_made text seg)"
proof -
  let ?B = "qrcodegen_BUFFER_LEN_FOR_VERSION hi"
  have big: "?B \<le> 3918" using buffer_max assms(2,3) by simp
  have mode: "text_mode text \<noteq> Mode_ECI" by (simp add: text_mode_def)
  obtain sz where sz: "qrcodegen_calcSegmentBufferSize (text_mode text) (length text) = Some sz"
    using buffer_size_total [OF mode] by blast
  consider (num) "qrcodegen_isNumeric text" | (alnum) "\<not> qrcodegen_isNumeric text" "qrcodegen_isAlphanumeric text"
    | (byte) "\<not> qrcodegen_isNumeric text" "\<not> qrcodegen_isAlphanumeric text" by blast
  then show ?thesis
  proof cases
    case num
    then have m: "text_mode text = Mode_NUMERIC" "text_payload text = numeric_bits (digit_values text)" by (simp_all add: text_mode_def text_payload_def)
    show ?thesis
    proof (cases "?B < int sz")
      case True
      then show ?thesis using num sz m(1) too_big_for_buffer [OF assms(1) _ _ assms(3) sz] by (simp add: text_segment_def)
    next
      case False
      then have s: "sz \<le> length temp" "sz < SIZE_MAX" using assms(4) big by (auto simp: SIZE_MAX_def)
      obtain seg where "qrcodegen_makeNumeric text temp = Some seg" "length (seg_data seg) = length temp" "text_made text seg"
        using makeNumeric_ok [OF num sz [unfolded m(1)] s] seg_holds_bits seg_holds_wf by (fastforce simp: text_made_def m)
      then show ?thesis using num sz m(1) False by (simp add: text_segment_def)
    qed
  next
    case alnum
    then have m: "text_mode text = Mode_ALPHANUMERIC" "text_payload text = alphanumeric_bits (char_values text)" by (simp_all add: text_mode_def text_payload_def)
    show ?thesis
    proof (cases "?B < int sz")
      case True
      then show ?thesis using alnum sz m(1) too_big_for_buffer [OF assms(1) _ _ assms(3) sz] by (simp add: text_segment_def)
    next
      case False
      then have s: "sz \<le> length temp" "sz < SIZE_MAX" using assms(4) big by (auto simp: SIZE_MAX_def)
      obtain seg where "qrcodegen_makeAlphanumeric text temp = Some seg" "length (seg_data seg) = length temp" "text_made text seg"
        using makeAlphanumeric_ok [OF alnum(2) sz [unfolded m(1)] s] seg_holds_bits seg_holds_wf by (fastforce simp: text_made_def m)
      then show ?thesis using alnum sz m(1) False by (simp add: text_segment_def)
    qed
  next
    case byte
    then have m: "text_mode text = Mode_BYTE" "text_payload text = byte_bits text" by (simp_all add: text_mode_def text_payload_def)
    show ?thesis
    proof (cases "?B < int (length text)")
      case True
      have "\<not> text_fits text e v" if "1 \<le> v" "v \<le> hi" for e v
        using text_fits_buffer(2) [OF assms(1) _ that assms(3), of e] True by (auto simp: m length_byte_bits)
      then show ?thesis using byte True by (simp add: text_segment_def)
    next
      case False
      then have len: "length text \<le> length temp" "length text \<le> 3918" using assms(4) big by linarith+
      let ?t = "text @ drop (length text) temp"
      let ?seg = "\<lparr>seg_mode = Mode_BYTE, seg_numChars = int (length text), seg_data = ?t, seg_bitLength = int (length text * 8)\<rparr>"
      have "seg_holds ?seg (byte_bits text)" using len by (auto simp: seg_holds_def length_byte_bits buf_bit_byte_bits)
      then have "text_made text ?seg" using len seg_holds_bits seg_holds_wf [of ?seg "byte_bits text" "length text"]
        by (simp add: text_made_def m INT16_MAX_def length_byte_bits)
      moreover have "text_segment text ?B temp = Some (Some ?seg, ?t)"
        using byte False len by (simp add: text_segment_def blit_def calcSegmentBitLength_def INT16_MAX_def)
      ultimately show ?thesis using len(1) by auto
    qed
  qed
qed

lemma text_made_stream:
  assumes "text_made text seg" "text \<noteq> []"
  shows "stream v [seg] = text_stream v text" "segs_fit [seg] e v \<longleftrightarrow> text_fits text e v"
proof -
  show s: "stream v [seg] = text_stream v text" using assms by (simp add: stream_def seg_stream_def text_stream_def text_made_def)
  have "(int (length text) < 2 ^ count_bits (text_mode text) v) = (length text < 2 ^ count_bits (text_mode text) v)"
    by (metis of_nat_less_iff of_nat_numeral of_nat_power)
  then show "segs_fit [seg] e v \<longleftrightarrow> text_fits text e v" using assms(1) by (simp add: segs_fit_def text_fits_def s counts_ok_def text_made_def)
qed

section \<open>Reading the text\<close>

lemma data_stream_prefix: "\<exists>tail. data_stream c s = s @ tail"
  by (simp add: data_stream_def to_byte_def terminated_def Let_def)

lemma data_stream_empty: "4 \<le> c \<Longrightarrow> take 4 (data_stream c []) = replicate 4 False"
  by (simp add: data_stream_def to_byte_def terminated_def Let_def)

lemma read_text_stream:
  assumes "text \<noteq> []" "length text < 2 ^ count_bits (text_mode text) v"
  shows "read_text v (text_stream v text @ tail) = Some text"
proof -
  let ?m = "text_mode text"
  have "mode_value ?m < 2 ^ 4" by (cases ?m) simp_all
  then have mode: "value_of (take 4 (text_stream v text @ tail)) = mode_value ?m" using assms(1) by (simp add: text_stream_def value_of_bits_of)
  have count: "value_of (take (count_bits ?m v) (drop 4 (text_stream v text @ tail))) = length text"
    using assms by (simp add: text_stream_def value_of_bits_of)
  have rest: "drop (4 + count_bits ?m v) (text_stream v text @ tail) = text_payload text @ tail" using assms(1) by (simp add: text_stream_def)
  consider (num) "qrcodegen_isNumeric text" | (alnum) "\<not> qrcodegen_isNumeric text" "qrcodegen_isAlphanumeric text"
    | (byte) "\<not> qrcodegen_isNumeric text" "\<not> qrcodegen_isAlphanumeric text" by blast
  then show ?thesis
  proof cases
    case num
    then have m: "?m = Mode_NUMERIC" "text_payload text = numeric_bits (digit_values text)" by (simp_all add: text_mode_def text_payload_def)
    show ?thesis
      using mode count rest read_numeric_bits [OF digit_values_less [OF num], of tail] digit_chars [OF num]
      by (simp add: read_text_def Let_def m) (simp add: digit_values_def)
  next
    case alnum
    then have m: "?m = Mode_ALPHANUMERIC" "text_payload text = alphanumeric_bits (char_values text)" by (simp_all add: text_mode_def text_payload_def)
    show ?thesis
      using mode count rest read_alphanumeric_bits [OF char_values_less [OF alnum(2)], of tail] charset_chars [OF alnum(2)]
      by (simp add: read_text_def Let_def m) (simp add: char_values_def)
  next
    case byte
    then have m: "?m = Mode_BYTE" "text_payload text = byte_bits text" by (simp_all add: text_mode_def text_payload_def)
    show ?thesis using mode count rest read_bytes_bits [of "text" tail] by (simp add: read_text_def Let_def m)
  qed
qed

section \<open>Encoding a text\<close>

definition text_args :: "int \<Rightarrow> int \<Rightarrow> int \<Rightarrow> bytes \<Rightarrow> bytes \<Rightarrow> bool" where
  "text_args minVersion maxVersion msk temp q =
     (1 \<le> minVersion \<and> minVersion \<le> maxVersion \<and> maxVersion \<le> 40 \<and> -1 \<le> msk \<and> msk \<le> 7 \<and>
      qrcodegen_BUFFER_LEN_FOR_VERSION maxVersion \<le> int (length temp) \<and> qrcodegen_BUFFER_LEN_FOR_VERSION maxVersion \<le> int (length q))"

text \<open>
  The call on segments behind a text: with the segments \<open>segs\<close> and the buffer \<open>t\<close>, unless the text is too long for
  the buffer.
\<close>

lemma encodeText_segments:
  assumes "text_args lo hi msk temp q"
  shows "(\<exists>t q'. (\<forall>m. qrcodegen_encodeText text temp q ecl lo hi m boost = Some (False, t, q')) \<and> store 0 0 q = Some q' \<and> length t = length temp \<and>
      (\<forall>v. lo \<le> v \<and> v \<le> hi \<longrightarrow> \<not> text_fits text ecl v)) \<or>
    (\<exists>segs t. (\<forall>m. qrcodegen_encodeText text temp q ecl lo hi m boost = qrcodegen_encodeSegmentsAdvanced segs ecl lo hi m boost t q) \<and>
      encode_args segs lo hi msk t q \<and> length t = length temp \<and>
      (\<forall>v e. stream v segs = text_stream v text \<and> segs_fit segs e v = text_fits text e v))"
proof (cases "text = []")
  case True
  have "stream v [] = text_stream v text \<and> segs_fit [] e v = text_fits text e v" for v e
    using True by (simp add: stream_def text_stream_def segs_fit_def text_fits_def counts_ok_def)
  moreover have "encode_args [] lo hi msk temp q" using assms by (simp add: encode_args_def text_args_def)
  ultimately show ?thesis using True by (intro disjI2 exI [of _ "[]"] exI [of _ temp]) (simp add: qrcodegen_encodeText_def)
next
  case False
  have a: "1 \<le> lo" "lo \<le> hi" "hi \<le> 40" "qrcodegen_BUFFER_LEN_FOR_VERSION hi \<le> int (length temp)" "qrcodegen_BUFFER_LEN_FOR_VERSION hi \<le> int (length q)"
    using assms by (auto simp: text_args_def)
  then obtain made t where T: "text_segment text (qrcodegen_BUFFER_LEN_FOR_VERSION hi) temp = Some (made, t)" "length t = length temp"
      "case made of None \<Rightarrow> (\<forall>v e. 1 \<le> v \<and> v \<le> hi \<longrightarrow> \<not> text_fits text e v) | Some seg \<Rightarrow> text_made text seg"
    using text_segment_ok [OF False, of hi temp] by auto
  show ?thesis
  proof (cases made)
    case None
    have "0 < int (length q)" using a(5) buffer_nonempty [of hi] by linarith
    then obtain q' where "store 0 0 q = Some q'" by (auto simp: store_def)
    then show ?thesis using None T False a(1)
      by (intro disjI1 exI [of _ t] exI [of _ q']) (simp add: qrcodegen_encodeText_def encode_failed_def)
  next
    case (Some seg)
    then have made: "text_made text seg" using T(3) by simp
    have "encode_args [seg] lo hi msk t q" using assms made T(2) by (simp add: encode_args_def text_args_def text_made_def)
    then show ?thesis using Some T(1,2) False text_made_stream [OF made False]
      by (intro disjI2 exI [of _ "[seg]"] exI [of _ t]) (simp add: qrcodegen_encodeText_def)
  qed
qed

lemma encodeText_fails:
  assumes "text_args lo hi msk temp q" "\<And>v. lo \<le> v \<Longrightarrow> v \<le> hi \<Longrightarrow> \<not> text_fits text ecl v"
  shows "\<exists>t q'. qrcodegen_encodeText text temp q ecl lo hi msk boost = Some (False, t, q') \<and> store 0 0 q = Some q' \<and> length t = length temp"
  using encodeText_segments [OF assms(1), of "text" ecl boost]
proof (elim disjE exE conjE)
  fix segs t assume s: "\<forall>m. qrcodegen_encodeText text temp q ecl lo hi m boost = qrcodegen_encodeSegmentsAdvanced segs ecl lo hi m boost t q"
    "encode_args segs lo hi msk t q" "length t = length temp" "\<forall>v e. stream v segs = text_stream v text \<and> segs_fit segs e v = text_fits text e v"
  then show ?thesis using encode_too_long [OF s(2), of ecl boost] assms(2) by auto
qed blast

text \<open>What the caller gets when some version is large enough.\<close>

definition text_symbol :: "bytes \<Rightarrow> int \<Rightarrow> qrcodegen_Ecc \<Rightarrow> bytes \<Rightarrow> bool" where
  "text_symbol text v e q =
     (let g = symbol_modules q; l = layout_of v e; cw = scan v (unmasked g)
      in qrcodegen_getSize q = Some (v * 4 + 17) \<and> fst (read_format g) = e \<and>
         byte_bits (symbol_data (v * 4 + 17) g) = data_stream (8 * data_len l) (text_stream v text) \<and>
         (\<forall>i < blocks l. is_codeword (ecc_len l) (read_data l cw i @ read_ecc l cw i)))"

definition text_chosen :: "bytes \<Rightarrow> qrcodegen_Ecc \<Rightarrow> int \<Rightarrow> int \<Rightarrow> bool \<Rightarrow> int \<Rightarrow> qrcodegen_Ecc \<Rightarrow> bool" where
  "text_chosen text ecl minVersion maxVersion boost v e =
     (minVersion \<le> v \<and> v \<le> maxVersion \<and> text_fits text ecl v \<and> (\<forall>w. minVersion \<le> w \<and> w < v \<longrightarrow> \<not> text_fits text ecl w) \<and>
      text_fits text e v \<and> (\<not> boost \<longrightarrow> e = ecl) \<and> (boost \<longrightarrow> (\<forall>d. text_fits text d v \<longrightarrow> ecc_index d \<le> ecc_index e)))"

lemma encodeText_succeeds:
  assumes "text_args lo hi msk temp q" "lo \<le> v" "v \<le> hi" "text_fits text ecl v"
  shows "\<exists>t q' v e. qrcodegen_encodeText text temp q ecl lo hi msk boost = Some (True, t, q') \<and> length t = length temp \<and> length q' = length q \<and>
    wf_grid (v * 4 + 17) q' \<and> text_chosen text ecl lo hi boost v e \<and> text_symbol text v e q' \<and> (msk \<noteq> -1 \<longrightarrow> read_format (symbol_modules q') = (e, msk))"
  using encodeText_segments [OF assms(1), of "text" ecl boost]
proof (elim disjE exE conjE)
  fix segs t assume s: "\<forall>m. qrcodegen_encodeText text temp q ecl lo hi m boost = qrcodegen_encodeSegmentsAdvanced segs ecl lo hi m boost t q"
    "encode_args segs lo hi msk t q" "length t = length temp" "\<forall>v e. stream v segs = text_stream v text \<and> segs_fit segs e v = text_fits text e v"
  have F: "segs_fit segs e v = text_fits text e v" "stream v segs = text_stream v text" for e v using s(4) by auto
  obtain t' q' v e m where R: "qrcodegen_encodeSegmentsAdvanced segs ecl lo hi msk boost t q = Some (True, t', q')" "chosen segs ecl lo hi boost v e"
    "length t' = length t" "wf_grid (v * 4 + 17) q'" "length q' = length q" "msk \<noteq> -1 \<longrightarrow> m = msk" "symbol_of segs v e m q'"
    using encode_total [OF s(2) assms(2,3), of ecl boost] assms(4) unfolding F by blast
  have "text_chosen text ecl lo hi boost v e" using R(2) unfolding chosen_def F text_chosen_def .
  moreover have "text_symbol text v e q'" "read_format (symbol_modules q') = (e, m)"
    using R(7) unfolding symbol_of_def F text_symbol_def Let_def by simp_all
  ultimately show ?thesis using s(1,3) R by auto
qed (use assms(2-4) in blast)

lemma text_symbol_read:
  assumes "text_symbol text v e q" "1 \<le> v" "v \<le> 40" "text_fits text e v"
  shows "read_symbol q = Some text"
proof -
  let ?d = "data_len (layout_of v e)"
  have S: "qrcodegen_getSize q = Some (v * 4 + 17)" "byte_bits (symbol_data (v * 4 + 17) (symbol_modules q)) = data_stream (8 * ?d) (text_stream v text)"
    using assms(1) by (simp_all add: text_symbol_def Let_def)
  have "read_text v (data_stream (8 * ?d) (text_stream v text)) = Some text"
  proof (cases "text = []")
    case True
    have "9 \<le> ?d" by (rule layout_facts(2) [OF assms(2,3) refl])
    then have "take 4 (data_stream (8 * ?d) []) = replicate 4 False" by (intro data_stream_empty) simp
    then show ?thesis using True by (simp add: text_stream_def read_text_def value_of_def numeral_eq_Suc)
  next
    case False
    obtain tail where "data_stream (8 * ?d) (text_stream v text) = text_stream v text @ tail" using data_stream_prefix by blast
    then show ?thesis using read_text_stream [OF False] assms(4) by (simp add: text_fits_def)
  qed
  then show ?thesis using S by (simp add: read_symbol_def)
qed

lemma encodeText_cases:
  assumes "text_args lo hi msk temp q" "qrcodegen_encodeText text temp q ecl lo hi msk boost = Some (ok, t, q')"
  shows "ok \<longleftrightarrow> (\<exists>v. lo \<le> v \<and> v \<le> hi \<and> text_fits text ecl v)" "\<not> ok \<Longrightarrow> load q' 0 = Some 0"
    "ok \<Longrightarrow> \<exists>v e. 1 \<le> v \<and> v \<le> 40 \<and> text_chosen text ecl lo hi boost v e \<and> text_symbol text v e q'"
proof -
  have range: "1 \<le> lo" "hi \<le> 40" using assms(1) by (auto simp: text_args_def)
  have "(\<exists>v. lo \<le> v \<and> v \<le> hi \<and> text_fits text ecl v) \<and> ok \<and> (\<exists>v e. 1 \<le> v \<and> v \<le> 40 \<and> text_chosen text ecl lo hi boost v e \<and> text_symbol text v e q') \<or>
      \<not> (\<exists>v. lo \<le> v \<and> v \<le> hi \<and> text_fits text ecl v) \<and> \<not> ok \<and> store 0 0 q = Some q'"
  proof (cases "\<exists>v. lo \<le> v \<and> v \<le> hi \<and> text_fits text ecl v")
    case True
    then obtain v where v: "lo \<le> v" "v \<le> hi" "text_fits text ecl v" by blast
    obtain u e where u: "ok" "text_chosen text ecl lo hi boost u e" "text_symbol text u e q'"
      using encodeText_succeeds [OF assms(1) v, of boost] assms(2) by auto
    then have "1 \<le> u" "u \<le> 40" using range by (auto simp: text_chosen_def)
    with u True show ?thesis by blast
  next
    case False
    then have "\<And>v. lo \<le> v \<Longrightarrow> v \<le> hi \<Longrightarrow> \<not> text_fits text ecl v" by blast
    from encodeText_fails [OF assms(1) this, of boost] False assms(2) show ?thesis by auto
  qed
  then show "ok \<longleftrightarrow> (\<exists>v. lo \<le> v \<and> v \<le> hi \<and> text_fits text ecl v)" "\<not> ok \<Longrightarrow> load q' 0 = Some 0"
    "ok \<Longrightarrow> \<exists>v e. 1 \<le> v \<and> v \<le> 40 \<and> text_chosen text ecl lo hi boost v e \<and> text_symbol text v e q'"
    by (auto simp: load_def store_def split: if_splits)
qed

lemma encode_mask_least:
  assumes "encode_args segs lo hi (-1) temp q" "0 \<le> k" "k \<le> 7"
    and a: "qrcodegen_encodeSegmentsAdvanced segs ecl lo hi (-1) boost temp q = Some (True, t, qa)"
    and b: "qrcodegen_encodeSegmentsAdvanced segs ecl lo hi k boost temp q = Some (True, t', qk)"
  shows "\<exists>p r. getPenaltyScore qa = Some p \<and> getPenaltyScore qk = Some r \<and> p \<le> r"
proof -
  obtain v where v: "lo \<le> v" "v \<le> hi" "segs_fit segs ecl v" using encode_too_long [OF assms(1), of ecl boost] a by fastforce
  obtain v e t q0 where st: "1 \<le> v" "v \<le> 40" "marks_function v t" "wf_grid (v * 4 + 17) q0"
    "\<And>m. -1 \<le> m \<Longrightarrow> m \<le> 7 \<Longrightarrow> qrcodegen_encodeSegmentsAdvanced segs ecl lo hi m boost temp q = map_option (\<lambda>q. (True, t, q)) (mask_symbol e m t q0)"
    using encode_stages [OF assms(1) v, of boost] by blast
  have "mask_symbol e (-1) t q0 = Some qa" "mask_symbol e k t q0 = Some qk" using st(5) [of "-1"] st(5) [of k] a b assms(2,3)
    by (cases "mask_symbol e (-1) t q0"; cases "mask_symbol e k t q0"; simp)+
  moreover obtain m where "getPenaltyScore qa = Some (mask_penalty e t q0 m)" "\<forall>k. 0 \<le> k \<and> k \<le> 7 \<longrightarrow> mask_penalty e t q0 m \<le> mask_penalty e t q0 k"
    using mask_symbol_ok [OF st(1,2) refl st(3,4), of "-1" e] calculation(1) by auto
  moreover have "getPenaltyScore qk = Some (mask_penalty e t q0 k)"
    using mask_symbol_ok [OF st(1,2) refl st(3,4), of k e] calculation(2) assms(2,3) by auto
  ultimately show ?thesis using assms(2,3) by auto
qed

section \<open>Encoding binary data\<close>

lemma read_text_bytes:
  assumes "length bs < 2 ^ count_bits Mode_BYTE v"
  shows "read_text v (bits_of 4 4 @ bits_of (count_bits Mode_BYTE v) (length bs) @ byte_bits bs @ tail) = Some bs"
  using assms read_bytes_bits [of bs tail] by (simp add: read_text_def value_of_bits_of)

lemma encodeBinary_reads_back:
  assumes "text_args lo hi msk data q" "dataLen \<le> length data"
  shows "\<exists>ok t q'. qrcodegen_encodeBinary data dataLen q ecl lo hi msk boost = Some (ok, t, q') \<and> (ok \<longrightarrow> read_symbol q' = Some (take dataLen data))"
proof (cases "8 * dataLen \<le> INT16_MAX")
  case True
  let ?bs = "take dataLen data"
  let ?seg = "\<lparr>seg_mode = Mode_BYTE, seg_numChars = int dataLen, seg_data = data, seg_bitLength = int (dataLen * 8)\<rparr>"
  have "seg_holds ?seg (byte_bits ?bs)"
    using assms(2) buf_bit_byte_bits [of _ ?bs "drop dataLen data"] by (auto simp: seg_holds_def length_byte_bits)
  then have seg: "seg_bits ?seg = byte_bits ?bs" "seg_wf ?seg"
    using seg_holds_bits seg_holds_wf [of ?seg "byte_bits ?bs" dataLen] True assms(2) by (auto simp: length_byte_bits)
  have args: "encode_args [?seg] lo hi msk data q" using assms(1) seg(2) by (simp add: encode_args_def text_args_def)
  have call: "qrcodegen_encodeBinary data dataLen q ecl lo hi msk boost = qrcodegen_encodeSegmentsAdvanced [?seg] ecl lo hi msk boost data q"
    using True by (simp add: qrcodegen_encodeBinary_def calcSegmentBitLength_def ac_simps)
  show ?thesis
  proof (cases "\<exists>v. lo \<le> v \<and> v \<le> hi \<and> segs_fit [?seg] ecl v")
    case True
    then obtain v where v: "lo \<le> v" "v \<le> hi" "segs_fit [?seg] ecl v" by blast
    obtain t q' u e m where R: "qrcodegen_encodeSegmentsAdvanced [?seg] ecl lo hi msk boost data q = Some (True, t, q')"
        "chosen [?seg] ecl lo hi boost u e" "symbol_of [?seg] u e m q'"
      using encode_total [OF args v, of boost] by blast
    have count: "length ?bs < 2 ^ count_bits Mode_BYTE u"
    proof -
      have "int dataLen < 2 ^ count_bits Mode_BYTE u" using R(2) by (simp add: chosen_def segs_fit_def counts_ok_def)
      then show ?thesis using assms(2) by (metis length_take min.absorb2 of_nat_less_iff of_nat_numeral of_nat_power)
    qed
    have "stream u [?seg] = bits_of 4 4 @ bits_of (count_bits Mode_BYTE u) (length ?bs) @ byte_bits ?bs"
      using assms(2) seg(1) by (simp add: stream_def seg_stream_def)
    then obtain tail where "data_stream (8 * data_len (layout_of u e)) (stream u [?seg]) =
        bits_of 4 4 @ bits_of (count_bits Mode_BYTE u) (length ?bs) @ byte_bits ?bs @ tail"
      using data_stream_prefix [of "8 * data_len (layout_of u e)" "stream u [?seg]"] by auto
    then have "read_symbol q' = Some ?bs" using R(3) read_text_bytes [OF count] by (simp add: symbol_of_def read_symbol_def)
    then show ?thesis using call R(1) by auto
  next
    case False
    then show ?thesis using encode_too_long [OF args, of ecl boost] call by auto
  qed
next
  case False
  have "q \<noteq> []" using buffer_nonempty [of hi] assms(1) by (auto simp: text_args_def)
  then obtain q' where "store 0 0 q = Some q'" by (auto simp: store_def)
  moreover have "calcSegmentBitLength Mode_BYTE dataLen = Some (-1)" using False by (simp add: calcSegmentBitLength_def)
  ultimately show ?thesis by (auto simp: qrcodegen_encodeBinary_def encode_failed_def)
qed

section \<open>Properties\<close>

text \<open>Arguments of a witness: the text \<open>Hi\<close>, all versions, automatic mask.\<close>

definition hi_text :: bytes where
  "hi_text = [72, 105]"

definition full_buffer :: bytes where
  "full_buffer = replicate 3918 0"

lemma hi_args: "-1 \<le> m \<Longrightarrow> m \<le> 7 \<Longrightarrow> text_args 1 40 m full_buffer full_buffer"
  by (simp add: text_args_def full_buffer_def qrcodegen_BUFFER_LEN_FOR_VERSION_def)

lemma hi_fits: "text_fits hi_text e 1"
proof -
  have "\<not> qrcodegen_isNumeric hi_text" "\<not> qrcodegen_isAlphanumeric hi_text" by code_simp+
  then have m: "text_mode hi_text = Mode_BYTE" "text_payload hi_text = byte_bits hi_text" by (simp_all add: text_mode_def text_payload_def)
  have c: "count_bits Mode_BYTE 1 = 8" by code_simp
  have "9 \<le> data_len (layout_of 1 e)" by (rule layout_facts(2)) simp_all
  then show ?thesis by (simp add: text_fits_def text_stream_def m c length_byte_bits) (simp add: hi_text_def)
qed

lemma hi_encoded:
  assumes "-1 \<le> m" "m \<le> 7"
  shows "\<exists>t q'. qrcodegen_encodeText hi_text full_buffer full_buffer Ecc_LOW 1 40 m True = Some (True, t, q')"
  using encodeText_succeeds [OF hi_args [OF assms] _ _ hi_fits] by fastforce

text \<open>
  C17: With version bounds, a mask and buffers as documented, \<open>qrcodegen_encodeText\<close> returns for every text: no assertion
  fails, no access leaves a buffer, and the buffers keep their lengths.
\<close>

theorem encodeText_safe:
  assumes "text_args lo hi msk temp q"
  shows "\<exists>ok t q'. qrcodegen_encodeText text temp q ecl lo hi msk boost = Some (ok, t, q') \<and> length t = length temp \<and> length q' = length q"
proof (cases "\<exists>v. lo \<le> v \<and> v \<le> hi \<and> text_fits text ecl v")
  case True
  then show ?thesis using encodeText_succeeds [OF assms, of _ "text" ecl boost] by blast
next
  case False
  then show ?thesis using encodeText_fails [OF assms, of "text" ecl boost] by (fastforce simp: store_def split: if_splits)
qed

theorem encodeText_safe_witness:
  "\<exists>ok t q'. qrcodegen_encodeText hi_text full_buffer full_buffer Ecc_LOW 1 40 (-1) True = Some (ok, t, q') \<and>
    length t = length full_buffer \<and> length q' = length full_buffer"
  by (rule encodeText_safe) (rule hi_args; simp)

text \<open>
  The call returns true exactly when some version in the range holds the text (its count field and its data codewords
  at the level asked for); when it returns false, the size byte of the symbol is 0.
\<close>

lemma encodeText_result:
  assumes "text_args lo hi msk temp q" "qrcodegen_encodeText text temp q ecl lo hi msk boost = Some (ok, t, q')"
  shows "(ok \<longleftrightarrow> (\<exists>v. lo \<le> v \<and> v \<le> hi \<and> text_fits text ecl v)) \<and> (\<not> ok \<longrightarrow> load q' 0 = Some 0)"
  using encodeText_cases [OF assms] by blast

text \<open>
  C10: A reader of the finished symbol finds the text: it takes level and mask from the format bits, removes the mask, scans
  the data modules, undoes the interleaving and decodes the segment.
\<close>

theorem encodeText_reads_back:
  assumes "text_args lo hi msk temp q" "qrcodegen_encodeText text temp q ecl lo hi msk boost = Some (True, t, q')"
  shows "read_symbol q' = Some text"
  using encodeText_cases(3) [OF assms] text_symbol_read by (auto simp: text_chosen_def)

theorem encodeText_reads_back_witness:
  "\<exists>t q'. qrcodegen_encodeText hi_text full_buffer full_buffer Ecc_LOW 1 40 (-1) True = Some (True, t, q') \<and> read_symbol q' = Some hi_text"
  using encodeText_reads_back [OF hi_args] hi_encoded by fastforce

text \<open>
  C26: The symbol has the smallest version of the range that holds the text; with boosting its level is the highest one
  that this version allows, otherwise the level asked for.
\<close>

theorem encodeText_smallest:
  assumes "text_args lo hi msk temp q" "qrcodegen_encodeText text temp q ecl lo hi msk boost = Some (True, t, q')"
  shows "\<exists>v e. qrcodegen_getSize q' = Some (v * 4 + 17) \<and> fst (read_format (symbol_modules q')) = e \<and> text_chosen text ecl lo hi boost v e"
  using encodeText_cases(3) [OF assms] by (auto simp: text_symbol_def Let_def)

theorem encodeText_smallest_witness:
  "\<exists>t q' v e. qrcodegen_encodeText hi_text full_buffer full_buffer Ecc_LOW 1 40 (-1) True = Some (True, t, q') \<and>
    qrcodegen_getSize q' = Some (v * 4 + 17) \<and> fst (read_format (symbol_modules q')) = e \<and> text_chosen hi_text Ecc_LOW 1 40 True v e"
  using encodeText_smallest [OF hi_args] hi_encoded by fastforce

text \<open>
  C23: Each block of the symbol, its data and error correction bytes together, is a codeword of the Reed-Solomon code: as a
  polynomial over the field it vanishes at the powers of the generator below the number of error correction bytes.
\<close>

theorem encodeText_codewords:
  assumes "text_args lo hi msk temp q" "qrcodegen_encodeText text temp q ecl lo hi msk boost = Some (True, t, q')"
  shows "\<exists>v e. qrcodegen_getSize q' = Some (v * 4 + 17) \<and> fst (read_format (symbol_modules q')) = e \<and>
    (let l = layout_of v e; cw = scan v (unmasked (symbol_modules q'))
     in \<forall>i < blocks l. is_codeword (ecc_len l) (read_data l cw i @ read_ecc l cw i))"
  using encodeText_cases(3) [OF assms] by (auto simp: text_symbol_def Let_def)

theorem encodeText_codewords_witness:
  "\<exists>t q' v e. qrcodegen_encodeText hi_text full_buffer full_buffer Ecc_LOW 1 40 (-1) True = Some (True, t, q') \<and>
    qrcodegen_getSize q' = Some (v * 4 + 17) \<and> fst (read_format (symbol_modules q')) = e \<and>
    (let l = layout_of v e; cw = scan v (unmasked (symbol_modules q'))
     in \<forall>i < blocks l. is_codeword (ecc_len l) (read_data l cw i @ read_ecc l cw i))"
  using encodeText_codewords [OF hi_args] hi_encoded by fastforce

text \<open>
  C25: The automatic mask has the least penalty: a symbol of the same text with any explicit mask scores at least as much.
\<close>

theorem encodeText_mask_least:
  assumes "text_args lo hi (-1) temp q" "0 \<le> k" "k \<le> 7"
    and "qrcodegen_encodeText text temp q ecl lo hi (-1) boost = Some (True, t, qa)"
    and "qrcodegen_encodeText text temp q ecl lo hi k boost = Some (True, t', qk)"
  shows "\<exists>p r. getPenaltyScore qa = Some p \<and> getPenaltyScore qk = Some r \<and> p \<le> r"
  using encodeText_segments [OF assms(1), of "text" ecl boost] encode_mask_least [OF _ assms(2,3)] assms(4,5)
  by (elim disjE exE conjE) (simp, metis)

theorem encodeText_mask_least_witness:
  "\<exists>t t' qa qk p r. qrcodegen_encodeText hi_text full_buffer full_buffer Ecc_LOW 1 40 (-1) True = Some (True, t, qa) \<and>
    qrcodegen_encodeText hi_text full_buffer full_buffer Ecc_LOW 1 40 3 True = Some (True, t', qk) \<and>
    getPenaltyScore qa = Some p \<and> getPenaltyScore qk = Some r \<and> p \<le> r"
  using encodeText_mask_least [OF hi_args, of 3 hi_text Ecc_LOW True] hi_encoded [of "-1"] hi_encoded [of 3] by fastforce

end
