(* ===== verification/Qr_Render.thy ===== *)
theory Qr_Render
  imports Qr_Text
begin

text \<open>
  Rendering a symbol as text and the command line program, \<^verbatim>\<open>tools/qrtext/qrcodegen.c\<close>.  An output buffer of the documented
  length always suffices; the compact form shows two rows of modules per line.
\<close>

section \<open>The routines\<close>

definition QRCODEGEN_TEXT_QUIET_ZONE :: int where "QRCODEGEN_TEXT_QUIET_ZONE = 4"

definition QRCODEGEN_TEXT_MAX_SIZE :: int where
  "QRCODEGEN_TEXT_MAX_SIZE = qrcodegen_VERSION_MAX * 4 + 17 + 2 * QRCODEGEN_TEXT_QUIET_ZONE"

definition QRCODEGEN_TEXT_MAX_LEN :: int where
  "QRCODEGEN_TEXT_MAX_LEN = QRCODEGEN_TEXT_MAX_SIZE * (QRCODEGEN_TEXT_MAX_SIZE * 6 + 1) + 1"

definition QRCODEGEN_TEXT_COMPACT_CELLS :: int where
  "QRCODEGEN_TEXT_COMPACT_CELLS = (QRCODEGEN_TEXT_MAX_SIZE + 1) div 2"

definition QRCODEGEN_TEXT_COMPACT_MAX_LEN :: int where
  "QRCODEGEN_TEXT_COMPACT_MAX_LEN = QRCODEGEN_TEXT_COMPACT_CELLS * (QRCODEGEN_TEXT_COMPACT_CELLS * 6 + 1) + 1"

text \<open>The output buffer and the index behind the pointer \<open>p\<close>; \<open>*p++ = c\<close>.\<close>

type_synonym out_state = "bytes \<times> nat"

definition put :: "u8 \<Rightarrow> out_state \<Rightarrow> out_state option" where
  "put c s = do { o' \<leftarrow> store (int (snd s)) c (fst s); Some (o', snd s + 1) }"

definition full_cell :: "bytes \<Rightarrow> int \<Rightarrow> int \<Rightarrow> out_state \<Rightarrow> out_state option" where
  "full_cell qr y x s = do {
     m \<leftarrow> qrcodegen_getModule qr x y;
     for_each put (if m then [0xE2, 0x96, 0x88, 0xE2, 0x96, 0x88] else [32, 32]) s
   }"

definition render_full :: "bytes \<Rightarrow> bytes \<Rightarrow> bytes option" where
  "render_full qr out = do {
     n \<leftarrow> qrcodegen_getSize qr;
     let range = [- QRCODEGEN_TEXT_QUIET_ZONE..n + QRCODEGEN_TEXT_QUIET_ZONE - 1];
     (o', p) \<leftarrow> for_each (\<lambda>y s. do { s \<leftarrow> for_each (full_cell qr y) range s; put 10 s }) range (out, 0);
     store (int p) 0 o'
   }"

text \<open>The glyph table in UTF-8.\<close>

definition upper :: bytes where "upper = [0xE2, 0x96, 0x80]"
definition lower :: bytes where "lower = [0xE2, 0x96, 0x84]"
definition whole :: bytes where "whole = [0xE2, 0x96, 0x88]"
definition blank :: bytes where "blank = [32]"

definition glyph_table :: "bytes list" where
  "glyph_table =
     [blank @ blank, upper @ blank, blank @ upper, upper @ upper, lower @ blank, whole @ blank, lower @ upper, whole @ upper,
      blank @ lower, upper @ lower, blank @ whole, upper @ whole, lower @ lower, whole @ lower, lower @ whole, whole @ whole]"

definition compact_cell :: "bytes \<Rightarrow> int \<Rightarrow> int \<Rightarrow> out_state \<Rightarrow> out_state option" where
  "compact_cell qr y x s = do {
     a \<leftarrow> qrcodegen_getModule qr x y;
     b \<leftarrow> qrcodegen_getModule qr (x + 1) y;
     c \<leftarrow> qrcodegen_getModule qr x (y + 1);
     d \<leftarrow> qrcodegen_getModule qr (x + 1) (y + 1);
     for_each put (glyph_table ! (of_bool a + 2 * of_bool b + 4 * of_bool c + 8 * of_bool d)) s
   }"

text \<open>The counter runs from \<open>-border\<close> in steps of two below \<open>size + border\<close>.\<close>

definition pair_range :: "int \<Rightarrow> int list" where
  "pair_range n = map (\<lambda>k. 2 * k - QRCODEGEN_TEXT_QUIET_ZONE) [0..(n + 2 * QRCODEGEN_TEXT_QUIET_ZONE - 1) div 2]"

definition render_compact :: "bytes \<Rightarrow> bytes \<Rightarrow> bytes option" where
  "render_compact qr out = do {
     n \<leftarrow> qrcodegen_getSize qr;
     (o', p) \<leftarrow> for_each (\<lambda>y s. do { s \<leftarrow> for_each (compact_cell qr y) (pair_range n) s; put 10 s }) (pair_range n) (out, 0);
     store (int p) 0 o'
   }"

text \<open>
  \<open>None\<close> in the result is \<open>NULL\<close>.  The local arrays \<open>temp\<close> and \<open>qr\<close> are not initialised: their contents are arguments.
\<close>

definition qrcodegen_with :: "(bytes \<Rightarrow> bytes \<Rightarrow> bytes option) \<Rightarrow> bytes option \<Rightarrow> bytes option \<Rightarrow> bytes \<Rightarrow> bytes \<Rightarrow> bytes option option" where
  "qrcodegen_with render text out temp qr =
     (case text of None \<Rightarrow> Some None | Some s \<Rightarrow>
      case out of None \<Rightarrow> Some None | Some b \<Rightarrow> do {
        (ok, _, q) \<leftarrow> qrcodegen_encodeText s temp qr Ecc_LOW qrcodegen_VERSION_MIN qrcodegen_VERSION_MAX (-1) True;
        if ok then map_option Some (render q b) else Some None
      })"

definition qrcodegen :: "bytes option \<Rightarrow> bytes option \<Rightarrow> bytes \<Rightarrow> bytes \<Rightarrow> bytes option option" where
  "qrcodegen = qrcodegen_with render_full"

definition qrcodegen_c :: "bytes option \<Rightarrow> bytes option \<Rightarrow> bytes \<Rightarrow> bytes \<Rightarrow> bytes option option" where
  "qrcodegen_c = qrcodegen_with render_compact"

text \<open>A C string in a buffer.\<close>

definition c_string :: "bytes \<Rightarrow> bytes" where
  "c_string b = takeWhile (\<lambda>c. c \<noteq> 0) b"

text \<open>The static buffer is zero at the start.  The result is what is printed, if anything.\<close>

definition print_compact :: "bytes \<Rightarrow> bytes \<Rightarrow> bytes \<Rightarrow> bytes option option" where
  "print_compact text temp qr = do {
     r \<leftarrow> qrcodegen_c (Some text) (Some (replicate (nat QRCODEGEN_TEXT_COMPACT_MAX_LEN) 0)) temp qr;
     Some (map_option c_string r)
   }"

definition print_full :: "bytes \<Rightarrow> bytes \<Rightarrow> bytes \<Rightarrow> bytes option option" where
  "print_full text temp qr = do {
     r \<leftarrow> qrcodegen (Some text) (Some (replicate (nat QRCODEGEN_TEXT_MAX_LEN) 0)) temp qr;
     Some (map_option c_string r)
   }"

definition compact_flags :: "bytes list" where
  "compact_flags = [map of_char ''--compact'', map of_char ''-c'']"

fun parse_args :: "bytes list \<Rightarrow> bool \<Rightarrow> bytes option \<Rightarrow> bool \<times> bytes option" where
  "parse_args [] compact text = (compact, text)"
| "parse_args (a # args) compact text =
     (if a \<in> set compact_flags then parse_args args True text
      else if text = None then parse_args args compact (Some a)
      else (compact, None))"

datatype message = Usage | Too_Long

text \<open>The exit code, what goes to standard output, and the message on standard error.\<close>

definition qrtext_main :: "bytes list \<Rightarrow> bytes \<Rightarrow> bytes \<Rightarrow> (int \<times> bytes \<times> message option) option" where
  "qrtext_main args temp qr =
     (case parse_args args False None of
        (_, None) \<Rightarrow> Some (1, [], Some Usage)
      | (compact, Some s) \<Rightarrow> do {
          r \<leftarrow> (if compact then print_compact s temp qr else print_full s temp qr);
          Some (case r of None \<Rightarrow> (1, [], Some Too_Long) | Some printed \<Rightarrow> (0, printed, None))
        })"

section \<open>What is written\<close>

text \<open>\<open>f\<close> appends \<open>cs\<close> at the pointer, if there is room.\<close>

definition emits :: "(out_state \<Rightarrow> out_state option) \<Rightarrow> bytes \<Rightarrow> bool" where
  "emits f cs =
     (\<forall>b p. p + length cs \<le> length b \<longrightarrow> f (b, p) = Some (take p b @ cs @ drop (p + length cs) b, p + length cs))"

lemma emits_Some: "emits Some []"
  by (simp add: emits_def)

lemma emits_put: "emits (put c) [c]"
  by (auto simp: emits_def put_def store_def upd_conv_take_nth_drop)

lemma emits_seq: "emits f cs \<Longrightarrow> emits g ds \<Longrightarrow> emits (\<lambda>s. Option.bind (f s) g) (cs @ ds)"
  by (auto simp: emits_def ac_simps)

lemma emits_for_each: "(\<And>x. x \<in> set xs \<Longrightarrow> emits (f x) (g x)) \<Longrightarrow> emits (for_each f xs) (concat (map g xs))"
proof (induction xs)
  case Nil
  have "for_each f [] = Some" by (simp add: fun_eq_iff)
  then show ?case using emits_Some by simp
next
  case (Cons x xs)
  have "for_each f (x # xs) = (\<lambda>s. Option.bind (f x s) (for_each f xs))" by (simp add: fun_eq_iff)
  then show ?case using emits_seq [of "f x"] Cons by simp
qed

lemma emits_puts: "emits (for_each put cs) cs"
  using emits_for_each [of cs put "\<lambda>c. [c]"] emits_put by simp

text \<open>The pictures: the modules \<open>g\<close> with the quiet zone, one or two rows per line.\<close>

definition full_text :: "int \<Rightarrow> (int \<Rightarrow> int \<Rightarrow> bool) \<Rightarrow> bytes" where
  "full_text n g =
     concat (map (\<lambda>y. concat (map (\<lambda>x. if g x y then whole @ whole else blank @ blank) [-4..n + 3]) @ [10]) [-4..n + 3])"

definition glyph :: "bool \<Rightarrow> bool \<Rightarrow> bytes" where
  "glyph a b = (if a then if b then whole else upper else if b then lower else blank)"

definition compact_text :: "int \<Rightarrow> (int \<Rightarrow> int \<Rightarrow> bool) \<Rightarrow> bytes" where
  "compact_text n g =
     concat (map (\<lambda>y. concat (map (\<lambda>x. glyph (g x y) (g x (y + 1)) @ glyph (g (x + 1) y) (g (x + 1) (y + 1))) (pair_range n)) @ [10]) (pair_range n))"

definition shown :: "bytes \<Rightarrow> int \<Rightarrow> int \<Rightarrow> bool" where
  "shown q x y = (qrcodegen_getModule q x y = Some True)"

lemma getModule_shown: "wf_grid n q \<Longrightarrow> qrcodegen_getModule q x y = Some (shown q x y)"
  by (simp add: shown_def qrcodegen_getModule_ok)

lemma glyph_table:
  "glyph_table ! (of_bool a + 2 * of_bool b + 4 * of_bool c + 8 * of_bool d) = glyph a c @ glyph b d"
  by (cases a; cases b; cases c; cases d; simp add: glyph_table_def glyph_def)

lemma emits_full:
  assumes "wf_grid n q"
  shows "emits (for_each (\<lambda>y s. Option.bind (for_each (full_cell q y) [-4..n + 3] s) (put 10)) [-4..n + 3]) (full_text n (shown q))"
proof -
  have "emits (full_cell q y x) (if shown q x y then whole @ whole else blank @ blank)" for x y
  proof -
    have "full_cell q y x = for_each put (if shown q x y then whole @ whole else blank @ blank)"
      using getModule_shown [OF assms, of x y] by (simp add: fun_eq_iff full_cell_def whole_def blank_def)
    then show ?thesis using emits_puts by metis
  qed
  then show ?thesis unfolding full_text_def by (intro emits_for_each emits_seq emits_put)
qed

lemma emits_compact:
  assumes "wf_grid n q"
  shows "emits (for_each (\<lambda>y s. Option.bind (for_each (compact_cell q y) (pair_range n) s) (put 10)) (pair_range n)) (compact_text n (shown q))"
proof -
  have "emits (compact_cell q y x) (glyph (shown q x y) (shown q x (y + 1)) @ glyph (shown q (x + 1) y) (shown q (x + 1) (y + 1)))" for x y
  proof -
    have "compact_cell q y x = for_each put (glyph (shown q x y) (shown q x (y + 1)) @ glyph (shown q (x + 1) y) (shown q (x + 1) (y + 1)))"
      unfolding fun_eq_iff compact_cell_def getModule_shown [OF assms] bind.simps glyph_table by simp
    then show ?thesis using emits_puts by metis
  qed
  then show ?thesis unfolding compact_text_def by (intro emits_for_each emits_seq emits_put)
qed

lemma length_concat_le: "(\<And>x. x \<in> set xs \<Longrightarrow> length (f x) \<le> k) \<Longrightarrow> length (concat (map f xs)) \<le> length xs * k"
  by (induction xs) (auto simp: add_mono)

lemma length_full:
  assumes "21 \<le> n" "n \<le> 177"
  shows "int (length (full_text n g)) < QRCODEGEN_TEXT_MAX_LEN"
proof -
  let ?m = "length [-4..n + 3]"
  have m: "?m \<le> 185" using assms by simp
  have row: "length (concat (map (\<lambda>x. if g x y then whole @ whole else blank @ blank) [-4..n + 3]) @ [10]) \<le> ?m * 6 + 1" for y
    using length_concat_le [of "[-4..n + 3]" "\<lambda>x. if g x y then whole @ whole else blank @ blank" 6] by (simp add: whole_def blank_def)
  have "length (full_text n g) \<le> ?m * (?m * 6 + 1)" unfolding full_text_def by (rule length_concat_le) (rule row)
  also have "\<dots> \<le> 185 * (185 * 6 + 1)" using m by (intro mult_le_mono add_le_mono) simp_all
  finally show ?thesis by (simp add: QRCODEGEN_TEXT_MAX_LEN_def QRCODEGEN_TEXT_MAX_SIZE_def QRCODEGEN_TEXT_QUIET_ZONE_def qrcodegen_VERSION_MAX_def)
qed

lemma length_compact:
  assumes "21 \<le> n" "n \<le> 177"
  shows "int (length (compact_text n g)) < QRCODEGEN_TEXT_COMPACT_MAX_LEN"
proof -
  let ?m = "length (pair_range n)"
  have m: "?m \<le> 93" using assms by (simp add: pair_range_def QRCODEGEN_TEXT_QUIET_ZONE_def)
  have g3: "length (glyph a b) \<le> 3" for a b by (simp add: glyph_def whole_def upper_def lower_def blank_def)
  have row: "length (concat (map (\<lambda>x. glyph (g x y) (g x (y + 1)) @ glyph (g (x + 1) y) (g (x + 1) (y + 1))) (pair_range n)) @ [10]) \<le> ?m * 6 + 1" for y
  proof -
    have "length (glyph (g x y) (g x (y + 1)) @ glyph (g (x + 1) y) (g (x + 1) (y + 1))) \<le> 6" for x
      using g3 [of "g x y" "g x (y + 1)"] g3 [of "g (x + 1) y" "g (x + 1) (y + 1)"] by simp
    then have "length (concat (map (\<lambda>x. glyph (g x y) (g x (y + 1)) @ glyph (g (x + 1) y) (g (x + 1) (y + 1))) (pair_range n))) \<le> ?m * 6"
      by (intro length_concat_le)
    then show ?thesis by simp
  qed
  have "length (compact_text n g) \<le> ?m * (?m * 6 + 1)" unfolding compact_text_def by (rule length_concat_le) (rule row)
  also have "\<dots> \<le> 93 * (93 * 6 + 1)" using m by (intro mult_le_mono add_le_mono) simp_all
  finally show ?thesis
    by (simp add: QRCODEGEN_TEXT_COMPACT_MAX_LEN_def QRCODEGEN_TEXT_COMPACT_CELLS_def QRCODEGEN_TEXT_MAX_SIZE_def QRCODEGEN_TEXT_QUIET_ZONE_def qrcodegen_VERSION_MAX_def)
qed

lemma no_nul: "0 \<notin> set (full_text n g)" "0 \<notin> set (compact_text n g)"
  by (auto simp: full_text_def compact_text_def glyph_def whole_def upper_def lower_def blank_def split: if_splits)

lemma emitted_string:
  assumes "emits f cs" "length cs < length b" "0 \<notin> set cs"
  shows "\<exists>b'. Option.bind (f (b, 0)) (\<lambda>(o', p). store (int p) 0 o') = Some b' \<and> length b' = length b \<and> c_string b' = cs"
proof -
  have "f (b, 0) = Some (cs @ drop (length cs) b, length cs)" using assms(1,2) by (simp add: emits_def)
  then have "Option.bind (f (b, 0)) (\<lambda>(o', p). store (int p) 0 o') = Some ((cs @ drop (length cs) b)[length cs := 0])"
    using assms(2) by (simp add: store_def)
  moreover have "(cs @ drop (length cs) b)[length cs := 0] = cs @ 0 # drop (length cs + 1) b"
    using assms(2) by (simp add: list_update_append Cons_nth_drop_Suc [symmetric])
  moreover have "takeWhile (\<lambda>c. c \<noteq> 0) (cs @ 0 # drop (length cs + 1) b) = cs"
    using assms(3) by (subst takeWhile_append2) auto
  ultimately show ?thesis using assms(2) by (simp add: c_string_def)
qed

lemma draws_full:
  assumes wf: "wf_grid n q" and b: "QRCODEGEN_TEXT_MAX_LEN \<le> int (length b)"
  shows "\<exists>b'. render_full q b = Some b' \<and> length b' = length b \<and> c_string b' = full_text n (shown q)"
proof -
  have "21 \<le> n" "n \<le> 177" using wf by (auto simp: wf_grid_def)
  then have "length (full_text n (shown q)) < length b" using length_full [of n "shown q"] b by linarith
  moreover have "[- QRCODEGEN_TEXT_QUIET_ZONE..n + QRCODEGEN_TEXT_QUIET_ZONE - 1] = [-4..n + 3]"
    by (simp add: QRCODEGEN_TEXT_QUIET_ZONE_def add.commute)
  ultimately show ?thesis
    unfolding render_full_def getSize_ok [OF wf] bind.simps Let_def
    using emitted_string [OF emits_full [OF wf] _ no_nul(1)] by simp
qed

lemma draws_compact:
  assumes wf: "wf_grid n q" and b: "QRCODEGEN_TEXT_COMPACT_MAX_LEN \<le> int (length b)"
  shows "\<exists>b'. render_compact q b = Some b' \<and> length b' = length b \<and> c_string b' = compact_text n (shown q)"
proof -
  have "21 \<le> n" "n \<le> 177" using wf by (auto simp: wf_grid_def)
  then have "length (compact_text n (shown q)) < length b" using length_compact [of n "shown q"] b by linarith
  then show ?thesis
    unfolding render_compact_def getSize_ok [OF wf] bind.simps Let_def
    using emitted_string [OF emits_compact [OF wf] _ no_nul(2)] by simp
qed

text \<open>
  A renderer draws \<open>picture\<close>, the C string for a symbol, into every buffer of at least \<open>limit\<close> bytes.  The callers of the
  encoder rely on no more than that.
\<close>

locale renderer =
  fixes render :: "bytes \<Rightarrow> bytes \<Rightarrow> bytes option"
    and limit :: int
    and picture :: "int \<Rightarrow> (int \<Rightarrow> int \<Rightarrow> bool) \<Rightarrow> bytes"
  assumes draws: "wf_grid n q \<Longrightarrow> limit \<le> int (length b) \<Longrightarrow>
    \<exists>b'. render q b = Some b' \<and> length b' = length b \<and> c_string b' = picture n (shown q)"
begin

lemma renders_text:
  assumes "3918 \<le> length temp" "3918 \<le> length qr" "limit \<le> int (length out)"
  shows "\<exists>r. qrcodegen_with render (Some text) (Some out) temp qr = Some r \<and>
    (if \<exists>v. 1 \<le> v \<and> v \<le> 40 \<and> text_fits text Ecc_LOW v
     then \<exists>b q n. r = Some b \<and> length b = length out \<and> qrcodegen_getSize q = Some n \<and> read_symbol q = Some text \<and> c_string b = picture n (shown q)
     else r = None)"
proof -
  have args: "text_args 1 40 (-1) temp qr" using assms(1,2) by (simp add: text_args_def qrcodegen_BUFFER_LEN_FOR_VERSION_def)
  show ?thesis
  proof (cases "\<exists>v. 1 \<le> v \<and> v \<le> 40 \<and> text_fits text Ecc_LOW v")
    case True
    then obtain v where v: "1 \<le> v" "v \<le> 40" "text_fits text Ecc_LOW v" by blast
    obtain t q u e where E: "qrcodegen_encodeText text temp qr Ecc_LOW 1 40 (-1) True = Some (True, t, q)" "wf_grid (u * 4 + 17) q"
        "text_chosen text Ecc_LOW 1 40 True u e" "text_symbol text u e q"
      using encodeText_succeeds [OF args v, of True] by blast
    have "read_symbol q = Some text" using text_symbol_read [OF E(4)] E(3) by (simp add: text_chosen_def)
    moreover obtain b where "render q out = Some b" "length b = length out" "c_string b = picture (u * 4 + 17) (shown q)"
      using draws [OF E(2) assms(3)] by blast
    moreover have "qrcodegen_getSize q = Some (u * 4 + 17)" using getSize_ok [OF E(2)] .
    ultimately show ?thesis using True E(1) by (auto simp: qrcodegen_with_def qrcodegen_VERSION_MIN_def qrcodegen_VERSION_MAX_def)
  next
    case False
    then obtain t q where "qrcodegen_encodeText text temp qr Ecc_LOW 1 40 (-1) True = Some (False, t, q)"
      using encodeText_fails [OF args, of "text" Ecc_LOW True] by blast
    then show ?thesis using False by (simp add: qrcodegen_with_def qrcodegen_VERSION_MIN_def qrcodegen_VERSION_MAX_def)
  qed
qed

end

interpretation full: renderer render_full QRCODEGEN_TEXT_MAX_LEN full_text
  by unfold_locales (rule draws_full)

interpretation compact: renderer render_compact QRCODEGEN_TEXT_COMPACT_MAX_LEN compact_text
  by unfold_locales (rule draws_compact)

section \<open>The program\<close>

lemma parse_args_flags: "\<forall>a \<in> set args. a \<in> set compact_flags \<Longrightarrow> parse_args args compact (Some s) = (compact \<or> args \<noteq> [], Some s)"
  by (induction args arbitrary: compact) auto

lemma parse_args_second: "\<exists>a \<in> set args. a \<notin> set compact_flags \<Longrightarrow> snd (parse_args args compact (Some s)) = None"
  by (induction args arbitrary: compact) auto

lemma parse_args_one:
  assumes "filter (\<lambda>a. a \<notin> set compact_flags) args = [s]"
  shows "parse_args args compact None = (compact \<or> (\<exists>a \<in> set args. a \<in> set compact_flags), Some s)"
  using assms
proof (induction args arbitrary: compact)
  case (Cons a args)
  show ?case
  proof (cases "a \<in> set compact_flags")
    case True
    then show ?thesis using Cons by simp
  next
    case False
    then have "a = s" "\<forall>a \<in> set args. a \<in> set compact_flags" using Cons.prems by (auto simp: filter_empty_conv)
    then show ?thesis using False parse_args_flags [of args compact s] by (cases args) auto
  qed
qed simp

lemma parse_args_other:
  assumes "length (filter (\<lambda>a. a \<notin> set compact_flags) args) \<noteq> 1"
  shows "snd (parse_args args compact None) = None"
  using assms
proof (induction args arbitrary: compact)
  case (Cons a args)
  show ?case
  proof (cases "a \<in> set compact_flags")
    case False
    then have "filter (\<lambda>a. a \<notin> set compact_flags) args \<noteq> []" using Cons.prems by auto
    then have "\<exists>a \<in> set args. a \<notin> set compact_flags" by (simp add: filter_empty_conv)
    then show ?thesis using False parse_args_second by simp
  qed (use Cons in simp)
qed simp

section \<open>Properties\<close>

text \<open>
  \<open>qrcodegen\<close> never writes outside an output buffer of \<open>QRCODEGEN_TEXT_MAX_LEN\<close> bytes.  If some version holds the text, the
  buffer then holds the picture of a symbol that reads back as the text, with its quiet zone, as a C string; otherwise the
  result is \<open>NULL\<close>.
\<close>

lemma qrcodegen_picture:
  assumes "3918 \<le> length temp" "3918 \<le> length qr" "QRCODEGEN_TEXT_MAX_LEN \<le> int (length out)"
  shows "\<exists>r. qrcodegen (Some text) (Some out) temp qr = Some r \<and>
    (if \<exists>v. 1 \<le> v \<and> v \<le> 40 \<and> text_fits text Ecc_LOW v
     then \<exists>b q n. r = Some b \<and> length b = length out \<and> qrcodegen_getSize q = Some n \<and> read_symbol q = Some text \<and> c_string b = full_text n (shown q)
     else r = None)"
  unfolding qrcodegen_def by (rule full.renders_text [OF assms])

text \<open>
  The compact renderer stays within \<open>QRCODEGEN_TEXT_COMPACT_MAX_LEN\<close> bytes, and its table of sixteen cells draws, for each
  block of two by two modules, the two half-block glyphs of its columns.
\<close>

lemma qrcodegen_c_picture:
  assumes "3918 \<le> length temp" "3918 \<le> length qr" "QRCODEGEN_TEXT_COMPACT_MAX_LEN \<le> int (length out)"
  shows "\<exists>r. qrcodegen_c (Some text) (Some out) temp qr = Some r \<and>
    (if \<exists>v. 1 \<le> v \<and> v \<le> 40 \<and> text_fits text Ecc_LOW v
     then \<exists>b q n. r = Some b \<and> length b = length out \<and> qrcodegen_getSize q = Some n \<and> read_symbol q = Some text \<and> c_string b = compact_text n (shown q)
     else r = None)"
  unfolding qrcodegen_c_def by (rule compact.renders_text [OF assms])

text \<open>
  With one argument besides the flags, the program prints the picture of a symbol that reads back as this argument and
  exits with 0, or exits with 1 and the message that the text is too long; with any other number it prints the usage and
  exits with 1.  A flag anywhere selects the compact picture.
\<close>

lemma qrtext_main_result:
  assumes "3918 \<le> length temp" "3918 \<le> length qr"
  shows "case filter (\<lambda>a. a \<notin> set compact_flags) args of
      [s] \<Rightarrow> (if \<exists>v. 1 \<le> v \<and> v \<le> 40 \<and> text_fits s Ecc_LOW v
              then \<exists>q n. qrcodegen_getSize q = Some n \<and> read_symbol q = Some s \<and>
                qrtext_main args temp qr = Some (0, (if \<exists>a \<in> set args. a \<in> set compact_flags then compact_text n (shown q) else full_text n (shown q)), None)
              else qrtext_main args temp qr = Some (1, [], Some Too_Long))
    | _ \<Rightarrow> qrtext_main args temp qr = Some (1, [], Some Usage)"
proof (cases "length (filter (\<lambda>a. a \<notin> set compact_flags) args) = 1")
  case True
  then obtain s where s: "filter (\<lambda>a. a \<notin> set compact_flags) args = [s]" by (cases "filter (\<lambda>a. a \<notin> set compact_flags) args") auto
  let ?c = "\<exists>a \<in> set args. a \<in> set compact_flags"
  have p: "parse_args args False None = (?c, Some s)" using parse_args_one [OF s] by simp
  have room: "QRCODEGEN_TEXT_MAX_LEN \<le> int (length (replicate (nat QRCODEGEN_TEXT_MAX_LEN) (0 :: u8)))"
    "QRCODEGEN_TEXT_COMPACT_MAX_LEN \<le> int (length (replicate (nat QRCODEGEN_TEXT_COMPACT_MAX_LEN) (0 :: u8)))" by simp_all
  obtain r where r: "(if ?c then qrcodegen_c (Some s) (Some (replicate (nat QRCODEGEN_TEXT_COMPACT_MAX_LEN) 0)) temp qr
      else qrcodegen (Some s) (Some (replicate (nat QRCODEGEN_TEXT_MAX_LEN) 0)) temp qr) = Some r"
    "if \<exists>v. 1 \<le> v \<and> v \<le> 40 \<and> text_fits s Ecc_LOW v
     then \<exists>b q n. r = Some b \<and> qrcodegen_getSize q = Some n \<and> read_symbol q = Some s \<and> c_string b = (if ?c then compact_text n (shown q) else full_text n (shown q))
     else r = None"
    using full.renders_text [OF assms room(1), of s] compact.renders_text [OF assms room(2), of s]
    unfolding qrcodegen_def qrcodegen_c_def by (cases ?c) (force split: if_splits)+
  have "(if ?c then print_compact s temp qr else print_full s temp qr) = Some (map_option c_string r)"
    using r(1) by (auto simp: print_compact_def print_full_def split: if_splits)
  then have "qrtext_main args temp qr = Some (case map_option c_string r of None \<Rightarrow> (1, [], Some Too_Long) | Some printed \<Rightarrow> (0, printed, None))"
    unfolding qrtext_main_def p prod.case option.case by simp
  then show ?thesis using r(2) by (auto simp: s split: if_splits)
next
  case False
  obtain c where "parse_args args False None = (c, None)" using parse_args_other [OF False, of False] by (metis prod.collapse)
  then have "qrtext_main args temp qr = Some (1, [], Some Usage)" by (simp add: qrtext_main_def)
  then show ?thesis using False by (auto split: list.splits)
qed

end
