(* ===== verification/Kem_Field.thy ===== *)
theory Kem_Field
  imports Zb_Prelude "HOL-Library.Numeral_Type"
begin

text \<open>
  The prime field of ML-KEM (\<open>namespace ml_kem_field\<close> of \<open>tools/ml_kem_512_single.hpp\<close>).  An object of \<open>zq_t\<close>
  is the 32-bit word it holds; its constructor takes a \<open>uint16_t\<close>, so every result that passes through it is cut
  to 16 bits first.  The routines reduce with word arithmetic (a borrow mask, a Barrett quotient); \<open>zv\<close> reads an
  element in the ring of integers modulo 3329 and the facts below say that every operation computes the ring
  operation and that its result is canonical.
\<close>

named_theorems zq_simps \<open>the element operations read in the ring modulo Q\<close>

section \<open>Constants and reductions\<close>

definition Q :: u32 where
  "Q = push_bit 8 1 * 13 + 1"

definition Q_BIT_WIDTH :: nat where
  "Q_BIT_WIDTH = bit_width (unat Q)"

definition R :: u32 where
  "R = push_bit (2 * Q_BIT_WIDTH) 1 div Q"

type_synonym zq_t = u32

definition reduce_once :: "u32 \<Rightarrow> u32" where
  "reduce_once v =
     (let t0 = v - Q;
          t1 = - drop_bit 31 t0;
          t2 = Q AND t1;
          t3 = t0 + t2
      in t3)"

definition barrett_reduce :: "u32 \<Rightarrow> u32" where
  "barrett_reduce v =
     (let t0 = (ucast v :: u64) * ucast R;
          t1 = (ucast (drop_bit (2 * Q_BIT_WIDTH) t0) :: u32);
          t2 = t1 * Q;
          t = v - t2
      in reduce_once t)"

section \<open>Elements\<close>

definition zq_t :: "u16 \<Rightarrow> zq_t" where
  "zq_t a = ucast a"

definition from_non_reduced :: "u16 \<Rightarrow> zq_t" where
  "from_non_reduced a = zq_t (ucast (barrett_reduce (ucast a)))"

definition zq_add :: "zq_t \<Rightarrow> zq_t \<Rightarrow> zq_t" where
  "zq_add a b = zq_t (ucast (reduce_once (a + b)))"

definition zq_neg :: "zq_t \<Rightarrow> zq_t" where
  "zq_neg a = zq_t (ucast (Q - a))"

definition zq_sub :: "zq_t \<Rightarrow> zq_t \<Rightarrow> zq_t" where
  "zq_sub a b = zq_add a (zq_neg b)"

definition zq_mul :: "zq_t \<Rightarrow> zq_t \<Rightarrow> zq_t" where
  "zq_mul a b = zq_t (ucast (barrett_reduce (a * b)))"

definition zq_pow_step :: "u64 \<Rightarrow> nat \<Rightarrow> zq_t \<times> zq_t \<Rightarrow> zq_t \<times> zq_t" where
  "zq_pow_step n i br =
     (let base = zq_mul (fst br) (fst br)
      in (base, zq_mul (snd br) ([zq_t 1, base] ! unat (drop_bit i n AND 1))))"

definition zq_pow :: "zq_t \<Rightarrow> u64 \<Rightarrow> zq_t" where
  "zq_pow a n =
     (let res = [zq_t 1, a] ! unat (n AND 1);
          zeros = 64 - bit_width (unat n);
          till = 64 - zeros
      in snd (fold (zq_pow_step n) [1..<till] (a, res)))"

definition zq_inv :: "zq_t \<Rightarrow> zq_t" where
  "zq_inv a = zq_pow a (ucast (Q - 2))"

definition zq_div :: "zq_t \<Rightarrow> zq_t \<Rightarrow> zq_t" where
  "zq_div a b = zq_mul a (zq_inv b)"

section \<open>The reductions compute remainders\<close>

lemma Q_val: "Q = 3329"
  by (simp add: Q_def push_bit_of_1)

lemma Q_BIT_WIDTH_val: "Q_BIT_WIDTH = 12"
  by (simp add: Q_BIT_WIDTH_def Q_val bit_width.simps)

lemma R_val: "R = 5039"
  by (simp add: R_def Q_val Q_BIT_WIDTH_val push_bit_of_1)

lemma reduce_once_eq:
  assumes "unat v < 6658"
  shows "reduce_once v = (if unat v < 3329 then v else v - 3329)"
proof (cases "unat v < 3329")
  case True
  then have "unat (v - 3329) = unat v + 4294963967"
    by (simp add: unat_sub_if')
  then have "unat (drop_bit 31 (v - 3329)) = 1"
    using True by (simp add: unat_drop_bit_eq drop_bit_eq_div [where ?'a = nat] div_nat_eqI)
  then have "drop_bit 31 (v - 3329) = 1"
    by (metis unat_1 word_unat_eq_iff)
  then show ?thesis
    using True by (simp add: reduce_once_def Q_val)
next
  case False
  then have "unat (v - 3329) = unat v - 3329"
    by (simp add: unat_sub_if')
  then have "unat (drop_bit 31 (v - 3329)) = 0"
    using assms by (simp add: unat_drop_bit_eq drop_bit_eq_div [where ?'a = nat])
  then have "drop_bit 31 (v - 3329) = 0"
    by (simp add: unat_eq_0)
  then show ?thesis
    using False by (simp add: reduce_once_def Q_val)
qed

lemma reduce_once_mod:
  assumes "unat v < 6658"
  shows "unat (reduce_once v) = unat v mod 3329"
  using assms by (simp add: reduce_once_eq unat_sub_if' mod_if)

text \<open>The Barrett quotient is the true one or one less: the remainder it leaves is below twice the modulus.\<close>

lemma barrett_quotient:
  fixes v :: nat
  assumes "v < 2 ^ 24"
  defines "t \<equiv> v * 5039 div 2 ^ 24"
  shows "t * 3329 \<le> v" "v - t * 3329 < 6658" "t < 5039"
proof -
  have lo: "t * 2 ^ 24 \<le> v * 5039" and hi: "v * 5039 < (t + 1) * 2 ^ 24"
    unfolding t_def by (simp_all add: dividend_less_times_div mult.commute)
  show "t * 3329 \<le> v"
    using lo by simp
  show "v - t * 3329 < 6658"
    using hi assms(1) by simp
  show "t < 5039"
    using lo assms(1) by simp
qed

lemma barrett_quotient_word:
  assumes "unat v < 2 ^ 24"
  shows "unat (ucast (drop_bit 24 ((ucast (v :: u32) :: u64) * 5039)) :: u32) = unat v * 5039 div 2 ^ 24"
proof -
  have "unat ((ucast v :: u64) * 5039) = unat v * 5039"
    using assms by (subst unat_mult_lem [THEN iffD1]) (simp_all add: unat_ucast_up)
  moreover have "unat v * 5039 div 2 ^ 24 < 2 ^ 32"
    using barrett_quotient(3) [OF assms] by simp
  ultimately show ?thesis
    by (simp add: unat_ucast_small unat_drop_bit_eq drop_bit_eq_div [where ?'a = nat])
qed

lemma barrett_reduce_mod:
  assumes "unat v < 2 ^ 24"
  shows "unat (barrett_reduce v) = unat v mod 3329"
proof -
  define t1 where "t1 = (ucast (drop_bit 24 ((ucast v :: u64) * 5039)) :: u32)"
  define t where "t = unat v * 5039 div 2 ^ 24"
  note b = barrett_quotient [OF assms, folded t_def]
  have t1: "unat t1 = t"
    unfolding t1_def t_def using assms by (rule barrett_quotient_word)
  then have m: "unat (t1 * 3329) = t * 3329"
    using b(3) by (subst unat_mult_lem [THEN iffD1]) simp_all
  then have "unat (v - t1 * 3329) = unat v - t * 3329"
    using b(1) by (simp add: unat_sub_if')
  moreover have "barrett_reduce v = reduce_once (v - t1 * 3329)"
    by (simp add: barrett_reduce_def R_val Q_val Q_BIT_WIDTH_val t1_def)
  moreover have "(unat v - t * 3329) mod 3329 = unat v mod 3329"
    using b(1) by (metis le_add_diff_inverse2 mod_mult_self1)
  ultimately show ?thesis
    using b(2) by (simp add: reduce_once_mod)
qed

section \<open>Elements are canonical and operations compute in the ring\<close>

definition canon :: "zq_t \<Rightarrow> bool" where
  "canon a \<longleftrightarrow> a < Q"

definition zv :: "zq_t \<Rightarrow> 3329" where
  "zv a = of_nat (unat a)"

lemma canon_iff: "canon a \<longleftrightarrow> unat a < 3329"
  by (simp add: canon_def Q_val word_less_nat_alt)

lemma of_nat_ring_eq: "(of_nat m :: 3329) = of_nat n \<longleftrightarrow> m mod 3329 = n mod 3329"
proof -
  have "(of_nat k :: 3329) = Abs_bit1 (int (k mod 3329))" for k
    using bit1.of_nat_eq [where ?'a = "1664", of k] by (simp add: zmod_int)
  moreover have "Abs_bit1 (int (m mod 3329)) = (Abs_bit1 (int (n mod 3329)) :: 3329) \<longleftrightarrow> m mod 3329 = n mod 3329"
    by (subst Abs_bit1_inject) simp_all
  ultimately show ?thesis
    by simp
qed

lemma of_nat_mod_ring: "(of_nat (n mod 3329) :: 3329) = of_nat n"
  by (simp add: of_nat_ring_eq)

lemma unat_zq_t: "unat (zq_t a) = unat a"
  by (simp add: zq_t_def unat_ucast_up)

lemma zq_t_ucast:
  assumes "unat (v :: u32) < 65536"
  shows "zq_t (ucast v) = v"
  using assms by (simp add: word_unat_eq_iff unat_zq_t unat_ucast_small)

lemma unat_zq_add:
  assumes "unat a + unat b < 6658"
  shows "unat (zq_add a b) = (unat a + unat b) mod 3329"
proof -
  have "unat (a + b) = unat a + unat b"
    using assms by (subst unat_add_lem [THEN iffD1]) simp_all
  then have "unat (reduce_once (a + b)) = (unat a + unat b) mod 3329"
    using assms by (simp add: reduce_once_mod)
  moreover have "(unat a + unat b) mod 3329 < 65536"
    by (rule less_trans [OF mod_less_divisor]) simp_all
  ultimately show ?thesis
    by (simp add: zq_add_def zq_t_ucast)
qed

lemma unat_zq_mul:
  assumes "unat a \<le> 3329" "unat b \<le> 3329"
  shows "unat (zq_mul a b) = unat a * unat b mod 3329"
proof -
  have le: "unat a * unat b \<le> 3329 * 3329"
    using assms by (rule mult_le_mono)
  then have m: "unat (a * b) = unat a * unat b"
    by (subst unat_mult_lem [THEN iffD1]) simp_all
  then have "unat (barrett_reduce (a * b)) = unat a * unat b mod 3329"
    using le by (simp add: barrett_reduce_mod)
  moreover have "unat a * unat b mod 3329 < 65536"
    by (rule less_trans [OF mod_less_divisor]) simp_all
  ultimately show ?thesis
    by (simp add: zq_mul_def zq_t_ucast)
qed

lemma unat_zq_neg:
  assumes "unat a \<le> 3329"
  shows "unat (zq_neg a) = 3329 - unat a"
proof -
  have "unat (3329 - a) = 3329 - unat a"
    using assms by (simp add: unat_sub_if')
  then show ?thesis
    by (simp add: zq_neg_def Q_val zq_t_ucast)
qed

lemma unat_from_non_reduced: "unat (from_non_reduced a) = unat a mod 3329"
proof -
  have "unat (ucast a :: u32) = unat a"
    by (simp add: unat_ucast_up)
  moreover have "unat a < 65536"
    using unsigned_less [of a, where ?'a = nat] by simp
  ultimately have "unat (barrett_reduce (ucast a)) = unat a mod 3329"
    by (simp add: barrett_reduce_mod)
  moreover have "unat a mod 3329 < 65536"
    by (rule less_trans [OF mod_less_divisor]) simp_all
  ultimately show ?thesis
    by (simp add: from_non_reduced_def zq_t_ucast)
qed

lemma canon_zq_add [simp, intro]: "canon a \<Longrightarrow> canon b \<Longrightarrow> canon (zq_add a b)"
  by (simp add: canon_iff unat_zq_add)

lemma canon_zq_mul [simp, intro]: "canon a \<Longrightarrow> canon b \<Longrightarrow> canon (zq_mul a b)"
  by (simp add: canon_iff unat_zq_mul)

lemma canon_zq_sub [simp, intro]: "canon a \<Longrightarrow> canon b \<Longrightarrow> canon (zq_sub a b)"
  by (simp add: canon_iff zq_sub_def unat_zq_add unat_zq_neg)

lemma canon_from_non_reduced [simp, intro]: "canon (from_non_reduced a)"
  by (simp add: canon_iff unat_from_non_reduced)

lemma canon_0 [simp]: "canon 0" and canon_1 [simp]: "canon 1"
  by (simp_all add: canon_iff)

lemma zv_0 [simp, zq_simps]: "zv 0 = 0" and zv_1 [simp, zq_simps]: "zv 1 = 1"
  by (simp_all add: zv_def)

lemma zv_add [zq_simps]: "canon a \<Longrightarrow> canon b \<Longrightarrow> zv (zq_add a b) = zv a + zv b"
  by (simp add: zv_def canon_iff unat_zq_add of_nat_mod_ring)

lemma zv_mul [zq_simps]: "canon a \<Longrightarrow> canon b \<Longrightarrow> zv (zq_mul a b) = zv a * zv b"
  by (simp add: zv_def canon_iff unat_zq_mul of_nat_mod_ring)

lemma zv_neg: "canon a \<Longrightarrow> zv (zq_neg a) = - zv a"
  by (simp add: zv_def canon_iff unat_zq_neg of_nat_diff)

lemma zv_sub [zq_simps]: "canon a \<Longrightarrow> canon b \<Longrightarrow> zv (zq_sub a b) = zv a - zv b"
  by (simp add: zv_def canon_iff zq_sub_def unat_zq_add unat_zq_neg of_nat_mod_ring of_nat_diff)

lemma zv_inject: "canon a \<Longrightarrow> canon b \<Longrightarrow> zv a = zv b \<longleftrightarrow> a = b"
  unfolding zv_def of_nat_ring_eq by (simp add: canon_iff word_unat_eq_iff)

section \<open>Exponentiation and inverses\<close>

lemma pow_digit: "unat (drop_bit i (n :: u64) AND 1) = of_bool (bit n i)"
  by (simp add: and_one_eq bit_iff_odd_drop_bit odd_iff_mod_2_eq_one even_iff_mod_2_eq_zero)

lemma zq_t_1 [simp]: "zq_t 1 = 1"
  by (simp add: zq_t_def)

lemma pow_loop:
  fixes n :: u64
  assumes "canon a" "0 < k"
  defines "br \<equiv> fold (zq_pow_step n) [1..<k] (a, [zq_t 1, a] ! unat (n AND 1))"
  shows "canon (fst br) \<and> canon (snd br) \<and> zv (fst br) = zv a ^ 2 ^ (k - 1) \<and> zv (snd br) = zv a ^ (unat n mod 2 ^ k)"
  using assms(2) unfolding br_def
proof (induction k rule: nat_induct_non_zero)
  case 1
  have "unat (n AND 1) = unat n mod 2"
    by (simp add: and_one_eq unat_mod_distrib)
  then show ?case
    using assms(1) by (cases "even (unat n)") (simp_all add: odd_iff_mod_2_eq_one)
next
  case (Suc k)
  let ?b = "fold (zq_pow_step n) [1..<k] (a, [zq_t 1, a] ! unat (n AND 1))"
  have "unat n mod 2 ^ Suc k = unat n mod 2 ^ k + of_bool (bit n k) * 2 ^ k"
    using take_bit_Suc_from_most [of k "unat n"] by (simp add: take_bit_eq_mod bit_unsigned_iff)
  moreover have "zv a ^ 2 ^ (k - 1) * zv a ^ 2 ^ (k - 1) = zv a ^ 2 ^ k"
    using Suc.hyps by (cases k) (simp_all flip: power_add mult_2)
  ultimately show ?case
    using Suc assms(1) by (simp add: zq_pow_step_def Let_def pow_digit zv_mul power_add)
qed

lemma zq_pow_ring:
  assumes "canon a"
  shows "canon (zq_pow a n)" and "zv (zq_pow a n) = zv a ^ unat n"
proof -
  have w: "bit_width (unat n) \<le> 64"
    using unsigned_less [of n, where ?'a = nat] by (intro bit_width_le) simp
  have "canon (zq_pow a n) \<and> zv (zq_pow a n) = zv a ^ unat n"
  proof (cases "n = 0")
    case False
    then have "0 < bit_width (unat n)"
      by (subst bit_width.simps) (simp add: unat_eq_0)
    from pow_loop [OF assms this, of n] w show ?thesis
      by (simp add: zq_pow_def Let_def less_bit_width)
  qed (simp add: zq_pow_def bit_width.simps)
  then show "canon (zq_pow a n)" "zv (zq_pow a n) = zv a ^ unat n"
    by simp_all
qed

text \<open>3329 is prime, so its ring of residues is a field and \<open>x\<close> to the power \<open>Q - 2\<close> is the inverse of \<open>x\<close>.\<close>

lemma divisor_3329:
  fixes d :: int
  assumes "0 < d" "d dvd 3329"
  shows "d = 1 \<or> d = 3329"
proof -
  obtain e where e: "3329 = d * e"
    using assms(2) by (rule dvdE)
  then have "0 < e"
    using assms(1) by (metis zero_less_mult_pos zero_less_numeral)
  have "list_all (\<lambda>f :: int. f dvd 3329 \<longrightarrow> f = 1) [1..57]"
    by code_simp
  then have small: "0 < f \<Longrightarrow> f < 58 \<Longrightarrow> f dvd 3329 \<Longrightarrow> f = 1" for f :: int
    by (simp add: list_all_iff)
  have "d < 58 \<or> e < 58"
  proof (rule ccontr)
    assume "\<not> (d < 58 \<or> e < 58)"
    then have "58 * 58 \<le> d * e"
      by (intro mult_mono) simp_all
    with e show False
      by simp
  qed
  moreover have "e dvd 3329"
    using e by (metis dvd_triv_right)
  ultimately show ?thesis
    using small [of d] small [of e] assms e \<open>0 < e\<close> by auto
qed

lemma ring_inverse_exists:
  fixes x :: 3329
  assumes "x \<noteq> 0"
  shows "\<exists>y. x * y = 1"
proof -
  obtain z where z: "x = of_int z" "0 \<le> z" "z < 3329"
    by (cases x) simp
  have "z \<noteq> 0"
    using assms z by auto
  have "gcd z 3329 \<le> z"
    using z \<open>z \<noteq> 0\<close> by (intro zdvd_imp_le) simp_all
  moreover have "0 < gcd z 3329"
    by simp
  ultimately have g: "gcd z 3329 = 1"
    using divisor_3329 [of "gcd z 3329"] z by auto
  obtain u v where "u * z + v * 3329 = 1"
    using bezout_int [of z 3329] unfolding g by blast
  then have "of_int (u * z + v * 3329) = (1 :: 3329)"
    by (simp only: of_int_1)
  moreover have "of_int 3329 = (0 :: 3329)"
    using of_nat_ring_eq [of 3329 0] by simp
  ultimately have "of_int u * x = 1"
    unfolding of_int_add of_int_mult z(1) by (simp only: mult_zero_right add_0_right)
  then show ?thesis
    by (metis mult.commute)
qed

lemma ring_cancel:
  fixes a b c :: 3329
  assumes "c * a = c * b" "c \<noteq> 0"
  shows "a = b"
proof -
  obtain d where d: "c * d = 1"
    using ring_inverse_exists [OF assms(2)] by blast
  have "a = (c * d) * a"
    unfolding d by (rule mult_1 [symmetric])
  also have "\<dots> = d * (c * b)"
    unfolding assms(1) [symmetric] by (simp only: ac_simps)
  also have "\<dots> = (c * d) * b"
    by (simp only: ac_simps)
  finally show ?thesis
    unfolding d by (simp only: mult_1)
qed

lemma ring_fermat:
  fixes x :: 3329
  assumes "x \<noteq> 0"
  shows "x ^ 3328 = 1"
proof -
  let ?S = "UNIV - {0 :: 3329}"
  have inj: "inj_on ((*) x) ?S"
    by (rule inj_onI) (rule ring_cancel [OF _ assms])
  moreover have "(*) x ` ?S \<subseteq> ?S"
    using ring_cancel [of x _ 0] assms by auto
  ultimately have img: "(*) x ` ?S = ?S"
    by (intro endo_inj_surj) simp_all
  have unit: "\<exists>y. prod (\<lambda>a. a) F * y = (1 :: 3329)" if "finite F" "F \<subseteq> ?S" for F
    using that
  proof (induction F rule: finite_induct)
    case (insert a F)
    then obtain y z where "prod (\<lambda>a. a) F * y = 1" "a * z = 1"
      using ring_inverse_exists [of a] by auto
    then have "(a * z) * (prod (\<lambda>a. a) F * y) = 1"
      by (simp only: mult_1)
    then have "(a * prod (\<lambda>a. a) F) * (z * y) = 1"
      by (simp only: ac_simps)
    with insert.hyps show ?case
      by auto
  qed simp
  have "finite ?S"
    by simp
  from unit [OF this subset_refl] obtain y where y: "prod (\<lambda>a. a) ?S * y = 1" ..
  have "prod (\<lambda>a. a) ?S = prod (\<lambda>a. a) ((*) x ` ?S)"
    by (simp add: img)
  also have "\<dots> = x ^ card ?S * prod (\<lambda>a. a) ?S"
    by (subst prod.reindex [OF inj]) (simp add: prod.distrib)
  finally have e: "x ^ card ?S * prod (\<lambda>a. a) ?S = prod (\<lambda>a. a) ?S" ..
  have "x ^ card ?S * (prod (\<lambda>a. a) ?S * y) = (x ^ card ?S * prod (\<lambda>a. a) ?S) * y"
    by (simp only: mult.assoc)
  then have "x ^ card ?S * (prod (\<lambda>a. a) ?S * y) = prod (\<lambda>a. a) ?S * y"
    unfolding e .
  then show ?thesis
    by (simp add: y card_Diff_singleton)
qed

lemma zq_inv_ring:
  assumes "canon a"
  shows "canon (zq_inv a)" and "a \<noteq> 0 \<Longrightarrow> zv a * zv (zq_inv a) = 1"
proof -
  show "canon (zq_inv a)"
    unfolding zq_inv_def using assms by (rule zq_pow_ring)
  assume "a \<noteq> 0"
  then have "zv a \<noteq> 0"
    using zv_inject [OF assms, of 0] by simp
  then have "zv a ^ Suc 3327 = 1"
    using ring_fermat by simp
  moreover have "zv (zq_inv a) = zv a ^ 3327"
    by (simp add: zq_inv_def zq_pow_ring [OF assms] Q_val)
  ultimately show "zv a * zv (zq_inv a) = 1"
    by (simp only: power_Suc)
qed

section \<open>The contract of the element operations\<close>

text \<open>
  What the transforms and the schemes use of the element operations: on canonical elements they are the operations
  of a commutative ring, and a canonical element is determined by its residue.
\<close>

locale ring_elements =
  fixes ok :: "'e \<Rightarrow> bool" and val :: "'e \<Rightarrow> 'r::comm_ring_1"
    and plus minus times :: "'e \<Rightarrow> 'e \<Rightarrow> 'e"
  assumes ok_plus: "ok a \<Longrightarrow> ok b \<Longrightarrow> ok (plus a b)"
    and ok_minus: "ok a \<Longrightarrow> ok b \<Longrightarrow> ok (minus a b)"
    and ok_times: "ok a \<Longrightarrow> ok b \<Longrightarrow> ok (times a b)"
    and val_plus: "ok a \<Longrightarrow> ok b \<Longrightarrow> val (plus a b) = val a + val b"
    and val_minus: "ok a \<Longrightarrow> ok b \<Longrightarrow> val (minus a b) = val a - val b"
    and val_times: "ok a \<Longrightarrow> ok b \<Longrightarrow> val (times a b) = val a * val b"
    and val_inject: "ok a \<Longrightarrow> ok b \<Longrightarrow> val a = val b \<longleftrightarrow> a = b"
begin

lemmas ok_ops = ok_plus ok_minus ok_times
lemmas val_ops = val_plus val_minus val_times

lemma eqI: "ok a \<Longrightarrow> ok b \<Longrightarrow> val a = val b \<Longrightarrow> a = b"
  by (simp add: val_inject)

text \<open>A decimation-in-time butterfly followed by the matching decimation-in-frequency one doubles both elements.\<close>

lemma butterfly_undo:
  assumes "ok a" "ok b" "ok z" "ok z'" "val z' * val z = 1"
  defines "t \<equiv> times z b"
  defines "hi \<equiv> plus a t" and "lo \<equiv> minus a t"
  shows "plus hi lo = plus a a" and "times (minus hi lo) z' = plus b b"
proof -
  have "val ((times (minus hi lo) z')) = val (plus b b)"
    using assms(1-4) assms(5) [THEN arg_cong, of "\<lambda>x. x * (val b + val b)"]
    by (simp add: hi_def lo_def t_def ok_ops val_ops algebra_simps)
  then show "times (minus hi lo) z' = plus b b"
    using assms(1-4) by (intro eqI) (simp_all add: hi_def lo_def t_def ok_ops)
  show "plus hi lo = plus a a"
    using assms(1-4) by (intro eqI) (simp_all add: hi_def lo_def t_def ok_ops val_ops)
qed

end

interpretation zq: ring_elements canon zv zq_add zq_sub zq_mul
  by unfold_locales (simp_all add: zq_simps zv_inject canon_zq_add canon_zq_sub canon_zq_mul)

section \<open>Properties\<close>

text \<open>
  C34: on canonical elements the operations of \<open>zq_t\<close> compute in the field of 3329 elements and their results are
  canonical; dividing and multiplying back gives the dividend.  Only unary minus leaves the range: the negative of 0
  is stored as 3329.\<close>

theorem zq_field:
  assumes "canon a" "canon b"
  shows "unat (zq_add a b) = (unat a + unat b) mod 3329 \<and> unat (zq_sub a b) = (unat a + 3329 - unat b) mod 3329 \<and>
    unat (zq_mul a b) = unat a * unat b mod 3329 \<and> zq_mul (zq_div a b) b = (if b = 0 then 0 else a) \<and>
    unat (zq_neg a) = 3329 - unat a"
proof (intro conjI)
  have le: "unat a \<le> 3329" "unat b \<le> 3329" "unat a < 3329" "unat b < 3329"
    using assms by (simp_all add: canon_iff)
  show "unat (zq_add a b) = (unat a + unat b) mod 3329" "unat (zq_mul a b) = unat a * unat b mod 3329"
    "unat (zq_neg a) = 3329 - unat a"
    using le by (simp_all add: unat_zq_add unat_zq_mul unat_zq_neg)
  show "unat (zq_sub a b) = (unat a + 3329 - unat b) mod 3329"
    using le by (simp add: zq_sub_def unat_zq_add unat_zq_neg)
  note i = zq_inv_ring [OF assms(2)]
  have c: "canon (zq_mul (zq_div a b) b)"
    using assms i(1) by (simp add: zq_div_def)
  have z: "zv (zq_mul (zq_div a b) b) = zv a * (zv b * zv (zq_inv b))"
    using assms i(1) by (simp add: zq_div_def zv_mul mult_ac)
  show "zq_mul (zq_div a b) b = (if b = 0 then 0 else a)"
    using zv_inject [OF c, of "if b = 0 then 0 else a"] z i(2) assms by (cases "b = 0") simp_all
qed

theorem zq_field_witness:
  "zq_add 3000 1000 = 671 \<and> unat (zq_neg 0) = 3329 \<and> zq_mul (zq_div 2 3) 3 = 2"
  using zq_field [of 3000 1000] zq_field [of 0 1] zq_field [of 2 3] by (simp add: canon_iff word_unat_eq_iff)

end
