(* ===== verification/Kem_Ntt.thy ===== *)
theory Kem_Ntt
  imports Kem_Field
begin

text \<open>
  The number theoretic transform (\<open>namespace ml_kem_ntt\<close> of \<open>tools/ml_kem_512_single.hpp\<close>).  A polynomial is the
  list of its 256 coefficients; the transforms update it in place, two coefficients at a time, as the loops of
  \<open>ntt\<close> and \<open>intt\<close> do.  The facts below describe what a layer of butterflies leaves at every index, and from that
  the two transforms undo each other.
\<close>

section \<open>Tables\<close>

definition LOG2N :: nat where
  "LOG2N = 8"

definition N :: nat where
  "N = push_bit LOG2N 1"

definition zeta :: zq_t where
  "zeta = zq_t 17"

definition INV_N :: zq_t where
  "INV_N = zq_inv (zq_t (of_nat (N div 2)))"

definition bit_rev :: "nat \<Rightarrow> u64 \<Rightarrow> u64" where
  "bit_rev mbw v = fold (\<lambda>i v_rev. v_rev XOR push_bit (mbw - 1 - i) (drop_bit i v AND 1)) [0..<mbw] 0"

definition NTT_zeta_EXP :: "zq_t list" where
  "NTT_zeta_EXP = map (\<lambda>i. zq_pow zeta (bit_rev (LOG2N - 1) (of_nat i))) [0..<N div 2]"

definition INTT_zeta_EXP :: "zq_t list" where
  "INTT_zeta_EXP = map (\<lambda>i. zq_neg (NTT_zeta_EXP ! i)) [0..<N div 2]"

definition POLY_MUL_zeta_EXP :: "zq_t list" where
  "POLY_MUL_zeta_EXP = map (\<lambda>i. zq_pow zeta (push_bit 1 (bit_rev (LOG2N - 1) (of_nat i)) XOR 1)) [0..<N div 2]"

section \<open>Transforms\<close>

type_synonym poly = "zq_t list"

definition ntt_butterfly :: "zq_t \<Rightarrow> nat \<Rightarrow> nat \<Rightarrow> poly \<Rightarrow> poly" where
  "ntt_butterfly zeta_exp len i p =
     (let tmp = zq_mul zeta_exp (p ! (i + len));
          p1 = p[i + len := zq_sub (p ! i) tmp]
      in p1[i := zq_add (p1 ! i) tmp])"

definition ntt_layer :: "nat \<Rightarrow> poly \<Rightarrow> poly" where
  "ntt_layer l poly =
     (let len = push_bit l 1;
          lenx2 = push_bit 1 len;
          k_beg = drop_bit (l + 1) N
      in fold (\<lambda>start p.
            let k_now = k_beg + drop_bit (l + 1) start
            in fold (ntt_butterfly (NTT_zeta_EXP ! k_now) len) [start..<start + len] p)
          (steps 0 N lenx2) poly)"

definition ntt :: "poly \<Rightarrow> poly" where
  "ntt poly = fold ntt_layer (rev [1..<LOG2N]) poly"

definition intt_butterfly :: "zq_t \<Rightarrow> nat \<Rightarrow> nat \<Rightarrow> poly \<Rightarrow> poly" where
  "intt_butterfly neg_zeta_exp len i p =
     (let tmp = p ! i;
          p1 = p[i := zq_add (p ! i) (p ! (i + len))];
          p2 = p1[i + len := zq_sub tmp (p1 ! (i + len))]
      in p2[i + len := zq_mul (p2 ! (i + len)) neg_zeta_exp])"

definition intt_layer :: "nat \<Rightarrow> poly \<Rightarrow> poly" where
  "intt_layer l poly =
     (let len = push_bit l 1;
          lenx2 = push_bit 1 len;
          k_beg = drop_bit l N - 1
      in fold (\<lambda>start p.
            let k_now = k_beg - drop_bit (l + 1) start
            in fold (intt_butterfly (INTT_zeta_EXP ! k_now) len) [start..<start + len] p)
          (steps 0 N lenx2) poly)"

definition intt :: "poly \<Rightarrow> poly" where
  "intt poly = fold (\<lambda>i p. p[i := zq_mul (p ! i) INV_N]) [0..<N] (fold intt_layer [1..<LOG2N] poly)"

definition basemul :: "zq_t list \<Rightarrow> zq_t list \<Rightarrow> zq_t \<Rightarrow> zq_t list" where
  "basemul f g z =
     (let f0 = zq_mul (f ! 0) (g ! 0);
          f1 = zq_mul (f ! 1) (g ! 1);
          f1 = zq_mul f1 z;
          f1 = zq_add f1 f0;
          g1 = zq_mul (g ! 1) (f ! 0);
          g0 = zq_mul (g ! 0) (f ! 1);
          g1 = zq_add g1 g0
      in [f1, g1])"

text \<open>\<open>polymul\<close> writes the pair of \<open>h\<close> at \<open>2 * i\<close> for every \<open>i\<close>: the pairs one after the other are \<open>h\<close>.\<close>

definition polymul :: "poly \<Rightarrow> poly \<Rightarrow> poly" where
  "polymul f g =
     concat (map (\<lambda>i. let off = i * 2
                      in basemul (take 2 (drop off f)) (take 2 (drop off g)) (POLY_MUL_zeta_EXP ! i))
       [0..<length f div 2])"

section \<open>Bit reversal\<close>

text \<open>The number whose binary digits are the \<open>m\<close> lowest digits of \<open>n\<close> in reverse order.\<close>

fun brv :: "nat \<Rightarrow> nat \<Rightarrow> nat" where
  "brv 0 n = 0"
| "brv (Suc m) n = of_bool (odd n) * 2 ^ m + brv m (n div 2)"

lemma brv_less: "brv m n < 2 ^ m"
proof (induction m arbitrary: n)
  case (Suc m)
  from this [of "n div 2"] show ?case
    by simp
qed simp

lemma bit_brv: "bit (brv m n) j \<longleftrightarrow> j < m \<and> bit n (m - 1 - j)"
proof (induction m arbitrary: n j)
  case (Suc m)
  have above: "\<not> bit (brv m (n div 2)) i" if "m \<le> i" for i
    using that by (subst Suc.IH) simp
  have "of_bool (odd n) * 2 ^ m + brv m (n div 2) = of_bool (odd n) * 2 ^ m OR brv m (n div 2)"
    using above by (intro disjunctive_add) (auto simp: bit_simps)
  then have "bit (brv (Suc m) n) j \<longleftrightarrow> odd n \<and> j = m \<or> bit (brv m (n div 2)) j"
    by (auto simp: bit_simps)
  also have "\<dots> \<longleftrightarrow> odd n \<and> j = m \<or> j < m \<and> bit n (Suc (m - 1 - j))"
    by (subst Suc.IH) (simp add: bit_Suc)
  also have "\<dots> \<longleftrightarrow> j < Suc m \<and> bit n (Suc m - 1 - j)"
    by (cases "j = m") (auto simp: bit_0 Suc_diff_Suc)
  finally show ?case .
qed simp

lemma bit_rev_loop:
  assumes "k \<le> m" "m \<le> 64"
  shows "bit (fold (\<lambda>i r. r XOR push_bit (m - 1 - i) (drop_bit i (v :: u64) AND 1)) [0..<k] 0) j
     \<longleftrightarrow> j < m \<and> m - 1 - j < k \<and> bit v (m - 1 - j)"
  using assms(1)
proof (induction k)
  case (Suc k)
  have "bit (push_bit (m - 1 - k) (drop_bit k v AND 1)) j \<longleftrightarrow> j = m - 1 - k \<and> bit v k"
    using Suc.prems assms(2) by (auto simp: bit_simps bit_1_iff)
  moreover have "j < m \<and> m - 1 - j < Suc k \<longleftrightarrow> j < m \<and> m - 1 - j < k \<or> j = m - 1 - k"
    using Suc.prems by auto
  ultimately show ?case
    using Suc by (auto simp: bit_xor_iff simp del: One_nat_def)
qed simp

lemma unat_bit_rev:
  assumes "m \<le> 64"
  shows "unat (bit_rev m v) = brv m (unat v)"
proof (rule bit_eqI)
  fix j
  show "bit (unat (bit_rev m v)) j \<longleftrightarrow> bit (brv m (unat v)) j"
    unfolding bit_unsigned_iff bit_rev_def bit_rev_loop [OF order_refl assms] bit_brv
    using assms by auto
qed

lemma brv_even: "brv (Suc m) (2 * k) = brv m k" and brv_odd: "brv (Suc m) (Suc (2 * k)) = 2 ^ m + brv m k"
  by simp_all

lemma brv_low: "k < 2 ^ m \<Longrightarrow> brv (Suc m) k = 2 * brv m k"
proof (induction m arbitrary: k)
  case (Suc m)
  then have "brv (Suc m) (k div 2) = 2 * brv m (k div 2)"
    by (intro Suc.IH) simp
  then show ?case
    by (subst brv.simps) simp
qed simp

lemma brv_high: "k < 2 ^ m \<Longrightarrow> brv (Suc m) (2 ^ m + k) = 2 * brv m k + 1"
proof (induction m arbitrary: k)
  case (Suc m)
  then have "brv (Suc m) (2 ^ m + k div 2) = 2 * brv m (k div 2) + 1"
    by (intro Suc.IH) simp
  then show ?case
    by (subst brv.simps) simp
qed simp

lemma brv_mirror: "k < 2 ^ m \<Longrightarrow> brv m k + brv m (2 ^ m - 1 - k) = 2 ^ m - 1"
proof (induction m arbitrary: k)
  case (Suc m)
  then have "k div 2 < 2 ^ m"
    by simp
  moreover have "(2 ^ Suc m - 1 - k) div 2 = 2 ^ m - 1 - k div 2"
    by (cases "even k") (auto elim!: evenE oddE)
  moreover have "odd (2 ^ Suc m - 1 - k) \<longleftrightarrow> even k"
    using Suc.prems by simp
  ultimately have "brv (Suc m) k + brv (Suc m) (2 ^ Suc m - 1 - k) = 2 ^ m + (brv m (k div 2) + brv m (2 ^ m - 1 - k div 2))"
    by (cases "even k") (simp_all only: brv.simps, simp_all)
  also have "\<dots> = 2 ^ m + (2 ^ m - 1)"
    using \<open>k div 2 < 2 ^ m\<close> by (simp only: Suc.IH)
  also have "\<dots> = 2 ^ Suc m - 1"
    by simp
  finally show ?case .
qed simp

lemma brv_shift: "k < 2 ^ m \<Longrightarrow> brv (m + d) k = 2 ^ d * brv m k"
proof (induction d)
  case (Suc d)
  moreover have "k < 2 ^ (m + d)"
    using Suc.prems by (meson le_add1 less_le_trans one_le_numeral power_increasing)
  ultimately show ?case
    by (simp add: brv_low del: brv.simps)
qed simp

section \<open>The tables hold powers of the root\<close>

lemma N_val: "N = 256"
  by (simp add: N_def LOG2N_def)

lemma root_half: "(17 :: 3329) ^ 128 = - 1"
proof -
  have q: "(17 :: 3329) ^ 4 = 296" "(296 :: 3329) ^ 4 = 2642" "(2642 :: 3329) ^ 4 = 1729" "(1729 :: 3329) ^ 2 = - 1"
    by simp_all
  have "(17 :: 3329) ^ 128 = (((17 ^ 4) ^ 4) ^ 4) ^ 2"
    by (simp flip: power_mult)
  then show ?thesis
    by (simp only: q)
qed

lemma zv_zeta: "canon zeta" "zv zeta = 17"
  by (simp_all add: zeta_def zq_t_def canon_iff zv_def)

lemma zeta_power:
  "canon (zq_pow zeta w)" "zv (zq_pow zeta w) = 17 ^ unat w"
  using zq_pow_ring [OF zv_zeta(1)] by (simp_all add: zv_zeta)

lemma ntt_table:
  assumes "k < 128"
  shows "canon (NTT_zeta_EXP ! k)" and "zv (NTT_zeta_EXP ! k) = 17 ^ brv 7 k"
  using assms
  by (simp_all add: NTT_zeta_EXP_def N_val LOG2N_def zeta_power unat_bit_rev unsigned_of_nat take_bit_nat_eq_self
      del: brv.simps)

lemma zeta_nonzero: "(17 :: 3329) ^ k \<noteq> 0"
proof
  assume "(17 :: 3329) ^ k = 0"
  then have "(17 ^ k) ^ 128 = (0 :: 3329)"
    by simp
  moreover have "(17 ^ k) ^ 128 = ((- 1) ^ k :: 3329)"
    unfolding power_mult [symmetric] mult.commute [of k] power_mult root_half ..
  ultimately show False
    by (cases "even k") simp_all
qed

lemma intt_table:
  assumes "k < 128"
  shows "canon (INTT_zeta_EXP ! k)" and "zv (INTT_zeta_EXP ! k) = - (17 ^ brv 7 k)"
proof -
  note n = ntt_table [OF assms]
  have e: "INTT_zeta_EXP ! k = zq_neg (NTT_zeta_EXP ! k)"
    using assms by (simp add: INTT_zeta_EXP_def N_val)
  have "NTT_zeta_EXP ! k \<noteq> 0"
    using n zeta_nonzero zv_0 by metis
  then have "0 < unat (NTT_zeta_EXP ! k)"
    by (simp add: unat_gt_0)
  then show "canon (INTT_zeta_EXP ! k)"
    using n(1) unfolding e by (simp add: canon_iff unat_zq_neg)
  show "zv (INTT_zeta_EXP ! k) = - (17 ^ brv 7 k)"
    using n unfolding e by (simp add: zv_neg)
qed

lemma polymul_table:
  assumes "i < 128"
  shows "canon (POLY_MUL_zeta_EXP ! i)" and "zv (POLY_MUL_zeta_EXP ! i) = 17 ^ (2 * brv 7 i + 1)"
proof -
  have "unat (push_bit 1 (bit_rev 7 (of_nat i)) XOR 1 :: u64) = 2 * brv 7 i + 1"
  proof -
    have "unat (bit_rev 7 (of_nat i)) = brv 7 i"
      using assms by (simp add: unat_bit_rev unsigned_of_nat take_bit_nat_eq_self del: brv.simps)
    moreover have "brv 7 i < 128"
      using brv_less [of 7 i] by simp
    moreover have "push_bit 1 (bit_rev 7 (of_nat i)) XOR 1 = 2 * bit_rev 7 (of_nat i) + (1 :: u64)"
      by (simp add: xor_one_eq push_bit_eq_mult mult.commute)
    ultimately show ?thesis
      by (simp add: unat_word_ariths del: brv.simps)
  qed
  moreover have "POLY_MUL_zeta_EXP ! i = zq_pow zeta (push_bit 1 (bit_rev 7 (of_nat i)) XOR 1)"
    using assms by (simp add: POLY_MUL_zeta_EXP_def N_val LOG2N_def)
  ultimately show "canon (POLY_MUL_zeta_EXP ! i)" "zv (POLY_MUL_zeta_EXP ! i) = 17 ^ (2 * brv 7 i + 1)"
    by (simp_all only: zeta_power)
qed

text \<open>The constants the two transforms use for the same block are inverse to each other.\<close>

lemma tables_inverse:
  assumes "m < 7" "b < 2 ^ m"
  shows "zv (INTT_zeta_EXP ! (2 ^ Suc m - 1 - b)) * zv (NTT_zeta_EXP ! (2 ^ m + b)) = 1"
proof -
  let ?c = "2 ^ m - 1 - b"
  have c: "2 ^ Suc m - 1 - b = 2 ^ m + ?c" "?c < 2 ^ m"
    using assms(2) by simp_all
  have top: "brv 7 (2 ^ m + k) = 2 ^ (6 - m) * (2 * brv m k + 1)" if "k < 2 ^ m" for k
    using that assms(1) brv_shift [of "2 ^ m + k" "Suc m" "6 - m"] brv_high [OF that] by simp
  have "brv 7 (2 ^ m + ?c) + brv 7 (2 ^ m + b) = 2 ^ (6 - m) * (2 * (brv m b + brv m ?c) + 2)"
    using c assms(2) by (simp only: top) (simp add: algebra_simps)
  also have "2 * (brv m b + brv m ?c) + 2 = 2 ^ Suc m"
    unfolding brv_mirror [OF assms(2)] using assms(2) by (simp add: right_diff_distrib' Nat.diff_add_assoc2)
  also have "2 ^ (6 - m) * 2 ^ Suc m = (128 :: nat)"
    using assms(1) by (simp flip: power_add power_Suc)
  finally have s: "brv 7 (2 ^ m + ?c) + brv 7 (2 ^ m + b) = 128" .
  have "2 ^ Suc m \<le> (2 :: nat) ^ 7"
    using assms(1) by (intro power_increasing) simp_all
  then have "2 ^ m + ?c < 128" "2 ^ m + b < 128"
    using c assms(2) by simp_all
  then have "zv (INTT_zeta_EXP ! (2 ^ m + ?c)) * zv (NTT_zeta_EXP ! (2 ^ m + b))
      = - (17 ^ (brv 7 (2 ^ m + ?c) + brv 7 (2 ^ m + b)))"
    by (simp add: intt_table ntt_table power_add del: brv.simps)
  then show ?thesis
    unfolding c(1) s root_half by simp
qed

section \<open>What a layer of butterflies leaves\<close>

text \<open>A butterfly replaces the elements at \<open>i\<close> and \<open>i + len\<close> by the two halves of \<open>g\<close>.\<close>

definition butterfly :: "('a \<Rightarrow> 'a \<Rightarrow> 'a \<times> 'a) \<Rightarrow> nat \<Rightarrow> nat \<Rightarrow> 'a list \<Rightarrow> 'a list" where
  "butterfly g len i p = p[i := fst (g (p ! i) (p ! (i + len))), i + len := snd (g (p ! i) (p ! (i + len)))]"

lemma length_butterflies [simp]: "length (fold (butterfly g len) is p) = length p"
  by (induction "is" arbitrary: p) (simp_all add: butterfly_def)

lemma butterflies_nth:
  assumes "m \<le> len" "s + m + len \<le> length p" "j < length p"
  shows "fold (butterfly g len) [s..<s + m] p ! j =
    (if s \<le> j \<and> j < s + m then fst (g (p ! j) (p ! (j + len)))
     else if s + len \<le> j \<and> j < s + len + m then snd (g (p ! (j - len)) (p ! j))
     else p ! j)"
  using assms
proof (induction m arbitrary: j)
  case (Suc m)
  let ?q = "fold (butterfly g len) [s..<s + m] p"
  have step: "fold (butterfly g len) [s..<s + Suc m] p = butterfly g len (s + m) ?q"
    by simp
  note b = butterfly_def [of g len "s + m" ?q]
  have at: "?q ! (s + m) = p ! (s + m)" "?q ! (s + m + len) = p ! (s + m + len)"
    using Suc.prems by (simp_all add: Suc.IH)
  have q: "?q ! j = (if s \<le> j \<and> j < s + m then fst (g (p ! j) (p ! (j + len)))
     else if s + len \<le> j \<and> j < s + len + m then snd (g (p ! (j - len)) (p ! j)) else p ! j)"
    using Suc.prems by (simp add: Suc.IH)
  consider "j = s + m" | "j = s + m + len" | "j \<noteq> s + m" "j \<noteq> s + m + len"
    by blast
  then show ?case
  proof cases
    case 1
    then show ?thesis
      using Suc.prems unfolding step b by (simp add: at nth_list_update)
  next
    case 2
    then show ?thesis
      using Suc.prems unfolding step b by (simp add: at nth_list_update)
  next
    case 3
    then have "j < s + Suc m \<longleftrightarrow> j < s + m" "j < s + len + Suc m \<longleftrightarrow> j < s + len + m"
      by auto
    with 3 show ?thesis
      using q unfolding step b by simp
  qed
qed auto

lemma length_blocks [simp]: "length (fold (\<lambda>b. fold (butterfly (g b) len) [b * (2 * len)..<b * (2 * len) + len]) bs p) = length p"
  by (induction bs arbitrary: p) simp_all

text \<open>A layer pairs the elements of the two halves of every block of \<open>2 * len\<close> elements.\<close>

lemma blocks_nth:
  assumes "0 < len" "n * (2 * len) \<le> length p" "j < n * (2 * len)"
  shows "fold (\<lambda>b. fold (butterfly (g b) len) [b * (2 * len)..<b * (2 * len) + len]) [0..<n] p ! j =
    (if j mod (2 * len) < len then fst (g (j div (2 * len)) (p ! j) (p ! (j + len)))
     else snd (g (j div (2 * len)) (p ! (j - len)) (p ! j)))"
proof -
  let ?f = "\<lambda>n. fold (\<lambda>b. fold (butterfly (g b) len) [b * (2 * len)..<b * (2 * len) + len]) [0..<n] p"
  have "j < length p \<Longrightarrow> ?f n ! j = (if j < n * (2 * len) then
      (if j mod (2 * len) < len then fst (g (j div (2 * len)) (p ! j) (p ! (j + len)))
       else snd (g (j div (2 * len)) (p ! (j - len)) (p ! j))) else p ! j)" for j
    using assms(2)
  proof (induction n arbitrary: j)
    case (Suc n)
    let ?s = "n * (2 * len)"
    have IH: "j < length p \<Longrightarrow> ?f n ! j = (if j < ?s then
      (if j mod (2 * len) < len then fst (g (j div (2 * len)) (p ! j) (p ! (j + len)))
       else snd (g (j div (2 * len)) (p ! (j - len)) (p ! j))) else p ! j)" for j
      using Suc by simp
    have step: "?f (Suc n) ! j = (if ?s \<le> j \<and> j < ?s + len then fst (g n (?f n ! j) (?f n ! (j + len)))
       else if ?s + len \<le> j \<and> j < ?s + len + len then snd (g n (?f n ! (j - len)) (?f n ! j)) else ?f n ! j)"
      using Suc.prems by (simp add: butterflies_nth)
    consider "j < ?s" | k where "j = ?s + k" "k < len" | k where "j = ?s + len + k" "k < len" | "Suc n * (2 * len) \<le> j"
    proof -
      assume a: "j < ?s \<Longrightarrow> thesis" "\<And>k. j = ?s + k \<Longrightarrow> k < len \<Longrightarrow> thesis"
        "\<And>k. j = ?s + len + k \<Longrightarrow> k < len \<Longrightarrow> thesis" "Suc n * (2 * len) \<le> j \<Longrightarrow> thesis"
      show thesis
        using a(1) a(2) [of "j - ?s"] a(3) [of "j - ?s - len"] a(4) by force
    qed
    then show ?case
    proof cases
      case 2
      then show ?thesis
        using step Suc.prems IH [of j] IH [of "j + len"] by simp
    next
      case 3
      moreover have "(?s + len + k) div (2 * len) = n" "(?s + len + k) mod (2 * len) = len + k"
        using 3 assms(1) by (simp_all add: add.assoc)
      ultimately show ?thesis
        using step Suc.prems IH [of j] IH [of "j - len"] by simp
    qed (use step Suc.prems IH [of j] in simp_all)
  qed simp
  from this [of j] show ?thesis
    using assms(2,3) by simp
qed

section \<open>The layers of the transforms\<close>

definition wf_poly :: "poly \<Rightarrow> bool" where
  "wf_poly p \<longleftrightarrow> length p = 256 \<and> list_all canon p"

lemma wf_poly_nth: "wf_poly p \<Longrightarrow> j < 256 \<Longrightarrow> canon (p ! j)"
  by (simp add: wf_poly_def list_all_length)

lemma wf_polyI: "length p = 256 \<Longrightarrow> (\<And>j. j < 256 \<Longrightarrow> canon (p ! j)) \<Longrightarrow> wf_poly p"
  by (simp add: wf_poly_def list_all_length)

lemma wf_poly_length [simp]: "wf_poly p \<Longrightarrow> length p = 256"
  by (simp add: wf_poly_def)

lemma wf_poly_eqI: "wf_poly p \<Longrightarrow> wf_poly q \<Longrightarrow> (\<And>j. j < 256 \<Longrightarrow> zv (p ! j) = zv (q ! j)) \<Longrightarrow> p = q"
  by (rule nth_equalityI) (auto intro!: zq.eqI wf_poly_nth)

definition ntt_pair :: "zq_t \<Rightarrow> zq_t \<Rightarrow> zq_t \<Rightarrow> zq_t \<times> zq_t" where
  "ntt_pair z a b = (zq_add a (zq_mul z b), zq_sub a (zq_mul z b))"

definition intt_pair :: "zq_t \<Rightarrow> zq_t \<Rightarrow> zq_t \<Rightarrow> zq_t \<times> zq_t" where
  "intt_pair z a b = (zq_add a b, zq_mul (zq_sub a b) z)"

lemma fold_cong_inv:
  assumes "\<And>x q. x \<in> set xs \<Longrightarrow> length q = n \<Longrightarrow> f x q = g x q"
    "\<And>x q. x \<in> set xs \<Longrightarrow> length q = n \<Longrightarrow> length (g x q) = n" "length p = n"
  shows "fold f xs p = fold g xs p"
  using assms by (induction xs arbitrary: p) simp_all

lemma length_butterfly: "length (butterfly g len i p) = length p"
  by (simp add: butterfly_def)

text \<open>Both layers are blocks of butterflies; \<open>m\<close> counts the blocks, \<open>2 ^ m\<close> of them.\<close>

lemma blocks_size:
  assumes "l < 8"
  shows "2 ^ (7 - l) * (2 * 2 ^ l) = (256 :: nat)"
  using assms by (simp flip: power_Suc power_add)

lemma blocks_count:
  assumes "l < 8"
  shows "drop_bit (l + 1) N = 2 ^ (7 - l)" and "drop_bit l N - 1 = 2 ^ Suc (7 - l) - 1"
proof -
  have a: "(256 :: nat) = 2 ^ (7 - l) * 2 ^ (l + 1)" and b: "(256 :: nat) = 2 ^ Suc (7 - l) * 2 ^ l"
    using blocks_size [OF assms] by simp_all
  show "drop_bit (l + 1) N = 2 ^ (7 - l)"
    unfolding N_val drop_bit_eq_div a by (rule nonzero_mult_div_cancel_right) simp
  have "drop_bit l N = 2 ^ Suc (7 - l)"
    unfolding N_val drop_bit_eq_div b by (rule nonzero_mult_div_cancel_right) simp
  then show "drop_bit l N - 1 = 2 ^ Suc (7 - l) - 1"
    by simp
qed

lemma block_index: "drop_bit (l + 1) (b * (2 * 2 ^ l)) = (b :: nat)"
  by (simp add: drop_bit_eq_div)

lemma layer_starts:
  assumes "l < 8"
  shows "steps 0 N (push_bit 1 (push_bit l 1)) = map (\<lambda>b. b * (2 * 2 ^ l)) [0..<2 ^ (7 - l)]"
  using steps_eq [of "2 * 2 ^ l" 0 "2 ^ (7 - l)"] unfolding blocks_size [OF assms]
  by (simp add: N_val push_bit_eq_mult mult.commute)

lemma block_within:
  assumes "l < 8" "b < 2 ^ (7 - l)"
  shows "b * (2 * 2 ^ l) + 2 * 2 ^ l \<le> (256 :: nat)"
proof -
  have "Suc b * (2 * 2 ^ l) \<le> 2 ^ (7 - l) * (2 * 2 ^ l)"
    using assms(2) by (intro mult_le_mono1) simp
  then show ?thesis
    unfolding blocks_size [OF assms(1)] by simp
qed

lemma ntt_butterfly_eq:
  "i + len < length q \<Longrightarrow> 0 < len \<Longrightarrow> ntt_butterfly z len i q = butterfly (ntt_pair z) len i q"
  by (simp add: ntt_butterfly_def butterfly_def ntt_pair_def Let_def list_update_swap)

lemma intt_butterfly_eq:
  "i + len < length q \<Longrightarrow> 0 < len \<Longrightarrow> intt_butterfly z len i q = butterfly (intt_pair z) len i q"
  by (simp add: intt_butterfly_def butterfly_def intt_pair_def Let_def)

lemma block_cong:
  assumes "\<And>i q. i + 2 ^ l < length q \<Longrightarrow> f i q = butterfly g (2 ^ l) i q" "l < 8" "b < 2 ^ (7 - l)" "length p = 256"
  shows "fold f [b * (2 * 2 ^ l)..<b * (2 * 2 ^ l) + 2 ^ l] p
    = fold (butterfly g (2 ^ l)) [b * (2 * 2 ^ l)..<b * (2 * 2 ^ l) + 2 ^ l] p"
proof (rule fold_cong_inv [where n = 256])
  show "f i q = butterfly g (2 ^ l) i q"
    if "i \<in> set [b * (2 * 2 ^ l)..<b * (2 * 2 ^ l) + 2 ^ l]" "length q = 256" for i q
    using that block_within [OF assms(2,3)] by (intro assms(1)) auto
qed (simp_all add: assms(4) length_butterfly)

lemma ntt_layer_blocks:
  assumes "l < 8" "length p = 256"
  shows "ntt_layer l p = fold (\<lambda>b. fold (butterfly (ntt_pair (NTT_zeta_EXP ! (2 ^ (7 - l) + b))) (2 ^ l))
      [b * (2 * 2 ^ l)..<b * (2 * 2 ^ l) + 2 ^ l]) [0..<2 ^ (7 - l)] p"
  unfolding ntt_layer_def Let_def layer_starts [OF assms(1)] fold_map comp_def blocks_count [OF assms(1)] block_index
  by (rule fold_cong_inv [where n = 256])
    (simp_all add: push_bit_eq_mult block_cong [OF ntt_butterfly_eq assms(1)] assms)

lemma intt_layer_blocks:
  assumes "l < 8" "length p = 256"
  shows "intt_layer l p = fold (\<lambda>b. fold (butterfly (intt_pair (INTT_zeta_EXP ! (2 ^ Suc (7 - l) - 1 - b))) (2 ^ l))
      [b * (2 * 2 ^ l)..<b * (2 * 2 ^ l) + 2 ^ l]) [0..<2 ^ (7 - l)] p"
  unfolding intt_layer_def Let_def layer_starts [OF assms(1)] fold_map comp_def blocks_count [OF assms(1)] block_index
  by (rule fold_cong_inv [where n = 256])
    (simp_all add: push_bit_eq_mult block_cong [OF intt_butterfly_eq assms(1)] assms)

text \<open>The elements of a layer: \<open>j\<close> is in the lower or in the upper half of its block.\<close>

abbreviation lower_half :: "nat \<Rightarrow> nat \<Rightarrow> bool" where
  "lower_half l j \<equiv> j mod (2 * 2 ^ l) < 2 ^ l"

abbreviation block_of :: "nat \<Rightarrow> nat \<Rightarrow> nat" where
  "block_of l j \<equiv> j div (2 * 2 ^ l)"

lemma ntt_layer_nth:
  assumes "l < 8" "length p = 256" "j < 256"
  defines "z \<equiv> NTT_zeta_EXP ! (2 ^ (7 - l) + block_of l j)"
  shows "ntt_layer l p ! j = (if lower_half l j then zq_add (p ! j) (zq_mul z (p ! (j + 2 ^ l)))
     else zq_sub (p ! (j - 2 ^ l)) (zq_mul z (p ! j)))"
  unfolding ntt_layer_blocks [OF assms(1,2)] z_def
  by (subst blocks_nth, unfold blocks_size [OF assms(1)]) (simp_all add: assms(2,3) ntt_pair_def)

lemma intt_layer_nth:
  assumes "l < 8" "length p = 256" "j < 256"
  defines "z \<equiv> INTT_zeta_EXP ! (2 ^ Suc (7 - l) - 1 - block_of l j)"
  shows "intt_layer l p ! j = (if lower_half l j then zq_add (p ! j) (p ! (j + 2 ^ l))
     else zq_mul (zq_sub (p ! (j - 2 ^ l)) (p ! j)) z)"
  unfolding intt_layer_blocks [OF assms(1,2)] z_def
  by (subst blocks_nth, unfold blocks_size [OF assms(1)]) (simp_all add: assms(2,3) intt_pair_def)

lemma length_layers [simp]:
  "l < 8 \<Longrightarrow> length p = 256 \<Longrightarrow> length (ntt_layer l p) = 256"
  "l < 8 \<Longrightarrow> length p = 256 \<Longrightarrow> length (intt_layer l p) = 256"
  by (simp_all add: ntt_layer_blocks intt_layer_blocks)

lemma half_pos: "(0 :: nat) < 2 * 2 ^ l"
  by simp

lemma lower_partner:
  assumes "lower_half l j"
  shows "\<not> lower_half l (j + 2 ^ l)" "block_of l (j + 2 ^ l) = block_of l j"
proof -
  have "(j + 2 ^ l) mod (2 * 2 ^ l) = j mod (2 * 2 ^ l) + 2 ^ l"
    using assms by (simp add: mod_add_eq [symmetric, of j "2 ^ l"] mod_less)
  then show "\<not> lower_half l (j + 2 ^ l)"
    by simp
  have "j + 2 ^ l = (j mod (2 * 2 ^ l) + 2 ^ l) + block_of l j * (2 * 2 ^ l)"
    using mod_div_mult_eq [of j "2 * 2 ^ l"] by linarith
  then show "block_of l (j + 2 ^ l) = block_of l j"
    using assms by (simp only: div_mult_self1 half_pos [THEN less_imp_neq, THEN not_sym] not_False_eq_True) simp
qed

lemma upper_partner:
  assumes "\<not> lower_half l j"
  shows "2 ^ l \<le> j" "lower_half l (j - 2 ^ l)" "block_of l (j - 2 ^ l) = block_of l j"
proof -
  let ?r = "j mod (2 * 2 ^ l) - 2 ^ l"
  have r: "?r < 2 ^ l"
    using mod_less_divisor [OF half_pos, of j l] assms by linarith
  have j: "j = (?r + block_of l j * (2 * 2 ^ l)) + 2 ^ l"
    using mod_div_mult_eq [of j "2 * 2 ^ l"] assms by linarith
  then show "2 ^ l \<le> j"
    by linarith
  have e: "j - 2 ^ l = ?r + block_of l j * (2 * 2 ^ l)"
    using j by linarith
  show "lower_half l (j - 2 ^ l)"
    unfolding e using r by simp
  show "block_of l (j - 2 ^ l) = block_of l j"
    unfolding e using r by simp
qed

lemma block_of_less:
  assumes "l < 8" "j < 256"
  shows "block_of l j < 2 ^ (7 - l)"
  using assms(2) by (intro less_mult_imp_div_less) (unfold blocks_size [OF assms(1)])

lemma lower_within:
  assumes "l < 8" "lower_half l j" "j < 256"
  shows "j + 2 ^ l < 256"
proof -
  from block_within [OF assms(1) block_of_less [OF assms(1,3)]] show ?thesis
    using assms(2) mod_div_mult_eq [of j "2 * 2 ^ l"] by linarith
qed

lemma table_index:
  assumes "0 < l" "l < 8" "j < 256"
  shows "2 ^ (7 - l) + block_of l j < 128" "2 ^ Suc (7 - l) - 1 - block_of l j < 128"
proof -
  have "2 ^ Suc (7 - l) \<le> (2 :: nat) ^ 7"
    using assms by (intro power_increasing) simp_all
  then show "2 ^ (7 - l) + block_of l j < 128" "2 ^ Suc (7 - l) - 1 - block_of l j < 128"
    using block_of_less [OF assms(2,3)] by simp_all
qed

lemma wf_ntt_layer:
  assumes "0 < l" "l < 8" "wf_poly p"
  shows "wf_poly (ntt_layer l p)"
proof (rule wf_polyI)
  fix j :: nat
  assume j: "j < 256"
  show "canon (ntt_layer l p ! j)"
    using assms j table_index [OF assms(1,2) j] lower_within [OF assms(2) _ j] less_imp_diff_less [OF j]
    by (simp add: ntt_layer_nth wf_poly_nth ntt_table)
qed (use assms in simp)

lemma wf_intt_layer:
  assumes "0 < l" "l < 8" "wf_poly p"
  shows "wf_poly (intt_layer l p)"
proof (rule wf_polyI)
  fix j :: nat
  assume j: "j < 256"
  show "canon (intt_layer l p ! j)"
    using assms j table_index [OF assms(1,2) j] lower_within [OF assms(2) _ j] less_imp_diff_less [OF j]
    by (simp add: intt_layer_nth wf_poly_nth intt_table)
qed (use assms in simp)

text \<open>The same in the ring, with the constants as powers of the root.\<close>

lemma zv_ntt_layer:
  assumes "0 < l" "l < 8" "wf_poly p" "j < 256"
  defines "z \<equiv> 17 ^ brv 7 (2 ^ (7 - l) + block_of l j)"
  shows "zv (ntt_layer l p ! j) = (if lower_half l j then zv (p ! j) + z * zv (p ! (j + 2 ^ l))
     else zv (p ! (j - 2 ^ l)) - z * zv (p ! j))"
  using assms(1-4) table_index [OF assms(1,2,4)] lower_within [OF assms(2) _ assms(4)] less_imp_diff_less [OF assms(4)]
  by (simp add: z_def ntt_layer_nth wf_poly_nth ntt_table zq_simps del: brv.simps)

lemma zv_intt_layer:
  assumes "0 < l" "l < 8" "wf_poly p" "j < 256"
  defines "z \<equiv> zv (INTT_zeta_EXP ! (2 ^ Suc (7 - l) - 1 - block_of l j))"
  shows "zv (intt_layer l p ! j) = (if lower_half l j then zv (p ! j) + zv (p ! (j + 2 ^ l))
     else (zv (p ! (j - 2 ^ l)) - zv (p ! j)) * z)"
  using assms(1-4) table_index [OF assms(1,2,4)] lower_within [OF assms(2) _ assms(4)] less_imp_diff_less [OF assms(4)]
  by (simp add: z_def intt_layer_nth wf_poly_nth intt_table zq_simps del: brv.simps)

text \<open>Multiplication of every coefficient by a constant.\<close>

definition scale :: "zq_t \<Rightarrow> poly \<Rightarrow> poly" where
  "scale c p = map (\<lambda>a. zq_mul a c) p"

lemma wf_scale [simp]: "canon c \<Longrightarrow> wf_poly p \<Longrightarrow> wf_poly (scale c p)"
  by (auto simp: wf_poly_def scale_def list_all_iff)

lemma zv_scale: "canon c \<Longrightarrow> wf_poly p \<Longrightarrow> j < 256 \<Longrightarrow> zv (scale c p ! j) = zv (p ! j) * zv c"
  by (simp add: scale_def wf_poly_nth zq_simps)

lemma canon_2 [simp]: "canon 2" and zv_2 [simp]: "zv 2 = 2"
  by (simp_all add: canon_iff zv_def)

lemma layer_inverse_table:
  assumes "0 < l" "l < 8" "j < 256"
  shows "zv (INTT_zeta_EXP ! (2 ^ Suc (7 - l) - 1 - block_of l j)) * 17 ^ brv 7 (2 ^ (7 - l) + block_of l j) = 1"
  using tables_inverse [of "7 - l" "block_of l j"] assms block_of_less [OF assms(2,3)] table_index [OF assms]
  by (simp add: ntt_table del: brv.simps)

lemma intt_ntt_layer:
  assumes "0 < l" "l < 8" "wf_poly p"
  shows "intt_layer l (ntt_layer l p) = scale 2 p"
proof (rule wf_poly_eqI)
  show "zv (intt_layer l (ntt_layer l p) ! j) = zv (scale 2 p ! j)" if j: "j < 256" for j
  proof (cases "lower_half l j")
    case True
    note p = lower_partner [OF True] lower_within [OF assms(2) True j]
    show ?thesis
      using assms j p True by (simp add: zv_intt_layer zv_ntt_layer zv_scale wf_ntt_layer del: brv.simps)
  next
    case False
    note p = upper_partner [OF False]
    have "(zv (ntt_layer l p ! (j - 2 ^ l)) - zv (ntt_layer l p ! j))
        = 17 ^ brv 7 (2 ^ (7 - l) + block_of l j) * (zv (p ! j) * 2)"
      using assms j p False by (simp add: zv_ntt_layer less_imp_diff_less algebra_simps del: brv.simps)
    then have "zv (intt_layer l (ntt_layer l p) ! j)
        = (zv (INTT_zeta_EXP ! (2 ^ Suc (7 - l) - 1 - block_of l j)) * 17 ^ brv 7 (2 ^ (7 - l) + block_of l j)) * (zv (p ! j) * 2)"
      using assms j False by (simp add: zv_intt_layer wf_ntt_layer mult_ac del: brv.simps)
    then show ?thesis
      unfolding layer_inverse_table [OF assms(1,2) j] using assms j by (simp add: zv_scale)
  qed
qed (use assms in \<open>simp_all add: wf_ntt_layer wf_intt_layer\<close>)

lemma ntt_intt_layer:
  assumes "0 < l" "l < 8" "wf_poly p"
  shows "ntt_layer l (intt_layer l p) = scale 2 p"
proof (rule wf_poly_eqI)
  show "zv (ntt_layer l (intt_layer l p) ! j) = zv (scale 2 p ! j)" if j: "j < 256" for j
  proof -
    note inv = layer_inverse_table [OF assms(1,2) j]
    have cancel: "17 ^ brv 7 (2 ^ (7 - l) + block_of l j) * (x * zv (INTT_zeta_EXP ! (2 ^ Suc (7 - l) - 1 - block_of l j))) = x" for x
      using arg_cong [OF inv, of "\<lambda>y. y * x"] by (simp only: mult_1 ac_simps)
    show ?thesis
    proof (cases "lower_half l j")
      case True
      note p = lower_partner [OF True] lower_within [OF assms(2) True j]
      show ?thesis
        using assms j p True cancel
        by (simp add: zv_intt_layer zv_ntt_layer zv_scale wf_intt_layer del: brv.simps One_nat_def power_Suc)
    next
      case False
      note p = upper_partner [OF False]
      show ?thesis
        using assms j p False cancel
        by (simp add: zv_intt_layer zv_ntt_layer zv_scale wf_intt_layer less_imp_diff_less del: brv.simps One_nat_def power_Suc)
    qed
  qed
qed (use assms in \<open>simp_all add: wf_ntt_layer wf_intt_layer\<close>)

lemma ntt_layer_scale:
  assumes "0 < l" "l < 8" "wf_poly p" "canon c"
  shows "ntt_layer l (scale c p) = scale c (ntt_layer l p)"
proof (rule wf_poly_eqI)
  show "zv (ntt_layer l (scale c p) ! j) = zv (scale c (ntt_layer l p) ! j)" if j: "j < 256" for j
    using assms j lower_within [OF assms(2) _ j] less_imp_diff_less [OF j]
    by (simp add: zv_ntt_layer zv_scale wf_ntt_layer algebra_simps del: brv.simps)
qed (use assms in \<open>simp_all add: wf_ntt_layer\<close>)

lemma intt_layer_scale:
  assumes "0 < l" "l < 8" "wf_poly p" "canon c"
  shows "intt_layer l (scale c p) = scale c (intt_layer l p)"
proof (rule wf_poly_eqI)
  show "zv (intt_layer l (scale c p) ! j) = zv (scale c (intt_layer l p) ! j)" if j: "j < 256" for j
    using assms j lower_within [OF assms(2) _ j] less_imp_diff_less [OF j]
    by (simp add: zv_intt_layer zv_scale wf_intt_layer algebra_simps)
qed (use assms in \<open>simp_all add: wf_intt_layer\<close>)

section \<open>The transforms undo each other\<close>

abbreviation layers :: "nat list \<Rightarrow> bool" where
  "layers ls \<equiv> set ls \<subseteq> {1..<8}"

lemma wf_fold_layers:
  "layers ls \<Longrightarrow> wf_poly p \<Longrightarrow> wf_poly (fold ntt_layer ls p)"
  "layers ls \<Longrightarrow> wf_poly p \<Longrightarrow> wf_poly (fold intt_layer ls p)"
  by (induction ls arbitrary: p) (simp_all add: wf_ntt_layer wf_intt_layer)

lemma fold_layers_scale:
  "layers ls \<Longrightarrow> wf_poly p \<Longrightarrow> canon c \<Longrightarrow> fold ntt_layer ls (scale c p) = scale c (fold ntt_layer ls p)"
  "layers ls \<Longrightarrow> wf_poly p \<Longrightarrow> canon c \<Longrightarrow> fold intt_layer ls (scale c p) = scale c (fold intt_layer ls p)"
  by (induction ls arbitrary: p)
    (simp_all add: ntt_layer_scale intt_layer_scale wf_ntt_layer wf_intt_layer)

lemma intt_ntt_layers:
  assumes "layers ls" "wf_poly p"
  shows "fold intt_layer ls (fold ntt_layer (rev ls) p) = (scale 2 ^^ length ls) p"
  using assms(1)
proof (induction ls)
  case (Cons l ls)
  then have w: "wf_poly (fold ntt_layer (rev ls) p)"
    using assms(2) by (intro wf_fold_layers) simp_all
  with Cons show ?case
    by (simp add: intt_ntt_layer fold_layers_scale)
qed simp

lemma ntt_intt_layers:
  assumes "layers ls" "wf_poly p"
  shows "fold ntt_layer (rev ls) (fold intt_layer ls p) = (scale 2 ^^ length ls) p"
  using assms
proof (induction ls arbitrary: p)
  case (Cons l ls)
  have "fold ntt_layer (rev ls) (fold intt_layer ls (intt_layer l p)) = (scale 2 ^^ length ls) (intt_layer l p)"
    using Cons by (simp add: wf_intt_layer)
  moreover have "ntt_layer l ((scale 2 ^^ n) (intt_layer l p)) = (scale 2 ^^ n) (scale 2 p)" for n
  proof (induction n)
    case (Suc n)
    have "wf_poly ((scale 2 ^^ n) (intt_layer l p))"
      using Cons.prems by (induction n) (simp_all add: wf_intt_layer)
    with Suc Cons.prems show ?case
      by (simp add: ntt_layer_scale)
  qed (use Cons.prems in \<open>simp add: ntt_intt_layer\<close>)
  ultimately show ?case
    by (simp add: funpow_swap1)
qed simp

lemma INV_N_ring: "canon INV_N" "128 * zv INV_N = 1"
proof -
  have c: "canon (zq_t (of_nat (N div 2)))" "zv (zq_t (of_nat (N div 2))) = 128" "zq_t (of_nat (N div 2)) \<noteq> 0"
    by (simp_all add: N_val zq_t_def canon_iff zv_def)
  show "canon INV_N" "128 * zv INV_N = 1"
    unfolding INV_N_def using zq_inv_ring [OF c(1)] c(2,3) by simp_all
qed

lemma intt_eq: "length p = 256 \<Longrightarrow> intt p = scale INV_N (fold intt_layer [1..<8] p)"
proof -
  assume p: "length p = 256"
  have "length (fold intt_layer ls p) = 256" if "layers ls" for ls
    using that p by (induction ls arbitrary: p) simp_all
  from this [of "[1..<8]"] show ?thesis
    using fold_update_map [of 256 "fold intt_layer [1..<8] p" "\<lambda>a. zq_mul a INV_N"]
    by (auto simp: intt_def scale_def N_val LOG2N_def)
qed

lemma wf_ntt [simp]: "wf_poly p \<Longrightarrow> wf_poly (ntt p)"
  unfolding ntt_def LOG2N_def by (rule wf_fold_layers) auto

lemma wf_intt [simp]: "wf_poly p \<Longrightarrow> wf_poly (intt p)"
  by (simp add: intt_eq wf_fold_layers INV_N_ring)

lemma scale_doubles:
  assumes "wf_poly p"
  shows "scale INV_N ((scale 2 ^^ 7) p) = p"
proof (rule wf_poly_eqI)
  have w: "wf_poly ((scale 2 ^^ n) p)" for n
    using assms by (induction n) simp_all
  then show "wf_poly (scale INV_N ((scale 2 ^^ 7) p))"
    by (simp add: INV_N_ring)
  show "zv (scale INV_N ((scale 2 ^^ 7) p) ! j) = zv (p ! j)" if j: "j < 256" for j
  proof -
    have "zv ((scale 2 ^^ n) p ! j) = zv (p ! j) * 2 ^ n" for n
      using j w by (induction n) (simp_all add: zv_scale mult_ac)
    then show ?thesis
      using j w INV_N_ring by (simp add: zv_scale mult.assoc)
  qed
qed (rule assms)

lemma intt_ntt:
  assumes "wf_poly p"
  shows "intt (ntt p) = p"
proof -
  have "intt (ntt p) = scale INV_N (fold intt_layer [1..<8] (fold ntt_layer (rev [1..<8]) p))"
    using wf_ntt [OF assms] by (simp add: intt_eq ntt_def LOG2N_def)
  also have "\<dots> = p"
    using assms by (subst intt_ntt_layers) (auto simp: scale_doubles)
  finally show ?thesis .
qed

lemma ntt_intt:
  assumes "wf_poly p"
  shows "ntt (intt p) = p"
proof -
  have "ntt (intt p) = fold ntt_layer (rev [1..<8]) (scale INV_N (fold intt_layer [1..<8] p))"
    using assms by (simp add: intt_eq ntt_def LOG2N_def)
  also have "\<dots> = scale INV_N (fold ntt_layer (rev [1..<8]) (fold intt_layer [1..<8] p))"
    using assms by (intro fold_layers_scale wf_fold_layers) (auto simp: INV_N_ring)
  also have "\<dots> = p"
    using assms by (subst ntt_intt_layers) (auto simp: scale_doubles)
  finally show ?thesis .
qed

section \<open>Properties\<close>

text \<open>
  C20: the two transforms undo each other on every polynomial with canonical coefficients and keep the coefficients
  canonical.\<close>

theorem ntt_round_trip:
  assumes "wf_poly p"
  shows "intt (ntt p) = p \<and> ntt (intt p) = p \<and> wf_poly (ntt p) \<and> wf_poly (intt p)"
  using assms by (simp add: intt_ntt ntt_intt)

theorem ntt_round_trip_witness:
  "intt (ntt (1 # replicate 255 0)) = 1 # replicate 255 0"
  using ntt_round_trip [of "1 # replicate 255 0"] by (simp add: wf_poly_def list_all_iff)

end
