(* ===== verification/Kem_Conv.thy ===== *)
theory Kem_Conv
  imports Kem_Ntt
begin

text \<open>
  Multiplication of polynomials through the transform.  \<open>polymul\<close> multiplies two transforms pair by pair, in the
  rings of residues modulo \<open>X\<^sup>2 - z\<close> for the 128 constants of its table.  The transform of a polynomial holds its
  remainders modulo these 128 quadratic polynomials, so the product of transforms is the transform of the product
  modulo \<open>X\<^sup>2\<^sup>5\<^sup>6 + 1\<close>.
\<close>

section \<open>Pairs\<close>

lemma length_basemul [simp]: "length (basemul f g z) = 2"
  by (simp add: basemul_def Let_def)

abbreviation gam :: "nat \<Rightarrow> 3329" where
  "gam i \<equiv> zv (POLY_MUL_zeta_EXP ! i)"

lemma take2_nth:
  assumes "length f = 256" "i < 128"
  shows "take 2 (drop (i * 2) f) ! 0 = f ! (2 * i)" "take 2 (drop (i * 2) f) ! 1 = f ! (2 * i + 1)"
  using assms by (simp_all add: mult.commute)

lemma length_polymul [simp]: "length f = 256 \<Longrightarrow> length (polymul f g) = 256"
  by (simp add: polymul_def Let_def length_concat_blocks)

lemma polymul_nth:
  assumes "length f = 256" "length g = 256" "i < 128"
  shows "polymul f g ! (2 * i) = zq_add (zq_mul (zq_mul (f ! (2 * i + 1)) (g ! (2 * i + 1))) (POLY_MUL_zeta_EXP ! i))
      (zq_mul (f ! (2 * i)) (g ! (2 * i)))"
    and "polymul f g ! (2 * i + 1) = zq_add (zq_mul (g ! (2 * i + 1)) (f ! (2 * i))) (zq_mul (g ! (2 * i)) (f ! (2 * i + 1)))"
proof -
  let ?F = "\<lambda>i. basemul (take 2 (drop (i * 2) f)) (take 2 (drop (i * 2) g)) (POLY_MUL_zeta_EXP ! i)"
  have e: "polymul f g = concat (map ?F [0..<128])"
    using assms(1) by (simp add: polymul_def Let_def)
  have "polymul f g ! (2 * i) = ?F i ! 0" "polymul f g ! (2 * i + 1) = ?F i ! 1"
    unfolding e using concat_blocks_nth [of 128 ?F 2 i 0] concat_blocks_nth [of 128 ?F 2 i 1] assms(3)
    by (simp_all add: mult.commute)
  then show "polymul f g ! (2 * i) = zq_add (zq_mul (zq_mul (f ! (2 * i + 1)) (g ! (2 * i + 1))) (POLY_MUL_zeta_EXP ! i))
      (zq_mul (f ! (2 * i)) (g ! (2 * i)))"
    "polymul f g ! (2 * i + 1) = zq_add (zq_mul (g ! (2 * i + 1)) (f ! (2 * i))) (zq_mul (g ! (2 * i)) (f ! (2 * i + 1)))"
    unfolding basemul_def Let_def take2_nth [OF assms(1,3)] take2_nth [OF assms(2,3)] by simp_all
qed

lemma index_pairs:
  assumes "(j :: nat) < 256" "\<And>i. i < 128 \<Longrightarrow> P (2 * i)" "\<And>i. i < 128 \<Longrightarrow> P (2 * i + 1)"
  shows "P j"
proof (cases "even j")
  case True
  then show ?thesis
    using assms(1) assms(2) [of "j div 2"] by simp
next
  case False
  then show ?thesis
    using assms(1) assms(3) [of "j div 2"] by simp
qed

lemma wf_polymul [simp]:
  assumes "wf_poly f" "wf_poly g"
  shows "wf_poly (polymul f g)"
proof (rule wf_polyI)
  show "canon (polymul f g ! j)" if "j < 256" for j
    using that
    by (rule index_pairs; subst polymul_nth) (simp_all add: assms wf_poly_nth polymul_table)
qed (use assms in simp)

lemma zv_polymul:
  assumes "wf_poly f" "wf_poly g" "i < 128"
  shows "zv (polymul f g ! (2 * i)) = zv (f ! (2 * i)) * zv (g ! (2 * i)) + zv (f ! (2 * i + 1)) * zv (g ! (2 * i + 1)) * gam i"
    and "zv (polymul f g ! (2 * i + 1)) = zv (f ! (2 * i)) * zv (g ! (2 * i + 1)) + zv (f ! (2 * i + 1)) * zv (g ! (2 * i))"
  by (subst polymul_nth; use assms in \<open>simp add: wf_poly_nth polymul_table(1) zq_simps add.commute mult.commute\<close>)+

section \<open>The transform evaluates at the roots\<close>

lemma sum_even_odd: "(\<Sum>t<2 * n. F t) = (\<Sum>s<n. F (2 * s)) + (\<Sum>s<n. F (Suc (2 * s)) :: 'a::comm_monoid_add)"
  by (induction n) (simp_all add: ac_simps)

text \<open>After the layer of length \<open>2 ^ L\<close>, block \<open>b\<close> holds the remainder modulo \<open>X\<^sup>2\<^sup>^\<^sup>L - croot L b\<close>.\<close>

definition croot :: "nat \<Rightarrow> nat \<Rightarrow> 3329" where
  "croot L b = 17 ^ (2 ^ (L - 1) * (2 * brv (8 - L) b + 1))"

lemma croot_top: "croot 8 0 = - 1"
  by (simp add: croot_def root_half)

lemma layer_root:
  assumes "0 < l" "l < 8" "b < 2 ^ (7 - l)"
  defines "z \<equiv> 17 ^ brv 7 (2 ^ (7 - l) + b)"
  shows "croot l (2 * b) = z" "croot l (2 * b + 1) = - z" "croot (Suc l) b = z * z"
proof -
  have e: "8 - l = Suc (7 - l)" and d: "Suc (7 - l) + (l - 1) = 7"
    using assms by simp_all
  have "2 ^ (7 - l) + b < 2 ^ Suc (7 - l)"
    using assms(3) by simp
  from brv_shift [OF this, of "l - 1"] have z: "z = 17 ^ (2 ^ (l - 1) * (2 * brv (7 - l) b + 1))"
    using assms(3) unfolding d by (simp add: z_def brv_high del: brv.simps)
  show "croot l (2 * b) = z"
    unfolding z croot_def e by (simp only: brv_even)
  have half: "2 ^ (l - 1) * (2 * 2 ^ (7 - l)) = (128 :: nat)"
    using assms(1,2) by (simp flip: power_add power_Suc)
  have "2 ^ (l - 1) * (2 * (2 ^ (7 - l) + brv (7 - l) b) + 1) = 2 ^ (l - 1) * (2 * 2 ^ (7 - l)) + 2 ^ (l - 1) * (2 * brv (7 - l) b + 1)"
    by (simp add: algebra_simps)
  then have "(17 :: 3329) ^ (2 ^ (l - 1) * (2 * (2 ^ (7 - l) + brv (7 - l) b) + 1)) = - z"
    unfolding z half by (simp only: power_add root_half mult_minus_left mult_1)
  then show "croot l (2 * b + 1) = - z"
    unfolding croot_def e Suc_eq_plus1 [symmetric] brv_odd .
  have "2 ^ l = 2 * (2 :: nat) ^ (l - 1)"
    using assms(1) by (cases l) simp_all
  then have x: "2 ^ l * (2 * brv (7 - l) b + 1) = 2 ^ (l - 1) * (2 * brv (7 - l) b + 1) + 2 ^ (l - 1) * (2 * brv (7 - l) b + 1)"
    by simp
  have "8 - Suc l = 7 - l" "Suc l - 1 = l"
    by simp_all
  then show "croot (Suc l) b = z * z"
    unfolding croot_def z by (simp only: x power_add)
qed

lemma block_halves:
  fixes j l :: nat
  shows "lower_half l j \<Longrightarrow> j div 2 ^ l = 2 * block_of l j" "lower_half l j \<Longrightarrow> j mod 2 ^ l = j mod (2 * 2 ^ l)"
    "\<not> lower_half l j \<Longrightarrow> j div 2 ^ l = 2 * block_of l j + 1" "\<not> lower_half l j \<Longrightarrow> j mod 2 ^ l + 2 ^ l = j mod (2 * 2 ^ l)"
proof -
  define B r where "B = block_of l j" and "r = j mod (2 * 2 ^ l)"
  have j: "j = r + B * (2 * 2 ^ l)" and r: "r < 2 * 2 ^ l"
    unfolding B_def r_def using mod_div_mult_eq [of j "2 * 2 ^ l"] by simp_all
  {
    assume "lower_half l j"
    then have r: "r < 2 ^ l"
      by (simp add: r_def)
    have "j = r + (2 * B) * 2 ^ l"
      using j by simp
    with r show "j div 2 ^ l = 2 * block_of l j" "j mod 2 ^ l = j mod (2 * 2 ^ l)"
      unfolding B_def [symmetric] r_def [symmetric] by simp_all
  next
    assume "\<not> lower_half l j"
    then have r': "2 ^ l \<le> r" "r - 2 ^ l < 2 ^ l"
      using r unfolding r_def by linarith+
    then obtain k where k: "r = k + 2 ^ l" "k < 2 ^ l"
      using le_add_diff_inverse2 by metis
    have q: "(k + (2 * B + 1) * 2 ^ l) div 2 ^ l = 2 * B + 1" "(k + (2 * B + 1) * 2 ^ l) mod 2 ^ l = k"
      using k(2) div_mult_self1 [of "2 ^ l" k "2 * B + 1"] mod_mult_self1 [of k "2 * B + 1" "2 ^ l"]
      by (simp_all only: div_less mod_less power_not_zero add_0_right zero_neq_numeral [symmetric] not_False_eq_True simp_thms)
    have "j = k + (2 * B + 1) * 2 ^ l"
      using j k(1) by (simp add: algebra_simps)
    then show "j div 2 ^ l = 2 * block_of l j + 1" "j mod 2 ^ l + 2 ^ l = j mod (2 * 2 ^ l)"
      unfolding B_def [symmetric] r_def [symmetric] k(1) by (simp_all only: q)
  }
qed

definition residue :: "poly \<Rightarrow> nat \<Rightarrow> nat \<Rightarrow> nat \<Rightarrow> 3329" where
  "residue p L r b = (\<Sum>t<2 ^ (8 - L). zv (p ! (t * 2 ^ L + r)) * croot L b ^ t)"

lemma residue_split:
  assumes "0 < l" "l < 8" "b < 2 ^ (7 - l)"
  defines "z \<equiv> 17 ^ brv 7 (2 ^ (7 - l) + b)"
  shows "residue p l r (2 * b) = residue p (Suc l) r b + z * residue p (Suc l) (r + 2 ^ l) b"
    and "residue p l r (2 * b + 1) = residue p (Suc l) r b - z * residue p (Suc l) (r + 2 ^ l) b"
proof -
  note c = layer_root [OF assms(1-3), folded z_def]
  have n: "2 ^ (8 - l) = 2 * (2 :: nat) ^ (7 - l)" and m: "8 - Suc l = 7 - l"
    using assms(2) by (simp_all flip: power_Suc add: Suc_diff_le)
  have sq: "x ^ (2 * s) = (x * x) ^ s" for x :: 3329 and s
    by (simp add: power_mult power2_eq_square)
  have idx: "2 * s * 2 ^ l + r = s * 2 ^ Suc l + r" "Suc (2 * s) * 2 ^ l + r = s * 2 ^ Suc l + (r + 2 ^ l)" for s
    by simp_all
  show "residue p l r (2 * b) = residue p (Suc l) r b + z * residue p (Suc l) (r + 2 ^ l) b"
    unfolding residue_def n m sum_even_odd c idx power_Suc sq sum_distrib_left by (simp only: ac_simps)
  show "residue p l r (2 * b + 1) = residue p (Suc l) r b - z * residue p (Suc l) (r + 2 ^ l) b"
    unfolding residue_def n m sum_even_odd c idx power_Suc sq sum_distrib_left
    by (simp only: minus_mult_minus mult_minus_left mult_minus_right minus_minus sum_negf diff_conv_add_uminus ac_simps)
qed

lemma ntt_layers_residue:
  assumes "wf_poly p" "d < 8" "j < 256"
  shows "zv (fold ntt_layer (rev [8 - d..<8]) p ! j) = residue p (8 - d) (j mod 2 ^ (8 - d)) (j div 2 ^ (8 - d))"
  using assms(2,3)
proof (induction d arbitrary: j)
  case 0
  then show ?case
    by (simp add: residue_def)
next
  case (Suc d)
  define l where "l = 8 - Suc d"
  have l: "0 < l" "l < 8" "8 - d = Suc l" "rev [l..<8] = rev [Suc l..<8] @ [l]"
    using Suc.prems by (simp_all add: l_def upt_conv_Cons)
  let ?q = "fold ntt_layer (rev [Suc l..<8]) p"
  have w: "wf_poly ?q"
    using assms(1) by (intro wf_fold_layers) auto
  have IH: "zv (?q ! j) = residue p (Suc l) (j mod (2 * 2 ^ l)) (block_of l j)" if "j < 256" for j
    using Suc.IH [of j] Suc.prems that unfolding l(3) by (simp add: mult.commute)
  note h = block_halves [where j = j and l = l] and s = residue_split [OF l(1,2) block_of_less [OF l(2) Suc.prems(2)]]
  have "zv (ntt_layer l ?q ! j) = residue p l (j mod 2 ^ l) (j div 2 ^ l)"
  proof (cases "lower_half l j")
    case True
    note n = lower_partner [OF True] lower_within [OF l(2) True Suc.prems(2)]
    have "(j + 2 ^ l) mod (2 * 2 ^ l) = j mod (2 * 2 ^ l) + 2 ^ l"
      using True by (simp add: mod_add_eq [symmetric, of j "2 ^ l"])
    then show ?thesis
      using True n Suc.prems by (simp add: zv_ntt_layer l w IH h s del: brv.simps)
  next
    case False
    note n = upper_partner [OF False]
    have "(j - 2 ^ l) mod (2 * 2 ^ l) = j mod 2 ^ l"
      using n(2) h(4) [OF False] block_halves(2) [OF n(2)] n(1) by (simp add: le_mod_geq)
    then show ?thesis
      using False n Suc.prems s(2) [of p "j mod 2 ^ l"] unfolding h(3,4) [OF False]
      by (simp add: zv_ntt_layer l w IH less_imp_diff_less del: brv.simps)
  qed
  then show ?case
    using l unfolding l_def [symmetric] by simp
qed

lemma gam_croot: "i < 128 \<Longrightarrow> croot 1 i = gam i"
  by (simp add: croot_def polymul_table del: brv.simps)

lemma gam_half:
  assumes "i < 128"
  shows "gam i ^ 128 = - 1"
proof -
  have "gam i ^ 128 = (17 ^ 128) ^ (2 * brv 7 i + 1)"
    unfolding polymul_table(2) [OF assms] power_mult [symmetric] by (simp only: mult.commute)
  then show ?thesis
    unfolding root_half by (simp only: power_add power_mult power2_minus power_one power_one_right mult_1)
qed

text \<open>The value of \<open>X\<^sup>k\<close> in the pair \<open>i\<close>, at the constant (\<open>b = 0\<close>) and the linear (\<open>b = 1\<close>) position.\<close>

definition mon :: "nat \<Rightarrow> nat \<Rightarrow> nat \<Rightarrow> 3329" where
  "mon i k b = (if k mod 2 = b then gam i ^ (k div 2) else 0)"

lemma zv_ntt:
  assumes "wf_poly p" "i < 128" "b < 2"
  shows "zv (ntt p ! (2 * i + b)) = (\<Sum>k<256. zv (p ! k) * mon i k b)"
proof -
  have j: "2 * i + b < 256" "(2 * i + b) mod 2 = b" "(2 * i + b) div 2 = i"
    using assms by simp_all
  have "zv (ntt p ! (2 * i + b)) = residue p 1 b i"
    using ntt_layers_residue [OF assms(1), of 7 "2 * i + b"] j by (simp add: ntt_def LOG2N_def)
  also have "\<dots> = (\<Sum>t<128. zv (p ! (2 * t + b)) * gam i ^ t)"
    by (simp add: residue_def gam_croot [OF assms(2), simplified] mult.commute)
  also have "\<dots> = (\<Sum>k<2 * 128. zv (p ! k) * mon i k b)"
    unfolding sum_even_odd using assms(3) less_2_cases [of b] by (auto simp: mon_def)
  finally show ?thesis
    by simp
qed

lemma mon_even: "mon i (2 * a) b = (if b = 0 then gam i ^ a else 0)"
  and mon_odd: "mon i (2 * a + 1) b = (if b = 1 then gam i ^ a else 0)"
  by (auto simp: mon_def)

lemma mon_add:
  "mon i (k + m) 0 = mon i k 0 * mon i m 0 + mon i k 1 * mon i m 1 * gam i \<and>
   mon i (k + m) 1 = mon i k 0 * mon i m 1 + mon i k 1 * mon i m 0"
proof -
  note e = mon_even mon_odd power_add mult_zero_left mult_zero_right add_0_left add_0_right mult_1_right power_one_right
    if_True if_False zero_neq_one one_neq_zero simp_thms
  obtain a where k: "k = 2 * a \<or> k = 2 * a + 1"
    by (metis evenE oddE)
  obtain c where m: "m = 2 * c \<or> m = 2 * c + 1"
    by (metis evenE oddE)
  consider "k = 2 * a" "m = 2 * c" "k + m = 2 * (a + c)" | "k = 2 * a" "m = 2 * c + 1" "k + m = 2 * (a + c) + 1"
    | "k = 2 * a + 1" "m = 2 * c" "k + m = 2 * (a + c) + 1" | "k = 2 * a + 1" "m = 2 * c + 1" "k + m = 2 * (a + c + 1)"
    using k m by fastforce
  then show ?thesis
  proof cases
    case 1
    show ?thesis unfolding 1(3) unfolding 1(1,2) by (simp only: e)
  next
    case 2
    show ?thesis unfolding 2(3) unfolding 2(1,2) by (simp only: e)
  next
    case 3
    show ?thesis unfolding 3(3) unfolding 3(1,2) by (simp only: e)
  next
    case 4
    show ?thesis unfolding 4(3) unfolding 4(1,2) by (simp only: e)
  qed
qed

lemma mon_wrap: "i < 128 \<Longrightarrow> mon i (k + 256) b = - mon i k b"
proof -
  assume "i < 128"
  moreover have "(k + 128 * 2) mod 2 = k mod 2" "(k + 128 * 2) div 2 = k div 2 + 128"
    by (simp_all only: mod_mult_self1 div_mult_self1 zero_neq_numeral [symmetric] not_False_eq_True add.commute)
  ultimately show ?thesis
    by (simp add: mon_def power_add gam_half)
qed

section \<open>The product is the negacyclic convolution\<close>

text \<open>Schoolbook multiplication modulo \<open>X\<^sup>2\<^sup>5\<^sup>6 + 1\<close>: the reference for the product of two polynomials.\<close>

definition schoolbook :: "poly \<Rightarrow> poly \<Rightarrow> poly" where
  "schoolbook f g =
     map (\<lambda>k. fold (\<lambda>i acc. if i \<le> k then zq_add acc (zq_mul (f ! i) (g ! (k - i)))
                             else zq_sub acc (zq_mul (f ! i) (g ! (k + 256 - i)))) [0..<256] 0)
       [0..<256]"

lemma schoolbook_nth:
  assumes "wf_poly f" "wf_poly g" "k < 256"
  shows "canon (schoolbook f g ! k)"
    and "zv (schoolbook f g ! k) = (\<Sum>i<256. zv (f ! i) * (if i \<le> k then zv (g ! (k - i)) else - zv (g ! (k + 256 - i))))"
proof -
  let ?F = "\<lambda>n. fold (\<lambda>i acc. if i \<le> k then zq_add acc (zq_mul (f ! i) (g ! (k - i)))
                             else zq_sub acc (zq_mul (f ! i) (g ! (k + 256 - i)))) [0..<n] 0"
  have "canon (?F n) \<and> zv (?F n) = (\<Sum>i<n. zv (f ! i) * (if i \<le> k then zv (g ! (k - i)) else - zv (g ! (k + 256 - i))))"
    if "n \<le> 256" for n
    using that
  proof (induction n)
    case (Suc n)
    have "n \<le> k \<Longrightarrow> canon (g ! (k - n))" "\<not> n \<le> k \<Longrightarrow> canon (g ! (k + 256 - n))" "canon (f ! n)"
      using assms Suc.prems by (auto intro!: wf_poly_nth)
    with Suc show ?case
      by (simp add: zq_simps)
  qed simp
  from this [of 256] show "canon (schoolbook f g ! k)"
    "zv (schoolbook f g ! k) = (\<Sum>i<256. zv (f ! i) * (if i \<le> k then zv (g ! (k - i)) else - zv (g ! (k + 256 - i))))"
    using assms(3) unfolding schoolbook_def by (simp_all only: nth_map length_upt nth_upt diff_zero add_0 simp_thms)
qed

lemma wf_schoolbook [simp]: "wf_poly f \<Longrightarrow> wf_poly g \<Longrightarrow> wf_poly (schoolbook f g)"
  by (rule wf_polyI) (simp_all add: schoolbook_nth, simp add: schoolbook_def)

text \<open>Shifting the indices of one row of the product: those that wrap change their sign.\<close>

lemma shifted_row:
  fixes g :: "nat \<Rightarrow> 3329"
  assumes "i < 256" "m < 128"
  shows "(\<Sum>k<256. (if i \<le> k then g (k - i) else - g (k + 256 - i)) * mon m k b) = (\<Sum>j<256. g j * mon m (i + j) b)"
proof -
  have split: "{..<256} = {..<i} \<union> {i..<256}" "{..<256} = {..<256 - i} \<union> {256 - i..<256}"
    using assms(1) by auto
  have lo: "(\<Sum>k\<in>{i..<256}. (if i \<le> k then g (k - i) else - g (k + 256 - i)) * mon m k b) = (\<Sum>j\<in>{..<256 - i}. g j * mon m (i + j) b)"
    by (rule sum.reindex_bij_witness [of _ "\<lambda>j. i + j" "\<lambda>k. k - i"]) auto
  have hi: "(\<Sum>k\<in>{..<i}. (if i \<le> k then g (k - i) else - g (k + 256 - i)) * mon m k b) = (\<Sum>j\<in>{256 - i..<256}. g j * mon m (i + j) b)"
  proof (rule sum.reindex_bij_witness [of _ "\<lambda>j. i + j - 256" "\<lambda>k. k + 256 - i"])
    fix k
    assume "k \<in> {..<i}"
    moreover have "i + (k + 256 - i) = k + 256"
      using assms(1) by simp
    ultimately show "g (k + 256 - i) * mon m (i + (k + 256 - i)) b = (if i \<le> k then g (k - i) else - g (k + 256 - i)) * mon m k b"
      by (simp add: mon_wrap assms(2))
  qed (use assms(1) in auto)
  have "(\<Sum>k<256. (if i \<le> k then g (k - i) else - g (k + 256 - i)) * mon m k b)
      = (\<Sum>j\<in>{256 - i..<256}. g j * mon m (i + j) b) + (\<Sum>j\<in>{..<256 - i}. g j * mon m (i + j) b)"
    by (subst split(1), subst sum.union_disjoint) (simp_all only: finite_lessThan finite_atLeastLessThan lo hi, auto)
  also have "\<dots> = (\<Sum>j<256. g j * mon m (i + j) b)"
    by (subst split(2), subst sum.union_disjoint) (auto simp: add.commute)
  finally show ?thesis .
qed

lemma ntt_schoolbook:
  assumes "wf_poly f" "wf_poly g" "i < 128" "b < 2"
  shows "zv (ntt (schoolbook f g) ! (2 * i + b)) = (\<Sum>m<256. \<Sum>j<256. zv (f ! m) * zv (g ! j) * mon i (m + j) b)"
proof -
  have "zv (ntt (schoolbook f g) ! (2 * i + b))
      = (\<Sum>k<256. \<Sum>m<256. zv (f ! m) * ((if m \<le> k then zv (g ! (k - m)) else - zv (g ! (k + 256 - m))) * mon i k b))"
    using assms by (simp add: zv_ntt schoolbook_nth sum_distrib_right mult.assoc)
  also have "\<dots> = (\<Sum>m<256. zv (f ! m) * (\<Sum>k<256. (if m \<le> k then zv (g ! (k - m)) else - zv (g ! (k + 256 - m))) * mon i k b))"
    by (subst sum.swap) (simp only: sum_distrib_left)
  also have "\<dots> = (\<Sum>m<256. zv (f ! m) * (\<Sum>j<256. zv (g ! j) * mon i (m + j) b))"
    using assms(3) by (intro sum.cong refl) (simp only: shifted_row [of _ _ "\<lambda>j. zv (g ! j)"] lessThan_iff)
  finally show ?thesis
    by (simp only: sum_distrib_left mult.assoc)
qed

lemma sum_product3:
  fixes A B :: "nat \<Rightarrow> 'r::comm_ring_1"
  shows "(\<Sum>m<n. A m * P m) * (\<Sum>j<n. B j * R' j) = (\<Sum>m<n. \<Sum>j<n. A m * B j * (P m * R' j))"
  by (simp add: sum_product mult_ac)

lemma ntt_schoolbook_polymul:
  assumes "wf_poly f" "wf_poly g"
  shows "ntt (schoolbook f g) = polymul (ntt f) (ntt g)"
proof (rule wf_poly_eqI)
  show "zv (ntt (schoolbook f g) ! j) = zv (polymul (ntt f) (ntt g) ! j)" if "j < 256" for j
    using that
  proof (rule index_pairs)
    fix i :: nat
    assume i: "i < 128"
    have at: "zv (ntt p ! (2 * i)) = (\<Sum>k<256. zv (p ! k) * mon i k 0)" "zv (ntt p ! (2 * i + 1)) = (\<Sum>k<256. zv (p ! k) * mon i k 1)"
      if "wf_poly p" for p
      using zv_ntt [OF that i, of 0] zv_ntt [OF that i, of 1] by simp_all
    have w: "wf_poly (ntt f)" "wf_poly (ntt g)" and one_less: "(1 :: nat) < 2"
      using assms by simp_all
    have "zv (ntt (schoolbook f g) ! (2 * i + 0)) = zv (polymul (ntt f) (ntt g) ! (2 * i))"
      unfolding ntt_schoolbook [OF assms i zero_less_numeral] zv_polymul [OF w i] at [OF assms(1)] at [OF assms(2)] mon_add [THEN conjunct1] mon_add [THEN conjunct2] sum_product3
      by (simp only: ring_distribs sum.distrib sum_distrib_right mult.assoc)
    then show "zv (ntt (schoolbook f g) ! (2 * i)) = zv (polymul (ntt f) (ntt g) ! (2 * i))"
      by simp
    show "zv (ntt (schoolbook f g) ! (2 * i + 1)) = zv (polymul (ntt f) (ntt g) ! (2 * i + 1))"
      unfolding ntt_schoolbook [OF assms i one_less] zv_polymul [OF w i]
        at [OF assms(1)] at [OF assms(2)] mon_add [THEN conjunct1] mon_add [THEN conjunct2] sum_product3
      by (simp only: ring_distribs sum.distrib)
  qed
qed (use assms in simp_all)

lemma ntt_product:
  assumes "wf_poly f" "wf_poly g"
  shows "intt (polymul (ntt f) (ntt g)) = schoolbook f g"
  using intt_ntt [OF wf_schoolbook [OF assms]] by (simp only: ntt_schoolbook_polymul [OF assms])

section \<open>Properties\<close>

text \<open>
  C14: multiplying in the transformed domain multiplies polynomials modulo \<open>X\<^sup>2\<^sup>5\<^sup>6 + 1\<close>: coefficient \<open>k\<close> of the inverse
  transform of \<open>polymul\<close> of two transforms is the sum of the products of coefficients whose indices add up to \<open>k\<close>, those
  that wrap around with the opposite sign.\<close>

theorem ntt_multiplies:
  assumes "wf_poly f" "wf_poly g" "k < 256"
  shows "canon (intt (polymul (ntt f) (ntt g)) ! k) \<and>
    zv (intt (polymul (ntt f) (ntt g)) ! k) =
      (\<Sum>i<256. zv (f ! i) * (if i \<le> k then zv (g ! (k - i)) else - zv (g ! (k + 256 - i))))"
  using schoolbook_nth [OF assms] by (simp add: ntt_product [OF assms(1,2)])

theorem ntt_multiplies_witness:
  "zv (intt (polymul (ntt (0 # 1 # replicate 254 0)) (ntt (replicate 255 0 @ [1]))) ! 0) =
    (\<Sum>i<256. zv ((0 # 1 # replicate 254 0) ! i) *
       (if i \<le> 0 then zv ((replicate 255 0 @ [1]) ! (0 - i)) else - zv ((replicate 255 0 @ [1]) ! (0 + 256 - i))))"
proof -
  have "wf_poly (0 # 1 # replicate 254 0)" "wf_poly (replicate 255 0 @ [1])"
    by (simp_all add: wf_poly_def list_all_iff)
  from ntt_multiplies [OF this, of 0] show ?thesis
    by simp
qed

end
