(* ===== verification/Kem_Ring.thy ===== *)
theory Kem_Ring
  imports Kem_Conv
begin

text \<open>
  The canonical polynomials form a commutative ring under coefficientwise addition and the product of
  \<open>ml_kem_ntt::polymul\<close>.  The type \<open>rq\<close> holds them, so that the sums and the algebra of the library apply to what the
  matrix routines compute; the two transforms are additive maps on it that undo each other.
\<close>

definition padd :: "poly \<Rightarrow> poly \<Rightarrow> poly" where
  "padd p q = map2 zq_add p q"

definition psub :: "poly \<Rightarrow> poly \<Rightarrow> poly" where
  "psub p q = map2 zq_sub p q"

definition pzero :: poly where
  "pzero = replicate 256 0"

lemma padd_nth: "wf_poly p \<Longrightarrow> wf_poly q \<Longrightarrow> j < 256 \<Longrightarrow> padd p q ! j = zq_add (p ! j) (q ! j)"
  and psub_nth: "wf_poly p \<Longrightarrow> wf_poly q \<Longrightarrow> j < 256 \<Longrightarrow> psub p q ! j = zq_sub (p ! j) (q ! j)"
  and pzero_nth: "j < 256 \<Longrightarrow> pzero ! j = 0"
  by (simp_all add: padd_def psub_def pzero_def)

lemma wf_padd [simp]: "wf_poly p \<Longrightarrow> wf_poly q \<Longrightarrow> wf_poly (padd p q)"
  by (rule wf_polyI) (simp_all add: padd_nth wf_poly_nth, simp add: padd_def)

lemma wf_psub [simp]: "wf_poly p \<Longrightarrow> wf_poly q \<Longrightarrow> wf_poly (psub p q)"
  by (rule wf_polyI) (simp_all add: psub_nth wf_poly_nth, simp add: psub_def)

lemma wf_pzero [simp]: "wf_poly pzero"
  by (rule wf_polyI) (simp_all add: pzero_nth, simp add: pzero_def)

lemma zv_padd: "wf_poly p \<Longrightarrow> wf_poly q \<Longrightarrow> j < 256 \<Longrightarrow> zv (padd p q ! j) = zv (p ! j) + zv (q ! j)"
  and zv_psub: "wf_poly p \<Longrightarrow> wf_poly q \<Longrightarrow> j < 256 \<Longrightarrow> zv (psub p q ! j) = zv (p ! j) - zv (q ! j)"
  and zv_pzero: "j < 256 \<Longrightarrow> zv (pzero ! j) = 0"
  by (simp_all add: padd_nth psub_nth pzero_nth zv_add zv_sub wf_poly_nth)

lemmas zv_linear = zv_padd zv_psub zv_pzero

lemma pair_indices: "(i :: nat) < 128 \<Longrightarrow> 2 * i < 256" "(i :: nat) < 128 \<Longrightarrow> 2 * i + 1 < 256"
  by simp_all

section \<open>The ring\<close>

lemma polymul_eqI:
  assumes "wf_poly p" "wf_poly q"
    "\<And>i. i < 128 \<Longrightarrow> zv (p ! (2 * i)) = zv (q ! (2 * i)) \<and> zv (p ! (2 * i + 1)) = zv (q ! (2 * i + 1))"
  shows "p = q"
proof (rule wf_poly_eqI [OF assms(1,2)])
  show "zv (p ! j) = zv (q ! j)" if "j < 256" for j
    using that by (rule index_pairs) (use assms(3) in auto)
qed

typedef rq = "{p. wf_poly p}"
  using wf_pzero by (intro exI [of _ pzero]) simp

setup_lifting type_definition_rq

instantiation rq :: comm_ring
begin

lift_definition zero_rq :: rq is pzero
  by simp

lift_definition plus_rq :: "rq \<Rightarrow> rq \<Rightarrow> rq" is padd
  by simp

lift_definition minus_rq :: "rq \<Rightarrow> rq \<Rightarrow> rq" is psub
  by simp

lift_definition uminus_rq :: "rq \<Rightarrow> rq" is "psub pzero"
  by simp

lift_definition times_rq :: "rq \<Rightarrow> rq \<Rightarrow> rq" is polymul
  by simp

instance
proof
  fix a b c :: rq
  show "a * b * c = a * (b * c)"
    by transfer (rule polymul_eqI; (simp only: zv_polymul wf_polymul)?; simp add: algebra_simps)
  show "a * b = b * a"
    by transfer (rule polymul_eqI; (simp only: zv_polymul wf_polymul)?; simp add: algebra_simps)
  show "(a + b) * c = a * c + b * c"
    by transfer (rule polymul_eqI; (simp only: zv_polymul zv_padd wf_polymul wf_padd pair_indices)?; simp add: algebra_simps)
  show "a + b + c = a + (b + c)" "a + b = b + a" "0 + a = a" "- a + a = 0" "a - b = a + - b"
    by (transfer; rule wf_poly_eqI; simp add: zv_linear)+
qed

end

section \<open>The transforms\<close>

lift_definition ring_ntt :: "rq \<Rightarrow> rq" is ntt
  by simp

lift_definition ring_intt :: "rq \<Rightarrow> rq" is intt
  by simp

lemma ring_intt_ntt [simp]: "ring_intt (ring_ntt a) = a" and ring_ntt_intt [simp]: "ring_ntt (ring_intt a) = a"
  by (transfer, simp add: intt_ntt ntt_intt)+

lemma ring_ntt_add: "ring_ntt (a + b) = ring_ntt a + ring_ntt b"
proof transfer
  fix p q
  assume pq: "wf_poly p" "wf_poly q"
  show "ntt (padd p q) = padd (ntt p) (ntt q)"
  proof (rule wf_poly_eqI)
    show "zv (ntt (padd p q) ! j) = zv (padd (ntt p) (ntt q) ! j)" if j: "j < 256" for j
    proof -
      have j2: "j = 2 * (j div 2) + j mod 2" "j div 2 < 128" "j mod 2 < 2"
        using j by auto
      have "zv (ntt r ! j) = (\<Sum>k<256. zv (r ! k) * mon (j div 2) k (j mod 2))" if "wf_poly r" for r
        using zv_ntt [OF that j2(2,3)] j2(1) by simp
      then show ?thesis
        using pq j by (simp add: zv_padd distrib_right sum.distrib)
    qed
  qed (use pq in simp_all)
qed

lemma ring_ntt_0 [simp]: "ring_ntt 0 = 0"
  using ring_ntt_add [of 0 0] by simp

lemma ring_ntt_diff: "ring_ntt (a - b) = ring_ntt a - ring_ntt b"
  using ring_ntt_add [of "a - b" b] by simp

lemma ring_intt_add: "ring_intt (a + b) = ring_intt a + ring_intt b"
  using ring_ntt_add [of "ring_intt a" "ring_intt b"] ring_intt_ntt [of "ring_intt a + ring_intt b"] by simp

lemma ring_intt_0 [simp]: "ring_intt 0 = 0"
  using ring_intt_ntt [of 0] by simp

lemma ring_intt_diff: "ring_intt (a - b) = ring_intt a - ring_intt b"
  using ring_intt_add [of "a - b" b] by simp

lemma ring_ntt_sum: "ring_ntt (\<Sum>i<n. f i) = (\<Sum>i<n. ring_ntt (f i))" for n :: nat
  by (induction n) (simp_all add: ring_ntt_add)

section \<open>Reading a list of coefficients in the ring\<close>

definition rq :: "poly \<Rightarrow> rq" where
  "rq p = Abs_rq p"

lemma rq_inject: "wf_poly p \<Longrightarrow> wf_poly q \<Longrightarrow> rq p = rq q \<longleftrightarrow> p = q"
  by (simp add: rq_def Abs_rq_inject)

lemma rq_ops:
  assumes "wf_poly p" "wf_poly q"
  shows "rq (padd p q) = rq p + rq q" "rq (psub p q) = rq p - rq q" "rq (polymul p q) = rq p * rq q"
  using assms by (simp_all add: rq_def plus_rq.abs_eq minus_rq.abs_eq times_rq.abs_eq eq_onp_def)

lemma rq_transforms:
  assumes "wf_poly p"
  shows "rq (ntt p) = ring_ntt (rq p)" "rq (intt p) = ring_intt (rq p)"
  using assms by (simp_all add: rq_def ring_ntt.abs_eq ring_intt.abs_eq eq_onp_def)

lemma rq_pzero: "rq pzero = 0"
  by (simp add: rq_def zero_rq_def)

end
