(* ===== verification/Kem_Compress.thy ===== *)
theory Kem_Compress
  imports Kem_Ntt
begin

text \<open>
  Compression of coefficients (\<open>compress\<close>, \<open>decompress\<close> and their polynomial versions in \<open>namespace
  ml_kem_utils\<close>) and the compile-time checks of \<open>namespace ml_kem_params\<close> that guard their parameters.
\<close>

section \<open>Parameter checks\<close>

definition check_d :: "nat \<Rightarrow> bool" where
  "check_d d \<longleftrightarrow> d < Q_BIT_WIDTH"

definition check_eta :: "nat \<Rightarrow> bool" where
  "check_eta eta \<longleftrightarrow> eta = 2 \<or> eta = 3"

definition check_k :: "nat \<Rightarrow> bool" where
  "check_k k \<longleftrightarrow> k = 2 \<or> k = 3 \<or> k = 4"

definition check_l :: "nat \<Rightarrow> bool" where
  "check_l l \<longleftrightarrow> l = 1 \<or> l = 4 \<or> l = 5 \<or> l = 10 \<or> l = 11 \<or> l = 12"

definition check_matrix_dim :: "nat \<Rightarrow> nat \<Rightarrow> bool" where
  "check_matrix_dim a_cols b_rows \<longleftrightarrow> a_cols XOR b_rows = 0"

definition check_keygen_params :: "nat \<Rightarrow> nat \<Rightarrow> bool" where
  "check_keygen_params k eta1 \<longleftrightarrow> k = 2 \<and> eta1 = 3 \<or> k = 3 \<and> eta1 = 2 \<or> k = 4 \<and> eta1 = 2"

definition check_encrypt_params :: "nat \<Rightarrow> nat \<Rightarrow> nat \<Rightarrow> nat \<Rightarrow> nat \<Rightarrow> bool" where
  "check_encrypt_params k eta1 eta2 du dv \<longleftrightarrow>
     k = 2 \<and> eta1 = 3 \<and> eta2 = 2 \<and> du = 10 \<and> dv = 4 \<or>
     k = 3 \<and> eta1 = 2 \<and> eta2 = 2 \<and> du = 10 \<and> dv = 4 \<or>
     k = 4 \<and> eta1 = 2 \<and> eta2 = 2 \<and> du = 11 \<and> dv = 5"

definition check_decrypt_params :: "nat \<Rightarrow> nat \<Rightarrow> nat \<Rightarrow> bool" where
  "check_decrypt_params k du dv \<longleftrightarrow>
     k = 2 \<and> du = 10 \<and> dv = 4 \<or> k = 3 \<and> du = 10 \<and> dv = 4 \<or> k = 4 \<and> du = 11 \<and> dv = 5"

definition check_encap_params :: "nat \<Rightarrow> nat \<Rightarrow> nat \<Rightarrow> nat \<Rightarrow> nat \<Rightarrow> bool" where
  "check_encap_params k eta1 eta2 du dv = check_encrypt_params k eta1 eta2 du dv"

definition check_decap_params :: "nat \<Rightarrow> nat \<Rightarrow> nat \<Rightarrow> nat \<Rightarrow> nat \<Rightarrow> bool" where
  "check_decap_params k eta1 eta2 du dv = check_encap_params k eta1 eta2 du dv"

section \<open>Operations\<close>

definition compress :: "nat \<Rightarrow> zq_t \<Rightarrow> zq_t" where
  "compress d x =
     (let msk = (ucast (push_bit d 1 - 1 :: u32) :: u16);
          dividend = push_bit d x;
          quotient0 = (ucast (drop_bit (Q_BIT_WIDTH * 2) ((ucast dividend :: u64) * ucast R)) :: u32);
          remainder = dividend - quotient0 * Q;
          quotient1 = quotient0 + (drop_bit 31 (Q div 2 - remainder) AND 1);
          quotient2 = quotient1 + (drop_bit 31 (Q + Q div 2 - remainder) AND 1)
      in zq_t (ucast quotient2 AND msk))"

definition decompress :: "nat \<Rightarrow> zq_t \<Rightarrow> zq_t" where
  "decompress d x =
     (let t0 = (push_bit d 1 :: u32);
          t1 = drop_bit 1 t0;
          t2 = Q * x;
          t3 = t2 + t1;
          t4 = (ucast (drop_bit d t3) :: u16)
      in zq_t t4)"

definition poly_compress :: "nat \<Rightarrow> poly \<Rightarrow> poly" where
  "poly_compress d poly = fold (\<lambda>i p. p[i := compress d (p ! i)]) [0..<length poly] poly"

definition poly_decompress :: "nat \<Rightarrow> poly \<Rightarrow> poly" where
  "poly_decompress d poly = fold (\<lambda>i p. p[i := decompress d (p ! i)]) [0..<length poly] poly"

lemma poly_compress_map: "poly_compress d p = map (compress d) p"
  using fold_update_map [of "length p" p "compress d"] by (simp add: poly_compress_def)

lemma poly_decompress_map: "poly_decompress d p = map (decompress d) p"
  using fold_update_map [of "length p" p "decompress d"] by (simp add: poly_decompress_def)

section \<open>Compression rounds\<close>

text \<open>\<open>\<lceil>2\<^sup>d x / q\<rfloor> mod 2\<^sup>d\<close> and \<open>\<lceil>q y / 2\<^sup>d\<rfloor>\<close>, the formulas 4.7 and 4.8 of the standard.\<close>

definition round_div :: "nat \<Rightarrow> nat \<Rightarrow> nat" where
  "round_div a b = (2 * a + b) div (2 * b)"

lemma round_div_odd: "round_div a 3329 = (a + 1664) div 3329"
proof -
  have "round_div a 3329 = (2 * (a + 1664) + 1) div 2 div 3329"
    by (simp add: round_div_def div_mult2_eq)
  then show ?thesis
    by simp
qed

lemma sign_bit:
  assumes "unat (a :: u32) < 2 ^ 31" "unat b < 2 ^ 31"
  shows "drop_bit 31 (a - b) AND 1 = of_bool (a < b)"
proof (cases "a < b")
  case True
  then have "unat (a - b) = 2 ^ 32 + unat a - unat b"
    by (simp add: word_less_nat_alt unat_sub_if')
  then have "unat (drop_bit 31 (a - b)) = 1"
    using True assms by (simp add: unat_drop_bit_eq drop_bit_eq_div [where ?'a = nat] word_less_nat_alt div_nat_eqI)
  then have "drop_bit 31 (a - b) = 1"
    by (metis unat_1 word_unat_eq_iff)
  with True show ?thesis
    by simp
next
  case False
  then have "unat (a - b) = unat a - unat b"
    by (simp add: word_less_nat_alt unat_sub_if')
  then have "unat (drop_bit 31 (a - b)) = 0"
    using assms by (simp add: unat_drop_bit_eq drop_bit_eq_div [where ?'a = nat])
  then have "drop_bit 31 (a - b) = 0"
    by (simp add: unat_eq_0)
  with False show ?thesis
    by simp
qed

lemma two_step_quotient:
  fixes v t :: nat
  assumes "t * 3329 \<le> v" "v - t * 3329 < 6658"
  shows "t + of_bool (1664 < v - t * 3329) + of_bool (4993 < v - t * 3329) = (v + 1664) div 3329"
  using assms by (intro div_nat_eqI [symmetric]) (auto simp: algebra_simps of_bool_def)

lemma compress_quotient:
  assumes "unat v < 2 ^ 24"
  defines "q0 \<equiv> (ucast (drop_bit 24 ((ucast v :: u64) * 5039)) :: u32)"
  shows "unat (q0 + (drop_bit 31 (1664 - (v - q0 * 3329)) AND 1) + (drop_bit 31 (4993 - (v - q0 * 3329)) AND 1))
    = (unat v + 1664) div 3329"
proof -
  define t where "t = unat v * 5039 div 2 ^ 24"
  note b = barrett_quotient [OF assms(1), folded t_def]
  have q0: "unat q0 = t"
    unfolding q0_def t_def using assms(1) by (rule barrett_quotient_word)
  then have "unat (q0 * 3329) = t * 3329"
    using b(3) by (subst unat_mult_lem [THEN iffD1]) simp_all
  then have r: "unat (v - q0 * 3329) = unat v - t * 3329"
    using b(1) by (simp add: unat_sub_if')
  then have s: "drop_bit 31 (1664 - (v - q0 * 3329)) AND 1 = of_bool (1664 < unat v - t * 3329)"
    "drop_bit 31 (4993 - (v - q0 * 3329)) AND 1 = of_bool (4993 < unat v - t * 3329)"
    using b(2) by (simp_all add: sign_bit word_less_nat_alt)
  have "unat (q0 + of_bool (1664 < unat v - t * 3329) + of_bool (4993 < unat v - t * 3329))
      = t + of_bool (1664 < unat v - t * 3329) + of_bool (4993 < unat v - t * 3329)"
    using q0 b(3) by (auto simp: unat_word_ariths of_bool_def)
  then show ?thesis
    unfolding s using two_step_quotient [OF b(1,2)] by simp
qed

lemma unat_compress:
  assumes "d < 12" "canon x"
  shows "unat (compress d x) = round_div (2 ^ d * unat x) 3329 mod 2 ^ d"
proof -
  have p: "(2 :: nat) ^ d \<le> 2 ^ 11"
    using assms(1) by (intro power_increasing) simp_all
  have x: "unat x \<le> 3328"
    using assms(2) by (simp add: canon_iff)
  have lt: "2 ^ d * unat x \<le> 2048 * 3328"
    using mult_le_mono [OF p x] by simp
  have v: "unat (push_bit d x) = 2 ^ d * unat x"
    using lt by (simp add: unsigned_push_bit_eq push_bit_eq_mult [where ?'a = nat] take_bit_nat_eq_self mult.commute)
  then have v24: "unat (push_bit d x) < 2 ^ 24"
    using lt by simp
  let ?q0 = "ucast (drop_bit 24 ((ucast (push_bit d x) :: u64) * 5039)) :: u32"
  let ?q2 = "?q0 + (drop_bit 31 (1664 - (push_bit d x - ?q0 * 3329)) AND 1) + (drop_bit 31 (4993 - (push_bit d x - ?q0 * 3329)) AND 1)"
  have q2: "unat ?q2 = round_div (2 ^ d * unat x) 3329"
    using compress_quotient [OF v24] by (simp only: v round_div_odd)
  have mk: "(ucast (push_bit d 1 - 1 :: u32) :: u16) = mask d"
    using assms(1) by (intro bit_word_eqI) (auto simp: bit_simps mask_eq_exp_minus_1 [symmetric] push_bit_of_1)
  have "compress d x = zq_t (ucast ?q2 AND mask d)"
    unfolding compress_def Let_def mk by (simp add: Q_val R_val Q_BIT_WIDTH_val)
  then have "unat (compress d x) = unat (take_bit d (ucast ?q2 :: u16))"
    by (simp only: unat_zq_t take_bit_eq_mask)
  also have "\<dots> = take_bit d (unat (ucast ?q2 :: u16))"
    by (simp add: unsigned_take_bit_eq)
  also have "\<dots> = take_bit d (unat ?q2)"
    using assms(1) by (simp add: unsigned_ucast_eq min_absorb1)
  also have "\<dots> = round_div (2 ^ d * unat x) 3329 mod 2 ^ d"
    unfolding q2 by (rule take_bit_eq_mod)
  finally show ?thesis .
qed

lemma unat_decompress:
  assumes "d < 12" "unat y < 2 ^ d"
  shows "unat (decompress d y) = (3329 * unat y + 2 ^ d div 2) div 2 ^ d" and "canon (decompress d y)"
proof -
  have p: "(2 :: nat) ^ d \<le> 2 ^ 11"
    using assms(1) by (intro power_increasing) simp_all
  have t2: "unat (3329 * y) = 3329 * unat y"
    using assms(2) p by (subst unat_mult_lem [THEN iffD1]) simp_all
  have t1: "unat (drop_bit 1 (push_bit d 1 :: u32)) = 2 ^ d div 2"
    using assms(1) p by (subst unat_drop_bit_eq, subst unsigned_push_bit_eq)
      (simp add: drop_bit_eq_div [where ?'a = nat] push_bit_eq_mult [where ?'a = nat] take_bit_nat_eq_self)
  have t3: "unat (3329 * y + drop_bit 1 (push_bit d 1 :: u32)) = 3329 * unat y + 2 ^ d div 2"
    using assms(2) p t1 t2 by (subst unat_add_lem [THEN iffD1]) simp_all
  have "3329 * unat y + 2 ^ d div 2 < 3329 * 2 ^ d"
  proof -
    have "3329 * unat y + 3329 \<le> 3329 * 2 ^ d"
      using assms(2) by simp
    with p show ?thesis
      by simp
  qed
  then have lt: "(3329 * unat y + 2 ^ d div 2) div 2 ^ d < 3329"
    by (simp add: less_mult_imp_div_less)
  then show e: "unat (decompress d y) = (3329 * unat y + 2 ^ d div 2) div 2 ^ d"
    using t3 by (simp add: decompress_def Let_def Q_val unat_zq_t unat_ucast_small unat_drop_bit_eq drop_bit_eq_div [where ?'a = nat])
  then show "canon (decompress d y)"
    using lt by (simp add: canon_iff)
qed

lemma decompress_round:
  assumes "0 < d"
  shows "(3329 * y + 2 ^ d div 2) div 2 ^ d = round_div (3329 * y) (2 ^ d)"
proof -
  obtain c where d: "d = Suc c"
    using assms by (cases d) simp_all
  have "2 * (3329 * y) + 2 ^ d = 2 * (3329 * y + 2 ^ d div 2)"
    by (simp add: d)
  then show ?thesis
    unfolding round_div_def by (simp only: div_mult_mult1 zero_neq_numeral [symmetric] not_False_eq_True)
qed

lemma compress_canon: "d < 12 \<Longrightarrow> canon x \<Longrightarrow> unat (compress d x) < 2 ^ d"
  by (simp add: unat_compress)

lemma compress_decompress:
  assumes "d < 12" "unat y < 2 ^ d"
  shows "compress d (decompress d y) = y"
proof -
  define D where "D = (3329 * unat y + 2 ^ d div 2) div 2 ^ d"
  have p: "(2 :: nat) ^ d \<le> 2048"
    using assms(1) power_increasing [of d 11 "2 :: nat"] by simp
  have lo: "2 ^ d * D \<le> 3329 * unat y + 2 ^ d div 2"
    unfolding D_def by (rule times_div_less_eq_dividend)
  have hi: "3329 * unat y + 2 ^ d div 2 < 2 ^ d + 2 ^ d * D"
    unfolding D_def by (rule dividend_less_times_div) simp
  have "(2 ^ d * D + 1664) div 3329 = unat y"
  proof (rule div_nat_eqI)
    show "3329 * unat y \<le> 2 ^ d * D + 1664"
      using hi p by linarith
    show "2 ^ d * D + 1664 < 3329 * Suc (unat y)"
      using lo p by simp
  qed
  then have "unat (compress d (decompress d y)) = unat y"
    using assms unat_decompress [OF assms] by (simp add: unat_compress round_div_odd D_def)
  then show ?thesis
    by (simp add: word_unat_eq_iff)
qed

text \<open>The distance that compression and decompression move an element, modulo \<open>Q\<close>.\<close>

lemma decompress_compress_error:
  assumes "0 < d" "d < 12" "canon x"
  shows "\<exists>e :: int. \<bar>e\<bar> \<le> (3329 + 2 ^ d) div 2 ^ (d + 1) \<and> zv (decompress d (compress d x)) = zv x + of_int e"
proof -
  define q where "q = (2 ^ d * unat x + 1664) div 3329"
  define D where "D = (3329 * q + 2 ^ d div 2) div 2 ^ d"
  define e where "e = int D - int (unat x)"
  obtain c where c: "d = Suc c"
    using assms(1) by (cases d) simp_all
  have p: "(2 :: nat) ^ d \<le> 2 ^ 11"
    using assms(2) by (intro power_increasing) simp_all
  have q1: "3329 * q \<le> 2 ^ d * unat x + 1664"
    unfolding q_def by (rule times_div_less_eq_dividend)
  have q2: "2 ^ d * unat x + 1664 < 3329 + 3329 * q"
    unfolding q_def by (rule dividend_less_times_div) simp
  have D1: "2 ^ d * D \<le> 3329 * q + 2 ^ c"
    unfolding D_def using times_div_less_eq_dividend [of "2 ^ d"] by (simp add: c)
  have D2: "3329 * q + 2 ^ c < 2 ^ d + 2 ^ d * D"
    unfolding D_def using dividend_less_times_div [of "2 ^ d"] by (simp add: c)
  have "int (2 ^ d * D) \<le> int (2 ^ d * unat x + 1664 + 2 ^ c)"
    using q1 D1 by linarith
  then have u: "2 ^ d * e \<le> 1664 + 2 ^ c"
    by (simp add: e_def right_diff_distrib)
  have "2 ^ d * unat x < 1665 + 2 ^ c + 2 ^ d * D"
    using q2 D2 unfolding c by simp
  then have "int (2 ^ d * unat x) < int (1665 + 2 ^ c + 2 ^ d * D)"
    by (simp only: of_nat_less_iff)
  then have l: "2 ^ d * (- e) < 1665 + 2 ^ c"
    by (simp add: e_def right_diff_distrib)
  have bound: "m \<le> (3329 + 2 ^ d) div 2 ^ (d + 1)" if "2 ^ d * m \<le> 1664 + (2 :: int) ^ c" for m :: int
  proof -
    have "m * 2 ^ (d + 1) \<le> 3329 + 2 ^ d"
      using that by (simp add: c mult.commute)
    then have "m * 2 ^ (d + 1) div 2 ^ (d + 1) \<le> (3329 + 2 ^ d) div 2 ^ (d + 1)"
      by (intro zdiv_mono1) simp_all
    then show ?thesis
      by (simp only: nonzero_mult_div_cancel_right power_not_zero zero_neq_numeral [symmetric] not_False_eq_True)
  qed
  have "\<bar>e\<bar> \<le> (3329 + 2 ^ d) div 2 ^ (d + 1)"
    using bound [OF u] bound [of "- e"] l by (simp add: abs_le_iff)
  moreover have "zv (decompress d (compress d x)) = of_nat D"
  proof -
    have "q \<le> 2 ^ d"
    proof -
      have "2 ^ d * unat x \<le> 2 ^ d * 3328"
        using assms(3) by (intro mult_le_mono) (simp_all add: canon_iff)
      then show ?thesis
        using q1 by linarith
    qed
    have cx: "unat (compress d x) = q mod 2 ^ d"
      using assms by (simp add: unat_compress round_div_odd q_def)
    show ?thesis
    proof (cases "q = 2 ^ d")
      case True
      then have "D = 3329"
        unfolding D_def by (intro div_nat_eqI) simp_all
      moreover have "unat (decompress d (compress d x)) = 0"
        using cx True assms by (simp add: unat_decompress)
      ultimately show ?thesis
        by (simp add: zv_def)
    next
      case False
      with \<open>q \<le> 2 ^ d\<close> have "unat (compress d x) = q" "q < 2 ^ d"
        using cx by simp_all
      then show ?thesis
        using assms by (simp add: zv_def unat_decompress D_def)
    qed
  qed
  then have "zv (decompress d (compress d x)) = zv x + of_int e"
    by (simp add: e_def zv_def)
  ultimately show ?thesis
    by blast
qed

section \<open>Properties\<close>

text \<open>
  C32: compression rounds \<open>2\<^sup>d x / q\<close> modulo \<open>2\<^sup>d\<close> and decompression rounds \<open>q y / 2\<^sup>d\<close>, although both are computed without
  division; compressing a decompressed number gives it back, and decompressing a compressed element changes it by
  at most \<open>q / 2\<^sup>d\<^sup>+\<^sup>1\<close>, rounded.\<close>

theorem compress_rounds:
  assumes "0 < d" "d < 12" "canon x" "unat y < 2 ^ d"
  shows "unat (compress d x) = round_div (2 ^ d * unat x) 3329 mod 2 ^ d \<and>
    unat (decompress d y) = round_div (3329 * unat y) (2 ^ d) \<and> canon (decompress d y) \<and>
    compress d (decompress d y) = y \<and>
    (\<exists>e :: int. \<bar>e\<bar> \<le> (3329 + 2 ^ d) div 2 ^ (d + 1) \<and> zv (decompress d (compress d x)) = zv x + of_int e)"
  using unat_compress [OF assms(2,3)] unat_decompress [OF assms(2,4)] decompress_round [OF assms(1), of "unat y"]
    compress_decompress [OF assms(2,4)] decompress_compress_error [OF assms(1-3)]
  by simp

theorem compress_rounds_witness:
  "unat (compress 4 1700) = 8 \<and> unat (decompress 4 8) = 1665"
  using compress_rounds [of 4 1700 8] by (simp add: canon_iff round_div_def)

end
