(* ===== verification/Kem_Code.thy ===== *)
theory Kem_Code
  imports Kem_Compress
begin

text \<open>
  Serialisation of polynomials (\<open>encode\<close> and \<open>decode\<close> of \<open>namespace ml_kem_utils\<close>).  Each width \<open>l\<close> has its own
  packing of a group of coefficients into bytes, as in the branches of the two templates; a loop writes the
  groups one after the other.  The facts below compare every packing with one reference: bit \<open>x\<close> of the
  serialisation is bit \<open>x mod l\<close> of coefficient \<open>x div l\<close>.
\<close>

section \<open>Packing a group of coefficients\<close>

abbreviation byte :: "u32 \<Rightarrow> u8" where
  "byte w \<equiv> ucast w"

definition encode_1 :: "(nat \<Rightarrow> zq_t) \<Rightarrow> bytes" where
  "encode_1 t =
     [push_bit 7 (byte (t 7 AND 1)) OR push_bit 6 (byte (t 6 AND 1)) OR push_bit 5 (byte (t 5 AND 1)) OR
      push_bit 4 (byte (t 4 AND 1)) OR push_bit 3 (byte (t 3 AND 1)) OR push_bit 2 (byte (t 2 AND 1)) OR
      push_bit 1 (byte (t 1 AND 1)) OR push_bit 0 (byte (t 0 AND 1))]"

definition encode_4 :: "(nat \<Rightarrow> zq_t) \<Rightarrow> bytes" where
  "encode_4 t = [push_bit 4 (byte (t 1 AND 15)) OR byte (t 0 AND 15)]"

definition encode_5 :: "(nat \<Rightarrow> zq_t) \<Rightarrow> bytes" where
  "encode_5 t =
     [push_bit 5 (byte (t 1 AND 7)) OR push_bit 0 (byte (t 0 AND 31)),
      push_bit 7 (byte (t 3 AND 1)) OR push_bit 2 (byte (t 2 AND 31)) OR byte (drop_bit 3 (t 1) AND 3),
      push_bit 4 (byte (t 4 AND 15)) OR byte (drop_bit 1 (t 3) AND 15),
      push_bit 6 (byte (t 6 AND 3)) OR push_bit 1 (byte (t 5 AND 31)) OR byte (drop_bit 4 (t 4) AND 1),
      push_bit 3 (byte (t 7 AND 31)) OR byte (drop_bit 2 (t 6) AND 7)]"

definition encode_10 :: "(nat \<Rightarrow> zq_t) \<Rightarrow> bytes" where
  "encode_10 t =
     [byte (t 0),
      byte (push_bit 2 (t 1 AND 63)) OR byte (drop_bit 8 (t 0) AND 3),
      byte (push_bit 4 (t 2 AND 15)) OR byte (drop_bit 6 (t 1) AND 15),
      byte (push_bit 6 (t 3 AND 3)) OR byte (drop_bit 4 (t 2) AND 63),
      byte (drop_bit 2 (t 3))]"

definition encode_11 :: "(nat \<Rightarrow> zq_t) \<Rightarrow> bytes" where
  "encode_11 t =
     [byte (t 0 AND 255),
      byte (push_bit 3 (t 1 AND 31)) OR byte (drop_bit 8 (t 0) AND 7),
      byte (push_bit 6 (t 2 AND 3)) OR byte (drop_bit 5 (t 1) AND 63),
      byte (drop_bit 2 (t 2) AND 255),
      byte (push_bit 1 (t 3 AND 127)) OR byte (drop_bit 10 (t 2) AND 1),
      byte (push_bit 4 (t 4 AND 15)) OR byte (drop_bit 7 (t 3) AND 15),
      byte (push_bit 7 (t 5 AND 1)) OR byte (drop_bit 4 (t 4) AND 127),
      byte (drop_bit 1 (t 5) AND 255),
      byte (push_bit 2 (t 6 AND 63)) OR byte (drop_bit 9 (t 5) AND 3),
      byte (push_bit 5 (t 7 AND 7)) OR byte (drop_bit 6 (t 6) AND 31),
      byte (drop_bit 3 (t 7) AND 255)]"

definition encode_12 :: "(nat \<Rightarrow> zq_t) \<Rightarrow> bytes" where
  "encode_12 t =
     [byte (t 0),
      byte (push_bit 4 (t 1 AND 15)) OR byte (drop_bit 8 (t 0) AND 15),
      byte (drop_bit 4 (t 1))]"

text \<open>The number of coefficients in a group and the packing of a group, by the width.\<close>

definition group_size :: "nat \<Rightarrow> nat" where
  "group_size l = (if l = 1 then 8 else if l = 4 then 2 else if l = 5 then 8 else if l = 10 then 4 else if l = 11 then 8 else 2)"

definition encode_group :: "nat \<Rightarrow> (nat \<Rightarrow> zq_t) \<Rightarrow> bytes" where
  "encode_group l =
     (if l = 1 then encode_1 else if l = 4 then encode_4 else if l = 5 then encode_5
      else if l = 10 then encode_10 else if l = 11 then encode_11 else encode_12)"

definition encode :: "nat \<Rightarrow> poly \<Rightarrow> bytes" where
  "encode l poly = concat (map (\<lambda>i. encode_group l (\<lambda>k. poly ! (i * group_size l + k))) [0..<N div group_size l])"

section \<open>Unpacking\<close>

abbreviation half :: "u8 \<Rightarrow> u16" where
  "half w \<equiv> ucast w"

definition decode_1 :: "(nat \<Rightarrow> u8) \<Rightarrow> zq_t list" where
  "decode_1 a =
     [zq_t (half (drop_bit 0 (a 0) AND 1)), zq_t (half (drop_bit 1 (a 0) AND 1)), zq_t (half (drop_bit 2 (a 0) AND 1)),
      zq_t (half (drop_bit 3 (a 0) AND 1)), zq_t (half (drop_bit 4 (a 0) AND 1)), zq_t (half (drop_bit 5 (a 0) AND 1)),
      zq_t (half (drop_bit 6 (a 0) AND 1)), zq_t (half (drop_bit 7 (a 0) AND 1))]"

definition decode_4 :: "(nat \<Rightarrow> u8) \<Rightarrow> zq_t list" where
  "decode_4 a = [zq_t (half (drop_bit 0 (a 0) AND 15)), zq_t (half (drop_bit 4 (a 0) AND 15))]"

definition decode_5 :: "(nat \<Rightarrow> u8) \<Rightarrow> zq_t list" where
  "decode_5 a =
     [zq_t (half (a 0 AND 31)),
      zq_t (push_bit 3 (half (a 1 AND 3)) OR half (drop_bit 5 (a 0) AND 7)),
      zq_t (half (drop_bit 2 (a 1) AND 31)),
      zq_t (push_bit 1 (half (a 2 AND 15)) OR half (drop_bit 7 (a 1) AND 1)),
      zq_t (push_bit 4 (half (a 3 AND 1)) OR half (drop_bit 4 (a 2) AND 15)),
      zq_t (half (drop_bit 1 (a 3) AND 31)),
      zq_t (push_bit 2 (half (a 4 AND 7)) OR half (drop_bit 6 (a 3) AND 3)),
      zq_t (half (drop_bit 3 (a 4) AND 31))]"

definition decode_10 :: "(nat \<Rightarrow> u8) \<Rightarrow> zq_t list" where
  "decode_10 a =
     [zq_t (push_bit 8 (half (a 1 AND 3)) OR half (a 0)),
      zq_t (push_bit 6 (half (a 2 AND 15)) OR half (drop_bit 2 (a 1))),
      zq_t (push_bit 4 (half (a 3 AND 63)) OR half (drop_bit 4 (a 2))),
      zq_t (push_bit 2 (half (a 4)) OR half (drop_bit 6 (a 3)))]"

definition decode_11 :: "(nat \<Rightarrow> u8) \<Rightarrow> zq_t list" where
  "decode_11 a =
     [zq_t (push_bit 8 (half (a 1 AND 7)) OR half (a 0)),
      zq_t (push_bit 5 (half (a 2 AND 63)) OR half (drop_bit 3 (a 1))),
      zq_t (push_bit 10 (half (a 4 AND 1)) OR push_bit 2 (half (a 3)) OR half (drop_bit 6 (a 2))),
      zq_t (push_bit 7 (half (a 5 AND 15)) OR half (drop_bit 1 (a 4))),
      zq_t (push_bit 4 (half (a 6 AND 127)) OR half (drop_bit 4 (a 5))),
      zq_t (push_bit 9 (half (a 8 AND 3)) OR push_bit 1 (half (a 7)) OR half (drop_bit 7 (a 6))),
      zq_t (push_bit 6 (half (a 9 AND 31)) OR half (drop_bit 2 (a 8))),
      zq_t (push_bit 3 (half (a 10)) OR half (drop_bit 5 (a 9)))]"

definition decode_12 :: "(nat \<Rightarrow> u8) \<Rightarrow> zq_t list" where
  "decode_12 a =
     [from_non_reduced (push_bit 8 (half (a 1 AND 15)) OR half (a 0)),
      from_non_reduced (push_bit 4 (half (a 2)) OR half (drop_bit 4 (a 1)))]"

definition decode_group :: "nat \<Rightarrow> (nat \<Rightarrow> u8) \<Rightarrow> zq_t list" where
  "decode_group l =
     (if l = 1 then decode_1 else if l = 4 then decode_4 else if l = 5 then decode_5
      else if l = 10 then decode_10 else if l = 11 then decode_11 else decode_12)"

definition decode :: "nat \<Rightarrow> bytes \<Rightarrow> poly" where
  "decode l arr =
     concat (map (\<lambda>i. decode_group l (\<lambda>k. arr ! (i * (group_size l * l div 8) + k))) [0..<N div group_size l])"

section \<open>Every packing is the bit stream of its coefficients\<close>

lemma encode_1_bits:
  "\<forall>i<1. \<forall>k<8. bit (encode_1 t ! i) k = bit (t ((8 * i + k) div 1)) ((8 * i + k) mod 1)"
  by (simp add: below_cases encode_1_def bit_simps bit_times_2, (simp add: numeral_2_eq_2 numeral_3_eq_3)?)

lemma encode_4_bits:
  "\<forall>i<1. \<forall>k<8. bit (encode_4 t ! i) k = bit (t ((8 * i + k) div 4)) ((8 * i + k) mod 4)"
  by (simp add: below_cases encode_4_def bit_simps bit_times_2, (simp add: numeral_2_eq_2 numeral_3_eq_3)?)

lemma encode_5_bits:
  "\<forall>i<5. \<forall>k<8. bit (encode_5 t ! i) k = bit (t ((8 * i + k) div 5)) ((8 * i + k) mod 5)"
  by (simp add: below_cases encode_5_def bit_simps bit_times_2, (simp add: numeral_2_eq_2 numeral_3_eq_3)?)

lemma encode_10_bits:
  "\<forall>i<5. \<forall>k<8. bit (encode_10 t ! i) k = bit (t ((8 * i + k) div 10)) ((8 * i + k) mod 10)"
  by (simp add: below_cases encode_10_def bit_simps bit_times_2, (simp add: numeral_2_eq_2 numeral_3_eq_3)?)

lemma encode_11_bits:
  "\<forall>i<11. \<forall>k<8. bit (encode_11 t ! i) k = bit (t ((8 * i + k) div 11)) ((8 * i + k) mod 11)"
  by (simp add: below_cases encode_11_def bit_simps bit_times_2, (simp add: numeral_2_eq_2 numeral_3_eq_3)?)

lemma encode_12_bits:
  "\<forall>i<3. \<forall>k<8. bit (encode_12 t ! i) k = bit (t ((8 * i + k) div 12)) ((8 * i + k) mod 12)"
  by (simp add: below_cases encode_12_def bit_simps bit_times_2, (simp add: numeral_2_eq_2 numeral_3_eq_3)?)

lemma decode_1_bits:
  "\<forall>i<8. \<forall>k<32. bit (decode_1 a ! i) k \<longleftrightarrow> k < 1 \<and> bit (a ((1 * i + k) div 8)) ((1 * i + k) mod 8)"
  by (simp add: below_cases decode_1_def zq_t_def bit_simps bit_times_2 byte_bit_beyond,
      (simp add: numeral_2_eq_2 numeral_3_eq_3)?)

lemma decode_4_bits:
  "\<forall>i<2. \<forall>k<32. bit (decode_4 a ! i) k \<longleftrightarrow> k < 4 \<and> bit (a ((4 * i + k) div 8)) ((4 * i + k) mod 8)"
  by (simp add: below_cases decode_4_def zq_t_def bit_simps bit_times_2 byte_bit_beyond,
      (simp add: numeral_2_eq_2 numeral_3_eq_3)?)

lemma decode_5_bits:
  "\<forall>i<8. \<forall>k<32. bit (decode_5 a ! i) k \<longleftrightarrow> k < 5 \<and> bit (a ((5 * i + k) div 8)) ((5 * i + k) mod 8)"
  by (simp add: below_cases decode_5_def zq_t_def bit_simps bit_times_2 byte_bit_beyond,
      (simp add: numeral_2_eq_2 numeral_3_eq_3)?)

lemma decode_10_bits:
  "\<forall>i<4. \<forall>k<32. bit (decode_10 a ! i) k \<longleftrightarrow> k < 10 \<and> bit (a ((10 * i + k) div 8)) ((10 * i + k) mod 8)"
  by (simp add: below_cases decode_10_def zq_t_def bit_simps bit_times_2 byte_bit_beyond,
      (simp add: numeral_2_eq_2 numeral_3_eq_3)?)

lemma decode_11_bits:
  "\<forall>i<8. \<forall>k<32. bit (decode_11 a ! i) k \<longleftrightarrow> k < 11 \<and> bit (a ((11 * i + k) div 8)) ((11 * i + k) mod 8)"
  by (simp add: below_cases decode_11_def zq_t_def bit_simps bit_times_2 byte_bit_beyond,
      (simp add: numeral_2_eq_2 numeral_3_eq_3)?)

text \<open>The two 12-bit numbers that the branch \<open>l = 12\<close> of \<open>decode\<close> reduces.\<close>

definition raw_12 :: "(nat \<Rightarrow> u8) \<Rightarrow> u16 list" where
  "raw_12 a = [push_bit 8 (half (a 1 AND 15)) OR half (a 0), push_bit 4 (half (a 2)) OR half (drop_bit 4 (a 1))]"

lemma decode_12_raw: "decode_12 a = map from_non_reduced (raw_12 a)"
  by (simp add: decode_12_def raw_12_def)

lemma raw_12_bits:
  "\<forall>i<2. \<forall>k<32. bit (map zq_t (raw_12 a) ! i) k \<longleftrightarrow> k < 12 \<and> bit (a ((12 * i + k) div 8)) ((12 * i + k) mod 8)"
  by (simp add: below_cases raw_12_def zq_t_def bit_simps byte_bit_beyond,
      (simp add: numeral_2_eq_2 numeral_3_eq_3)?)

section \<open>The contract of a packing\<close>

text \<open>
  A packing turns \<open>c\<close> coefficients of \<open>l\<close> bits into \<open>nb\<close> bytes and back, keeping the bit stream; \<open>m\<close> groups make a
  polynomial.  From that alone, serialising and parsing a polynomial are inverse to each other.
\<close>

locale packing =
  fixes l c nb m :: nat and enc :: "(nat \<Rightarrow> zq_t) \<Rightarrow> bytes" and dec :: "(nat \<Rightarrow> u8) \<Rightarrow> zq_t list"
  assumes width: "0 < l" "l < 32" and group: "c * l = 8 * nb" and groups: "m * c = 256"
    and enc_length: "length (enc t) = nb" and dec_length: "length (dec a) = c"
    and enc_bits: "i < nb \<Longrightarrow> k < 8 \<Longrightarrow> bit (enc t ! i) k = bit (t ((8 * i + k) div l)) ((8 * i + k) mod l)"
    and dec_bits: "i < c \<Longrightarrow> k < 32 \<Longrightarrow> bit (dec a ! i) k \<longleftrightarrow> k < l \<and> bit (a ((l * i + k) div 8)) ((l * i + k) mod 8)"
begin

abbreviation enc_all :: "poly \<Rightarrow> bytes" where
  "enc_all p \<equiv> concat (map (\<lambda>i. enc (\<lambda>k. p ! (i * c + k))) [0..<m])"

abbreviation dec_all :: "bytes \<Rightarrow> poly" where
  "dec_all a \<equiv> concat (map (\<lambda>i. dec (\<lambda>k. a ! (i * nb + k))) [0..<m])"

lemma groups_bytes: "m * nb = 32 * l"
proof -
  have "8 * (m * nb) = m * (c * l)"
    by (simp add: group)
  also have "\<dots> = (m * c) * l"
    by simp
  finally show ?thesis
    unfolding groups by simp
qed

lemma length_enc_all: "length (enc_all p) = 32 * l"
  using length_concat_blocks [of m "\<lambda>i. enc (\<lambda>k. p ! (i * c + k))" nb] by (simp add: enc_length groups_bytes)

lemma length_dec_all: "length (dec_all a) = 256"
  using length_concat_blocks [of m "\<lambda>i. dec (\<lambda>k. a ! (i * nb + k))" c] by (simp add: dec_length groups)

lemma enc_all_bit:
  assumes "i < 32 * l" "k < 8"
  shows "bit (enc_all p ! i) k = bit (p ! ((8 * i + k) div l)) ((8 * i + k) mod l)"
proof -
  define g r where "g = i div nb" and "r = i mod nb"
  have nb: "0 < nb"
    using assms(1) groups_bytes by (cases nb) simp_all
  have i: "i = g * nb + r" and r: "r < nb"
    using nb by (simp_all add: g_def r_def)
  have g: "g < m"
    unfolding g_def using assms(1) groups_bytes by (intro less_mult_imp_div_less) simp
  have "8 * i + k = (8 * r + k) + (g * c) * l"
    unfolding i by (simp add: mult.assoc group)
  then have x: "(8 * i + k) div l = g * c + (8 * r + k) div l" "(8 * i + k) mod l = (8 * r + k) mod l"
    using width(1) [THEN less_imp_neq, THEN not_sym] by (simp_all only: div_mult_self1 mod_mult_self1 not_False_eq_True)
  have "enc_all p ! i = enc (\<lambda>k. p ! (g * c + k)) ! r"
    unfolding i using g r by (rule concat_blocks_nth [OF enc_length])
  then show ?thesis
    using enc_bits [OF r assms(2)] by (simp add: x)
qed

lemma dec_all_bit:
  assumes "j < 256" "k < 32"
  shows "bit (dec_all a ! j) k \<longleftrightarrow> k < l \<and> bit (a ! ((l * j + k) div 8)) ((l * j + k) mod 8)"
proof -
  define g r where "g = j div c" and "r = j mod c"
  have c: "0 < c"
    using groups by (cases c) simp_all
  have j: "j = g * c + r" and r: "r < c"
    using c by (simp_all add: g_def r_def)
  have g: "g < m"
    unfolding g_def using assms(1) groups by (intro less_mult_imp_div_less) simp
  have "l * j + k = (l * r + k) + g * (c * l)"
    unfolding j by (simp add: algebra_simps)
  then have "l * j + k = (l * r + k) + (g * nb) * 8"
    unfolding group by simp
  then have x: "(l * j + k) div 8 = g * nb + (l * r + k) div 8" "(l * j + k) mod 8 = (l * r + k) mod 8"
    by (simp_all only: div_mult_self1 mod_mult_self1 zero_neq_numeral [symmetric] not_False_eq_True)
  have "dec_all a ! j = dec (\<lambda>k. a ! (g * nb + k)) ! r"
    unfolding j using g r by (rule concat_blocks_nth [OF dec_length])
  then show ?thesis
    using dec_bits [OF r assms(2)] by (simp add: x)
qed

lemma stream_byte:
  assumes "j < 256" "k < l"
  shows "(l * j + k) div 8 < 32 * l"
proof -
  have "l * j + k < l * Suc j"
    using assms(2) by simp
  also have "\<dots> \<le> l * 256"
    using assms(1) by (intro mult_le_mono2) simp
  finally show ?thesis
    by (intro less_mult_imp_div_less) simp
qed

lemma dec_enc:
  assumes "length p = 256" "\<And>x. x \<in> set p \<Longrightarrow> unat x < 2 ^ l"
  shows "dec_all (enc_all p) = p"
proof (rule nth_equalityI)
  fix j
  assume "j < length (dec_all (enc_all p))"
  then have j: "j < 256"
    by (simp only: length_dec_all)
  have small: "\<not> bit (p ! j) k" if "l \<le> k" for k
  proof -
    have "take_bit l (unat (p ! j)) = unat (p ! j)"
      using assms j by (intro take_bit_nat_eq_self) simp
    then have "\<not> bit (unat (p ! j)) k"
      using that by (metis bit_take_bit_iff not_le)
    then show ?thesis
      by (auto simp: bit_unsigned_iff dest: bit_imp_le_length)
  qed
  show "dec_all (enc_all p) ! j = p ! j"
  proof (rule bit_word_eqI)
    fix k
    assume k: "k < LENGTH(32)"
    show "bit (dec_all (enc_all p) ! j) k = bit (p ! j) k"
    proof (cases "k < l")
      case True
      have "bit (dec_all (enc_all p) ! j) k = bit (p ! ((l * j + k) div l)) ((l * j + k) mod l)"
        using dec_all_bit [OF j] enc_all_bit [OF stream_byte [OF j True], of "(l * j + k) mod 8"] True k by simp
      then show ?thesis
        using True by simp
    next
      case False
      then show ?thesis
        using dec_all_bit [OF j] k small by simp
    qed
  qed
qed (simp only: length_dec_all assms(1))

lemma enc_dec:
  assumes "length a = 32 * l"
  shows "enc_all (dec_all a) = a"
proof (rule nth_equalityI)
  fix i
  assume "i < length (enc_all (dec_all a))"
  then have i: "i < 32 * l"
    by (simp only: length_enc_all)
  show "enc_all (dec_all a) ! i = a ! i"
  proof (rule bit_word_eqI)
    fix k
    assume "k < LENGTH(8)"
    then have k: "k < 8"
      by simp
    have j: "(8 * i + k) div l < 256"
      using i k by (intro less_mult_imp_div_less) simp
    have m: "(8 * i + k) mod l < l"
      using width by simp
    have "bit (enc_all (dec_all a) ! i) k = bit (dec_all a ! ((8 * i + k) div l)) ((8 * i + k) mod l)"
      using i k by (rule enc_all_bit)
    also have "\<dots> = bit (a ! ((l * ((8 * i + k) div l) + (8 * i + k) mod l) div 8)) ((l * ((8 * i + k) div l) + (8 * i + k) mod l) mod 8)"
      using dec_all_bit [OF j] m width(2) by simp
    also have "\<dots> = bit (a ! i) k"
      using k by simp
    finally show "bit (enc_all (dec_all a) ! i) k = bit (a ! i) k" .
  qed
qed (simp only: length_enc_all assms)

end

interpretation p1: packing 1 8 1 32 encode_1 decode_1
  using encode_1_bits decode_1_bits by unfold_locales (simp_all add: encode_1_def decode_1_def)

interpretation p4: packing 4 2 1 128 encode_4 decode_4
  using encode_4_bits decode_4_bits by unfold_locales (simp_all add: encode_4_def decode_4_def)

interpretation p5: packing 5 8 5 32 encode_5 decode_5
  using encode_5_bits decode_5_bits by unfold_locales (simp_all add: encode_5_def decode_5_def)

interpretation p10: packing 10 4 5 64 encode_10 decode_10
  using encode_10_bits decode_10_bits by unfold_locales (simp_all add: encode_10_def decode_10_def)

interpretation p11: packing 11 8 11 32 encode_11 decode_11
  using encode_11_bits decode_11_bits by unfold_locales (simp_all add: encode_11_def decode_11_def)

interpretation p12: packing 12 2 3 128 encode_12 "\<lambda>a. map zq_t (raw_12 a)"
  using encode_12_bits raw_12_bits by unfold_locales (simp_all add: encode_12_def raw_12_def)

section \<open>Serialisation of polynomials\<close>

lemma decode_12_eq: "decode 12 arr = map (\<lambda>x. from_non_reduced (ucast x)) (concat (map (\<lambda>i. map zq_t (raw_12 (\<lambda>k. arr ! (i * 3 + k)))) [0..<128]))"
proof -
  have "(ucast (zq_t x) :: u16) = x" for x
    using unsigned_less [of x, where ?'a = nat] by (simp add: word_unat_eq_iff unat_ucast_small unat_zq_t)
  then show ?thesis
    by (simp add: decode_def N_val group_size_def decode_group_def decode_12_raw map_concat comp_def)
qed

lemma check_l_cases:
  assumes "check_l l" "l = 1 \<Longrightarrow> P" "l = 4 \<Longrightarrow> P" "l = 5 \<Longrightarrow> P" "l = 10 \<Longrightarrow> P" "l = 11 \<Longrightarrow> P" "l = 12 \<Longrightarrow> P"
  shows P
  using assms by (auto simp: check_l_def)

lemmas encode_eqs = encode_def N_val group_size_def encode_group_def
lemmas decode_eqs = decode_def N_val group_size_def decode_group_def
lemmas enc_lengths = p1.length_enc_all p4.length_enc_all p5.length_enc_all p10.length_enc_all p11.length_enc_all p12.length_enc_all
lemmas dec_lengths = p1.length_dec_all p4.length_dec_all p5.length_dec_all p10.length_dec_all p11.length_dec_all p12.length_dec_all

lemma length_encode:
  assumes "check_l l"
  shows "length (encode l p) = 32 * l"
  using assms enc_lengths [of p] by (elim check_l_cases) (simp_all add: encode_eqs)

lemma length_decode:
  assumes "check_l l"
  shows "length (decode l a) = 256"
  using assms
proof (rule check_l_cases)
  assume "l = 12"
  then show ?thesis
    using dec_lengths(6) [of a] by (simp only: decode_12_eq length_map)
qed (use dec_lengths [of a] in \<open>simp_all add: decode_eqs\<close>)

text \<open>The packing of every width is the bit stream of the standard.\<close>

lemma encode_stream:
  assumes "check_l l" "i < 32 * l" "k < 8"
  shows "bit (encode l p ! i) k = bit (p ! ((8 * i + k) div l)) ((8 * i + k) mod l)"
  using assms(1)
proof (rule check_l_cases)
  assume l: "l = 1"
  show ?thesis using p1.enc_all_bit [of i k p] assms unfolding l by (simp add: encode_eqs)
next
  assume l: "l = 4"
  show ?thesis using p4.enc_all_bit [of i k p] assms unfolding l by (simp add: encode_eqs)
next
  assume l: "l = 5"
  show ?thesis using p5.enc_all_bit [of i k p] assms unfolding l by (simp add: encode_eqs)
next
  assume l: "l = 10"
  show ?thesis using p10.enc_all_bit [of i k p] assms unfolding l by (simp add: encode_eqs)
next
  assume l: "l = 11"
  show ?thesis using p11.enc_all_bit [of i k p] assms unfolding l by (simp add: encode_eqs)
next
  assume l: "l = 12"
  show ?thesis using p12.enc_all_bit [of i k p] assms unfolding l by (simp add: encode_eqs)
qed

lemma from_non_reduced_canon: "canon x \<Longrightarrow> from_non_reduced (ucast x) = x"
  by (simp add: word_unat_eq_iff unat_from_non_reduced unat_ucast_small canon_iff)

lemma decode_encode_12:
  assumes "length p = 256" "list_all canon p"
  shows "decode 12 (encode 12 p) = p"
proof -
  have "concat (map (\<lambda>i. map zq_t (raw_12 (\<lambda>k. encode 12 p ! (i * 3 + k)))) [0..<128]) = p"
    using p12.dec_enc [OF assms(1)] assms(2) by (simp add: encode_eqs list_all_iff canon_iff) fastforce
  then show ?thesis
    unfolding decode_12_eq using assms(2) by (simp add: from_non_reduced_canon map_idI list_all_iff)
qed

lemma decode_encode:
  assumes "check_l l" "length p = 256" "\<And>x. x \<in> set p \<Longrightarrow> unat x < 2 ^ l" "list_all canon p"
  shows "decode l (encode l p) = p"
  using assms(1)
proof (rule check_l_cases)
  assume l: "l = 1"
  show ?thesis using p1.dec_enc [OF assms(2)] assms(3) unfolding l by (simp add: encode_eqs decode_eqs)
next
  assume l: "l = 4"
  show ?thesis using p4.dec_enc [OF assms(2)] assms(3) unfolding l by (simp add: encode_eqs decode_eqs)
next
  assume l: "l = 5"
  show ?thesis using p5.dec_enc [OF assms(2)] assms(3) unfolding l by (simp add: encode_eqs decode_eqs)
next
  assume l: "l = 10"
  show ?thesis using p10.dec_enc [OF assms(2)] assms(3) unfolding l by (simp add: encode_eqs decode_eqs)
next
  assume l: "l = 11"
  show ?thesis using p11.dec_enc [OF assms(2)] assms(3) unfolding l by (simp add: encode_eqs decode_eqs)
next
  assume "l = 12"
  then show ?thesis
    using decode_encode_12 [OF assms(2,4)] by simp
qed

lemma encode_decode:
  assumes "check_l l" "l \<noteq> 12" "length a = 32 * l"
  shows "encode l (decode l a) = a"
  using assms(1)
proof (rule check_l_cases)
  assume l: "l = 1"
  show ?thesis using p1.enc_dec [of a] assms(3) unfolding l by (simp add: encode_eqs decode_eqs)
next
  assume l: "l = 4"
  show ?thesis using p4.enc_dec [of a] assms(3) unfolding l by (simp add: encode_eqs decode_eqs)
next
  assume l: "l = 5"
  show ?thesis using p5.enc_dec [of a] assms(3) unfolding l by (simp add: encode_eqs decode_eqs)
next
  assume l: "l = 10"
  show ?thesis using p10.enc_dec [of a] assms(3) unfolding l by (simp add: encode_eqs decode_eqs)
next
  assume l: "l = 11"
  show ?thesis using p11.enc_dec [of a] assms(3) unfolding l by (simp add: encode_eqs decode_eqs)
qed (use assms(2) in simp)

lemma decode_below:
  assumes "check_l l" "l \<noteq> 12" "j < 256"
  shows "unat (decode l a ! j) < 2 ^ l"
proof -
  have "\<not> bit (decode l a ! j) k" if "l \<le> k" "k < 32" for k
    using assms(1)
  proof (rule check_l_cases)
    assume l: "l = 1"
    show ?thesis using p1.dec_all_bit [OF assms(3), of k a] that unfolding l by (simp add: decode_eqs)
  next
    assume l: "l = 4"
    show ?thesis using p4.dec_all_bit [OF assms(3), of k a] that unfolding l by (simp add: decode_eqs)
  next
    assume l: "l = 5"
    show ?thesis using p5.dec_all_bit [OF assms(3), of k a] that unfolding l by (simp add: decode_eqs)
  next
    assume l: "l = 10"
    show ?thesis using p10.dec_all_bit [OF assms(3), of k a] that unfolding l by (simp add: decode_eqs)
  next
    assume l: "l = 11"
    show ?thesis using p11.dec_all_bit [OF assms(3), of k a] that unfolding l by (simp add: decode_eqs)
  qed (use assms(2) in simp)
  then have "take_bit l (decode l a ! j) = decode l a ! j"
    by (intro bit_word_eqI) (simp add: bit_take_bit_iff, metis not_le)
  then show ?thesis
    by (metis take_bit_nat_less_exp unsigned_take_bit_eq)
qed

lemma wf_decode:
  assumes "check_l l"
  shows "wf_poly (decode l a)"
proof (rule wf_polyI)
  show "length (decode l a) = 256"
    using assms by (rule length_decode)
  show "canon (decode l a ! j)" if j: "j < 256" for j
  proof (cases "l = 12")
    case True
    then show ?thesis
      using j dec_lengths(6) [of a] by (simp add: decode_12_eq)
  next
    case False
    then have "l \<le> 11"
      using assms by (auto simp: check_l_def)
    then have "(2 :: nat) ^ l \<le> 2 ^ 11"
      by (intro power_increasing) simp_all
    with decode_below [OF assms False j, of a] show ?thesis
      by (simp add: canon_iff)
  qed
qed

subsection \<open>The modulus check\<close>

text \<open>The number written in the 12 bits of coefficient \<open>j\<close>.\<close>

definition coeff_12 :: "bytes \<Rightarrow> nat \<Rightarrow> nat" where
  "coeff_12 a j = horner_sum of_bool 2 (map (\<lambda>k. bit (a ! ((12 * j + k) div 8)) ((12 * j + k) mod 8)) [0..<12])"

abbreviation raws :: "bytes \<Rightarrow> zq_t list" where
  "raws a \<equiv> concat (map (\<lambda>i. map zq_t (raw_12 (\<lambda>k. a ! (i * 3 + k)))) [0..<128])"

lemma unat_raws:
  assumes "j < 256"
  shows "unat (raws a ! j) = coeff_12 a j"
proof (rule bit_eqI)
  fix k
  show "bit (unat (raws a ! j)) k = bit (coeff_12 a j) k"
    using p12.dec_all_bit [OF assms, of k a]
    by (cases "k < 32") (auto simp: bit_unsigned_iff coeff_12_def bit_horner_sum_bit_iff dest: bit_imp_le_length)
qed

lemma coeff_12_less: "coeff_12 a j < 2 ^ 12"
proof -
  have "take_bit 12 (coeff_12 a j) = coeff_12 a j"
    by (rule bit_eqI) (auto simp: coeff_12_def bit_take_bit_iff bit_horner_sum_bit_iff)
  then show ?thesis
    by (metis take_bit_nat_less_exp)
qed

lemma decode_12_nth:
  assumes "j < 256"
  shows "unat (decode 12 a ! j) = coeff_12 a j mod 3329"
  using assms dec_lengths(6) [of a] coeff_12_less [of a j]
  by (simp add: decode_12_eq unat_from_non_reduced unat_ucast_small unat_raws)

lemma raws_encode: "length p = 256 \<Longrightarrow> (\<And>x. x \<in> set p \<Longrightarrow> unat x < 2 ^ 12) \<Longrightarrow> raws (encode 12 p) = p"
  using p12.dec_enc [of p] by (simp add: encode_eqs)

lemma encode_raws: "length a = 384 \<Longrightarrow> encode 12 (raws a) = a"
  using p12.enc_dec [of a] by (simp add: encode_eqs)

lemma modulus_check:
  assumes "length a = 384"
  shows "encode 12 (decode 12 a) = a \<longleftrightarrow> (\<forall>j<256. coeff_12 a j < 3329)"
proof -
  have w: "wf_poly (decode 12 a)"
    by (simp add: wf_decode check_l_def)
  have small: "unat x < 2 ^ 12" if "x \<in> set (decode 12 a)" for x
    using w that by (auto simp: wf_poly_def list_all_iff canon_iff)
  have "encode 12 (decode 12 a) = a \<longleftrightarrow> decode 12 a = raws a"
    using raws_encode [OF wf_poly_length [OF w] small] encode_raws [OF assms] by metis
  also have "\<dots> \<longleftrightarrow> (\<forall>j<256. decode 12 a ! j = raws a ! j)"
    using w dec_lengths(6) [of a] by (auto simp: list_eq_iff_nth_eq)
  also have "\<dots> \<longleftrightarrow> (\<forall>j<256. coeff_12 a j mod 3329 = coeff_12 a j)"
    by (simp add: word_unat_eq_iff decode_12_nth unat_raws)
  also have "\<dots> \<longleftrightarrow> (\<forall>j<256. coeff_12 a j < 3329)"
    by (metis mod_less mod_less_divisor zero_less_numeral)
  finally show ?thesis .
qed

section \<open>Properties\<close>

text \<open>
  C31: packing and unpacking: for each of the six widths, \<open>decode\<close> returns the coefficients that \<open>encode\<close> packed into
  \<open>32 l\<close> bytes, and for every width but 12 \<open>encode\<close> returns the bytes that \<open>decode\<close> unpacked; at width 12 it does so
  exactly when every twelve-bit number is below Q.\<close>

theorem packing_round_trip:
  assumes "check_l l" "wf_poly p" "\<forall>x\<in>set p. unat x < 2 ^ l" "length a = 32 * l"
  shows "length (encode l p) = 32 * l \<and> decode l (encode l p) = p \<and> wf_poly (decode l a) \<and>
    (encode l (decode l a) = a \<longleftrightarrow> l \<noteq> 12 \<or> (\<forall>j<256. coeff_12 a j < 3329))"
proof (intro conjI)
  show "length (encode l p) = 32 * l"
    using assms(1) by (rule length_encode)
  show "decode l (encode l p) = p"
    using assms by (intro decode_encode) (simp_all add: wf_poly_def)
  show "wf_poly (decode l a)"
    using assms(1) by (rule wf_decode)
  show "encode l (decode l a) = a \<longleftrightarrow> l \<noteq> 12 \<or> (\<forall>j<256. coeff_12 a j < 3329)"
    using assms encode_decode [OF assms(1) _ assms(4)] modulus_check [of a] by (cases "l = 12") simp_all
qed

theorem packing_round_trip_witness:
  "decode 4 (encode 4 (replicate 256 7)) = replicate 256 7 \<and> encode 4 (decode 4 (replicate 128 9)) = replicate 128 9"
  using packing_round_trip [of 4 "replicate 256 7" "replicate 128 9"]
  by (simp add: check_l_def wf_poly_def list_all_iff canon_iff)

end
