(* ===== verification/Kem_Vector.thy ===== *)
theory Kem_Vector
  imports Kem_Ring Kem_Code
begin

text \<open>
  Vectors and matrices of polynomials (the second \<open>namespace ml_kem_utils\<close> block of \<open>tools/ml_kem_512_single.hpp\<close>).
  A vector is the flat array of its coefficients, as in the source; \<open>cell v i\<close> is its \<open>i\<close>-th polynomial and \<open>rv v i\<close>
  the ring element that polynomial stands for.
\<close>

section \<open>Operations\<close>

definition subspan :: "nat \<Rightarrow> nat \<Rightarrow> 'a list \<Rightarrow> 'a list" where
  "subspan off n xs = take n (drop off xs)"

definition matrix_multiply :: "nat \<Rightarrow> nat \<Rightarrow> nat \<Rightarrow> nat \<Rightarrow> poly \<Rightarrow> poly \<Rightarrow> poly \<Rightarrow> poly" where
  "matrix_multiply a_rows a_cols b_rows b_cols a b c =
     fold (\<lambda>i. fold (\<lambda>j.
       let coff = (i * b_cols + j) * N
       in fold (\<lambda>k c.
            let aoff = (i * a_cols + k) * N;
                boff = (k * b_cols + j) * N;
                tmp = polymul (subspan aoff N a) (subspan boff N b)
            in fold (\<lambda>l c. c[coff + l := zq_add (c ! (coff + l)) (tmp ! l)]) [0..<N] c)
          [0..<a_cols]) [0..<b_cols]) [0..<a_rows] c"

definition poly_vec_ntt :: "nat \<Rightarrow> poly \<Rightarrow> poly" where
  "poly_vec_ntt k vec = fold (\<lambda>i v. let off = i * N in overwrite off (ntt (subspan off N v)) v) [0..<k] vec"

definition poly_vec_intt :: "nat \<Rightarrow> poly \<Rightarrow> poly" where
  "poly_vec_intt k vec = fold (\<lambda>i v. let off = i * N in overwrite off (intt (subspan off N v)) v) [0..<k] vec"

definition poly_vec_add_to :: "nat \<Rightarrow> poly \<Rightarrow> poly \<Rightarrow> poly" where
  "poly_vec_add_to k src dst =
     (let cnt = k * N in fold (\<lambda>i d. d[i := zq_add (d ! i) (src ! i)]) [0..<cnt] dst)"

definition poly_vec_sub_from :: "nat \<Rightarrow> poly \<Rightarrow> poly \<Rightarrow> poly" where
  "poly_vec_sub_from k src dst =
     (let cnt = k * N in fold (\<lambda>i d. d[i := zq_sub (d ! i) (src ! i)]) [0..<cnt] dst)"

definition poly_vec_encode :: "nat \<Rightarrow> nat \<Rightarrow> poly \<Rightarrow> bytes" where
  "poly_vec_encode k l src = concat (map (\<lambda>i. encode l (subspan (i * N) N src)) [0..<k])"

definition poly_vec_decode :: "nat \<Rightarrow> nat \<Rightarrow> bytes \<Rightarrow> poly" where
  "poly_vec_decode k l src = concat (map (\<lambda>i. decode l (subspan (i * l * 32) (32 * l) src)) [0..<k])"

definition poly_vec_compress :: "nat \<Rightarrow> nat \<Rightarrow> poly \<Rightarrow> poly" where
  "poly_vec_compress k d vec =
     fold (\<lambda>i v. let off = i * N in overwrite off (poly_compress d (subspan off N v)) v) [0..<k] vec"

definition poly_vec_decompress :: "nat \<Rightarrow> nat \<Rightarrow> poly \<Rightarrow> poly" where
  "poly_vec_decompress k d vec =
     fold (\<lambda>i v. let off = i * N in overwrite off (poly_decompress d (subspan off N v)) v) [0..<k] vec"

section \<open>Blocks of a flat array\<close>

lemma block_bound: "i < k \<Longrightarrow> i * m + m \<le> k * (m :: nat)"
  using mult_le_mono1 [of "Suc i" k m] by simp

lemma length_block: "length v = k * m \<Longrightarrow> i < k \<Longrightarrow> length (subspan (i * m) m v) = m"
  using block_bound [of i k m] by (simp add: subspan_def)

lemma concat_block:
  assumes "\<And>i. i < k \<Longrightarrow> length (F i) = m" "i < k"
  shows "subspan (i * m) m (concat (map F [0..<k])) = F i"
proof (rule nth_equalityI)
  have len: "length (concat (map F [0..<k])) = k * m"
    using assms(1) by (rule length_concat_blocks)
  then show "length (subspan (i * m) m (concat (map F [0..<k]))) = length (F i)"
    using assms length_block [of "concat (map F [0..<k])" k m i] by simp
  show "subspan (i * m) m (concat (map F [0..<k])) ! j = F i ! j" if "j < length (subspan (i * m) m (concat (map F [0..<k])))" for j
    using that assms len concat_blocks_nth [of k F m i j] block_bound [OF assms(2), of m] by (simp add: subspan_def)
qed

lemma blocks_of:
  assumes "length v = k * m"
  shows "concat (map (\<lambda>i. subspan (i * m) m v) [0..<k]) = v"
proof -
  have "concat (map (\<lambda>i. subspan (i * m) m v) [0..<n]) = take (n * m) v" for n
    using take_add [of _ m v] by (induction n) (simp_all add: subspan_def add.commute [of m])
  from this [of k] assms show ?thesis
    by simp
qed

lemma blocks_eqI:
  assumes "length v = k * m" "length w = k * m" "\<And>i. i < k \<Longrightarrow> subspan (i * m) m v = subspan (i * m) m w"
  shows "v = w"
proof -
  have "concat (map (\<lambda>i. subspan (i * m) m v) [0..<k]) = concat (map (\<lambda>i. subspan (i * m) m w) [0..<k])"
    using assms(3) by (intro arg_cong [where f = concat] map_cong) simp_all
  then show ?thesis
    using blocks_of [OF assms(1)] blocks_of [OF assms(2)] by simp
qed

text \<open>A loop that replaces block after block by a function of itself.\<close>

lemma replace_blocks:
  assumes "length v = k * m" "\<And>i b. i < k \<Longrightarrow> length b = m \<Longrightarrow> length (F i b) = m"
  shows "fold (\<lambda>i v. overwrite (i * m) (F i (subspan (i * m) m v)) v) [0..<k] v =
    concat (map (\<lambda>i. F i (subspan (i * m) m v)) [0..<k])"
proof -
  have "fold (\<lambda>i v. overwrite (i * m) (F i (subspan (i * m) m v)) v) [0..<n] v =
      concat (map (\<lambda>i. F i (subspan (i * m) m v)) [0..<n]) @ drop (n * m) v" if "n \<le> k" for n
    using that
  proof (induction n)
    case (Suc n)
    let ?p = "concat (map (\<lambda>i. F i (subspan (i * m) m v)) [0..<n])"
    have len: "length ?p = n * m"
      using Suc.prems assms length_block [OF assms(1)] by (intro length_concat_blocks) simp
    then have "subspan (n * m) m (?p @ drop (n * m) v) = subspan (n * m) m v"
      by (simp add: subspan_def)
    moreover have "length (F n (subspan (n * m) m v)) = m"
      using Suc.prems assms length_block [OF assms(1), of n] by simp
    ultimately show ?case
      using Suc len by (simp add: overwrite_def add.commute)
  qed simp
  from this [of k] assms(1) show ?thesis
    by simp
qed

section \<open>Polynomials of a vector\<close>

definition cell :: "poly \<Rightarrow> nat \<Rightarrow> poly" where
  "cell v i = subspan (i * 256) 256 v"

definition rv :: "poly \<Rightarrow> nat \<Rightarrow> rq" where
  "rv v i = rq (cell v i)"

definition wf_vec :: "nat \<Rightarrow> poly \<Rightarrow> bool" where
  "wf_vec k v \<longleftrightarrow> length v = k * 256 \<and> (\<forall>i<k. wf_poly (cell v i))"

lemma wf_cell: "wf_vec k v \<Longrightarrow> i < k \<Longrightarrow> wf_poly (cell v i)"
  by (simp add: wf_vec_def)

lemma wf_vec_length: "wf_vec k v \<Longrightarrow> length v = k * 256"
  by (simp add: wf_vec_def)

lemma length_cell: "length v = k * 256 \<Longrightarrow> i < k \<Longrightarrow> length (cell v i) = 256"
  by (simp add: cell_def length_block)

lemma cell_concat: "(\<And>i. i < k \<Longrightarrow> length (F i) = 256) \<Longrightarrow> i < k \<Longrightarrow> cell (concat (map F [0..<k])) i = F i"
  unfolding cell_def by (rule concat_block)

lemma wf_concat:
  assumes "\<And>i. i < k \<Longrightarrow> wf_poly (F i)"
  shows "wf_vec k (concat (map F [0..<k]))"
  using assms by (auto simp: wf_vec_def cell_concat intro: length_concat_blocks)

lemma vec_eqI:
  assumes "wf_vec k v" "wf_vec k w" "\<And>i. i < k \<Longrightarrow> cell v i = cell w i"
  shows "v = w"
  using assms blocks_eqI [of v k 256 w] by (simp add: wf_vec_def cell_def)

lemma cell_single: "length p = 256 \<Longrightarrow> cell p 0 = p"
  by (simp add: cell_def subspan_def)

lemma wf_vec_1: "wf_vec 1 p \<longleftrightarrow> wf_poly p"
  by (auto simp: wf_vec_def cell_single)

lemma wf_zero_vec: "wf_vec k (replicate (k * 256) 0)" and cell_zero_vec: "i < k \<Longrightarrow> cell (replicate (k * 256) 0) i = pzero"
proof -
  have z: "cell (replicate (k * 256) 0) i = pzero" if "i < k" for i
    using block_bound [OF that, of 256] by (simp add: cell_def subspan_def pzero_def)
  then show "i < k \<Longrightarrow> cell (replicate (k * 256) 0) i = pzero" .
  from z show "wf_vec k (replicate (k * 256) 0)"
    by (simp add: wf_vec_def)
qed

text \<open>The in-place operations act on each polynomial.\<close>

lemma poly_vec_maps:
  assumes "length v = k * 256"
  shows "poly_vec_compress k d v = concat (map (\<lambda>i. map (compress d) (cell v i)) [0..<k])"
    and "poly_vec_decompress k d v = concat (map (\<lambda>i. map (decompress d) (cell v i)) [0..<k])"
  using replace_blocks [OF assms, of "\<lambda>_. map (compress d)"] replace_blocks [OF assms, of "\<lambda>_. map (decompress d)"]
  by (simp_all add: poly_vec_compress_def poly_vec_decompress_def N_val cell_def poly_compress_map poly_decompress_map Let_def)

lemma length_ntt: "length p = 256 \<Longrightarrow> length (ntt p) = 256" and length_intt: "length p = 256 \<Longrightarrow> length (intt p) = 256"
proof -
  have l: "layers ls \<Longrightarrow> length p = 256 \<Longrightarrow> length (fold ntt_layer ls p) = 256"
    "layers ls \<Longrightarrow> length p = 256 \<Longrightarrow> length (fold intt_layer ls p) = 256" for ls p
    by (induction ls arbitrary: p) simp_all
  show "length p = 256 \<Longrightarrow> length (ntt p) = 256" "length p = 256 \<Longrightarrow> length (intt p) = 256"
    using l(1) [of "rev [1..<8]" p] l(2) [of "[1..<8]" p] by (auto simp: ntt_def LOG2N_def intt_eq scale_def)
qed

lemma poly_vec_transforms:
  assumes "length v = k * 256"
  shows "poly_vec_ntt k v = concat (map (\<lambda>i. ntt (cell v i)) [0..<k])"
    and "poly_vec_intt k v = concat (map (\<lambda>i. intt (cell v i)) [0..<k])"
  using replace_blocks [OF assms, of "\<lambda>_. ntt", OF length_ntt] replace_blocks [OF assms, of "\<lambda>_. intt", OF length_intt]
  by (simp_all add: poly_vec_ntt_def poly_vec_intt_def N_val cell_def Let_def)

lemma pointwise_loop:
  assumes "n \<le> length d" "n \<le> length s"
  shows "fold (\<lambda>i d. d[i := f (d ! i) (s ! i)]) [0..<n] d = map2 f (take n d) (take n s) @ drop n d"
  using assms
proof (induction n)
  case (Suc n)
  then show ?case
    by (simp add: nth_append list_update_append take_Suc_conv_app_nth Cons_nth_drop_Suc [symmetric])
qed simp

lemma poly_vec_sums:
  assumes "length src = k * 256" "length dst = k * 256"
  shows "poly_vec_add_to k src dst = map2 zq_add dst src" and "poly_vec_sub_from k src dst = map2 zq_sub dst src"
  using pointwise_loop [of "k * 256" dst src zq_add] pointwise_loop [of "k * 256" dst src zq_sub] assms
  by (simp_all add: poly_vec_add_to_def poly_vec_sub_from_def N_val)

lemma cell_sums: "cell (map2 f v w) i = map2 f (cell v i) (cell w i)"
  by (simp add: cell_def subspan_def drop_map drop_zip take_map take_zip)

section \<open>Matrix products\<close>

lemma accumulate_block:
  assumes "p + m \<le> length c" "length t = m"
  shows "fold (\<lambda>l c. c[p + l := f (c ! (p + l)) (t ! l)]) [0..<m] c = overwrite p (map2 f (subspan p m c) t) c"
proof -
  have "fold (\<lambda>l c. c[p + l := f (c ! (p + l)) (t ! l)]) [0..<n] c = overwrite p (map2 f (subspan p n c) (take n t)) c" if "n \<le> m" for n
    using that
  proof (induction n)
    case 0
    then show ?case
      by (simp add: overwrite_def subspan_def)
  next
    case (Suc n)
    have len: "length (subspan p n c) = n" "length (take n t) = n" "p + n < length c"
      using Suc.prems assms by (simp_all add: subspan_def)
    have "subspan p (Suc n) c = subspan p n c @ [c ! (p + n)]" "take (Suc n) t = take n t @ [t ! n]"
      using Suc.prems assms by (simp_all add: subspan_def take_Suc_conv_app_nth)
    moreover have "drop (p + n) c = c ! (p + n) # drop (Suc (p + n)) c"
      using len by (simp add: Cons_nth_drop_Suc)
    ultimately show ?case
      using Suc len by (simp add: overwrite_def nth_append list_update_append)
  qed
  from this [of m] assms show ?thesis
    by simp
qed

lemma overwrite_block:
  assumes "p + m \<le> length c" "length x = m" "length y = m"
  shows "overwrite p x (overwrite p y c) = overwrite p x c" "subspan p m (overwrite p y c) = y"
  using assms by (simp_all add: overwrite_def subspan_def)

lemma length_accumulated:
  assumes "\<forall>k \<in> set ks. length (T k) = m" "\<And>x t. length x = m \<Longrightarrow> length t = m \<Longrightarrow> length (g x t) = m" "length x = m"
  shows "length (fold (\<lambda>k x. g x (T k)) ks x) = m"
  using assms(1,3)
proof (induction ks arbitrary: x)
  case (Cons k ks)
  then show ?case
    using assms(2) by simp
qed simp

lemma accumulate_blocks:
  assumes "p + m \<le> length c" "\<And>k. k \<in> set ks \<Longrightarrow> length (T k) = m" "\<And>x t. length x = m \<Longrightarrow> length t = m \<Longrightarrow> length (g x t) = m"
  shows "fold (\<lambda>k c. overwrite p (g (subspan p m c) (T k)) c) ks c =
    overwrite p (fold (\<lambda>k x. g x (T k)) ks (subspan p m c)) c"
  using assms(1,2)
proof (induction ks arbitrary: c)
  case Nil
  then show ?case
    by (simp add: overwrite_def subspan_def flip: append_assoc take_add)
next
  case (Cons k ks)
  have len: "length (subspan p m c) = m"
    using Cons.prems by (simp add: subspan_def)
  have f: "length (fold (\<lambda>k x. g x (T k)) ks x) = m" if "length x = m" for x
    using that assms(3) Cons.prems(2) by (intro length_accumulated) simp_all
  show ?case
    using Cons len assms(3) f by (simp add: overwrite_block)
qed

lemma length_padd: "length p = 256 \<Longrightarrow> length q = 256 \<Longrightarrow> length (padd p q) = 256"
  by (simp add: padd_def)

lemma matrix_vector:
  assumes "length a = r * n * 256" "length c = r * 256"
  shows "matrix_multiply r n n 1 a b c =
    concat (map (\<lambda>i. fold (\<lambda>k x. padd x (polymul (cell a (i * n + k)) (cell b k))) [0..<n] (cell c i)) [0..<r])"
proof -
  define T where "T = (\<lambda>i k. polymul (cell a (i * n + k)) (cell b k))"
  define F where "F = (\<lambda>i x. fold (\<lambda>k x. padd x (T i k)) [0..<n] x)"
  have T: "length (T i k) = 256" if "i < r" "k < n" for i k
  proof -
    have "i * n + k < r * n"
      using block_bound [OF that(1), of n] that(2) by simp
    then show ?thesis
      using length_cell [OF assms(1)] by (simp add: T_def)
  qed
  have F: "length (F i x) = 256" if "i < r" "length x = 256" for i x
    unfolding F_def using that T by (intro length_accumulated) (simp_all add: length_padd)
  have "matrix_multiply r n n 1 a b c = fold (\<lambda>i c. overwrite (i * 256) (F i (subspan (i * 256) 256 c)) c) [0..<r] c"
    unfolding matrix_multiply_def
  proof (rule fold_cong_inv)
    fix i and c :: poly
    assume i: "i \<in> set [0..<r]" and c: "length c = r * 256"
    have fit: "i * 256 + 256 \<le> length c"
      using i c block_bound [of i r 256] by simp
    have "fold (\<lambda>k c. fold (\<lambda>l c. c[i * 256 + l := zq_add (c ! (i * 256 + l)) (T i k ! l)]) [0..<256] c) [0..<n] c =
        fold (\<lambda>k c. overwrite (i * 256) (padd (subspan (i * 256) 256 c) (T i k)) c) [0..<n] c"
      using i c T accumulate_block [of "i * 256" 256 _ "T i _" zq_add] block_bound [of i r 256]
      by (intro fold_cong_inv [where n = "r * 256"]) (auto simp: padd_def subspan_def)
    also have "\<dots> = overwrite (i * 256) (F i (subspan (i * 256) 256 c)) c"
      unfolding F_def using i T by (intro accumulate_blocks fit length_padd) auto
    finally show "fold (\<lambda>j. let coff = (i * 1 + j) * N in fold (\<lambda>k c. let aoff = (i * n + k) * N; boff = (k * 1 + j) * N;
          tmp = polymul (subspan aoff N a) (subspan boff N b)
          in fold (\<lambda>l c. c[coff + l := zq_add (c ! (coff + l)) (tmp ! l)]) [0..<N] c) [0..<n]) [0..<1] c =
        overwrite (i * 256) (F i (subspan (i * 256) 256 c)) c"
      by (simp add: N_val Let_def T_def cell_def)
  next
    fix i and q :: poly
    assume "i \<in> set [0..<r]" "length q = r * 256"
    then show "length (overwrite (i * 256) (F i (subspan (i * 256) 256 q)) q) = r * 256"
      using F [of i "subspan (i * 256) 256 q"] length_block [of q r 256 i] block_bound [of i r 256] by simp
  qed (rule assms(2))
  also have "\<dots> = concat (map (\<lambda>i. F i (cell c i)) [0..<r])"
    unfolding cell_def by (rule replace_blocks [OF assms(2) F])
  finally show ?thesis
    by (simp add: F_def T_def)
qed

section \<open>The operations in the ring\<close>

lemma wf_accumulated:
  assumes "\<And>k. k < n \<Longrightarrow> wf_poly (T k)"
  shows "wf_poly (fold (\<lambda>k x. padd x (T k)) [0..<n] pzero)"
    "rq (fold (\<lambda>k x. padd x (T k)) [0..<n] pzero) = (\<Sum>k<n. rq (T k))"
proof -
  have "wf_poly (fold (\<lambda>k x. padd x (T k)) [0..<m] pzero) \<and>
      rq (fold (\<lambda>k x. padd x (T k)) [0..<m] pzero) = (\<Sum>k<m. rq (T k))" if "m \<le> n" for m
    using that by (induction m) (simp_all add: rq_pzero rq_ops assms)
  then show "wf_poly (fold (\<lambda>k x. padd x (T k)) [0..<n] pzero)"
    "rq (fold (\<lambda>k x. padd x (T k)) [0..<n] pzero) = (\<Sum>k<n. rq (T k))"
    by simp_all
qed

lemma matrix_vector_ring:
  assumes "wf_vec (r * n) a" "wf_vec n b"
  defines "c \<equiv> matrix_multiply r n n 1 a b (replicate (r * 256) 0)"
  shows "wf_vec r c" "i < r \<Longrightarrow> rv c i = (\<Sum>k<n. rv a (i * n + k) * rv b k)"
proof -
  define S where "S = (\<lambda>i. fold (\<lambda>k x. padd x (polymul (cell a (i * n + k)) (cell b k))) [0..<n] pzero)"
  have idx: "i * n + k < r * n" if "i < r" "k < n" for i k
    using block_bound [OF that(1), of n] that(2) by simp
  have S: "wf_poly (S i)" "rq (S i) = (\<Sum>k<n. rq (polymul (cell a (i * n + k)) (cell b k)))" if "i < r" for i
    unfolding S_def using wf_cell [OF assms(1) idx [OF that]] wf_cell [OF assms(2)] by (intro wf_accumulated; simp)+
  have c: "c = concat (map S [0..<r])"
    unfolding c_def using assms(1)
    by (subst matrix_vector) (auto simp: S_def wf_vec_def cell_zero_vec intro!: arg_cong [where f = concat])
  then show "wf_vec r c"
    using S(1) wf_concat [of r S] by simp
  show "rv c i = (\<Sum>k<n. rv a (i * n + k) * rv b k)" if "i < r"
    using that S wf_cell [OF assms(1) idx [OF that]] wf_cell [OF assms(2)]
    by (simp add: c rv_def cell_concat rq_ops)
qed

lemma poly_vec_ntt_ring:
  assumes "wf_vec k v"
  shows "wf_vec k (poly_vec_ntt k v)" "i < k \<Longrightarrow> rv (poly_vec_ntt k v) i = ring_ntt (rv v i)"
    "wf_vec k (poly_vec_intt k v)" "i < k \<Longrightarrow> rv (poly_vec_intt k v) i = ring_intt (rv v i)"
proof -
  note w = wf_cell [OF assms]
  note e = poly_vec_transforms [OF wf_vec_length [OF assms]]
  show "wf_vec k (poly_vec_ntt k v)" "wf_vec k (poly_vec_intt k v)"
    unfolding e using w by (intro wf_concat; simp)+
  show "i < k \<Longrightarrow> rv (poly_vec_ntt k v) i = ring_ntt (rv v i)" "i < k \<Longrightarrow> rv (poly_vec_intt k v) i = ring_intt (rv v i)"
    unfolding e rv_def using w by (simp_all add: cell_concat rq_transforms)
qed

lemma poly_vec_sum_ring:
  assumes "wf_vec k v" "wf_vec k w"
  shows "wf_vec k (poly_vec_add_to k v w)" "i < k \<Longrightarrow> rv (poly_vec_add_to k v w) i = rv w i + rv v i"
    "wf_vec k (poly_vec_sub_from k v w)" "i < k \<Longrightarrow> rv (poly_vec_sub_from k v w) i = rv w i - rv v i"
proof -
  note e = poly_vec_sums [OF wf_vec_length [OF assms(1)] wf_vec_length [OF assms(2)]]
  have c: "cell (poly_vec_add_to k v w) i = padd (cell w i) (cell v i)" "cell (poly_vec_sub_from k v w) i = psub (cell w i) (cell v i)" for i
    unfolding e by (simp_all add: cell_sums padd_def psub_def)
  have len: "length (poly_vec_add_to k v w) = k * 256" "length (poly_vec_sub_from k v w) = k * 256"
    unfolding e using assms by (simp_all add: wf_vec_def)
  show "wf_vec k (poly_vec_add_to k v w)" "wf_vec k (poly_vec_sub_from k v w)"
    unfolding wf_vec_def c using assms len by (simp_all add: wf_cell)
  show "i < k \<Longrightarrow> rv (poly_vec_add_to k v w) i = rv w i + rv v i" "i < k \<Longrightarrow> rv (poly_vec_sub_from k v w) i = rv w i - rv v i"
    unfolding rv_def c using assms by (simp_all add: wf_cell rq_ops)
qed

section \<open>Encoding vectors\<close>

lemma length_poly_vec_encode: "check_l l \<Longrightarrow> length (poly_vec_encode k l v) = k * (32 * l)"
  unfolding poly_vec_encode_def by (rule length_concat_blocks) (rule length_encode)

lemma block_poly_vec_encode:
  "check_l l \<Longrightarrow> i < k \<Longrightarrow> subspan (i * (32 * l)) (32 * l) (poly_vec_encode k l v) = encode l (cell v i)"
  unfolding poly_vec_encode_def by (subst concat_block) (simp_all add: length_encode N_val cell_def)

lemma cell_poly_vec_decode:
  "check_l l \<Longrightarrow> i < k \<Longrightarrow> cell (poly_vec_decode k l a) i = decode l (subspan (i * (32 * l)) (32 * l) a)"
  unfolding poly_vec_decode_def by (subst cell_concat) (simp_all add: length_decode mult_ac)

lemma wf_poly_vec_decode: "check_l l \<Longrightarrow> wf_vec k (poly_vec_decode k l a)"
  unfolding poly_vec_decode_def by (rule wf_concat) (rule wf_decode)

lemma poly_vec_decode_encode:
  assumes "check_l l" "wf_vec k v" "\<And>i x. i < k \<Longrightarrow> x \<in> set (cell v i) \<Longrightarrow> unat x < 2 ^ l"
  shows "poly_vec_decode k l (poly_vec_encode k l v) = v"
proof (rule vec_eqI [OF wf_poly_vec_decode assms(2)])
  fix i
  assume i: "i < k"
  have "wf_poly (cell v i)"
    using assms(2) i by (rule wf_cell)
  with i assms show "cell (poly_vec_decode k l (poly_vec_encode k l v)) i = cell v i"
    by (simp add: cell_poly_vec_decode block_poly_vec_encode wf_poly_def decode_encode)
qed (rule assms)

lemma poly_vec_modulus_check:
  assumes "length a = k * 384"
  shows "poly_vec_encode k 12 (poly_vec_decode k 12 a) = a \<longleftrightarrow> (\<forall>i<k. \<forall>j<256. coeff_12 (subspan (i * 384) 384 a) j < 3329)"
proof -
  have l: "check_l 12"
    by (simp add: check_l_def)
  have b: "subspan (i * 384) 384 (poly_vec_encode k 12 (poly_vec_decode k 12 a)) = encode 12 (decode 12 (subspan (i * 384) 384 a))" if "i < k" for i
    using block_poly_vec_encode [OF l that, of "poly_vec_decode k 12 a"] cell_poly_vec_decode [OF l that, of a] by simp
  have "poly_vec_encode k 12 (poly_vec_decode k 12 a) = a \<longleftrightarrow>
      (\<forall>i<k. encode 12 (decode 12 (subspan (i * 384) 384 a)) = subspan (i * 384) 384 a)"
    using b blocks_eqI [of "poly_vec_encode k 12 (poly_vec_decode k 12 a)" k 384 a] length_poly_vec_encode [OF l, of k "poly_vec_decode k 12 a"] assms
    by auto
  then show ?thesis
    using modulus_check length_block [OF assms] by simp
qed

end
