(* ===== verification/Kem_Keccak.thy ===== *)
theory Kem_Keccak
  imports Zb_Prelude
begin

text \<open>
  The Keccak permutation (\<open>namespace keccak\<close> of \<open>tools/ml_kem_512_single.hpp\<close>).  \<open>roundx4\<close> applies four rounds in
  place; each of them leaves its lanes at other positions of the array, and the fourth puts them back.  A round of
  FIPS 202, with its five step mappings, is the reference: \<open>roundx4\<close> computes four of them.
\<close>

type_synonym lanes = "u64 list"

section \<open>Constants\<close>

definition LANE_BW :: nat where
  "LANE_BW = push_bit 6 1"

definition MAX_NUM_ROUNDS :: nat where
  "MAX_NUM_ROUNDS = 12 + 2 * 6"

definition ROT :: "nat list" where
  "ROT = map (\<lambda>r. r mod LANE_BW)
     [0, 1, 190, 28, 91, 36, 300, 6, 55, 276, 3, 10, 171, 153, 231, 105, 45, 15, 21, 136, 210, 66, 253, 120, 78]"

definition PERM :: "nat list" where
  "PERM = [0, 6, 12, 18, 24, 3, 9, 10, 16, 22, 1, 7, 13, 19, 20, 4, 5, 11, 17, 23, 2, 8, 14, 15, 21]"

definition lfsr_step :: "u16 \<Rightarrow> u16" where
  "lfsr_step r =
     (let b0 = r AND 1;
          r = (r AND 0b011111111) XOR push_bit 8 ((drop_bit 8 r AND 1) XOR b0);
          r = (r AND 0b111101111) XOR push_bit 4 ((drop_bit 4 r AND 1) XOR b0);
          r = (r AND 0b111110111) XOR push_bit 3 ((drop_bit 3 r AND 1) XOR b0);
          r = (r AND 0b111111011) XOR push_bit 2 ((drop_bit 2 r AND 1) XOR b0)
      in drop_bit 1 r)"

definition rc :: "nat \<Rightarrow> bool" where
  "rc t = (if t mod 255 = 0 then True
           else let r = fold (\<lambda>i. lfsr_step) [1..<t mod 255 + 1] 0b10000000
                in drop_bit 7 r AND 1 \<noteq> 0)"

definition compute_rc :: "nat \<Rightarrow> u64" where
  "compute_rc r_idx =
     fold (\<lambda>j tmp. let boff = push_bit j 1 - 1 in tmp OR push_bit boff (of_bool (rc (j + 7 * r_idx)))) [0..<6 + 1] 0"

definition RC :: "u64 list" where
  "RC = map compute_rc [0..<MAX_NUM_ROUNDS]"

section \<open>Rounds\<close>

text \<open>\<open>std::rotl\<close> on 64 bits.\<close>

definition rotl :: "u64 \<Rightarrow> nat \<Rightarrow> u64" where
  "rotl x s = (let r = s mod 64 in if r = 0 then x else push_bit r x OR drop_bit (64 - r) x)"

text \<open>The loop that fills \<open>bc\<close> and the five assignments to \<open>d\<close>; every round starts with them.\<close>

definition column_parity :: "lanes \<Rightarrow> u64 list" where
  "column_parity s =
     fold (\<lambda>i bc. [bc ! 0 XOR s ! (i + 0), bc ! 1 XOR s ! (i + 1), bc ! 2 XOR s ! (i + 2), bc ! 3 XOR s ! (i + 3), bc ! 4 XOR s ! (i + 4)])
       (steps 0 25 5) [0, 0, 0, 0, 0]"

definition theta_effect :: "u64 list \<Rightarrow> u64 list" where
  "theta_effect bc =
     [bc ! 4 XOR rotl (bc ! 1) 1, bc ! 0 XOR rotl (bc ! 2) 1, bc ! 1 XOR rotl (bc ! 3) 1, bc ! 2 XOR rotl (bc ! 4) 1, bc ! 3 XOR rotl (bc ! 0) 1]"

definition round_0 :: "nat \<Rightarrow> lanes \<Rightarrow> lanes" where
  "round_0 ridx s =
     (let d = theta_effect (column_parity s);
      s = (let b0 = s ! 0 XOR d ! 0;
                b1 = rotl (s ! 6 XOR d ! 1) (ROT ! 6);
                b2 = rotl (s ! 12 XOR d ! 2) (ROT ! 12);
                b3 = rotl (s ! 18 XOR d ! 3) (ROT ! 18);
                b4 = rotl (s ! 24 XOR d ! 4) (ROT ! 24)
           in s[0 := (b0 XOR (b2 AND NOT b1)) XOR RC ! ridx,
                6 := b1 XOR (b3 AND NOT b2),
                12 := b2 XOR (b4 AND NOT b3),
                18 := b3 XOR (b0 AND NOT b4),
                24 := b4 XOR (b1 AND NOT b0)]);
      s = (let b2 = rotl (s ! 10 XOR d ! 0) (ROT ! 10);
                b3 = rotl (s ! 16 XOR d ! 1) (ROT ! 16);
                b4 = rotl (s ! 22 XOR d ! 2) (ROT ! 22);
                b0 = rotl (s ! 3 XOR d ! 3) (ROT ! 3);
                b1 = rotl (s ! 9 XOR d ! 4) (ROT ! 9)
           in s[10 := b0 XOR (b2 AND NOT b1),
                16 := b1 XOR (b3 AND NOT b2),
                22 := b2 XOR (b4 AND NOT b3),
                3 := b3 XOR (b0 AND NOT b4),
                9 := b4 XOR (b1 AND NOT b0)]);
      s = (let b4 = rotl (s ! 20 XOR d ! 0) (ROT ! 20);
                b0 = rotl (s ! 1 XOR d ! 1) (ROT ! 1);
                b1 = rotl (s ! 7 XOR d ! 2) (ROT ! 7);
                b2 = rotl (s ! 13 XOR d ! 3) (ROT ! 13);
                b3 = rotl (s ! 19 XOR d ! 4) (ROT ! 19)
           in s[20 := b0 XOR (b2 AND NOT b1),
                1 := b1 XOR (b3 AND NOT b2),
                7 := b2 XOR (b4 AND NOT b3),
                13 := b3 XOR (b0 AND NOT b4),
                19 := b4 XOR (b1 AND NOT b0)]);
      s = (let b1 = rotl (s ! 5 XOR d ! 0) (ROT ! 5);
                b2 = rotl (s ! 11 XOR d ! 1) (ROT ! 11);
                b3 = rotl (s ! 17 XOR d ! 2) (ROT ! 17);
                b4 = rotl (s ! 23 XOR d ! 3) (ROT ! 23);
                b0 = rotl (s ! 4 XOR d ! 4) (ROT ! 4)
           in s[5 := b0 XOR (b2 AND NOT b1),
                11 := b1 XOR (b3 AND NOT b2),
                17 := b2 XOR (b4 AND NOT b3),
                23 := b3 XOR (b0 AND NOT b4),
                4 := b4 XOR (b1 AND NOT b0)]);
      s = (let b3 = rotl (s ! 15 XOR d ! 0) (ROT ! 15);
                b4 = rotl (s ! 21 XOR d ! 1) (ROT ! 21);
                b0 = rotl (s ! 2 XOR d ! 2) (ROT ! 2);
                b1 = rotl (s ! 8 XOR d ! 3) (ROT ! 8);
                b2 = rotl (s ! 14 XOR d ! 4) (ROT ! 14)
           in s[15 := b0 XOR (b2 AND NOT b1),
                21 := b1 XOR (b3 AND NOT b2),
                2 := b2 XOR (b4 AND NOT b3),
                8 := b3 XOR (b0 AND NOT b4),
                14 := b4 XOR (b1 AND NOT b0)])
      in s)"

definition round_1 :: "nat \<Rightarrow> lanes \<Rightarrow> lanes" where
  "round_1 ridx s =
     (let d = theta_effect (column_parity s);
      s = (let b0 = s ! 0 XOR d ! 0;
                b1 = rotl (s ! 16 XOR d ! 1) (ROT ! 6);
                b2 = rotl (s ! 7 XOR d ! 2) (ROT ! 12);
                b3 = rotl (s ! 23 XOR d ! 3) (ROT ! 18);
                b4 = rotl (s ! 14 XOR d ! 4) (ROT ! 24)
           in s[0 := (b0 XOR (b2 AND NOT b1)) XOR RC ! (ridx + 1),
                16 := b1 XOR (b3 AND NOT b2),
                7 := b2 XOR (b4 AND NOT b3),
                23 := b3 XOR (b0 AND NOT b4),
                14 := b4 XOR (b1 AND NOT b0)]);
      s = (let b2 = rotl (s ! 20 XOR d ! 0) (ROT ! 10);
                b3 = rotl (s ! 11 XOR d ! 1) (ROT ! 16);
                b4 = rotl (s ! 2 XOR d ! 2) (ROT ! 22);
                b0 = rotl (s ! 18 XOR d ! 3) (ROT ! 3);
                b1 = rotl (s ! 9 XOR d ! 4) (ROT ! 9)
           in s[20 := b0 XOR (b2 AND NOT b1),
                11 := b1 XOR (b3 AND NOT b2),
                2 := b2 XOR (b4 AND NOT b3),
                18 := b3 XOR (b0 AND NOT b4),
                9 := b4 XOR (b1 AND NOT b0)]);
      s = (let b4 = rotl (s ! 15 XOR d ! 0) (ROT ! 20);
                b0 = rotl (s ! 6 XOR d ! 1) (ROT ! 1);
                b1 = rotl (s ! 22 XOR d ! 2) (ROT ! 7);
                b2 = rotl (s ! 13 XOR d ! 3) (ROT ! 13);
                b3 = rotl (s ! 4 XOR d ! 4) (ROT ! 19)
           in s[15 := b0 XOR (b2 AND NOT b1),
                6 := b1 XOR (b3 AND NOT b2),
                22 := b2 XOR (b4 AND NOT b3),
                13 := b3 XOR (b0 AND NOT b4),
                4 := b4 XOR (b1 AND NOT b0)]);
      s = (let b1 = rotl (s ! 10 XOR d ! 0) (ROT ! 5);
                b2 = rotl (s ! 1 XOR d ! 1) (ROT ! 11);
                b3 = rotl (s ! 17 XOR d ! 2) (ROT ! 17);
                b4 = rotl (s ! 8 XOR d ! 3) (ROT ! 23);
                b0 = rotl (s ! 24 XOR d ! 4) (ROT ! 4)
           in s[10 := b0 XOR (b2 AND NOT b1),
                1 := b1 XOR (b3 AND NOT b2),
                17 := b2 XOR (b4 AND NOT b3),
                8 := b3 XOR (b0 AND NOT b4),
                24 := b4 XOR (b1 AND NOT b0)]);
      s = (let b3 = rotl (s ! 5 XOR d ! 0) (ROT ! 15);
                b4 = rotl (s ! 21 XOR d ! 1) (ROT ! 21);
                b0 = rotl (s ! 12 XOR d ! 2) (ROT ! 2);
                b1 = rotl (s ! 3 XOR d ! 3) (ROT ! 8);
                b2 = rotl (s ! 19 XOR d ! 4) (ROT ! 14)
           in s[5 := b0 XOR (b2 AND NOT b1),
                21 := b1 XOR (b3 AND NOT b2),
                12 := b2 XOR (b4 AND NOT b3),
                3 := b3 XOR (b0 AND NOT b4),
                19 := b4 XOR (b1 AND NOT b0)])
      in s)"

definition round_2 :: "nat \<Rightarrow> lanes \<Rightarrow> lanes" where
  "round_2 ridx s =
     (let d = theta_effect (column_parity s);
      s = (let b0 = s ! 0 XOR d ! 0;
                b1 = rotl (s ! 11 XOR d ! 1) (ROT ! 6);
                b2 = rotl (s ! 22 XOR d ! 2) (ROT ! 12);
                b3 = rotl (s ! 8 XOR d ! 3) (ROT ! 18);
                b4 = rotl (s ! 19 XOR d ! 4) (ROT ! 24)
           in s[0 := (b0 XOR (b2 AND NOT b1)) XOR RC ! (ridx + 2),
                11 := b1 XOR (b3 AND NOT b2),
                22 := b2 XOR (b4 AND NOT b3),
                8 := b3 XOR (b0 AND NOT b4),
                19 := b4 XOR (b1 AND NOT b0)]);
      s = (let b2 = rotl (s ! 15 XOR d ! 0) (ROT ! 10);
                b3 = rotl (s ! 1 XOR d ! 1) (ROT ! 16);
                b4 = rotl (s ! 12 XOR d ! 2) (ROT ! 22);
                b0 = rotl (s ! 23 XOR d ! 3) (ROT ! 3);
                b1 = rotl (s ! 9 XOR d ! 4) (ROT ! 9)
           in s[15 := b0 XOR (b2 AND NOT b1),
                1 := b1 XOR (b3 AND NOT b2),
                12 := b2 XOR (b4 AND NOT b3),
                23 := b3 XOR (b0 AND NOT b4),
                9 := b4 XOR (b1 AND NOT b0)]);
      s = (let b4 = rotl (s ! 5 XOR d ! 0) (ROT ! 20);
                b0 = rotl (s ! 16 XOR d ! 1) (ROT ! 1);
                b1 = rotl (s ! 2 XOR d ! 2) (ROT ! 7);
                b2 = rotl (s ! 13 XOR d ! 3) (ROT ! 13);
                b3 = rotl (s ! 24 XOR d ! 4) (ROT ! 19)
           in s[5 := b0 XOR (b2 AND NOT b1),
                16 := b1 XOR (b3 AND NOT b2),
                2 := b2 XOR (b4 AND NOT b3),
                13 := b3 XOR (b0 AND NOT b4),
                24 := b4 XOR (b1 AND NOT b0)]);
      s = (let b1 = rotl (s ! 20 XOR d ! 0) (ROT ! 5);
                b2 = rotl (s ! 6 XOR d ! 1) (ROT ! 11);
                b3 = rotl (s ! 17 XOR d ! 2) (ROT ! 17);
                b4 = rotl (s ! 3 XOR d ! 3) (ROT ! 23);
                b0 = rotl (s ! 14 XOR d ! 4) (ROT ! 4)
           in s[20 := b0 XOR (b2 AND NOT b1),
                6 := b1 XOR (b3 AND NOT b2),
                17 := b2 XOR (b4 AND NOT b3),
                3 := b3 XOR (b0 AND NOT b4),
                14 := b4 XOR (b1 AND NOT b0)]);
      s = (let b3 = rotl (s ! 10 XOR d ! 0) (ROT ! 15);
                b4 = rotl (s ! 21 XOR d ! 1) (ROT ! 21);
                b0 = rotl (s ! 7 XOR d ! 2) (ROT ! 2);
                b1 = rotl (s ! 18 XOR d ! 3) (ROT ! 8);
                b2 = rotl (s ! 4 XOR d ! 4) (ROT ! 14)
           in s[10 := b0 XOR (b2 AND NOT b1),
                21 := b1 XOR (b3 AND NOT b2),
                7 := b2 XOR (b4 AND NOT b3),
                18 := b3 XOR (b0 AND NOT b4),
                4 := b4 XOR (b1 AND NOT b0)])
      in s)"

definition round_3 :: "nat \<Rightarrow> lanes \<Rightarrow> lanes" where
  "round_3 ridx s =
     (let d = theta_effect (column_parity s);
      s = (let b0 = s ! 0 XOR d ! 0;
                b1 = rotl (s ! 1 XOR d ! 1) (ROT ! 6);
                b2 = rotl (s ! 2 XOR d ! 2) (ROT ! 12);
                b3 = rotl (s ! 3 XOR d ! 3) (ROT ! 18);
                b4 = rotl (s ! 4 XOR d ! 4) (ROT ! 24)
           in s[0 := (b0 XOR (b2 AND NOT b1)) XOR RC ! (ridx + 3),
                1 := b1 XOR (b3 AND NOT b2),
                2 := b2 XOR (b4 AND NOT b3),
                3 := b3 XOR (b0 AND NOT b4),
                4 := b4 XOR (b1 AND NOT b0)]);
      s = (let b2 = rotl (s ! 5 XOR d ! 0) (ROT ! 10);
                b3 = rotl (s ! 6 XOR d ! 1) (ROT ! 16);
                b4 = rotl (s ! 7 XOR d ! 2) (ROT ! 22);
                b0 = rotl (s ! 8 XOR d ! 3) (ROT ! 3);
                b1 = rotl (s ! 9 XOR d ! 4) (ROT ! 9)
           in s[5 := b0 XOR (b2 AND NOT b1),
                6 := b1 XOR (b3 AND NOT b2),
                7 := b2 XOR (b4 AND NOT b3),
                8 := b3 XOR (b0 AND NOT b4),
                9 := b4 XOR (b1 AND NOT b0)]);
      s = (let b4 = rotl (s ! 10 XOR d ! 0) (ROT ! 20);
                b0 = rotl (s ! 11 XOR d ! 1) (ROT ! 1);
                b1 = rotl (s ! 12 XOR d ! 2) (ROT ! 7);
                b2 = rotl (s ! 13 XOR d ! 3) (ROT ! 13);
                b3 = rotl (s ! 14 XOR d ! 4) (ROT ! 19)
           in s[10 := b0 XOR (b2 AND NOT b1),
                11 := b1 XOR (b3 AND NOT b2),
                12 := b2 XOR (b4 AND NOT b3),
                13 := b3 XOR (b0 AND NOT b4),
                14 := b4 XOR (b1 AND NOT b0)]);
      s = (let b1 = rotl (s ! 15 XOR d ! 0) (ROT ! 5);
                b2 = rotl (s ! 16 XOR d ! 1) (ROT ! 11);
                b3 = rotl (s ! 17 XOR d ! 2) (ROT ! 17);
                b4 = rotl (s ! 18 XOR d ! 3) (ROT ! 23);
                b0 = rotl (s ! 19 XOR d ! 4) (ROT ! 4)
           in s[15 := b0 XOR (b2 AND NOT b1),
                16 := b1 XOR (b3 AND NOT b2),
                17 := b2 XOR (b4 AND NOT b3),
                18 := b3 XOR (b0 AND NOT b4),
                19 := b4 XOR (b1 AND NOT b0)]);
      s = (let b3 = rotl (s ! 20 XOR d ! 0) (ROT ! 15);
                b4 = rotl (s ! 21 XOR d ! 1) (ROT ! 21);
                b0 = rotl (s ! 22 XOR d ! 2) (ROT ! 2);
                b1 = rotl (s ! 23 XOR d ! 3) (ROT ! 8);
                b2 = rotl (s ! 24 XOR d ! 4) (ROT ! 14)
           in s[20 := b0 XOR (b2 AND NOT b1),
                21 := b1 XOR (b3 AND NOT b2),
                22 := b2 XOR (b4 AND NOT b3),
                23 := b3 XOR (b0 AND NOT b4),
                24 := b4 XOR (b1 AND NOT b0)])
      in s)"

definition roundx4 :: "nat \<Rightarrow> lanes \<Rightarrow> lanes" where
  "roundx4 ridx s = round_3 ridx (round_2 ridx (round_1 ridx (round_0 ridx s)))"

definition permute :: "nat \<Rightarrow> lanes \<Rightarrow> lanes" where
  "permute num_rounds s =
     (let start_at_round = MAX_NUM_ROUNDS - num_rounds
      in fold roundx4 (steps start_at_round MAX_NUM_ROUNDS 4) s)"

section \<open>The round of the standard\<close>

definition theta :: "lanes \<Rightarrow> lanes" where
  "theta A =
     (let C = map (\<lambda>x. A ! x XOR A ! (x + 5) XOR A ! (x + 10) XOR A ! (x + 15) XOR A ! (x + 20)) [0..<5];
          D = map (\<lambda>x. C ! ((x + 4) mod 5) XOR rotl (C ! ((x + 1) mod 5)) 1) [0..<5]
      in map (\<lambda>i. A ! i XOR D ! (i mod 5)) [0..<25])"

definition rho_pi :: "lanes \<Rightarrow> lanes" where
  "rho_pi A = map (\<lambda>i. rotl (A ! (PERM ! i)) (ROT ! (PERM ! i))) [0..<25]"

definition chi :: "lanes \<Rightarrow> lanes" where
  "chi A = map (\<lambda>i. let y = i div 5 * 5; x = i mod 5
                     in A ! i XOR (A ! (y + (x + 2) mod 5) AND NOT (A ! (y + (x + 1) mod 5)))) [0..<25]"

definition iota :: "nat \<Rightarrow> lanes \<Rightarrow> lanes" where
  "iota ir A = A[0 := A ! 0 XOR RC ! ir]"

definition keccak_round :: "nat \<Rightarrow> lanes \<Rightarrow> lanes" where
  "keccak_round ir A = iota ir (chi (rho_pi (theta A)))"

section \<open>Four rounds in place are four rounds of the standard\<close>

text \<open>\<open>loc k\<close> is the position of every lane before the \<open>k\<close>-th of the four rounds.\<close>

definition loc :: "nat \<Rightarrow> nat list" where
  "loc k =
     (if k = 1 then [0, 6, 12, 18, 24, 10, 16, 22, 3, 9, 20, 1, 7, 13, 19, 5, 11, 17, 23, 4, 15, 21, 2, 8, 14]
      else if k = 2 then [0, 16, 7, 23, 14, 20, 11, 2, 18, 9, 15, 6, 22, 13, 4, 10, 1, 17, 8, 24, 5, 21, 12, 3, 19]
      else if k = 3 then [0, 11, 22, 8, 19, 15, 1, 12, 23, 9, 5, 16, 2, 13, 24, 20, 6, 17, 3, 14, 10, 21, 7, 18, 4]
      else [0..<25])"

definition lanes_at :: "nat list \<Rightarrow> lanes \<Rightarrow> lanes" where
  "lanes_at ps s = map (\<lambda>p. s ! p) ps"

lemma steps_5: "steps 0 25 5 = [0, 5, 10, 15, 20]"
  by (simp add: steps.simps)

lemma upt_25: "[0..<25] = [0, 1, 2, 3, 4, 5, 6, 7, 8, 9, 10, 11, 12, 13, 14, 15, 16, 17, 18, 19, 20, 21, 22, 23, 24 :: nat]"
  by (simp add: upt_conv_Cons eval_nat_numeral)

lemma upt_5: "[0..<5] = [0, 1, 2, 3, 4 :: nat]"
  by (simp add: upt_conv_Cons eval_nat_numeral)

lemma column_parity_eq:
  "column_parity s = map (\<lambda>x. s ! x XOR s ! (x + 5) XOR s ! (x + 10) XOR s ! (x + 15) XOR s ! (x + 20)) [0..<5]"
  by (simp add: column_parity_def steps_5 upt_5 xor.assoc numeral_2_eq_2)

lemma theta_eq: "theta A = map (\<lambda>i. A ! i XOR theta_effect (column_parity A) ! (i mod 5)) [0..<25]"
  by (simp add: theta_def theta_effect_def column_parity_eq upt_25 upt_5)

lemma parity_at:
  "k < 4 \<Longrightarrow> column_parity (lanes_at (loc k) s) = column_parity s"
  by (cases "k = 0"; cases "k = 1"; cases "k = 2"; cases "k = 3") (simp_all add: column_parity_eq lanes_at_def loc_def upt_25 upt_5 xor.assoc xor.commute xor.left_commute)

lemma rotl_0 [simp]: "rotl x 0 = x"
  by (simp add: rotl_def)

lemma round_0_ref:
  assumes "length s = 25"
  shows "lanes_at (loc 1) (round_0 ridx s) = keccak_round ridx (lanes_at (loc 0) s)"
proof -
  define d where "d = theta_effect (column_parity s)"
  have p: "theta_effect (column_parity (lanes_at (loc 0) s)) = d"
    by (simp add: parity_at d_def)
  show ?thesis
    unfolding keccak_round_def theta_eq p round_0_def d_def [symmetric]
    using assms
    by (simp add: Let_def iota_def chi_def rho_pi_def lanes_at_def loc_def upt_25 PERM_def ROT_def LANE_BW_def)
qed

lemma round_1_ref:
  assumes "length s = 25"
  shows "lanes_at (loc 2) (round_1 ridx s) = keccak_round (ridx + 1) (lanes_at (loc 1) s)"
proof -
  define d where "d = theta_effect (column_parity s)"
  have p: "theta_effect (column_parity (lanes_at (loc 1) s)) = d"
    by (simp add: parity_at d_def)
  show ?thesis
    unfolding keccak_round_def theta_eq p round_1_def d_def [symmetric]
    using assms
    by (simp add: Let_def iota_def chi_def rho_pi_def lanes_at_def loc_def upt_25 PERM_def ROT_def LANE_BW_def)
qed

lemma round_2_ref:
  assumes "length s = 25"
  shows "lanes_at (loc 3) (round_2 ridx s) = keccak_round (ridx + 2) (lanes_at (loc 2) s)"
proof -
  define d where "d = theta_effect (column_parity s)"
  have p: "theta_effect (column_parity (lanes_at (loc 2) s)) = d"
    by (simp add: parity_at d_def)
  show ?thesis
    unfolding keccak_round_def theta_eq p round_2_def d_def [symmetric]
    using assms
    by (simp add: Let_def iota_def chi_def rho_pi_def lanes_at_def loc_def upt_25 PERM_def ROT_def LANE_BW_def)
qed

lemma round_3_ref:
  assumes "length s = 25"
  shows "lanes_at (loc 4) (round_3 ridx s) = keccak_round (ridx + 3) (lanes_at (loc 3) s)"
proof -
  define d where "d = theta_effect (column_parity s)"
  have p: "theta_effect (column_parity (lanes_at (loc 3) s)) = d"
    by (simp add: parity_at d_def)
  show ?thesis
    unfolding keccak_round_def theta_eq p round_3_def d_def [symmetric]
    using assms
    by (simp add: Let_def iota_def chi_def rho_pi_def lanes_at_def loc_def upt_25 PERM_def ROT_def LANE_BW_def)
qed

lemma length_rounds [simp]:
  "length (round_0 ridx s) = length s" "length (round_1 ridx s) = length s"
  "length (round_2 ridx s) = length s" "length (round_3 ridx s) = length s"
  by (simp_all add: round_0_def round_1_def round_2_def round_3_def Let_def)

lemma lanes_at_id: "length s = 25 \<Longrightarrow> lanes_at [0..<25] s = s"
  by (simp add: lanes_at_def list_eq_iff_nth_eq)

lemma roundx4_ref:
  assumes "length s = 25"
  shows "roundx4 ridx s = fold keccak_round [ridx..<ridx + 4] s"
proof -
  have "[ridx..<ridx + 4] = [ridx, ridx + 1, ridx + 2, ridx + 3]"
    by (simp add: upt_conv_Cons eval_nat_numeral)
  moreover have "lanes_at (loc 4) (roundx4 ridx s) = roundx4 ridx s" "lanes_at (loc 0) s = s"
    using assms by (simp_all add: roundx4_def loc_def lanes_at_id)
  ultimately show ?thesis
    using assms round_0_ref [OF assms, of ridx] round_1_ref [of "round_0 ridx s" ridx]
      round_2_ref [of "round_1 ridx (round_0 ridx s)" ridx] round_3_ref [of "round_2 ridx (round_1 ridx (round_0 ridx s))" ridx]
    by (simp add: roundx4_def numeral_2_eq_2 numeral_3_eq_3)
qed

lemma length_roundx4 [simp]: "length (roundx4 ridx s) = length s"
  by (simp add: roundx4_def)

lemma length_permute [simp]: "length (permute n s) = length s"
proof -
  have "length (fold roundx4 xs s) = length s" for xs
    by (induction xs arbitrary: s) simp_all
  then show ?thesis
    by (simp add: permute_def)
qed

lemma fold_roundx4:
  assumes "length s = 25"
  shows "fold roundx4 (map (\<lambda>b. b * 4) [a..<n]) s = fold keccak_round [a * 4..<n * 4] s"
  using assms
proof (induction "n - a" arbitrary: a s)
  case (Suc k)
  then have "n * 4 = a * 4 + 4 + (n - Suc a) * 4"
    by (simp add: diff_mult_distrib)
  then have e: "[a..<n] = a # [Suc a..<n]" "[a * 4..<n * 4] = [a * 4..<a * 4 + 4] @ [a * 4 + 4..<n * 4]"
    using upt_add_eq_append [of "a * 4" "a * 4 + 4" "(n - Suc a) * 4"] Suc.hyps(2) by (simp_all add: upt_conv_Cons del: upt_Suc)
  have "Suc a * 4 = a * 4 + 4"
    by simp
  have "length (roundx4 (a * 4) s) = 25"
    using Suc.prems by simp
  from Suc.hyps(1) [OF _ this, of "Suc a"] Suc.hyps(2) Suc.prems show ?case
    by (simp only: e list.map fold.simps fold_append comp_apply roundx4_ref \<open>Suc a * 4 = a * 4 + 4\<close> diff_Suc_Suc diff_Suc_1 Suc_diff_Suc)
qed simp

lemma permute_rounds:
  assumes "length s = 25" "n = 12 \<or> n = 24"
  shows "permute n s = fold keccak_round [24 - n..<24] s"
  using assms fold_roundx4 [OF assms(1), of 3 6] fold_roundx4 [OF assms(1), of 0 6] steps_eq [of 4 3 6] steps_eq [of 4 0 6]
  by (auto simp: permute_def MAX_NUM_ROUNDS_def)

section \<open>The round constants\<close>

text \<open>On eight bits the register shifts and adds the feedback polynomial when a 1 leaves it.\<close>

definition feedback :: "int \<Rightarrow> int" where
  "feedback v = (if odd v then v div 2 XOR 142 else v div 2)"

lemma lfsr_step_bits:
  assumes "r < 256"
  shows "lfsr_step r = drop_bit 1 r XOR (if bit r 0 then 142 else 0)" and "lfsr_step r < 256"
proof -
  have hi: "\<not> bit r k" if "8 \<le> k" for k
  proof -
    have "take_bit 8 r = r"
      using assms by (simp add: word_less_nat_alt word_unat_eq_iff unsigned_take_bit_eq take_bit_nat_eq_self)
    then show ?thesis
      using that by (metis bit_take_bit_iff not_le)
  qed
  have "\<forall>k<16. bit (lfsr_step r) k = bit (drop_bit 1 r XOR (if bit r 0 then 142 else 0)) k"
    by (simp add: below_cases lfsr_step_def Let_def bit_simps bit_0 hi)
  then show e: "lfsr_step r = drop_bit 1 r XOR (if bit r 0 then 142 else 0)"
    by (intro bit_word_eqI) simp
  have "\<forall>k<16. bit (take_bit 8 (lfsr_step r)) k = bit (lfsr_step r) k"
    unfolding e by (simp add: below_cases bit_simps hi)
  then have "take_bit 8 (lfsr_step r) = lfsr_step r"
    by (intro bit_word_eqI) simp
  then have "unat (lfsr_step r) < 2 ^ 8"
    by (metis take_bit_nat_less_exp unsigned_take_bit_eq)
  then show "lfsr_step r < 256"
    by (simp add: word_less_nat_alt)
qed

primrec orbit :: "nat \<Rightarrow> int \<Rightarrow> bool list" where
  "orbit 0 v = []"
| "orbit (Suc n) v = (128 \<le> v) # orbit n (feedback v)"

lemma uint_lfsr_step:
  assumes "r < 256"
  shows "uint (lfsr_step r) = feedback (uint r)"
proof -
  have "take_bit 16 (uint r) = uint r"
    using unsigned_less [of r, where ?'a = int] by (simp add: take_bit_int_eq_self_iff)
  then have "uint (lfsr_step r) = drop_bit 1 (uint r) XOR uint (if bit r 0 then 142 else 0 :: u16)"
    unfolding lfsr_step_bits(1) [OF assms] by (simp add: unsigned_xor_eq unsigned_drop_bit_eq)
  moreover have "bit r 0 \<longleftrightarrow> odd (uint r)"
    using bit_uint_iff [of r 0] by (simp add: bit_0)
  ultimately show ?thesis
    by (simp add: feedback_def drop_bit_eq_div)
qed

lemma orbit_nth:
  "r < 256 \<Longrightarrow> i < n \<Longrightarrow> orbit n (uint r) ! i = bit ((lfsr_step ^^ i) r) 7"
proof (induction n arbitrary: i r)
  case (Suc n)
  have "bit r 7 \<longleftrightarrow> 128 \<le> uint r"
  proof -
    have "drop_bit 7 (uint r) = uint r div 128" "uint r < 256"
      using Suc.prems(1) by (simp_all add: drop_bit_eq_div word_less_def)
    moreover have "bit r 7 \<longleftrightarrow> odd (drop_bit 7 (uint r))"
      by (simp add: bit_iff_odd_drop_bit [symmetric] bit_uint_iff)
    ultimately show ?thesis
      by (cases "128 \<le> uint r") (simp_all add: int_div_pos_eq [of _ 128 1 "uint r - 128"])
  qed
  moreover have "orbit n (feedback (uint r)) ! j = bit ((lfsr_step ^^ j) (lfsr_step r)) 7" if "j < n" for j
    using Suc.IH [OF lfsr_step_bits(2) [OF Suc.prems(1)] that] by (simp only: uint_lfsr_step [OF Suc.prems(1)])
  ultimately show ?case
    using Suc.prems(2) by (cases i) (simp_all add: funpow_swap1)
qed simp

lemma fold_const: "fold (\<lambda>i. f) xs = f ^^ length xs"
  by (induction xs) (simp_all add: funpow_swap1 fun_eq_iff)

lemma rc_orbit: "t < 168 \<Longrightarrow> rc t = orbit 168 128 ! t"
  using orbit_nth [of 128 t 168]
  by (simp add: rc_def Let_def fold_const bit_iff_and_drop_bit_eq_1 and_one_eq odd_iff_mod_2_eq_one)

lemma orbit_numeral: "orbit (numeral k) v = (128 \<le> v) # orbit (pred_numeral k) (feedback v)"
  by (simp add: numeral_eq_Suc)

lemma orbit_val: "orbit 168 128 = concat
    [[True, False, False, False, False, False, False],
     [False, True, False, True, True, False, False],
     [False, True, True, True, True, False, True],
     [False, False, False, False, True, True, True],
     [True, True, True, True, True, False, False],
     [True, False, False, False, False, True, False],
     [True, False, False, True, True, True, True],
     [True, False, True, False, True, False, True],
     [False, True, True, True, False, False, False],
     [False, False, True, True, False, False, False],
     [True, False, True, False, True, True, False],
     [False, True, True, False, False, True, False],
     [True, True, True, True, True, True, False],
     [True, True, True, True, False, False, True],
     [True, False, True, True, True, False, True],
     [True, True, False, False, True, False, True],
     [False, True, False, False, True, False, True],
     [False, False, False, True, False, False, True],
     [False, True, True, False, True, False, False],
     [False, True, True, False, False, True, True],
     [True, False, False, True, True, True, True],
     [False, False, False, True, True, False, True],
     [True, False, False, False, False, True, False],
     [False, False, True, False, True, True, True]]"
  by (simp add: orbit_numeral feedback_def)

lemma compute_rc_orbit:
  assumes "i < 24"
  defines "b \<equiv> \<lambda>j. of_bool (orbit 168 128 ! (7 * i + j)) :: u64"
  shows "compute_rc i = b 0 OR push_bit 1 (b 1) OR push_bit 3 (b 2) OR push_bit 7 (b 3) OR push_bit 15 (b 4) OR push_bit 31 (b 5) OR push_bit 63 (b 6)"
proof -
  have "[0..<6 + 1] = [0, 1, 2, 3, 4, 5, 6 :: nat]"
    by (simp add: upt_conv_Cons eval_nat_numeral)
  then show ?thesis
    using assms(1) by (simp add: compute_rc_def b_def Let_def rc_orbit add.commute or.assoc)
qed

lemma RC_val: "RC =
    [0x0000000000000001, 0x0000000000008082, 0x800000000000808a, 0x8000000080008000,
     0x000000000000808b, 0x0000000080000001, 0x8000000080008081, 0x8000000000008009,
     0x000000000000008a, 0x0000000000000088, 0x0000000080008009, 0x000000008000000a,
     0x000000008000808b, 0x800000000000008b, 0x8000000000008089, 0x8000000000008003,
     0x8000000000008002, 0x8000000000000080, 0x000000000000800a, 0x800000008000000a,
     0x8000000080008081, 0x8000000000008080, 0x0000000080000001, 0x8000000080008008]"
proof -
  have u: "[0..<MAX_NUM_ROUNDS] = [0, 1, 2, 3, 4, 5, 6, 7, 8, 9, 10, 11, 12, 13, 14, 15, 16, 17, 18, 19, 20, 21, 22, 23]"
    by (simp add: MAX_NUM_ROUNDS_def upt_conv_Cons eval_nat_numeral)
  show ?thesis
    unfolding RC_def u by (simp add: compute_rc_orbit orbit_val)
qed

section \<open>Properties\<close>

text \<open>
  C15: the unrolled permutation, which works in place on lanes that wander between four rounds, applies the rounds of
  the standard one after the other, all 24 of them or the last 12; the round constants computed by the feedback
  register at compile time are those of the standard.\<close>

theorem permute_is_keccak:
  assumes "length s = 25"
  shows "permute 24 s = fold keccak_round [0..<24] s \<and> permute 12 s = fold keccak_round [12..<24] s \<and>
    RC = [0x0000000000000001, 0x0000000000008082, 0x800000000000808a, 0x8000000080008000,
     0x000000000000808b, 0x0000000080000001, 0x8000000080008081, 0x8000000000008009,
     0x000000000000008a, 0x0000000000000088, 0x0000000080008009, 0x000000008000000a,
     0x000000008000808b, 0x800000000000008b, 0x8000000000008089, 0x8000000000008003,
     0x8000000000008002, 0x8000000000000080, 0x000000000000800a, 0x800000008000000a,
     0x8000000080008081, 0x8000000000008080, 0x0000000080000001, 0x8000000080008008]"
  using permute_rounds [OF assms, of 24] permute_rounds [OF assms, of 12] RC_val by simp

theorem permute_is_keccak_witness:
  "permute 24 (replicate 25 0) = fold keccak_round [0..<24] (replicate 25 0)"
  using permute_is_keccak [of "replicate 25 0"] by simp

end
