(* ===== verification/Kem_Sponge.thy ===== *)
theory Kem_Sponge
  imports Kem_Keccak
begin

text \<open>
  The sponge over the permutation (\<open>namespace sha3_utils\<close> and \<open>namespace sponge\<close>).  \<open>absorb\<close> and \<open>squeeze\<close> work on
  whole 64-bit words through a block of bytes and may be called with any number of bytes at a time; the reference
  feeds and reads one byte at a time.  The two agree, so how a message or a digest is cut into calls does not matter.
\<close>

section \<open>Words and bytes\<close>

definition le_bytes_to_u64 :: "bytes \<Rightarrow> u64" where
  "le_bytes_to_u64 b =
     push_bit 56 (ucast (b ! 7)) OR push_bit 48 (ucast (b ! 6)) OR push_bit 40 (ucast (b ! 5)) OR push_bit 32 (ucast (b ! 4)) OR
     push_bit 24 (ucast (b ! 3)) OR push_bit 16 (ucast (b ! 2)) OR push_bit 8 (ucast (b ! 1)) OR push_bit 0 (ucast (b ! 0))"

definition u64_to_le_bytes :: "u64 \<Rightarrow> bytes" where
  "u64_to_le_bytes w =
     [ucast (drop_bit 0 w), ucast (drop_bit 8 w), ucast (drop_bit 16 w), ucast (drop_bit 24 w),
      ucast (drop_bit 32 w), ucast (drop_bit 40 w), ucast (drop_bit 48 w), ucast (drop_bit 56 w)]"

text \<open>\<open>n & -8\<close> on \<open>size_t\<close>.\<close>

definition word_floor :: "nat \<Rightarrow> nat" where
  "word_floor n = unat ((of_nat n :: u64) AND - 8)"

section \<open>Absorbing\<close>

definition check_domain_separator :: "nat \<Rightarrow> bool" where
  "check_domain_separator dom_sep_bit_len \<longleftrightarrow> dom_sep_bit_len \<le> 6"

definition absorb_block :: "nat \<Rightarrow> nat \<Rightarrow> bytes \<Rightarrow> lanes \<Rightarrow> lanes" where
  "absorb_block from_i to_i block s =
     fold (\<lambda>i s. s[i div 8 := s ! (i div 8) XOR le_bytes_to_u64 (take 8 (drop i block))]) (steps from_i to_i 8) s"

text \<open>One pass of the loop of \<open>absorb\<close>: it takes \<open>n\<close> bytes of the message into the block and the state.\<close>

definition absorb_pass :: "nat \<Rightarrow> bytes \<Rightarrow> lanes \<Rightarrow> nat \<Rightarrow> bytes \<Rightarrow> bytes \<times> lanes" where
  "absorb_pass n block s offset msg =
     (let effective = offset + n;
          padded = word_floor (effective + 7);
          begins_at = word_floor offset;
          block1 = overwrite begins_at (replicate (padded - begins_at) 0) block;
          block2 = overwrite offset (take n msg) block1
      in (block2, absorb_block begins_at padded block2 s))"

text \<open>
  The loop: the remaining message shrinks with every pass.  The offset is below the rate, as the routine requires.
\<close>

function absorb_loop :: "nat \<Rightarrow> nat \<Rightarrow> bytes \<Rightarrow> lanes \<Rightarrow> nat \<Rightarrow> bytes \<Rightarrow> lanes \<times> nat" where
  "absorb_loop rate num_rounds block s offset msg =
     (if msg = [] \<or> rate \<le> offset then (s, offset)
      else let n = min (length msg) (rate - offset);
               p = absorb_pass n block s offset msg;
               so = (if offset + n = rate then (permute num_rounds (snd p), 0) else (snd p, offset + n))
           in absorb_loop rate num_rounds (fst p) (fst so) (snd so) (drop n msg))"
  by pat_completeness auto
termination
  by (relation "measure (\<lambda>(rate, num_rounds, block, s, offset, msg). length msg)") (auto simp: neq_Nil_conv)

declare absorb_loop.simps [simp del]

definition absorb :: "nat \<Rightarrow> nat \<Rightarrow> lanes \<times> nat \<Rightarrow> bytes \<Rightarrow> lanes \<times> nat" where
  "absorb num_bits_in_rate num_rounds so msg =
     (let num_bytes_in_rate = num_bits_in_rate div 8
      in absorb_loop num_bytes_in_rate num_rounds (replicate num_bytes_in_rate 0) (fst so) (snd so) msg)"

definition finalize :: "u8 \<Rightarrow> nat \<Rightarrow> nat \<Rightarrow> nat \<Rightarrow> lanes \<times> nat \<Rightarrow> lanes \<times> nat" where
  "finalize domain_separator ds_bit_len num_bits_in_rate num_rounds so =
     (let num_bytes_in_rate = num_bits_in_rate div 8;
          num_words_in_rate = num_bytes_in_rate div 8;
          s = fst so;
          offset = snd so;
          state_word_index = offset div 8;
          byte_index_in_state_word = offset mod 8;
          shl_bit_offset = byte_index_in_state_word * 8;
          msk = (push_bit ds_bit_len 1 - 1 :: u8);
          pad_byte = (push_bit ds_bit_len 1 OR (domain_separator AND msk) :: u8);
          s = s[state_word_index := s ! state_word_index XOR push_bit shl_bit_offset (ucast pad_byte)];
          s = s[num_words_in_rate - 1 := s ! (num_words_in_rate - 1) XOR push_bit 56 0x80]
      in (permute num_rounds s, 0))"

section \<open>Squeezing\<close>

definition squeeze_block :: "nat \<Rightarrow> nat \<Rightarrow> lanes \<Rightarrow> bytes \<Rightarrow> bytes" where
  "squeeze_block from_i to_i s blk = fold (\<lambda>i blk. overwrite i (u64_to_le_bytes (s ! (i div 8))) blk) (steps from_i to_i 8) blk"

function squeeze_loop :: "nat \<Rightarrow> nat \<Rightarrow> bytes \<Rightarrow> lanes \<Rightarrow> nat \<Rightarrow> nat \<Rightarrow> (lanes \<times> nat) \<times> bytes" where
  "squeeze_loop rate num_rounds blk s squeezable remaining =
     (if remaining = 0 \<or> rate = 0 then ((s, squeezable), [])
      else let state_byte_offset = rate - squeezable;
               n = min remaining squeezable;
               effective = state_byte_offset + n;
               padded = word_floor (effective + 7);
               begins_at = word_floor state_byte_offset;
               blk1 = squeeze_block begins_at padded s blk;
               out = take n (drop state_byte_offset blk1);
               r = (if squeezable - n = 0 then squeeze_loop rate num_rounds blk1 (permute num_rounds s) rate (remaining - n)
                    else squeeze_loop rate num_rounds blk1 s (squeezable - n) (remaining - n))
           in (fst r, out @ snd r))"
  by pat_completeness auto
termination
  by (relation "measure (\<lambda>(rate, num_rounds, blk, s, squeezable, remaining). 2 * remaining + of_bool (squeezable = 0))") auto

declare squeeze_loop.simps [simp del]

definition squeeze :: "nat \<Rightarrow> nat \<Rightarrow> lanes \<times> nat \<Rightarrow> nat \<Rightarrow> (lanes \<times> nat) \<times> bytes" where
  "squeeze num_bits_in_rate num_rounds ss out_size =
     (let num_bytes_in_rate = num_bits_in_rate div 8
      in squeeze_loop num_bytes_in_rate num_rounds (replicate num_bytes_in_rate 0) (fst ss) (snd ss) out_size)"

section \<open>One byte at a time\<close>

definition xor_byte :: "nat \<Rightarrow> u8 \<Rightarrow> lanes \<Rightarrow> lanes" where
  "xor_byte p b s = s[p div 8 := s ! (p div 8) XOR push_bit (8 * (p mod 8)) (ucast b)]"

definition byte_at :: "lanes \<Rightarrow> nat \<Rightarrow> u8" where
  "byte_at s p = ucast (drop_bit (8 * (p mod 8)) (s ! (p div 8)))"

definition absorb_byte :: "nat \<Rightarrow> nat \<Rightarrow> u8 \<Rightarrow> lanes \<times> nat \<Rightarrow> lanes \<times> nat" where
  "absorb_byte rate nr b so =
     (let s = xor_byte (snd so) b (fst so)
      in if snd so + 1 = rate then (permute nr s, 0) else (s, snd so + 1))"

definition squeeze_step :: "nat \<Rightarrow> nat \<Rightarrow> lanes \<times> nat \<Rightarrow> lanes \<times> nat" where
  "squeeze_step rate nr ss = (if snd ss = 1 then (permute nr (fst ss), rate) else (fst ss, snd ss - 1))"

primrec squeeze_bytes :: "nat \<Rightarrow> nat \<Rightarrow> nat \<Rightarrow> lanes \<times> nat \<Rightarrow> (lanes \<times> nat) \<times> bytes" where
  "squeeze_bytes rate nr 0 ss = (ss, [])"
| "squeeze_bytes rate nr (Suc n) ss =
     (let r = squeeze_bytes rate nr n (squeeze_step rate nr ss)
      in (fst r, byte_at (fst ss) (rate - snd ss) # snd r))"

section \<open>Bits of words, bytes and blocks\<close>

lemma word_floor_eq:
  assumes "n < 2 ^ 63"
  shows "word_floor n = n div 8 * 8"
proof -
  have m: "- 8 = (NOT (mask 3) :: u64)"
    by (simp add: mask_eq_exp_minus_1 not_eq_complement)
  have "(of_nat n :: u64) AND - 8 = push_bit 3 (drop_bit 3 (of_nat n))"
    unfolding m by (intro bit_word_eqI) (auto simp: bit_and_iff bit_not_iff bit_mask_iff bit_push_bit_iff bit_drop_bit_eq)
  moreover have "unat (push_bit 3 (drop_bit 3 (of_nat n :: u64))) = push_bit 3 (drop_bit 3 n)"
    using assms by (simp add: unsigned_push_bit_eq unsigned_drop_bit_eq unsigned_of_nat take_bit_nat_eq_self take_bit_push_bit take_bit_drop_bit)
  ultimately show ?thesis
    by (simp add: word_floor_def push_bit_eq_mult drop_bit_eq_div)
qed

lemma le_bytes_bits: "\<forall>x<64. bit (le_bytes_to_u64 b) x = bit (b ! (x div 8)) (x mod 8)"
  by (simp add: below_cases le_bytes_to_u64_def bit_simps byte_bit_beyond)

lemma u64_to_le_bytes_nth: "\<forall>k<8. u64_to_le_bytes w ! k = ucast (drop_bit (8 * k) w)"
  by (simp add: below_cases u64_to_le_bytes_def)

lemma length_u64_to_le_bytes [simp]: "length (u64_to_le_bytes w) = 8"
  by (simp add: u64_to_le_bytes_def)

lemma shifted_byte_bit:
  "x < 64 \<Longrightarrow> m < 8 \<Longrightarrow> bit (push_bit (8 * m) (ucast (b :: u8) :: u64)) x \<longleftrightarrow> x div 8 = m \<and> bit b (x mod 8)"
proof -
  assume x: "x < 64" and m: "m < 8"
  have "x div 8 = m \<longleftrightarrow> 8 * m \<le> x \<and> x < 8 * m + 8"
    by auto
  moreover have "x mod 8 = x - 8 * m" if "x div 8 = m"
    using that by (simp add: minus_div_mult_eq_mod [symmetric] mult.commute)
  ultimately show ?thesis
    using x by (auto simp: bit_simps byte_bit_beyond)
qed

lemma xor_byte_bit:
  assumes "w < length s" "x < 64"
  shows "bit (xor_byte p b s ! w) x \<longleftrightarrow> bit (s ! w) x \<noteq> (8 * w + x div 8 = p \<and> bit b (x mod 8))"
proof -
  have "x div 8 < 8"
    using assms(2) by simp
  then have "8 * w + x div 8 = p \<longleftrightarrow> w = p div 8 \<and> x div 8 = p mod 8"
    by auto
  then show ?thesis
    using assms by (cases "w = p div 8") (simp_all add: xor_byte_def bit_xor_iff shifted_byte_bit)
qed

primrec xor_bytes :: "nat \<Rightarrow> bytes \<Rightarrow> lanes \<Rightarrow> lanes" where
  "xor_bytes p [] s = s"
| "xor_bytes p (b # bs) s = xor_bytes (Suc p) bs (xor_byte p b s)"

lemma length_xor_byte [simp]: "length (xor_byte p b s) = length s"
  by (simp add: xor_byte_def)

lemma length_xor_bytes [simp]: "length (xor_bytes p bs s) = length s"
  by (induction bs arbitrary: p s) simp_all

lemma xor_bytes_bit:
  assumes "w < length s" "x < 64"
  defines "q \<equiv> 8 * w + x div 8"
  shows "bit (xor_bytes p bs s ! w) x \<longleftrightarrow> bit (s ! w) x \<noteq> (p \<le> q \<and> q < p + length bs \<and> bit (bs ! (q - p)) (x mod 8))"
  using assms(1)
proof (induction bs arbitrary: p s)
  case (Cons b bs)
  have "bit (xor_bytes p (b # bs) s ! w) x
      \<longleftrightarrow> (bit (s ! w) x \<noteq> (q = p \<and> bit b (x mod 8))) \<noteq> (Suc p \<le> q \<and> q < Suc p + length bs \<and> bit (bs ! (q - Suc p)) (x mod 8))"
    using Cons assms(2) by (simp add: xor_byte_bit q_def)
  also have "\<dots> \<longleftrightarrow> bit (s ! w) x \<noteq> (p \<le> q \<and> q < p + length (b # bs) \<and> bit ((b # bs) ! (q - p)) (x mod 8))"
  proof (cases "q \<le> p")
    case False
    then have "q - p = Suc (q - Suc p)"
      by simp
    with False show ?thesis
      by (auto simp: Suc_le_eq)
  qed (cases "q = p", auto)
  finally show ?case .
qed simp

lemma fold_lanes_nth:
  assumes "n \<le> length s" "w < length s"
  shows "fold (\<lambda>i s. s[i div 8 := s ! (i div 8) XOR f i]) (map (\<lambda>b. b * 8) [a..<n]) s ! w
    = (if a \<le> w \<and> w < n then s ! w XOR f (w * 8) else s ! w)"
proof (cases "a \<le> n")
  case True
  then show ?thesis
    using assms(1)
  proof (induction n rule: dec_induct)
    case (step n)
    have "length (fold (\<lambda>i s. s[i div 8 := s ! (i div 8) XOR f i]) xs s) = length s" for xs
      by (induction xs arbitrary: s) simp_all
    with step assms(2) show ?case
      by (auto simp: nth_list_update less_Suc_eq)
  qed auto
qed auto

section \<open>The contract of a sponge\<close>

text \<open>
  The parameters of an instance: the rate in bytes, a multiple of the word length within the state, and the number of
  rounds.  Under these every pass of the two loops is a run of single bytes.
\<close>

locale sponge_instance =
  fixes rate nr :: nat
  assumes rate_pos: "0 < rate" and rate_words: "rate mod 8 = 0" and rate_state: "rate < 200"
begin

lemma floor_small: "n \<le> rate + 7 \<Longrightarrow> word_floor n = n div 8 * 8"
  using rate_state by (intro word_floor_eq) simp

lemma word_round_up:
  assumes "n \<le> rate"
  shows "n \<le> word_floor (n + 7)" "word_floor (n + 7) \<le> rate"
proof -
  have f: "word_floor (n + 7) = (n + 7) div 8 * 8"
    using assms by (intro floor_small) simp
  show "n \<le> word_floor (n + 7)"
    unfolding f using div_mult_mod_eq [of "n + 7" 8] mod_less_divisor [of 8 "n + 7"] by linarith
  obtain r where "rate = r * 8"
    using rate_words by (metis mod_0_imp_dvd dvd_div_mult_self)
  moreover have "(n + 7) div 8 \<le> r"
    using assms \<open>rate = r * 8\<close> by (intro less_Suc_eq_le [THEN iffD1] less_mult_imp_div_less) simp
  ultimately show "word_floor (n + 7) \<le> rate"
    unfolding f by simp
qed

lemma absorb_pass_block:
  assumes "length block = rate" "n \<le> length msg" "offset + n \<le> rate"
  shows "length (fst (absorb_pass n block s offset msg)) = rate"
    and "word_floor offset \<le> p \<Longrightarrow> p < word_floor (offset + n + 7) \<Longrightarrow>
      fst (absorb_pass n block s offset msg) ! p = (if offset \<le> p \<and> p < offset + n then msg ! (p - offset) else 0)"
proof -
  let ?b = "word_floor offset" and ?e = "word_floor (offset + n + 7)"
  have b: "?b \<le> offset"
    using floor_small [of offset] assms(3) by (simp add: div_times_less_eq_dividend)
  note e = word_round_up [OF assms(3)]
  have l: "length (overwrite ?b (replicate (?e - ?b) (0 :: u8)) block) = rate"
    using assms(1) b e by simp
  then show "length (fst (absorb_pass n block s offset msg)) = rate"
    using assms by (simp add: absorb_pass_def Let_def)
  assume p: "?b \<le> p" "p < ?e"
  have "overwrite ?b (replicate (?e - ?b) (0 :: u8)) block ! p = 0"
    using p assms(1) b e by (subst overwrite_nth) simp_all
  then show "fst (absorb_pass n block s offset msg) ! p = (if offset \<le> p \<and> p < offset + n then msg ! (p - offset) else 0)"
    using assms p e l by (auto simp: absorb_pass_def Let_def overwrite_nth)
qed

lemma absorb_pass_state:
  assumes "length block = rate" "n \<le> length msg" "offset + n \<le> rate" "length s = 25"
  shows "snd (absorb_pass n block s offset msg) = xor_bytes offset (take n msg) s"
proof (rule nth_equalityI)
  let ?B = "fst (absorb_pass n block s offset msg)" and ?b = "offset div 8" and ?e = "(offset + n + 7) div 8"
  have fl: "word_floor offset = ?b * 8" "word_floor (offset + n + 7) = ?e * 8"
    using assms(3) by (simp_all add: floor_small)
  have e: "?e * 8 \<le> rate" "offset + n \<le> ?e * 8"
    using word_round_up [OF assms(3)] by (simp_all add: fl)
  then have e25: "?e \<le> length s"
    using rate_state assms(4) by simp
  have S: "snd (absorb_pass n block s offset msg) =
      fold (\<lambda>i s. s[i div 8 := s ! (i div 8) XOR le_bytes_to_u64 (take 8 (drop i ?B))]) (map (\<lambda>b. b * 8) [?b..<?e]) s"
    by (simp add: absorb_pass_def Let_def absorb_block_def fl steps_eq)
  have len: "length (fold (\<lambda>i s. s[i div 8 := s ! (i div 8) XOR f i]) xs s) = length s" for f xs s
    by (induction xs arbitrary: s) simp_all
  show "length (snd (absorb_pass n block s offset msg)) = length (xor_bytes offset (take n msg) s)"
    by (simp add: S len)
  fix w
  assume "w < length (snd (absorb_pass n block s offset msg))"
  then have w: "w < length s"
    by (simp add: S len)
  show "snd (absorb_pass n block s offset msg) ! w = xor_bytes offset (take n msg) s ! w"
  proof (rule bit_word_eqI)
    fix x
    assume "x < LENGTH(64)"
    then have x: "x < 64"
      by simp
    define q where "q = 8 * w + x div 8"
    have q: "8 * w \<le> q" "q < 8 * w + 8"
      using x by (simp_all add: q_def)
    have byte: "bit (le_bytes_to_u64 (take 8 (drop (w * 8) ?B))) x \<longleftrightarrow> offset \<le> q \<and> q < offset + n \<and> bit (msg ! (q - offset)) (x mod 8)"
      if "?b \<le> w" "w < ?e"
    proof -
      have "word_floor offset \<le> q" "q < word_floor (offset + n + 7)"
        using that q unfolding fl by linarith+
      from absorb_pass_block(2) [OF assms(1-3) this] absorb_pass_block(1) [OF assms(1-3)] show ?thesis
        using x le_bytes_bits that e(1) by (auto simp: q_def mult.commute)
    qed
    have "bit (snd (absorb_pass n block s offset msg) ! w) x \<longleftrightarrow>
        bit (s ! w) x \<noteq> (?b \<le> w \<and> w < ?e \<and> offset \<le> q \<and> q < offset + n \<and> bit (msg ! (q - offset)) (x mod 8))"
      unfolding S fold_lanes_nth [OF e25 w] using byte by (auto simp: bit_xor_iff)
    moreover have "?b \<le> w \<and> w < ?e" if "offset \<le> q" "q < offset + n"
      using that q e by auto
    ultimately show "bit (snd (absorb_pass n block s offset msg) ! w) x = bit (xor_bytes offset (take n msg) s ! w) x"
      unfolding xor_bytes_bit [OF w x] q_def [symmetric] using assms(2) by auto
  qed
qed

lemma absorb_run:
  assumes "offset + length bs \<le> rate" "bs \<noteq> []"
  shows "fold (absorb_byte rate nr) bs (s, offset) =
    (if offset + length bs = rate then (permute nr (xor_bytes offset bs s), 0) else (xor_bytes offset bs s, offset + length bs))"
  using assms
proof (induction bs arbitrary: s offset)
  case (Cons b bs)
  show ?case
  proof (cases "bs = []")
    case True
    then show ?thesis
      by (simp add: absorb_byte_def Let_def)
  next
    case False
    moreover from this have "absorb_byte rate nr b (s, offset) = (xor_byte offset b s, Suc offset)"
      using Cons.prems by (cases bs) (simp_all add: absorb_byte_def Let_def)
    ultimately show ?thesis
      using Cons by simp
  qed
qed simp

lemma absorb_loop_bytes:
  assumes "length block = rate" "offset < rate" "length s = 25"
  shows "absorb_loop rate nr block s offset msg = fold (absorb_byte rate nr) msg (s, offset)"
  using assms
proof (induction msg arbitrary: block s offset rule: length_induct)
  case (1 msg)
  show ?case
  proof (cases "msg = []")
    case True
    then show ?thesis
      by (subst absorb_loop.simps) simp
  next
    case False
    define n where "n = min (length msg) (rate - offset)"
    define p where "p = absorb_pass n block s offset msg"
    define so where "so = (if offset + n = rate then (permute nr (snd p), 0) else (snd p, offset + n))"
    have n: "n \<le> length msg" "offset + n \<le> rate" "0 < n"
      using False 1(3) by (auto simp: n_def min_def)
    have p: "length (fst p) = rate" "snd p = xor_bytes offset (take n msg) s"
      unfolding p_def using absorb_pass_block(1) [OF 1(2) n(1,2)] absorb_pass_state [OF 1(2) n(1,2) 1(4)] by simp_all
    have so: "snd so < rate" "length (fst so) = 25"
      using n rate_pos 1(4) by (auto simp: so_def p)
    have "absorb_loop rate nr block s offset msg = absorb_loop rate nr (fst p) (fst so) (snd so) (drop n msg)"
      using False 1(3) by (subst absorb_loop.simps) (simp add: Let_def so_def p_def n_def)
    also have "\<dots> = fold (absorb_byte rate nr) (drop n msg) (fst so, snd so)"
      using n p so 1(1) by simp
    also have "(fst so, snd so) = fold (absorb_byte rate nr) (take n msg) (s, offset)"
      using n absorb_run [of offset "take n msg" s] False by (auto simp: so_def p)
    also have "fold (absorb_byte rate nr) (drop n msg) (fold (absorb_byte rate nr) (take n msg) (s, offset)) = fold (absorb_byte rate nr) msg (s, offset)"
      by (metis append_take_drop_id comp_apply fold_append)
    finally show ?thesis .
  qed
qed

subsection \<open>Squeezing\<close>

lemma squeeze_block_nth:
  assumes "length blk = rate" "e * 8 \<le> rate" "length s = 25"
  shows "length (squeeze_block (b * 8) (e * 8) s blk) = rate"
    and "b * 8 \<le> p \<Longrightarrow> p < e * 8 \<Longrightarrow> squeeze_block (b * 8) (e * 8) s blk ! p = byte_at s p"
proof -
  have f: "squeeze_block (b * 8) (e * 8) s blk = fold (\<lambda>i blk. overwrite i (u64_to_le_bytes (s ! (i div 8))) blk) (map (\<lambda>b. b * 8) [b..<e]) blk"
    by (simp add: squeeze_block_def steps_eq)
  let ?g = "\<lambda>n. fold (\<lambda>i blk. overwrite i (u64_to_le_bytes (s ! (i div 8))) blk) (map (\<lambda>b. b * 8) [b..<n]) blk"
  have "length (?g n) = rate \<and> (\<forall>p. b * 8 \<le> p \<and> p < n * 8 \<longrightarrow> ?g n ! p = byte_at s p)" if "n \<le> e" for n
    using that
  proof (induction n)
    case (Suc n)
    show ?case
    proof (cases "b \<le> n")
      case True
      have l: "length (?g n) = rate" "n * 8 + 8 \<le> rate"
        using Suc assms(2) by auto
      have g: "?g (Suc n) = overwrite (n * 8) (u64_to_le_bytes (s ! n)) (?g n)"
        using True by simp
      have "?g (Suc n) ! p = byte_at s p" if p: "b * 8 \<le> p" "p < Suc n * 8" for p
      proof (cases "p < n * 8")
        case True
        then have "?g n ! p = byte_at s p"
          using Suc p by simp
        moreover have "?g (Suc n) ! p = ?g n ! p"
          unfolding g using True l by (subst overwrite_nth) simp_all
        ultimately show ?thesis
          by simp
      next
        case False
        then have d: "p div 8 = n" and lt: "p - n * 8 < 8"
          using p by auto
        have m: "p mod 8 = p - n * 8"
          using minus_div_mult_eq_mod [of p 8] unfolding d by simp
        note k = d m lt
        have "?g (Suc n) ! p = u64_to_le_bytes (s ! n) ! (p - n * 8)"
          unfolding g using False l p by (subst overwrite_nth) simp_all
        also have "\<dots> = ucast (drop_bit (8 * (p - n * 8)) (s ! n))"
          using u64_to_le_bytes_nth k(3) by blast
        finally show ?thesis
          by (simp only: byte_at_def k)
      qed
      with g l show ?thesis
        by simp
    qed (use Suc in auto)
  qed (use assms(1) in simp)
  from this [of e] show "length (squeeze_block (b * 8) (e * 8) s blk) = rate"
    "b * 8 \<le> p \<Longrightarrow> p < e * 8 \<Longrightarrow> squeeze_block (b * 8) (e * 8) s blk ! p = byte_at s p"
    unfolding f by simp_all
qed

lemma squeeze_run:
  assumes "n \<le> sq" "0 < n" "sq \<le> rate"
  shows "squeeze_bytes rate nr n (s, sq) =
    ((if n = sq then (permute nr s, rate) else (s, sq - n)), map (\<lambda>i. byte_at s (rate - sq + i)) [0..<n])"
  using assms
proof (induction n arbitrary: sq)
  case (Suc n)
  have u: "map f [0..<Suc n] = f 0 # map (\<lambda>i. f (Suc i)) [0..<n]" for f :: "nat \<Rightarrow> u8"
    by (simp add: upt_conv_Cons map_Suc_upt [symmetric] comp_def del: upt_Suc)
  show ?case
  proof (cases "n = 0")
    case True
    then show ?thesis
      using Suc.prems by (auto simp: squeeze_step_def Let_def)
  next
    case False
    have "squeeze_step rate nr (s, sq) = (s, sq - 1)"
      using Suc.prems False by (simp add: squeeze_step_def)
    moreover have "squeeze_bytes rate nr n (s, sq - 1) = ((if n = sq - 1 then (permute nr s, rate) else (s, sq - 1 - n)), map (\<lambda>i. byte_at s (rate - (sq - 1) + i)) [0..<n])"
      using Suc.prems False by (intro Suc.IH) simp_all
    moreover have "rate - (sq - 1) + i = rate - sq + Suc i" for i
      using Suc.prems by simp
    ultimately show ?thesis
      using Suc.prems by (auto simp: Let_def u simp del: upt_Suc)
  qed
qed simp

lemma squeeze_bytes_add:
  "squeeze_bytes rate nr (m + n) ss =
    (let a = squeeze_bytes rate nr m ss; b = squeeze_bytes rate nr n (fst a) in (fst b, snd a @ snd b))"
  by (induction m arbitrary: ss) (simp_all add: Let_def)

lemma length_squeeze_bytes [simp]: "length (snd (squeeze_bytes rate nr n ss)) = n"
  by (induction n arbitrary: ss) (simp_all add: Let_def)

lemma squeeze_loop_bytes:
  assumes "length blk = rate" "0 < sq" "sq \<le> rate" "length s = 25"
  shows "squeeze_loop rate nr blk s sq n = squeeze_bytes rate nr n (s, sq)"
  using assms
proof (induction n arbitrary: blk s sq rule: less_induct)
  case (less n)
  show ?case
  proof (cases "n = 0")
    case True
    then show ?thesis
      by (subst squeeze_loop.simps) simp
  next
    case False
    define m where "m = min n sq"
    define off where "off = rate - sq"
    have m: "0 < m" "m \<le> sq" "m \<le> n" "off + m \<le> rate"
      using less.prems False by (auto simp: m_def off_def)
    define b e where "b = off div 8" and "e = (off + m + 7) div 8"
    have fl: "word_floor off = b * 8" "word_floor (off + m + 7) = e * 8"
      using m(4) by (simp_all add: floor_small b_def e_def)
    have be: "b * 8 \<le> off" "off + m \<le> e * 8" "e * 8 \<le> rate"
      using word_round_up [OF m(4)] by (simp_all add: fl b_def)
    define blk1 where "blk1 = squeeze_block (b * 8) (e * 8) s blk"
    note blk = squeeze_block_nth [OF less.prems(1) be(3) less.prems(4), where b = b, folded blk1_def]
    have out: "take m (drop off blk1) = map (\<lambda>i. byte_at s (off + i)) [0..<m]"
    proof (rule nth_equalityI)
      show "length (take m (drop off blk1)) = length (map (\<lambda>i. byte_at s (off + i)) [0..<m])"
        using m blk(1) by simp
      fix i
      assume "i < length (take m (drop off blk1))"
      then show "take m (drop off blk1) ! i = map (\<lambda>i. byte_at s (off + i)) [0..<m] ! i"
        using blk(2) [of "off + i"] be m blk(1) by simp
    qed
    let ?st = "if sq - m = 0 then (permute nr s, rate) else (s, sq - m)"
    let ?r = "squeeze_loop rate nr blk1 (fst ?st) (snd ?st) (n - m)"
    have "squeeze_loop rate nr blk s sq n = (fst ?r, take m (drop off blk1) @ snd ?r)"
      using False rate_pos unfolding blk1_def fl [symmetric]
      by (subst squeeze_loop.simps) (simp only: Let_def m_def off_def fst_conv snd_conv if_distrib [of fst] if_distrib [of snd] simp_thms if_False, simp)
    moreover have "?r = squeeze_bytes rate nr (n - m) ?st"
    proof -
      have "n - m < n" "0 < snd ?st" "snd ?st \<le> rate" "length (fst ?st) = 25"
        using m False less.prems rate_pos by (auto split: if_splits)
      from less.IH [OF this(1) blk(1) this(2-4)] show ?thesis
        by simp
    qed
    moreover have "squeeze_bytes rate nr n (s, sq) =
        (let a = squeeze_bytes rate nr m (s, sq); c = squeeze_bytes rate nr (n - m) (fst a) in (fst c, snd a @ snd c))"
      using squeeze_bytes_add [of m "n - m"] m(3) by simp
    moreover have "squeeze_bytes rate nr m (s, sq) = (?st, map (\<lambda>i. byte_at s (off + i)) [0..<m])"
      using squeeze_run [OF m(2,1) less.prems(3), of s] m(2) by (auto simp: off_def)
    ultimately show ?thesis
      by (simp add: out Let_def)
  qed
qed

lemma wf_absorb_byte:
  "snd so < rate \<Longrightarrow> length (fst so) = 25 \<Longrightarrow> snd (absorb_byte rate nr b so) < rate \<and> length (fst (absorb_byte rate nr b so)) = 25"
  using rate_pos by (auto simp: absorb_byte_def Let_def)

lemma wf_absorb_bytes:
  "snd so < rate \<Longrightarrow> length (fst so) = 25 \<Longrightarrow>
   snd (fold (absorb_byte rate nr) msg so) < rate \<and> length (fst (fold (absorb_byte rate nr) msg so)) = 25"
  by (induction msg arbitrary: so) (simp_all add: wf_absorb_byte)

lemma wf_squeeze_bytes:
  "0 < snd ss \<Longrightarrow> snd ss \<le> rate \<Longrightarrow> length (fst ss) = 25 \<Longrightarrow>
   0 < snd (fst (squeeze_bytes rate nr n ss)) \<and> snd (fst (squeeze_bytes rate nr n ss)) \<le> rate \<and>
   length (fst (fst (squeeze_bytes rate nr n ss))) = 25"
  using rate_pos by (induction n arbitrary: ss) (auto simp: Let_def squeeze_step_def)

text \<open>Absorbing and squeezing with any cut of the bytes into calls.\<close>

lemma absorb_bytes:
  assumes "snd so < rate" "length (fst so) = 25"
  shows "absorb (8 * rate) nr so msg = fold (absorb_byte rate nr) msg so"
  using assms absorb_loop_bytes [of "replicate rate 0" "snd so" "fst so" msg] by (simp add: absorb_def)

lemma squeeze_bytes_eq:
  assumes "0 < snd ss" "snd ss \<le> rate" "length (fst ss) = 25"
  shows "squeeze (8 * rate) nr ss n = squeeze_bytes rate nr n ss"
  using assms squeeze_loop_bytes [of "replicate rate 0" "snd ss" "fst ss" n] by (simp add: squeeze_def)

lemma absorb_append:
  assumes "snd so < rate" "length (fst so) = 25"
  shows "absorb (8 * rate) nr (absorb (8 * rate) nr so a) b = absorb (8 * rate) nr so (a @ b)"
  using assms wf_absorb_bytes [OF assms, of a] by (simp add: absorb_bytes)

lemma squeeze_append:
  assumes "0 < snd ss" "snd ss \<le> rate" "length (fst ss) = 25"
  shows "squeeze (8 * rate) nr ss (m + n) =
    (let a = squeeze (8 * rate) nr ss m; b = squeeze (8 * rate) nr (fst a) n in (fst b, snd a @ snd b))"
  using assms wf_squeeze_bytes [OF assms, of m] by (simp add: squeeze_bytes_eq squeeze_bytes_add Let_def)

end

interpretation sp168: sponge_instance 168 24
  by unfold_locales simp_all

interpretation sp136: sponge_instance 136 24
  by unfold_locales simp_all

interpretation sp72: sponge_instance 72 24
  by unfold_locales simp_all

interpretation sp136t: sponge_instance 136 12
  by unfold_locales simp_all

end
