(* ===== verification/Kem_Hash.thy ===== *)
theory Kem_Hash
  imports Kem_Sponge
begin

text \<open>
  The hash objects of \<open>tools/ml_kem_512_single.hpp\<close>: the extendable-output functions \<open>shake128_t\<close>, \<open>shake256_t\<close> and
  \<open>turboshake256_t\<close>, and the digests \<open>sha3_256_t\<close> and \<open>sha3_512_t\<close>.  Objects of the first kind share one set of
  operations that differ in the rate, the number of rounds and the domain separator; so do those of the second.  A
  buffer that an operation may fill is passed in and returned.
\<close>

section \<open>Extendable-output functions\<close>

record xof_t =
  x_state :: lanes
  x_offset :: nat
  x_finalized :: bool
  x_squeezable :: nat

definition xof_init :: xof_t where
  "xof_init = \<lparr>x_state = replicate 25 0, x_offset = 0, x_finalized = False, x_squeezable = 0\<rparr>"

definition xof_absorb :: "nat \<Rightarrow> nat \<Rightarrow> bytes \<Rightarrow> xof_t \<Rightarrow> xof_t" where
  "xof_absorb RATE num_rounds msg h =
     (if \<not> x_finalized h
      then let so = absorb RATE num_rounds (x_state h, x_offset h) msg
           in h\<lparr>x_state := fst so, x_offset := snd so\<rparr>
      else h)"

definition xof_finalize :: "u8 \<Rightarrow> nat \<Rightarrow> nat \<Rightarrow> nat \<Rightarrow> xof_t \<Rightarrow> xof_t" where
  "xof_finalize DOM_SEP DOM_SEP_BW RATE num_rounds h =
     (if \<not> x_finalized h
      then let so = finalize DOM_SEP DOM_SEP_BW RATE num_rounds (x_state h, x_offset h)
           in h\<lparr>x_state := fst so, x_offset := snd so, x_finalized := True, x_squeezable := RATE div 8\<rparr>
      else h)"

definition xof_squeeze :: "nat \<Rightarrow> nat \<Rightarrow> bytes \<Rightarrow> xof_t \<Rightarrow> xof_t \<times> bytes" where
  "xof_squeeze RATE num_rounds dig h =
     (if x_finalized h
      then let r = squeeze RATE num_rounds (x_state h, x_squeezable h) (length dig)
           in (h\<lparr>x_state := fst (fst r), x_squeezable := snd (fst r)\<rparr>, snd r)
      else (h, dig))"

definition xof_reset :: "xof_t \<Rightarrow> xof_t" where
  "xof_reset h = h\<lparr>x_state := replicate (length (x_state h)) 0, x_offset := 0, x_finalized := False, x_squeezable := 0\<rparr>"

text \<open>\<open>memset\<close> of the first \<open>n\<close> bytes of the lanes, in little-endian order.\<close>

definition zeroize :: "nat \<Rightarrow> lanes \<Rightarrow> lanes" where
  "zeroize n s =
     map (\<lambda>w. let k = min (n - 8 * w) 8 in push_bit (8 * k) (drop_bit (8 * k) (s ! w))) [0..<length s]"

definition xof_ratchet :: "nat \<Rightarrow> nat \<Rightarrow> xof_t \<Rightarrow> xof_t" where
  "xof_ratchet num_rounds byte_len h =
     (if x_finalized h
      then let ratchetable_portion_byte_len = min byte_len 200
           in h\<lparr>x_state := permute num_rounds (zeroize ratchetable_portion_byte_len (x_state h))\<rparr>
      else h)"

subsection \<open>SHAKE128\<close>

definition shake128_RATE :: nat where
  "shake128_RATE = 1600 - 2 * 128"

definition shake128_DOM_SEP :: u8 where
  "shake128_DOM_SEP = 0b00001111"

definition shake128_absorb :: "bytes \<Rightarrow> xof_t \<Rightarrow> xof_t" where
  "shake128_absorb = xof_absorb shake128_RATE MAX_NUM_ROUNDS"

definition shake128_finalize :: "xof_t \<Rightarrow> xof_t" where
  "shake128_finalize = xof_finalize shake128_DOM_SEP (bit_width (unat shake128_DOM_SEP)) shake128_RATE MAX_NUM_ROUNDS"

definition shake128_squeeze :: "bytes \<Rightarrow> xof_t \<Rightarrow> xof_t \<times> bytes" where
  "shake128_squeeze = xof_squeeze shake128_RATE MAX_NUM_ROUNDS"

definition shake128_reset :: "xof_t \<Rightarrow> xof_t" where
  "shake128_reset = xof_reset"

definition shake128_ratchet :: "nat \<Rightarrow> xof_t \<Rightarrow> xof_t" where
  "shake128_ratchet = xof_ratchet MAX_NUM_ROUNDS"

subsection \<open>SHAKE256\<close>

definition shake256_RATE :: nat where
  "shake256_RATE = 1600 - 2 * 256"

definition shake256_DOM_SEP :: u8 where
  "shake256_DOM_SEP = 0b00001111"

definition shake256_absorb :: "bytes \<Rightarrow> xof_t \<Rightarrow> xof_t" where
  "shake256_absorb = xof_absorb shake256_RATE MAX_NUM_ROUNDS"

definition shake256_finalize :: "xof_t \<Rightarrow> xof_t" where
  "shake256_finalize = xof_finalize shake256_DOM_SEP (bit_width (unat shake256_DOM_SEP)) shake256_RATE MAX_NUM_ROUNDS"

definition shake256_squeeze :: "bytes \<Rightarrow> xof_t \<Rightarrow> xof_t \<times> bytes" where
  "shake256_squeeze = xof_squeeze shake256_RATE MAX_NUM_ROUNDS"

definition shake256_reset :: "xof_t \<Rightarrow> xof_t" where
  "shake256_reset = xof_reset"

definition shake256_ratchet :: "nat \<Rightarrow> xof_t \<Rightarrow> xof_t" where
  "shake256_ratchet = xof_ratchet MAX_NUM_ROUNDS"

subsection \<open>TurboSHAKE256\<close>

definition turboshake256_ROUNDS :: nat where
  "turboshake256_ROUNDS = MAX_NUM_ROUNDS div 2"

definition turboshake256_RATE :: nat where
  "turboshake256_RATE = 1600 - 2 * 256"

definition turboshake256_absorb :: "bytes \<Rightarrow> xof_t \<Rightarrow> xof_t" where
  "turboshake256_absorb = xof_absorb turboshake256_RATE turboshake256_ROUNDS"

definition turboshake256_finalize :: "u8 \<Rightarrow> xof_t \<Rightarrow> xof_t" where
  "turboshake256_finalize dom_sep = xof_finalize dom_sep (bit_width (unat dom_sep) - 1) turboshake256_RATE turboshake256_ROUNDS"

definition turboshake256_squeeze :: "bytes \<Rightarrow> xof_t \<Rightarrow> xof_t \<times> bytes" where
  "turboshake256_squeeze = xof_squeeze turboshake256_RATE turboshake256_ROUNDS"

definition turboshake256_reset :: "xof_t \<Rightarrow> xof_t" where
  "turboshake256_reset = xof_reset"

definition turboshake256_ratchet :: "nat \<Rightarrow> xof_t \<Rightarrow> xof_t" where
  "turboshake256_ratchet = xof_ratchet turboshake256_ROUNDS"

section \<open>Digests\<close>

record sha3_t =
  h_state :: lanes
  h_offset :: nat
  h_finalized :: bool
  h_squeezed :: bool

definition sha3_init :: sha3_t where
  "sha3_init = \<lparr>h_state = replicate 25 0, h_offset = 0, h_finalized = False, h_squeezed = False\<rparr>"

definition sha3_absorb :: "nat \<Rightarrow> bytes \<Rightarrow> sha3_t \<Rightarrow> sha3_t" where
  "sha3_absorb RATE msg h =
     (if \<not> h_finalized h
      then let so = absorb RATE MAX_NUM_ROUNDS (h_state h, h_offset h) msg
           in h\<lparr>h_state := fst so, h_offset := snd so\<rparr>
      else h)"

definition sha3_finalize :: "u8 \<Rightarrow> nat \<Rightarrow> sha3_t \<Rightarrow> sha3_t" where
  "sha3_finalize DOM_SEP RATE h =
     (if \<not> h_finalized h
      then let so = finalize DOM_SEP (bit_width (unat DOM_SEP)) RATE MAX_NUM_ROUNDS (h_state h, h_offset h)
           in h\<lparr>h_state := fst so, h_offset := snd so, h_finalized := True\<rparr>
      else h)"

definition sha3_digest :: "nat \<Rightarrow> bytes \<Rightarrow> sha3_t \<Rightarrow> sha3_t \<times> bytes" where
  "sha3_digest RATE md h =
     (if h_finalized h \<and> \<not> h_squeezed h
      then let squeezable = RATE div 8;
               r = squeeze RATE MAX_NUM_ROUNDS (h_state h, squeezable) (length md)
           in (h\<lparr>h_state := fst (fst r), h_squeezed := True\<rparr>, snd r)
      else (h, md))"

definition sha3_reset :: "sha3_t \<Rightarrow> sha3_t" where
  "sha3_reset h = h\<lparr>h_state := replicate (length (h_state h)) 0, h_offset := 0, h_finalized := False, h_squeezed := False\<rparr>"

definition sha3_DOM_SEP :: u8 where
  "sha3_DOM_SEP = 0b00000010"

subsection \<open>SHA3-256\<close>

definition sha3_256_RATE :: nat where
  "sha3_256_RATE = 1600 - 2 * 256"

definition sha3_256_absorb :: "bytes \<Rightarrow> sha3_t \<Rightarrow> sha3_t" where
  "sha3_256_absorb = sha3_absorb sha3_256_RATE"

definition sha3_256_finalize :: "sha3_t \<Rightarrow> sha3_t" where
  "sha3_256_finalize = sha3_finalize sha3_DOM_SEP sha3_256_RATE"

definition sha3_256_digest :: "bytes \<Rightarrow> sha3_t \<Rightarrow> sha3_t \<times> bytes" where
  "sha3_256_digest = sha3_digest sha3_256_RATE"

definition sha3_256_reset :: "sha3_t \<Rightarrow> sha3_t" where
  "sha3_256_reset = sha3_reset"

definition sha3_256_hash :: "bytes \<Rightarrow> bytes" where
  "sha3_256_hash msg = snd (sha3_256_digest (replicate 32 0) (sha3_256_finalize (sha3_256_absorb msg sha3_init)))"

subsection \<open>SHA3-512\<close>

definition sha3_512_RATE :: nat where
  "sha3_512_RATE = 1600 - 2 * 512"

definition sha3_512_absorb :: "bytes \<Rightarrow> sha3_t \<Rightarrow> sha3_t" where
  "sha3_512_absorb = sha3_absorb sha3_512_RATE"

definition sha3_512_finalize :: "sha3_t \<Rightarrow> sha3_t" where
  "sha3_512_finalize = sha3_finalize sha3_DOM_SEP sha3_512_RATE"

definition sha3_512_digest :: "bytes \<Rightarrow> sha3_t \<Rightarrow> sha3_t \<times> bytes" where
  "sha3_512_digest = sha3_digest sha3_512_RATE"

definition sha3_512_reset :: "sha3_t \<Rightarrow> sha3_t" where
  "sha3_512_reset = sha3_reset"

definition sha3_512_hash :: "bytes \<Rightarrow> bytes" where
  "sha3_512_hash msg = snd (sha3_512_digest (replicate 64 0) (sha3_512_finalize (sha3_512_absorb msg sha3_init)))"

section \<open>Life cycle of an object\<close>

definition xof_ready :: "nat \<Rightarrow> xof_t \<Rightarrow> bool" where
  "xof_ready rate h \<longleftrightarrow> length (x_state h) = 25 \<and> x_offset h < rate \<and>
     (x_finalized h \<longrightarrow> 0 < x_squeezable h \<and> x_squeezable h \<le> rate)"

lemma length_finalize: "length (fst (finalize d w r n so)) = length (fst so)" "snd (finalize d w r n so) = 0"
  by (simp_all add: finalize_def Let_def)

context sponge_instance
begin

lemma xof_init_ready: "xof_ready rate xof_init"
  using rate_pos by (simp add: xof_ready_def xof_init_def)

lemma xof_absorb_ready: "xof_ready rate h \<Longrightarrow> xof_ready rate (xof_absorb (8 * rate) nr msg h)"
  using wf_absorb_bytes [of "(x_state h, x_offset h)" msg]
  by (auto simp: xof_ready_def xof_absorb_def Let_def absorb_bytes)

lemma xof_finalize_ready: "xof_ready rate h \<Longrightarrow> xof_ready rate (xof_finalize d w (8 * rate) nr h)"
  using rate_pos by (auto simp: xof_ready_def xof_finalize_def Let_def length_finalize)

lemma xof_squeeze_ready: "xof_ready rate h \<Longrightarrow> xof_ready rate (fst (xof_squeeze (8 * rate) nr dig h))"
  using wf_squeeze_bytes [of "(x_state h, x_squeezable h)" "length dig"]
  by (auto simp: xof_ready_def xof_squeeze_def Let_def squeeze_bytes_eq)

lemma xof_reset_ready: "xof_ready rate h \<Longrightarrow> xof_ready rate (xof_reset h)"
  using rate_pos by (simp add: xof_ready_def xof_reset_def)

lemma xof_ratchet_ready: "xof_ready rate h \<Longrightarrow> xof_ready rate (xof_ratchet nr n h)"
  by (simp add: xof_ready_def xof_ratchet_def Let_def zeroize_def)

lemma xof_absorb_append:
  assumes "xof_ready rate h"
  shows "xof_absorb (8 * rate) nr b (xof_absorb (8 * rate) nr a h) = xof_absorb (8 * rate) nr (a @ b) h"
  using assms absorb_append [of "(x_state h, x_offset h)" a b]
  by (auto simp: xof_ready_def xof_absorb_def Let_def)

lemma xof_absorb_pieces:
  "xof_ready rate h \<Longrightarrow> fold (xof_absorb (8 * rate) nr) ps h = xof_absorb (8 * rate) nr (concat ps) h"
proof (induction ps arbitrary: h)
  case Nil
  then show ?case
    by (auto simp: xof_ready_def xof_absorb_def Let_def absorb_bytes)
next
  case (Cons p ps)
  then show ?case
    by (simp add: xof_absorb_ready xof_absorb_append)
qed

lemma xof_squeeze_append:
  assumes "xof_ready rate h" "x_finalized h"
  shows "xof_squeeze (8 * rate) nr (d1 @ d2) h =
    (let a = xof_squeeze (8 * rate) nr d1 h; b = xof_squeeze (8 * rate) nr d2 (fst a) in (fst b, snd a @ snd b))"
  using assms squeeze_append [of "(x_state h, x_squeezable h)" "length d1" "length d2"]
  by (simp add: xof_ready_def xof_squeeze_def Let_def)

lemma xof_squeeze_length: "xof_ready rate h \<Longrightarrow> length (snd (xof_squeeze (8 * rate) nr d h)) = length d"
  by (auto simp: xof_ready_def xof_squeeze_def Let_def squeeze_bytes_eq)

lemma xof_once_finalized:
  assumes "x_finalized h"
  shows "xof_absorb r n msg h = h" "xof_finalize d w r n h = h"
  using assms by (simp_all add: xof_absorb_def xof_finalize_def)

lemma sha3_absorb_append:
  assumes "nr = 24" "length (h_state h) = 25" "h_offset h < rate"
  shows "sha3_absorb (8 * rate) b (sha3_absorb (8 * rate) a h) = sha3_absorb (8 * rate) (a @ b) h"
  using assms absorb_append [of "(h_state h, h_offset h)" a b]
  by (auto simp: sha3_absorb_def Let_def MAX_NUM_ROUNDS_def)

lemma sha3_absorb_wf:
  assumes "nr = 24" "length (h_state h) = 25" "h_offset h < rate"
  shows "length (h_state (sha3_absorb (8 * rate) a h)) = 25 \<and> h_offset (sha3_absorb (8 * rate) a h) < rate"
  using assms wf_absorb_bytes [of "(h_state h, h_offset h)" a] absorb_bytes [of "(h_state h, h_offset h)" a]
  by (auto simp: sha3_absorb_def Let_def MAX_NUM_ROUNDS_def)

lemma sha3_absorb_pieces:
  "nr = 24 \<Longrightarrow> length (h_state h) = 25 \<Longrightarrow> h_offset h < rate \<Longrightarrow>
   fold (sha3_absorb (8 * rate)) ps h = sha3_absorb (8 * rate) (concat ps) h"
proof (induction ps arbitrary: h)
  case Nil
  then show ?case
    using absorb_bytes [of "(h_state h, h_offset h)" "[]"] by (auto simp: sha3_absorb_def Let_def MAX_NUM_ROUNDS_def)
next
  case (Cons p ps)
  then show ?case
    using sha3_absorb_wf [of h p] by (simp add: sha3_absorb_append)
qed

lemma sha3_digest_length:
  assumes "nr = 24" "length (h_state h) = 25"
  shows "length (snd (sha3_digest (8 * rate) md h)) = length md"
  using assms rate_pos squeeze_bytes_eq [of "(h_state h, rate)" "length md"] length_squeeze_bytes [of "length md" "(h_state h, rate)"]
  by (simp add: sha3_digest_def Let_def MAX_NUM_ROUNDS_def)

lemma sha3_output_length:
  assumes "nr = 24"
  shows "length (snd (sha3_digest (8 * rate) md (sha3_finalize d (8 * rate) (sha3_absorb (8 * rate) msg sha3_init)))) = length md"
  using assms rate_pos sha3_absorb_wf [of sha3_init msg]
  by (intro sha3_digest_length) (auto simp: sha3_finalize_def Let_def length_finalize sha3_init_def)

end

lemmas rate_vals =
  shake128_RATE_def shake256_RATE_def turboshake256_RATE_def sha3_256_RATE_def sha3_512_RATE_def
  MAX_NUM_ROUNDS_def turboshake256_ROUNDS_def

lemma sha3_256_at_rate: "sha3_256_absorb = sha3_absorb (8 * 136)" "sha3_256_finalize = sha3_finalize sha3_DOM_SEP (8 * 136)"
  "sha3_256_digest = sha3_digest (8 * 136)"
  by (simp_all add: sha3_256_absorb_def sha3_256_finalize_def sha3_256_digest_def rate_vals)

lemma sha3_512_at_rate: "sha3_512_absorb = sha3_absorb (8 * 72)" "sha3_512_finalize = sha3_finalize sha3_DOM_SEP (8 * 72)"
  "sha3_512_digest = sha3_digest (8 * 72)"
  by (simp_all add: sha3_512_absorb_def sha3_512_finalize_def sha3_512_digest_def rate_vals)

lemma shake256_at_rate: "shake256_absorb = xof_absorb (8 * 136) 24" "shake256_squeeze = xof_squeeze (8 * 136) 24"
  "shake256_finalize = xof_finalize shake256_DOM_SEP (bit_width (unat shake256_DOM_SEP)) (8 * 136) 24"
  by (simp_all add: shake256_absorb_def shake256_finalize_def shake256_squeeze_def rate_vals)

lemma digest_lengths:
  "length (snd (sha3_256_digest md (sha3_256_finalize (sha3_256_absorb msg sha3_init)))) = length md"
  "length (snd (sha3_512_digest md (sha3_512_finalize (sha3_512_absorb msg sha3_init)))) = length md"
  unfolding sha3_256_at_rate sha3_512_at_rate
  by (rule sp136.sha3_output_length [OF refl], rule sp72.sha3_output_length [OF refl])

section \<open>Properties\<close>

text \<open>
  C33: the digests do not depend on how a message is cut into calls of \<open>absorb\<close>: absorbing the pieces one after the
  other, finalizing and asking for the digest gives the one-shot hash of their concatenation, of 32 and 64 bytes.\<close>

theorem digest_in_pieces:
  "snd (sha3_256_digest (replicate 32 0) (sha3_256_finalize (fold sha3_256_absorb ps sha3_init))) = sha3_256_hash (concat ps) \<and>
   snd (sha3_512_digest (replicate 64 0) (sha3_512_finalize (fold sha3_512_absorb ps sha3_init))) = sha3_512_hash (concat ps) \<and>
   length (sha3_256_hash (concat ps)) = 32 \<and> length (sha3_512_hash (concat ps)) = 64"
  using sp136.sha3_absorb_pieces [of sha3_init ps] sp72.sha3_absorb_pieces [of sha3_init ps]
  by (simp add: sha3_256_hash_def sha3_512_hash_def digest_lengths) (simp add: sha3_256_at_rate sha3_512_at_rate sha3_init_def)

text \<open>
  Nor does the output stream of SHAKE256 depend on how the input is cut into calls of \<open>absorb\<close> or the output into
  calls of \<open>squeeze\<close>; once finalized, the object ignores further input.\<close>

lemma shake256_in_pieces:
  "(let h = shake256_finalize (fold shake256_absorb ps xof_init);
        first = shake256_squeeze a h;
        second = shake256_squeeze b (fst first)
    in h = shake256_finalize (shake256_absorb (concat ps) xof_init) \<and>
       shake256_squeeze (a @ b) h = (fst second, snd first @ snd second) \<and>
       length (snd (shake256_squeeze a h)) = length a \<and> shake256_absorb msg h = h)"
proof -
  define h where "h = shake256_finalize (fold shake256_absorb ps xof_init)"
  have h: "h = shake256_finalize (shake256_absorb (concat ps) xof_init)"
    using sp136.xof_absorb_pieces [OF sp136.xof_init_ready, of ps] by (simp add: h_def shake256_at_rate)
  have ready: "xof_ready 136 h"
    unfolding h shake256_at_rate by (intro sp136.xof_finalize_ready sp136.xof_absorb_ready sp136.xof_init_ready)
  have fin: "x_finalized h"
    unfolding h shake256_at_rate by (simp add: xof_finalize_def Let_def)
  show ?thesis
    unfolding Let_def h_def [symmetric]
    using h sp136.xof_squeeze_append [OF ready fin, of a b] sp136.xof_squeeze_length [OF ready, of a] sp136.xof_once_finalized(1) [OF fin]
    by (simp add: shake256_at_rate Let_def)
qed

end
