(* ===== verification/Kem_Sample.thy ===== *)
theory Kem_Sample
  imports Kem_Compress Kem_Hash
begin

text \<open>
  Sampling of polynomials (the third \<open>namespace ml_kem_utils\<close> block of \<open>tools/ml_kem_512_single.hpp\<close>).  Rejection
  sampling may go on forever, so \<open>sample_ntt\<close> and what calls it return an option, \<^const>\<open>None\<close> for a loop that does not
  end.  A routine that fills an array of polynomials one after the other returns their concatenation.
\<close>

section \<open>Uniform sampling\<close>

definition sample_step :: "bytes \<Rightarrow> nat \<Rightarrow> poly \<times> nat \<Rightarrow> poly \<times> nat" where
  "sample_step buf off pc =
     (let d1 = (push_bit 8 (ucast (buf ! (off + 1) AND 0x0f)) OR ucast (buf ! (off + 0)) :: u16);
          d2 = (push_bit 4 (ucast (buf ! (off + 2))) OR ucast (drop_bit 4 (buf ! (off + 1))) :: u16);
          pc1 = (if ucast d1 < Q then ((fst pc)[snd pc := zq_t d1], snd pc + 1) else pc)
      in if ucast d2 < Q \<and> snd pc1 < length (fst pc1) then ((fst pc1)[snd pc1 := zq_t d2], snd pc1 + 1) else pc1)"

function sample_scan :: "bytes \<Rightarrow> nat \<Rightarrow> poly \<times> nat \<Rightarrow> poly \<times> nat" where
  "sample_scan buf off pc =
     (if off < length buf \<and> snd pc < length (fst pc) then sample_scan buf (off + 3) (sample_step buf off pc) else pc)"
  by pat_completeness auto
termination by (relation "measure (\<lambda>(buf, off, pc). length buf - off)") auto

declare sample_scan.simps [simp del]

partial_function (option) sample_loop :: "xof_t \<Rightarrow> bytes \<Rightarrow> poly \<times> nat \<Rightarrow> (xof_t \<times> poly) option" where
  "sample_loop hasher buf pc =
     (if snd pc < length (fst pc)
      then let hb = shake128_squeeze buf hasher
           in sample_loop (fst hb) (snd hb) (sample_scan (snd hb) 0 pc)
      else Some (hasher, fst pc))"

declare sample_loop.simps [code]

definition sample_ntt :: "xof_t \<Rightarrow> poly \<Rightarrow> (xof_t \<times> poly) option" where
  "sample_ntt hasher poly = sample_loop hasher (replicate (shake128_RATE div 8) 0) (poly, 0)"

definition matrix_hasher :: "bool \<Rightarrow> bytes \<Rightarrow> nat \<Rightarrow> nat \<Rightarrow> xof_t" where
  "matrix_hasher transposed rho i j =
     (let xof_in = (if transposed then rho @ [of_nat i, of_nat j] else rho @ [of_nat j, of_nat i])
      in shake128_finalize (shake128_absorb xof_in xof_init))"

definition generate_matrix :: "nat \<Rightarrow> bool \<Rightarrow> bytes \<Rightarrow> poly option" where
  "generate_matrix k transposed rho =
     map_option concat (those (map (\<lambda>(i, j). map_option snd (sample_ntt (matrix_hasher transposed rho i j) (replicate N 0)))
       (List.product [0..<k] [0..<k])))"

section \<open>Centred binomial sampling\<close>

definition cbd_2 :: "u8 \<Rightarrow> zq_t list" where
  "cbd_2 word =
     (let mask8 = 0b01010101;
          mask2 = 0b11;
          t0 = drop_bit 0 word AND mask8;
          t1 = drop_bit 1 word AND mask8;
          t2 = t0 + t1
      in [zq_sub (zq_t (ucast (drop_bit 0 t2 AND mask2))) (zq_t (ucast (drop_bit 2 t2 AND mask2))),
          zq_sub (zq_t (ucast (drop_bit 4 t2 AND mask2))) (zq_t (ucast (drop_bit 6 t2 AND mask2)))])"

definition cbd_3 :: "u32 \<Rightarrow> zq_t list" where
  "cbd_3 word =
     (let mask24 = 0b001001001001001001001001;
          mask3 = 0b111;
          t0 = drop_bit 0 word AND mask24;
          t1 = drop_bit 1 word AND mask24;
          t2 = drop_bit 2 word AND mask24;
          t3 = t0 + t1 + t2
      in [zq_sub (zq_t (ucast (drop_bit 0 t3 AND mask3))) (zq_t (ucast (drop_bit 3 t3 AND mask3))),
          zq_sub (zq_t (ucast (drop_bit 6 t3 AND mask3))) (zq_t (ucast (drop_bit 9 t3 AND mask3))),
          zq_sub (zq_t (ucast (drop_bit 12 t3 AND mask3))) (zq_t (ucast (drop_bit 15 t3 AND mask3))),
          zq_sub (zq_t (ucast (drop_bit 18 t3 AND mask3))) (zq_t (ucast (drop_bit 21 t3 AND mask3)))])"

definition sample_poly_cbd :: "nat \<Rightarrow> bytes \<Rightarrow> poly" where
  "sample_poly_cbd eta prf =
     (if eta = 2 then concat (map (\<lambda>i. cbd_2 (prf ! i)) [0..<64 * eta])
      else concat (map (\<lambda>i. let boff = i * 3
                            in cbd_3 (push_bit 16 (ucast (prf ! (boff + 2))) OR push_bit 8 (ucast (prf ! (boff + 1))) OR
                                      ucast (prf ! (boff + 0)))) [0..<64]))"

definition generate_vector :: "nat \<Rightarrow> nat \<Rightarrow> bytes \<Rightarrow> u8 \<Rightarrow> poly" where
  "generate_vector k eta sigma nonce =
     concat (map (\<lambda>i.
       let prf_in = sigma @ [nonce + of_nat i];
           hasher = shake256_finalize (shake256_absorb prf_in xof_init);
           prf_out = snd (shake256_squeeze (replicate (64 * eta) 0) hasher)
       in sample_poly_cbd eta prf_out) [0..<k])"

section \<open>Uniform sampling takes the first candidates below Q\<close>

fun candidates :: "bytes \<Rightarrow> zq_t list" where
  "candidates (a # b # c # bs) =
     filter canon [of_nat (unat a + 256 * (unat b mod 16)), of_nat (unat b div 16 + 16 * unat c)] @ candidates bs"
| "candidates bs = []"

lemma unat_push_or:
  assumes "unat (y :: 'a::len word) < 2 ^ n" "unat x * 2 ^ n < 2 ^ LENGTH('a)"
  shows "unat (push_bit n x OR y) = unat y + 2 ^ n * unat x"
proof -
  have low: "bit (unat y) m \<Longrightarrow> m < n" for m
    using assms(1) bit_take_bit_iff [of n "unat y" m] by (simp add: take_bit_nat_eq_self)
  have "push_bit n (unat x) OR unat y = push_bit n (unat x) + unat y"
    using low by (intro disjunctive_add [symmetric]) (fastforce simp: bit_push_bit_iff)
  moreover have "unat (push_bit n x) = push_bit n (unat x)"
    using assms(2) by (simp add: unsigned_push_bit_eq take_bit_nat_eq_self push_bit_eq_mult [where ?'a = nat])
  ultimately show ?thesis
    by (simp add: unsigned_or_eq push_bit_eq_mult [where ?'a = nat])
qed

lemma zq_t_of_nat: "zq_t a = of_nat (unat a)"
  by (simp add: zq_t_def)

lemma candidate_words:
  fixes a b c :: u8
  shows "zq_t (push_bit 8 (ucast (b AND 0x0f)) OR ucast a) = of_nat (unat a + 256 * (unat b mod 16))" (is "zq_t ?d1 = _")
    and "zq_t (push_bit 4 (ucast c) OR ucast (drop_bit 4 b)) = of_nat (unat b div 16 + 16 * unat c)" (is "zq_t ?d2 = _")
proof -
  have bound: "unat a < 256" "unat b < 256" "unat c < 256"
    using unsigned_less [of a, where ?'a = nat] unsigned_less [of b, where ?'a = nat] unsigned_less [of c, where ?'a = nat]
    by simp_all
  have "b AND 0x0f = take_bit 4 b"
    by (simp add: take_bit_eq_mask mask_eq_exp_minus_1)
  then have lo: "unat (b AND 0x0f) = unat b mod 16"
    using unsigned_take_bit_eq [of 4 b, where ?'a = nat] take_bit_eq_mod [of 4 "unat b"] by simp
  have hi: "unat (drop_bit 4 b) = unat b div 16"
    by (simp add: unat_drop_bit_eq drop_bit_eq_div [where ?'a = nat])
  have "unat ?d1 = unat a + 2 ^ 8 * (unat b mod 16)"
    using bound by (subst unat_push_or) (simp_all add: unat_ucast_up lo)
  then show "zq_t ?d1 = of_nat (unat a + 256 * (unat b mod 16))"
    unfolding zq_t_of_nat by simp
  have "unat ?d2 = unat b div 16 + 2 ^ 4 * unat c"
    using bound by (subst unat_push_or) (simp_all add: unat_ucast_up hi)
  then show "zq_t ?d2 = of_nat (unat b div 16 + 16 * unat c)"
    unfolding zq_t_of_nat by simp
qed

lemma canon_zq_t: "canon (zq_t d) \<longleftrightarrow> ucast d < Q"
  by (simp add: zq_t_def canon_def)

lemma candidates_append: "3 dvd length xs \<Longrightarrow> candidates (xs @ ys) = candidates xs @ candidates ys"
proof (induction xs rule: candidates.induct)
  case (1 a b c bs)
  then have "3 dvd length bs"
    by simp presburger
  with 1 show ?case
    by simp
qed (auto dest!: dvd_imp_le)

lemma candidates_drop:
  assumes "off + 3 \<le> length buf"
  shows "candidates (drop off buf) =
    filter canon [zq_t (push_bit 8 (ucast (buf ! (off + 1) AND 0x0f)) OR ucast (buf ! (off + 0))),
                  zq_t (push_bit 4 (ucast (buf ! (off + 2))) OR ucast (drop_bit 4 (buf ! (off + 1))))]
    @ candidates (drop (off + 3) buf)"
proof -
  have "drop off buf = buf ! off # buf ! (off + 1) # buf ! (off + 2) # drop (off + 3) buf"
    using assms Cons_nth_drop_Suc [of off buf] Cons_nth_drop_Suc [of "off + 1" buf] Cons_nth_drop_Suc [of "off + 2" buf]
    by (simp add: eval_nat_numeral)
  then show ?thesis
    by (simp only: candidates.simps candidate_words add_0_right)
qed

text \<open>Where the coefficients sampled so far end, the accepted candidates follow until the polynomial is full.\<close>

definition fill_in :: "zq_t list \<Rightarrow> poly \<times> nat \<Rightarrow> poly \<times> nat" where
  "fill_in cs pc = (take (length (fst pc)) (take (snd pc) (fst pc) @ cs) @ drop (snd pc + length cs) (fst pc),
                min (length (fst pc)) (snd pc + length cs))"

lemma fill_in_Nil: "snd pc \<le> length (fst pc) \<Longrightarrow> fill_in [] pc = pc"
  by (cases pc) (simp add: fill_in_def min_def)

lemma fill_in_full: "snd pc = length (fst pc) \<Longrightarrow> fill_in cs pc = pc"
  by (cases pc) (simp add: fill_in_def)

lemma fill_in_fill_in:
  assumes "snd pc \<le> length (fst pc)"
  shows "fill_in ds (fill_in cs pc) = fill_in (cs @ ds) pc" "snd (fill_in cs pc) \<le> length (fst (fill_in cs pc))"
    "length (fst (fill_in cs pc)) = length (fst pc)"
proof -
  obtain p i where pc: "pc = (p, i)"
    by (cases pc)
  have i: "i \<le> length p"
    using assms pc by simp
  show len: "length (fst (fill_in cs pc)) = length (fst pc)" "snd (fill_in cs pc) \<le> length (fst (fill_in cs pc))"
    using i by (simp_all add: fill_in_def pc)
  show "fill_in ds (fill_in cs pc) = fill_in (cs @ ds) pc"
  proof (cases "i + length cs \<le> length p")
    case True
    define q where "q = take i p @ cs @ drop (i + length cs) p"
    have q: "fill_in cs pc = (q, i + length cs)" "length q = length p" "take (i + length cs) q = take i p @ cs"
      "drop (i + length cs + length ds) q = drop (i + length cs + length ds) p"
      using True i by (simp_all add: q_def fill_in_def pc add.commute)
    then show ?thesis
      by (simp add: fill_in_def pc add.assoc)
  next
    case False
    then have "snd (fill_in cs pc) = length (fst (fill_in cs pc))"
      using i by (simp add: fill_in_def pc)
    from fill_in_full [OF this, of ds] False i show ?thesis
      by (simp add: fill_in_def pc)
  qed
qed

lemma fill_in_one: "snd pc < length (fst pc) \<Longrightarrow> fill_in [c] pc = ((fst pc)[snd pc := c], snd pc + 1)"
  by (cases pc) (simp add: fill_in_def upd_conv_take_nth_drop)

lemma sample_step_fill_in:
  assumes "snd pc < length (fst pc)"
  shows "sample_step buf off pc =
    fill_in (filter canon [zq_t (push_bit 8 (ucast (buf ! (off + 1) AND 0x0f)) OR ucast (buf ! (off + 0))),
                       zq_t (push_bit 4 (ucast (buf ! (off + 2))) OR ucast (drop_bit 4 (buf ! (off + 1))))]) pc"
proof -
  define d1 d2 where "d1 = (push_bit 8 (ucast (buf ! (off + 1) AND 0x0f)) OR ucast (buf ! (off + 0)) :: u16)"
    and "d2 = (push_bit 4 (ucast (buf ! (off + 2))) OR ucast (drop_bit 4 (buf ! (off + 1))) :: u16)"
  define pc1 where "pc1 = fill_in (filter canon [zq_t d1]) pc"
  have pc1: "pc1 = (if ucast d1 < Q then ((fst pc)[snd pc := zq_t d1], snd pc + 1) else pc)"
    using assms by (simp add: pc1_def canon_zq_t fill_in_one fill_in_Nil)
  have "fill_in (filter canon [zq_t d1, zq_t d2]) pc = fill_in (filter canon [zq_t d2]) pc1"
    using fill_in_fill_in(1) [of pc "filter canon [zq_t d2]" "filter canon [zq_t d1]"] assms by (simp add: pc1_def)
  also have "\<dots> = (if ucast d2 < Q \<and> snd pc1 < length (fst pc1) then ((fst pc1)[snd pc1 := zq_t d2], snd pc1 + 1) else pc1)"
    using fill_in_fill_in(2) [of pc "filter canon [zq_t d1]", folded pc1_def] assms
    by (simp add: canon_zq_t fill_in_one fill_in_Nil fill_in_full)
  finally show ?thesis
    unfolding sample_step_def Let_def d1_def [symmetric] d2_def [symmetric] pc1 [symmetric] by simp
qed

lemma sample_scan_fill_in:
  "3 dvd length buf - off \<Longrightarrow> snd pc \<le> length (fst pc) \<Longrightarrow> sample_scan buf off pc = fill_in (candidates (drop off buf)) pc"
proof (induction "length buf - off" arbitrary: off pc rule: less_induct)
  case less
  show ?case
  proof (cases "off < length buf \<and> snd pc < length (fst pc)")
    case False
    with less.prems show ?thesis
      by (subst sample_scan.simps) (auto simp: fill_in_Nil fill_in_full)
  next
    case True
    have room: "off + 3 \<le> length buf"
      using True less.prems(1) dvd_imp_le [of 3 "length buf - off"] by simp
    define fs where "fs = filter canon [zq_t (push_bit 8 (ucast (buf ! (off + 1) AND 0x0f)) OR ucast (buf ! (off + 0))),
                  zq_t (push_bit 4 (ucast (buf ! (off + 2))) OR ucast (drop_bit 4 (buf ! (off + 1))))]"
    have "sample_scan buf off pc = sample_scan buf (off + 3) (fill_in fs pc)"
      using True sample_step_fill_in [of pc buf off] by (subst sample_scan.simps) (simp add: fs_def)
    also have "\<dots> = fill_in (candidates (drop (off + 3) buf)) (fill_in fs pc)"
    proof (rule less.hyps)
      have "length buf - (off + 3) = (length buf - off) - 3"
        by simp
      with less.prems(1) room show "3 dvd length buf - (off + 3)"
        by (metis dvd_diff_nat dvd_refl)
    qed (use room less.prems fill_in_fill_in(2) in auto)
    also have "\<dots> = fill_in (candidates (drop off buf)) pc"
      using fill_in_fill_in(1) [OF less.prems(2), of "candidates (drop (off + 3) buf)" fs]
      unfolding candidates_drop [OF room] fs_def [symmetric] .
    finally show ?thesis .
  qed
qed

subsection \<open>The loop over the blocks of the stream\<close>

definition squeezed :: "xof_t \<Rightarrow> nat \<Rightarrow> bytes" where
  "squeezed h n = snd (shake128_squeeze (replicate n 0) h)"

definition streaming :: "xof_t \<Rightarrow> bool" where
  "streaming h \<longleftrightarrow> xof_ready 168 h \<and> x_finalized h"

lemma shake128_squeeze_eq: "shake128_squeeze = xof_squeeze (8 * 168) 24"
  by (simp add: shake128_squeeze_def rate_vals)

lemma squeeze_any_buffer: "x_finalized h \<Longrightarrow> length b = n \<Longrightarrow> xof_squeeze r w b h = xof_squeeze r w (replicate n 0) h"
  by (simp add: xof_squeeze_def)

lemma stream_block:
  assumes "streaming h"
  shows "streaming (fst (shake128_squeeze b h))" "length (squeezed h n) = n"
    "length b = 168 \<Longrightarrow> snd (shake128_squeeze b h) = squeezed h 168"
    "length b = 168 \<Longrightarrow> squeezed h (168 + n) = squeezed h 168 @ squeezed (fst (shake128_squeeze b h)) n"
proof -
  have h: "xof_ready 168 h" "x_finalized h"
    using assms by (simp_all add: streaming_def)
  have "x_finalized (fst (shake128_squeeze b h))"
    using h(2) by (simp add: shake128_squeeze_eq xof_squeeze_def Let_def)
  then show "streaming (fst (shake128_squeeze b h))"
    using sp168.xof_squeeze_ready [OF h(1), of b] by (simp add: streaming_def shake128_squeeze_eq)
  show "length (squeezed h n) = n"
    using sp168.xof_squeeze_length [OF h(1), of "replicate n 0"] by (simp add: squeezed_def shake128_squeeze_eq)
  assume b: "length b = 168"
  show "snd (shake128_squeeze b h) = squeezed h 168"
    using squeeze_any_buffer [OF h(2) b, of "8 * 168" 24] by (simp add: squeezed_def shake128_squeeze_eq)
  show "squeezed h (168 + n) = squeezed h 168 @ squeezed (fst (shake128_squeeze b h)) n"
    using sp168.xof_squeeze_append [OF h, of "replicate 168 0" "replicate n 0"] squeeze_any_buffer [OF h(2) b, of "8 * 168" 24]
    unfolding squeezed_def shake128_squeeze_eq replicate_add Let_def by simp
qed

lemma candidates_blocks:
  assumes "streaming h" "length b = 168"
  shows "candidates (squeezed h (168 * Suc m)) =
    candidates (snd (shake128_squeeze b h)) @ candidates (squeezed (fst (shake128_squeeze b h)) (168 * m))"
  using stream_block(4) [OF assms, of "168 * m"] stream_block(3) [OF assms] stream_block(2) [OF assms(1), of 168]
  by (simp add: candidates_append)

lemma block_scan:
  assumes "streaming h" "length b = 168" "snd pc \<le> length (fst pc)"
  shows "sample_scan (snd (shake128_squeeze b h)) 0 pc = fill_in (candidates (snd (shake128_squeeze b h))) pc"
    "length (snd (shake128_squeeze b h)) = 168"
  using stream_block(2,3) [OF assms(1)] assms(2,3) by (simp_all add: sample_scan_fill_in)

lemma sample_loop_enough:
  "streaming h \<Longrightarrow> length b = 168 \<Longrightarrow> snd pc \<le> length (fst pc) \<Longrightarrow>
   length (fst pc) - snd pc \<le> length (candidates (squeezed h (168 * m))) \<Longrightarrow>
   \<exists>h'. sample_loop h b pc = Some (h', fst (fill_in (candidates (squeezed h (168 * m))) pc))"
proof (induction m arbitrary: h b pc)
  case 0
  have "candidates (squeezed h 0) = []"
    using stream_block(2) [OF 0(1), of 0] by simp
  with 0 show ?case
    by (subst sample_loop.simps) (simp add: fill_in_full)
next
  case (Suc m)
  show ?case
  proof (cases "snd pc < length (fst pc)")
    case False
    with Suc.prems(3) show ?thesis
      by (subst sample_loop.simps) (simp add: fill_in_full)
  next
    case True
    define h1 b1 where "h1 = fst (shake128_squeeze b h)" and "b1 = snd (shake128_squeeze b h)"
    note split = candidates_blocks [OF Suc.prems(1,2), of m, folded h1_def b1_def]
    note scan = block_scan [OF Suc.prems(1-3), folded b1_def]
    have "\<exists>h'. sample_loop h1 b1 (fill_in (candidates b1) pc) =
        Some (h', fst (fill_in (candidates (squeezed h1 (168 * m))) (fill_in (candidates b1) pc)))"
    proof (rule Suc.IH)
      show "length (fst (fill_in (candidates b1) pc)) - snd (fill_in (candidates b1) pc) \<le> length (candidates (squeezed h1 (168 * m)))"
        using Suc.prems(4) unfolding split by (simp add: fill_in_fill_in(3) [OF Suc.prems(3)]) (simp add: fill_in_def)
    qed (use stream_block(1) [OF Suc.prems(1), of b] scan(2) fill_in_fill_in(2) [OF Suc.prems(3)] in \<open>simp_all add: h1_def\<close>)
    with True scan(1) show ?thesis
      unfolding split fill_in_fill_in(1) [OF Suc.prems(3)] by (subst sample_loop.simps) (simp add: Let_def h1_def b1_def)
  qed
qed

lemma sample_loop_ends:
  assumes "sample_loop h b pc = Some r"
  shows "streaming h \<longrightarrow> length b = 168 \<longrightarrow> snd pc \<le> length (fst pc) \<longrightarrow>
   (\<exists>m. length (fst pc) - snd pc \<le> length (candidates (squeezed h (168 * m))))"
proof (rule sample_loop.raw_induct [OF _ assms])
  fix loop h b pc r
  let ?P = "\<lambda>h b pc. streaming h \<longrightarrow> length b = 168 \<longrightarrow> snd pc \<le> length (fst pc) \<longrightarrow>
    (\<exists>m. length (fst pc) - snd pc \<le> length (candidates (squeezed h (168 * m))))"
  assume 1: "\<And>h b pc r. loop h b pc = Some r \<Longrightarrow> ?P h b pc"
    "(if snd pc < length (fst pc)
      then let hb = shake128_squeeze b h in loop (fst hb) (snd hb) (sample_scan (snd hb) 0 pc)
      else Some (h, fst pc)) = Some r"
  show "?P h b pc"
  proof (cases "snd pc < length (fst pc)")
    case True
    define h1 b1 where "h1 = fst (shake128_squeeze b h)" and "b1 = snd (shake128_squeeze b h)"
    have "loop h1 b1 (sample_scan b1 0 pc) = Some r"
      using 1(2) True by (simp add: Let_def h1_def b1_def)
    note IH = 1(1) [OF this]
    show ?thesis
    proof (intro impI)
      assume *: "streaming h" "length b = 168" "snd pc \<le> length (fst pc)"
      note split = candidates_blocks [OF *(1,2), folded h1_def b1_def]
      note scan = block_scan [OF *, folded b1_def]
      obtain m where m: "length (fst (fill_in (candidates b1) pc)) - snd (fill_in (candidates b1) pc) \<le> length (candidates (squeezed h1 (168 * m)))"
        using IH stream_block(1) [OF *(1), of b] scan fill_in_fill_in(2) [OF *(3)] by (auto simp: h1_def)
      have "length (fst pc) - snd pc \<le> length (candidates (squeezed h (168 * Suc m)))"
        using m unfolding split fill_in_fill_in(3) [OF *(3)] by (simp add: fill_in_def)
      then show "\<exists>m. length (fst pc) - snd pc \<le> length (candidates (squeezed h (168 * m)))" ..
    qed
  qed auto
qed

lemma sample_ntt_first:
  assumes "streaming h" "length p = 256" "256 \<le> length (candidates (squeezed h (168 * m)))"
  shows "map_option snd (sample_ntt h p) = Some (take 256 (candidates (squeezed h (168 * m))))"
  using sample_loop_enough [OF assms(1), of "replicate 168 0" "(p, 0)" m] assms(2,3)
  by (auto simp: sample_ntt_def fill_in_def rate_vals)

lemma sample_ntt_returns:
  assumes "streaming h" "length p = 256"
  shows "sample_ntt h p \<noteq> None \<longleftrightarrow> (\<exists>m. 256 \<le> length (candidates (squeezed h (168 * m))))"
proof
  assume "sample_ntt h p \<noteq> None"
  then obtain r where "sample_loop h (replicate 168 0) (p, 0) = Some r"
    by (auto simp: sample_ntt_def rate_vals)
  from sample_loop_ends [OF this] assms show "\<exists>m. 256 \<le> length (candidates (squeezed h (168 * m)))"
    by simp
next
  assume "\<exists>m. 256 \<le> length (candidates (squeezed h (168 * m)))"
  then show "sample_ntt h p \<noteq> None"
    using sample_ntt_first [OF assms] by fastforce
qed

lemma canon_candidates: "list_all canon (candidates bs)"
  by (induction bs rule: candidates.induct) (auto simp: list_all_iff)

lemma wf_sample_ntt:
  assumes "streaming h" "length p = 256" "sample_ntt h p = Some (h', q)"
  shows "wf_poly q"
proof -
  obtain m where m: "256 \<le> length (candidates (squeezed h (168 * m)))"
    using sample_ntt_returns [OF assms(1,2)] assms(3) by auto
  have q: "q = take 256 (candidates (squeezed h (168 * m)))"
    using sample_ntt_first [OF assms(1,2) m] assms(3) by simp
  have "list_all canon q"
    using canon_candidates [of "squeezed h (168 * m)"] unfolding q list_all_iff by (auto dest: in_set_takeD)
  with m q show ?thesis
    by (simp add: wf_poly_def)
qed

lemma matrix_hasher_streaming: "streaming (matrix_hasher tr rho i j)"
proof -
  have r: "shake128_absorb = xof_absorb (8 * 168) 24" "shake128_finalize = xof_finalize shake128_DOM_SEP (bit_width (unat shake128_DOM_SEP)) (8 * 168) 24"
    by (simp_all add: shake128_absorb_def shake128_finalize_def rate_vals)
  have fin: "x_finalized (xof_finalize d w r n h)" for d w r n h
    by (simp add: xof_finalize_def Let_def)
  show ?thesis
    unfolding streaming_def matrix_hasher_def Let_def r
    by (intro conjI fin sp168.xof_finalize_ready sp168.xof_absorb_ready sp168.xof_init_ready)
qed

section \<open>Centred binomial sampling counts bits\<close>

text \<open>Fields of \<open>e\<close> bits in one number: adding numbers adds the fields while none overflows.\<close>

lemma digit_of_sum:
  assumes "\<And>s. s < n \<Longrightarrow> d s < 2 ^ e" "s < n"
  shows "(\<Sum>s<n. d s * 2 ^ (e * s)) div 2 ^ (e * s) mod 2 ^ e = (d s :: nat)"
  using assms
proof (induction n arbitrary: d s)
  case (Suc n)
  let ?T = "\<Sum>s<n. d (Suc s) * 2 ^ (e * s)"
  have shift: "(\<Sum>s<Suc n. d s * 2 ^ (e * s)) = d 0 + 2 ^ e * ?T"
    by (subst sum.lessThan_Suc_shift) (simp add: sum_distrib_left power_add mult_ac)
  have d0: "d 0 < 2 ^ e"
    using Suc.prems by simp
  show ?case
  proof (cases s)
    case 0
    with d0 show ?thesis
      unfolding shift by simp
  next
    case (Suc t)
    have "(d 0 + 2 ^ e * ?T) div 2 ^ (e * Suc t) = (d 0 + 2 ^ e * ?T) div 2 ^ e div 2 ^ (e * t)"
      using div_mult2_eq [of "d 0 + 2 ^ e * ?T" "2 ^ e" "2 ^ (e * t)"] by (simp only: mult_Suc_right power_add)
    moreover have "(d 0 + 2 ^ e * ?T) div 2 ^ e = ?T"
      using d0 by simp
    ultimately show ?thesis
      using Suc.IH [of "\<lambda>s. d (Suc s)" t] Suc.prems unfolding shift Suc by simp
  qed
qed simp

lemma sparse_number:
  fixes x :: nat
  assumes "0 < e" "\<And>i. bit x i \<longleftrightarrow> i mod e = 0 \<and> i < e * n \<and> P (i div e)"
  shows "x = (\<Sum>s<n. of_bool (P s) * 2 ^ (e * s))"
  using assms(2)
proof (induction n arbitrary: x P)
  case 0
  then show ?case
    by (simp add: bit_eq_iff)
next
  case (Suc n)
  have low: "take_bit e x = of_bool (P 0)"
  proof (rule bit_eqI)
    fix i
    show "bit (take_bit e x) i = bit (of_bool (P 0) :: nat) i"
      using assms(1) Suc.prems [of i] by (cases "i < e") (auto simp: bit_take_bit_iff bit_of_bool_iff)
  qed
  have "drop_bit e x = (\<Sum>s<n. of_bool (P (Suc s)) * 2 ^ (e * s))"
    using assms(1) Suc.prems by (intro Suc.IH) (simp add: bit_drop_bit_eq div_add_self1)
  moreover have "x = take_bit e x + 2 ^ e * drop_bit e x"
    by (simp add: take_bit_eq_mod drop_bit_eq_div)
  ultimately show ?case
    unfolding low by (subst sum.lessThan_Suc_shift) (simp add: sum_distrib_left power_add mult_ac)
qed

lemma masked_fields:
  fixes w m :: "'a::len word"
  assumes "0 < e" "\<And>i. bit m i \<longleftrightarrow> i mod e = 0 \<and> i < e * n"
  shows "unat (drop_bit r w AND m) = (\<Sum>s<n. of_bool (bit w (e * s + r)) * 2 ^ (e * s))"
proof (rule sparse_number [OF assms(1)])
  fix i
  have "bit (unat (drop_bit r w AND m)) i \<longleftrightarrow> bit w (r + i) \<and> bit m i"
    using bit_imp_le_length [of m i] by (auto simp: bit_unsigned_iff bit_simps)
  then show "bit (unat (drop_bit r w AND m)) i \<longleftrightarrow> i mod e = 0 \<and> i < e * n \<and> bit w (e * (i div e) + r)"
    unfolding assms(2) by (metis add.commute add_0_right mult_div_mod_eq)
qed

lemma field_of_word:
  fixes t :: "'a::len word"
  assumes "unat t = (\<Sum>s<n. d s * 2 ^ (e * s))" "\<And>s. s < n \<Longrightarrow> d s < 2 ^ e" "s < n"
  shows "unat (take_bit e (drop_bit (e * s) t)) = d s"
proof -
  have "unat (take_bit e (drop_bit (e * s) t)) = unat t div 2 ^ (e * s) mod 2 ^ e"
    unfolding unsigned_take_bit_eq unat_drop_bit_eq take_bit_eq_mod [where ?'a = nat] drop_bit_eq_div [where ?'a = nat] ..
  with digit_of_sum [of n d e s] assms show ?thesis
    by simp
qed

lemma mask8_bits: "bit (0b01010101 :: u8) i \<longleftrightarrow> i mod 2 = 0 \<and> i < 2 * 4"
proof (cases "i < 8")
  case True
  moreover have "\<forall>i<8. bit (0b01010101 :: u8) i \<longleftrightarrow> i mod 2 = 0"
    by (simp add: below_cases bit_simps)
  ultimately show ?thesis
    by simp
qed (use byte_bit_beyond in auto)

lemma mask24_bits: "bit (0b001001001001001001001001 :: u32) i \<longleftrightarrow> i mod 3 = 0 \<and> i < 3 * 8"
proof (cases "i < 32")
  case True
  moreover have "\<forall>i<32. bit (0b001001001001001001001001 :: u32) i \<longleftrightarrow> i mod 3 = 0 \<and> i < 24"
    by (simp add: below_cases bit_simps)
  ultimately show ?thesis
    by simp
qed (use bit_imp_le_length [of "0b001001001001001001001001 :: u32" i] in auto)

lemma cbd_2_fields:
  assumes "s < 4"
  shows "unat (take_bit 2 (drop_bit (2 * s) ((drop_bit 0 w AND 0b01010101) + (drop_bit 1 w AND 0b01010101 :: u8)))) =
    of_bool (bit w (2 * s)) + of_bool (bit w (2 * s + 1))"
proof -
  have le: "unat (drop_bit r w AND 0b01010101) \<le> 85" for r
    using word_and_le1 [of "drop_bit r w" "0b01010101"] by (simp add: word_le_nat_alt)
  have "unat ((drop_bit 0 w AND 0b01010101) + (drop_bit 1 w AND 0b01010101)) =
      unat (drop_bit 0 w AND 0b01010101) + unat (drop_bit 1 w AND 0b01010101)"
    using le [of 0] le [of 1] unat_add_lem [of "drop_bit 0 w AND 0b01010101" "drop_bit 1 w AND 0b01010101"] by simp
  also have "\<dots> = (\<Sum>s<4. (of_bool (bit w (2 * s)) + of_bool (bit w (2 * s + 1))) * 2 ^ (2 * s))"
    unfolding masked_fields [OF zero_less_numeral mask8_bits] by (simp only: sum.distrib distrib_right add_0_right)
  finally show ?thesis
    by (rule field_of_word) (use assms in auto)
qed

lemma cbd_3_fields:
  assumes "s < 8"
  shows "unat (take_bit 3 (drop_bit (3 * s) ((drop_bit 0 w AND 0b001001001001001001001001) +
      (drop_bit 1 w AND 0b001001001001001001001001) + (drop_bit 2 w AND 0b001001001001001001001001 :: u32)))) =
    of_bool (bit w (3 * s)) + of_bool (bit w (3 * s + 1)) + of_bool (bit w (3 * s + 2))"
proof -
  define m :: u32 where "m = 0b001001001001001001001001"
  have le: "unat (drop_bit r w AND m) \<le> 2396745" for r
    using word_and_le1 [of "drop_bit r w" m] by (simp add: word_le_nat_alt m_def)
  have "unat ((drop_bit 0 w AND m) + (drop_bit 1 w AND m)) = unat (drop_bit 0 w AND m) + unat (drop_bit 1 w AND m)"
    using le [of 0] le [of 1] unat_add_lem [of "drop_bit 0 w AND m" "drop_bit 1 w AND m"] by simp
  then have "unat ((drop_bit 0 w AND m) + (drop_bit 1 w AND m) + (drop_bit 2 w AND m)) =
      unat (drop_bit 0 w AND m) + unat (drop_bit 1 w AND m) + unat (drop_bit 2 w AND m)"
    using le [of 0] le [of 1] le [of 2] unat_add_lem [of "(drop_bit 0 w AND m) + (drop_bit 1 w AND m)" "drop_bit 2 w AND m"] by simp
  also have "\<dots> = (\<Sum>s<8. (of_bool (bit w (3 * s)) + of_bool (bit w (3 * s + 1)) + of_bool (bit w (3 * s + 2))) * 2 ^ (3 * s))"
    unfolding masked_fields [OF zero_less_numeral mask24_bits [folded m_def]] by (simp only: sum.distrib distrib_right add_0_right)
  finally show ?thesis
    unfolding m_def by (rule field_of_word) (use assms in auto)
qed

text \<open>Algorithm 8 of the standard: bits \<open>2 i \<eta>\<close> to \<open>2 i \<eta> + 2 \<eta> - 1\<close> of the stream make coefficient \<open>i\<close>.\<close>

definition stream_bit :: "bytes \<Rightarrow> nat \<Rightarrow> bool" where
  "stream_bit bs n = bit (bs ! (n div 8)) (n mod 8)"

definition ones :: "bytes \<Rightarrow> nat \<Rightarrow> nat \<Rightarrow> nat" where
  "ones bs from n = (\<Sum>t<n. of_bool (stream_bit bs (from + t)))"

lemma ones_2: "ones bs n 2 = of_bool (stream_bit bs n) + of_bool (stream_bit bs (n + 1))"
  and ones_3: "ones bs n 3 = of_bool (stream_bit bs n) + of_bool (stream_bit bs (n + 1)) + of_bool (stream_bit bs (n + 2))"
  by (simp_all add: ones_def eval_nat_numeral)

lemma ones_le: "ones bs n k \<le> k"
  using sum_bounded_above [of "{..<k}" "\<lambda>t. of_bool (stream_bit bs (n + t))" "1 :: nat"] by (simp add: ones_def)

lemma small_difference:
  fixes X Y :: "'a::len word"
  assumes "unat X < 3329" "unat Y < 3329"
  shows "canon (zq_sub (zq_t (ucast X)) (zq_t (ucast Y)))"
    "zv (zq_sub (zq_t (ucast X)) (zq_t (ucast Y))) = of_nat (unat X) - of_nat (unat Y)"
proof -
  have X: "unat (zq_t (ucast X)) = unat X" and Y: "unat (zq_t (ucast Y)) = unat Y"
    using assms by (simp_all add: unat_zq_t unat_ucast_small)
  then have c: "canon (zq_t (ucast X))" "canon (zq_t (ucast Y))"
    using assms by (simp_all add: canon_iff)
  then show "canon (zq_sub (zq_t (ucast X)) (zq_t (ucast Y)))"
    by simp
  show "zv (zq_sub (zq_t (ucast X)) (zq_t (ucast Y))) = of_nat (unat X) - of_nat (unat Y)"
    using zv_sub [OF c] X Y by (simp add: zv_def)
qed

definition centred :: "bytes \<Rightarrow> nat \<Rightarrow> nat \<Rightarrow> zq_t \<Rightarrow> bool" where
  "centred bs n eta x \<longleftrightarrow> canon x \<and> zv x = of_nat (ones bs n eta) - of_nat (ones bs (n + eta) eta)"

lemma centredI:
  fixes X Y :: "'a::len word"
  assumes "unat X = ones bs n eta" "unat Y = ones bs (n + eta) eta" "eta < 3329"
  shows "centred bs n eta (zq_sub (zq_t (ucast X)) (zq_t (ucast Y)))"
  using small_difference [of X Y] assms ones_le [of bs n eta] ones_le [of bs "n + eta" eta] by (simp add: centred_def)

lemma and_3: "x AND 3 = take_bit 2 (x :: 'a::len word)" and and_7: "x AND 7 = take_bit 3 (x :: 'a::len word)"
  by (simp_all add: take_bit_eq_mask mask_eq_exp_minus_1)

lemma cbd_2_centred:
  assumes "c < 2"
  shows "centred prf (8 * i + 4 * c) 2 (cbd_2 (prf ! i) ! c)"
proof -
  have bits: "stream_bit prf (8 * i + r) = bit (prf ! i) r" if "r < 8" for r
    using that by (simp add: stream_bit_def)
  define T where "T = (\<lambda>s. take_bit 2 (drop_bit (2 * s) ((drop_bit 0 (prf ! i) AND 0b01010101) + (drop_bit 1 (prf ! i) AND 0b01010101))))"
  have T: "unat (T s) = ones prf (8 * i + 2 * s) 2" if "s < 4" for s
    using cbd_2_fields [OF that, of "prf ! i"] bits [of "2 * s"] bits [of "2 * s + 1"] that by (simp add: T_def ones_2)
  have "cbd_2 (prf ! i) ! c = zq_sub (zq_t (ucast (T (2 * c)))) (zq_t (ucast (T (2 * c + 1))))"
    using assms by (cases "c = 0") (simp_all add: cbd_2_def Let_def T_def and_3 less_2_cases_iff)
  moreover have "centred prf (8 * i + 4 * c) 2 (zq_sub (zq_t (ucast (T (2 * c)))) (zq_t (ucast (T (2 * c + 1)))))"
    using assms by (intro centredI) (simp_all add: T algebra_simps)
  ultimately show ?thesis
    by simp
qed

lemma three_bytes_bits:
  assumes "n < 24"
  shows "bit (push_bit 16 (ucast (prf ! (i * 3 + 2))) OR push_bit 8 (ucast (prf ! (i * 3 + 1))) OR ucast (prf ! (i * 3 + 0)) :: u32) n
    = stream_bit prf (24 * i + n)"
proof -
  have "24 * i + n = n + 8 * (i * 3)"
    by simp
  then have idx: "(24 * i + n) div 8 = i * 3 + n div 8" "(24 * i + n) mod 8 = n mod 8"
    by (simp_all only: div_mult_self2 mod_mult_self2 zero_neq_numeral [symmetric] not_False_eq_True add.commute)
  define q r where "q = n div 8" and "r = n mod 8"
  have n: "n = 8 * q + r" "r < 8" "q = 0 \<or> q = 1 \<or> q = 2"
    using assms by (auto simp: q_def r_def)
  have "\<not> 8 \<le> r" "\<not> 16 \<le> r"
    using n(2) by simp_all
  with n(3) show ?thesis
    unfolding stream_bit_def idx q_def [symmetric] r_def [symmetric]
    by (elim disjE)
      (simp_all add: n(1,2) bit_or_iff bit_push_bit_iff bit_unsigned_iff byte_bit_beyond less_le_trans [OF n(2)])
qed

lemma cbd_3_centred:
  assumes "c < 4" "\<And>n. n < 24 \<Longrightarrow> bit w n = stream_bit prf (24 * i + n)"
  shows "centred prf (24 * i + 6 * c) 3 (cbd_3 w ! c)"
proof -
  define T where "T = (\<lambda>s. take_bit 3 (drop_bit (3 * s) ((drop_bit 0 w AND 0b001001001001001001001001) +
      (drop_bit 1 w AND 0b001001001001001001001001) + (drop_bit 2 w AND 0b001001001001001001001001))))"
  have T: "unat (T s) = ones prf (24 * i + 3 * s) 3" if "s < 8" for s
    using cbd_3_fields [OF that, of w] assms(2) [of "3 * s"] assms(2) [of "3 * s + 1"] assms(2) [of "3 * s + 2"] that
    by (simp add: T_def ones_3)
  have "c = 0 \<or> c = 1 \<or> c = 2 \<or> c = 3"
    using assms(1) by linarith
  then have "cbd_3 w ! c = zq_sub (zq_t (ucast (T (2 * c)))) (zq_t (ucast (T (2 * c + 1))))"
    by (elim disjE) (simp_all add: cbd_3_def Let_def T_def and_7)
  moreover have "centred prf (24 * i + 6 * c) 3 (zq_sub (zq_t (ucast (T (2 * c)))) (zq_t (ucast (T (2 * c + 1)))))"
    using assms(1) by (intro centredI) (simp_all add: T algebra_simps)
  ultimately show ?thesis
    by simp
qed

lemma sample_poly_cbd_centred:
  assumes "check_eta eta" "j < 256"
  shows "centred prf (2 * j * eta) eta (sample_poly_cbd eta prf ! j)"
proof (cases "eta = 2")
  case True
  have "sample_poly_cbd 2 prf ! (j div 2 * 2 + j mod 2) = cbd_2 (prf ! (j div 2)) ! (j mod 2)"
    unfolding sample_poly_cbd_def if_P [OF refl] using assms(2) by (intro concat_blocks_nth) (auto simp: cbd_2_def Let_def)
  moreover have "8 * (j div 2) + 4 * (j mod 2) = 4 * j"
    by presburger
  ultimately show ?thesis
    using True cbd_2_centred [of "j mod 2" "prf" "j div 2"] by (simp add: mult.commute)
next
  case False
  then have eta: "eta = 3"
    using assms(1) by (simp add: check_eta_def)
  define W where "W = (\<lambda>i. push_bit 16 (ucast (prf ! (i * 3 + 2))) OR push_bit 8 (ucast (prf ! (i * 3 + 1))) OR ucast (prf ! (i * 3 + 0)) :: u32)"
  have "sample_poly_cbd 3 prf = concat (map (\<lambda>i. cbd_3 (W i)) [0..<64])"
    by (simp add: sample_poly_cbd_def W_def Let_def)
  moreover have "concat (map (\<lambda>i. cbd_3 (W i)) [0..<64]) ! (j div 4 * 4 + j mod 4) = cbd_3 (W (j div 4)) ! (j mod 4)"
    using assms(2) by (intro concat_blocks_nth) (auto simp: cbd_3_def Let_def)
  moreover have "24 * (j div 4) + 6 * (j mod 4) = 6 * j"
    by presburger
  ultimately show ?thesis
    using eta cbd_3_centred [of "j mod 4" "W (j div 4)" "prf" "j div 4"] three_bytes_bits [of _ "prf" "j div 4"]
    by (simp add: W_def mult.commute)
qed

lemma length_cbd: "check_eta eta \<Longrightarrow> length (sample_poly_cbd eta prf) = 256"
proof -
  assume "check_eta eta"
  moreover have "length (concat (map (\<lambda>i. cbd_2 (prf ! i)) [0..<128])) = 128 * 2"
    by (rule length_concat_blocks) (simp add: cbd_2_def Let_def)
  moreover have "length (concat (map (\<lambda>i. cbd_3 (F i)) [0..<64])) = 64 * 4" for F
    by (rule length_concat_blocks) (simp add: cbd_3_def Let_def)
  ultimately show ?thesis
    by (auto simp: check_eta_def sample_poly_cbd_def Let_def)
qed

lemma wf_cbd: "check_eta eta \<Longrightarrow> wf_poly (sample_poly_cbd eta prf)"
  using sample_poly_cbd_centred [of eta _ "prf"] by (intro wf_polyI) (auto simp: length_cbd centred_def)

section \<open>Properties\<close>

text \<open>
  C22: uniform sampling: the loop of \<open>sample_ntt\<close> ends exactly when the SHAKE128 stream of the seed holds 256
  twelve-bit numbers below Q, and the polynomial is then the first 256 of them, in the order of the stream; where the
  stream is cut into blocks does not matter.\<close>

theorem sample_ntt_takes_first:
  "map_option snd (sample_ntt (matrix_hasher tr rho i j) (replicate N 0)) =
    (let drawn = (\<lambda>m. candidates (squeezed (matrix_hasher tr rho i j) (168 * m)))
     in if \<exists>m. 256 \<le> length (drawn m) then Some (take 256 (drawn (LEAST m. 256 \<le> length (drawn m)))) else None)"
proof -
  define h where "h = matrix_hasher tr rho i j"
  have h: "streaming h"
    by (simp add: h_def matrix_hasher_streaming)
  have p: "length (replicate N 0) = 256"
    by (simp add: N_val)
  show ?thesis
  proof (cases "\<exists>m. 256 \<le> length (candidates (squeezed h (168 * m)))")
    case True
    then have "256 \<le> length (candidates (squeezed h (168 * (LEAST m. 256 \<le> length (candidates (squeezed h (168 * m)))))))"
      by (rule LeastI_ex)
    from sample_ntt_first [OF h p this] True show ?thesis
      unfolding h_def [symmetric] Let_def by simp
  next
    case False
    with sample_ntt_returns [OF h p] have "sample_ntt h (replicate N 0) = None"
      by blast
    with False show ?thesis
      unfolding h_def [symmetric] Let_def by simp
  qed
qed

text \<open>
  C30: centred binomial sampling: coefficient \<open>j\<close> is canonical and stands for the number of ones among bits \<open>2 j \<eta>\<close> to
  \<open>2 j \<eta> + \<eta> - 1\<close> of the stream less that among the next \<open>\<eta>\<close> bits (algorithm 8 of the standard); so it is at most \<open>\<eta>\<close>
  in absolute value.\<close>

theorem sample_poly_cbd_counts:
  assumes "check_eta eta" "j < 256"
  shows "canon (sample_poly_cbd eta bs ! j) \<and>
    zv (sample_poly_cbd eta bs ! j) = of_int (int (ones bs (2 * j * eta) eta) - int (ones bs (2 * j * eta + eta) eta)) \<and>
    \<bar>int (ones bs (2 * j * eta) eta) - int (ones bs (2 * j * eta + eta) eta)\<bar> \<le> int eta"
  using sample_poly_cbd_centred [OF assms, of bs] ones_le [of bs "2 * j * eta" eta] ones_le [of bs "2 * j * eta + eta" eta]
  by (auto simp: centred_def)

theorem sample_poly_cbd_counts_witness:
  "zv (sample_poly_cbd 3 (7 # replicate 191 0) ! 0) = of_int 3 \<and> ones (7 # replicate 191 0) 0 3 = 3"
  using sample_poly_cbd_counts [of 3 0 "7 # replicate 191 0"]
  by (simp add: check_eta_def ones_3 stream_bit_def)

end
