(* ===== verification/Kem_Subtle.thy ===== *)
theory Kem_Subtle
  imports Zb_Prelude
begin

text \<open>
  Branch-free comparison and selection (\<open>namespace subtle\<close> and \<open>ct_memcmp\<close>, \<open>ct_cond_memcpy\<close> of \<open>namespace
  ml_kem_utils\<close>).  The templates take unsigned operands and results of any width; so do the definitions.  The truth
  value is the word with every bit set, the false value is 0.
\<close>

section \<open>Operations\<close>

definition ct_eq :: "'a::len word \<Rightarrow> 'a word \<Rightarrow> 'b::len word" where
  "ct_eq x y =
     (let a = x XOR y;
          b = a OR (- a);
          c = drop_bit (LENGTH('a) - 1) b;
          d = (ucast c :: 'b word);
          e = d - 1
      in e)"

definition ct_ne :: "'a::len word \<Rightarrow> 'a word \<Rightarrow> 'b::len word" where
  "ct_ne x y = NOT (ct_eq x y)"

definition ct_select :: "'b::len word \<Rightarrow> 'a::len word \<Rightarrow> 'a word \<Rightarrow> 'a word" where
  "ct_select br x y =
     (let z = drop_bit (LENGTH('b) - 1) br;
          w = - (ucast z :: 'a word);
          selected = (x AND w) OR (y AND (NOT w))
      in selected)"

definition ct_swap :: "'b::len word \<Rightarrow> 'a::len word \<Rightarrow> 'a word \<Rightarrow> 'a word \<times> 'a word" where
  "ct_swap br x y =
     (let msk = - (ucast (br AND 1) :: 'a word);
          x1 = x XOR (msk AND y);
          y1 = y XOR (msk AND x1);
          x2 = x1 XOR (msk AND y1)
      in (x2, y1))"

text \<open>The loop \<open>for (pow = 1; pow < bits;) { w |= w >> pow; pow += pow; }\<close> from \<open>pow\<close> on.\<close>

function smear :: "nat \<Rightarrow> 'a::len word \<Rightarrow> 'a word" where
  "smear pow w = (if pow = 0 \<or> LENGTH('a) \<le> pow then w else smear (pow + pow) (w OR drop_bit pow w))"
  by pat_completeness auto
termination by (relation "measure (\<lambda>(pow, w). LENGTH('a) - pow)") auto

declare smear.simps [simp del]

definition ct_le :: "'a::len word \<Rightarrow> 'a word \<Rightarrow> 'b::len word" where
  "ct_le x y =
     (let gt_bits = x AND NOT y;
          lt_bits = smear 1 (NOT x AND y);
          b = smear 1 (gt_bits AND NOT lt_bits)
      in - (ucast ((b AND 1) XOR 1) :: 'b word))"

definition ct_gt :: "'a::len word \<Rightarrow> 'a word \<Rightarrow> 'b::len word" where
  "ct_gt x y = NOT (ct_le x y)"

definition ct_ge :: "'a::len word \<Rightarrow> 'a word \<Rightarrow> 'b::len word" where
  "ct_ge x y = ct_gt x y OR ct_eq x y"

definition ct_lt :: "'a::len word \<Rightarrow> 'a word \<Rightarrow> 'b::len word" where
  "ct_lt x y = NOT (ct_ge x y)"

definition ct_memcmp :: "bytes \<Rightarrow> bytes \<Rightarrow> u32" where
  "ct_memcmp bytes0 bytes1 = fold (\<lambda>i flag. flag AND ct_eq (bytes0 ! i) (bytes1 ! i)) [0..<length bytes0] (- 1)"

definition ct_cond_memcpy :: "u32 \<Rightarrow> bytes \<Rightarrow> bytes \<Rightarrow> bytes \<Rightarrow> bytes" where
  "ct_cond_memcpy cond sink source0 source1 =
     fold (\<lambda>i s. s[i := ct_select cond (source0 ! i) (source1 ! i)]) [0..<length sink] sink"

section \<open>They compute the ordinary comparisons\<close>

abbreviation truth :: "bool \<Rightarrow> 'a::len word" where
  "truth p \<equiv> (if p then - 1 else 0)"

lemma drop_msb: "drop_bit (LENGTH('a) - 1) (w :: 'a::len word) = of_bool (bit w (LENGTH('a) - 1))"
proof (rule bit_word_eqI)
  fix n
  show "bit (drop_bit (LENGTH('a) - 1) w) n = bit (of_bool (bit w (LENGTH('a) - 1)) :: 'a word) n"
    using bit_imp_le_length [of w "LENGTH('a) - 1 + n"] by (cases n) (auto simp: bit_drop_bit_eq bit_simps)
qed

lemma msb_or_minus:
  assumes "(a :: 'a::len word) \<noteq> 0"
  shows "bit (a OR - a) (LENGTH('a) - 1)"
proof (cases "sint a < 0")
  case True
  then show ?thesis
    unfolding bit_or_iff unfolding One_nat_def bit_last_iff by simp
next
  case False
  moreover have "sint a \<noteq> 0"
    using assms by (metis signed_0 signed_word_eqI)
  ultimately have "0 < sint a" "sint a < 2 ^ (LENGTH('a) - 1)"
    using sint_lt [of a] by simp_all
  then have "sint (- a) = - sint a"
    by (simp add: sint_word_ariths signed_take_bit_int_eq_self)
  with \<open>0 < sint a\<close> show ?thesis
    unfolding bit_or_iff unfolding One_nat_def bit_last_iff by simp
qed

lemma ct_eq_iff: "(ct_eq (x :: 'a::len word) y :: 'b::len word) = truth (x = y)"
proof (cases "x = y")
  case False
  then have "x XOR y \<noteq> 0"
    by (auto simp: bit_eq_iff bit_simps)
  from msb_or_minus [OF this] False show ?thesis
    unfolding ct_eq_def Let_def drop_msb by simp
qed (simp add: ct_eq_def Let_def)

lemma ct_ne_iff: "(ct_ne (x :: 'a::len word) y :: 'b::len word) = truth (x \<noteq> y)"
  by (simp add: ct_ne_def ct_eq_iff)

lemma ct_select_iff: "ct_select (truth p :: 'b::len word) (x :: 'a::len word) y = (if p then x else y)"
proof (cases p)
  case True
  have "drop_bit (LENGTH('b) - 1) (- 1 :: 'b word) = 1"
    unfolding drop_msb by simp
  with True show ?thesis
    by (simp add: ct_select_def Let_def)
qed (simp add: ct_select_def)

lemma ct_swap_iff: "ct_swap (truth p :: 'b::len word) (x :: 'a::len word) y = (if p then (y, x) else (x, y))"
proof -
  have "(x XOR y) XOR x = y" "y XOR (x XOR y) = x"
    by (rule bit_word_eqI; auto simp: bit_simps)+
  then show ?thesis
    by (simp add: ct_swap_def Let_def)
qed

subsection \<open>The order of words by their bits\<close>

lemma window_smear:
  assumes "0 < pow" "\<And>i. bit (w :: 'a::len word) i \<longleftrightarrow> (\<exists>j. i \<le> j \<and> j < i + pow \<and> bit v j)"
  shows "bit (smear pow w) i \<longleftrightarrow> (\<exists>j\<ge>i. bit (v :: 'a word) j)"
  using assms
proof (induction pow w arbitrary: i rule: smear.induct)
  case (1 pow w)
  show ?case
  proof (cases "LENGTH('a) \<le> pow")
    case True
    then show ?thesis
      using 1(2,3) bit_imp_le_length [of v] by (subst smear.simps) (auto, meson less_le_trans trans_less_add2)
  next
    case False
    have "bit (w OR drop_bit pow w) i \<longleftrightarrow> (\<exists>j. i \<le> j \<and> j < i + (pow + pow) \<and> bit v j)" for i
    proof -
      have "bit (w OR drop_bit pow w) i \<longleftrightarrow> bit w i \<or> bit w (pow + i)"
        by (simp add: bit_or_iff bit_drop_bit_eq)
      also have "\<dots> \<longleftrightarrow> (\<exists>j. i \<le> j \<and> j < i + (pow + pow) \<and> bit v j)"
      proof -
        have "i \<le> j \<and> j < i + (pow + pow) \<longleftrightarrow> i \<le> j \<and> j < i + pow \<or> pow + i \<le> j \<and> j < pow + i + pow" for j
          by auto
        then show ?thesis
          unfolding 1(3) by blast
      qed
      finally show ?thesis .
    qed
    with 1(1) 1(2) False show ?thesis
      by (subst smear.simps) simp
  qed
qed

lemma bit_smear: "bit (smear 1 (v :: 'a::len word)) i \<longleftrightarrow> (\<exists>j\<ge>i. bit v j)"
  by (rule window_smear) (auto simp: less_Suc_eq_le)

lemma highest_bit_less:
  assumes "bit (x :: 'a::len word) j" "\<not> bit y j" "\<And>i. j < i \<Longrightarrow> bit x i = bit y i"
  shows "y < x"
proof -
  let ?X = "unat x" and ?Y = "unat y"
  have b: "bit ?X i = bit x i" "bit ?Y i = bit y i" for i
    by (auto simp: bit_unsigned_iff dest: bit_imp_le_length)
  have "drop_bit (Suc j) ?X = drop_bit (Suc j) ?Y"
    by (rule bit_eqI) (simp add: bit_drop_bit_eq b assms(3))
  then have "push_bit (Suc j) (drop_bit (Suc j) ?X) = push_bit (Suc j) (drop_bit (Suc j) ?Y)"
    by simp
  moreover have "take_bit (Suc j) ?X = 2 ^ j + take_bit j ?X" "take_bit (Suc j) ?Y = take_bit j ?Y"
    using assms(1,2) by (simp_all add: take_bit_Suc_from_most b)
  moreover have "take_bit j ?Y < 2 ^ j"
    by simp
  ultimately have "?Y < ?X"
    using bits_ident [of "Suc j" ?X] bits_ident [of "Suc j" ?Y] by linarith
  then show ?thesis
    by (simp add: word_less_nat_alt)
qed

lemma word_less_iff_bits:
  "y < (x :: 'a::len word) \<longleftrightarrow> (\<exists>j. bit x j \<and> \<not> bit y j \<and> (\<forall>i\<ge>j. \<not> (\<not> bit x i \<and> bit y i)))"
proof -
  have top: "\<exists>j. bit (x :: 'a word) j \<noteq> bit y j \<and> (\<forall>i>j. bit x i = bit y i)" if "x \<noteq> y" for x y
  proof -
    let ?D = "{j. bit x j \<noteq> bit y j}"
    have "?D \<subseteq> {..<LENGTH('a)}"
      by (auto dest: bit_imp_le_length)
    then have fin: "finite ?D"
      by (rule finite_subset) simp
    moreover have "?D \<noteq> {}"
      using that by (auto simp: bit_eq_iff)
    ultimately have "Max ?D \<in> ?D" "\<And>i. i \<in> ?D \<Longrightarrow> i \<le> Max ?D"
      by (rule Max_in, intro Max_ge)
    then show ?thesis
      by (intro exI [of _ "Max ?D"]) (auto simp flip: not_le)
  qed
  show ?thesis
  proof
    assume "y < x"
    then obtain j where j: "bit x j \<noteq> bit y j" "\<forall>i>j. bit x i = bit y i"
      using top [of x y] by auto
    then have "bit x j" "\<not> bit y j"
      using highest_bit_less [of y j x] \<open>y < x\<close> by auto
    with j show "\<exists>j. bit x j \<and> \<not> bit y j \<and> (\<forall>i\<ge>j. \<not> (\<not> bit x i \<and> bit y i))"
      by (metis le_neq_implies_less)
  next
    assume "\<exists>j. bit x j \<and> \<not> bit y j \<and> (\<forall>i\<ge>j. \<not> (\<not> bit x i \<and> bit y i))"
    then obtain k where k: "bit x k" "\<not> bit y k" "\<forall>i\<ge>k. \<not> (\<not> bit x i \<and> bit y i)"
      by blast
    then obtain j where j: "bit x j \<noteq> bit y j" "\<forall>i>j. bit x i = bit y i"
      using top [of x y] by auto
    then have "k \<le> j"
      using k by (metis not_le)
    then have "bit x j" "\<not> bit y j"
      using j(1) k(3) by auto
    with j(2) show "y < x"
      by (intro highest_bit_less) auto
  qed
qed

lemma ct_le_iff: "(ct_le (x :: 'a::len word) y :: 'b::len word) = truth (x \<le> y)"
proof -
  have "bit (smear 1 ((x AND NOT y) AND NOT (smear 1 (NOT x AND y)))) 0 \<longleftrightarrow> y < x"
    unfolding word_less_iff_bits bit_smear bit_and_iff bit_not_iff
    by (auto dest: bit_imp_le_length)
  moreover have "smear 1 ((x AND NOT y) AND NOT (smear 1 (NOT x AND y))) AND 1 = of_bool (bit (smear 1 ((x AND NOT y) AND NOT (smear 1 (NOT x AND y)))) 0)"
    by (simp add: and_one_eq bit_0 odd_iff_mod_2_eq_one even_iff_mod_2_eq_zero)
  ultimately show ?thesis
    by (auto simp: ct_le_def Let_def)
qed

lemma ct_gt_iff: "(ct_gt (x :: 'a::len word) y :: 'b::len word) = truth (y < x)"
  by (auto simp: ct_gt_def ct_le_iff)

lemma ct_ge_iff: "(ct_ge (x :: 'a::len word) y :: 'b::len word) = truth (y \<le> x)"
  by (auto simp: ct_ge_def ct_gt_iff ct_eq_iff)

lemma ct_lt_iff: "(ct_lt (x :: 'a::len word) y :: 'b::len word) = truth (x < y)"
  by (auto simp: ct_lt_def ct_ge_iff)

subsection \<open>Byte arrays\<close>

lemma ct_memcmp_iff:
  assumes "length b = length a"
  shows "ct_memcmp a b = truth (a = b)"
proof -
  have "fold (\<lambda>i flag. flag AND ct_eq (a ! i) (b ! i)) [0..<n] (- 1) = (truth (\<forall>i<n. a ! i = b ! i) :: u32)" for n
    by (induction n) (auto simp: ct_eq_iff less_Suc_eq)
  from this [of "length a"] show ?thesis
    unfolding ct_memcmp_def list_eq_iff_nth_eq by (simp only: assms simp_thms)
qed

lemma ct_cond_memcpy_iff:
  assumes "length s0 = length sink" "length s1 = length sink"
  shows "ct_cond_memcpy (truth p) sink s0 s1 = (if p then s0 else s1)"
proof -
  have "fold (\<lambda>i s. s[i := ct_select (truth p :: u32) (s0 ! i) (s1 ! i)]) [0..<n] sink
      = take n (if p then s0 else s1) @ drop n sink" if "n \<le> length sink" for n
    using that
  proof (induction n)
    case (Suc n)
    then show ?case
      using assms by (auto simp: ct_select_iff list_update_append take_Suc_conv_app_nth Cons_nth_drop_Suc [symmetric])
  qed simp
  from this [of "length sink"] show ?thesis
    using assms by (simp add: ct_cond_memcpy_def)
qed

end
