(* ===== verification/Kem_Pke.thy ===== *)
theory Kem_Pke
  imports Kem_Vector Kem_Sample Kem_Subtle
begin

text \<open>
  The public-key encryption scheme \<open>k_pke\<close> of \<open>tools/ml_kem_512_single.hpp\<close>.  Key generation and encryption sample
  their polynomials and then compute with them; the second halves, \<open>keypair_of\<close> and \<open>cipher_of\<close>, are named so that
  the correctness of decryption can be stated for sampled polynomials.  An array that the source declares with
  braces starts as zeros.  \<^const>\<open>None\<close> is the sampling of the matrix that does not end.
\<close>

section \<open>Lengths\<close>

definition get_pke_public_key_len :: "nat \<Rightarrow> nat" where
  "get_pke_public_key_len k = k * 12 * 32 + 32"

definition get_pke_secret_key_len :: "nat \<Rightarrow> nat" where
  "get_pke_secret_key_len k = k * 12 * 32"

definition get_pke_cipher_text_len :: "nat \<Rightarrow> nat \<Rightarrow> nat \<Rightarrow> nat" where
  "get_pke_cipher_text_len k du dv = 32 * (k * du + dv)"

section \<open>Key generation\<close>

definition zeros :: "nat \<Rightarrow> poly" where
  "zeros k = replicate (k * N) 0"

definition pke_seeds :: "nat \<Rightarrow> bytes \<Rightarrow> bytes" where
  "pke_seeds k d =
     (let g_out = (overwrite 0 d (replicate 64 0))[length d := of_nat k];
          h512 = sha3_512_finalize (sha3_512_absorb (take (length d + 1) g_out) sha3_init)
      in snd (sha3_512_digest g_out h512))"

definition keypair_of :: "nat \<Rightarrow> bytes \<Rightarrow> poly \<Rightarrow> poly \<Rightarrow> poly \<Rightarrow> bytes \<times> bytes" where
  "keypair_of k rho A_prime s e =
     (let s = poly_vec_ntt k s;
          e = poly_vec_ntt k e;
          t_prime = matrix_multiply k k k 1 A_prime s (zeros k);
          t_prime = poly_vec_add_to k e t_prime
      in (poly_vec_encode k 12 t_prime @ rho, poly_vec_encode k 12 s))"

definition pke_keygen :: "nat \<Rightarrow> nat \<Rightarrow> bytes \<Rightarrow> (bytes \<times> bytes) option" where
  "pke_keygen k eta1 d =
     (let g_out = pke_seeds k d;
          rho = subspan 0 32 g_out;
          sigma = subspan 32 32 g_out
      in case generate_matrix k False rho of
           None \<Rightarrow> None
         | Some A_prime \<Rightarrow>
             let s = generate_vector k eta1 sigma 0;
                 e = generate_vector k eta1 sigma (0 + of_nat k)
             in Some (keypair_of k rho A_prime s e))"

section \<open>Encryption\<close>

definition cipher_of :: "nat \<Rightarrow> nat \<Rightarrow> nat \<Rightarrow> poly \<Rightarrow> poly \<Rightarrow> poly \<Rightarrow> poly \<Rightarrow> poly \<Rightarrow> bytes \<Rightarrow> bytes" where
  "cipher_of k du dv t_prime A_prime r e1 e2 msg =
     (let r = poly_vec_ntt k r;
          u = matrix_multiply k k k 1 A_prime r (zeros k);
          u = poly_vec_intt k u;
          u = poly_vec_add_to k e1 u;
          v = matrix_multiply 1 k k 1 t_prime r (zeros 1);
          v = poly_vec_intt 1 v;
          v = poly_vec_add_to 1 e2 v;
          m = decode 1 msg;
          m = poly_decompress 1 m;
          v = poly_vec_add_to 1 m v;
          u = poly_vec_compress k du u;
          v = poly_compress dv v
      in poly_vec_encode k du u @ encode dv v)"

definition pke_encrypt :: "nat \<Rightarrow> nat \<Rightarrow> nat \<Rightarrow> nat \<Rightarrow> nat \<Rightarrow> bytes \<Rightarrow> bytes \<Rightarrow> bytes \<Rightarrow> bytes \<Rightarrow> (bool \<times> bytes) option" where
  "pke_encrypt k eta1 eta2 du dv pubkey msg rcoin ctxt =
     (let pkoff = k * 12 * 32;
          encoded_t_prime_in_pubkey = subspan 0 pkoff pubkey;
          rho = subspan pkoff 32 pubkey;
          t_prime = poly_vec_decode k 12 encoded_t_prime_in_pubkey;
          encoded_tprime = poly_vec_encode k 12 t_prime;
          are_equal = ct_memcmp encoded_t_prime_in_pubkey encoded_tprime
      in if are_equal = 0 then Some (False, ctxt)
         else case generate_matrix k True rho of
                None \<Rightarrow> None
              | Some A_prime \<Rightarrow>
                  let r = generate_vector k eta1 rcoin 0;
                      e1 = generate_vector k eta2 rcoin (0 + of_nat k);
                      e2 = generate_vector 1 eta2 rcoin (0 + of_nat k + of_nat k)
                  in Some (True, cipher_of k du dv t_prime A_prime r e1 e2 msg))"

section \<open>Decryption\<close>

definition pke_decrypt :: "nat \<Rightarrow> nat \<Rightarrow> nat \<Rightarrow> bytes \<Rightarrow> bytes \<Rightarrow> bytes" where
  "pke_decrypt k du dv seckey ctxt =
     (let ctxt_offset = k * du * 32;
          polyvec_u_in_ctxt = subspan 0 ctxt_offset ctxt;
          poly_v_in_ctxt = subspan ctxt_offset (dv * 32) ctxt;
          u = poly_vec_decode k du polyvec_u_in_ctxt;
          u = poly_vec_decompress k du u;
          v = decode dv poly_v_in_ctxt;
          v = poly_decompress dv v;
          s_prime = poly_vec_decode k 12 seckey;
          u = poly_vec_ntt k u;
          t = matrix_multiply 1 k k 1 s_prime u (zeros 1);
          t = poly_vec_intt 1 t;
          v = poly_vec_sub_from 1 t v;
          v = poly_compress 1 v
      in encode 1 v)"

section \<open>What encryption and decryption compute in the ring\<close>

definition requantised :: "nat \<Rightarrow> poly \<Rightarrow> poly" where
  "requantised d p = map (decompress d) (map (compress d) p)"

definition public_t :: "nat \<Rightarrow> poly \<Rightarrow> poly \<Rightarrow> poly \<Rightarrow> poly" where
  "public_t k A s e = poly_vec_add_to k (poly_vec_ntt k e) (matrix_multiply k k k 1 A (poly_vec_ntt k s) (zeros k))"

definition plain_u :: "nat \<Rightarrow> poly \<Rightarrow> poly \<Rightarrow> poly \<Rightarrow> poly" where
  "plain_u k A r e1 = poly_vec_add_to k e1 (poly_vec_intt k (matrix_multiply k k k 1 A (poly_vec_ntt k r) (zeros k)))"

definition message_poly :: "bytes \<Rightarrow> poly" where
  "message_poly msg = map (decompress 1) (decode 1 msg)"

definition plain_v :: "nat \<Rightarrow> poly \<Rightarrow> poly \<Rightarrow> poly \<Rightarrow> bytes \<Rightarrow> poly" where
  "plain_v k t r e2 msg =
     poly_vec_add_to 1 (message_poly msg)
       (poly_vec_add_to 1 e2 (poly_vec_intt 1 (matrix_multiply 1 k k 1 t (poly_vec_ntt k r) (zeros 1))))"

lemma zeros_eq: "zeros k = replicate (k * 256) 0"
  by (simp add: zeros_def N_val)

lemma single_ring: "wf_poly p \<Longrightarrow> rv p 0 = rq p"
  by (simp add: rv_def cell_single)

lemma public_t_ring:
  assumes "wf_vec (k * k) A" "wf_vec k s" "wf_vec k e"
  shows "wf_vec k (public_t k A s e)"
    "i < k \<Longrightarrow> rv (public_t k A s e) i = (\<Sum>j<k. rv A (i * k + j) * ring_ntt (rv s j)) + ring_ntt (rv e i)"
proof -
  note s = poly_vec_ntt_ring(1,2) [OF assms(2)] and e = poly_vec_ntt_ring(1,2) [OF assms(3)]
  note p = matrix_vector_ring [OF assms(1) s(1)]
  show "wf_vec k (public_t k A s e)"
    unfolding public_t_def zeros_eq by (rule poly_vec_sum_ring(1) [OF e(1) p(1)])
  show "rv (public_t k A s e) i = (\<Sum>j<k. rv A (i * k + j) * ring_ntt (rv s j)) + ring_ntt (rv e i)" if "i < k"
    unfolding public_t_def zeros_eq poly_vec_sum_ring(2) [OF e(1) p(1) that] p(2) [OF that] e(2) [OF that] by (simp add: s(2))
qed

lemma plain_u_ring:
  assumes "wf_vec (k * k) A" "wf_vec k r" "wf_vec k e1"
  shows "wf_vec k (plain_u k A r e1)"
    "i < k \<Longrightarrow> rv (plain_u k A r e1) i = ring_intt (\<Sum>j<k. rv A (i * k + j) * ring_ntt (rv r j)) + rv e1 i"
proof -
  note r = poly_vec_ntt_ring(1,2) [OF assms(2)]
  note p = matrix_vector_ring [OF assms(1) r(1)]
  note q = poly_vec_ntt_ring(3,4) [OF p(1)]
  show "wf_vec k (plain_u k A r e1)"
    unfolding plain_u_def zeros_eq by (rule poly_vec_sum_ring(1) [OF assms(3) q(1)])
  show "rv (plain_u k A r e1) i = ring_intt (\<Sum>j<k. rv A (i * k + j) * ring_ntt (rv r j)) + rv e1 i" if "i < k"
    unfolding plain_u_def zeros_eq poly_vec_sum_ring(2) [OF assms(3) q(1) that] q(2) [OF that] p(2) [OF that] by (simp add: r(2))
qed

text \<open>The inner product of two vectors, back in the coefficient domain.\<close>

lemma inner_product_ring:
  assumes "wf_vec k t" "wf_vec k w"
  defines "d \<equiv> poly_vec_intt 1 (matrix_multiply 1 k k 1 t w (zeros 1))"
  shows "wf_poly d" "rq d = ring_intt (\<Sum>j<k. rv t j * rv w j)"
proof -
  have t: "wf_vec (1 * k) t"
    using assms(1) by simp
  note p = matrix_vector_ring [OF t assms(2)]
  note q = poly_vec_ntt_ring(3,4) [OF p(1)]
  show d: "wf_poly d"
    unfolding d_def zeros_eq wf_vec_1 [symmetric] by (rule q(1))
  have "rv d 0 = ring_intt (\<Sum>j<k. rv t j * rv w j)"
    unfolding d_def zeros_eq using q(2) [of 0] p(2) [of 0] by simp
  then show "rq d = ring_intt (\<Sum>j<k. rv t j * rv w j)"
    using single_ring [OF d] by simp
qed

lemma add_single:
  assumes "wf_poly p" "wf_poly q"
  shows "wf_poly (poly_vec_add_to 1 p q)" "rq (poly_vec_add_to 1 p q) = rq q + rq p"
    "wf_poly (poly_vec_sub_from 1 p q)" "rq (poly_vec_sub_from 1 p q) = rq q - rq p"
proof -
  note w = assms [folded wf_vec_1]
  note f = poly_vec_sum_ring [OF w]
  show s: "wf_poly (poly_vec_add_to 1 p q)" "wf_poly (poly_vec_sub_from 1 p q)"
    using f(1,3) by (simp_all only: wf_vec_1)
  show "rq (poly_vec_add_to 1 p q) = rq q + rq p" "rq (poly_vec_sub_from 1 p q) = rq q - rq p"
    using f(2) [of 0] f(4) [of 0] single_ring [OF s(1)] single_ring [OF s(2)] by (simp_all add: single_ring assms)
qed

lemma check_l_1 [simp]: "check_l (Suc 0)" and check_l_12 [simp]: "check_l 12"
  by (simp_all add: check_l_def)

lemma decode_bit: "j < 256 \<Longrightarrow> unat (decode (Suc 0) msg ! j) < 2"
  using decode_below [of 1 j msg] by (simp add: check_l_def)

lemma wf_message_poly [simp]: "wf_poly (message_poly msg)"
  using wf_decode [of 1 msg] unat_decompress(2) [of 1] decode_bit [of _ msg]
  by (intro wf_polyI) (auto simp: message_poly_def check_l_def)

lemma plain_v_ring:
  assumes "wf_vec k t" "wf_vec k r" "wf_poly e2"
  shows "wf_poly (plain_v k t r e2 msg)"
    "rq (plain_v k t r e2 msg) = ring_intt (\<Sum>j<k. rv t j * ring_ntt (rv r j)) + rq e2 + rq (message_poly msg)"
proof -
  note r = poly_vec_ntt_ring(1,2) [OF assms(2)]
  note p = inner_product_ring [OF assms(1) r(1)]
  note a = add_single [OF assms(3) p(1)]
  note b = add_single [OF wf_message_poly [of msg] a(1)]
  show "wf_poly (plain_v k t r e2 msg)"
    unfolding plain_v_def by (rule b(1))
  show "rq (plain_v k t r e2 msg) = ring_intt (\<Sum>j<k. rv t j * ring_ntt (rv r j)) + rq e2 + rq (message_poly msg)"
    unfolding plain_v_def b(2) a(2) p(2) by (simp add: r(2))
qed

section \<open>Rounding back the message\<close>

lemma compress_noisy_bit:
  assumes "canon x" "unat b < 2" "zv x = zv (decompress 1 b) + zv n" "unat n \<le> 831 \<or> 2498 \<le> unat n" "canon n"
  shows "compress 1 x = b"
proof -
  have d: "unat (decompress 1 b) = 1665 * unat b"
    using assms(2) unat_decompress(1) [of 1 b] by (auto simp: less_2_cases_iff)
  have "of_nat (unat x) = (of_nat (1665 * unat b + unat n) :: 3329)"
    using assms(3) unfolding zv_def d by (simp only: of_nat_add)
  then have x: "unat x = (1665 * unat b + unat n) mod 3329"
    using assms(1) of_nat_ring_eq [of "unat x" "1665 * unat b + unat n"] by (simp add: canon_iff)
  have n: "unat n < 3329"
    using assms(5) by (simp add: canon_iff)
  have "unat (compress 1 x) = (2 * unat x + 1664) div 3329 mod 2"
    using unat_compress [of 1 x] assms(1) by (simp add: round_div_odd)
  also have "\<dots> = unat b"
  proof -
    consider "unat b = 0" "unat n \<le> 831" | "unat b = 0" "2498 \<le> unat n" | "unat b = 1" "unat n \<le> 831" | "unat b = 1" "2498 \<le> unat n"
      using assms(2,4) by linarith
    then show ?thesis
    proof cases
      case 1
      with x n show ?thesis
        by simp
    next
      case 2
      then have "(2 * unat x + 1664) div 3329 = 2"
        using x n by (intro div_nat_eqI) simp_all
      with 2 show ?thesis
        by simp
    next
      case 3
      then have "(2 * unat x + 1664) div 3329 = 1"
        using x n by (intro div_nat_eqI) simp_all
      with 3 show ?thesis
        by simp
    next
      case 4
      then have "unat x = unat n - 1664"
        using x n by (simp add: mod_if)
      with 4 have "(2 * unat x + 1664) div 3329 = 1"
        using n by (intro div_nat_eqI) simp_all
      with 4 show ?thesis
        by simp
    qed
  qed
  finally show ?thesis
    by (simp add: word_unat_eq_iff)
qed

text \<open>Noise below a quarter of the modulus; the bound is one less than for exact halves because 1665 is rounded up.\<close>

definition small_noise :: "poly \<Rightarrow> bool" where
  "small_noise p \<longleftrightarrow> list_all (\<lambda>x. unat x \<le> 831 \<or> 2498 \<le> unat x) p"

lemma recover_message:
  assumes "wf_poly w" "wf_poly n" "small_noise n" "rq w = rq (message_poly msg) + rq n" "length msg = 32"
  shows "encode 1 (poly_compress 1 w) = msg"
proof -
  have w: "w = padd (message_poly msg) n"
    using assms(1,2,4) rq_inject [OF assms(1) wf_padd [OF wf_message_poly [of msg] assms(2)]]
      rq_ops(1) [OF wf_message_poly [of msg] assms(2)] by simp
  have len: "length (decode 1 msg) = 256"
    using length_decode [of 1 msg] by simp
  have "poly_compress 1 w = decode 1 msg"
  proof (rule nth_equalityI)
    show "length (poly_compress 1 w) = length (decode 1 msg)"
      using assms(1) len by (simp add: poly_compress_map)
    fix j
    assume "j < length (poly_compress 1 w)"
    then have j: "j < 256"
      using assms(1) by (simp add: poly_compress_map)
    have "zv (w ! j) = zv (decompress 1 (decode 1 msg ! j)) + zv (n ! j)"
      using j assms(2) len unfolding w by (simp add: zv_padd) (simp add: message_poly_def)
    then have "compress 1 (w ! j) = decode 1 msg ! j"
      using assms(2,3) j decode_bit [OF j, of msg]
      by (intro compress_noisy_bit [of _ _ "n ! j"]) (simp_all add: wf_poly_nth [OF assms(1)] wf_poly_nth small_noise_def list_all_length)
    with j assms(1) show "poly_compress 1 w ! j = decode 1 msg ! j"
      by (simp add: poly_compress_map)
  qed
  with assms(5) show ?thesis
    using encode_decode [of 1 msg] by simp
qed

section \<open>The noise of a cipher text\<close>

definition psum :: "nat \<Rightarrow> (nat \<Rightarrow> poly) \<Rightarrow> poly" where
  "psum n F = fold (\<lambda>k x. padd x (F k)) [0..<n] pzero"

definition pke_noise :: "nat \<Rightarrow> nat \<Rightarrow> nat \<Rightarrow> poly \<Rightarrow> poly \<Rightarrow> poly \<Rightarrow> poly \<Rightarrow> poly \<Rightarrow> poly \<Rightarrow> poly \<Rightarrow> poly" where
  "pke_noise k du dv s e r e1 e2 u v =
     padd (padd (psum k (\<lambda>j. schoolbook (cell e j) (cell r j))) e2)
       (psub (psub (requantised dv v) v)
          (psum k (\<lambda>j. schoolbook (cell s j) (padd (cell e1 j) (psub (requantised du (cell u j)) (cell u j))))))"

lemmas psum_ring = wf_accumulated [folded psum_def]

lemma rq_schoolbook:
  assumes "wf_poly f" "wf_poly g"
  shows "rq (schoolbook f g) = ring_intt (ring_ntt (rq f) * ring_ntt (rq g))"
  using assms unfolding ntt_product [OF assms, symmetric] by (simp add: rq_transforms rq_ops)

lemma ring_intt_sum: "ring_intt (\<Sum>i<n. f i) = (\<Sum>i<n. ring_intt (f i))" for n :: nat
  by (induction n) (simp_all add: ring_intt_add)

lemma compressed_wf:
  assumes "0 < d" "d < 12" "wf_poly p"
  shows "wf_poly (map (compress d) p)" "\<And>x. x \<in> set (map (compress d) p) \<Longrightarrow> unat x < 2 ^ d" "wf_poly (requantised d p)"
proof -
  have c: "unat (compress d x) < 2 ^ d" if "x \<in> set p" for x
    using that assms compress_canon [of d x] by (auto simp: wf_poly_def list_all_iff)
  then show "\<And>x. x \<in> set (map (compress d) p) \<Longrightarrow> unat x < 2 ^ d"
    by auto
  have "(2 :: nat) ^ d \<le> 2 ^ 11"
    using assms(2) by (intro power_increasing) simp_all
  with c have "canon (compress d x)" if "x \<in> set p" for x
    using c [OF that] by (simp add: canon_iff)
  with assms(3) show "wf_poly (map (compress d) p)"
    by (auto simp: wf_poly_def list_all_iff)
  show "wf_poly (requantised d p)"
    using assms(2,3) c by (auto simp: wf_poly_def list_all_iff requantised_def unat_decompress(2))
qed

lemma transported_u:
  assumes "check_l d" "d < 12" "wf_vec k u"
  defines "u' \<equiv> poly_vec_decompress k d (poly_vec_decode k d (poly_vec_encode k d (poly_vec_compress k d u)))"
  shows "wf_vec k u'" "i < k \<Longrightarrow> cell u' i = requantised d (cell u i)"
proof -
  have d: "0 < d"
    using assms(1) by (auto simp: check_l_def)
  note c = compressed_wf [OF d assms(2)]
  note w = wf_cell [OF assms(3)]
  define z where "z = poly_vec_compress k d u"
  have z: "z = concat (map (\<lambda>i. map (compress d) (cell u i)) [0..<k])"
    unfolding z_def using poly_vec_maps(1) [OF wf_vec_length [OF assms(3)]] .
  have wz: "wf_vec k z"
    unfolding z using c(1) w by (intro wf_concat) simp
  have cz: "cell z i = map (compress d) (cell u i)" if "i < k" for i
    unfolding z using that w by (subst cell_concat) simp_all
  have "poly_vec_decode k d (poly_vec_encode k d z) = z"
    using assms(1) wz cz c(2) w by (intro poly_vec_decode_encode) auto
  then have u': "u' = concat (map (\<lambda>i. map (decompress d) (cell z i)) [0..<k])"
    unfolding u'_def z_def [symmetric] using poly_vec_maps(2) [OF wf_vec_length [OF wz]] by simp
  have eq: "u' = concat (map (\<lambda>i. requantised d (cell u i)) [0..<k])"
    unfolding u' using cz by (auto simp: requantised_def intro!: arg_cong [where f = concat])
  show "wf_vec k u'"
    unfolding eq using c(3) w by (intro wf_concat) simp
  show "i < k \<Longrightarrow> cell u' i = requantised d (cell u i)"
    unfolding eq using w by (subst cell_concat) (simp_all add: requantised_def)
qed

lemma transported_v:
  assumes "check_l d" "d < 12" "wf_poly v"
  shows "poly_decompress d (decode d (encode d (poly_compress d v))) = requantised d v"
proof -
  have d: "0 < d"
    using assms(1) by (auto simp: check_l_def)
  note c = compressed_wf [OF d assms(2,3)]
  have "decode d (encode d (map (compress d) v)) = map (compress d) v"
    using c(1,2) assms(1) by (intro decode_encode) (auto simp: wf_poly_def)
  then show ?thesis
    by (simp add: poly_compress_map poly_decompress_map requantised_def)
qed

text \<open>The matrix cancels: what remains are the products of the secret and error polynomials.\<close>

lemma noise_algebra:
  fixes A :: "nat \<Rightarrow> nat \<Rightarrow> rq"
  assumes t: "\<And>j. j < k \<Longrightarrow> t j = (\<Sum>l<k. A j l * ring_ntt (s l)) + ring_ntt (e j)"
    and u: "\<And>l. l < k \<Longrightarrow> u l = ring_intt (\<Sum>j<k. A j l * ring_ntt (r j)) + e1 l"
  shows "ring_intt (\<Sum>j<k. t j * ring_ntt (r j)) - ring_intt (\<Sum>l<k. ring_ntt (s l) * ring_ntt (u l + cu l)) =
    (\<Sum>j<k. ring_intt (ring_ntt (e j) * ring_ntt (r j))) - (\<Sum>l<k. ring_intt (ring_ntt (s l) * ring_ntt (e1 l + cu l)))"
proof -
  have 1: "(\<Sum>j<k. t j * ring_ntt (r j)) =
      (\<Sum>j<k. \<Sum>l<k. A j l * ring_ntt (s l) * ring_ntt (r j)) + (\<Sum>j<k. ring_ntt (e j) * ring_ntt (r j))"
    by (simp add: t distrib_right sum.distrib sum_distrib_right)
  have "(\<Sum>l<k. ring_ntt (s l) * ring_ntt (u l + cu l)) =
      (\<Sum>l<k. \<Sum>j<k. A j l * ring_ntt (s l) * ring_ntt (r j)) + (\<Sum>l<k. ring_ntt (s l) * ring_ntt (e1 l + cu l))"
    by (simp add: u ring_ntt_add distrib_left sum.distrib sum_distrib_left mult_ac)
  also have "(\<Sum>l<k. \<Sum>j<k. A j l * ring_ntt (s l) * ring_ntt (r j)) = (\<Sum>j<k. \<Sum>l<k. A j l * ring_ntt (s l) * ring_ntt (r j))"
    by (rule sum.swap)
  finally have 2: "(\<Sum>l<k. ring_ntt (s l) * ring_ntt (u l + cu l)) =
      (\<Sum>j<k. \<Sum>l<k. A j l * ring_ntt (s l) * ring_ntt (r j)) + (\<Sum>l<k. ring_ntt (s l) * ring_ntt (e1 l + cu l))" .
  show ?thesis
    unfolding 1 2 by (simp add: ring_intt_add ring_intt_sum)
qed

definition transposed_of :: "nat \<Rightarrow> poly \<Rightarrow> poly \<Rightarrow> bool" where
  "transposed_of k B A \<longleftrightarrow> (\<forall>i<k. \<forall>j<k. cell B (i * k + j) = cell A (j * k + i))"

lemma decrypt_params:
  assumes "check_decrypt_params k du dv"
  shows "check_l du" "du < 12" "0 < du" "check_l dv" "dv < 12" "0 < dv"
  using assms by (auto simp: check_decrypt_params_def check_l_def)

lemma pke_decrypt_cipher:
  assumes par: "check_decrypt_params k du dv" and wf: "wf_vec k s" "wf_vec k (plain_u k B r e1)" "wf_poly (plain_v k t r e2 msg)"
  defines "u' \<equiv> poly_vec_decompress k du (poly_vec_decode k du (poly_vec_encode k du (poly_vec_compress k du (plain_u k B r e1))))"
  shows "pke_decrypt k du dv (poly_vec_encode k 12 (poly_vec_ntt k s)) (cipher_of k du dv t B r e1 e2 msg) =
    encode 1 (poly_compress 1 (poly_vec_sub_from 1
      (poly_vec_intt 1 (matrix_multiply 1 k k 1 (poly_vec_ntt k s) (poly_vec_ntt k u') (zeros 1)))
      (requantised dv (plain_v k t r e2 msg))))"
proof -
  define c where "c = poly_vec_encode k du (poly_vec_compress k du (plain_u k B r e1))"
  define d where "d = encode dv (poly_compress dv (plain_v k t r e2 msg))"
  have ct: "cipher_of k du dv t B r e1 e2 msg = c @ d"
    by (simp add: cipher_of_def Let_def c_def d_def plain_u_def plain_v_def message_poly_def poly_decompress_map)
  have len: "length c = k * du * 32" "length d = dv * 32"
    using decrypt_params [OF par] by (simp_all add: c_def d_def length_poly_vec_encode length_encode)
  note sn = poly_vec_ntt_ring(1) [OF wf(1)]
  have "unat x < 2 ^ 12" if "i < k" "x \<in> set (cell (poly_vec_ntt k s) i)" for i x
    using wf_cell [OF sn that(1)] that(2) by (force simp: wf_poly_def list_all_iff canon_iff)
  then have sk: "poly_vec_decode k 12 (poly_vec_encode k 12 (poly_vec_ntt k s)) = poly_vec_ntt k s"
    using sn by (intro poly_vec_decode_encode) simp_all
  have dv: "poly_decompress dv (decode dv d) = requantised dv (plain_v k t r e2 msg)"
    unfolding d_def using decrypt_params [OF par] wf(3) by (intro transported_v) simp_all
  have parts: "subspan 0 (k * du * 32) (c @ d) = c" "subspan (k * du * 32) (dv * 32) (c @ d) = d"
    using len by (simp_all add: subspan_def)
  show ?thesis
    unfolding pke_decrypt_def Let_def ct parts sk dv u'_def c_def [symmetric] ..
qed

lemma pke_noise_ring:
  assumes p: "0 < du" "du < 12" "0 < dv" "dv < 12"
    and wf: "wf_vec k s" "wf_vec k e" "wf_vec k r" "wf_vec k e1" "wf_poly e2" "wf_vec k u" "wf_poly v"
  shows "wf_poly (pke_noise k du dv s e r e1 e2 u v)"
    "rq (pke_noise k du dv s e r e1 e2 u v) =
      (\<Sum>j<k. ring_intt (ring_ntt (rv e j) * ring_ntt (rv r j))) + rq e2 + (rq (requantised dv v) - rq v -
        (\<Sum>j<k. ring_intt (ring_ntt (rv s j) * ring_ntt (rv e1 j + (rq (requantised du (cell u j)) - rv u j)))))"
proof -
  have i: "wf_poly (schoolbook (cell e j) (cell r j))"
    "wf_poly (schoolbook (cell s j) (padd (cell e1 j) (psub (requantised du (cell u j)) (cell u j))))"
    "rq (schoolbook (cell e j) (cell r j)) = ring_intt (ring_ntt (rv e j) * ring_ntt (rv r j))"
    "rq (schoolbook (cell s j) (padd (cell e1 j) (psub (requantised du (cell u j)) (cell u j)))) =
       ring_intt (ring_ntt (rv s j) * ring_ntt (rv e1 j + (rq (requantised du (cell u j)) - rv u j)))" if "j < k" for j
    using wf_cell [OF wf(1) that] wf_cell [OF wf(2) that] wf_cell [OF wf(3) that] wf_cell [OF wf(4) that] wf_cell [OF wf(6) that]
      compressed_wf(3) [OF p(1,2) wf_cell [OF wf(6) that]]
    by (simp_all add: rq_schoolbook rq_ops rv_def)
  note v = compressed_wf(3) [OF p(3,4) wf(7)]
  note 1 = psum_ring [of k "\<lambda>j. schoolbook (cell e j) (cell r j)", OF i(1)]
  note 2 = psum_ring [of k "\<lambda>j. schoolbook (cell s j) (padd (cell e1 j) (psub (requantised du (cell u j)) (cell u j)))", OF i(2)]
  show "wf_poly (pke_noise k du dv s e r e1 e2 u v)"
    unfolding pke_noise_def using 1 2 v wf(5,7) by simp
  show "rq (pke_noise k du dv s e r e1 e2 u v) =
      (\<Sum>j<k. ring_intt (ring_ntt (rv e j) * ring_ntt (rv r j))) + rq e2 + (rq (requantised dv v) - rq v -
        (\<Sum>j<k. ring_intt (ring_ntt (rv s j) * ring_ntt (rv e1 j + (rq (requantised du (cell u j)) - rv u j)))))"
    unfolding pke_noise_def using 1 2 v wf(5,7) i(3,4) by (simp add: rq_ops)
qed

lemma decrypt_noise:
  assumes par: "check_decrypt_params k du dv"
    and wf: "wf_vec (k * k) A" "wf_vec (k * k) B" "wf_vec k s" "wf_vec k e" "wf_vec k r" "wf_vec k e1" "wf_poly e2"
    and tr: "transposed_of k B A" and msg: "length msg = 32"
  defines "t \<equiv> public_t k A s e"
  defines "u \<equiv> plain_u k B r e1" and "v \<equiv> plain_v k t r e2 msg"
  assumes small: "small_noise (pke_noise k du dv s e r e1 e2 u v)"
  shows "pke_decrypt k du dv (poly_vec_encode k 12 (poly_vec_ntt k s)) (cipher_of k du dv t B r e1 e2 msg) = msg"
proof -
  note t = public_t_ring [OF wf(1,3,4), folded t_def]
  note u = plain_u_ring [OF wf(2,5,6), folded u_def]
  note v = plain_v_ring [OF t(1) wf(5,7), of msg, folded v_def]
  note p = decrypt_params [OF par]
  define u' where "u' = poly_vec_decompress k du (poly_vec_decode k du (poly_vec_encode k du (poly_vec_compress k du u)))"
  note u' = transported_u [OF p(1,2) u(1), folded u'_def]
  define z where "z = poly_vec_intt 1 (matrix_multiply 1 k k 1 (poly_vec_ntt k s) (poly_vec_ntt k u') (zeros 1))"
  note sn = poly_vec_ntt_ring(1,2) [OF wf(3)] and un = poly_vec_ntt_ring(1,2) [OF u'(1)]
  note z = inner_product_ring [OF sn(1) un(1), folded z_def]
  define w where "w = poly_vec_sub_from 1 z (requantised dv v)"
  note w = add_single(3,4) [OF z(1) compressed_wf(3) [OF p(6,5) v(1)], folded w_def]
  note n = pke_noise_ring [OF p(3,2,6,5) wf(3-7) u(1) v(1)]
  have ru': "rv u' l = rv u l + (rq (requantised du (cell u l)) - rv u l)" if "l < k" for l
    using u'(2) [OF that] by (simp add: rv_def)
  have u_swap: "rv u l = ring_intt (\<Sum>j<k. rv A (j * k + l) * ring_ntt (rv r j)) + rv e1 l" if "l < k" for l
    using u(2) [OF that] tr that by (simp add: rv_def transposed_of_def)
  have "rq w = rq (requantised dv v) -
      ring_intt (\<Sum>l<k. ring_ntt (rv s l) * ring_ntt (rv u l + (rq (requantised du (cell u l)) - rv u l)))"
    unfolding w(2) z(2) by (simp add: sn(2) un(2) ru')
  also have "\<dots> = rq (message_poly msg) + rq (pke_noise k du dv s e r e1 e2 u v)"
    using noise_algebra [of k "rv t" "\<lambda>j l. rv A (j * k + l)" "rv s" "rv e" "rv u" "rv r" "rv e1"
        "\<lambda>l. rq (requantised du (cell u l)) - rv u l", OF t(2) u_swap]
    unfolding n(2) v(2) by (simp add: algebra_simps)
  finally have "encode 1 (poly_compress 1 w) = msg"
    by (rule recover_message [OF w(1) n(1) small _ msg])
  then show ?thesis
    using pke_decrypt_cipher [OF par wf(3) u(1) [unfolded u_def] v(1) [unfolded v_def]]
    by (simp add: w_def z_def u'_def u_def v_def)
qed

lemma small_noiseI:
  assumes "wf_poly n" "\<And>j. j < 256 \<Longrightarrow> \<exists>e :: int. \<bar>e\<bar> \<le> 831 \<and> zv (n ! j) = of_int e"
  shows "small_noise n"
proof -
  have key: "unat x \<le> 831 \<or> 2498 \<le> unat x" if x: "canon x" "zv x = of_int e" "\<bar>e\<bar> \<le> 831" for x e
  proof -
    have "(3329 :: 3329) = 0"
      by simp
    then have "zv x = of_int (e + 3329)"
      using x(2) by simp
    also have "\<dots> = of_nat (nat (e + 3329))"
      using x(3) by simp
    finally have "unat x = nat (e + 3329) mod 3329"
      using x(1) of_nat_ring_eq [of "unat x" "nat (e + 3329)"] by (simp add: zv_def canon_iff)
    moreover have "nat (e + 3329) mod 3329 = (if e < 0 then nat (e + 3329) else nat e)"
      using x(3) by (simp add: mod_if nat_add_distrib)
    ultimately show ?thesis
      using x(3) by (cases "e < 0") (simp_all, linarith+)
  qed
  show ?thesis
    unfolding small_noise_def list_all_length
  proof (intro allI impI)
    fix j
    assume "j < length n"
    then have j: "j < 256"
      using assms(1) by simp
    obtain e where "\<bar>e\<bar> \<le> 831" "zv (n ! j) = of_int e"
      using assms(2) [OF j] by auto
    then show "unat (n ! j) \<le> 831 \<or> 2498 \<le> unat (n ! j)"
      using key [OF wf_poly_nth [OF assms(1) j]] by simp
  qed
qed

section \<open>The modulus check\<close>

definition valid_encoding :: "nat \<Rightarrow> bytes \<Rightarrow> bool" where
  "valid_encoding k a \<longleftrightarrow> (\<forall>i<k. \<forall>j<256. coeff_12 (subspan (i * 384) 384 a) j < 3329)"

lemma encrypt_check:
  assumes "length pubkey = get_pke_public_key_len k"
  shows "ct_memcmp (subspan 0 (k * 12 * 32) pubkey) (poly_vec_encode k 12 (poly_vec_decode k 12 (subspan 0 (k * 12 * 32) pubkey))) = 0
    \<longleftrightarrow> \<not> valid_encoding k pubkey"
proof -
  define a where "a = subspan 0 (k * 12 * 32) pubkey"
  have a: "length a = k * 384"
    using assms by (simp add: a_def subspan_def get_pke_public_key_len_def)
  have blocks: "subspan (i * 384) 384 a = subspan (i * 384) 384 pubkey" if "i < k" for i
    using block_bound [OF that, of 384] by (simp add: a_def subspan_def drop_take)
  have "ct_memcmp a (poly_vec_encode k 12 (poly_vec_decode k 12 a)) = truth (a = poly_vec_encode k 12 (poly_vec_decode k 12 a))"
    by (rule ct_memcmp_iff) (simp add: length_poly_vec_encode a)
  then show ?thesis
    using poly_vec_modulus_check [OF a] blocks unfolding a_def [symmetric] valid_encoding_def by auto
qed

lemma encrypt_cases:
  assumes "length pubkey = get_pke_public_key_len k"
  shows "\<not> valid_encoding k pubkey \<Longrightarrow> pke_encrypt k eta1 eta2 du dv pubkey msg rcoin ctxt = Some (False, ctxt)"
    "valid_encoding k pubkey \<Longrightarrow> pke_encrypt k eta1 eta2 du dv pubkey msg rcoin ctxt =
       map_option (\<lambda>A. (True, cipher_of k du dv (poly_vec_decode k 12 (subspan 0 (k * 12 * 32) pubkey)) A
         (generate_vector k eta1 rcoin 0) (generate_vector k eta2 rcoin (of_nat k))
         (generate_vector 1 eta2 rcoin (of_nat k + of_nat k)) msg)) (generate_matrix k True (subspan (k * 12 * 32) 32 pubkey))"
  using encrypt_check [OF assms]
  by (simp_all add: pke_encrypt_def Let_def split: option.split)

text \<open>A public key made from sampled polynomials passes the check and is read back as it was made.\<close>

lemma keypair_public:
  assumes "wf_vec (k * k) A" "wf_vec k s" "wf_vec k e"
  shows "poly_vec_decode k 12 (subspan 0 (k * 12 * 32) (fst (keypair_of k rho A s e))) = public_t k A s e"
    "subspan (k * 12 * 32) 32 (fst (keypair_of k rho A s e)) = take 32 rho"
    "snd (keypair_of k rho A s e) = poly_vec_encode k 12 (poly_vec_ntt k s)"
    "length (fst (keypair_of k rho A s e)) = k * 384 + length rho" "length (snd (keypair_of k rho A s e)) = k * 384"
proof -
  note t = public_t_ring(1) [OF assms]
  have pk: "fst (keypair_of k rho A s e) = poly_vec_encode k 12 (public_t k A s e) @ rho"
    by (simp add: keypair_of_def public_t_def Let_def)
  have len: "length (poly_vec_encode k 12 v) = k * 384" for v
    by (simp add: length_poly_vec_encode)
  have "unat x < 2 ^ 12" if "i < k" "x \<in> set (cell (public_t k A s e) i)" for i x
    using wf_cell [OF t that(1)] that(2) by (force simp: wf_poly_def list_all_iff canon_iff)
  then have "poly_vec_decode k 12 (poly_vec_encode k 12 (public_t k A s e)) = public_t k A s e"
    using t by (intro poly_vec_decode_encode) simp_all
  then show "poly_vec_decode k 12 (subspan 0 (k * 12 * 32) (fst (keypair_of k rho A s e))) = public_t k A s e"
    by (simp add: pk subspan_def len)
  show "subspan (k * 12 * 32) 32 (fst (keypair_of k rho A s e)) = take 32 rho"
    by (simp add: pk subspan_def len)
  show "snd (keypair_of k rho A s e) = poly_vec_encode k 12 (poly_vec_ntt k s)"
    by (simp add: keypair_of_def Let_def)
  then show "length (snd (keypair_of k rho A s e)) = k * 384"
    by (simp add: len)
  show "length (fst (keypair_of k rho A s e)) = k * 384 + length rho"
    by (simp add: pk len)
qed

lemma keypair_valid:
  assumes "wf_vec (k * k) A" "wf_vec k s" "wf_vec k e" "length rho = 32"
  shows "valid_encoding k (fst (keypair_of k rho A s e))"
proof -
  let ?pk = "fst (keypair_of k rho A s e)"
  define a where "a = subspan 0 (k * 12 * 32) ?pk"
  have a: "length a = k * 384"
    using keypair_public(4) [OF assms(1-3), of rho] by (simp add: a_def subspan_def)
  have "?pk = poly_vec_encode k 12 (public_t k A s e) @ rho"
    by (simp add: keypair_of_def public_t_def Let_def)
  then have "poly_vec_encode k 12 (poly_vec_decode k 12 a) = a"
    using keypair_public(1) [OF assms(1-3), of rho] by (simp add: a_def) (simp add: subspan_def length_poly_vec_encode)
  moreover have "subspan (i * 384) 384 a = subspan (i * 384) 384 ?pk" if "i < k" for i
    using block_bound [OF that, of 384] by (simp add: a_def subspan_def drop_take)
  ultimately show ?thesis
    using poly_vec_modulus_check [OF a] by (simp add: valid_encoding_def)
qed

section \<open>Properties\<close>

text \<open>
  C12: decryption recovers the message: for a key pair made from polynomials \<open>s\<close>, \<open>e\<close> and the matrix, and a cipher
  text made with the transposed matrix from the public key's bytes, whatever the random polynomials, if the noise
  \<open>\<Sum> e r + e\<^sub>2 + c\<^sub>v - \<Sum> s (e\<^sub>1 + c\<^sub>u)\<close> (schoolbook products, \<open>c\<close> the rounding errors of the compression) stays below a
  quarter of the modulus, \<open>decrypt\<close> returns the bytes that were encrypted.\<close>

theorem pke_decrypts:
  assumes "check_decrypt_params k du dv" "wf_vec (k * k) A" "wf_vec (k * k) B" "wf_vec k s" "wf_vec k e" "wf_vec k r"
    "wf_vec k e1" "wf_poly e2" "transposed_of k B A" "length msg = 32"
    "small_noise (pke_noise k du dv s e r e1 e2 (plain_u k B r e1) (plain_v k (public_t k A s e) r e2 msg))"
  shows "pke_decrypt k du dv (snd (keypair_of k rho A s e))
    (cipher_of k du dv (poly_vec_decode k 12 (subspan 0 (k * 12 * 32) (fst (keypair_of k rho A s e)))) B r e1 e2 msg) = msg"
  unfolding keypair_public(1,3) [OF assms(2,4,5)] using assms by (intro decrypt_noise)

lemma zero_key_noise:
  assumes "0 < du" "du < 12" "5 \<le> dv + 1" "dv < 12" "wf_vec k r" "wf_vec k e1" "wf_vec k u" "wf_poly v"
  shows "small_noise (pke_noise k du dv (zeros k) (zeros k) r e1 pzero u v)"
proof (rule small_noiseI)
  have z: "wf_vec k (zeros k)" "j < k \<Longrightarrow> rv (zeros k) j = 0" for j
    by (simp_all add: zeros_eq wf_zero_vec rv_def cell_zero_vec rq_pzero)
  have dv: "0 < dv"
    using assms(3) by simp
  note n = pke_noise_ring [OF assms(1,2) dv assms(4) z(1) z(1) assms(5,6) wf_pzero assms(7,8)]
  then show wn: "wf_poly (pke_noise k du dv (zeros k) (zeros k) r e1 pzero u v)"
    by simp
  note q = compressed_wf(3) [OF dv assms(4,8)]
  have "rq (pke_noise k du dv (zeros k) (zeros k) r e1 pzero u v) = rq (psub (requantised dv v) v)"
    unfolding n(2) using q assms(8) z(2) by (simp add: rq_pzero rq_ops)
  then have eq: "pke_noise k du dv (zeros k) (zeros k) r e1 pzero u v = psub (requantised dv v) v"
    using rq_inject [OF wn wf_psub [OF q assms(8)]] by simp
  fix j :: nat
  assume j: "j < 256"
  obtain e :: int where e: "\<bar>e\<bar> \<le> (3329 + 2 ^ dv) div 2 ^ (dv + 1)" "zv (decompress dv (compress dv (v ! j))) = zv (v ! j) + of_int e"
    using decompress_compress_error [OF dv assms(4) wf_poly_nth [OF assms(8) j]] by auto
  have "(2 :: int) ^ 4 \<le> 2 ^ dv" "(2 :: int) ^ dv \<le> 2 ^ 11"
    using assms(3,4) by (intro power_increasing; simp)+
  then have "(3329 + 2 ^ dv) div 2 ^ (dv + 1) \<le> (3329 + 2 ^ 11) div (2 ^ 5 :: int)"
    by (intro order_trans [OF zdiv_mono2 [of "3329 + 2 ^ dv" "2 ^ 5"] zdiv_mono1]) simp_all
  with e j q assms(8) show "\<exists>e :: int. \<bar>e\<bar> \<le> 831 \<and> zv (pke_noise k du dv (zeros k) (zeros k) r e1 pzero u v ! j) = of_int e"
    unfolding eq by (intro exI [of _ e]) (simp add: zv_psub, simp add: requantised_def)
qed

theorem pke_decrypts_witness:
  "pke_decrypt 2 10 4 (snd (keypair_of 2 [] (zeros 4) (zeros 2) (zeros 2)))
    (cipher_of 2 10 4 (poly_vec_decode 2 12 (subspan 0 (2 * 12 * 32) (fst (keypair_of 2 [] (zeros 4) (zeros 2) (zeros 2)))))
      (zeros 4) (zeros 2) (zeros 2) pzero (replicate 32 0x5a)) = replicate 32 0x5a"
proof (rule pke_decrypts)
  have z: "wf_vec k (zeros k)" for k
    by (simp add: zeros_eq wf_zero_vec)
  have z4: "wf_vec (2 * 2) (zeros 4)"
    using z [of 4] by simp
  show "wf_vec (2 * 2) (zeros 4)" "wf_vec (2 * 2) (zeros 4)"
    by (rule z4)+
  show "wf_vec 2 (zeros 2)" "wf_vec 2 (zeros 2)" "wf_vec 2 (zeros 2)" "wf_vec 2 (zeros 2)"
    by (rule z)+
  note t = public_t_ring(1) [OF z4 z z]
  show "small_noise (pke_noise 2 10 4 (zeros 2) (zeros 2) (zeros 2) (zeros 2) pzero (plain_u 2 (zeros 4) (zeros 2) (zeros 2))
      (plain_v 2 (public_t 2 (zeros 4) (zeros 2) (zeros 2)) (zeros 2) pzero (replicate 32 0x5a)))"
    by (rule zero_key_noise [OF _ _ _ _ z z plain_u_ring(1) [OF z4 z z] plain_v_ring(1) [OF t z wf_pzero]]) simp_all
  have "cell (zeros 4) i = pzero" if "i < 4" for i
    using that cell_zero_vec [of i 4] by (simp add: zeros_eq)
  then show "transposed_of 2 (zeros 4) (zeros 4)"
    by (simp add: transposed_of_def less_2_cases_iff)
qed (simp_all add: check_decrypt_params_def)

text \<open>
  C21: the modulus check: \<open>encrypt\<close> refuses a public key, leaving the cipher text buffer as it was, exactly when one of
  the twelve-bit numbers in the key is not below Q.\<close>

theorem encrypt_rejects:
  assumes "length pubkey = get_pke_public_key_len k"
  shows "pke_encrypt k eta1 eta2 du dv pubkey msg rcoin ctxt = Some (False, c) \<longleftrightarrow>
    c = ctxt \<and> (\<exists>i<k. \<exists>j<256. 3329 \<le> coeff_12 (subspan (i * 384) 384 pubkey) j)"
proof (cases "valid_encoding k pubkey")
  case True
  then have "\<not> (\<exists>i<k. \<exists>j<256. 3329 \<le> coeff_12 (subspan (i * 384) 384 pubkey) j)"
    by (auto simp: valid_encoding_def not_le)
  then show ?thesis
    unfolding encrypt_cases(2) [OF assms True] by auto
next
  case False
  then have "\<exists>i<k. \<exists>j<256. 3329 \<le> coeff_12 (subspan (i * 384) 384 pubkey) j"
    by (auto simp: valid_encoding_def not_less)
  then show ?thesis
    unfolding encrypt_cases(1) [OF assms False] by auto
qed

theorem encrypt_rejects_witness:
  "pke_encrypt 2 3 2 10 4 (replicate 800 255) [] [] [7] = Some (False, [7])"
proof -
  have "coeff_12 (subspan (0 * 384) 384 (replicate 800 255)) 0 = 4095"
    by (simp add: coeff_12_def subspan_def upt_rec bit_simps)
  then have "\<exists>i<2. \<exists>j<256. 3329 \<le> coeff_12 (subspan (i * 384) 384 (replicate 800 255)) j"
    by (intro exI [of _ 0] conjI) simp_all
  then show ?thesis
    using encrypt_rejects [of "replicate 800 255" 2 3 2 10 4 "[]" "[]" "[7]" "[7]"] by (simp add: get_pke_public_key_len_def)
qed

end
