(* ===== verification/Kem_Random.thy ===== *)
theory Kem_Random
  imports Kem_Hash
begin

text \<open>
  The generator \<open>randomshake_t\<close> of \<open>tools/ml_kem_512_single.hpp\<close>: an extendable-output function, a buffer of bytes
  squeezed from it and the offset of the first unread byte.  The values of \<open>std::random_device\<close> are a parameter.
  \<^const>\<open>None\<close> as the result of the call operator is a read beyond the end of the buffer.  The reference is a
  stream of single bytes, which \<open>generate\<close> is shown to deliver whatever the sizes of the requests.
\<close>

section \<open>The selected function\<close>

datatype xof_kind_t = SHAKE256 | TURBOSHAKE256

definition selected_rate :: "xof_kind_t \<Rightarrow> nat" where
  "selected_rate x = (case x of SHAKE256 \<Rightarrow> shake256_RATE | TURBOSHAKE256 \<Rightarrow> turboshake256_RATE)"

definition seed_byte_len :: "xof_kind_t \<Rightarrow> nat" where
  "seed_byte_len x = selected_rate x div 8"

definition ratchet_period_byte_len :: "xof_kind_t \<Rightarrow> nat" where
  "ratchet_period_byte_len x = (case x of SHAKE256 \<Rightarrow> shake256_RATE | TURBOSHAKE256 \<Rightarrow> turboshake256_RATE)"

definition ratchet_byte_len :: "xof_kind_t \<Rightarrow> nat" where
  "ratchet_byte_len x = (case x of SHAKE256 \<Rightarrow> 256 div 8 | TURBOSHAKE256 \<Rightarrow> 256 div 8)"

definition selected_reset :: "xof_kind_t \<Rightarrow> xof_t \<Rightarrow> xof_t" where
  "selected_reset x = (case x of SHAKE256 \<Rightarrow> shake256_reset | TURBOSHAKE256 \<Rightarrow> turboshake256_reset)"

definition selected_absorb :: "xof_kind_t \<Rightarrow> bytes \<Rightarrow> xof_t \<Rightarrow> xof_t" where
  "selected_absorb x = (case x of SHAKE256 \<Rightarrow> shake256_absorb | TURBOSHAKE256 \<Rightarrow> turboshake256_absorb)"

definition selected_finalize :: "xof_kind_t \<Rightarrow> xof_t \<Rightarrow> xof_t" where
  "selected_finalize x = (case x of SHAKE256 \<Rightarrow> shake256_finalize | TURBOSHAKE256 \<Rightarrow> turboshake256_finalize 0x1f)"

definition selected_squeeze :: "xof_kind_t \<Rightarrow> bytes \<Rightarrow> xof_t \<Rightarrow> xof_t \<times> bytes" where
  "selected_squeeze x = (case x of SHAKE256 \<Rightarrow> shake256_squeeze | TURBOSHAKE256 \<Rightarrow> turboshake256_squeeze)"

definition selected_ratchet :: "xof_kind_t \<Rightarrow> nat \<Rightarrow> xof_t \<Rightarrow> xof_t" where
  "selected_ratchet x = (case x of SHAKE256 \<Rightarrow> shake256_ratchet | TURBOSHAKE256 \<Rightarrow> turboshake256_ratchet)"

section \<open>The generator\<close>

record randomshake_t =
  r_state :: xof_t
  r_buffer :: bytes
  buffer_offset :: nat

definition randomshake_seeded :: "xof_kind_t \<Rightarrow> bytes \<Rightarrow> randomshake_t" where
  "randomshake_seeded x seed =
     (let state = selected_finalize x (selected_absorb x seed (selected_reset x xof_init));
          sb = selected_squeeze x (replicate (ratchet_period_byte_len x) 0) state
      in \<lparr>r_state = fst sb, r_buffer = snd sb, buffer_offset = 0\<rparr>)"

definition u32_le :: "u32 \<Rightarrow> bytes" where
  "u32_le v = map (\<lambda>i. ucast (drop_bit (8 * i) v)) [0..<4]"

definition device_seed :: "xof_kind_t \<Rightarrow> (nat \<Rightarrow> u32) \<Rightarrow> bytes" where
  "device_seed x rd =
     fold (\<lambda>seed_offset seed. overwrite seed_offset (u32_le (rd (seed_offset div 4))) seed)
       (steps 0 (seed_byte_len x) 4) (replicate (seed_byte_len x) 0)"

text \<open>The entropy estimate matters only as zero or not; the first component tells whether the warning about it is printed.\<close>

definition randomshake_device :: "xof_kind_t \<Rightarrow> int \<Rightarrow> (nat \<Rightarrow> u32) \<Rightarrow> bool \<times> randomshake_t" where
  "randomshake_device x entropy rd = (entropy = 0, randomshake_seeded x (device_seed x rd))"

definition randomshake_destroy :: "xof_kind_t \<Rightarrow> randomshake_t \<Rightarrow> randomshake_t" where
  "randomshake_destroy x g =
     g\<lparr>r_state := selected_reset x (r_state g), r_buffer := replicate (length (r_buffer g)) 0, buffer_offset := 0\<rparr>"

definition refill :: "xof_kind_t \<Rightarrow> randomshake_t \<Rightarrow> randomshake_t" where
  "refill x g =
     (let sb = selected_squeeze x (r_buffer g) (selected_ratchet x (ratchet_byte_len x) (r_state g))
      in g\<lparr>r_state := fst sb, r_buffer := snd sb, buffer_offset := 0\<rparr>)"

definition le_value :: "bytes \<Rightarrow> nat" where
  "le_value bs = foldr (\<lambda>b v. unat b + 256 * v) bs 0"

definition randomshake_next :: "xof_kind_t \<Rightarrow> nat \<Rightarrow> randomshake_t \<Rightarrow> (nat \<times> randomshake_t) option" where
  "randomshake_next x required_num_bytes g =
     (let readble_num_bytes = length (r_buffer g) - buffer_offset g;
          g1 = (if readble_num_bytes = 0 then refill x g else g)
      in if buffer_offset g1 + required_num_bytes \<le> length (r_buffer g1)
         then Some (le_value (take required_num_bytes (drop (buffer_offset g1) (r_buffer g1))),
                    g1\<lparr>buffer_offset := buffer_offset g1 + required_num_bytes\<rparr>)
         else None)"

partial_function (option) generate_loop ::
    "xof_kind_t \<Rightarrow> bytes \<Rightarrow> nat \<Rightarrow> randomshake_t \<Rightarrow> (bytes \<times> randomshake_t) option" where
  "generate_loop x output out_offset g =
     (if out_offset < length output
      then let readable_num_bytes = length (r_buffer g) - buffer_offset g;
               required_num_bytes = length output - out_offset;
               copyable_num_bytes = min readable_num_bytes required_num_bytes;
               g1 = g\<lparr>buffer_offset := buffer_offset g + copyable_num_bytes\<rparr>
           in generate_loop x (overwrite out_offset (take copyable_num_bytes (drop (buffer_offset g) (r_buffer g))) output)
                (out_offset + copyable_num_bytes)
                (if buffer_offset g1 = length (r_buffer g1) then refill x g1 else g1)
      else Some (output, g))"

definition randomshake_generate :: "xof_kind_t \<Rightarrow> bytes \<Rightarrow> randomshake_t \<Rightarrow> (bytes \<times> randomshake_t) option" where
  "randomshake_generate x output g = generate_loop x output 0 g"

declare generate_loop.simps [code]

section \<open>Reference: a stream of single bytes\<close>

definition settle :: "xof_kind_t \<Rightarrow> randomshake_t \<Rightarrow> randomshake_t" where
  "settle x g = (if buffer_offset g = length (r_buffer g) then refill x g else g)"

fun draw :: "xof_kind_t \<Rightarrow> nat \<Rightarrow> randomshake_t \<Rightarrow> bytes \<times> randomshake_t" where
  "draw x 0 g = ([], g)"
| "draw x (Suc n) g =
     (let g1 = settle x g; r = draw x n (g1\<lparr>buffer_offset := Suc (buffer_offset g1)\<rparr>)
      in (r_buffer g1 ! buffer_offset g1 # fst r, snd r))"

definition wf_random :: "randomshake_t \<Rightarrow> bool" where
  "wf_random g \<longleftrightarrow> xof_ready 136 (r_state g) \<and> length (r_buffer g) = 1088 \<and> buffer_offset g \<le> 1088"

subsection \<open>The invariant\<close>

lemmas selected_defs =
  selected_rate_def seed_byte_len_def ratchet_period_byte_len_def ratchet_byte_len_def selected_reset_def
  selected_absorb_def selected_finalize_def selected_squeeze_def selected_ratchet_def
  shake256_reset_def shake256_absorb_def shake256_finalize_def shake256_squeeze_def shake256_ratchet_def
  turboshake256_reset_def turboshake256_absorb_def turboshake256_finalize_def turboshake256_squeeze_def
  turboshake256_ratchet_def

lemma selected_ready:
  assumes "xof_ready 136 h"
  shows "xof_ready 136 (selected_reset x h)" "xof_ready 136 (selected_absorb x m h)"
    "xof_ready 136 (selected_finalize x h)" "xof_ready 136 (selected_ratchet x n h)"
    "xof_ready 136 (fst (selected_squeeze x d h))" "length (snd (selected_squeeze x d h)) = length d"
  using assms
    sp136.xof_reset_ready [of h] sp136.xof_absorb_ready [of h m] sp136.xof_finalize_ready [of h]
    sp136.xof_ratchet_ready [of h n] sp136.xof_squeeze_ready [of h d] sp136.xof_squeeze_length [of h d]
    sp136t.xof_absorb_ready [of h m] sp136t.xof_finalize_ready [of h]
    sp136t.xof_ratchet_ready [of h n] sp136t.xof_squeeze_ready [of h d] sp136t.xof_squeeze_length [of h d]
  by (cases x; simp add: selected_defs rate_vals)+

lemma wf_seeded: "wf_random (randomshake_seeded x seed)"
  using sp136.xof_init_ready
  by (cases x) (simp_all add: wf_random_def randomshake_seeded_def Let_def selected_ready ratchet_period_byte_len_def rate_vals)

lemma wf_refill: "wf_random g \<Longrightarrow> wf_random (refill x g)" and refill_offset: "buffer_offset (refill x g) = 0"
  by (simp_all add: wf_random_def refill_def Let_def selected_ready)

lemma wf_settle: "wf_random g \<Longrightarrow> wf_random (settle x g) \<and> buffer_offset (settle x g) < 1088"
  using wf_refill [of g x] by (auto simp: settle_def refill_offset) (auto simp: wf_random_def)

lemma settle_settled: "wf_random g \<Longrightarrow> settle x (settle x g) = settle x g"
  using wf_settle [of g x] by (auto simp: settle_def [of x "settle x g"] wf_random_def)

lemma wf_advance: "wf_random g \<Longrightarrow> buffer_offset g + n \<le> 1088 \<Longrightarrow> wf_random (g\<lparr>buffer_offset := buffer_offset g + n\<rparr>)"
  by (simp add: wf_random_def)

lemma wf_draw: "wf_random g \<Longrightarrow> wf_random (snd (draw x n g))"
proof (induction n arbitrary: g)
  case (Suc n)
  then show ?case
    using wf_settle [of g x] wf_advance [of "settle x g" 1] by (simp add: Let_def)
qed simp

lemma length_draw [simp]: "length (fst (draw x n g)) = n"
  by (induction n arbitrary: g) (simp_all add: Let_def)

subsection \<open>Drawing in pieces\<close>

lemma draw_add: "draw x (m + n) g = (let a = draw x m g; b = draw x n (snd a) in (fst a @ fst b, snd b))"
  by (induction m arbitrary: g) (simp_all add: Let_def)

lemma draw_settle: "wf_random g \<Longrightarrow> 0 < n \<Longrightarrow> draw x n (settle x g) = draw x n g"
  by (cases n) (simp_all add: settle_settled)

lemma draw_buffered:
  "buffer_offset g + n \<le> length (r_buffer g) \<Longrightarrow>
   draw x n g = (take n (drop (buffer_offset g) (r_buffer g)), g\<lparr>buffer_offset := buffer_offset g + n\<rparr>)"
proof (induction n arbitrary: g)
  case (Suc n)
  then have "settle x g = g"
    by (simp add: settle_def)
  with Suc show ?case
    by (simp add: Let_def take_Suc_conv_app_nth [symmetric] Cons_nth_drop_Suc [symmetric])
qed simp

text \<open>A request that is served leaves the generator settled: the buffer is refilled as soon as it is used up.\<close>

definition drained :: "xof_kind_t \<Rightarrow> nat \<Rightarrow> randomshake_t \<Rightarrow> bytes \<times> randomshake_t" where
  "drained x n g = (if n = 0 then ([], g) else (fst (draw x n g), settle x (snd (draw x n g))))"

lemma generate_loop_drained:
  "wf_random g \<Longrightarrow> p \<le> length out \<Longrightarrow>
   generate_loop x out p g =
     Some (take p out @ fst (drained x (length out - p) g), snd (drained x (length out - p) g))"
proof (induction "2 * (length out - p) + (if buffer_offset g = 1088 then 1 else 0)" arbitrary: out p g rule: less_induct)
  case less
  show ?case
  proof (cases "p < length out")
    case False
    with less.prems show ?thesis
      by (subst generate_loop.simps) (simp add: drained_def)
  next
    case True
    define c where "c = min (1088 - buffer_offset g) (length out - p)"
    define g1 where "g1 = g\<lparr>buffer_offset := buffer_offset g + c\<rparr>"
    define out1 where "out1 = overwrite p (take c (drop (buffer_offset g) (r_buffer g))) out"
    have buf: "length (r_buffer g) = 1088" "buffer_offset g \<le> 1088"
      using less.prems by (simp_all add: wf_random_def)
    have c: "c \<le> 1088 - buffer_offset g" "p + c \<le> length out" "c = 0 \<longleftrightarrow> buffer_offset g = 1088"
      using True buf by (auto simp: c_def)
    have g1: "wf_random g1"
      using less.prems(1) c(1) buf(2) unfolding g1_def by (intro wf_advance) simp_all
    have out1: "length out1 = length out" "take (p + c) out1 = take p out @ take c (drop (buffer_offset g) (r_buffer g))"
      using c buf True by (simp_all add: out1_def overwrite_def min_absorb2)
    have step: "generate_loop x out p g = generate_loop x out1 (p + c) (settle x g1)"
      using True buf by (subst generate_loop.simps) (simp add: Let_def c_def g1_def out1_def settle_def)
    have "2 * (length out1 - (p + c)) + (if buffer_offset (settle x g1) = 1088 then 1 else 0)
        < 2 * (length out - p) + (if buffer_offset g = 1088 then 1 else 0)"
      using wf_settle [OF g1, of x] c out1 True by (cases "c = 0") auto
    from less.hyps [OF this] wf_settle [OF g1, of x] c(2) out1
    have IH: "generate_loop x out1 (p + c) (settle x g1) =
        Some (take (p + c) out1 @ fst (drained x (length out - p - c) (settle x g1)),
              snd (drained x (length out - p - c) (settle x g1)))"
      by simp
    have "draw x (length out - p) g = draw x (c + (length out - p - c)) g"
      using c(2) by simp
    also have "\<dots> = (take c (drop (buffer_offset g) (r_buffer g)) @ fst (draw x (length out - p - c) g1),
                    snd (draw x (length out - p - c) g1))"
      using draw_buffered [of g c x] c(1) buf by (simp add: draw_add g1_def Let_def)
    finally show ?thesis
      using True c(2) out1(2) draw_settle [OF g1, of "length out - p - c" x] settle_settled [OF g1, of x]
      unfolding step IH by (cases "length out - p - c = 0") (simp_all add: drained_def)
  qed
qed

lemma generate_drained: "wf_random g \<Longrightarrow> randomshake_generate x out g = Some (drained x (length out) g)"
  using generate_loop_drained [of g 0 out x] by (simp add: randomshake_generate_def)

lemma drained_add:
  assumes "wf_random g"
  shows "drained x (m + n) g =
    (let a = drained x m g; b = drained x n (snd a) in (fst a @ fst b, snd b))"
  using draw_settle [OF wf_draw [OF assms, of x m], of n x] settle_settled [OF wf_draw [OF assms, of x m], of x]
  by (cases "m = 0"; cases "n = 0") (simp_all add: drained_def Let_def draw_add)

lemma wf_drained: "wf_random g \<Longrightarrow> wf_random (snd (drained x n g))"
  using wf_settle [OF wf_draw [of g x n], of x] by (simp add: drained_def)

lemma next_byte:
  assumes "wf_random g"
  shows "randomshake_next x 1 g = Some (unat (hd (fst (draw x 1 g))), snd (draw x 1 g))"
proof -
  have "length (r_buffer g) - buffer_offset g = 0 \<longleftrightarrow> buffer_offset g = length (r_buffer g)"
    using assms by (auto simp: wf_random_def)
  then have "randomshake_next x 1 g = (let g1 = settle x g in
      if buffer_offset g1 + 1 \<le> length (r_buffer g1)
      then Some (le_value (take 1 (drop (buffer_offset g1) (r_buffer g1))), g1\<lparr>buffer_offset := buffer_offset g1 + 1\<rparr>)
      else None)"
    unfolding randomshake_next_def settle_def Let_def by simp
  moreover have "buffer_offset (settle x g) < length (r_buffer (settle x g))"
    using wf_settle [OF assms, of x] by (simp add: wf_random_def)
  ultimately show ?thesis
    by (simp add: Let_def le_value_def Cons_nth_drop_Suc [symmetric] take_Suc_Cons)
qed

fun next_bytes :: "xof_kind_t \<Rightarrow> nat \<Rightarrow> randomshake_t \<Rightarrow> (nat list \<times> randomshake_t) option" where
  "next_bytes x 0 g = Some ([], g)"
| "next_bytes x (Suc n) g =
     Option.bind (randomshake_next x 1 g)
       (\<lambda>(b, g1). Option.bind (next_bytes x n g1) (\<lambda>(bs, g2). Some (b # bs, g2)))"

lemma next_bytes_draw: "wf_random g \<Longrightarrow> next_bytes x n g = Some (map unat (fst (draw x n g)), snd (draw x n g))"
proof (induction n arbitrary: g)
  case (Suc n)
  have "wf_random (snd (draw x 1 g))"
    using wf_draw [OF Suc.prems] .
  from Suc.IH [OF this] draw_add [of x 1 n g] next_byte [OF Suc.prems, of x] show ?case
    by (simp add: Let_def)
qed simp

lemma next_aligned:
  assumes "wf_random g" "w dvd 1088" "w dvd buffer_offset g"
  shows "\<exists>v g'. randomshake_next x w g = Some (v, g') \<and> wf_random g' \<and> w dvd buffer_offset g'"
proof -
  define g1 where "g1 = (if length (r_buffer g) - buffer_offset g = 0 then refill x g else g)"
  have g1: "wf_random g1" "w dvd buffer_offset g1" "buffer_offset g1 < 1088"
    using assms wf_refill [of g x] by (auto simp: g1_def refill_offset wf_random_def)
  have "w \<le> 1088 - buffer_offset g1"
    using dvd_diff_nat [OF assms(2) g1(2)] g1(3) by (intro dvd_imp_le) simp_all
  with g1 show ?thesis
    unfolding randomshake_next_def Let_def g1_def [symmetric] by (auto simp: wf_random_def)
qed

section \<open>Properties\<close>

text \<open>
  C29: the generator delivers one stream of bytes whatever the sizes of the requests: \<open>generate\<close> always ends, a
  request for \<open>m + n\<close> bytes returns what requests for \<open>m\<close> and then \<open>n\<close> bytes return, and the bytes are those that
  as many calls of the one-byte call operator return.\<close>

theorem generate_is_stream:
  assumes "wf_random g"
  shows "\<exists>g'. randomshake_generate x (a @ b) g =
      Option.bind (randomshake_generate x a g) (\<lambda>(va, ga).
        Option.bind (randomshake_generate x b ga) (\<lambda>(vb, gb). Some (va @ vb, gb))) \<and>
    map_option fst (next_bytes x (length a + length b) g) =
      map_option (\<lambda>r. map unat (fst r)) (randomshake_generate x (a @ b) g) \<and>
    map_option snd (randomshake_generate x (a @ b) g) = Some g' \<and> wf_random g'"
  using assms wf_drained [OF assms, of x "length a"] wf_drained [OF assms, of x "length a + length b"]
    drained_add [OF assms, of x "length a" "length b"]
  by (simp add: generate_drained next_bytes_draw Let_def case_prod_beta) (auto simp: drained_def)

theorem generate_is_stream_witness:
  "wf_random (randomshake_seeded TURBOSHAKE256 []) \<and>
   map_option fst (next_bytes TURBOSHAKE256 3 (randomshake_seeded TURBOSHAKE256 [])) =
     map_option (\<lambda>r. map unat (fst r)) (randomshake_generate TURBOSHAKE256 [0, 0, 0] (randomshake_seeded TURBOSHAKE256 []))"
  using wf_seeded [of TURBOSHAKE256 "[]"] generate_is_stream [of "randomshake_seeded TURBOSHAKE256 []" TURBOSHAKE256 "[0]" "[0, 0]"]
  by (auto simp del: next_bytes.simps simp: eval_nat_numeral)

text \<open>
  C35: the call operator reads beyond its buffer once single bytes have been taken out of step: after \<open>generate\<close> of
  1087 bytes from a new generator one byte is left, and the call operator of every wider result type copies more than
  that; while only the call operator is used, with a result type whose size divides the buffer, it never does.\<close>

theorem next_reads_past_buffer:
  "w \<in> {2, 4, 8} \<Longrightarrow>
   Option.bind (randomshake_generate x (replicate 1087 0) (randomshake_seeded x seed)) (\<lambda>(out, g). randomshake_next x w g) = None \<and>
   (\<forall>g. wf_random g \<and> w dvd buffer_offset g \<longrightarrow>
      (\<exists>v g'. randomshake_next x w g = Some (v, g') \<and> wf_random g' \<and> w dvd buffer_offset g'))"
proof (intro conjI allI impI)
  assume w: "w \<in> {2, 4, 8}"
  define g0 where "g0 = randomshake_seeded x seed"
  have g0: "wf_random g0" "length (r_buffer g0) = 1088" "buffer_offset g0 = 0"
    using wf_seeded [of x seed] by (simp_all add: wf_random_def g0_def randomshake_seeded_def Let_def)
  then have "drained x 1087 g0 = (take 1087 (r_buffer g0), g0\<lparr>buffer_offset := 1087\<rparr>)"
    using draw_buffered [of g0 1087 x] by (simp add: drained_def settle_def)
  with g0 w show "Option.bind (randomshake_generate x (replicate 1087 0) (randomshake_seeded x seed))
      (\<lambda>(out, g). randomshake_next x w g) = None"
    unfolding g0_def [symmetric] by (auto simp: generate_drained randomshake_next_def)
next
  fix g assume "w \<in> {2, 4, 8}" "wf_random g \<and> w dvd buffer_offset g"
  then show "\<exists>v g'. randomshake_next x w g = Some (v, g') \<and> wf_random g' \<and> w dvd buffer_offset g'"
    by (intro next_aligned) auto
qed

theorem next_reads_past_buffer_witness:
  "Option.bind (randomshake_generate SHAKE256 (replicate 1087 0) (randomshake_seeded SHAKE256 []))
     (\<lambda>(out, g). randomshake_next SHAKE256 2 g) = None"
  using next_reads_past_buffer [of 2 SHAKE256 "[]"] by simp

end
