(* ===== verification/Kem_Scheme.thy ===== *)
theory Kem_Scheme
  imports Kem_Pke Kem_Random
begin

text \<open>
  The key encapsulation mechanism (\<open>namespace ml_kem\<close> of \<open>tools/ml_kem_512_single.hpp\<close>) and its instance
  \<open>ml_kem_512\<close>.  An operation returns what it leaves in its output buffers, a secret key as its four parts one after
  the other; \<^const>\<open>None\<close> is the sampling of the matrix that does not end.
\<close>

section \<open>Operations\<close>

definition get_kem_public_key_len :: "nat \<Rightarrow> nat" where
  "get_kem_public_key_len k = get_pke_public_key_len k"

definition get_kem_secret_key_len :: "nat \<Rightarrow> nat" where
  "get_kem_secret_key_len k = get_pke_secret_key_len k + get_pke_public_key_len k + 32 + 32"

definition get_kem_cipher_text_len :: "nat \<Rightarrow> nat \<Rightarrow> nat \<Rightarrow> nat" where
  "get_kem_cipher_text_len k du dv = get_pke_cipher_text_len k du dv"

definition kem_keygen :: "nat \<Rightarrow> nat \<Rightarrow> bytes \<Rightarrow> bytes \<Rightarrow> (bytes \<times> bytes) option" where
  "kem_keygen k eta1 d z =
     (case pke_keygen k eta1 d of
        None \<Rightarrow> None
      | Some (kpke_pkey, kpke_skey) \<Rightarrow>
          let pubkey = kpke_pkey;
              hasher = sha3_256_finalize (sha3_256_absorb pubkey sha3_init);
              digest = snd (sha3_256_digest (replicate 32 0) hasher)
          in Some (pubkey, kpke_skey @ kpke_pkey @ digest @ z))"

definition kem_encapsulate ::
    "nat \<Rightarrow> nat \<Rightarrow> nat \<Rightarrow> nat \<Rightarrow> nat \<Rightarrow> bytes \<Rightarrow> bytes \<Rightarrow> bytes \<Rightarrow> bytes \<Rightarrow> (bool \<times> bytes \<times> bytes) option" where
  "kem_encapsulate k eta1 eta2 du dv m pubkey cipher shared_secret =
     (let h256 = sha3_256_finalize (sha3_256_absorb pubkey sha3_init);
          g_in = m @ snd (sha3_256_digest (replicate 32 0) h256);
          h512 = sha3_512_finalize (sha3_512_absorb g_in sha3_init);
          g_out = snd (sha3_512_digest (replicate 64 0) h512);
          g_out_span0 = subspan 0 32 g_out;
          g_out_span1 = subspan 32 32 g_out
      in case pke_encrypt k eta1 eta2 du dv pubkey m g_out_span1 cipher of
           None \<Rightarrow> None
         | Some (has_mod_check_passed, cipher) \<Rightarrow>
             if \<not> has_mod_check_passed then Some (has_mod_check_passed, cipher, shared_secret)
             else Some (True, cipher, g_out_span0))"

definition kem_decapsulate ::
    "nat \<Rightarrow> nat \<Rightarrow> nat \<Rightarrow> nat \<Rightarrow> nat \<Rightarrow> bytes \<Rightarrow> bytes \<Rightarrow> bytes \<Rightarrow> bytes option" where
  "kem_decapsulate k eta1 eta2 du dv seckey cipher shared_secret =
     (let sklen = k * 12 * 32;
          pklen = k * 12 * 32 + 32;
          skoff0 = sklen;
          skoff1 = skoff0 + pklen;
          skoff2 = skoff1 + 32;
          pke_sk = subspan 0 skoff0 seckey;
          pubkey = subspan skoff0 (skoff1 - skoff0) seckey;
          h = subspan skoff1 (skoff2 - skoff1) seckey;
          z = subspan skoff2 (length seckey - skoff2) seckey;
          g_in_span0 = pke_decrypt k du dv pke_sk cipher;
          g_in = g_in_span0 @ h;
          h512 = sha3_512_finalize (sha3_512_absorb g_in sha3_init);
          g_out = snd (sha3_512_digest (replicate 64 0) h512);
          g_out_span0 = subspan 0 32 g_out;
          g_out_span1 = subspan 32 32 g_out;
          xof256 = shake256_finalize (shake256_absorb cipher (shake256_absorb z xof_init));
          j_out = snd (shake256_squeeze (replicate 32 0) xof256)
      in case pke_encrypt k eta1 eta2 du dv pubkey g_in_span0 g_out_span1 (replicate (length cipher) 0) of
           None \<Rightarrow> None
         | Some (_, c_prime) \<Rightarrow>
             let cond = ct_memcmp cipher c_prime
             in Some (ct_cond_memcpy cond shared_secret g_out_span0 z))"

section \<open>ML-KEM-512\<close>

definition kem_512_keygen :: "bytes \<Rightarrow> bytes \<Rightarrow> (bytes \<times> bytes) option" where
  "kem_512_keygen d z = kem_keygen 2 3 d z"

definition kem_512_encapsulate :: "bytes \<Rightarrow> bytes \<Rightarrow> bytes \<Rightarrow> bytes \<Rightarrow> (bool \<times> bytes \<times> bytes) option" where
  "kem_512_encapsulate m pubkey cipher shared_secret = kem_encapsulate 2 3 2 10 4 m pubkey cipher shared_secret"

definition kem_512_decapsulate :: "bytes \<Rightarrow> bytes \<Rightarrow> bytes \<Rightarrow> bytes option" where
  "kem_512_decapsulate seckey cipher shared_secret = kem_decapsulate 2 3 2 10 4 seckey cipher shared_secret"

section \<open>A random field element\<close>

definition zq_random :: "randomshake_t \<Rightarrow> (zq_t \<times> randomshake_t) option" where
  "zq_random csprng =
     map_option (\<lambda>(res, csprng). (from_non_reduced (of_nat (le_value res)), csprng)) (randomshake_generate TURBOSHAKE256 [0, 0] csprng)"

lemma zq_random_canon:
  assumes "wf_random g"
  shows "\<exists>x g'. zq_random g = Some (x, g') \<and> canon x \<and> wf_random g'"
  using wf_drained [OF assms] by (auto simp: zq_random_def generate_drained [OF assms] split: prod.split) (metis snd_conv)

section \<open>Sampled matrices and vectors\<close>

lemma those_Some: "those xs = Some ys \<longleftrightarrow> xs = map Some ys"
  by (induction xs arbitrary: ys) (auto split: option.splits simp: Cons_eq_map_conv)

lemma those_None: "those xs = None \<longleftrightarrow> None \<in> set xs"
  by (induction xs) (auto split: option.splits)

definition sampled :: "bool \<Rightarrow> bytes \<Rightarrow> nat \<Rightarrow> nat \<Rightarrow> poly option" where
  "sampled tr rho i j = map_option snd (sample_ntt (matrix_hasher tr rho i j) (replicate N 0))"

lemma sampled_transposed: "sampled True rho i j = sampled False rho j i"
  by (simp add: sampled_def matrix_hasher_def)

lemma wf_sampled: "sampled tr rho i j = Some p \<Longrightarrow> wf_poly p"
  using wf_sample_ntt [OF matrix_hasher_streaming [of tr rho i j], of "replicate N 0"] by (auto simp: sampled_def N_val)

lemma index_parts: "n < k * k \<Longrightarrow> n div k < k \<and> n mod k < (k :: nat)"
  by (cases k) (simp_all add: less_mult_imp_div_less)

lemma generate_matrix_sampled:
  "generate_matrix k tr rho = map_option concat (those (map (\<lambda>n. sampled tr rho (n div k) (n mod k)) [0..<k * k]))"
proof -
  have "map (\<lambda>(i, j). sampled tr rho i j) (List.product [0..<k] [0..<k]) = map (\<lambda>n. sampled tr rho (n div k) (n mod k)) [0..<k * k]"
  proof (rule nth_equalityI)
    fix n
    assume "n < length (map (\<lambda>(i, j). sampled tr rho i j) (List.product [0..<k] [0..<k]))"
    then have n: "n < k * k"
      by simp
    with index_parts [of n k] show "map (\<lambda>(i, j). sampled tr rho i j) (List.product [0..<k] [0..<k]) ! n =
        map (\<lambda>n. sampled tr rho (n div k) (n mod k)) [0..<k * k] ! n"
      by (simp add: product_nth)
  qed simp
  then show ?thesis
    by (simp add: generate_matrix_def sampled_def)
qed

lemma generate_matrix_cells:
  assumes "generate_matrix k tr rho = Some A"
  shows "wf_vec (k * k) A" "i < k \<Longrightarrow> j < k \<Longrightarrow> sampled tr rho i j = Some (cell A (i * k + j))"
proof -
  obtain ps where ps: "map (\<lambda>n. sampled tr rho (n div k) (n mod k)) [0..<k * k] = map Some ps" "A = concat ps"
    using assms unfolding generate_matrix_sampled by (auto simp: those_Some)
  have len: "length ps = k * k"
    using arg_cong [OF ps(1), of length] by simp
  have nth: "sampled tr rho (n div k) (n mod k) = Some (ps ! n)" if "n < k * k" for n
    using arg_cong [OF ps(1), of "\<lambda>xs. xs ! n"] that len by simp
  have A: "A = concat (map ((!) ps) [0..<k * k])"
    using ps(2) len by (metis map_nth)
  have wf: "wf_poly (ps ! n)" if "n < k * k" for n
    using nth [OF that] by (rule wf_sampled)
  then show "wf_vec (k * k) A"
    unfolding A by (rule wf_concat)
  show "sampled tr rho i j = Some (cell A (i * k + j))" if "i < k" "j < k"
  proof -
    have "i * k + j < k * k"
      using block_bound [OF that(1), of k] that(2) by simp
    then show ?thesis
      using nth [of "i * k + j"] wf that unfolding A by (subst cell_concat) simp_all
  qed
qed

lemma generate_matrix_transposed:
  shows "generate_matrix k True rho = Some B \<Longrightarrow> generate_matrix k False rho = Some A \<Longrightarrow> transposed_of k B A"
    "generate_matrix k True rho = None \<longleftrightarrow> generate_matrix k False rho = None"
proof -
  show "transposed_of k B A" if "generate_matrix k True rho = Some B" "generate_matrix k False rho = Some A"
    using generate_matrix_cells(2) [OF that(1)] generate_matrix_cells(2) [OF that(2)] sampled_transposed
    unfolding transposed_of_def by fastforce
  have none: "generate_matrix k tr rho = None \<longleftrightarrow> (\<exists>i<k. \<exists>j<k. sampled tr rho i j = None)" for tr
  proof -
    have "(\<exists>n<k * k. sampled tr rho (n div k) (n mod k) = None) \<longleftrightarrow> (\<exists>i<k. \<exists>j<k. sampled tr rho i j = None)"
    proof safe
      fix i j
      assume "i < k" "j < k" "sampled tr rho i j = None"
      then show "\<exists>n<k * k. sampled tr rho (n div k) (n mod k) = None"
        using block_bound [of i k k] by (intro exI [of _ "i * k + j"]) simp
    next
      fix n
      assume "n < k * k" "sampled tr rho (n div k) (n mod k) = None"
      then show "\<exists>i<k. \<exists>j<k. sampled tr rho i j = None"
        using index_parts [of n k] by blast
    qed
    then show ?thesis
      unfolding generate_matrix_sampled map_option_is_None those_None in_set_conv_nth by (simp cong: conj_cong)
  qed
  show "generate_matrix k True rho = None \<longleftrightarrow> generate_matrix k False rho = None"
    unfolding none sampled_transposed by blast
qed

lemma wf_generate_vector: "check_eta eta \<Longrightarrow> wf_vec k (generate_vector k eta sigma nonce)"
  unfolding generate_vector_def Let_def by (rule wf_concat) (rule wf_cbd)

section \<open>Keys and cipher texts\<close>

lemma length_pke_seeds: "length d = 32 \<Longrightarrow> length (pke_seeds k d) = 64"
  by (simp add: pke_seeds_def Let_def digest_lengths)

lemma keygen_cases:
  "pke_keygen k eta1 d =
    (let rho = subspan 0 32 (pke_seeds k d); sigma = subspan 32 32 (pke_seeds k d)
     in map_option (\<lambda>A. keypair_of k rho A (generate_vector k eta1 sigma 0) (generate_vector k eta1 sigma (of_nat k)))
          (generate_matrix k False rho))"
  by (simp add: pke_keygen_def Let_def split: option.split)

lemma keygen_key:
  assumes "check_eta eta1" "length d = 32" "pke_keygen k eta1 d = Some (pk, sk)"
  shows "length pk = get_pke_public_key_len k" "length sk = k * 384" "valid_encoding k pk"
    "generate_matrix k True (subspan (k * 12 * 32) 32 pk) \<noteq> None"
proof -
  define rho where "rho = subspan 0 32 (pke_seeds k d)"
  define sigma where "sigma = subspan 32 32 (pke_seeds k d)"
  obtain A where A: "generate_matrix k False rho = Some A"
    and key: "(pk, sk) = keypair_of k rho A (generate_vector k eta1 sigma 0) (generate_vector k eta1 sigma (of_nat k))"
    using assms(3) unfolding keygen_cases Let_def rho_def sigma_def by auto
  have rho: "length rho = 32"
    using length_pke_seeds [OF assms(2), of k] by (simp add: rho_def subspan_def)
  note k = generate_matrix_cells(1) [OF A] wf_generate_vector [OF assms(1)] wf_generate_vector [OF assms(1)]
  note p = keypair_public [OF k] and v = keypair_valid [OF k rho]
  have pk: "pk = fst (keypair_of k rho A (generate_vector k eta1 sigma 0) (generate_vector k eta1 sigma (of_nat k)))"
    and sk: "sk = snd (keypair_of k rho A (generate_vector k eta1 sigma 0) (generate_vector k eta1 sigma (of_nat k)))"
    unfolding key [symmetric] by simp_all
  show "length pk = get_pke_public_key_len k" "length sk = k * 384" "valid_encoding k pk"
    unfolding pk sk p(4,5) using rho by (simp_all add: get_pke_public_key_len_def v)
  have "subspan (k * 12 * 32) 32 pk = rho"
    unfolding pk p(2) using rho by simp
  then show "generate_matrix k True (subspan (k * 12 * 32) 32 pk) \<noteq> None"
    using A generate_matrix_transposed(2) [of k rho] by simp
qed

lemma length_cipher:
  assumes "check_l du" "check_l dv"
  shows "length (cipher_of k du dv t A r e1 e2 msg) = get_pke_cipher_text_len k du dv"
  using assms by (simp add: cipher_of_def Let_def length_poly_vec_encode length_encode get_pke_cipher_text_len_def)

lemma encrypt_length:
  assumes "check_encrypt_params k eta1 eta2 du dv" "length pk = get_pke_public_key_len k" "length c = get_pke_cipher_text_len k du dv"
  shows "pred_option (\<lambda>r. length (snd r) = get_pke_cipher_text_len k du dv) (pke_encrypt k eta1 eta2 du dv pk msg rcoin c)"
proof -
  have l: "check_l du" "check_l dv"
    using assms(1) by (auto simp: check_encrypt_params_def check_l_def)
  show ?thesis
    using encrypt_cases [OF assms(2)] assms(3) length_cipher [OF l]
    by (cases "valid_encoding k pk") (auto simp: option.pred_set)
qed

text \<open>With an acceptable key the output does not depend on what the buffer held.\<close>

lemma encrypt_buffer:
  assumes "length pk = get_pke_public_key_len k" "valid_encoding k pk"
  shows "pke_encrypt k eta1 eta2 du dv pk msg rcoin c = pke_encrypt k eta1 eta2 du dv pk msg rcoin c'"
  unfolding encrypt_cases(2) [OF assms] ..

lemma hash_spans:
  "subspan 0 32 (sha3_512_hash g) = take 32 (sha3_512_hash g)" "subspan 32 32 (sha3_512_hash g) = drop 32 (sha3_512_hash g)"
  "length (sha3_512_hash g) = 64" "length (sha3_256_hash g) = 32"
  using digest_lengths by (simp_all add: subspan_def sha3_512_hash_def sha3_256_hash_def)

lemma decapsulate_eq:
  assumes par: "check_decap_params k eta1 eta2 du dv"
    and len: "length sk = k * 384" "length pk = get_pke_public_key_len k" "length h = 32" "length z = 32"
      "length cipher = get_kem_cipher_text_len k du dv" "length out = 32"
  shows "kem_decapsulate k eta1 eta2 du dv (sk @ pk @ h @ z) cipher out =
    (let m = pke_decrypt k du dv sk cipher; g = sha3_512_hash (m @ h)
     in map_option (\<lambda>r. if snd r = cipher then take 32 g else z)
          (pke_encrypt k eta1 eta2 du dv pk m (drop 32 g) (replicate (length cipher) 0)))"
proof -
  define m where "m = pke_decrypt k du dv sk cipher"
  define g where "g = sha3_512_hash (m @ h)"
  have parts: "subspan 0 (k * 12 * 32) (sk @ pk @ h @ z) = sk"
    "subspan (k * 12 * 32) (k * 12 * 32 + (k * 12 * 32 + 32) - k * 12 * 32) (sk @ pk @ h @ z) = pk"
    "subspan (k * 12 * 32 + (k * 12 * 32 + 32)) (k * 12 * 32 + (k * 12 * 32 + 32) + 32 - (k * 12 * 32 + (k * 12 * 32 + 32))) (sk @ pk @ h @ z) = h"
    "subspan (k * 12 * 32 + (k * 12 * 32 + 32) + 32) (length (sk @ pk @ h @ z) - (k * 12 * 32 + (k * 12 * 32 + 32) + 32)) (sk @ pk @ h @ z) = z"
    using len by (simp_all add: subspan_def get_pke_public_key_len_def)
  have ep: "check_encrypt_params k eta1 eta2 du dv"
    using par by (simp add: check_decap_params_def check_encap_params_def)
  have "kem_decapsulate k eta1 eta2 du dv (sk @ pk @ h @ z) cipher out =
      map_option (\<lambda>r. ct_cond_memcpy (ct_memcmp cipher (snd r)) out (take 32 g) z)
        (pke_encrypt k eta1 eta2 du dv pk m (drop 32 g) (replicate (length cipher) 0))"
    unfolding kem_decapsulate_def Let_def parts m_def [symmetric] sha3_512_hash_def [symmetric] g_def [symmetric]
    by (simp add: g_def hash_spans split: option.split)
  also have "\<dots> = map_option (\<lambda>r. if snd r = cipher then take 32 g else z)
        (pke_encrypt k eta1 eta2 du dv pk m (drop 32 g) (replicate (length cipher) 0))"
  proof (rule option.map_cong [OF refl])
    fix r
    assume "r \<in> set_option (pke_encrypt k eta1 eta2 du dv pk m (drop 32 g) (replicate (length cipher) 0))"
    then have "length (snd r) = length cipher"
      using encrypt_length [OF ep len(2), of "replicate (length cipher) 0" m "drop 32 g"] len(5)
      by (auto simp: get_kem_cipher_text_len_def)
    then have "ct_memcmp cipher (snd r) = truth (cipher = snd r)"
      by (intro ct_memcmp_iff)
    then show "ct_cond_memcpy (ct_memcmp cipher (snd r)) out (take 32 g) z = (if snd r = cipher then take 32 g else z)"
      using ct_cond_memcpy_iff [of "take 32 g" out z "cipher = snd r"] len(4,6) hash_spans(3) [of "m @ h"]
      by (auto simp: g_def)
  qed
  finally show ?thesis
    unfolding Let_def m_def g_def .
qed

lemma encapsulate_eq:
  assumes "length pk = get_pke_public_key_len k" "valid_encoding k pk"
  shows "kem_encapsulate k eta1 eta2 du dv m pk c out =
    (let g = sha3_512_hash (m @ sha3_256_hash pk)
     in map_option (\<lambda>r. (True, snd r, take 32 g)) (pke_encrypt k eta1 eta2 du dv pk m (drop 32 g) c))"
  unfolding kem_encapsulate_def Let_def sha3_512_hash_def [symmetric] sha3_256_hash_def [symmetric] hash_spans
  using encrypt_cases(2) [OF assms] by (auto simp: option.map_comp split: option.split)

lemma kem_keygen_eq:
  "kem_keygen k eta1 d z = map_option (\<lambda>(pk, sk). (pk, sk @ pk @ sha3_256_hash pk @ z)) (pke_keygen k eta1 d)"
  by (simp add: kem_keygen_def sha3_256_hash_def Let_def split: option.split)

lemma encap_params:
  assumes "check_encap_params k eta1 eta2 du dv"
  shows "check_eta eta1" "check_eta eta2" "check_l du" "check_l dv" "check_decap_params k eta1 eta2 du dv"
    "check_encrypt_params k eta1 eta2 du dv"
  using assms by (auto simp: check_encap_params_def check_decap_params_def check_encrypt_params_def check_eta_def check_l_def)

text \<open>What the holder of the secret key derives from a cipher text made with the public key.\<close>

lemma own_key_agreement:
  assumes par: "check_encap_params k eta1 eta2 du dv"
    and key: "length sk = k * 384" "length pk = get_pke_public_key_len k" "valid_encoding k pk" "length z = 32"
    and buf: "length c0 = get_kem_cipher_text_len k du dv" "length out = 32"
    and enc: "kem_encapsulate k eta1 eta2 du dv m pk c0 out0 = Some (ok, c, K)" and dec: "pke_decrypt k du dv sk c = m"
  shows "ok \<and> kem_decapsulate k eta1 eta2 du dv (sk @ pk @ sha3_256_hash pk @ z) c out = Some K"
proof -
  define g where "g = sha3_512_hash (m @ sha3_256_hash pk)"
  obtain b where e: "pke_encrypt k eta1 eta2 du dv pk m (drop 32 g) c0 = Some (b, c)" and ok: "ok" and K: "K = take 32 g"
    using enc unfolding encapsulate_eq [OF key(2,3)] Let_def g_def by auto
  have c: "length c = get_kem_cipher_text_len k du dv"
    using encrypt_length [OF encap_params(6) [OF par] key(2), of c0 m "drop 32 g"] e buf(1) by (simp add: get_kem_cipher_text_len_def)
  have "pke_encrypt k eta1 eta2 du dv pk m (drop 32 g) (replicate (length c) 0) = Some (b, c)"
    using e encrypt_buffer [OF key(2,3), of eta1 eta2 du dv m "drop 32 g" c0] by simp
  then show ?thesis
    using decapsulate_eq [OF encap_params(5) [OF par] key(1,2) hash_spans(4) key(4) c buf(2), of pk] ok
    unfolding Let_def dec g_def [symmetric] by (simp add: K)
qed

section \<open>Properties\<close>



text \<open>
  C19: decapsulation re-encrypts the decrypted message and compares in constant time: it returns the derived secret
  when the cipher texts agree and otherwise the bytes \<open>z\<close> of the secret key themselves.  The standard prescribes
  \<open>J(z \<parallel> c)\<close> for that case; \<open>j_out\<close> is computed and then not used.\<close>

theorem decapsulate_selects:
  assumes "check_decap_params k eta1 eta2 du dv" "length sk = k * 384" "length pk = get_pke_public_key_len k"
    "length h = 32" "length z = 32" "length cipher = get_kem_cipher_text_len k du dv" "length out = 32"
  shows "kem_decapsulate k eta1 eta2 du dv (sk @ pk @ h @ z) cipher out =
    (let m = pke_decrypt k du dv sk cipher; g = sha3_512_hash (m @ h)
     in map_option (\<lambda>r. if snd r = cipher then take 32 g else z)
          (pke_encrypt k eta1 eta2 du dv pk m (drop 32 g) (replicate (length cipher) 0)))"
  using assms by (rule decapsulate_eq)

text \<open>A secret key that holds no valid public key makes the re-encryption fail; the result is \<open>z\<close>.\<close>

theorem decapsulate_selects_witness:
  "kem_decapsulate 2 3 2 10 4 (replicate 768 0 @ replicate 800 255 @ replicate 32 1 @ replicate 32 9) (replicate 768 5) (replicate 32 0) =
    Some (replicate 32 9)"
proof -
  have "coeff_12 (subspan (0 * 384) 384 (replicate 800 255)) 0 = 4095"
    by (simp add: coeff_12_def subspan_def upt_rec bit_simps)
  then have "\<not> valid_encoding 2 (replicate 800 255)"
    unfolding valid_encoding_def by (intro notI) (drule spec [of _ 0], drule mp, simp, drule spec [of _ 0], simp)
  then have "pke_encrypt 2 3 2 10 4 (replicate 800 255) m r (replicate 768 0) = Some (False, replicate 768 0)" for m r
    by (intro encrypt_cases(1)) (simp_all add: get_pke_public_key_len_def)
  moreover have "replicate 768 0 \<noteq> replicate 768 (5 :: u8)"
    by (simp add: replicate_eq_replicate)
  ultimately show ?thesis
    using decapsulate_selects [of 2 3 2 10 4 "replicate 768 0" "replicate 800 255" "replicate 32 1" "replicate 32 9" "replicate 768 5" "replicate 32 0"]
    by (simp add: check_decap_params_def check_encap_params_def check_encrypt_params_def get_pke_public_key_len_def
        get_kem_cipher_text_len_def get_pke_cipher_text_len_def Let_def)
qed

end
