(* ===== verification/Spec2Isabelle.thy ===== *)
theory Spec2Isabelle
  imports Host_Client Remote Client_Link Ppp_Uart Server_Task Zigbee_Boot Qr_Render Kem_Scheme
begin

text \<open>
  A Zigbee coordinator driven from a Linux host.

  \<^bold>\<open>The program.\<close>  The firmware (\<^verbatim>\<open>src/zb_rpc_server/main\<close>) runs a Zigbee coordinator and speaks PPP on a
  UART; over PPP it offers its coordinator functions as remote procedures on a TCP socket.  The Linux
  program (\<^verbatim>\<open>src/zb_rpc_client\<close>) opens the serial port, runs the other end of PPP on lwIP, connects and
  runs a thermostat application, which is written against the same header of coordinator functions
  that the firmware implements.  \<^verbatim>\<open>src/zb_rpc_shared\<close> holds what both ends share: the wire protocol, the
  engine that frames messages on a socket and the helpers built on C++ reflection.  \<^verbatim>\<open>src/zb_rpc\<close> is a host
  simulation: a simulated coordinator, a server and a client whose catalogue and dispatcher are derived by
  reflection from function signatures.  \<^verbatim>\<open>src/tools/qrtext\<close> is a command line tool that prints a text as a QR Code,
  and \<^verbatim>\<open>src/tools/ml_kem_512_single.hpp\<close> a header with the key encapsulation mechanism ML-KEM-512 and what it needs.

  \<^bold>\<open>The shared layer.\<close>
  \<^item> Zb_Prelude: machine integers, fact collections, generic lemmas.  Step_Machine: the contracts
    \<open>machine_inv\<close> and \<open>obligation\<close> for components whose callbacks and tasks interleave.
  \<^item> Sock_IO and Engine model \<^verbatim>\<open>engine.hpp\<close>: \<open>read_all\<close> and \<open>write_all\<close> over the answers of the kernel,
    headers and payloads, \<open>call\<close> and \<open>invoke_one\<close>.  They show that every way TCP cuts a byte stream gives
    the same messages, that what is sent is received, and that each call consumes input, which is
    why the serving loop ends.
  \<^item> Protocol models \<^verbatim>\<open>protocol.hpp\<close>: the locale \<open>wire_layout\<close> states what the engine needs of a payload type,
    \<open>rpc_entry\<close> what it needs of a descriptor; each structure and each descriptor is an interpretation.
  \<^item> Reflection models \<^verbatim>\<open>reflection.hpp\<close>: which types may travel, procedure names, the bounded text dump.

  \<^bold>\<open>The firmware.\<close>
  \<^item> Zigbee_Stack models \<^verbatim>\<open>zigbee_stack.c\<close>: its static variables are the record \<open>zb_stack\<close>, each callback and each
    API function is one definition.  A blocking call runs the callbacks of the next window until what it
    waits for is there; the locale \<open>freertos\<close> states the documented behaviour of queues and semaphores,
    \<open>with_freertos\<close> provides it.  Stack_Props has the theorems: answers of discoveries and reads, timeouts, bounded
    strings, one free per bind request.
  \<^item> Zigbee_Boot models the start of the stack (\<open>zigbee_main_task\<close>, \<open>zigbee_create_device\<close>, \<^verbatim>\<open>thermostat.h\<close>).
  \<^item> Rpc_Server models \<^verbatim>\<open>rpc_server.cpp\<close>: handlers, dispatch chain, serving loop, listener and accept loop; Server_Task
    the endless task turn after turn.  The theorems: one response per request and in order, one
    error frame for a malformed one, the Zigbee lock balanced, no null pointer used, a bounded announcement
    wait, no descriptor leaked.
  \<^item> Ppp_Uart models \<^verbatim>\<open>ppp_uart.c\<close> and \<^verbatim>\<open>app_main.c\<close>: event handlers, the reconnect task as a program counter that
    moves between any events, UART traffic and the start order.

  \<^bold>\<open>The client.\<close>
  \<^item> Zigbee_Rpc models the RPC provider of \<^verbatim>\<open>zigbee_api.h\<close>, Thermostat_App the application \<^verbatim>\<open>thermostat_app.hpp\<close> as a
    state-monad program over the record \<open>zigbee_api\<close>; the locale \<open>api_sim\<close> says when two providers agree.
  \<^item> Remote composes application, provider, engine and server: over the link the application computes what it
    computes when it runs on the device.
  \<^item> Client_Main models \<^verbatim>\<open>main.cpp\<close>; the trace of acquisitions and releases is checked by \<open>track\<close>.
  \<^item> Netdev_Fwd models \<^verbatim>\<open>netdev_fwd.c\<close>, Ppp_Link models \<^verbatim>\<open>ppp_link.c\<close>, \<^verbatim>\<open>ppp_lwip.c\<close> and \<^verbatim>\<open>serial_io.c\<close>: heap objects that may be
    absent, buffers with their sizes, threads as lists of labels.  Client_Link runs the trace of \<open>main\<close> on
    the objects of Ppp_Link, interleaved with the threads.

  \<^bold>\<open>The host simulation.\<close>  Host_Sim models \<^verbatim>\<open>sim_zigbee.cpp\<close>, \<^verbatim>\<open>auto_rpc.hpp\<close>, \<^verbatim>\<open>catalog.hpp\<close>, \<^verbatim>\<open>dispatch.hpp\<close>, \<^verbatim>\<open>sock.hpp\<close> and
  \<^verbatim>\<open>server.cpp\<close>; Host_Client models \<^verbatim>\<open>client.cpp\<close>.  The derived catalogue is the firmware's, the dispatcher generated by
  reflection behaves like the fold over the listed handlers, and a whole session of the two programs is computed.

  \<^bold>\<open>The QR Code tool.\<close>  A routine of \<^verbatim>\<open>qrcodegen.h\<close> returns an option: \<open>None\<close> is an assertion that fails or an access
  outside an array, so that a result is a proof that neither happens.
  \<^item> Qr_Memory has the array accesses, \<open>for_each\<close> for the counted loops and the bits of a buffer; Qr_Bits the segments:
    \<open>appendBitsToBuffer\<close>, the numeric, alphanumeric, byte and ECI encodings, each but the last with a reader that undoes it.
  \<^item> Qr_Field and Qr_Ecc: \<open>reedSolomonMultiply\<close> is multiplication in the field with 256 elements, and data followed by its
    remainder vanishes at the roots of the generator polynomial.
  \<^item> Qr_Grid and Qr_Function: the modules and the function patterns.  \<open>paints\<close>, \<open>fills\<close> and \<open>touches\<close> are the contracts of
    drawing operations; \<open>is_function\<close> says which modules the patterns take.
  \<^item> Qr_Count: the tables, and that the formula for the data modules counts them.  Qr_Blocks: the blocks and
    their interleaving.  Qr_Data: zigzag scan and masks.  Qr_Penalty: the penalty score.
  \<^item> Qr_Encode: \<open>qrcodegen_encodeSegmentsAdvanced\<close> in the stages of its source, \<open>qrcodegen_encodeText\<close> and
    \<open>qrcodegen_encodeBinary\<close>.  Qr_Symbol composes the stages, Qr_Text has the theorems about texts: the
    encoder is defined for all arguments the documentation allows, takes the smallest version and the mask with the least
    penalty, and its symbols read back as the text.
  \<^item> Qr_Render: the two text renderers, instances of the locale \<open>renderer\<close>, and the program \<^verbatim>\<open>qrcodegen.c\<close>.

  \<^bold>\<open>The key encapsulation mechanism.\<close>  The header \<^verbatim>\<open>ml_kem_512_single.hpp\<close> in the order of its namespaces; words have their width, arrays
  are lists, and where sampling may go on forever the result is an option.
  \<^item> Kem_Keccak, Kem_Sponge, Kem_Hash: the unrolled permutation is the rounds of FIPS 202; absorbing and squeezing in
    blocks is absorbing and squeezing byte by byte (locale \<open>sponge_instance\<close>, interpreted at each rate), so that digests and
    streams do not depend on how the bytes are cut into calls.  Kem_Random: the generator \<open>randomshake_t\<close>.
  \<^item> Kem_Field, Kem_Ntt, Kem_Conv: \<open>zq_t\<close> is the field of 3329 elements (locale \<open>ring_elements\<close>), the in-place transforms undo
    each other, and multiplication between them is multiplication modulo \<open>X\<^sup>2\<^sup>5\<^sup>6 + 1\<close>.
  \<^item> Kem_Compress, Kem_Code, Kem_Subtle: rounding, bit packing (locale \<open>packing\<close>, six interpretations), comparison and selection
    without branches.  Kem_Sample: rejection and centred binomial sampling.
  \<^item> Kem_Ring makes the canonical polynomials a commutative ring; Kem_Vector has the vector and matrix routines; Kem_Pke
    the encryption scheme, whose decryption recovers the message while the noise is below a quarter of the modulus;
    Kem_Scheme the mechanism and its instance for ML-KEM-512: both sides derive the same secret.

  \<^bold>\<open>Environment and bounds.\<close>  What is not in the repository answers through arguments: \<open>zb_env\<close> (the Zigbee SDK and
  FreeRTOS), \<open>srv_env\<close> and \<open>listener_env\<close> (polls and sockets of the server), \<open>main_env\<close>, \<open>link_env\<close> and \<open>listen_env\<close> (kernel,
  threads and lwIP on the client), \<open>ppp_codes\<close> (event numbers of ESP-IDF).  Theorems quantify over them; where one needs
  documented behaviour it is a hypothesis.  No recursion has fuel: rejection sampling and the generator's loop are partial functions, with theorems that say when they return; loops over
  sockets end because each turn consumes an answer of the kernel (a used-up list means end of file for
  reads and full acceptance for writes), counted loops have the source's counts (50 connection attempts, ten
  polls per second of waiting, slices of 250 ms in a wait of 180000 ms), and endless tasks run on
  a list of turns or labels, over which the theorems quantify.

  \<^bold>\<open>Not modelled.\<close>  Log text other than the application's lines, socket options, the terminal line settings and
  the hex log of the serial port, UART pins and baud rate.  The header copies under
  \<^verbatim>\<open>src/zb_rpc/include\<close> differ from the shared ones only in the default host, the missing
  \<open>get_sensor_addr\<close> and the way an empty request is passed to its handler; the shared definitions serve
  for both.  \<^verbatim>\<open>ip6_stub.c\<close> and \<^verbatim>\<open>lwipopts.h\<close> are constants for lwIP.  Of ML-KEM the
  execution time and the probability that noise exceeds its bound are not modelled; the values of \<open>std::random_device\<close>
  are a parameter.  In the QR Code tool the wording of the messages on
  standard error is left out, and integers are mathematical: the theorems bound the buffers and the penalty score.
\<close>

end
